(* ===== verification/Prelude.thy ===== *)
theory Prelude
  imports Main "HOL-Library.Word" "HOL-Library.Char_ord" "HOL-Library.List_Lexorder"
    "HOL-Library.Product_Lexorder" "HOL-Library.Sublist"
begin

text \<open>
  Shared vocabulary of the development: the machine integers of the Rust code, its saturating
  and checked arithmetic on \<^verbatim>\<open>usize\<close> and \<^verbatim>\<open>u64\<close>, the byte strings, and the generic list
  facts that several components use. A \<^verbatim>\<open>usize\<close> that counts or indexes elements of a vector
  is a \<open>nat\<close> with its ceiling \<open>usize_max\<close> written out wherever the code saturates or checks;
  a \<^verbatim>\<open>u64\<close> that arrives from outside is a \<open>64 word\<close>.
\<close>

named_theorems code_facts \<open>unfolding rules for the small accessors of the model\<close>

section \<open>Machine integers\<close>

type_synonym u8 = "8 word"
type_synonym u16 = "16 word"
type_synonym u32 = "32 word"
type_synonym u64 = "64 word"
type_synonym bytes = "u8 list"

abbreviation usize_max :: nat where
  "usize_max \<equiv> 18446744073709551615"

abbreviation u64_max :: u64 where
  "u64_max \<equiv> 18446744073709551615"

text \<open>\<^verbatim>\<open>usize::saturating_add\<close>, \<^verbatim>\<open>usize::saturating_sub\<close>, \<^verbatim>\<open>usize::saturating_mul\<close>
  and \<^verbatim>\<open>usize::checked_add\<close> of a 64-bit target.\<close>

definition sat_add :: "nat \<Rightarrow> nat \<Rightarrow> nat" where
  "sat_add a b = min (a + b) usize_max"

definition sat_sub :: "nat \<Rightarrow> nat \<Rightarrow> nat" where
  "sat_sub a b = a - b"

definition sat_mul :: "nat \<Rightarrow> nat \<Rightarrow> nat" where
  "sat_mul a b = min (a * b) usize_max"

definition checked_add :: "nat \<Rightarrow> nat \<Rightarrow> nat option" where
  "checked_add a b = (if a + b \<le> usize_max then Some (a + b) else None)"

lemma sat_add_le [simp]: "sat_add a b \<le> a + b"
  by (simp add: sat_add_def)

lemma sat_add_max [simp]: "sat_add a b \<le> usize_max"
  by (simp add: sat_add_def)

lemma sat_add_exact: "a + b \<le> usize_max \<Longrightarrow> sat_add a b = a + b"
  by (simp add: sat_add_def)

lemma sat_add_ge_left: "a \<le> usize_max \<Longrightarrow> a \<le> sat_add a b"
  by (simp add: sat_add_def)

lemma sat_mul_exact: "a * b \<le> usize_max \<Longrightarrow> sat_mul a b = a * b"
  by (simp add: sat_mul_def)

lemma checked_add_Some_iff [simp]:
  "checked_add a b = Some c \<longleftrightarrow> c = a + b \<and> a + b \<le> usize_max"
  by (auto simp: checked_add_def)

lemma checked_add_None_iff [simp]: "checked_add a b = None \<longleftrightarrow> usize_max < a + b"
  by (auto simp: checked_add_def)

text \<open>The same operations on a \<^verbatim>\<open>u64\<close> word.\<close>

definition sat_mul64 :: "u64 \<Rightarrow> u64 \<Rightarrow> u64" where
  "sat_mul64 a b = (if unat a * unat b < 2 ^ 64 then a * b else u64_max)"

definition sat_add64 :: "u64 \<Rightarrow> u64 \<Rightarrow> u64" where
  "sat_add64 a b = (if unat a + unat b < 2 ^ 64 then a + b else u64_max)"

definition sat_sub64 :: "u64 \<Rightarrow> u64 \<Rightarrow> u64" where
  "sat_sub64 a b = (if b \<le> a then a - b else 0)"

definition checked_add64 :: "u64 \<Rightarrow> u64 \<Rightarrow> u64 option" where
  "checked_add64 a b = (if unat a + unat b < 2 ^ 64 then Some (a + b) else None)"

definition checked_sub64 :: "u64 \<Rightarrow> u64 \<Rightarrow> u64 option" where
  "checked_sub64 a b = (if b \<le> a then Some (a - b) else None)"

definition checked_mul64 :: "u64 \<Rightarrow> u64 \<Rightarrow> u64 option" where
  "checked_mul64 a b = (if unat a * unat b < 2 ^ 64 then Some (a * b) else None)"

text \<open>\<^verbatim>\<open>u64::try_from(n).unwrap_or(u64::MAX)\<close> for a \<^verbatim>\<open>usize\<close> \<open>n\<close>.\<close>

definition u64_of_usize :: "nat \<Rightarrow> u64" where
  "u64_of_usize n = (if n < 2 ^ 64 then of_nat n else u64_max)"

lemma unat_u64_of_usize: "unat (u64_of_usize n) = min n usize_max"
  by (auto simp: u64_of_usize_def unat_of_nat min_def)

lemma u64_of_usize_0 [simp]: "u64_of_usize n = 0 \<longleftrightarrow> n = 0"
proof -
  have "u64_of_usize n = 0 \<longleftrightarrow> unat (u64_of_usize n) = 0"
    by (simp add: unat_eq_zero)
  also have "\<dots> \<longleftrightarrow> n = 0"
    by (auto simp: unat_u64_of_usize min_def)
  finally show ?thesis .
qed

lemma unat_sat_mul64: "unat (sat_mul64 a b) = min (unat a * unat b) (2 ^ 64 - 1)"
  by (auto simp: sat_mul64_def unat_word_ariths min_def)

lemma unat_sat_add64: "unat (sat_add64 a b) = min (unat a + unat b) (2 ^ 64 - 1)"
  by (auto simp: sat_add64_def unat_word_ariths min_def)

lemma checked_add64_Some_iff:
  "checked_add64 a b = Some c \<longleftrightarrow> unat c = unat a + unat b"
proof
  assume "checked_add64 a b = Some c"
  then show "unat c = unat a + unat b"
    by (auto simp: checked_add64_def unat_word_ariths split: if_splits)
next
  assume c: "unat c = unat a + unat b"
  have "unat c < 2 ^ 64"
    using unsigned_less [of c] by simp
  with c have lt: "unat a + unat b < 2 ^ 64" by simp
  then have "unat (a + b) = unat c"
    using c by (simp add: unat_word_ariths)
  then have "a + b = c" by (rule unsigned_word_eqI)
  with lt show "checked_add64 a b = Some c"
    by (simp add: checked_add64_def)
qed

lemma checked_mul64_SomeD: "checked_mul64 a b = Some c \<Longrightarrow> unat c = unat a * unat b"
  by (auto simp: checked_mul64_def unat_word_ariths split: if_splits)

section \<open>Errors as values\<close>

text \<open>\<^verbatim>\<open>?\<close> on a \<^verbatim>\<open>Result\<close>: the error is returned, the value is bound.\<close>

definition ok_then :: "'e + 'a \<Rightarrow> ('a \<Rightarrow> 'e + 'b) \<Rightarrow> 'e + 'b" where
  "ok_then r f = (case r of Inl e \<Rightarrow> Inl e | Inr v \<Rightarrow> f v)"

lemma ok_then_simps [simp]:
  "ok_then (Inl e) f = Inl e"
  "ok_then (Inr v) f = f v"
  by (simp_all add: ok_then_def)

lemma ok_then_Inr_iff: "ok_then r f = Inr b \<longleftrightarrow> (\<exists>a. r = Inr a \<and> f a = Inr b)"
  by (cases r) auto

lemma ok_then_Inl_iff: "ok_then r f = Inl e \<longleftrightarrow> r = Inl e \<or> (\<exists>a. r = Inr a \<and> f a = Inl e)"
  by (cases r) auto

text \<open>The first error of a checking loop, or success: \<^verbatim>\<open>for x in xs { check(x)?; }\<close>.\<close>

fun check_all :: "('a \<Rightarrow> 'e + unit) \<Rightarrow> 'a list \<Rightarrow> 'e + unit" where
  "check_all f [] = Inr ()"
| "check_all f (x # xs) = ok_then (f x) (\<lambda>_. check_all f xs)"

lemma check_all_Inr_iff: "check_all f xs = Inr u \<longleftrightarrow> (\<forall>x \<in> set xs. f x = Inr ())"
  by (induction xs) (auto simp: ok_then_Inr_iff)

section \<open>Options\<close>

lemma option_ext: "(\<And>y. x = Some y \<longleftrightarrow> z = Some y) \<Longrightarrow> x = z"
  by (cases x; cases z) auto

section \<open>Lists\<close>

text \<open>\<^verbatim>\<open>xs.get(i)\<close>.\<close>

definition list_get :: "'a list \<Rightarrow> nat \<Rightarrow> 'a option" where
  "list_get xs i = (if i < length xs then Some (xs ! i) else None)"

lemma list_get_Some_iff [simp]: "list_get xs i = Some x \<longleftrightarrow> i < length xs \<and> xs ! i = x"
  by (auto simp: list_get_def)

lemma list_get_None_iff [simp]: "list_get xs i = None \<longleftrightarrow> length xs \<le> i"
  by (auto simp: list_get_def)

text \<open>\<^verbatim>\<open>xs.first()\<close>, \<^verbatim>\<open>xs.last()\<close>.\<close>

definition first_of :: "'a list \<Rightarrow> 'a option" where
  "first_of xs = (case xs of [] \<Rightarrow> None | x # _ \<Rightarrow> Some x)"

lemma first_of_simps [simp]:
  "first_of [] = None" "first_of (x # xs) = Some x"
  by (simp_all add: first_of_def)

lemma first_of_None_iff [simp]: "first_of xs = None \<longleftrightarrow> xs = []"
  by (cases xs) simp_all

lemma first_of_in_set: "first_of xs = Some x \<Longrightarrow> x \<in> set xs"
  by (cases xs) simp_all

lemma first_of_append: "first_of (xs @ ys) = (case first_of xs of None \<Rightarrow> first_of ys | Some x \<Rightarrow> Some x)"
  by (cases xs) simp_all

definition last_of :: "'a list \<Rightarrow> 'a option" where
  "last_of xs = (if xs = [] then None else Some (last xs))"

lemma last_of_Some_iff: "last_of xs = Some x \<longleftrightarrow> xs \<noteq> [] \<and> x = last xs"
  by (auto simp: last_of_def)

text \<open>\<^verbatim>\<open>xs.windows(n)\<close>, for \<open>n > 0\<close>.\<close>

fun windows :: "nat \<Rightarrow> 'a list \<Rightarrow> 'a list list" where
  "windows n [] = []"
| "windows n (x # xs) = (if n \<le> Suc (length xs) then take n (x # xs) # windows n xs else [])"

lemma windows_mem_iff:
  assumes "0 < n"
  shows "w \<in> set (windows n xs) \<longleftrightarrow> length w = n \<and> (\<exists>pre post. xs = pre @ w @ post)"
  using assms
proof (induction xs)
  case Nil
  then show ?case by auto
next
  case (Cons x xs)
  show ?case
  proof (cases "n \<le> Suc (length xs)")
    case True
    have "(w = take n (x # xs) \<or> (length w = n \<and> (\<exists>pre post. xs = pre @ w @ post))) \<longleftrightarrow>
      (length w = n \<and> (\<exists>pre post. x # xs = pre @ w @ post))" (is "?L \<longleftrightarrow> ?R")
    proof
      assume ?L
      then show ?R
      proof
        assume w: "w = take n (x # xs)"
        then have "x # xs = [] @ w @ drop n (x # xs)" by simp
        moreover have "length w = n" using True w by simp
        ultimately show ?R by blast
      next
        assume "length w = n \<and> (\<exists>pre post. xs = pre @ w @ post)"
        then show ?R by (metis append_Cons)
      qed
    next
      assume ?R
      then obtain pre post where *: "length w = n" "x # xs = pre @ w @ post" by blast
      show ?L
      proof (cases pre)
        case Nil
        with * have "w = take n (x # xs)" by simp
        then show ?L ..
      next
        case (Cons y ys)
        with * show ?L by auto
      qed
    qed
    with True Cons show ?thesis by auto
  next
    case False
    then have "length w \<noteq> n" if "x # xs = pre @ w @ post" for pre post
      using arg_cong [OF that, of length] by auto
    with False show ?thesis by auto
  qed
qed

text \<open>The position of the first element that satisfies a predicate: \<^verbatim>\<open>iter().position(p)\<close>.\<close>

fun position :: "('a \<Rightarrow> bool) \<Rightarrow> 'a list \<Rightarrow> nat option" where
  "position P [] = None"
| "position P (x # xs) = (if P x then Some 0 else map_option Suc (position P xs))"

lemma position_Some_iff:
  "position P xs = Some i \<longleftrightarrow> i < length xs \<and> P (xs ! i) \<and> (\<forall>j < i. \<not> P (xs ! j))"
proof (induction xs arbitrary: i)
  case Nil
  then show ?case by simp
next
  case (Cons x xs)
  then show ?case
    by (cases i) (auto simp: All_less_Suc2)
qed

lemma position_None_iff: "position P xs = None \<longleftrightarrow> (\<forall>x \<in> set xs. \<not> P x)"
  by (induction xs) auto

text \<open>\<^verbatim>\<open>iter().enumerate()\<close>: the pairs of an index and an element.\<close>

abbreviation enumerated :: "'a list \<Rightarrow> (nat \<times> 'a) list" where
  "enumerated xs \<equiv> List.enumerate 0 xs"

lemma bex_enumerated: "(\<exists>x \<in> set (enumerated xs). Q (snd x)) \<longleftrightarrow> (\<exists>y \<in> set xs. Q y)"
proof -
  have "set xs = snd ` set (enumerated xs)"
    by (metis map_snd_enumerate set_map)
  then show ?thesis by (metis (no_types, lifting) bex_imageD image_eqI)
qed

lemma enumerated_mem: "(i, x) \<in> set (enumerated xs) \<longleftrightarrow> i < length xs \<and> xs ! i = x"
  by (simp add: in_set_enumerate_eq)

lemma sorted_wrt_filter: "sorted_wrt P xs \<Longrightarrow> sorted_wrt P (filter Q xs)"
  by (induction xs) auto

lemma sum_list_filter_le: "sum_list (map (f :: 'a \<Rightarrow> nat) (filter P xs)) \<le> sum_list (map f xs)"
  by (induction xs) auto

lemma takeWhile_is_Some_map: "map the (takeWhile (\<lambda>x. x \<noteq> None) xs) = ys \<Longrightarrow> length ys \<le> length xs"
  using length_takeWhile_le [of "\<lambda>x. x \<noteq> None" xs] by auto

text \<open>\<^verbatim>\<open>iter().collect::<Option<Vec<_>>>()\<close>: every element, or \<open>None\<close> at the first hole.\<close>

fun collect_options :: "'a option list \<Rightarrow> 'a list option" where
  "collect_options [] = Some []"
| "collect_options (None # xs) = None"
| "collect_options (Some x # xs) = map_option (Cons x) (collect_options xs)"

lemma collect_options_Some_iff: "collect_options xs = Some ys \<longleftrightarrow> xs = map Some ys"
  by (induction xs arbitrary: ys rule: collect_options.induct) auto

lemma collect_options_None_iff: "collect_options xs = None \<longleftrightarrow> None \<in> set xs"
  by (induction xs rule: collect_options.induct) auto

end
