(* ===== verification/BTree.thy ===== *)
theory BTree
  imports Prelude
begin

text \<open>
  The ordered containers of the Rust standard library, as the code uses them: a
  \<^verbatim>\<open>BTreeMap<K, V>\<close> is the list of its entries in strictly increasing key order, which is
  the order its iterators give; a \<^verbatim>\<open>BTreeSet<T>\<close> is the strictly increasing list of its
  elements. The interface \<open>ordered_map\<close> states what the clients rely on; the
  interpretation \<open>bt\<close> discharges it for the model.
\<close>

section \<open>Maps\<close>

type_synonym ('k, 'v) btree = "('k \<times> 'v) list"

abbreviation bt_get :: "('k, 'v) btree \<Rightarrow> 'k \<Rightarrow> 'v option" where
  "bt_get \<equiv> map_of"

abbreviation bt_keys :: "('k, 'v) btree \<Rightarrow> 'k list" where
  "bt_keys m \<equiv> map fst m"

definition bt_ok :: "('k :: linorder, 'v) btree \<Rightarrow> bool" where
  "bt_ok m \<longleftrightarrow> sorted_wrt (<) (bt_keys m)"

definition bt_contains :: "('k, 'v) btree \<Rightarrow> 'k \<Rightarrow> bool" where
  "bt_contains m k \<longleftrightarrow> bt_get m k \<noteq> None"

text \<open>\<^verbatim>\<open>insert\<close> replaces the value of an existing key in place.\<close>

definition bt_insert :: "'k :: linorder \<Rightarrow> 'v \<Rightarrow> ('k, 'v) btree \<Rightarrow> ('k, 'v) btree" where
  "bt_insert k v m = takeWhile (\<lambda>e. fst e < k) m @ (k, v) #
     dropWhile (\<lambda>e. fst e \<le> k) m"

definition bt_remove :: "'k \<Rightarrow> ('k, 'v) btree \<Rightarrow> ('k, 'v) btree" where
  "bt_remove k m = filter (\<lambda>e. fst e \<noteq> k) m"

definition bt_retain :: "('k \<Rightarrow> 'v \<Rightarrow> bool) \<Rightarrow> ('k, 'v) btree \<Rightarrow> ('k, 'v) btree" where
  "bt_retain P m = filter (\<lambda>(k, v). P k v) m"

text \<open>\<^verbatim>\<open>entry(k).or_insert(v)\<close>.\<close>

definition bt_or_insert :: "'k :: linorder \<Rightarrow> 'v \<Rightarrow> ('k, 'v) btree \<Rightarrow> ('k, 'v) btree" where
  "bt_or_insert k v m = (if bt_contains m k then m else bt_insert k v m)"

text \<open>\<^verbatim>\<open>get_mut(k)\<close> followed by an assignment: nothing happens when the key is absent.\<close>

definition bt_modify :: "'k \<Rightarrow> ('v \<Rightarrow> 'v) \<Rightarrow> ('k, 'v) btree \<Rightarrow> ('k, 'v) btree" where
  "bt_modify k f m = map (\<lambda>(k', v). (k', if k' = k then f v else v)) m"

definition bt_map_values :: "('k \<Rightarrow> 'v \<Rightarrow> 'v) \<Rightarrow> ('k, 'v) btree \<Rightarrow> ('k, 'v) btree" where
  "bt_map_values f m = map (\<lambda>(k, v). (k, f k v)) m"

text \<open>\<^verbatim>\<open>collect::<BTreeMap<_, _>>()\<close>: later pairs replace earlier ones.\<close>

definition bt_of_list :: "('k :: linorder \<times> 'v) list \<Rightarrow> ('k, 'v) btree" where
  "bt_of_list xs = fold (\<lambda>(k, v). bt_insert k v) xs []"

subsection \<open>The interface\<close>

locale ordered_map =
  fixes none :: "'m"
    and get :: "'m \<Rightarrow> 'k :: linorder \<Rightarrow> 'v option"
    and ins :: "'k \<Rightarrow> 'v \<Rightarrow> 'm \<Rightarrow> 'm"
    and del :: "'k \<Rightarrow> 'm \<Rightarrow> 'm"
    and keys :: "'m \<Rightarrow> 'k list"
    and ok :: "'m \<Rightarrow> bool"
  assumes ok_none: "ok none"
    and get_none: "get none k = None"
    and ok_ins: "ok m \<Longrightarrow> ok (ins k v m)"
    and get_ins: "ok m \<Longrightarrow> get (ins k v m) k' = (if k' = k then Some v else get m k')"
    and ok_del: "ok m \<Longrightarrow> ok (del k m)"
    and get_del: "ok m \<Longrightarrow> get (del k m) k' = (if k' = k then None else get m k')"
    and keys_iff: "ok m \<Longrightarrow> k \<in> set (keys m) \<longleftrightarrow> get m k \<noteq> None"
    and keys_sorted: "ok m \<Longrightarrow> sorted_wrt (<) (keys m)"
begin

lemma ok_fold: "ok m \<Longrightarrow> ok (fold (\<lambda>x. ins (f x) (g x)) xs m)"
  by (induction xs arbitrary: m) (auto simp: ok_ins)

lemma get_fold:
  "ok m \<Longrightarrow> get (fold (\<lambda>x. ins (f x) (g x)) xs m) k =
     (case find (\<lambda>x. f x = k) (rev xs) of None \<Rightarrow> get m k | Some x \<Rightarrow> Some (g x))"
proof (induction xs rule: rev_induct)
  case Nil
  then show ?case by simp
next
  case (snoc x xs)
  then show ?case by (auto simp: get_ins ok_fold)
qed

lemma get_fold_distinct:
  assumes "ok m" "distinct (map f xs)" "x \<in> set xs"
  shows "get (fold (\<lambda>x. ins (f x) (g x)) xs m) (f x) = Some (g x)"
proof -
  have "find (\<lambda>y. f y = f x) (rev xs) = Some x"
  proof (cases "find (\<lambda>y. f y = f x) (rev xs)")
    case None
    with assms(3) show ?thesis by (auto simp: find_None_iff)
  next
    case (Some y)
    then have "y \<in> set xs" "f y = f x"
      by (auto simp: find_Some_iff) (metis length_rev nth_mem set_rev)
    with assms have "y = x" by (auto simp: distinct_map inj_on_def)
    with Some show ?thesis by simp
  qed
  with assms(1) show ?thesis by (simp add: get_fold)
qed

lemma get_fold_other:
  assumes "ok m" "k \<notin> f ` set xs"
  shows "get (fold (\<lambda>x. ins (f x) (g x)) xs m) k = get m k"
proof -
  have "find (\<lambda>x. f x = k) (rev xs) = None"
    using assms(2) by (auto simp: find_None_iff)
  with assms(1) show ?thesis by (simp add: get_fold)
qed

lemma keys_distinct: "ok m \<Longrightarrow> distinct (keys m)"
  using keys_sorted by (auto simp: strict_sorted_iff)

lemma card_keys_le:
  assumes "ok m" "finite S" "\<And>k. get m k \<noteq> None \<Longrightarrow> k \<in> S"
  shows "length (keys m) \<le> card S"
proof -
  have "set (keys m) \<subseteq> S" using assms keys_iff by blast
  then have "card (set (keys m)) \<le> card S" using assms(2) by (rule card_mono [rotated])
  then show ?thesis using assms(1) by (simp add: distinct_card keys_distinct)
qed

end

subsection \<open>The model satisfies it\<close>

lemma bt_ok_Nil [simp]: "bt_ok []"
  by (simp add: bt_ok_def)

lemma bt_ok_Cons: "bt_ok (e # m) \<longleftrightarrow> (\<forall>e' \<in> set m. fst e < fst e') \<and> bt_ok m"
  by (auto simp: bt_ok_def)

lemma bt_ok_append:
  "bt_ok (m @ n) \<longleftrightarrow> bt_ok m \<and> bt_ok n \<and> (\<forall>e \<in> set m. \<forall>e' \<in> set n. fst e < fst e')"
  by (auto simp: bt_ok_def sorted_wrt_append)

lemma bt_ok_distinct: "bt_ok m \<Longrightarrow> distinct (bt_keys m)"
  by (auto simp: bt_ok_def strict_sorted_iff)

lemma bt_ok_filter: "bt_ok m \<Longrightarrow> bt_ok (filter P m)"
  by (induction m) (auto simp: bt_ok_Cons)

lemma bt_ok_takeWhile: "bt_ok m \<Longrightarrow> bt_ok (takeWhile P m)"
  by (metis bt_ok_append takeWhile_dropWhile_id)

lemma bt_ok_dropWhile: "bt_ok m \<Longrightarrow> bt_ok (dropWhile P m)"
  by (metis bt_ok_append takeWhile_dropWhile_id)

lemma set_dropWhile_le:
  "bt_ok m \<Longrightarrow> set (dropWhile (\<lambda>e. fst e \<le> k) m) = {e \<in> set m. k < fst e}"
  by (induction m) (auto simp: bt_ok_Cons)

lemma set_takeWhile_less:
  "bt_ok m \<Longrightarrow> set (takeWhile (\<lambda>e. fst e < k) m) = {e \<in> set m. fst e < k}"
  by (induction m) (auto simp: bt_ok_Cons)

lemma bt_ok_insert: "bt_ok m \<Longrightarrow> bt_ok (bt_insert k v m)"
  by (auto simp: bt_insert_def bt_ok_append bt_ok_Cons bt_ok_takeWhile bt_ok_dropWhile
      set_dropWhile_le set_takeWhile_less)

lemma bt_get_iff: "bt_ok m \<Longrightarrow> bt_get m k = Some v \<longleftrightarrow> (k, v) \<in> set m"
  by (simp add: bt_ok_distinct)

lemma set_bt_insert: "bt_ok m \<Longrightarrow> set (bt_insert k v m) = insert (k, v) {e \<in> set m. fst e \<noteq> k}"
  by (auto simp: bt_insert_def set_dropWhile_le set_takeWhile_less)

lemma bt_get_insert:
  assumes "bt_ok m"
  shows "bt_get (bt_insert k v m) k' = (if k' = k then Some v else bt_get m k')"
  by (rule option_ext)
    (use assms in \<open>auto simp: bt_get_iff bt_ok_insert set_bt_insert\<close>)

lemma bt_ok_remove: "bt_ok m \<Longrightarrow> bt_ok (bt_remove k m)"
  by (simp add: bt_remove_def bt_ok_filter)

lemma bt_get_remove:
  assumes "bt_ok m"
  shows "bt_get (bt_remove k m) k' = (if k' = k then None else bt_get m k')"
  by (rule option_ext)
    (use assms in \<open>auto simp: bt_get_iff bt_ok_remove[unfolded bt_remove_def] bt_remove_def
      bt_ok_filter\<close>)

interpretation bt: ordered_map "[]" bt_get bt_insert bt_remove bt_keys bt_ok
  by unfold_locales
    (auto simp: bt_ok_insert bt_get_insert bt_ok_remove bt_get_remove map_of_eq_None_iff
      dest: bt_ok_def [THEN iffD1])

lemma bt_unique: "bt_ok m \<Longrightarrow> (k, v) \<in> set m \<Longrightarrow> (k, v') \<in> set m \<Longrightarrow> v = v'"
  by (metis bt_get_iff option.inject)

lemma bt_ok_retain: "bt_ok m \<Longrightarrow> bt_ok (bt_retain P m)"
  by (simp add: bt_retain_def bt_ok_filter)

lemma bt_get_retain:
  assumes "bt_ok m"
  shows "bt_get (bt_retain P m) k =
    (case bt_get m k of None \<Rightarrow> None | Some v \<Rightarrow> if P k v then Some v else None)"
  by (rule option_ext)
    (use assms in \<open>auto simp: bt_get_iff bt_ok_retain[unfolded bt_retain_def] bt_retain_def
      map_of_eq_None_iff image_iff split: option.splits dest: bt_unique\<close>)

lemma bt_keys_modify [simp]: "bt_keys (bt_modify k f m) = bt_keys m"
  by (induction m) (auto simp: bt_modify_def)

lemma bt_ok_modify [simp]: "bt_ok (bt_modify k f m) = bt_ok m"
  by (simp add: bt_ok_def)

lemma bt_get_modify:
  "bt_get (bt_modify k f m) k' = (if k' = k then map_option f (bt_get m k) else bt_get m k')"
  by (induction m) (auto simp: bt_modify_def)

lemma bt_keys_map_values [simp]: "bt_keys (bt_map_values f m) = bt_keys m"
  by (induction m) (auto simp: bt_map_values_def)

lemma bt_ok_map_values [simp]: "bt_ok (bt_map_values f m) = bt_ok m"
  by (simp add: bt_ok_def)

lemma bt_get_map_values: "bt_get (bt_map_values f m) k = map_option (f k) (bt_get m k)"
  by (induction m) (auto simp: bt_map_values_def)

lemma bt_ok_or_insert: "bt_ok m \<Longrightarrow> bt_ok (bt_or_insert k v m)"
  by (simp add: bt_or_insert_def bt_ok_insert)

lemma bt_get_or_insert:
  "bt_ok m \<Longrightarrow> bt_get (bt_or_insert k v m) k' =
     (if k' = k \<and> bt_get m k = None then Some v else bt_get m k')"
  by (auto simp: bt_or_insert_def bt_contains_def bt_get_insert)

lemma bt_ok_of_list: "bt_ok (bt_of_list xs)"
  using bt.ok_fold [of "[]" fst snd xs] by (simp add: bt_of_list_def case_prod_unfold)

lemma bt_get_of_list:
  "bt_get (bt_of_list xs) k = map_option snd (find (\<lambda>e. fst e = k) (rev xs))"
  using bt.get_fold [of "[]" fst snd xs k]
  by (auto simp: bt_of_list_def case_prod_unfold split: option.splits)

text \<open>Two maps with the same lookups are the same list of entries.\<close>

lemma bt_ext:
  assumes "bt_ok m" "bt_ok n" "\<And>k. bt_get m k = bt_get n k"
  shows "m = n"
proof -
  have s: "set m = set n"
    using assms by (auto simp flip: bt_get_iff)
  then have k: "bt_keys m = bt_keys n"
    using assms(1,2) by (intro sorted_distinct_set_unique)
      (auto simp: bt_ok_def strict_sorted_iff)
  have g: "bt_get m = bt_get n"
    using assms(3) by (rule ext)
  have rebuild: "map (\<lambda>k. (k, the (bt_get l k))) (bt_keys l) = l" if "bt_ok l" for l :: "('a, 'b) btree"
  proof -
    have "map (\<lambda>e. (fst e, the (bt_get l (fst e)))) l = l"
      using that by (intro map_idI) (auto simp: bt_ok_distinct)
    then show ?thesis by (simp add: comp_def)
  qed
  show ?thesis
    using rebuild [OF assms(1)] rebuild [OF assms(2)] k g by simp
qed

text \<open>The total weight of the values: what byte accounting over a map adds up.\<close>

definition bt_weight :: "('v \<Rightarrow> nat) \<Rightarrow> ('k, 'v) btree \<Rightarrow> nat" where
  "bt_weight f m = sum_list (map (f \<circ> snd) m)"

lemma bt_weight_simps [simp]:
  "bt_weight f [] = 0"
  "bt_weight f (e # m) = f (snd e) + bt_weight f m"
  "bt_weight f (m @ n) = bt_weight f m + bt_weight f n"
  by (simp_all add: bt_weight_def)

lemma bt_weight_remove:
  assumes "bt_ok m"
  shows "bt_weight f m = bt_weight f (bt_remove k m) +
    (case bt_get m k of None \<Rightarrow> 0 | Some v \<Rightarrow> f v)"
  using assms
proof (induction m)
  case Nil
  then show ?case by (simp add: bt_remove_def)
next
  case (Cons e m)
  show ?case
  proof (cases "fst e = k")
    case True
    with Cons.prems have "bt_remove k m = m"
      by (auto simp: bt_remove_def bt_ok_Cons filter_id_conv)
    with True show ?thesis by (cases e) (simp add: bt_remove_def)
  next
    case False
    with Cons show ?thesis by (cases e) (simp add: bt_remove_def bt_ok_Cons)
  qed
qed

lemma bt_insert_fresh_weight:
  assumes "bt_ok m" "bt_get m k = None"
  shows "bt_weight f (bt_insert k v m) = f v + bt_weight f m"
proof -
  have "dropWhile (\<lambda>e. fst e \<le> k) m = dropWhile (\<lambda>e. fst e < k) m"
    using assms by (intro dropWhile_cong) (auto simp: map_of_eq_None_iff image_iff order.order_iff_strict)
  moreover have "bt_weight f m = bt_weight f (takeWhile (\<lambda>e. fst e < k) m) +
      bt_weight f (dropWhile (\<lambda>e. fst e < k) m)"
    by (metis bt_weight_simps(3) takeWhile_dropWhile_id)
  ultimately show ?thesis by (simp add: bt_insert_def)
qed

section \<open>Sets\<close>

text \<open>
  A \<^verbatim>\<open>BTreeSet\<close> is its strictly increasing element list; \<^verbatim>\<open>insert\<close> also reports
  whether the element was new.
\<close>

type_synonym 'a bset = "'a list"

abbreviation bs_ok :: "'a :: linorder bset \<Rightarrow> bool" where
  "bs_ok s \<equiv> sorted_wrt (<) s"

definition bs_insert :: "'a :: linorder \<Rightarrow> 'a bset \<Rightarrow> 'a bset" where
  "bs_insert x s = insort_insert x s"

definition bs_remove :: "'a \<Rightarrow> 'a bset \<Rightarrow> 'a bset" where
  "bs_remove x s = filter (\<lambda>y. y \<noteq> x) s"

definition bs_of_list :: "'a :: linorder list \<Rightarrow> 'a bset" where
  "bs_of_list xs = fold bs_insert xs []"

lemma set_bs_insert [simp]: "set (bs_insert x s) = insert x (set s)"
  by (simp add: bs_insert_def set_insort_insert)

lemma set_bs_remove [simp]: "set (bs_remove x s) = set s - {x}"
  by (auto simp: bs_remove_def)

lemma bs_ok_insert: "bs_ok s \<Longrightarrow> bs_ok (bs_insert x s)"
  by (auto simp: strict_sorted_iff bs_insert_def sorted_insort_insert distinct_insort_insert)

lemma bs_ok_remove: "bs_ok s \<Longrightarrow> bs_ok (bs_remove x s)"
  by (simp add: bs_remove_def sorted_wrt_filter)

lemma bs_ok_fold: "bs_ok s \<Longrightarrow> bs_ok (fold bs_insert xs s)"
  by (induction xs arbitrary: s) (auto simp: bs_ok_insert)

lemma set_bs_fold: "set (fold bs_insert xs s) = set xs \<union> set s"
  by (induction xs arbitrary: s) auto

lemma bs_ok_of_list [simp]: "bs_ok (bs_of_list xs)"
  by (simp add: bs_of_list_def bs_ok_fold)

lemma set_bs_of_list [simp]: "set (bs_of_list xs) = set xs"
  by (simp add: bs_of_list_def set_bs_fold)

text \<open>\<^verbatim>\<open>iter.all(|x| seen.insert(x))\<close>: every element is new.\<close>

fun all_new :: "'a :: linorder bset \<Rightarrow> 'a list \<Rightarrow> bool" where
  "all_new seen [] = True"
| "all_new seen (x # xs) = (x \<notin> set seen \<and> all_new (bs_insert x seen) xs)"

lemma all_new_iff: "all_new seen xs \<longleftrightarrow> distinct xs \<and> set xs \<inter> set seen = {}"
  by (induction xs arbitrary: seen) auto

end
