(* ===== verification/Bitcoin.thy ===== *)
theory Bitcoin
  imports BTree
begin

text \<open>
  The boundary with the third-party crate \<^verbatim>\<open>bitcoin\<close>: the public data it hands to the
  program (transactions, outpoints, decoded script instructions) as records and datatypes, and
  the functions of the crate the program calls as the fields of the record \<open>rust_bitcoin\<close>,
  which is an argument of every definition that uses one of them. The locale
  \<open>script_decoder\<close> states what the documentation of \<^verbatim>\<open>Script::instruction_indices\<close> promises
  and the program relies on; \<open>reference_bitcoin\<close> at the end is one concrete instance, written
  from the published script encoding, on which the locale is interpreted and every witness
  evaluates.
\<close>

section \<open>Data\<close>

text \<open>A \<^verbatim>\<open>Txid\<close> is its 32 bytes in internal order; it is ordered bytewise.\<close>

type_synonym txid = bytes

datatype out_point = OutPoint (op_txid: txid) (op_vout: u32)

text \<open>\<^verbatim>\<open>OutPoint\<close> derives \<^verbatim>\<open>Ord\<close>: by \<^verbatim>\<open>txid\<close>, then by \<^verbatim>\<open>vout\<close>.\<close>

instantiation out_point :: linorder
begin

definition less_eq_out_point :: "out_point \<Rightarrow> out_point \<Rightarrow> bool" where
  "less_eq_out_point a b \<longleftrightarrow> (op_txid a, op_vout a) \<le> (op_txid b, op_vout b)"

definition less_out_point :: "out_point \<Rightarrow> out_point \<Rightarrow> bool" where
  "less_out_point a b \<longleftrightarrow> (op_txid a, op_vout a) < (op_txid b, op_vout b)"

instance
proof
  fix a b c :: out_point
  show "a < b \<longleftrightarrow> a \<le> b \<and> \<not> b \<le> a"
    by (auto simp: less_eq_out_point_def less_out_point_def)
  show "a \<le> a"
    by (simp add: less_eq_out_point_def)
  show "a \<le> b \<Longrightarrow> b \<le> c \<Longrightarrow> a \<le> c"
    unfolding less_eq_out_point_def by (rule order_trans)
  show "a \<le> b \<Longrightarrow> b \<le> a \<Longrightarrow> a = b"
    by (cases a; cases b) (auto simp: less_eq_out_point_def)
  show "a \<le> b \<or> b \<le> a"
    unfolding less_eq_out_point_def by (rule linear)
qed

end

record tx_in =
  previous_output :: out_point
  script_sig :: bytes
  tx_sequence :: u32
  tx_witness :: "bytes list"

record tx_out =
  tx_value :: u64
  script_pubkey :: bytes

record transaction =
  tx_version :: u32
  tx_inputs :: "tx_in list"
  tx_outputs :: "tx_out list"

datatype instruction = PushBytes bytes | Op u8

text \<open>
  One item of the iterator \<^verbatim>\<open>instruction_indices()\<close>: the byte offset and the instruction, or
  \<open>None\<close> for the item \<^verbatim>\<open>Err(_)\<close> of a malformed push.
\<close>

type_synonym indexed_instruction = "(nat \<times> instruction) option"

section \<open>Functions of the crate\<close>

record rust_bitcoin =
  instruction_indices :: "bytes \<Rightarrow> indexed_instruction list"
  instructions :: "bytes \<Rightarrow> instruction option list"
  is_p2pk :: "bytes \<Rightarrow> bool"
  is_multisig :: "bytes \<Rightarrow> bool"
  is_p2pkh :: "bytes \<Rightarrow> bool"
  is_p2sh :: "bytes \<Rightarrow> bool"
  is_p2wpkh :: "bytes \<Rightarrow> bool"
  is_p2wsh :: "bytes \<Rightarrow> bool"
  is_p2tr :: "bytes \<Rightarrow> bool"
  is_witness_program :: "bytes \<Rightarrow> bool"
  is_op_return :: "bytes \<Rightarrow> bool"
  is_rbf :: "u32 \<Rightarrow> bool"
  is_null :: "out_point \<Rightarrow> bool"
  is_coinbase :: "transaction \<Rightarrow> bool"
  total_size :: "transaction \<Rightarrow> nat"
  base_size :: "transaction \<Rightarrow> nat"

text \<open>The items before the first error: what a loop that breaks at \<^verbatim>\<open>Err(_)\<close> sees.\<close>

definition decoded_prefix :: "'a option list \<Rightarrow> 'a list" where
  "decoded_prefix items = map the (takeWhile (\<lambda>x. x \<noteq> None) items)"

lemma decoded_prefix_simps [simp]:
  "decoded_prefix [] = []"
  "decoded_prefix (None # xs) = []"
  "decoded_prefix (Some x # xs) = x # decoded_prefix xs"
  by (simp_all add: decoded_prefix_def)

lemma decoded_prefix_map_Some [simp]: "decoded_prefix (map Some xs) = xs"
  by (induction xs) auto

section \<open>What the program relies on\<close>

text \<open>
  The documentation of \<^verbatim>\<open>instruction_indices\<close>: each item carries the index of its opcode in
  the script, in script order; a push yields the bytes that follow its opcode in the script.
\<close>

locale script_decoder =
  fixes decode :: "bytes \<Rightarrow> indexed_instruction list"
  assumes positions_increase: "sorted_wrt (<) (map fst (decoded_prefix (decode s)))"
    and push_in_script:
      "(pos, PushBytes b) \<in> set (decoded_prefix (decode s)) \<Longrightarrow> pos + 1 + length b \<le> length s"
    and op_in_script:
      "(pos, Op c) \<in> set (decoded_prefix (decode s)) \<Longrightarrow> pos < length s \<and> s ! pos = c"
begin

lemma position_in_script: "(pos, x) \<in> set (decoded_prefix (decode s)) \<Longrightarrow> pos < length s"
  by (cases x) (auto dest: push_in_script op_in_script)

lemma position_determines:
  assumes "(pos, x) \<in> set (decoded_prefix (decode s))" "(pos, y) \<in> set (decoded_prefix (decode s))"
  shows "x = y"
proof -
  have "distinct (map fst (decoded_prefix (decode s)))"
    using positions_increase [of s] by (simp add: strict_sorted_iff)
  with assms show ?thesis
    by (metis Pair_inject eq_key_imp_eq_value)
qed

lemma positions_of_filter:
  "sorted_wrt (<) (map fst (filter P (decoded_prefix (decode s))))"
  using positions_increase [of s] by (simp add: sorted_wrt_map sorted_wrt_filter)

lemma small_script_small_push:
  "(pos, PushBytes b) \<in> set (decoded_prefix (decode s)) \<Longrightarrow> length s \<le> n \<Longrightarrow> length b < n"
  by (auto dest: push_in_script)

end

section \<open>A concrete instance\<close>

text \<open>
  The published script encoding: opcodes \<open>0x00\<close> to \<open>0x4b\<close> push that many bytes, \<open>0x4c\<close>,
  \<open>0x4d\<close> and \<open>0x4e\<close> push a length of one, two or four little-endian bytes; every other
  opcode stands for itself. A push that runs past the end is an error, and the last item.
\<close>

definition le_value :: "bytes \<Rightarrow> nat" where
  "le_value bs = foldr (\<lambda>b n. unat b + 256 * n) bs 0"

definition push_width :: "u8 \<Rightarrow> nat option" where
  "push_width c = (if c \<le> 0x4b then Some 0 else if c = 0x4c then Some 1
     else if c = 0x4d then Some 2 else if c = 0x4e then Some 4 else None)"

text \<open>The payload of a push and the bytes after it.\<close>

definition split_push :: "u8 \<Rightarrow> nat \<Rightarrow> bytes \<Rightarrow> (bytes \<times> bytes) option" where
  "split_push c w rest =
     (let n = (if w = 0 then unat c else le_value (take w rest))
      in if w + n \<le> length rest then Some (take n (drop w rest), drop (w + n) rest) else None)"

lemma split_push_length:
  "split_push c w rest = Some (p, r) \<Longrightarrow> length p + length r \<le> length rest"
  by (auto simp: split_push_def Let_def split: if_splits)

function reference_decode :: "nat \<Rightarrow> bytes \<Rightarrow> indexed_instruction list" where
  "reference_decode pos [] = []"
| "reference_decode pos (c # rest) =
     (case push_width c of
        None \<Rightarrow> Some (pos, Op c) # reference_decode (pos + 1) rest
      | Some w \<Rightarrow>
          (case split_push c w rest of
             None \<Rightarrow> [None]
           | Some (p, r) \<Rightarrow>
               Some (pos, PushBytes p) # reference_decode (pos + 1 + (length rest - length r)) r))"
  by pat_completeness auto
termination
  by (relation "measure (\<lambda>(pos, s). length s)") (auto dest: split_push_length)

lemma reference_decode_at:
  "(q, x) \<in> set (decoded_prefix (reference_decode pos s)) \<Longrightarrow>
     pos \<le> q \<and> q < pos + length s \<and>
     (case x of Op c \<Rightarrow> s ! (q - pos) = c | PushBytes b \<Rightarrow> q + 1 + length b \<le> pos + length s)"
proof (induction pos s rule: reference_decode.induct)
  case (1 pos)
  then show ?case by simp
next
  case (2 pos c rest)
  show ?case
  proof (cases "push_width c")
    case None
    then consider "q = pos" "x = Op c" | "(q, x) \<in> set (decoded_prefix (reference_decode (pos + 1) rest))"
      using 2(3) by auto
    then show ?thesis
    proof cases
      case 1
      then show ?thesis by simp
    next
      case 2
      note at = "2.IH"(1) [OF None this]
      then have "pos + 1 \<le> q" by (rule conjunct1)
      then have "q - pos = Suc (q - (pos + 1))" by simp
      with at show ?thesis
        by (cases x) auto
    qed
  next
    case (Some w)
    show ?thesis
    proof (cases "split_push c w rest")
      case None
      with Some 2(3) show ?thesis by simp
    next
      case sp: (Some pr)
      obtain p r where pr: "pr = (p, r)" by (cases pr)
      have len: "length p + length r \<le> length rest"
        using sp pr split_push_length by blast
      have drop: "r = drop (length rest - length r) rest"
        using sp pr by (auto simp: split_push_def Let_def split: if_splits)
      consider "q = pos" "x = PushBytes p"
        | "(q, x) \<in> set (decoded_prefix (reference_decode (pos + 1 + (length rest - length r)) r))"
        using 2(3) Some sp pr by auto
      then show ?thesis
      proof cases
        case 1
        with len show ?thesis by simp
      next
        case 2
        let ?k = "length rest - length r"
        from "2.IH"(2) [OF Some sp pr [symmetric] 2]
        have *: "pos + 1 + ?k \<le> q" "q < pos + 1 + ?k + length r"
          "case x of Op c \<Rightarrow> r ! (q - (pos + 1 + ?k)) = c
           | PushBytes b \<Rightarrow> q + 1 + length b \<le> pos + 1 + ?k + length r"
          by auto
        let ?j = "q - (pos + 1 + ?k)"
        have "r ! ?j = drop ?k rest ! ?j"
          using drop by simp
        also have "\<dots> = rest ! (?k + ?j)"
          by (simp add: nth_drop)
        also have "\<dots> = (c # rest) ! (q - pos)"
        proof -
          from *(1) have "q - pos = Suc (?k + ?j)" by arith
          then show ?thesis by simp
        qed
        finally have "r ! ?j = (c # rest) ! (q - pos)" .
        with * len show ?thesis by (cases x) auto
      qed
    qed
  qed
qed

lemma reference_decode_sorted:
  "sorted_wrt (<) (map fst (decoded_prefix (reference_decode pos s)))"
proof (induction pos s rule: reference_decode.induct)
  case (1 pos)
  then show ?case by simp
next
  case (2 pos c rest)
  then show ?case
    by (auto split: option.splits dest!: reference_decode_at)
qed

interpretation reference: script_decoder "reference_decode 0"
  by unfold_locales
    (auto simp: reference_decode_sorted dest!: reference_decode_at)

definition reference_program :: "bytes \<Rightarrow> (u8 \<times> nat) option" where
  "reference_program s =
     (if 4 \<le> length s \<and> length s \<le> 42 \<and> unat (s ! 1) + 2 = length s \<and>
        (s ! 0 = 0 \<or> (0x51 \<le> s ! 0 \<and> s ! 0 \<le> 0x60))
      then Some (s ! 0, length s - 2) else None)"

definition reference_multisig :: "bytes \<Rightarrow> bool" where
  "reference_multisig s =
     (case map (map_option snd) (reference_decode 0 s) of
        Some (Op m) # rest \<Rightarrow>
          (0x51 \<le> m \<and> m \<le> 0x60 \<and> 2 \<le> length rest \<and> last rest = Some (Op 0xae) \<and>
           (case last (butlast rest) of Some (Op n) \<Rightarrow> unat n = 0x50 + (length rest - 2) | _ \<Rightarrow> False))
      | _ \<Rightarrow> False)"

definition reference_bitcoin :: rust_bitcoin where
  "reference_bitcoin =
     \<lparr> instruction_indices = reference_decode 0,
       instructions = (\<lambda>s. map (map_option snd) (reference_decode 0 s)),
       is_p2pk = (\<lambda>s. (length s = 35 \<or> length s = 67) \<and> unat (hd s) + 2 = length s \<and> last s = 0xac),
       is_multisig = reference_multisig,
       is_p2pkh = (\<lambda>s. length s = 25 \<and> take 3 s = [0x76, 0xa9, 0x14] \<and> drop 23 s = [0x88, 0xac]),
       is_p2sh = (\<lambda>s. length s = 23 \<and> take 2 s = [0xa9, 0x14] \<and> last s = 0x87),
       is_p2wpkh = (\<lambda>s. reference_program s = Some (0, 20)),
       is_p2wsh = (\<lambda>s. reference_program s = Some (0, 32)),
       is_p2tr = (\<lambda>s. reference_program s = Some (0x51, 32)),
       is_witness_program = (\<lambda>s. reference_program s \<noteq> None),
       is_op_return = (\<lambda>s. s \<noteq> [] \<and> hd s = 0x6a),
       is_rbf = (\<lambda>n. n < 0xfffffffe),
       is_null = (\<lambda>p. op_vout p = 0xffffffff \<and> op_txid p = replicate 32 0),
       is_coinbase = (\<lambda>tx. length (tx_inputs tx) = 1 \<and>
         op_vout (previous_output (hd (tx_inputs tx))) = 0xffffffff \<and>
         op_txid (previous_output (hd (tx_inputs tx))) = replicate 32 0),
       total_size = (\<lambda>tx. sum_list (map (\<lambda>out. 9 + length (script_pubkey out)) (tx_outputs tx)) +
         sum_list (map (\<lambda>inp. 41 + length (script_sig inp) + sum_list (map length (tx_witness inp)))
           (tx_inputs tx))),
       base_size = (\<lambda>tx. sum_list (map (\<lambda>out. 9 + length (script_pubkey out)) (tx_outputs tx)) +
         sum_list (map (\<lambda>inp. 41 + length (script_sig inp)) (tx_inputs tx))) \<rparr>"

lemma reference_bitcoin_decoder: "script_decoder (instruction_indices reference_bitcoin)"
  using reference.script_decoder_axioms by (simp add: reference_bitcoin_def)

end
