(* ===== verification/Bip110_Types.thy ===== *)
theory Bip110_Types
  imports Bitcoin
begin

text \<open>
  The vocabulary of the BIP-110 evaluator: the constants and the evaluation context of
  \<^verbatim>\<open>src/bip110/context.rs\<close>, the prevout facts of \<^verbatim>\<open>prevout.rs\<close> and the evidence-carrying
  verdicts of \<^verbatim>\<open>verdict.rs\<close>.
\<close>

section \<open>Constants\<close>

definition MAX_OUTPUT_SCRIPT_SIZE :: nat where "MAX_OUTPUT_SCRIPT_SIZE = 34"
definition MAX_OUTPUT_DATA_SIZE :: nat where "MAX_OUTPUT_DATA_SIZE = 83"
definition MAX_SCRIPT_ELEMENT_SIZE_REDUCED :: nat where "MAX_SCRIPT_ELEMENT_SIZE_REDUCED = 256"
definition TAPROOT_CONTROL_BASE_SIZE :: nat where "TAPROOT_CONTROL_BASE_SIZE = 33"
definition TAPROOT_CONTROL_NODE_SIZE :: nat where "TAPROOT_CONTROL_NODE_SIZE = 32"
definition TAPROOT_CONTROL_MAX_NODE_COUNT_REDUCED :: nat where
  "TAPROOT_CONTROL_MAX_NODE_COUNT_REDUCED = 7"
definition TAPROOT_CONTROL_MAX_SIZE_REDUCED :: nat where
  "TAPROOT_CONTROL_MAX_SIZE_REDUCED =
     TAPROOT_CONTROL_BASE_SIZE + TAPROOT_CONTROL_NODE_SIZE * TAPROOT_CONTROL_MAX_NODE_COUNT_REDUCED"
definition ANNEX_TAG :: u8 where "ANNEX_TAG = 0x50"
definition TAPROOT_LEAF_MASK :: u8 where "TAPROOT_LEAF_MASK = 0xfe"
definition TAPROOT_LEAF_TAPSCRIPT :: u8 where "TAPROOT_LEAF_TAPSCRIPT = 0xc0"
definition OP_RETURN :: u8 where "OP_RETURN = 0x6a"
definition ACTIVE_DURATION :: u32 where "ACTIVE_DURATION = 52416"

lemmas bip110_limits =
  MAX_OUTPUT_SCRIPT_SIZE_def MAX_OUTPUT_DATA_SIZE_def MAX_SCRIPT_ELEMENT_SIZE_REDUCED_def
  TAPROOT_CONTROL_BASE_SIZE_def TAPROOT_CONTROL_NODE_SIZE_def
  TAPROOT_CONTROL_MAX_NODE_COUNT_REDUCED_def TAPROOT_CONTROL_MAX_SIZE_REDUCED_def

section \<open>Evaluation context\<close>

record evaluation_context =
  activation_height :: "u32 option"
  spend_height :: u32

text \<open>\<^verbatim>\<open>u32::saturating_add\<close>.\<close>

definition sat_add32 :: "u32 \<Rightarrow> u32 \<Rightarrow> u32" where
  "sat_add32 a b = (if unat a + unat b < 2 ^ 32 then a + b else 0xffffffff)"

lemma unat_sat_add32: "unat (sat_add32 a b) = min (unat a + unat b) (2 ^ 32 - 1)"
  by (auto simp: sat_add32_def unat_word_ariths min_def)

definition rdts_active :: "evaluation_context \<Rightarrow> bool" where
  "rdts_active ctx =
     (case activation_height ctx of
        Some h \<Rightarrow> h \<le> spend_height ctx \<and> spend_height ctx < sat_add32 h ACTIVE_DURATION
      | None \<Rightarrow> False)"

definition is_grandfathered :: "evaluation_context \<Rightarrow> u32 \<Rightarrow> bool option" where
  "is_grandfathered ctx creation = map_option (\<lambda>h. creation < h) (activation_height ctx)"

section \<open>Prevout facts\<close>

record prevout_facts =
  pf_script_pubkey :: bytes
  pf_creation_height :: "u32 option"

record prevout_set =
  ps_facts :: "prevout_facts option list"

definition prevout_new :: "bytes \<Rightarrow> u32 option \<Rightarrow> prevout_facts" where
  "prevout_new spk h = \<lparr> pf_script_pubkey = spk, pf_creation_height = h \<rparr>"

definition prevouts_from_vec :: "prevout_facts option list \<Rightarrow> prevout_set" where
  "prevouts_from_vec fs = \<lparr> ps_facts = fs \<rparr>"

definition prevout_get :: "prevout_set \<Rightarrow> nat \<Rightarrow> prevout_facts option" where
  "prevout_get ps i = Option.bind (list_get (ps_facts ps) i) id"

definition prevouts_len :: "prevout_set \<Rightarrow> nat" where
  "prevouts_len ps = length (ps_facts ps)"

lemma prevout_get_from_vec:
  "prevout_get (prevouts_from_vec fs) i = (if i < length fs then fs ! i else None)"
  by (simp add: prevout_get_def prevouts_from_vec_def list_get_def)

section \<open>Verdicts\<close>

datatype evaluation_mode = ConsensusMode | MempoolPolicyMode

datatype rule_id =
    OutputSize | ElementSize | UndefinedVersion | TaprootAnnex | ControlBlockSize
  | OpSuccess | TapscriptOpIf

definition rule_number :: "rule_id \<Rightarrow> nat" where
  "rule_number r = (case r of
     OutputSize \<Rightarrow> 1 | ElementSize \<Rightarrow> 2 | UndefinedVersion \<Rightarrow> 3 | TaprootAnnex \<Rightarrow> 4
   | ControlBlockSize \<Rightarrow> 5 | OpSuccess \<Rightarrow> 6 | TapscriptOpIf \<Rightarrow> 7)"

datatype script_kind = WitnessScript | Tapscript | ScriptSig | RedeemScript | ScriptPubKey

datatype violation =
    OutputScriptTooLarge (v_vout: nat) (v_len: nat) (v_is_op_return: bool) (v_limit: nat)
  | WitnessItemTooLarge (v_input: nat) (v_item_index: nat) (v_len: nat) (v_limit: nat)
  | PushTooLarge (v_input: nat) (v_script: script_kind) (v_opcode_pos: nat) (v_len: nat) (v_limit: nat)
  | UndefinedWitnessVersion (v_input: nat) (v_version: u8) (v_p2sh_wrapped: bool)
      (v_p2a_non_empty_witness: bool)
  | UndefinedTapleafVersion (v_input: nat) (v_leaf_version: u8)
  | TaprootAnnexPresent (v_input: nat) (v_annex_len: nat)
  | ControlBlockTooLarge (v_input: nat) (v_len: nat) (v_depth: "nat option") (v_limit: nat)
  | OpSuccessPresent (v_input: nat) (v_opcode: u8) (v_opcode_pos: nat)
  | TapscriptOpIfFound (v_input: nat) (v_opcode: u8) (v_opcode_pos: nat)

datatype missing =
    MissingScriptPubKey nat
  | MissingCreationHeight nat
  | UnsupportedSpend nat string

datatype rule_verdict =
    Pass
  | Violate "violation list" "missing list"
  | Unknown "missing list"

record primary_violation =
  pv_rule :: rule_id
  pv_evidence :: violation

record rule_outcome =
  ro_rule :: rule_id
  ro_number :: nat
  ro_verdict :: rule_verdict

record tx_evidence =
  te_evaluation_mode :: evaluation_mode
  te_rules_applied :: bool
  te_is_coinbase :: bool
  te_primary_violation :: "primary_violation option"
  te_rules :: "rule_outcome list"

text \<open>The methods of \<^verbatim>\<open>TxEvidence\<close> and \<^verbatim>\<open>RuleVerdict\<close>.\<close>

definition is_pass :: "rule_verdict \<Rightarrow> bool" where
  "is_pass v = (case v of Pass \<Rightarrow> True | _ \<Rightarrow> False)"

definition is_violate :: "rule_verdict \<Rightarrow> bool" where
  "is_violate v = (case v of Violate _ _ \<Rightarrow> True | _ \<Rightarrow> False)"

definition is_unknown :: "rule_verdict \<Rightarrow> bool" where
  "is_unknown v = (case v of Unknown _ \<Rightarrow> True | _ \<Rightarrow> False)"

text \<open>\<^verbatim>\<open>rule\<close> panics when the rule is absent, here \<open>None\<close>.\<close>

definition evidence_rule :: "tx_evidence \<Rightarrow> rule_id \<Rightarrow> rule_outcome option" where
  "evidence_rule e r = find (\<lambda>out. ro_rule out = r) (te_rules e)"

definition any_violation :: "tx_evidence \<Rightarrow> bool" where
  "any_violation e = list_ex (\<lambda>out. is_violate (ro_verdict out)) (te_rules e)"

definition any_unknown :: "tx_evidence \<Rightarrow> bool" where
  "any_unknown e = list_ex (\<lambda>out. is_unknown (ro_verdict out)) (te_rules e)"

text \<open>The rule a kind of evidence belongs to, as the documentation of \<^verbatim>\<open>Violation\<close> states it.\<close>

fun rule_of :: "violation \<Rightarrow> rule_id" where
  "rule_of (OutputScriptTooLarge _ _ _ _) = OutputSize"
| "rule_of (WitnessItemTooLarge _ _ _ _) = ElementSize"
| "rule_of (PushTooLarge _ _ _ _ _) = ElementSize"
| "rule_of (UndefinedWitnessVersion _ _ _ _) = UndefinedVersion"
| "rule_of (UndefinedTapleafVersion _ _) = UndefinedVersion"
| "rule_of (TaprootAnnexPresent _ _) = TaprootAnnex"
| "rule_of (ControlBlockTooLarge _ _ _ _) = ControlBlockSize"
| "rule_of (OpSuccessPresent _ _ _) = OpSuccess"
| "rule_of (TapscriptOpIfFound _ _ _) = TapscriptOpIf"

lemma rule_number_inj: "rule_number a = rule_number b \<longleftrightarrow> a = b"
  by (cases a; cases b) (simp_all add: rule_number_def)

end
