(* ===== verification/Bip110_Scan.thy ===== *)
theory Bip110_Scan
  imports Bip110_Types
begin

unbundle bit_operations_syntax

text \<open>
  Script scanning (\<^verbatim>\<open>src/bip110/script_scan.rs\<close>) and the low-level parsing of witness programs
  and Taproot stacks (\<^verbatim>\<open>src/bip110/witness.rs\<close>). The scanning loops are recursions over the
  items of the decoder and stop at the first malformed push; each is shown equal to a filter
  over the decoded prefix of the script.
\<close>

section \<open>Scanning\<close>

definition is_op_success :: "u8 \<Rightarrow> bool" where
  "is_op_success c \<longleftrightarrow> c = 80 \<or> c = 98 \<or> (126 \<le> c \<and> c \<le> 129) \<or> (131 \<le> c \<and> c \<le> 134) \<or>
     (137 \<le> c \<and> c \<le> 138) \<or> (141 \<le> c \<and> c \<le> 142) \<or> (149 \<le> c \<and> c \<le> 153) \<or>
     (187 \<le> c \<and> c \<le> 254)"

fun pushes_over_loop :: "nat \<Rightarrow> indexed_instruction list \<Rightarrow> (nat \<times> nat) list" where
  "pushes_over_loop limit [] = []"
| "pushes_over_loop limit (None # _) = []"
| "pushes_over_loop limit (Some (pos, PushBytes pb) # rest) =
     (if limit < length pb then (pos, length pb) # pushes_over_loop limit rest
      else pushes_over_loop limit rest)"
| "pushes_over_loop limit (Some (_, Op _) # rest) = pushes_over_loop limit rest"

definition pushes_over :: "rust_bitcoin \<Rightarrow> bytes \<Rightarrow> nat \<Rightarrow> (nat \<times> nat) list" where
  "pushes_over lib script limit = pushes_over_loop limit (instruction_indices lib script)"

fun op_successes_loop :: "indexed_instruction list \<Rightarrow> (nat \<times> u8) list" where
  "op_successes_loop [] = []"
| "op_successes_loop (None # _) = []"
| "op_successes_loop (Some (pos, Op c) # rest) =
     (if is_op_success c then (pos, c) # op_successes_loop rest else op_successes_loop rest)"
| "op_successes_loop (Some (_, PushBytes _) # rest) = op_successes_loop rest"

definition op_successes :: "rust_bitcoin \<Rightarrow> bytes \<Rightarrow> (nat \<times> u8) list" where
  "op_successes lib script = op_successes_loop (instruction_indices lib script)"

fun first_op_if_loop :: "indexed_instruction list \<Rightarrow> (nat \<times> u8) option" where
  "first_op_if_loop [] = None"
| "first_op_if_loop (None # _) = None"
| "first_op_if_loop (Some (pos, Op c) # rest) =
     (if c = 0x63 \<or> c = 0x64 then Some (pos, c) else first_op_if_loop rest)"
| "first_op_if_loop (Some (_, PushBytes _) # rest) = first_op_if_loop rest"

definition first_tapscript_op_if :: "rust_bitcoin \<Rightarrow> bytes \<Rightarrow> (nat \<times> u8) option" where
  "first_tapscript_op_if lib script = first_op_if_loop (instruction_indices lib script)"

subsection \<open>The loops as filters over the decoded prefix\<close>

fun big_push :: "nat \<Rightarrow> nat \<times> instruction \<Rightarrow> bool" where
  "big_push limit (_, PushBytes pb) = (limit < length pb)"
| "big_push limit (_, Op _) = False"

fun push_size :: "nat \<times> instruction \<Rightarrow> nat \<times> nat" where
  "push_size (pos, PushBytes pb) = (pos, length pb)"
| "push_size (pos, Op _) = (pos, 0)"

fun op_code :: "nat \<times> instruction \<Rightarrow> nat \<times> u8" where
  "op_code (pos, Op c) = (pos, c)"
| "op_code (pos, PushBytes _) = (pos, 0)"

fun op_among :: "(u8 \<Rightarrow> bool) \<Rightarrow> nat \<times> instruction \<Rightarrow> bool" where
  "op_among P (_, Op c) = P c"
| "op_among P (_, PushBytes _) = False"

lemma fst_push_size [simp]: "fst (push_size x) = fst x"
  by (cases x rule: push_size.cases) auto

lemma fst_op_code [simp]: "fst (op_code x) = fst x"
  by (cases x rule: op_code.cases) auto

lemma pushes_over_loop_filter:
  "pushes_over_loop limit items = map push_size (filter (big_push limit) (decoded_prefix items))"
  by (induction limit items rule: pushes_over_loop.induct) auto

lemma op_successes_loop_filter:
  "op_successes_loop items = map op_code (filter (op_among is_op_success) (decoded_prefix items))"
  by (induction items rule: op_successes_loop.induct) auto

lemma first_op_if_loop_filter:
  "first_op_if_loop items =
     first_of (map op_code (filter (op_among (\<lambda>c. c = 0x63 \<or> c = 0x64)) (decoded_prefix items)))"
  by (induction items rule: first_op_if_loop.induct) auto

lemmas scan_filters = pushes_over_def op_successes_def first_tapscript_op_if_def
  pushes_over_loop_filter op_successes_loop_filter first_op_if_loop_filter

lemma big_push_iff: "big_push limit (pos, x) \<longleftrightarrow> (\<exists>b. x = PushBytes b \<and> limit < length b)"
  by (cases x) auto

lemma pushes_over_mem:
  "(pos, len) \<in> set (pushes_over lib s limit) \<longleftrightarrow>
     limit < len \<and> (\<exists>b. length b = len \<and>
       (pos, PushBytes b) \<in> set (decoded_prefix (instruction_indices lib s)))"
proof
  assume "(pos, len) \<in> set (pushes_over lib s limit)"
  then obtain x where x: "x \<in> set (decoded_prefix (instruction_indices lib s))"
    "big_push limit x" "push_size x = (pos, len)"
    by (force simp: scan_filters)
  then show "limit < len \<and> (\<exists>b. length b = len \<and>
       (pos, PushBytes b) \<in> set (decoded_prefix (instruction_indices lib s)))"
    by (cases x rule: push_size.cases) auto
next
  assume "limit < len \<and> (\<exists>b. length b = len \<and>
       (pos, PushBytes b) \<in> set (decoded_prefix (instruction_indices lib s)))"
  then show "(pos, len) \<in> set (pushes_over lib s limit)"
    by (force simp: scan_filters image_iff)
qed

lemma op_successes_mem:
  "(pos, c) \<in> set (op_successes lib s) \<longleftrightarrow>
     is_op_success c \<and> (pos, Op c) \<in> set (decoded_prefix (instruction_indices lib s))"
proof
  assume "(pos, c) \<in> set (op_successes lib s)"
  then obtain x where "x \<in> set (decoded_prefix (instruction_indices lib s))"
    "op_among is_op_success x" "op_code x = (pos, c)"
    by (force simp: scan_filters)
  then show "is_op_success c \<and> (pos, Op c) \<in> set (decoded_prefix (instruction_indices lib s))"
    by (cases x rule: op_code.cases) auto
next
  assume "is_op_success c \<and> (pos, Op c) \<in> set (decoded_prefix (instruction_indices lib s))"
  then show "(pos, c) \<in> set (op_successes lib s)"
    by (force simp: scan_filters image_iff)
qed

lemma first_tapscript_op_if_SomeD:
  "first_tapscript_op_if lib s = Some (pos, c) \<Longrightarrow>
     (c = 0x63 \<or> c = 0x64) \<and> (pos, Op c) \<in> set (decoded_prefix (instruction_indices lib s))"
proof -
  assume "first_tapscript_op_if lib s = Some (pos, c)"
  then have "(pos, c) \<in> set (map op_code (filter (op_among (\<lambda>c. c = 0x63 \<or> c = 0x64))
      (decoded_prefix (instruction_indices lib s))))"
    by (auto simp: scan_filters dest: first_of_in_set)
  then obtain x where "x \<in> set (decoded_prefix (instruction_indices lib s))"
    "op_among (\<lambda>c. c = 0x63 \<or> c = 0x64) x" "op_code x = (pos, c)"
    by auto
  then show ?thesis
    by (cases x rule: op_code.cases) auto
qed

lemma first_tapscript_op_if_None_iff:
  "first_tapscript_op_if lib s = None \<longleftrightarrow>
     (\<forall>pos c. (pos, Op c) \<in> set (decoded_prefix (instruction_indices lib s)) \<longrightarrow> c \<noteq> 0x63 \<and> c \<noteq> 0x64)"
proof -
  have "op_among P x \<longleftrightarrow> (\<exists>c. snd x = Op c \<and> P c)" for P x
    by (cases x rule: op_code.cases) auto
  then show ?thesis
    by (auto simp: scan_filters filter_empty_conv; blast)
qed

lemma positions_of_pushes:
  "sorted_wrt (<) (map fst (decoded_prefix (instruction_indices lib s))) \<Longrightarrow>
     sorted_wrt (<) (map fst (pushes_over lib s limit))"
  by (simp add: scan_filters sorted_wrt_map sorted_wrt_filter)

section \<open>Witness programs\<close>

record witness_program =
  wp_version :: u8
  wp_program :: bytes

definition parse_witness_program :: "bytes \<Rightarrow> witness_program option" where
  "parse_witness_program spk =
     (if length spk < 4 \<or> 42 < length spk then None
      else let opcode = spk ! 0 in
        if opcode \<noteq> 0x00 \<and> \<not> (0x51 \<le> opcode \<and> opcode \<le> 0x60) then None
        else if unat (spk ! 1) + 2 \<noteq> length spk then None
        else let version = (if opcode = 0x00 then 0 else opcode - (0x51 - 1))
          in Some \<lparr> wp_version = version, wp_program = drop 2 spk \<rparr>)"

text \<open>The script a witness program is written as.\<close>

definition witness_script :: "u8 \<Rightarrow> bytes \<Rightarrow> bytes" where
  "witness_script version program =
     (if version = 0 then 0x00 else version + 0x50) # of_nat (length program) # program"

lemma parse_witness_program_SomeD:
  assumes "parse_witness_program spk = Some wp"
  shows "wp_version wp \<le> 16" "2 \<le> length (wp_program wp)" "length (wp_program wp) \<le> 40"
    "spk = witness_script (wp_version wp) (wp_program wp)"
proof -
  from assms have len: "4 \<le> length spk" "length spk \<le> 42"
    and opc: "spk ! 0 = 0 \<or> (0x51 \<le> spk ! 0 \<and> spk ! 0 \<le> 0x60)"
    and sz: "unat (spk ! 1) + 2 = length spk"
    and wp: "wp = \<lparr> wp_version = (if spk ! 0 = 0 then 0 else spk ! 0 - 0x50), wp_program = drop 2 spk \<rparr>"
    by (auto simp: parse_witness_program_def Let_def split: if_splits)
  show "wp_version wp \<le> 16"
    using opc by (auto simp: wp) (unat_arith; simp)
  show "2 \<le> length (wp_program wp)" "length (wp_program wp) \<le> 40"
    using len by (auto simp: wp)
  obtain a b rest where spk: "spk = a # b # rest"
    using len by (cases spk rule: remdups_adj.cases) auto
  have "unat b = length rest"
    using sz by (simp add: spk)
  then have "(of_nat (unat b) :: u8) = of_nat (length rest)" by (rule arg_cong)
  then have "b = of_nat (length rest)" by simp
  moreover have "spk ! 0 \<noteq> 0 \<Longrightarrow> spk ! 0 - 0x50 \<noteq> 0"
    using opc by (auto; unat_arith; simp)
  ultimately show "spk = witness_script (wp_version wp) (wp_program wp)"
    by (auto simp: wp witness_script_def spk)
qed

lemma parse_witness_script:
  assumes "version \<le> 16" "2 \<le> length program" "length program \<le> 40"
  shows "parse_witness_program (witness_script version program) =
    Some \<lparr> wp_version = version, wp_program = program \<rparr>"
proof -
  have u: "unat (of_nat (length program) :: u8) = length program"
    using assms(3) by (simp add: unat_of_nat)
  have v: "version \<noteq> 0 \<Longrightarrow> 0x51 \<le> version + 0x50 \<and> version + 0x50 \<le> 0x60"
    using assms(1) by (auto; unat_arith; simp)
  have nz: "version \<noteq> 0 \<Longrightarrow> version + 0x50 \<noteq> 0"
    using v by fastforce
  show ?thesis
    using assms(2,3) u v nz by (auto simp: parse_witness_program_def witness_script_def Let_def)
qed

section \<open>Taproot stacks\<close>

record taproot_script_path =
  sp_args :: "bytes list"
  sp_script :: bytes
  sp_control :: bytes
  sp_annex :: "bytes option"

definition leaf_version :: "taproot_script_path \<Rightarrow> u8 option" where
  "leaf_version sp = map_option (\<lambda>b. b AND TAPROOT_LEAF_MASK) (first_of (sp_control sp))"

datatype taproot_spend =
    TaprootEmpty
  | KeyPath "bytes option"
  | ScriptPath taproot_script_path

definition decompose_taproot :: "bytes list \<Rightarrow> taproot_spend" where
  "decompose_taproot items =
     (if items = [] then TaprootEmpty
      else let
        (stack, annex) =
          (let l = last items in
           if 2 \<le> length items \<and> l \<noteq> [] \<and> l ! 0 = ANNEX_TAG
           then (take (length items - 1) items, Some l)
           else (items, None))
      in if length stack = 1 then KeyPath annex
         else let control = stack ! (length stack - 1);
                  script = stack ! (length stack - 2);
                  args = take (length stack - 2) stack
           in ScriptPath \<lparr> sp_args = args, sp_script = script, sp_control = control,
                sp_annex = annex \<rparr>)"

text \<open>The stack a decomposition stands for; a key path keeps its single signature.\<close>

fun recompose_taproot :: "bytes \<Rightarrow> taproot_spend \<Rightarrow> bytes list" where
  "recompose_taproot sig TaprootEmpty = []"
| "recompose_taproot sig (KeyPath annex) = sig # (case annex of None \<Rightarrow> [] | Some a \<Rightarrow> [a])"
| "recompose_taproot sig (ScriptPath sp) =
     sp_args sp @ [sp_script sp, sp_control sp] @ (case sp_annex sp of None \<Rightarrow> [] | Some a \<Rightarrow> [a])"

fun spend_annex :: "taproot_spend \<Rightarrow> bytes option" where
  "spend_annex TaprootEmpty = None"
| "spend_annex (KeyPath annex) = annex"
| "spend_annex (ScriptPath sp) = sp_annex sp"

lemma split_last_two:
  assumes "2 \<le> length xs"
  shows "take (length xs - 2) xs @ [xs ! (length xs - 2), xs ! (length xs - 1)] = xs"
proof -
  from assms obtain ys b where "xs = ys @ [b]" by (cases xs rule: rev_cases) auto
  moreover with assms obtain zs a where "ys = zs @ [a]" by (cases ys rule: rev_cases) auto
  ultimately show ?thesis by (simp add: nth_append)
qed

lemma recompose_decompose:
  "recompose_taproot (hd items) (decompose_taproot items) = items"
proof (cases "items = []")
  case True
  then show ?thesis by (simp add: decompose_taproot_def)
next
  case False
  let ?ann = "2 \<le> length items \<and> last items \<noteq> [] \<and> last items ! 0 = ANNEX_TAG"
  show ?thesis
  proof (cases ?ann)
    case True
    obtain ys where ys: "items = ys @ [last items]"
      using False by (metis append_butlast_last_id)
    then have ne: "ys \<noteq> []" using True by (metis One_nat_def Suc_1 append_Nil length_Cons list.size(3) not_less_eq_eq order_refl)
    have tk: "take (length items - 1) items = ys"
      by (subst ys, subst (2) ys) simp
    show ?thesis
    proof (cases "length ys = 1")
      case one: True
      then obtain s where "ys = [s]" by (cases ys) auto
      with False True ys tk show ?thesis
        by (simp add: decompose_taproot_def Let_def) (metis append_Cons append_Nil list.sel(1))
    next
      case two: False
      with ne have "2 \<le> length ys" by (cases ys rule: remdups_adj.cases) auto
      from split_last_two [OF this] False True ys tk two show ?thesis
        by (simp add: decompose_taproot_def Let_def) (metis append.assoc append_Cons append_Nil)
    qed
  next
    case noann: False
    show ?thesis
    proof (cases "length items = 1")
      case True
      then obtain s where "items = [s]" by (cases items) auto
      then show ?thesis by (simp add: decompose_taproot_def)
    next
      case two: False
      with False have "2 \<le> length items" by (cases items rule: remdups_adj.cases) auto
      from split_last_two [OF this] False noann two show ?thesis
        by (auto simp: decompose_taproot_def Let_def)
    qed
  qed
qed

lemma spend_annex_iff:
  "spend_annex (decompose_taproot items) = Some a \<longleftrightarrow>
     2 \<le> length items \<and> last items = a \<and> a \<noteq> [] \<and> a ! 0 = ANNEX_TAG"
  by (auto simp: decompose_taproot_def Let_def)

end
