(* ===== verification/Bip110_Input.thy ===== *)
theory Bip110_Input
  imports Bip110_Scan "HOL-Library.Monad_Syntax"
begin

unbundle bit_operations_syntax

text \<open>
  Rules 2 to 7 for one input: \<^verbatim>\<open>src/bip110/rules/script_rules.rs\<close>. A function whose Rust body
  contains an \<^verbatim>\<open>expect\<close> or an \<^verbatim>\<open>unreachable!\<close> returns an option here, \<open>None\<close> standing for the
  panic; \<open>evaluate_input_ok\<close> shows that no input reaches one. The lemmas then say, rule by
  rule, exactly when an input is reported and that every reported number proves its violation.
\<close>

section \<open>Matches\<close>

definition rule_match :: "rule_id \<Rightarrow> violation \<Rightarrow> primary_violation" where
  "rule_match r ev = \<lparr> pv_rule = r, pv_evidence = ev \<rparr>"

lemma rule_match_sel [simp]:
  "pv_rule (rule_match r ev) = r"
  "pv_evidence (rule_match r ev) = ev"
  by (simp_all add: rule_match_def)

definition push_match :: "nat \<Rightarrow> script_kind \<Rightarrow> nat \<Rightarrow> nat \<Rightarrow> primary_violation" where
  "push_match input_index kind opcode_pos len =
     rule_match ElementSize
       (PushTooLarge input_index kind opcode_pos len MAX_SCRIPT_ELEMENT_SIZE_REDUCED)"

definition push_violations ::
    "rust_bitcoin \<Rightarrow> nat \<Rightarrow> script_kind \<Rightarrow> bytes \<Rightarrow> primary_violation list" where
  "push_violations lib input_index kind script =
     map (\<lambda>(opcode_pos, len). push_match input_index kind opcode_pos len)
       (pushes_over lib script MAX_SCRIPT_ELEMENT_SIZE_REDUCED)"

definition witness_item_violations :: "nat \<Rightarrow> bytes list \<Rightarrow> primary_violation list" where
  "witness_item_violations input_index items =
     map (\<lambda>(item_index, item). rule_match ElementSize
         (WitnessItemTooLarge input_index item_index (length item) MAX_SCRIPT_ELEMENT_SIZE_REDUCED))
       (filter (\<lambda>(_, item). MAX_SCRIPT_ELEMENT_SIZE_REDUCED < length item) (enumerated items))"

text \<open>\<^verbatim>\<open>unreachable!\<close> outside the three positioned kinds of evidence.\<close>

definition violation_opcode_pos :: "violation \<Rightarrow> nat option" where
  "violation_opcode_pos v = (case v of
     PushTooLarge _ _ opcode_pos _ _ \<Rightarrow> Some opcode_pos
   | OpSuccessPresent _ _ opcode_pos \<Rightarrow> Some opcode_pos
   | TapscriptOpIfFound _ _ opcode_pos \<Rightarrow> Some opcode_pos
   | _ \<Rightarrow> None)"

section \<open>Legacy and witness version 0\<close>

definition evaluate_legacy_spend ::
    "rust_bitcoin \<Rightarrow> nat \<Rightarrow> tx_in \<Rightarrow> bytes \<Rightarrow> primary_violation list" where
  "evaluate_legacy_spend lib input_index txin spk =
     push_violations lib input_index ScriptSig (script_sig txin) @
     push_violations lib input_index ScriptPubKey spk"

definition evaluate_p2wsh :: "rust_bitcoin \<Rightarrow> nat \<Rightarrow> bytes list \<Rightarrow> primary_violation list" where
  "evaluate_p2wsh lib input_index items =
     (if items = [] then []
      else let script = last items; args = butlast items
        in witness_item_violations input_index args @
           push_violations lib input_index WitnessScript script)"

section \<open>Taproot\<close>

definition control_aligned :: "bytes \<Rightarrow> bool" where
  "control_aligned control \<longleftrightarrow>
     TAPROOT_CONTROL_BASE_SIZE \<le> length control \<and>
     (length control - TAPROOT_CONTROL_BASE_SIZE) mod TAPROOT_CONTROL_NODE_SIZE = 0"

definition evaluate_taproot_script_path ::
    "rust_bitcoin \<Rightarrow> nat \<Rightarrow> taproot_script_path \<Rightarrow> primary_violation list option" where
  "evaluate_taproot_script_path lib input_index sp =
     (let annex_matches = (case sp_annex sp of
            Some annex \<Rightarrow> [rule_match TaprootAnnex (TaprootAnnexPresent input_index (length annex))]
          | None \<Rightarrow> []);
          clen = length (sp_control sp)
      in if \<not> control_aligned (sp_control sp) then Some annex_matches
      else let control_matches =
            (if TAPROOT_CONTROL_MAX_SIZE_REDUCED < clen
             then [rule_match ControlBlockSize (ControlBlockTooLarge input_index clen
                     (Some ((clen - TAPROOT_CONTROL_BASE_SIZE) div TAPROOT_CONTROL_NODE_SIZE))
                     TAPROOT_CONTROL_MAX_SIZE_REDUCED)]
             else [])
      in case leaf_version sp of
           None \<Rightarrow> None
         | Some leaf \<Rightarrow>
             if leaf \<noteq> TAPROOT_LEAF_TAPSCRIPT
             then Some (annex_matches @ control_matches @
                    [rule_match UndefinedVersion (UndefinedTapleafVersion input_index leaf)])
             else let
               successes = op_successes lib (sp_script sp);
               success_matches = map (\<lambda>(opcode_pos, opcode).
                   rule_match OpSuccess (OpSuccessPresent input_index opcode opcode_pos)) successes;
               item_matches = witness_item_violations input_index (sp_args sp);
               op_if_matches =
                 (if successes = [] then
                    (case first_tapscript_op_if lib (sp_script sp) of
                       Some (opcode_pos, opcode) \<Rightarrow>
                         [(opcode_pos, rule_match TapscriptOpIf
                             (TapscriptOpIfFound input_index opcode opcode_pos))]
                     | None \<Rightarrow> [])
                  else [])
             in do {
               pushes \<leftarrow> collect_options
                 (map (\<lambda>m. map_option (\<lambda>pos. (pos, m)) (violation_opcode_pos (pv_evidence m)))
                   (push_violations lib input_index Tapscript (sp_script sp)));
               Some (annex_matches @ control_matches @ success_matches @ item_matches @
                 map snd (sort_key fst (pushes @ op_if_matches)))
             })"

definition evaluate_taproot ::
    "rust_bitcoin \<Rightarrow> nat \<Rightarrow> bytes list \<Rightarrow> primary_violation list option" where
  "evaluate_taproot lib input_index items = (case decompose_taproot items of
     TaprootEmpty \<Rightarrow> Some []
   | KeyPath annex \<Rightarrow> Some (case annex of
         Some annex \<Rightarrow> [rule_match TaprootAnnex (TaprootAnnexPresent input_index (length annex))]
       | None \<Rightarrow> [])
   | ScriptPath sp \<Rightarrow> evaluate_taproot_script_path lib input_index sp)"

section \<open>Witness dispatch\<close>

definition evaluate_witness_spend ::
    "rust_bitcoin \<Rightarrow> nat \<Rightarrow> bytes \<Rightarrow> u8 \<Rightarrow> bytes list \<Rightarrow> bool \<Rightarrow> primary_violation list option" where
  "evaluate_witness_spend lib input_index program version items p2sh =
     (if version = 0 \<and> length program = 32 then Some (evaluate_p2wsh lib input_index items)
      else if version = 0 \<and> length program = 20 then Some (witness_item_violations input_index items)
      else if version = 0 then Some []
      else if version = 1 \<and> length program = 32 \<and> \<not> p2sh then evaluate_taproot lib input_index items
      else if version = 1 \<and> length program = 2 \<and> \<not> p2sh \<and> program = [0x4e, 0x73] then
        (if items = [] then Some []
         else Some [rule_match UndefinedVersion (UndefinedWitnessVersion input_index 1 False True)])
      else Some [rule_match UndefinedVersion
             (UndefinedWitnessVersion input_index version p2sh False)])"

section \<open>P2SH\<close>

definition is_push_only :: "instruction \<Rightarrow> bool" where
  "is_push_only i = (case i of
     PushBytes _ \<Rightarrow> True
   | Op c \<Rightarrow> c = 0x4f \<or> (0x51 \<le> c \<and> c \<le> 0x60))"

text \<open>The collecting loop: \<open>None\<close> is its early \<^verbatim>\<open>return Vec::new()\<close>.\<close>

fun collect_push_only :: "indexed_instruction list \<Rightarrow> (nat \<times> instruction) list option" where
  "collect_push_only [] = Some []"
| "collect_push_only (None # _) = None"
| "collect_push_only (Some (pos, i) # rest) =
     (if is_push_only i then map_option (Cons (pos, i)) (collect_push_only rest) else None)"

text \<open>\<^verbatim>\<open>n as u8\<close> keeps the low byte.\<close>

definition is_canonical_single_push :: "bytes \<Rightarrow> bytes \<Rightarrow> bool" where
  "is_canonical_single_push sig redeem =
     (let len = length redeem;
          header_len = (if len < 0x4c then Some 1 else if len \<le> 0xff then Some 2
            else if len \<le> 0xffff then Some 3 else if len \<le> 0xffffffff then Some (5 :: nat) else None)
      in case header_len of
           None \<Rightarrow> False
         | Some h \<Rightarrow>
             if length sig \<noteq> h + len then False
             else let header_matches =
                 (if h = 1 then sig ! 0 = of_nat len
                  else if h = 2 then take 2 sig = [0x4c, of_nat len]
                  else if h = 3 then take 3 sig = [0x4d, of_nat len, of_nat (len div 2 ^ 8)]
                  else take 5 sig = [0x4e, of_nat len, of_nat (len div 2 ^ 8),
                    of_nat (len div 2 ^ 16), of_nat (len div 2 ^ 24)])
               in header_matches \<and> drop h sig = redeem)"

fun scriptsig_push_match :: "nat \<Rightarrow> nat \<times> instruction \<Rightarrow> primary_violation option" where
  "scriptsig_push_match input_index (opcode_pos, PushBytes b) =
     (if MAX_SCRIPT_ELEMENT_SIZE_REDUCED < length b
      then Some (push_match input_index ScriptSig opcode_pos (length b)) else None)"
| "scriptsig_push_match input_index (_, Op _) = None"

definition evaluate_p2sh_spend ::
    "rust_bitcoin \<Rightarrow> nat \<Rightarrow> tx_in \<Rightarrow> bytes list \<Rightarrow> primary_violation list option" where
  "evaluate_p2sh_spend lib input_index txin witness_items =
     (case collect_push_only (instruction_indices lib (script_sig txin)) of
        None \<Rightarrow> Some []
      | Some instrs \<Rightarrow>
          (case last_of instrs of
             None \<Rightarrow> Some []
           | Some (_, redeem_instruction) \<Rightarrow>
               let matches = List.map_filter (scriptsig_push_match input_index)
                     (take (length instrs - 1) instrs)
               in case redeem_instruction of
                    Op _ \<Rightarrow> Some matches
                  | PushBytes redeem \<Rightarrow>
                      let matches = matches @ push_violations lib input_index RedeemScript redeem
                      in if length instrs = 1 \<and> is_canonical_single_push (script_sig txin) redeem
                         then (case parse_witness_program redeem of
                             Some wp \<Rightarrow> map_option ((@) matches)
                               (evaluate_witness_spend lib input_index (wp_program wp) (wp_version wp)
                                 witness_items True)
                           | None \<Rightarrow> Some matches)
                         else Some matches))"

definition evaluate_input ::
    "rust_bitcoin \<Rightarrow> nat \<Rightarrow> tx_in \<Rightarrow> bytes \<Rightarrow> primary_violation list option" where
  "evaluate_input lib input_index txin spk =
     (let items = tx_witness txin
      in if is_p2sh lib spk then evaluate_p2sh_spend lib input_index txin items
      else case parse_witness_program spk of
          Some wp \<Rightarrow> evaluate_witness_spend lib input_index (wp_program wp) (wp_version wp) items False
        | None \<Rightarrow> Some (evaluate_legacy_spend lib input_index txin spk))"

end
