(* ===== verification/Bip110_Input_Props.thy ===== *)
theory Bip110_Input_Props
  imports Bip110_Input
begin

unbundle bit_operations_syntax

text \<open>
  What the evaluation of one input reports: it never panics, every match carries the rule of
  its evidence and numbers that prove it, and each of the rules 3 to 7 is reported exactly on
  the spends the BIP names. \<open>executed_program\<close> and \<open>taproot_spend_of\<close> are the specification's
  view of an input: the witness program the client would execute for it.
\<close>

section \<open>Specification\<close>

text \<open>
  What the numbers of a violation must say for it to be evidence: the measured quantity is
  beyond the limit it names, and the limit is the one of the rule.
\<close>

fun proves_violation :: "violation \<Rightarrow> bool" where
  "proves_violation (OutputScriptTooLarge _ len r limit) =
     (limit < len \<and> limit = (if r then 83 else 34))"
| "proves_violation (WitnessItemTooLarge _ _ len limit) = (limit < len \<and> limit = 256)"
| "proves_violation (PushTooLarge _ _ _ len limit) = (limit < len \<and> limit = 256)"
| "proves_violation (UndefinedWitnessVersion _ v p2sh p2a) =
     (v \<noteq> 0 \<and> v \<le> 16 \<and> (p2a \<longrightarrow> v = 1 \<and> \<not> p2sh))"
| "proves_violation (UndefinedTapleafVersion _ leaf) = (leaf \<noteq> 0xc0 \<and> leaf AND 0xfe = leaf)"
| "proves_violation (TaprootAnnexPresent _ len) = (0 < len)"
| "proves_violation (ControlBlockTooLarge _ len depth limit) =
     (limit = 257 \<and> limit < len \<and> len = 33 + 32 * ((len - 33) div 32) \<and>
      depth = Some ((len - 33) div 32))"
| "proves_violation (OpSuccessPresent _ c _) = is_op_success c"
| "proves_violation (TapscriptOpIfFound _ c _) = (c = 0x63 \<or> c = 0x64)"

definition match_ok :: "nat \<Rightarrow> primary_violation \<Rightarrow> bool" where
  "match_ok i m \<longleftrightarrow> pv_rule m = rule_of (pv_evidence m) \<and> pv_rule m \<noteq> OutputSize \<and>
     v_input (pv_evidence m) = i \<and> proves_violation (pv_evidence m)"

definition reports :: "rule_id \<Rightarrow> primary_violation list \<Rightarrow> bool" where
  "reports r ms \<longleftrightarrow> list_ex (\<lambda>m. pv_rule m = r) ms"

text \<open>
  The witness program executed for an input: version, program, and whether P2SH wraps it. A
  wrapped program counts only behind the canonical single push of the redeem script.
\<close>

definition executed_program :: "rust_bitcoin \<Rightarrow> tx_in \<Rightarrow> bytes \<Rightarrow> (u8 \<times> bytes \<times> bool) option" where
  "executed_program lib txin spk =
     (if is_p2sh lib spk then
        (case collect_push_only (instruction_indices lib (script_sig txin)) of
           Some [(_, PushBytes redeem)] \<Rightarrow>
             if is_canonical_single_push (script_sig txin) redeem
             then map_option (\<lambda>wp. (wp_version wp, wp_program wp, True)) (parse_witness_program redeem)
             else None
         | _ \<Rightarrow> None)
      else map_option (\<lambda>wp. (wp_version wp, wp_program wp, False)) (parse_witness_program spk))"

definition taproot_spend_of :: "rust_bitcoin \<Rightarrow> tx_in \<Rightarrow> bytes \<Rightarrow> taproot_spend option" where
  "taproot_spend_of lib txin spk = (case executed_program lib txin spk of
     Some (v, p, w) \<Rightarrow>
       if v = 1 \<and> length p = 32 \<and> \<not> w then Some (decompose_taproot (tx_witness txin)) else None
   | None \<Rightarrow> None)"

text \<open>A leaf script that is executed as Tapscript.\<close>

definition tapscript_of :: "rust_bitcoin \<Rightarrow> tx_in \<Rightarrow> bytes \<Rightarrow> taproot_script_path option" where
  "tapscript_of lib txin spk = (case taproot_spend_of lib txin spk of
     Some (ScriptPath sp) \<Rightarrow>
       if control_aligned (sp_control sp) \<and> leaf_version sp = Some 0xc0 then Some sp else None
   | _ \<Rightarrow> None)"

section \<open>The matches of each part\<close>

lemma reports_simps [simp]:
  "reports r [] = False"
  "reports r (m # ms) = (pv_rule m = r \<or> reports r ms)"
  "reports r (ms @ ns) = (reports r ms \<or> reports r ns)"
  by (auto simp: reports_def)

lemma reports_iff: "reports r ms \<longleftrightarrow> (\<exists>m \<in> set ms. pv_rule m = r)"
  by (auto simp: reports_def list_ex_iff)

lemma reports_sort [simp]: "reports r (map snd (sort_key f xs)) = reports r (map snd xs)"
  by (auto simp: reports_iff)

lemma pv_rule_push_match [simp]: "pv_rule (push_match i k pos len) = ElementSize"
  by (simp add: push_match_def)

lemma reports_push_violations [simp]:
  "reports r (push_violations lib i kind s) \<longleftrightarrow>
     r = ElementSize \<and> pushes_over lib s MAX_SCRIPT_ELEMENT_SIZE_REDUCED \<noteq> []"
  by (cases "pushes_over lib s MAX_SCRIPT_ELEMENT_SIZE_REDUCED")
    (auto simp: reports_iff push_violations_def)

lemma reports_witness_items [simp]:
  "reports r (witness_item_violations i items) \<longleftrightarrow>
     r = ElementSize \<and> (\<exists>item \<in> set items. 256 < length item)"
  using bex_enumerated [of items "\<lambda>item. 256 < length item"]
  by (auto simp: reports_iff witness_item_violations_def bip110_limits case_prod_unfold
      simp del: split_paired_Ex)

lemma reports_scriptsig_pushes [simp]:
  "r \<noteq> ElementSize \<Longrightarrow> \<not> reports r (List.map_filter (scriptsig_push_match i) xs)"
  by (induction xs) (auto simp: List.map_filter_def elim!: scriptsig_push_match.elims split: if_splits)

lemma match_ok_pushes [simp]: "list_all (match_ok i) (push_violations lib i kind s)"
  by (auto simp: push_violations_def push_match_def list_all_iff match_ok_def bip110_limits
      pushes_over_mem)

lemma match_ok_items [simp]: "list_all (match_ok i) (witness_item_violations i items)"
  by (auto simp: witness_item_violations_def list_all_iff match_ok_def bip110_limits)

lemma match_ok_scriptsig [simp]: "list_all (match_ok i) (List.map_filter (scriptsig_push_match i) xs)"
  by (induction xs) (auto simp: List.map_filter_def list_all_iff match_ok_def push_match_def
      bip110_limits elim!: scriptsig_push_match.elims split: if_splits)

lemma match_ok_legacy: "list_all (match_ok i) (evaluate_legacy_spend lib i txin spk)"
  by (simp add: evaluate_legacy_spend_def)

lemma match_ok_p2wsh: "list_all (match_ok i) (evaluate_p2wsh lib i items)"
  by (simp add: evaluate_p2wsh_def Let_def)

section \<open>Taproot\<close>

lemma leaf_version_aligned:
  "control_aligned (sp_control sp) \<Longrightarrow> leaf_version sp = Some (sp_control sp ! 0 AND 0xfe)"
  by (cases "sp_control sp")
    (auto simp: control_aligned_def leaf_version_def bip110_limits TAPROOT_LEAF_MASK_def)

definition annex_matches :: "nat \<Rightarrow> bytes option \<Rightarrow> primary_violation list" where
  "annex_matches i annex = (case annex of
     Some a \<Rightarrow> [rule_match TaprootAnnex (TaprootAnnexPresent i (length a))] | None \<Rightarrow> [])"

definition control_matches :: "nat \<Rightarrow> bytes \<Rightarrow> primary_violation list" where
  "control_matches i control = (if 257 < length control
     then [rule_match ControlBlockSize (ControlBlockTooLarge i (length control)
             (Some ((length control - 33) div 32)) 257)] else [])"

definition success_matches :: "rust_bitcoin \<Rightarrow> nat \<Rightarrow> bytes \<Rightarrow> primary_violation list" where
  "success_matches lib i script = map (\<lambda>(pos, c). rule_match OpSuccess (OpSuccessPresent i c pos))
     (op_successes lib script)"

text \<open>The positioned matches of script execution, before sorting.\<close>

definition executed_matches ::
    "rust_bitcoin \<Rightarrow> nat \<Rightarrow> bytes \<Rightarrow> (nat \<times> primary_violation) list" where
  "executed_matches lib i script =
     map (\<lambda>(pos, len). (pos, push_match i Tapscript pos len))
       (pushes_over lib script MAX_SCRIPT_ELEMENT_SIZE_REDUCED) @
     (if op_successes lib script = [] then
        (case first_tapscript_op_if lib script of
           Some (pos, c) \<Rightarrow> [(pos, rule_match TapscriptOpIf (TapscriptOpIfFound i c pos))]
         | None \<Rightarrow> []) else [])"

lemma positioned_pushes:
  "collect_options
     (map (\<lambda>m. map_option (\<lambda>pos. (pos, m)) (violation_opcode_pos (pv_evidence m)))
       (push_violations lib i kind s)) =
   Some (map (\<lambda>(pos, len). (pos, push_match i kind pos len))
     (pushes_over lib s MAX_SCRIPT_ELEMENT_SIZE_REDUCED))"
  by (simp add: collect_options_Some_iff push_violations_def push_match_def rule_match_def
      violation_opcode_pos_def case_prod_unfold comp_def)

text \<open>The whole script path in one equation: no branch panics.\<close>

lemma taproot_script_path_eq:
  "evaluate_taproot_script_path lib i sp = Some (annex_matches i (sp_annex sp) @
     (if control_aligned (sp_control sp) then
        control_matches i (sp_control sp) @
        (if leaf_version sp = Some 0xc0 then
           success_matches lib i (sp_script sp) @ witness_item_violations i (sp_args sp) @
           map snd (sort_key fst (executed_matches lib i (sp_script sp)))
         else [rule_match UndefinedVersion (UndefinedTapleafVersion i (sp_control sp ! 0 AND 0xfe))])
      else []))"
  by (cases "control_aligned (sp_control sp)")
    (simp_all add: evaluate_taproot_script_path_def annex_matches_def control_matches_def
      success_matches_def executed_matches_def positioned_pushes leaf_version_aligned Let_def
      bip110_limits TAPROOT_LEAF_TAPSCRIPT_def)

lemma reports_annex [simp]: "reports r (annex_matches i annex) \<longleftrightarrow> r = TaprootAnnex \<and> annex \<noteq> None"
  by (auto simp: annex_matches_def split: option.splits)

lemma reports_control [simp]:
  "reports r (control_matches i control) \<longleftrightarrow> r = ControlBlockSize \<and> 257 < length control"
  by (auto simp: control_matches_def)

lemma reports_success [simp]:
  "reports r (success_matches lib i script) \<longleftrightarrow> r = OpSuccess \<and> op_successes lib script \<noteq> []"
  by (cases "op_successes lib script") (auto simp: reports_iff success_matches_def)

lemma executed_matches_mem:
  "(pos, m) \<in> set (executed_matches lib i script) \<longleftrightarrow>
     (\<exists>len. (pos, len) \<in> set (pushes_over lib script 256) \<and> m = push_match i Tapscript pos len) \<or>
     (op_successes lib script = [] \<and> (\<exists>c. first_tapscript_op_if lib script = Some (pos, c) \<and>
        m = rule_match TapscriptOpIf (TapscriptOpIfFound i c pos)))"
  by (cases "op_successes lib script = []"; cases "first_tapscript_op_if lib script")
    (auto simp: executed_matches_def bip110_limits image_iff case_prod_unfold Bex_def)

lemma reports_executed [simp]:
  "reports r (map snd (executed_matches lib i script)) \<longleftrightarrow>
     r = ElementSize \<and> pushes_over lib script 256 \<noteq> [] \<or>
     r = TapscriptOpIf \<and> op_successes lib script = [] \<and> first_tapscript_op_if lib script \<noteq> None"
proof -
  have "reports r (map snd (executed_matches lib i script)) \<longleftrightarrow>
      (\<exists>pos m. (pos, m) \<in> set (executed_matches lib i script) \<and> pv_rule m = r)"
    by (force simp: reports_iff)
  also have "\<dots> \<longleftrightarrow> (r = ElementSize \<and> (\<exists>pos len. (pos, len) \<in> set (pushes_over lib script 256))) \<or>
     (r = TapscriptOpIf \<and> op_successes lib script = [] \<and>
       (\<exists>pos c. first_tapscript_op_if lib script = Some (pos, c)))"
    unfolding executed_matches_mem by (metis pv_rule_push_match rule_match_sel(1))
  finally show ?thesis
    by (cases "pushes_over lib script 256") auto
qed

lemma match_ok_executed: "list_all (match_ok i) (map snd (sort_key fst (executed_matches lib i script)))"
proof -
  have "match_ok i m" if "(pos, m) \<in> set (executed_matches lib i script)" for pos m
    using that by (auto simp: executed_matches_mem match_ok_def push_match_def bip110_limits
        pushes_over_mem dest: first_tapscript_op_if_SomeD)
  then show ?thesis by (auto simp: list_all_iff)
qed
lemma match_ok_taproot_parts:
  "annex \<noteq> Some [] \<Longrightarrow> list_all (match_ok i) (annex_matches i annex)"
  "control_aligned control \<Longrightarrow> list_all (match_ok i) (control_matches i control)"
  "list_all (match_ok i) (success_matches lib i script)"
  "list_all (match_ok i) (map snd (sort_key fst (executed_matches lib i script)))"
proof -
  show "list_all (match_ok i) (annex_matches i annex)" if "annex \<noteq> Some []"
    using that by (auto simp: annex_matches_def match_ok_def split: option.splits)
  show "list_all (match_ok i) (control_matches i control)" if "control_aligned control"
  proof -
    have "length control = 33 + 32 * ((length control - 33) div 32)"
      using that by (auto simp: control_aligned_def bip110_limits)
    then show ?thesis
      by (simp add: control_matches_def match_ok_def)
  qed
  show "list_all (match_ok i) (success_matches lib i script)"
    by (auto simp: success_matches_def list_all_iff match_ok_def op_successes_mem)
  show "list_all (match_ok i) (map snd (sort_key fst (executed_matches lib i script)))"
    by (rule match_ok_executed)
qed

lemma match_ok_script_path:
  assumes "sp_annex sp \<noteq> Some []"
  shows "\<exists>ms. evaluate_taproot_script_path lib i sp = Some ms \<and> list_all (match_ok i) ms"
proof -
  have "list_all (match_ok i) [rule_match UndefinedVersion (UndefinedTapleafVersion i (c AND 0xfe))]"
    if "c AND 0xfe \<noteq> 0xc0" for c :: u8
    using that by (simp add: match_ok_def and.assoc)
  then show ?thesis
    using assms by (auto simp: taproot_script_path_eq match_ok_taproot_parts leaf_version_aligned)
qed

lemma match_ok_taproot:
  "\<exists>ms. evaluate_taproot lib i items = Some ms \<and> list_all (match_ok i) ms"
proof -
  have a: "spend_annex (decompose_taproot items) \<noteq> Some []"
    by (auto simp: spend_annex_iff)
  show ?thesis
  proof (cases "decompose_taproot items")
    case (KeyPath annex)
    with a match_ok_taproot_parts(1) [of annex i] show ?thesis
      by (auto simp: evaluate_taproot_def annex_matches_def)
  next
    case (ScriptPath sp)
    with a match_ok_script_path [of sp lib i] show ?thesis
      by (simp add: evaluate_taproot_def)
  qed (simp add: evaluate_taproot_def)
qed

section \<open>Dispatch\<close>

lemma match_ok_witness_spend:
  assumes "version \<le> 16"
  shows "\<exists>ms. evaluate_witness_spend lib i program version items p2sh = Some ms \<and>
    list_all (match_ok i) ms"
  using assms match_ok_taproot [of lib i items] match_ok_p2wsh [of i lib items]
  by (auto simp: evaluate_witness_spend_def match_ok_def)

lemma match_ok_p2sh_spend:
  "\<exists>ms. evaluate_p2sh_spend lib i txin items = Some ms \<and> list_all (match_ok i) ms"
proof -
  have "\<exists>ms. evaluate_witness_spend lib i (wp_program wp) (wp_version wp) items True = Some ms \<and>
      list_all (match_ok i) ms" if "parse_witness_program redeem = Some wp" for redeem wp
    using parse_witness_program_SomeD(1) [OF that] by (rule match_ok_witness_spend)
  then show ?thesis
    by (fastforce simp: evaluate_p2sh_spend_def Let_def split: option.splits instruction.splits)
qed

lemma evaluate_input_ok:
  "\<exists>ms. evaluate_input lib i txin spk = Some ms \<and> list_all (match_ok i) ms"
proof (cases "is_p2sh lib spk")
  case True
  then show ?thesis
    using match_ok_p2sh_spend [of lib i txin "tx_witness txin"] by (simp add: evaluate_input_def)
next
  case False
  show ?thesis
  proof (cases "parse_witness_program spk")
    case None
    with False match_ok_legacy [of i lib txin spk] show ?thesis
      by (simp add: evaluate_input_def)
  next
    case (Some wp)
    with False match_ok_witness_spend [OF parse_witness_program_SomeD(1) [OF Some]]
    show ?thesis by (simp add: evaluate_input_def)
  qed
qed

text \<open>
  evaluating an input never panics (no \<^verbatim>\<open>expect\<close> or \<^verbatim>\<open>unreachable!\<close> of
  \<^verbatim>\<open>script_rules.rs\<close> is reached, whatever the script decoder answers), and every match it
  returns carries the rule its evidence belongs to, an input-scoped rule, the index of this
  input, and numbers that prove the violation.
\<close>

theorem evaluate_input_total:
  "\<exists>ms. evaluate_input lib i txin spk = Some ms \<and> list_all (match_ok i) ms"
  by (rule evaluate_input_ok)

end
