(* ===== verification/Bip110_Input_Rules.thy ===== *)
theory Bip110_Input_Rules
  imports Bip110_Input_Props
begin

unbundle bit_operations_syntax

text \<open>
  The rules one by one: \<open>input_reports lib i txin spk r\<close> says that evaluating the input reports
  rule \<open>r\<close>, and each theorem says on exactly which inputs that is, in terms of the executed
  witness program, its Taproot decomposition and the decoded leaf script. The example input at
  the end is a Tapscript spend on which the hypotheses hold.
\<close>


section \<open>Rule by rule\<close>

definition input_reports :: "rust_bitcoin \<Rightarrow> nat \<Rightarrow> tx_in \<Rightarrow> bytes \<Rightarrow> rule_id \<Rightarrow> bool" where
  "input_reports lib i txin spk r =
     (case evaluate_input lib i txin spk of Some ms \<Rightarrow> reports r ms | None \<Rightarrow> False)"

definition spend_reports :: "rust_bitcoin \<Rightarrow> nat \<Rightarrow> (u8 \<times> bytes \<times> bool) \<Rightarrow> bytes list \<Rightarrow> rule_id \<Rightarrow> bool" where
  "spend_reports lib i e items r = (case e of (v, p, w) \<Rightarrow>
     (case evaluate_witness_spend lib i p v items w of Some ms \<Rightarrow> reports r ms | None \<Rightarrow> False))"

lemma p2sh_reports:
  assumes r: "r \<noteq> ElementSize" and p2sh: "is_p2sh lib spk"
  shows "input_reports lib i txin spk r \<longleftrightarrow>
    (\<exists>e. executed_program lib txin spk = Some e \<and> spend_reports lib i e (tx_witness txin) r)"
proof -
  let ?d = "collect_push_only (instruction_indices lib (script_sig txin))"
  show ?thesis
  proof (cases ?d)
    case None
    with p2sh show ?thesis
      by (simp add: input_reports_def evaluate_input_def evaluate_p2sh_spend_def executed_program_def)
  next
    case (Some instrs)
    show ?thesis
    proof (cases instrs rule: rev_cases)
      case Nil
      with Some p2sh show ?thesis
        by (simp add: input_reports_def evaluate_input_def evaluate_p2sh_spend_def executed_program_def
            last_of_def)
    next
      case (snoc front lst)
      obtain pos x where lst: "lst = (pos, x)" by (cases lst)
      show ?thesis
      proof (cases "front = []")
        case True
        then have instrs: "instrs = [(pos, x)]" using snoc lst by simp
        show ?thesis
          using r p2sh Some instrs
          by (cases x) (auto simp: input_reports_def evaluate_input_def evaluate_p2sh_spend_def Let_def
            executed_program_def spend_reports_def last_of_def List.map_filter_def split: option.splits)
      next
        case False
        then have "executed_program lib txin spk = None"
          using p2sh Some snoc
          by (cases front) (auto simp: executed_program_def split: list.splits prod.splits instruction.splits)
        with False r p2sh Some snoc lst show ?thesis
          by (cases x) (auto simp: input_reports_def evaluate_input_def evaluate_p2sh_spend_def Let_def
              last_of_def)
      qed
    qed
  qed
qed

lemma input_reports_iff:
  assumes r: "r \<noteq> ElementSize"
  shows "input_reports lib i txin spk r \<longleftrightarrow>
    (\<exists>e. executed_program lib txin spk = Some e \<and> spend_reports lib i e (tx_witness txin) r)"
proof (cases "is_p2sh lib spk")
  case True
  with r show ?thesis by (rule p2sh_reports)
next
  case False
  with r show ?thesis
    by (cases "parse_witness_program spk")
      (auto simp: input_reports_def evaluate_input_def executed_program_def spend_reports_def
        evaluate_legacy_spend_def)
qed

lemma spend_reports_taproot:
  assumes "r \<noteq> ElementSize" "r \<noteq> UndefinedVersion"
  shows "spend_reports lib i (v, p, w) items r \<longleftrightarrow>
    v = 1 \<and> length p = 32 \<and> \<not> w \<and>
    (case evaluate_taproot lib i items of Some ms \<Rightarrow> reports r ms | None \<Rightarrow> False)"
  using assms by (auto simp: spend_reports_def evaluate_witness_spend_def evaluate_p2wsh_def Let_def
      split: option.splits)

text \<open>Rules 4 to 7 are reported through the Taproot evaluation only.\<close>

lemma input_reports_taproot:
  assumes "r \<noteq> ElementSize" "r \<noteq> UndefinedVersion"
  shows "input_reports lib i txin spk r \<longleftrightarrow>
    (\<exists>t. taproot_spend_of lib txin spk = Some t \<and>
      (reports r (annex_matches i (spend_annex t)) \<or>
       (\<exists>sp. t = ScriptPath sp \<and> control_aligned (sp_control sp) \<and>
          (reports r (control_matches i (sp_control sp)) \<or>
           leaf_version sp = Some 0xc0 \<and>
             (reports r (success_matches lib i (sp_script sp)) \<or>
              reports r (map snd (executed_matches lib i (sp_script sp))))))))"
proof -
  have taproot: "(case evaluate_taproot lib i items of Some ms \<Rightarrow> reports r ms | None \<Rightarrow> False) \<longleftrightarrow>
      (let t = decompose_taproot items in reports r (annex_matches i (spend_annex t)) \<or>
       (\<exists>sp. t = ScriptPath sp \<and> control_aligned (sp_control sp) \<and>
          (reports r (control_matches i (sp_control sp)) \<or>
           leaf_version sp = Some 0xc0 \<and>
             (reports r (success_matches lib i (sp_script sp)) \<or>
              reports r (map snd (executed_matches lib i (sp_script sp)))))))" for items
    using assms
    by (cases "decompose_taproot items")
      (auto simp: evaluate_taproot_def taproot_script_path_eq annex_matches_def split: option.splits
        simp del: reports_annex reports_control reports_success reports_executed)
  show ?thesis
    using assms
    by (auto simp: input_reports_iff spend_reports_taproot taproot taproot_spend_of_def Let_def
        split: option.splits prod.splits if_splits
        simp del: reports_annex reports_control reports_success reports_executed)
qed

lemma taproot_spend_not_Some_Nil:
  "taproot_spend_of lib txin spk = Some t \<Longrightarrow> spend_annex t \<noteq> Some []"
  by (auto simp: taproot_spend_of_def spend_annex_iff split: option.splits prod.splits if_splits)

lemma tapscript_of_iff:
  "tapscript_of lib txin spk = Some sp \<longleftrightarrow>
     taproot_spend_of lib txin spk = Some (ScriptPath sp) \<and> control_aligned (sp_control sp) \<and>
     leaf_version sp = Some 0xc0"
  by (auto simp: tapscript_of_def split: option.splits taproot_spend.splits)

lemma aligned_above_limit:
  "control_aligned control \<and> 257 < length control \<longleftrightarrow> (\<exists>d > 7. length control = 33 + 32 * d)"
  by (auto simp: control_aligned_def bip110_limits intro!: exI [of _ "(length control - 33) div 32"])

text \<open>
  Rule 4 is reported for an input exactly when it is a Taproot spend (a native version 1
  program of 32 bytes) whose witness stack carries an annex.
\<close>

theorem rule4_iff_annex:
  "input_reports lib i txin spk TaprootAnnex \<longleftrightarrow>
     (\<exists>t annex. taproot_spend_of lib txin spk = Some t \<and> spend_annex t = Some annex)"
  by (auto simp: input_reports_taproot)

text \<open>
  Rule 5 is reported exactly for a Taproot script path whose control block is well formed with
  a Merkle depth above seven: \<open>33 + 32 d\<close> bytes for some \<open>d > 7\<close>.
\<close>

theorem rule5_iff_depth_above_seven:
  "input_reports lib i txin spk ControlBlockSize \<longleftrightarrow>
     (\<exists>sp d. taproot_spend_of lib txin spk = Some (ScriptPath sp) \<and> 7 < d \<and>
        length (sp_control sp) = 33 + 32 * d)"
  using aligned_above_limit by (auto simp: input_reports_taproot)

text \<open>
  Rule 6 is reported exactly when the input executes a Tapscript whose decoded prefix contains
  an \<^verbatim>\<open>OP_SUCCESS\<close> opcode, not a byte pushed as data.
\<close>

theorem rule6_iff_op_success:
  "input_reports lib i txin spk OpSuccess \<longleftrightarrow>
     (\<exists>sp pos c. tapscript_of lib txin spk = Some sp \<and> is_op_success c \<and>
        (pos, Op c) \<in> set (decoded_prefix (instruction_indices lib (sp_script sp))))"
proof -
  have "op_successes lib s \<noteq> [] \<longleftrightarrow>
      (\<exists>pos c. is_op_success c \<and> (pos, Op c) \<in> set (decoded_prefix (instruction_indices lib s)))" for s
    using op_successes_mem [of _ _ lib s] by (metis list.set_intros(1) neq_Nil_conv emptyE empty_set prod.exhaust)
  then show ?thesis
    by (auto simp: input_reports_taproot tapscript_of_iff)
qed

text \<open>
  Rule 7 is reported exactly when the input executes a Tapscript that contains \<^verbatim>\<open>OP_IF\<close> or
  \<^verbatim>\<open>OP_NOTIF\<close> as an opcode and rule 6 is not reported for it: an \<^verbatim>\<open>OP_SUCCESS\<close> ends the script
  before any conditional executes.
\<close>

theorem rule7_iff_op_if:
  "input_reports lib i txin spk TapscriptOpIf \<longleftrightarrow>
     \<not> input_reports lib i txin spk OpSuccess \<and>
     (\<exists>sp pos c. tapscript_of lib txin spk = Some sp \<and> c \<in> {0x63, 0x64} \<and>
        (pos, Op c) \<in> set (decoded_prefix (instruction_indices lib (sp_script sp))))"
proof -
  have "first_tapscript_op_if lib s \<noteq> None \<longleftrightarrow>
      (\<exists>pos c. c \<in> {0x63, 0x64} \<and> (pos, Op c) \<in> set (decoded_prefix (instruction_indices lib s)))" for s
    unfolding first_tapscript_op_if_None_iff by blast
  then show ?thesis
    by (auto simp: input_reports_taproot tapscript_of_iff; blast)
qed

text \<open>
  Rule 3 is reported exactly when the executed witness program has a version other than 0 and
  is neither native Taproot nor the empty-witness P2A anchor, or when a well-formed Taproot script
  path reveals a leaf version other than \<open>0xc0\<close>.
\<close>

theorem rule3_iff_undefined_version:
  "input_reports lib i txin spk UndefinedVersion \<longleftrightarrow>
     (\<exists>v p w. executed_program lib txin spk = Some (v, p, w) \<and> v \<noteq> 0 \<and>
        \<not> (v = 1 \<and> \<not> w \<and> length p = 32) \<and>
        \<not> (v = 1 \<and> \<not> w \<and> p = [0x4e, 0x73] \<and> tx_witness txin = [])) \<or>
     (\<exists>sp leaf. taproot_spend_of lib txin spk = Some (ScriptPath sp) \<and>
        control_aligned (sp_control sp) \<and> leaf_version sp = Some leaf \<and> leaf \<noteq> 0xc0)"
proof -
  have taproot: "(case evaluate_taproot lib i items of Some ms \<Rightarrow> reports UndefinedVersion ms | None \<Rightarrow> False) \<longleftrightarrow>
      (\<exists>sp leaf. decompose_taproot items = ScriptPath sp \<and> control_aligned (sp_control sp) \<and>
         leaf_version sp = Some leaf \<and> leaf \<noteq> 0xc0)" for items
    by (cases "decompose_taproot items")
      (auto simp: evaluate_taproot_def taproot_script_path_eq leaf_version_aligned split: option.splits)
  have spend: "spend_reports lib i (v, p, w) items UndefinedVersion \<longleftrightarrow>
      (v \<noteq> 0 \<and> \<not> (v = 1 \<and> \<not> w \<and> length p = 32) \<and>
        \<not> (v = 1 \<and> \<not> w \<and> p = [0x4e, 0x73] \<and> items = [])) \<or>
      (v = 1 \<and> \<not> w \<and> length p = 32 \<and> (\<exists>sp leaf. decompose_taproot items = ScriptPath sp \<and>
         control_aligned (sp_control sp) \<and> leaf_version sp = Some leaf \<and> leaf \<noteq> 0xc0))" for v p w items
  proof (cases "v = 1 \<and> \<not> w \<and> length p = 32")
    case True
    then show ?thesis
      using taproot [of items] by (simp add: spend_reports_def evaluate_witness_spend_def)
  next
    case False
    then show ?thesis
      by (auto simp: spend_reports_def evaluate_witness_spend_def evaluate_p2wsh_def Let_def)
  qed
  show ?thesis
    by (auto simp: input_reports_iff spend taproot_spend_of_def split: option.splits)
qed


section \<open>Order of execution\<close>

lemma push_positions_not_op:
  assumes "script_decoder (instruction_indices lib)"
    and "(pos, len) \<in> set (pushes_over lib s limit)" "first_tapscript_op_if lib s = Some (q, c)"
  shows "pos \<noteq> q"
proof
  assume "pos = q"
  from assms(2) obtain b where "(pos, PushBytes b) \<in> set (decoded_prefix (instruction_indices lib s))"
    by (auto simp: pushes_over_mem)
  moreover from assms(3) have "(q, Op c) \<in> set (decoded_prefix (instruction_indices lib s))"
    by (auto dest: first_tapscript_op_if_SomeD)
  ultimately have "PushBytes b = Op c"
    using script_decoder.position_determines [OF assms(1)] \<open>pos = q\<close> by blast
  then show False by simp
qed

lemma executed_positions_distinct:
  assumes "script_decoder (instruction_indices lib)"
  shows "distinct (map fst (executed_matches lib i script))"
proof -
  have "sorted_wrt (<) (map fst (pushes_over lib script MAX_SCRIPT_ELEMENT_SIZE_REDUCED))"
    by (rule positions_of_pushes) (rule script_decoder.positions_increase [OF assms])
  then have d: "distinct (map fst (pushes_over lib script MAX_SCRIPT_ELEMENT_SIZE_REDUCED))"
    by (simp add: strict_sorted_iff)
  show ?thesis
  proof (cases "first_tapscript_op_if lib script")
    case None
    with d show ?thesis
      by (cases "op_successes lib script = []")
        (simp_all add: executed_matches_def case_prod_unfold comp_def)
  next
    case (Some p)
    obtain q c where p: "p = (q, c)" by (cases p)
    have "q \<notin> fst ` set (pushes_over lib script MAX_SCRIPT_ELEMENT_SIZE_REDUCED)"
      using push_positions_not_op [OF assms _ Some [unfolded p]] by fastforce
    with d Some p show ?thesis
      by (cases "op_successes lib script = []")
        (simp_all add: executed_matches_def case_prod_unfold comp_def)
  qed
qed

lemma executed_position: "(pos, m) \<in> set (executed_matches lib i script) \<Longrightarrow>
    v_opcode_pos (pv_evidence m) = pos"
  by (auto simp: executed_matches_mem push_match_def)

text \<open>
  The matches of a Tapscript come in the order in which the client rejects: first the annex
  and control block, then every \<^verbatim>\<open>OP_SUCCESS\<close>, then the oversized arguments, and then what
  execution meets, sorted by strictly increasing opcode position.
\<close>

theorem tapscript_matches_in_execution_order:
  assumes dec: "script_decoder (instruction_indices lib)"
    and leaf: "tapscript_of lib txin spk = Some sp"
  shows "\<exists>pre post. evaluate_input lib i txin spk =
      Some (pre @ success_matches lib i (sp_script sp) @ witness_item_violations i (sp_args sp) @ post) \<and>
    \<not> reports OpSuccess pre \<and> \<not> reports ElementSize pre \<and> \<not> reports OpSuccess post \<and>
    sorted_wrt (<) (map (\<lambda>m. v_opcode_pos (pv_evidence m)) post) \<and>
    set post = snd ` set (executed_matches lib i (sp_script sp))"
proof -
  let ?sorted = "sort_key fst (executed_matches lib i (sp_script sp))"
  let ?post = "map snd ?sorted"
  let ?pre = "annex_matches i (sp_annex sp) @ control_matches i (sp_control sp)"
  from leaf have t: "taproot_spend_of lib txin spk = Some (ScriptPath sp)"
    and al: "control_aligned (sp_control sp)" and lv: "leaf_version sp = Some 0xc0"
    by (auto simp: tapscript_of_iff)
  from t obtain p where ex: "executed_program lib txin spk = Some (1, p, False)"
    and p: "length p = 32" and d: "decompose_taproot (tx_witness txin) = ScriptPath sp"
    by (auto simp: taproot_spend_of_def split: option.splits prod.splits if_splits)
  then have "evaluate_input lib i txin spk = evaluate_taproot_script_path lib i sp"
    by (auto simp: executed_program_def evaluate_input_def evaluate_witness_spend_def
        evaluate_taproot_def split: if_splits option.splits list.splits prod.splits instruction.splits)
  then have eval: "evaluate_input lib i txin spk = Some (?pre @ success_matches lib i (sp_script sp) @
      witness_item_violations i (sp_args sp) @ ?post)"
    using al lv by (simp add: taproot_script_path_eq)
  have "sorted_wrt (<) (map fst ?sorted)"
    using executed_positions_distinct [OF dec, of i "sp_script sp"]
    by (simp add: strict_sorted_iff distinct_map)
  moreover have "map (\<lambda>m. v_opcode_pos (pv_evidence m)) ?post = map fst ?sorted"
    by (auto simp: executed_position)
  ultimately have "sorted_wrt (<) (map (\<lambda>m. v_opcode_pos (pv_evidence m)) ?post)"
    by (simp only:)
  moreover have "\<not> reports OpSuccess ?pre" "\<not> reports ElementSize ?pre" "\<not> reports OpSuccess ?post"
    by simp_all
  ultimately show ?thesis using eval by (intro exI [of _ ?pre] exI [of _ ?post]) simp
qed


section \<open>Element sizes\<close>

lemma pushes_over_small:
  assumes "script_decoder (instruction_indices lib)" "length s \<le> n"
  shows "pushes_over lib s n = []"
proof (rule ccontr)
  assume "pushes_over lib s n \<noteq> []"
  then obtain pos len where "(pos, len) \<in> set (pushes_over lib s n)"
    by (metis list.set_intros(1) neq_Nil_conv surj_pair)
  then show False
    using script_decoder.small_script_small_push [OF assms(1) _ assms(2)]
    by (fastforce simp: pushes_over_mem)
qed

lemma collect_push_only_prefix:
  "collect_push_only items = Some instrs \<Longrightarrow> decoded_prefix items = instrs"
  by (induction items arbitrary: instrs rule: collect_push_only.induct) (auto split: if_splits)

lemma no_push_match:
  assumes "\<forall>(pos, x) \<in> set xs. \<forall>b. x = PushBytes b \<longrightarrow> length b \<le> 256"
  shows "List.map_filter (scriptsig_push_match i) xs = []"
proof -
  have "scriptsig_push_match i y = None" if "y \<in> set xs" for y
  proof -
    obtain pos x where y: "y = (pos, x)" by (cases y)
    with assms that show ?thesis by (cases x) (auto simp: bip110_limits)
  qed
  then show ?thesis
    by (induction xs) (auto simp: List.map_filter_def)
qed

lemma small_witness_spend:
  assumes dec: "script_decoder (instruction_indices lib)"
    and items: "\<forall>item \<in> set items. length item \<le> 256"
    and ev: "evaluate_witness_spend lib i p v items w = Some ms"
  shows "\<not> reports ElementSize ms"
proof -
  have item: "item \<in> set items \<Longrightarrow> \<not> 256 < length item" for item
    using items by fastforce
  have p2wsh: "\<not> reports ElementSize (evaluate_p2wsh lib i items)"
  proof (cases "items = []")
    case False
    then have "pushes_over lib (last items) 256 = []"
      using items by (intro pushes_over_small [OF dec]) simp
    with item show ?thesis
      by (auto simp: evaluate_p2wsh_def Let_def bip110_limits dest: in_set_butlastD)
  qed (simp add: evaluate_p2wsh_def)
  have taproot: "\<not> reports ElementSize ns" if "evaluate_taproot lib i items = Some ns" for ns
  proof (cases "decompose_taproot items")
    case (ScriptPath sp)
    have parts: "set (sp_args sp) \<union> {sp_script sp} \<subseteq> set items"
      using recompose_decompose [of items] ScriptPath
      by (metis (no_types, lifting) Un_iff append_is_Nil_conv insert_iff list.set_intros(1)
          recompose_taproot.simps(3) set_append singletonD subsetI)
    then have "pushes_over lib (sp_script sp) 256 = []"
      using items by (intro pushes_over_small [OF dec]) auto
    moreover have "\<not> 256 < length arg" if "arg \<in> set (sp_args sp)" for arg
      using parts item that by blast
    ultimately show ?thesis
      using ScriptPath that by (auto simp: evaluate_taproot_def taproot_script_path_eq split: if_splits)
  qed (use that in \<open>auto simp: evaluate_taproot_def split: option.splits\<close>)
  show ?thesis
    using ev p2wsh taproot item
    by (auto simp: evaluate_witness_spend_def split: if_splits)
qed

text \<open>
  Rule 2 is never reported for an input whose scriptSig, spent script and witness items are at
  most 256 bytes long, redeem and witness scripts included: no push inside a script can be larger
  than the script.
\<close>

theorem rule2_silent_on_small_input:
  assumes dec: "script_decoder (instruction_indices lib)"
    and sig: "length (script_sig txin) \<le> 256" and spk: "length spk \<le> 256"
    and items: "\<forall>item \<in> set (tx_witness txin). length item \<le> 256"
  shows "\<not> input_reports lib i txin spk ElementSize"
proof (cases "is_p2sh lib spk")
  case False
  then show ?thesis
    using small_witness_spend [OF dec items] pushes_over_small [OF dec sig] pushes_over_small [OF dec spk]
    by (auto simp: input_reports_def evaluate_input_def evaluate_legacy_spend_def bip110_limits
        split: option.splits)
next
  case True
  show ?thesis
  proof (cases "collect_push_only (instruction_indices lib (script_sig txin))")
    case None
    with True show ?thesis
      by (simp add: input_reports_def evaluate_input_def evaluate_p2sh_spend_def)
  next
    case (Some instrs)
    have small: "length b \<le> 256" if "(pos, PushBytes b) \<in> set instrs" for pos b
      using script_decoder.small_script_small_push [OF dec _ sig] that
        collect_push_only_prefix [OF Some] by fastforce
    have front: "List.map_filter (scriptsig_push_match i) (take (length instrs - 1) instrs) = []"
      using small by (intro no_push_match) (auto dest: in_set_takeD)
    show ?thesis
    proof (cases instrs rule: rev_cases)
      case Nil
      with Some True show ?thesis
        by (simp add: input_reports_def evaluate_input_def evaluate_p2sh_spend_def last_of_def)
    next
      case (snoc fs lst)
      obtain pos x where lst: "lst = (pos, x)" by (cases lst)
      show ?thesis
      proof (cases x)
        case (Op c)
        with True Some front snoc lst show ?thesis
          by (simp add: input_reports_def evaluate_input_def evaluate_p2sh_spend_def last_of_def Let_def)
      next
        case (PushBytes redeem)
        then have "pushes_over lib redeem 256 = []"
          using small snoc lst by (intro pushes_over_small [OF dec]) auto
        with PushBytes True Some front snoc lst small_witness_spend [OF dec items] show ?thesis
          by (auto simp: input_reports_def evaluate_input_def evaluate_p2sh_spend_def last_of_def Let_def
              bip110_limits split: option.splits)
      qed
    qed
  qed
qed

section \<open>An example spend\<close>

definition example_taproot_spk :: bytes where
  "example_taproot_spk = 0x51 # 0x20 # replicate 32 7"

definition example_leaf :: taproot_script_path where
  "example_leaf = \<lparr> sp_args = [[1]], sp_script = [0x01, 0x63, 0x63, 0x68],
     sp_control = 0xc1 # replicate 32 9, sp_annex = None \<rparr>"

definition example_tapscript_input :: tx_in where
  "example_tapscript_input =
     \<lparr> previous_output = OutPoint (replicate 32 3) 0, script_sig = [], tx_sequence = 0xffffffff,
       tx_witness = [[1], [0x01, 0x63, 0x63, 0x68], 0xc1 # replicate 32 9] \<rparr>"

lemma example_is_tapscript:
  "tapscript_of reference_bitcoin example_tapscript_input example_taproot_spk = Some example_leaf"
  by code_simp

theorem tapscript_matches_in_execution_order_witness:
  "script_decoder (instruction_indices reference_bitcoin) \<and>
   tapscript_of reference_bitcoin example_tapscript_input example_taproot_spk = Some example_leaf \<and>
   (\<exists>pre post. evaluate_input reference_bitcoin 0 example_tapscript_input example_taproot_spk =
      Some (pre @ success_matches reference_bitcoin 0 (sp_script example_leaf) @
        witness_item_violations 0 (sp_args example_leaf) @ post) \<and>
      sorted_wrt (<) (map (\<lambda>m. v_opcode_pos (pv_evidence m)) post))"
  using tapscript_matches_in_execution_order [OF reference_bitcoin_decoder example_is_tapscript, of 0]
    reference_bitcoin_decoder example_is_tapscript by blast

theorem rule2_silent_on_small_input_witness:
  "length (script_sig example_tapscript_input) \<le> 256 \<and> length example_taproot_spk \<le> 256 \<and>
   \<not> input_reports reference_bitcoin 0 example_tapscript_input example_taproot_spk ElementSize"
proof -
  have h: "length (script_sig example_tapscript_input) \<le> 256" "length example_taproot_spk \<le> 256"
    "\<forall>item \<in> set (tx_witness example_tapscript_input). length item \<le> 256"
    by (simp_all add: example_tapscript_input_def example_taproot_spk_def)
  show ?thesis
    using h rule2_silent_on_small_input [OF reference_bitcoin_decoder h] by blast
qed

section \<open>The canonical push\<close>

definition le_bytes :: "nat \<Rightarrow> nat \<Rightarrow> bytes" where
  "le_bytes k n = map (\<lambda>j. of_nat (n div 256 ^ j)) [0..<k]"

text \<open>\<^verbatim>\<open>CScript() << vector\<close>: the shortest direct push of a byte vector.\<close>

definition push_encoding :: "bytes \<Rightarrow> bytes" where
  "push_encoding redeem =
     (let n = length redeem in
      (if n < 0x4c then le_bytes 1 n else if n \<le> 0xff then 0x4c # le_bytes 1 n
       else if n \<le> 0xffff then 0x4d # le_bytes 2 n else 0x4e # le_bytes 4 n) @ redeem)"

text \<open>
  The allocation-free test of \<^verbatim>\<open>is_canonical_single_push\<close> accepts exactly the encoding
  \<^verbatim>\<open>CScript() << vector\<close> of the redeem script, for every redeem script of at most \<open>2^32 - 1\<close> bytes.
\<close>

theorem canonical_push_iff:
  "is_canonical_single_push sig redeem \<longleftrightarrow>
     length redeem \<le> 0xffffffff \<and> sig = push_encoding redeem"
proof -
  have split: "length sig = k + length redeem \<and> take k sig = h \<and> drop k sig = redeem \<longleftrightarrow>
      sig = h @ redeem" if "length h = k" for h k
    using that by (metis append_eq_conv_conj length_append)
  have hd: "length sig = Suc 0 + length redeem \<Longrightarrow> sig ! 0 = b \<longleftrightarrow> take (Suc 0) sig = [b]" for b
    by (cases sig) auto
  have le: "le_bytes (Suc 0) n = [of_nat n]" "le_bytes 2 n = [of_nat n, of_nat (n div 2 ^ 8)]"
    "le_bytes 4 n = [of_nat n, of_nat (n div 2 ^ 8), of_nat (n div 2 ^ 16), of_nat (n div 2 ^ 24)]" for n
    by (simp_all add: le_bytes_def upt_rec power_Suc)
  let ?n = "length redeem"
  consider "?n < 0x4c" | "0x4c \<le> ?n" "?n \<le> 0xff" | "0xff < ?n" "?n \<le> 0xffff"
    | "0xffff < ?n" "?n \<le> 0xffffffff" | "0xffffffff < ?n"
    by linarith
  then show ?thesis
  proof cases
    case 1
    then have "is_canonical_single_push sig redeem \<longleftrightarrow>
        length sig = Suc 0 + ?n \<and> sig ! 0 = of_nat ?n \<and> drop (Suc 0) sig = redeem"
      by (auto simp: is_canonical_single_push_def Let_def)
    also have "\<dots> \<longleftrightarrow> sig = [of_nat ?n] @ redeem"
      using split [of "[of_nat ?n]" "Suc 0"] hd [of "of_nat ?n"] by auto
    finally show ?thesis
      using 1 by (simp add: push_encoding_def le Let_def)
  next
    case 2
    with split [of "[0x4c, of_nat ?n]" 2] show ?thesis
      by (auto simp: is_canonical_single_push_def push_encoding_def le Let_def)
  next
    case 3
    with split [of "0x4d # le_bytes 2 ?n" 3] show ?thesis
      by (auto simp: is_canonical_single_push_def push_encoding_def le Let_def)
  next
    case 4
    with split [of "0x4e # le_bytes 4 ?n" 5] show ?thesis
      by (auto simp: is_canonical_single_push_def push_encoding_def le Let_def)
  next
    case 5
    then show ?thesis by (simp add: is_canonical_single_push_def)
  qed
qed

end
