(* ===== verification/Bip110_Eval.thy ===== *)
theory Bip110_Eval
  imports Bip110_Input_Rules
begin

text \<open>
  The per-transaction orchestration of \<^verbatim>\<open>src/bip110/rules/mod.rs\<close>: rule 1 over the outputs, the
  accumulation of matches and missing facts of rules 2 to 7 across the inputs, the first
  rejection, and the assembly of the seven outcomes, in the two modes \<^verbatim>\<open>Consensus\<close> and
  \<^verbatim>\<open>MempoolPolicy\<close>. The mutable arrays of the code are the fields of \<open>accumulators\<close>; \<open>None\<close> is
  the panic of \<^verbatim>\<open>rule_slot\<close> or of the input evaluation.
\<close>

section \<open>The code\<close>

definition INPUT_SCOPED :: "rule_id list" where
  "INPUT_SCOPED = [ElementSize, UndefinedVersion, TaprootAnnex, ControlBlockSize, OpSuccess,
     TapscriptOpIf]"

datatype applicability = ConsensusRules evaluation_context | MempoolPolicyRules

record accumulators =
  acc_violations :: "violation list list"
  acc_unknowns :: "missing list list"
  acc_primary :: "primary_violation option"
  acc_blocked :: bool

definition output_size_violations :: "transaction \<Rightarrow> violation list" where
  "output_size_violations tx = List.map_filter (\<lambda>(vout, txout).
     let script = script_pubkey txout in
     if script = [] then None
     else let op_return = (script ! 0 = OP_RETURN);
              limit = (if op_return then MAX_OUTPUT_DATA_SIZE else MAX_OUTPUT_SCRIPT_SIZE)
          in if limit < length script
             then Some (OutputScriptTooLarge vout (length script) op_return limit) else None)
     (enumerated (tx_outputs tx))"

definition rule_slot :: "rule_id \<Rightarrow> nat option" where
  "rule_slot rule = position (\<lambda>r. r = rule) INPUT_SCOPED"

fun push_matches :: "primary_violation list \<Rightarrow> violation list list \<Rightarrow> violation list list option" where
  "push_matches [] vs = Some vs"
| "push_matches (m # ms) vs = do {
     slot \<leftarrow> rule_slot (pv_rule m);
     push_matches ms (vs[slot := vs ! slot @ [pv_evidence m]])
   }"

definition record_matches :: "primary_violation list \<Rightarrow> accumulators \<Rightarrow> accumulators option" where
  "record_matches matches acc =
     (let acc = (if acc_primary acc = None \<and> \<not> acc_blocked acc
        then acc\<lparr>acc_primary := first_of matches\<rparr> else acc)
      in map_option (\<lambda>vs. acc\<lparr>acc_violations := vs\<rparr>) (push_matches matches (acc_violations acc)))"

definition push_unknown_all :: "missing list list \<Rightarrow> missing \<Rightarrow> missing list list" where
  "push_unknown_all unknowns m = map (\<lambda>slot. slot @ [m]) unknowns"

text \<open>\<^verbatim>\<open>affected_rules[rule_slot(rule)] = true\<close> for every match.\<close>

fun mark_affected :: "primary_violation list \<Rightarrow> bool list \<Rightarrow> bool list option" where
  "mark_affected [] affected = Some affected"
| "mark_affected (m # ms) affected = do {
     slot \<leftarrow> rule_slot (pv_rule m);
     mark_affected ms (affected[slot := True])
   }"

definition record_height_missing ::
    "nat \<Rightarrow> primary_violation list \<Rightarrow> accumulators \<Rightarrow> accumulators option" where
  "record_height_missing i matches acc =
     (let acc = (if matches \<noteq> [] \<and> acc_primary acc = None then acc\<lparr>acc_blocked := True\<rparr> else acc)
      in map_option (\<lambda>affected. acc\<lparr>acc_unknowns :=
             map (\<lambda>(slot, hit). if hit then slot @ [MissingCreationHeight i] else slot)
               (zip (acc_unknowns acc) affected)\<rparr>)
           (mark_affected matches (replicate 6 False)))"

definition exempt :: "applicability \<Rightarrow> prevout_facts \<Rightarrow> bool" where
  "exempt appl facts = (case appl of
     ConsensusRules ctx \<Rightarrow>
       (case pf_creation_height facts of
          Some height \<Rightarrow> (case is_grandfathered ctx height of Some b \<Rightarrow> b | None \<Rightarrow> False)
        | None \<Rightarrow> False)
   | MempoolPolicyRules \<Rightarrow> False)"

definition eval_input_step ::
    "rust_bitcoin \<Rightarrow> applicability \<Rightarrow> prevout_set \<Rightarrow> nat \<times> tx_in \<Rightarrow> accumulators \<Rightarrow> accumulators option" where
  "eval_input_step lib appl prevouts it acc = (case it of (i, txin) \<Rightarrow>
     (case prevout_get prevouts i of
        None \<Rightarrow>
          let acc = acc\<lparr>acc_unknowns := push_unknown_all (acc_unknowns acc) (MissingScriptPubKey i)\<rparr>
          in Some (if acc_primary acc = None then acc\<lparr>acc_blocked := True\<rparr> else acc)
      | Some facts \<Rightarrow>
          if exempt appl facts then Some acc
          else do {
            matches \<leftarrow> evaluate_input lib i txin (pf_script_pubkey facts);
            (case appl of
               MempoolPolicyRules \<Rightarrow> record_matches matches acc
             | ConsensusRules _ \<Rightarrow>
                 (case pf_creation_height facts of
                    Some _ \<Rightarrow> record_matches matches acc
                  | None \<Rightarrow> record_height_missing i matches acc))
          }))"

fun eval_inputs ::
    "rust_bitcoin \<Rightarrow> applicability \<Rightarrow> prevout_set \<Rightarrow> (nat \<times> tx_in) list \<Rightarrow> accumulators \<Rightarrow> accumulators option" where
  "eval_inputs lib appl prevouts [] acc = Some acc"
| "eval_inputs lib appl prevouts (it # rest) acc = do {
     acc \<leftarrow> eval_input_step lib appl prevouts it acc;
     eval_inputs lib appl prevouts rest acc
   }"

definition outcome :: "rule_id \<Rightarrow> rule_verdict \<Rightarrow> rule_outcome" where
  "outcome rule verdict = \<lparr> ro_rule = rule, ro_number = rule_number rule, ro_verdict = verdict \<rparr>"

definition slot_verdict :: "violation list \<Rightarrow> missing list \<Rightarrow> rule_verdict" where
  "slot_verdict violations unknowns =
     (if violations \<noteq> [] then Violate violations unknowns
      else if unknowns \<noteq> [] then Unknown unknowns
      else Pass)"

definition mode_of :: "applicability \<Rightarrow> evaluation_mode" where
  "mode_of appl = (case appl of
     MempoolPolicyRules \<Rightarrow> MempoolPolicyMode | ConsensusRules _ \<Rightarrow> ConsensusMode)"

definition evaluate_applied ::
    "rust_bitcoin \<Rightarrow> transaction \<Rightarrow> prevout_set \<Rightarrow> applicability \<Rightarrow> tx_evidence option" where
  "evaluate_applied lib tx prevouts appl =
     (let coinbase = is_coinbase lib tx;
          output_violations = output_size_violations tx;
          primary = map_option (\<lambda>ev. \<lparr> pv_rule = OutputSize, pv_evidence = ev \<rparr>)
            (first_of output_violations);
          rule1 = (if output_violations = [] then Pass else Violate output_violations []);
          start = \<lparr> acc_violations = replicate 6 [], acc_unknowns = replicate 6 [],
            acc_primary = primary, acc_blocked = False \<rparr>
      in do {
        acc \<leftarrow> (if coinbase then Some start
                else eval_inputs lib appl prevouts (enumerated (tx_inputs tx)) start);
        slots \<leftarrow> collect_options (map rule_slot INPUT_SCOPED);
        Some \<lparr> te_evaluation_mode = mode_of appl, te_rules_applied = True,
          te_is_coinbase = coinbase, te_primary_violation = acc_primary acc,
          te_rules = outcome OutputSize rule1 #
            map (\<lambda>(rule, slot).
                outcome rule (slot_verdict (acc_violations acc ! slot) (acc_unknowns acc ! slot)))
              (zip INPUT_SCOPED slots) \<rparr>
      })"

definition evaluate_mempool_policy ::
    "rust_bitcoin \<Rightarrow> transaction \<Rightarrow> prevout_set \<Rightarrow> tx_evidence option" where
  "evaluate_mempool_policy lib tx prevouts = evaluate_applied lib tx prevouts MempoolPolicyRules"

definition all_pass :: "rule_outcome list" where
  "all_pass = map (\<lambda>rule. outcome rule Pass)
     [OutputSize, ElementSize, UndefinedVersion, TaprootAnnex, ControlBlockSize, OpSuccess,
      TapscriptOpIf]"

definition evaluate_consensus ::
    "rust_bitcoin \<Rightarrow> transaction \<Rightarrow> evaluation_context \<Rightarrow> prevout_set \<Rightarrow> tx_evidence option" where
  "evaluate_consensus lib tx ctx prevouts =
     (if \<not> rdts_active ctx
      then Some \<lparr> te_evaluation_mode = ConsensusMode, te_rules_applied = False,
        te_is_coinbase = is_coinbase lib tx, te_primary_violation = None, te_rules = all_pass \<rparr>
      else evaluate_applied lib tx prevouts (ConsensusRules ctx))"

section \<open>Specification: what the loop computes\<close>

text \<open>How one input enters the verdicts.\<close>

datatype input_view =
    NoFacts nat
  | Exempt
  | Known "primary_violation list"
  | HeightMissing nat "primary_violation list"

definition input_view ::
    "rust_bitcoin \<Rightarrow> applicability \<Rightarrow> prevout_set \<Rightarrow> nat \<times> tx_in \<Rightarrow> input_view" where
  "input_view lib appl prevouts it = (case it of (i, txin) \<Rightarrow>
     (case prevout_get prevouts i of
        None \<Rightarrow> NoFacts i
      | Some facts \<Rightarrow>
          if exempt appl facts then Exempt
          else let ms = the (evaluate_input lib i txin (pf_script_pubkey facts))
            in if appl \<noteq> MempoolPolicyRules \<and> pf_creation_height facts = None
               then HeightMissing i ms else Known ms))"

fun recorded :: "rule_id \<Rightarrow> input_view \<Rightarrow> violation list" where
  "recorded r (Known ms) = map pv_evidence (filter (\<lambda>m. pv_rule m = r) ms)"
| "recorded r _ = []"

fun missing_for :: "rule_id \<Rightarrow> input_view \<Rightarrow> missing list" where
  "missing_for r (NoFacts i) = [MissingScriptPubKey i]"
| "missing_for r (HeightMissing i ms) = (if reports r ms then [MissingCreationHeight i] else [])"
| "missing_for r _ = []"

text \<open>
  The first rejection across the inputs: the first match of the first input with one, unless an
  earlier input could not be decided.
\<close>

fun first_rejection :: "input_view list \<Rightarrow> primary_violation option" where
  "first_rejection [] = None"
| "first_rejection (NoFacts _ # vs) = None"
| "first_rejection (Exempt # vs) = first_rejection vs"
| "first_rejection (Known [] # vs) = first_rejection vs"
| "first_rejection (Known (m # _) # vs) = Some m"
| "first_rejection (HeightMissing _ [] # vs) = first_rejection vs"
| "first_rejection (HeightMissing _ (_ # _) # vs) = None"

definition views_of ::
    "rust_bitcoin \<Rightarrow> applicability \<Rightarrow> prevout_set \<Rightarrow> transaction \<Rightarrow> input_view list" where
  "views_of lib appl prevouts tx =
     (if is_coinbase lib tx then []
      else map (input_view lib appl prevouts) (enumerated (tx_inputs tx)))"

definition rule_verdict_spec :: "transaction \<Rightarrow> input_view list \<Rightarrow> rule_id \<Rightarrow> rule_verdict" where
  "rule_verdict_spec tx views r =
     (if r = OutputSize then slot_verdict (output_size_violations tx) []
      else slot_verdict (concat (map (recorded r) views)) (concat (map (missing_for r) views)))"

definition primary_spec :: "transaction \<Rightarrow> input_view list \<Rightarrow> primary_violation option" where
  "primary_spec tx views = (case output_size_violations tx of
     v # _ \<Rightarrow> Some (rule_match OutputSize v)
   | [] \<Rightarrow> first_rejection views)"

definition all_rules :: "rule_id list" where
  "all_rules = OutputSize # INPUT_SCOPED"

definition evidence_spec ::
    "rust_bitcoin \<Rightarrow> transaction \<Rightarrow> prevout_set \<Rightarrow> applicability \<Rightarrow> tx_evidence" where
  "evidence_spec lib tx prevouts appl =
     (let views = views_of lib appl prevouts tx in
      \<lparr> te_evaluation_mode = mode_of appl, te_rules_applied = True,
        te_is_coinbase = is_coinbase lib tx,
        te_primary_violation = primary_spec tx views,
        te_rules = map (\<lambda>r. outcome r (rule_verdict_spec tx views r)) all_rules \<rparr>)"

end
