(* ===== verification/Bip110_Eval_Props.thy ===== *)
theory Bip110_Eval_Props
  imports Bip110_Eval
begin

text \<open>
  What \<^verbatim>\<open>evaluate_applied\<close> computes: the accumulating loop over the inputs refines a
  specification that reads each input once (\<open>evidence_spec\<close>), and the theorems about the
  seven outcomes, the first rejection and the two modes follow from it.
\<close>

section \<open>The accumulating loop\<close>

lemma six_slots: "length xs = 6 \<Longrightarrow> \<exists>a b c d e f. xs = [a, b, c, d, e, f]"
  by (auto simp: numeral_eq_Suc length_Suc_conv)

lemma rule_slot_values [simp]:
  "rule_slot ElementSize = Some 0" "rule_slot UndefinedVersion = Some 1"
  "rule_slot TaprootAnnex = Some 2" "rule_slot ControlBlockSize = Some 3"
  "rule_slot OpSuccess = Some 4" "rule_slot TapscriptOpIf = Some 5" "rule_slot OutputSize = None"
  by (simp_all add: rule_slot_def INPUT_SCOPED_def)

definition per_slot :: "(rule_id \<Rightarrow> 'a list) \<Rightarrow> 'a list list \<Rightarrow> 'a list list" where
  "per_slot f vs = map (\<lambda>(r, v). v @ f r) (zip INPUT_SCOPED vs)"

lemma length_per_slot [simp]: "length vs = 6 \<Longrightarrow> length (per_slot f vs) = 6"
  by (simp add: per_slot_def INPUT_SCOPED_def)

lemma per_slot_Nil: "length vs = 6 \<Longrightarrow> per_slot (\<lambda>_. []) vs = vs"
  by (auto simp: per_slot_def INPUT_SCOPED_def dest!: six_slots)

lemma per_slot_append:
  "length vs = 6 \<Longrightarrow> per_slot g (per_slot f vs) = per_slot (\<lambda>r. f r @ g r) vs"
  by (auto simp: per_slot_def INPUT_SCOPED_def dest!: six_slots)

lemma push_matches_eq:
  "list_all (\<lambda>m. pv_rule m \<noteq> OutputSize) ms \<Longrightarrow> length vs = 6 \<Longrightarrow>
     push_matches ms vs = Some (per_slot (\<lambda>r. map pv_evidence (filter (\<lambda>m. pv_rule m = r) ms)) vs)"
proof (induction ms arbitrary: vs)
  case Nil
  then show ?case by (simp add: per_slot_Nil)
next
  case (Cons m ms)
  then obtain a b c d e f where vs: "vs = [a, b, c, d, e, f]"
    by (auto dest!: six_slots)
  show ?case
    using Cons by (cases "pv_rule m") (simp_all add: vs per_slot_def INPUT_SCOPED_def)
qed

lemma mark_affected_eq:
  "list_all (\<lambda>m. pv_rule m \<noteq> OutputSize) ms \<Longrightarrow> length bs = 6 \<Longrightarrow>
     mark_affected ms bs = Some (map (\<lambda>(r, b). b \<or> reports r ms) (zip INPUT_SCOPED bs))"
proof (induction ms arbitrary: bs)
  case Nil
  then show ?case by (auto simp: INPUT_SCOPED_def dest!: six_slots)
next
  case (Cons m ms)
  then obtain a b c d e f where bs: "bs = [a, b, c, d, e, f]"
    by (auto dest!: six_slots)
  show ?case
    using Cons by (cases "pv_rule m") (simp_all add: bs INPUT_SCOPED_def)
qed

text \<open>The effect of one input on the accumulators.\<close>

fun view_first :: "input_view \<Rightarrow> primary_violation option" where
  "view_first (Known ms) = first_of ms"
| "view_first _ = None"

fun view_blocks :: "input_view \<Rightarrow> bool" where
  "view_blocks (NoFacts _) = True"
| "view_blocks (HeightMissing _ ms) = (ms \<noteq> [])"
| "view_blocks _ = False"

definition apply_view :: "input_view \<Rightarrow> accumulators \<Rightarrow> accumulators" where
  "apply_view v acc = acc\<lparr>
     acc_violations := per_slot (\<lambda>r. recorded r v) (acc_violations acc),
     acc_unknowns := per_slot (\<lambda>r. missing_for r v) (acc_unknowns acc),
     acc_primary := (if acc_primary acc = None \<and> \<not> acc_blocked acc then view_first v else acc_primary acc),
     acc_blocked := (acc_blocked acc \<or> acc_primary acc = None \<and> view_blocks v)\<rparr>"

definition acc_ok :: "accumulators \<Rightarrow> bool" where
  "acc_ok acc \<longleftrightarrow> length (acc_violations acc) = 6 \<and> length (acc_unknowns acc) = 6"

lemma acc_ok_apply [simp]: "acc_ok acc \<Longrightarrow> acc_ok (apply_view v acc)"
  by (simp add: acc_ok_def apply_view_def)

lemma input_matches_not_output:
  "evaluate_input lib i txin spk = Some ms \<Longrightarrow> list_all (\<lambda>m. pv_rule m \<noteq> OutputSize) ms"
  using evaluate_input_ok [of lib i txin spk] by (auto simp: list_all_iff match_ok_def)

lemma record_matches_view:
  assumes "acc_ok acc" "list_all (\<lambda>m. pv_rule m \<noteq> OutputSize) ms"
  shows "record_matches ms acc = Some (apply_view (Known ms) acc)"
proof -
  have "per_slot (\<lambda>r. missing_for r (Known ms)) (acc_unknowns acc) = acc_unknowns acc"
    using assms(1) by (simp add: per_slot_Nil acc_ok_def)
  with assms show ?thesis
    by (simp add: record_matches_def push_matches_eq acc_ok_def apply_view_def Let_def)
qed

lemma record_height_missing_view:
  assumes "acc_ok acc" "list_all (\<lambda>m. pv_rule m \<noteq> OutputSize) ms"
  shows "record_height_missing i ms acc = Some (apply_view (HeightMissing i ms) acc)"
proof -
  have "per_slot (\<lambda>r. recorded r (HeightMissing i ms)) (acc_violations acc) = acc_violations acc"
    using assms(1) by (simp add: per_slot_Nil acc_ok_def)
  moreover obtain a b c d e f where "acc_unknowns acc = [a, b, c, d, e, f]"
    using assms(1) by (auto simp: acc_ok_def dest!: six_slots)
  then have "map (\<lambda>(slot, hit). if hit then slot @ [MissingCreationHeight i] else slot)
      (zip (acc_unknowns acc) (map (\<lambda>(r, b). b \<or> reports r ms) (zip INPUT_SCOPED (replicate 6 False)))) =
    per_slot (\<lambda>r. missing_for r (HeightMissing i ms)) (acc_unknowns acc)"
    by (simp add: per_slot_def INPUT_SCOPED_def numeral_eq_Suc)
  ultimately show ?thesis
    using assms by (auto simp: record_height_missing_def mark_affected_eq apply_view_def Let_def)
qed

lemma eval_input_step_view:
  assumes "acc_ok acc"
  shows "eval_input_step lib appl prevouts it acc =
    Some (apply_view (input_view lib appl prevouts it) acc)"
proof -
  obtain i txin where it: "it = (i, txin)" by (cases it)
  show ?thesis
  proof (cases "prevout_get prevouts i")
    case None
    have "per_slot (\<lambda>r. recorded r (NoFacts i)) (acc_violations acc) = acc_violations acc"
      using assms by (simp add: per_slot_Nil acc_ok_def)
    moreover obtain a b c d e f where "acc_unknowns acc = [a, b, c, d, e, f]"
      using assms by (auto simp: acc_ok_def dest!: six_slots)
    then have "push_unknown_all (acc_unknowns acc) (MissingScriptPubKey i) =
        per_slot (\<lambda>r. missing_for r (NoFacts i)) (acc_unknowns acc)"
      by (simp add: push_unknown_all_def per_slot_def INPUT_SCOPED_def)
    ultimately show ?thesis
      using None by (auto simp: eval_input_step_def input_view_def it apply_view_def Let_def)
  next
    case (Some facts)
    obtain ms where ms: "evaluate_input lib i txin (pf_script_pubkey facts) = Some ms"
      using evaluate_input_ok by blast
    note no = input_matches_not_output [OF ms]
    have ex: "apply_view Exempt acc = acc"
      using assms by (simp add: apply_view_def per_slot_Nil acc_ok_def)
    show ?thesis
      using Some ms ex record_matches_view [OF assms no] record_height_missing_view [OF assms no, of i]
      by (auto simp: eval_input_step_def input_view_def it Let_def exempt_def
          split: applicability.splits option.splits)
  qed
qed

lemma eval_inputs_views:
  "acc_ok acc \<Longrightarrow> eval_inputs lib appl prevouts its acc =
     Some (fold apply_view (map (input_view lib appl prevouts) its) acc)"
  by (induction its arbitrary: acc) (simp_all add: eval_input_step_view)

lemma fold_apply_view:
  assumes "acc_ok acc"
  shows "acc_violations (fold apply_view vs acc) =
      per_slot (\<lambda>r. concat (map (recorded r) vs)) (acc_violations acc)"
    and "acc_unknowns (fold apply_view vs acc) =
      per_slot (\<lambda>r. concat (map (missing_for r) vs)) (acc_unknowns acc)"
    and "acc_primary (fold apply_view vs acc) =
      (if acc_primary acc = None \<and> \<not> acc_blocked acc then first_rejection vs else acc_primary acc)"
proof -
  have stuck: "acc_primary (fold apply_view vs acc) = acc_primary acc"
    if "acc_primary acc \<noteq> None \<or> acc_blocked acc" for vs :: "input_view list" and acc
    using that by (induction vs arbitrary: acc) (auto simp: apply_view_def)
  show "acc_violations (fold apply_view vs acc) =
      per_slot (\<lambda>r. concat (map (recorded r) vs)) (acc_violations acc)"
    using assms
    by (induction vs arbitrary: acc)
      (simp_all add: per_slot_Nil per_slot_append acc_ok_def, simp add: apply_view_def per_slot_append)
  show "acc_unknowns (fold apply_view vs acc) =
      per_slot (\<lambda>r. concat (map (missing_for r) vs)) (acc_unknowns acc)"
    using assms
    by (induction vs arbitrary: acc)
      (simp_all add: per_slot_Nil per_slot_append acc_ok_def, simp add: apply_view_def per_slot_append)
  show "acc_primary (fold apply_view vs acc) =
      (if acc_primary acc = None \<and> \<not> acc_blocked acc then first_rejection vs else acc_primary acc)"
  proof (induction vs arbitrary: acc rule: first_rejection.induct)
  qed (auto simp: stuck, auto simp: apply_view_def stuck)
qed

section \<open>The refinement\<close>

lemma slots_of_rules: "collect_options (map rule_slot INPUT_SCOPED) = Some [0, 1, 2, 3, 4, 5]"
  by (simp add: INPUT_SCOPED_def)

lemma per_slot_replicate:
  "per_slot f (replicate 6 []) = map f INPUT_SCOPED"
  "per_slot f (map (\<lambda>_. []) INPUT_SCOPED) = map f INPUT_SCOPED"
  by (simp_all add: per_slot_def INPUT_SCOPED_def numeral_eq_Suc)

lemma outcomes_of_slots:
  "map (\<lambda>(rule, slot). outcome rule (slot_verdict (map f INPUT_SCOPED ! slot) (map g INPUT_SCOPED ! slot)))
     (zip INPUT_SCOPED [0, 1, 2, 3, 4, 5]) =
   map (\<lambda>r. outcome r (slot_verdict (f r) (g r))) INPUT_SCOPED"
  by (simp add: INPUT_SCOPED_def numeral_eq_Suc)

lemma loop_over_views:
  fixes start :: accumulators
  assumes "acc_violations start = replicate 6 []" "acc_unknowns start = replicate 6 []"
    "\<not> acc_blocked start"
  shows "\<exists>acc. (if is_coinbase lib tx then Some start
        else eval_inputs lib appl prevouts (enumerated (tx_inputs tx)) start) = Some acc \<and>
     acc_violations acc = map (\<lambda>r. concat (map (recorded r) (views_of lib appl prevouts tx))) INPUT_SCOPED \<and>
     acc_unknowns acc = map (\<lambda>r. concat (map (missing_for r) (views_of lib appl prevouts tx))) INPUT_SCOPED \<and>
     acc_primary acc = (if acc_primary start = None
        then first_rejection (views_of lib appl prevouts tx) else acc_primary start)"
proof -
  have ok: "acc_ok start" using assms by (simp add: acc_ok_def)
  have six: "replicate 6 [] = map (\<lambda>_. []) INPUT_SCOPED"
    by (simp add: INPUT_SCOPED_def numeral_eq_Suc)
  show ?thesis
    using assms ok
    by (cases "is_coinbase lib tx")
      (simp_all add: views_of_def eval_inputs_views fold_apply_view per_slot_replicate six)
qed

lemma evaluate_applied_spec:
  "evaluate_applied lib tx prevouts appl = Some (evidence_spec lib tx prevouts appl)"
proof -
  let ?start = "\<lparr> acc_violations = replicate 6 [], acc_unknowns = replicate 6 [],
     acc_primary = map_option (\<lambda>ev. \<lparr> pv_rule = OutputSize, pv_evidence = ev \<rparr>)
        (first_of (output_size_violations tx)), acc_blocked = False \<rparr>"
  obtain acc where acc: "(if is_coinbase lib tx then Some ?start
        else eval_inputs lib appl prevouts (enumerated (tx_inputs tx)) ?start) = Some acc"
    and v: "acc_violations acc = map (\<lambda>r. concat (map (recorded r) (views_of lib appl prevouts tx))) INPUT_SCOPED"
    and u: "acc_unknowns acc = map (\<lambda>r. concat (map (missing_for r) (views_of lib appl prevouts tx))) INPUT_SCOPED"
    and p: "acc_primary acc = (if acc_primary ?start = None
        then first_rejection (views_of lib appl prevouts tx) else acc_primary ?start)"
    using loop_over_views [of ?start lib tx appl prevouts] by auto
  have prim: "acc_primary acc = primary_spec tx (views_of lib appl prevouts tx)"
    by (simp add: p primary_spec_def rule_match_def split: list.splits)
  have "OutputSize \<notin> set INPUT_SCOPED" by (simp add: INPUT_SCOPED_def)
  then have rules: "map (\<lambda>(rule, slot). outcome rule
        (slot_verdict (acc_violations acc ! slot) (acc_unknowns acc ! slot))) (zip INPUT_SCOPED [0, 1, 2, 3, 4, 5]) =
      map (\<lambda>r. outcome r (rule_verdict_spec tx (views_of lib appl prevouts tx) r)) INPUT_SCOPED"
    unfolding v u outcomes_of_slots by (auto simp: rule_verdict_spec_def)
  show ?thesis
    using acc rules prim
    by (simp add: evaluate_applied_def Let_def slots_of_rules evidence_spec_def all_rules_def
        rule_verdict_spec_def slot_verdict_def cong: if_cong)
qed

text \<open>
  C25: The accumulating loop of \<^verbatim>\<open>evaluate_applied\<close> implements its specification: whatever the
  transaction, the known prevouts and the mode, the evaluation returns (it never panics), and
  its evidence is the one read off the inputs one by one: each rule's violations and missing
  facts in input order, and the first rejection, which an undecided earlier input hides.
\<close>

theorem evaluate_applied_refines:
  "evaluate_applied lib tx prevouts appl = Some (evidence_spec lib tx prevouts appl)"
  by (rule evaluate_applied_spec)

end
