(* ===== verification/Bip110_Policy.thy ===== *)
theory Bip110_Policy
  imports Bip110_Eval_Props
begin

text \<open>
  The verdicts of the two entry points \<^verbatim>\<open>evaluate_mempool_policy\<close> and \<^verbatim>\<open>evaluate_consensus\<close>,
  read through the refinement of \<^verbatim>\<open>evaluate_applied\<close>: when a rule is violated, unknown or passed,
  which rejection is the primary one, what learning a prevout can change, and how the two modes
  relate.
\<close>

section \<open>Verdicts by rule\<close>

definition rule_verdict_of :: "tx_evidence option \<Rightarrow> rule_id \<Rightarrow> rule_verdict option" where
  "rule_verdict_of e r = Option.bind e (\<lambda>ev. map_option ro_verdict (evidence_rule ev r))"

definition violates :: "tx_evidence option \<Rightarrow> rule_id \<Rightarrow> bool" where
  "violates e r = (case rule_verdict_of e r of Some v \<Rightarrow> is_violate v | None \<Rightarrow> False)"

definition undecided :: "tx_evidence option \<Rightarrow> rule_id \<Rightarrow> bool" where
  "undecided e r = (case rule_verdict_of e r of Some v \<Rightarrow> is_unknown v | None \<Rightarrow> False)"

definition passes :: "tx_evidence option \<Rightarrow> rule_id \<Rightarrow> bool" where
  "passes e r = (case rule_verdict_of e r of Some v \<Rightarrow> is_pass v | None \<Rightarrow> False)"

lemma rule_verdict_of_spec:
  "rule_verdict_of (Some (evidence_spec lib tx prevouts appl)) r =
     Some (rule_verdict_spec tx (views_of lib appl prevouts tx) r)"
  by (cases r) (simp_all add: rule_verdict_of_def evidence_rule_def evidence_spec_def Let_def
      all_rules_def INPUT_SCOPED_def outcome_def)

lemma slot_verdict_kind [simp]:
  "is_violate (slot_verdict vs us) \<longleftrightarrow> vs \<noteq> []"
  "is_unknown (slot_verdict vs us) \<longleftrightarrow> vs = [] \<and> us \<noteq> []"
  "is_pass (slot_verdict vs us) \<longleftrightarrow> vs = [] \<and> us = []"
  by (simp_all add: slot_verdict_def is_violate_def is_unknown_def is_pass_def)

lemma verdict_kinds:
  fixes lib tx prevouts appl
  defines "e \<equiv> Some (evidence_spec lib tx prevouts appl)"
    and "vs \<equiv> views_of lib appl prevouts tx"
  shows "violates e r \<longleftrightarrow> (if r = OutputSize then output_size_violations tx \<noteq> []
      else \<exists>v \<in> set vs. recorded r v \<noteq> [])"
    and "undecided e r \<longleftrightarrow> r \<noteq> OutputSize \<and> \<not> violates e r \<and> (\<exists>v \<in> set vs. missing_for r v \<noteq> [])"
    and "passes e r \<longleftrightarrow> \<not> violates e r \<and> \<not> undecided e r"
  by (auto simp: e_def vs_def violates_def undecided_def passes_def rule_verdict_of_spec rule_verdict_spec_def)

lemma map_filter_nonempty: "List.map_filter f xs \<noteq> [] \<longleftrightarrow> (\<exists>x \<in> set xs. f x \<noteq> None)"
  by (auto simp: List.map_filter_def filter_empty_conv)

definition output_too_large :: "tx_out \<Rightarrow> bool" where
  "output_too_large out \<longleftrightarrow> script_pubkey out \<noteq> [] \<and>
     length (script_pubkey out) > (if hd (script_pubkey out) = 0x6a then 83 else 34)"

lemma output_size_violations_iff:
  "output_size_violations tx \<noteq> [] \<longleftrightarrow> (\<exists>out \<in> set (tx_outputs tx). output_too_large out)"
proof -
  have "(let script = script_pubkey out in
     if script = [] then None
     else let op_return = (script ! 0 = OP_RETURN);
              limit = (if op_return then MAX_OUTPUT_DATA_SIZE else MAX_OUTPUT_SCRIPT_SIZE)
          in if limit < length script
             then Some (OutputScriptTooLarge vout (length script) op_return limit) else None) \<noteq> None
    \<longleftrightarrow> output_too_large out" for vout out
    by (simp add: output_too_large_def bip110_limits OP_RETURN_def Let_def hd_conv_nth)
  then have "output_size_violations tx \<noteq> [] \<longleftrightarrow>
      (\<exists>it \<in> set (enumerated (tx_outputs tx)). output_too_large (snd it))"
    unfolding output_size_violations_def map_filter_nonempty case_prod_unfold by simp
  then show ?thesis by (simp add: bex_enumerated)
qed

lemma bex_views:
  "(\<exists>v \<in> set (views_of lib appl prevouts tx). Q v) \<longleftrightarrow> \<not> is_coinbase lib tx \<and>
     (\<exists>i < length (tx_inputs tx). Q (input_view lib appl prevouts (i, tx_inputs tx ! i)))"
proof -
  have "(\<exists>it \<in> set (enumerated xs). P it) \<longleftrightarrow> (\<exists>i < length xs. P (i, xs ! i))"
    for P and xs :: "tx_in list"
    by (metis enumerated_mem prod.exhaust)
  then show ?thesis by (simp add: views_of_def)
qed

lemma input_reports_the:
  "reports r (the (evaluate_input lib i txin spk)) \<longleftrightarrow> input_reports lib i txin spk r"
  using evaluate_input_ok [of lib i txin spk] by (auto simp: input_reports_def)

lemma recorded_nonempty:
  "recorded r v \<noteq> [] \<longleftrightarrow> (\<exists>ms. v = Known ms \<and> reports r ms)"
  by (cases v) (auto simp: reports_iff filter_empty_conv)

lemma policy_view:
  "input_view lib MempoolPolicyRules prevouts (i, txin) =
     (case prevout_get prevouts i of None \<Rightarrow> NoFacts i
      | Some facts \<Rightarrow> Known (the (evaluate_input lib i txin (pf_script_pubkey facts))))"
  by (simp add: input_view_def exempt_def Let_def split: option.splits)

section \<open>The mempool policy\<close>

lemma policy_violates_eq:
  "violates (evaluate_mempool_policy lib tx prevouts) r \<longleftrightarrow>
     (if r = OutputSize
      then list_ex output_too_large (tx_outputs tx)
      else \<not> is_coinbase lib tx \<and> (\<exists>i < length (tx_inputs tx). \<exists>facts.
        prevout_get prevouts i = Some facts \<and>
        input_reports lib i (tx_inputs tx ! i) (pf_script_pubkey facts) r))"
proof -
  have "(\<exists>ms. input_view lib MempoolPolicyRules prevouts (i, txin) = Known ms \<and> reports r ms) \<longleftrightarrow>
      (\<exists>facts. prevout_get prevouts i = Some facts \<and>
        input_reports lib i txin (pf_script_pubkey facts) r)" for i txin
    by (cases "prevout_get prevouts i") (simp_all add: policy_view input_reports_the)
  then show ?thesis
    by (simp add: evaluate_mempool_policy_def evaluate_applied_spec verdict_kinds(1)
        output_size_violations_iff recorded_nonempty bex_views list_ex_iff)
qed

text \<open>
  C1: Under the mempool policy a rule is violated exactly when some output is over its size limit
  (34 bytes, 83 for \<^verbatim>\<open>OP_RETURN\<close>; rule 1), or when the transaction is not a coinbase and some
  input whose prevout is known reports it (rules 2 to 7).
\<close>

theorem policy_violates_iff:
  "violates (evaluate_mempool_policy lib tx prevouts) r \<longleftrightarrow>
     (if r = OutputSize
      then list_ex output_too_large (tx_outputs tx)
      else \<not> is_coinbase lib tx \<and> (\<exists>i < length (tx_inputs tx). \<exists>facts.
        prevout_get prevouts i = Some facts \<and>
        input_reports lib i (tx_inputs tx ! i) (pf_script_pubkey facts) r))"
  by (rule policy_violates_eq)

text \<open>
  Under the mempool policy a rule is undecided exactly when it is input-scoped, no known input
  of the non-coinbase transaction violates it, and the prevout of some input is not known; then,
  and only then, can a fetched prevout still change its verdict.
\<close>

theorem policy_undecided_iff:
  "undecided (evaluate_mempool_policy lib tx prevouts) r \<longleftrightarrow>
     r \<noteq> OutputSize \<and> \<not> is_coinbase lib tx \<and>
     \<not> violates (evaluate_mempool_policy lib tx prevouts) r \<and>
     (\<exists>i < length (tx_inputs tx). prevout_get prevouts i = None)"
proof -
  have "missing_for r (input_view lib MempoolPolicyRules prevouts (i, txin)) \<noteq> [] \<longleftrightarrow>
      prevout_get prevouts i = None" for i txin
    by (cases "prevout_get prevouts i") (simp_all add: policy_view)
  then have "(\<exists>v \<in> set (views_of lib MempoolPolicyRules prevouts tx). missing_for r v \<noteq> []) \<longleftrightarrow>
      \<not> is_coinbase lib tx \<and> (\<exists>i < length (tx_inputs tx). prevout_get prevouts i = None)"
    by (simp only: bex_views)
  then show ?thesis
    by (auto simp only: evaluate_mempool_policy_def evaluate_applied_spec verdict_kinds(2))
qed

section \<open>Learning prevouts\<close>

definition prevouts_extend :: "prevout_set \<Rightarrow> prevout_set \<Rightarrow> bool" where
  "prevouts_extend ps ps' \<longleftrightarrow>
     (\<forall>i facts. prevout_get ps i = Some facts \<longrightarrow> prevout_get ps' i = Some facts)"

lemma violates_extend:
  assumes "prevouts_extend ps ps'" "violates (evaluate_applied lib tx ps MempoolPolicyRules) r"
  shows "violates (evaluate_applied lib tx ps' MempoolPolicyRules) r"
proof -
  have "recorded r (input_view lib MempoolPolicyRules ps (i, txin)) \<noteq> [] \<Longrightarrow>
      recorded r (input_view lib MempoolPolicyRules ps' (i, txin)) \<noteq> []" for i txin
    using assms(1) by (cases "prevout_get ps i") (simp_all add: policy_view prevouts_extend_def)
  then show ?thesis
    using assms(2) by (auto simp: evaluate_applied_spec verdict_kinds(1) bex_views split: if_splits)
qed

lemma views_known_extend:
  assumes "prevouts_extend ps ps'" "\<not> undecided (evaluate_applied lib tx ps MempoolPolicyRules) r"
    "\<not> violates (evaluate_applied lib tx ps MempoolPolicyRules) r" "r \<noteq> OutputSize"
  shows "views_of lib MempoolPolicyRules ps' tx = views_of lib MempoolPolicyRules ps tx"
proof (cases "is_coinbase lib tx")
  case False
  have known: "prevout_get ps i \<noteq> None" if "i < length (tx_inputs tx)" for i
  proof
    assume none: "prevout_get ps i = None"
    then have "missing_for r (input_view lib MempoolPolicyRules ps (i, tx_inputs tx ! i)) \<noteq> []"
      by (simp add: policy_view)
    with that False have "\<exists>v \<in> set (views_of lib MempoolPolicyRules ps tx). missing_for r v \<noteq> []"
      by (auto simp: bex_views)
    with assms show False by (simp add: evaluate_applied_spec verdict_kinds(2))
  qed
  have "input_view lib MempoolPolicyRules ps' it = input_view lib MempoolPolicyRules ps it"
    if "it \<in> set (enumerated (tx_inputs tx))" for it
  proof -
    obtain i txin where it: "it = (i, txin)" by (cases it)
    with that known [of i] obtain facts where "prevout_get ps i = Some facts"
      by (auto simp: enumerated_mem)
    with assms(1) show ?thesis by (simp add: it policy_view prevouts_extend_def)
  qed
  with False show ?thesis by (simp add: views_of_def)
qed (simp add: views_of_def)

text \<open>
  C26: Learning more prevouts never overturns a definite verdict: whatever a rule's verdict is, if
  it is not unknown then it stays violated, or stays passed, for every set of prevouts that
  extends the known ones.
\<close>

theorem definite_verdicts_are_stable:
  assumes ext: "prevouts_extend ps ps'"
    and definite: "\<not> undecided (evaluate_mempool_policy lib tx ps) r"
  shows "(violates (evaluate_mempool_policy lib tx ps') r \<longleftrightarrow>
      violates (evaluate_mempool_policy lib tx ps) r) \<and>
    (passes (evaluate_mempool_policy lib tx ps') r \<longleftrightarrow>
      passes (evaluate_mempool_policy lib tx ps) r)"
proof (cases "violates (evaluate_mempool_policy lib tx ps) r")
  case True
  then have "violates (evaluate_mempool_policy lib tx ps') r"
    using violates_extend [OF ext] by (simp add: evaluate_mempool_policy_def)
  with True show ?thesis
    by (simp add: evaluate_mempool_policy_def evaluate_applied_spec verdict_kinds(3))
next
  case False
  show ?thesis
  proof (cases "r = OutputSize")
    case True
    then show ?thesis
      by (simp add: evaluate_mempool_policy_def evaluate_applied_spec verdict_kinds)
  next
    case out: False
    have "views_of lib MempoolPolicyRules ps' tx = views_of lib MempoolPolicyRules ps tx"
      using False definite out
      by (intro views_known_extend [OF ext]) (simp_all add: evaluate_mempool_policy_def)
    then show ?thesis
      by (simp add: evaluate_mempool_policy_def evaluate_applied_spec verdict_kinds)
  qed
qed

section \<open>The first rejection\<close>

fun view_silent :: "input_view \<Rightarrow> bool" where
  "view_silent (NoFacts _) = False"
| "view_silent Exempt = True"
| "view_silent (Known ms) = (ms = [])"
| "view_silent (HeightMissing _ ms) = (ms = [])"

lemma first_rejection_Cons:
  "first_rejection (v # vs) = (if view_silent v then first_rejection vs
     else case v of Known ms \<Rightarrow> first_of ms | _ \<Rightarrow> None)"
proof (cases v)
  case (Known ms)
  then show ?thesis by (cases ms) simp_all
next
  case (HeightMissing i ms)
  then show ?thesis by (cases ms) simp_all
qed simp_all

lemma first_rejection_Some_iff:
  "first_rejection vs = Some pv \<longleftrightarrow>
     (\<exists>n < length vs. (\<forall>j < n. view_silent (vs ! j)) \<and> (\<exists>ms. vs ! n = Known (pv # ms)))"
proof (induction vs)
  case (Cons v vs)
  have head: "\<not> view_silent v \<Longrightarrow> (case v of Known ms \<Rightarrow> first_of ms | _ \<Rightarrow> None) = Some pv \<longleftrightarrow>
      (\<exists>ms. v = Known (pv # ms))"
    by (cases v) (auto simp: first_of_def split: list.splits)
  show ?case
    unfolding first_rejection_Cons length_Cons Ex_less_Suc2 All_less_Suc2
    using Cons head by auto
qed simp

text \<open>
  C11: Under the mempool policy the primary violation is the first rejection: the first oversized
  output, or else the first match of the first input that reports anything, provided every
  earlier input is known and reports nothing. When an earlier prevout is missing the first
  rejection is left open, even if a later input violates a rule.
\<close>

theorem policy_primary_iff:
  "Option.bind (evaluate_mempool_policy lib tx prevouts) te_primary_violation = Some pv \<longleftrightarrow>
     (\<exists>v. first_of (output_size_violations tx) = Some v \<and> pv = rule_match OutputSize v) \<or>
     output_size_violations tx = [] \<and> \<not> is_coinbase lib tx \<and>
     (\<exists>n < length (tx_inputs tx). \<exists>facts ms.
        prevout_get prevouts n = Some facts \<and>
        evaluate_input lib n (tx_inputs tx ! n) (pf_script_pubkey facts) = Some (pv # ms) \<and>
        list_all (\<lambda>j. \<exists>facts. prevout_get prevouts j = Some facts \<and>
           evaluate_input lib j (tx_inputs tx ! j) (pf_script_pubkey facts) = Some []) [0..<n])"
proof -
  have the_eq: "the (evaluate_input lib i txin spk) = ms \<longleftrightarrow> evaluate_input lib i txin spk = Some ms"
    for i txin spk ms
    using evaluate_input_ok [of lib i txin spk] by auto
  have silent: "view_silent (input_view lib MempoolPolicyRules prevouts (i, txin)) \<longleftrightarrow>
      (\<exists>facts. prevout_get prevouts i = Some facts \<and>
         evaluate_input lib i txin (pf_script_pubkey facts) = Some [])" for i txin
    by (cases "prevout_get prevouts i") (simp_all add: policy_view the_eq)
  have known: "input_view lib MempoolPolicyRules prevouts (i, txin) = Known (pv # ms) \<longleftrightarrow>
      (\<exists>facts. prevout_get prevouts i = Some facts \<and>
         evaluate_input lib i txin (pf_script_pubkey facts) = Some (pv # ms))" for i txin ms
    by (cases "prevout_get prevouts i") (simp_all add: policy_view the_eq)
  have nth: "views_of lib MempoolPolicyRules prevouts tx ! n =
      input_view lib MempoolPolicyRules prevouts (n, tx_inputs tx ! n)"
    if "n < length (tx_inputs tx)" "\<not> is_coinbase lib tx" for n
    using that by (simp add: views_of_def nth_enumerate_eq)
  have first: "first_rejection (views_of lib MempoolPolicyRules prevouts tx) = Some pv \<longleftrightarrow>
      \<not> is_coinbase lib tx \<and> (\<exists>n < length (tx_inputs tx).
        (\<forall>j < n. view_silent (input_view lib MempoolPolicyRules prevouts (j, tx_inputs tx ! j))) \<and>
        (\<exists>ms. input_view lib MempoolPolicyRules prevouts (n, tx_inputs tx ! n) = Known (pv # ms)))"
  proof (cases "is_coinbase lib tx")
    case False
    have len: "length (views_of lib MempoolPolicyRules prevouts tx) = length (tx_inputs tx)"
      using False by (simp add: views_of_def)
    show ?thesis
      unfolding first_rejection_Some_iff len using nth False by (auto 0 4)
  qed (simp add: views_of_def)
  show ?thesis
    by (cases "output_size_violations tx")
      (auto simp: evaluate_mempool_policy_def evaluate_applied_spec evidence_spec_def Let_def
        primary_spec_def first silent known list_all_iff atLeast0LessThan)
qed

section \<open>The shape of the evidence\<close>

definition evidence_ok :: "tx_evidence \<Rightarrow> bool" where
  "evidence_ok e \<longleftrightarrow>
     map ro_rule (te_rules e) = all_rules \<and>
     map ro_number (te_rules e) = [1, 2, 3, 4, 5, 6, 7] \<and>
     list_all (\<lambda>out. case ro_verdict out of
         Violate evidence missing \<Rightarrow> evidence \<noteq> [] \<and> list_all (\<lambda>v. rule_of v = ro_rule out) evidence
       | Unknown missing \<Rightarrow> missing \<noteq> [] \<and> ro_rule out \<noteq> OutputSize
       | Pass \<Rightarrow> True) (te_rules e) \<and>
     (case te_primary_violation e of
        None \<Rightarrow> True
      | Some pv \<Rightarrow> list_ex (\<lambda>out. ro_rule out = pv_rule pv \<and>
          (case ro_verdict out of Violate evidence _ \<Rightarrow> pv_evidence pv \<in> set evidence | _ \<Rightarrow> False))
          (te_rules e))"

lemma output_violation_rule: "v \<in> set (output_size_violations tx) \<Longrightarrow> rule_of v = OutputSize"
  by (auto simp: output_size_violations_def List.map_filter_def Let_def split: if_splits)

lemma recorded_rule:
  "v \<in> set (recorded r (input_view lib appl prevouts it)) \<Longrightarrow> rule_of v = r"
proof -
  obtain i txin where it: "it = (i, txin)" by (cases it)
  assume "v \<in> set (recorded r (input_view lib appl prevouts it))"
  then obtain facts m where "prevout_get prevouts i = Some facts"
    "m \<in> set (the (evaluate_input lib i txin (pf_script_pubkey facts)))" "pv_rule m = r" "pv_evidence m = v"
    by (auto simp: it input_view_def Let_def split: option.splits if_splits)
  then show "rule_of v = r"
    using evaluate_input_ok [of lib i txin "pf_script_pubkey facts"]
    by (auto simp: list_all_iff match_ok_def)
qed

lemma spec_verdict_ok:
  "case rule_verdict_spec tx (views_of lib appl prevouts tx) r of
     Violate evidence missing \<Rightarrow> evidence \<noteq> [] \<and> list_all (\<lambda>v. rule_of v = r) evidence
   | Unknown missing \<Rightarrow> missing \<noteq> [] \<and> r \<noteq> OutputSize
   | Pass \<Rightarrow> True"
proof (cases "r = OutputSize")
  case True
  then show ?thesis
    using output_violation_rule by (auto simp: rule_verdict_spec_def slot_verdict_def list_all_iff)
next
  case False
  have "v \<in> set (recorded r w) \<Longrightarrow> w \<in> set (views_of lib appl prevouts tx) \<Longrightarrow> rule_of v = r" for v w
    using recorded_rule by (auto simp: views_of_def split: if_splits)
  with False show ?thesis
    by (auto simp: rule_verdict_spec_def slot_verdict_def list_all_iff split: rule_verdict.splits)
qed

lemma input_view_KnownD:
  assumes "input_view lib appl prevouts it = Known ms"
  shows "\<exists>i txin spk. evaluate_input lib i txin spk = Some ms"
proof -
  have "evaluate_input lib i txin spk = Some (the (evaluate_input lib i txin spk))" for i txin spk
    using evaluate_input_ok [of lib i txin spk] by auto
  with assms show ?thesis
    by (cases it) (force simp: input_view_def Let_def split: option.splits if_splits)
qed

lemma slot_verdict_listed:
  "x \<in> set vs \<Longrightarrow> case slot_verdict vs us of Violate evidence _ \<Rightarrow> x \<in> set evidence | _ \<Rightarrow> False"
  by (auto simp: slot_verdict_def)

lemma spec_primary_listed:
  assumes "primary_spec tx (views_of lib appl prevouts tx) = Some pv"
  shows "pv_rule pv \<in> set all_rules \<and>
    (case rule_verdict_spec tx (views_of lib appl prevouts tx) (pv_rule pv) of
       Violate evidence _ \<Rightarrow> pv_evidence pv \<in> set evidence | _ \<Rightarrow> False)"
proof -
  have all: "r \<in> set all_rules" for r
    by (cases r) (simp_all add: all_rules_def INPUT_SCOPED_def)
  show ?thesis
  proof (cases "output_size_violations tx")
    case (Cons v vs)
    with assms all show ?thesis
      by (auto simp: primary_spec_def rule_verdict_spec_def slot_verdict_def rule_match_def)
  next
    case Nil
    with assms obtain n ms where n: "n < length (views_of lib appl prevouts tx)"
      and v: "views_of lib appl prevouts tx ! n = Known (pv # ms)"
      by (auto simp: primary_spec_def first_rejection_Some_iff)
    then have mem: "Known (pv # ms) \<in> set (views_of lib appl prevouts tx)"
      by (metis nth_mem)
    then obtain it where "Known (pv # ms) = input_view lib appl prevouts it"
      by (auto simp: views_of_def split: if_splits)
    then obtain i txin spk where "evaluate_input lib i txin spk = Some (pv # ms)"
      by (metis input_view_KnownD)
    then have out: "pv_rule pv \<noteq> OutputSize"
      using evaluate_input_ok [of lib i txin spk] by (auto simp: match_ok_def)
    have "pv_evidence pv \<in> set (recorded (pv_rule pv) (Known (pv # ms)))" by simp
    with mem have "pv_evidence pv \<in> set (concat (map (recorded (pv_rule pv)) (views_of lib appl prevouts tx)))"
      unfolding set_concat set_map by (intro UN_I [OF imageI]) 
    with out all show ?thesis
      using slot_verdict_listed by (simp add: rule_verdict_spec_def)
  qed
qed

lemma evidence_spec_ok: "evidence_ok (evidence_spec lib tx prevouts appl)"
  unfolding evidence_ok_def
proof (intro conjI)
  let ?e = "evidence_spec lib tx prevouts appl"
  show "map ro_rule (te_rules ?e) = all_rules" "map ro_number (te_rules ?e) = [1, 2, 3, 4, 5, 6, 7]"
    by (simp_all add: evidence_spec_def Let_def all_rules_def INPUT_SCOPED_def outcome_def rule_number_def)
  show "list_all (\<lambda>out. case ro_verdict out of
         Violate evidence missing \<Rightarrow> evidence \<noteq> [] \<and> list_all (\<lambda>v. rule_of v = ro_rule out) evidence
       | Unknown missing \<Rightarrow> missing \<noteq> [] \<and> ro_rule out \<noteq> OutputSize
       | Pass \<Rightarrow> True) (te_rules ?e)"
    using spec_verdict_ok
    by (simp add: evidence_spec_def Let_def list_all_iff outcome_def cong: rule_verdict.case_cong)
  show "case te_primary_violation ?e of
        None \<Rightarrow> True
      | Some pv \<Rightarrow> list_ex (\<lambda>out. ro_rule out = pv_rule pv \<and>
          (case ro_verdict out of Violate evidence _ \<Rightarrow> pv_evidence pv \<in> set evidence | _ \<Rightarrow> False))
          (te_rules ?e)"
    using spec_primary_listed
    by (fastforce simp: evidence_spec_def Let_def list_ex_iff outcome_def split: option.splits)
qed

text \<open>
  Both evaluations always return well-formed evidence: the seven outcomes in the order of
  their rule numbers 1 to 7, each violation under the rule its evidence belongs to, rule 1 never
  unknown, no empty evidence, and a primary violation that is listed under its own rule.
\<close>

theorem evidence_well_formed:
  "pred_option evidence_ok (evaluate_mempool_policy lib tx prevouts) \<and>
   evaluate_mempool_policy lib tx prevouts \<noteq> None \<and>
   pred_option evidence_ok (evaluate_consensus lib tx ctx prevouts) \<and>
   evaluate_consensus lib tx ctx prevouts \<noteq> None"
proof -
  have "evidence_ok \<lparr> te_evaluation_mode = ConsensusMode, te_rules_applied = False,
      te_is_coinbase = is_coinbase lib tx, te_primary_violation = None, te_rules = all_pass \<rparr>"
    by (simp add: evidence_ok_def all_pass_def all_rules_def INPUT_SCOPED_def outcome_def rule_number_def)
  then show ?thesis
    by (simp add: evaluate_mempool_policy_def evaluate_consensus_def evaluate_applied_spec evidence_spec_ok)
qed

section \<open>Consensus against policy\<close>

lemma consensus_view:
  "recorded r (input_view lib (ConsensusRules ctx) prevouts it) \<noteq> [] \<Longrightarrow>
   recorded r (input_view lib MempoolPolicyRules prevouts it) \<noteq> []"
  by (cases it) (auto simp: input_view_def exempt_def Let_def split: option.splits if_splits)

text \<open>
  What the consensus evaluation rejects, the mempool policy rejects under the same rule: at
  every height and for every set of prevouts, grandfathering and missing creation heights only
  ever remove violations.
\<close>

theorem consensus_implies_policy:
  assumes "violates (evaluate_consensus lib tx ctx prevouts) r"
  shows "violates (evaluate_mempool_policy lib tx prevouts) r"
proof -
  have "rule_verdict_of (Some e) r = Some Pass"
    if "te_rules e = all_pass" for e
    using that by (cases r) (simp_all add: rule_verdict_of_def evidence_rule_def all_pass_def outcome_def)
  then have inactive: "\<not> rdts_active ctx \<Longrightarrow> \<not> violates (evaluate_consensus lib tx ctx prevouts) r"
    by (simp add: violates_def evaluate_consensus_def is_violate_def)
  have "(\<exists>v \<in> set (views_of lib (ConsensusRules ctx) prevouts tx). recorded r v \<noteq> []) \<Longrightarrow>
      (\<exists>v \<in> set (views_of lib MempoolPolicyRules prevouts tx). recorded r v \<noteq> [])"
    unfolding bex_views using consensus_view by blast
  with inactive assms show ?thesis
    by (cases "rdts_active ctx")
      (auto simp: evaluate_consensus_def evaluate_mempool_policy_def evaluate_applied_spec verdict_kinds(1))
qed

text \<open>
  C33: While the rules are active, a transaction whose known prevouts all carry a creation height
  at or above the activation height gets the same outcomes and the same primary violation from
  the consensus evaluation as from the mempool policy.
\<close>

theorem consensus_agrees_with_policy:
  assumes active: "rdts_active ctx"
    and young: "\<forall>i facts. prevout_get prevouts i = Some facts \<longrightarrow>
      (\<exists>h. pf_creation_height facts = Some h \<and> is_grandfathered ctx h = Some False)"
  shows "map_option te_rules (evaluate_consensus lib tx ctx prevouts) =
      map_option te_rules (evaluate_mempool_policy lib tx prevouts) \<and>
    map_option te_primary_violation (evaluate_consensus lib tx ctx prevouts) =
      map_option te_primary_violation (evaluate_mempool_policy lib tx prevouts)"
proof -
  have "input_view lib (ConsensusRules ctx) prevouts it = input_view lib MempoolPolicyRules prevouts it" for it
    using young by (cases it) (fastforce simp: input_view_def exempt_def Let_def split: option.splits)
  then have "views_of lib (ConsensusRules ctx) prevouts tx = views_of lib MempoolPolicyRules prevouts tx"
    by (simp add: views_of_def)
  with active show ?thesis
    by (simp add: evaluate_consensus_def evaluate_mempool_policy_def evaluate_applied_spec
        evidence_spec_def Let_def)
qed

section \<open>An example\<close>

definition example_tx :: transaction where
  "example_tx = \<lparr> tx_version = 2, tx_inputs = [example_tapscript_input],
     tx_outputs = [\<lparr> tx_value = 1000, script_pubkey = 0x6a # replicate 40 1 \<rparr>] \<rparr>"

definition example_prevouts :: prevout_set where
  "example_prevouts = prevouts_from_vec [Some (prevout_new example_taproot_spk (Some 700))]"

definition example_context :: evaluation_context where
  "example_context = \<lparr> activation_height = Some 600, spend_height = 1000 \<rparr>"

lemma example_prevout: "prevout_get example_prevouts i =
    (if i = 0 then Some (prevout_new example_taproot_spk (Some 700)) else None)"
  by (auto simp: example_prevouts_def prevout_get_from_vec)

lemma example_young: "\<forall>i facts. prevout_get example_prevouts i = Some facts \<longrightarrow>
    (\<exists>h. pf_creation_height facts = Some h \<and> is_grandfathered example_context h = Some False)"
  by (auto simp: example_prevout example_context_def prevout_new_def is_grandfathered_def split: if_splits)

lemma example_reports:
  "input_reports reference_bitcoin 0 example_tapscript_input example_taproot_spk TapscriptOpIf"
  by code_simp

lemma example_policy_violation:
  "violates (evaluate_mempool_policy reference_bitcoin example_tx example_prevouts) TapscriptOpIf"
proof -
  have "\<not> is_coinbase reference_bitcoin example_tx" by code_simp
  then show ?thesis
    using example_reports
    by (simp add: policy_violates_eq example_prevout) (simp add: example_tx_def prevout_new_def)
qed

lemma example_active: "rdts_active example_context"
  by (simp add: rdts_active_def example_context_def sat_add32_def ACTIVE_DURATION_def)

lemma example_consensus_violation:
  "violates (evaluate_consensus reference_bitcoin example_tx example_context example_prevouts) TapscriptOpIf"
proof -
  have view: "input_view reference_bitcoin (ConsensusRules example_context) example_prevouts it =
      input_view reference_bitcoin MempoolPolicyRules example_prevouts it" for it
    using example_young by (cases it) (fastforce simp: input_view_def exempt_def Let_def split: option.splits)
  show ?thesis
    using example_active example_policy_violation
    by (simp add: evaluate_consensus_def evaluate_mempool_policy_def evaluate_applied_spec
        verdict_kinds(1) bex_views view)
qed

theorem definite_verdicts_are_stable_witness:
  "prevouts_extend (prevouts_from_vec [None]) example_prevouts \<and>
   \<not> undecided (evaluate_mempool_policy reference_bitcoin example_tx (prevouts_from_vec [None])) OutputSize \<and>
   passes (evaluate_mempool_policy reference_bitcoin example_tx example_prevouts) OutputSize"
proof -
  let ?none = "prevouts_from_vec [None]"
  have ext: "prevouts_extend ?none example_prevouts"
    by (auto simp: prevouts_extend_def prevout_get_from_vec split: if_splits)
  have silent: "output_size_violations example_tx = []"
    by code_simp
  then have definite: "\<not> undecided (evaluate_mempool_policy reference_bitcoin example_tx ?none) OutputSize"
    by (simp add: evaluate_mempool_policy_def evaluate_applied_spec verdict_kinds(2))
  have "passes (evaluate_mempool_policy reference_bitcoin example_tx ?none) OutputSize"
    using silent by (simp add: evaluate_mempool_policy_def evaluate_applied_spec verdict_kinds)
  with ext definite definite_verdicts_are_stable [OF ext definite] show ?thesis by blast
qed

theorem consensus_implies_policy_witness:
  "violates (evaluate_consensus reference_bitcoin example_tx example_context example_prevouts) TapscriptOpIf \<and>
   violates (evaluate_mempool_policy reference_bitcoin example_tx example_prevouts) TapscriptOpIf"
  using example_consensus_violation consensus_implies_policy [OF example_consensus_violation] by blast

theorem consensus_agrees_with_policy_witness:
  "rdts_active example_context \<and>
   map_option te_rules (evaluate_consensus reference_bitcoin example_tx example_context example_prevouts) =
     map_option te_rules (evaluate_mempool_policy reference_bitcoin example_tx example_prevouts) \<and>
   violates (evaluate_mempool_policy reference_bitcoin example_tx example_prevouts) TapscriptOpIf"
  using example_active example_policy_violation
    consensus_agrees_with_policy [OF example_active example_young, where lib = reference_bitcoin and tx = example_tx]
  by blast

end
