(* ===== verification/Model_Types.thy ===== *)
theory Model_Types
  imports Bip110_Types
begin

text \<open>
  The public data model of \<^verbatim>\<open>src/model.rs\<close>: the classifier catalog, classification results,
  the BIP-110 assessment, mempool entries, snapshots and classification records, and the error
  type. A \<^verbatim>\<open>String\<close> is a HOL \<open>string\<close>, the list of its UTF-8 bytes, so \<open>length\<close> is \<^verbatim>\<open>len()\<close>
  and the order is the bytewise one of \<^verbatim>\<open>str\<close>; a \<^verbatim>\<open>BTreeMap\<close> is a sorted association list.
\<close>

section \<open>Limits and names\<close>

definition MAX_SAFE_JSON_INTEGER :: u64 where "MAX_SAFE_JSON_INTEGER = 9007199254740991"
definition MAX_SUPPORTED_MEMPOOL_ENTRIES :: u64 where "MAX_SUPPORTED_MEMPOOL_ENTRIES = 200000"
definition MAX_BIP110_DETAIL_EXEMPLARS_PER_RULE :: nat where
  "MAX_BIP110_DETAIL_EXEMPLARS_PER_RULE = 1"
definition TRANSACTION_PROPERTIES_CLASSIFIER_ID :: string where
  "TRANSACTION_PROPERTIES_CLASSIFIER_ID = ''transaction_properties''"
definition TRANSACTION_SHAPE_CLASSIFIER_ID :: string where
  "TRANSACTION_SHAPE_CLASSIFIER_ID = ''transaction_shape''"
definition DATA_PROTOCOLS_CLASSIFIER_ID :: string where
  "DATA_PROTOCOLS_CLASSIFIER_ID = ''data_protocols''"
definition KNOTS_BIP110_CLASSIFIER_ID :: string where
  "KNOTS_BIP110_CLASSIFIER_ID = ''knots_bip110''"

lemmas classifier_ids =
  TRANSACTION_PROPERTIES_CLASSIFIER_ID_def TRANSACTION_SHAPE_CLASSIFIER_ID_def
  DATA_PROTOCOLS_CLASSIFIER_ID_def KNOTS_BIP110_CLASSIFIER_ID_def

section \<open>The catalog\<close>

datatype classifier_methodology = Exact | Heuristic | Fingerprint | Policy

datatype classifier_semantics = MultiLabel | RuleSet

record classifier_label_descriptor =
  ld_key :: string
  ld_label :: string
  ld_description :: string

record classifier_descriptor =
  cd_id :: string
  cd_version :: string
  cd_title :: string
  methodology :: classifier_methodology
  semantics :: classifier_semantics
  required_facts :: "string list"
  cd_labels :: "classifier_label_descriptor list"

definition label :: "string \<Rightarrow> string \<Rightarrow> string \<Rightarrow> classifier_label_descriptor" where
  "label key lab description = \<lparr> ld_key = key, ld_label = lab, ld_description = description \<rparr>"

definition properties_descriptor :: classifier_descriptor where
  "properties_descriptor =
     \<lparr> cd_id = TRANSACTION_PROPERTIES_CLASSIFIER_ID, cd_version = ''1'', cd_title = ''Transaction properties'',
       methodology = Exact, semantics = MultiLabel,
       required_facts = [''raw_transaction'', ''input_script_pubkeys''],
       cd_labels = [
         label ''version_1'' ''Version 1''
           ''Serialized transaction version 1.'',
         label ''version_2'' ''Version 2''
           ''Serialized transaction version 2.'',
         label ''version_3'' ''Version 3''
           ''Serialized transaction version 3.'',
         label ''version_other'' ''Other version''
           ''A transaction version other than 1, 2, or 3.'',
         label ''signals_rbf'' ''Signals RBF''
           ''At least one input explicitly signals BIP-125 replaceability.'',
         label ''has_witness'' ''Has witness''
           ''At least one input has witness data.'',
         label ''has_taproot_annex'' ''Taproot annex''
           ''A P2TR input has a structural annex candidate.'',
         label ''p2pk'' ''P2PK''
           ''A known input or output uses pay-to-public-key.'',
         label ''bare_multisig'' ''Bare multisig''
           ''A known input or output uses bare multisig.'',
         label ''p2pkh'' ''P2PKH''
           ''A known input or output uses pay-to-public-key-hash.'',
         label ''p2sh'' ''P2SH''
           ''A known input or output uses pay-to-script-hash.'',
         label ''p2wpkh'' ''P2WPKH''
           ''A known input or output uses native witness public-key-hash.'',
         label ''p2wsh'' ''P2WSH''
           ''A known input or output uses native witness script-hash.'',
         label ''p2tr'' ''P2TR''
           ''A known input or output uses Taproot.'',
         label ''p2a'' ''P2A''
           ''A known input or output uses pay-to-anchor.'',
         label ''unknown_witness_program'' ''Other witness program''
           ''A known input or output uses another syntactically valid witness program.'',
         label ''op_return'' ''OP_RETURN''
           ''An output uses OP_RETURN.'',
         label ''unknown_script'' ''Other script''
           ''A known input or output script is outside the recognized families.''] \<rparr>"

definition shape_descriptor :: classifier_descriptor where
  "shape_descriptor =
     \<lparr> cd_id = TRANSACTION_SHAPE_CLASSIFIER_ID, cd_version = ''2'', cd_title = ''Transaction shape'',
       methodology = Heuristic, semantics = MultiLabel,
       required_facts = [''raw_transaction'', ''input_script_pubkeys''],
       cd_labels = [
         label ''possible_coinjoin'' ''Possible CoinJoin''
           ''A conservative equal-output, no-script-reuse heuristic.'',
         label ''consolidation'' ''Consolidation''
           ''At least five times as many inputs as outputs.'',
         label ''batch_payout'' ''Batch payout''
           ''At least five times as many outputs as inputs.'',
         label ''other_shape'' ''Other shape''
           ''Every registered transaction-shape heuristic was terminal and none matched.''] \<rparr>"

definition data_descriptor :: classifier_descriptor where
  "data_descriptor =
     \<lparr> cd_id = DATA_PROTOCOLS_CLASSIFIER_ID, cd_version = ''2'', cd_title = ''Data protocols'',
       methodology = Fingerprint, semantics = MultiLabel,
       required_facts = [''raw_transaction''],
       cd_labels = [
         label ''inscription'' ''Inscription''
           ''An Ordinals inscription-envelope fingerprint.'',
         label ''brc20'' ''BRC-20''
           ''A JSON-like BRC-20 marker inside an inscription envelope.'',
         label ''runes'' ''Runes''
           ''An OP_RETURN OP_13 runestone marker.'',
         label ''stamps'' ''Stamps''
           ''A bare-multisig carrier whose deobfuscated payload holds a Stamps marker.'',
         label ''counterparty'' ''Counterparty''
           ''A deobfuscated CNTRPRTY envelope in an OP_RETURN or bare-multisig carrier.'',
         label ''omni'' ''Omni''
           ''An OP_RETURN payload beginning with the Omni Class C marker.'',
         label ''other_op_return'' ''Other OP_RETURN''
           ''An OP_RETURN carrier with no registered OP_RETURN protocol fingerprint.'',
         label ''no_detected_protocol'' ''No detected protocol''
           ''No registered data-protocol fingerprint fired.''] \<rparr>"

definition bip110_descriptor :: classifier_descriptor where
  "bip110_descriptor =
     \<lparr> cd_id = KNOTS_BIP110_CLASSIFIER_ID, cd_version = ''1'', cd_title = ''Knots BIP-110 compatibility'',
       methodology = Policy, semantics = RuleSet,
       required_facts = [''raw_transaction'', ''input_script_pubkeys''],
       cd_labels = [
         label ''compatible'' ''Compatible''
           ''No BIP-110 policy violation or missing fact was found.'',
         label ''violating'' ''Would violate''
           ''At least one BIP-110 policy violation was proven.'',
         label ''indeterminate'' ''Indeterminate''
           ''No violation was proven and at least one required fact is missing.''] \<rparr>"

definition classifier_catalog :: "classifier_descriptor list" where
  "classifier_catalog =
     [properties_descriptor, shape_descriptor, data_descriptor, bip110_descriptor]"

lemmas descriptor_defs =
  properties_descriptor_def shape_descriptor_def data_descriptor_def bip110_descriptor_def

text \<open>The label keys a descriptor declares.\<close>

definition declared_keys :: "classifier_descriptor \<Rightarrow> string list" where
  "declared_keys d = map ld_key (cd_labels d)"

lemma catalog_ids:
  "map cd_id classifier_catalog =
     [''transaction_properties'', ''transaction_shape'', ''data_protocols'', ''knots_bip110'']"
  by (simp add: classifier_catalog_def descriptor_defs classifier_ids)

section \<open>JSON values\<close>

text \<open>\<^verbatim>\<open>serde_json::Value\<close>, as far as the program builds it: objects are sorted maps.\<close>

datatype json =
    JNull
  | JBool bool
  | JInt int
  | JStr string
  | JArr "json list"
  | JObj "(string \<times> json) list"

definition jobj :: "(string \<times> json) list \<Rightarrow> json" where
  "jobj kvs = JObj (bt_of_list kvs)"

definition jnat :: "nat \<Rightarrow> json" where
  "jnat n = JInt (int n)"

text \<open>\<^verbatim>\<open>value[key] = v\<close> on an object.\<close>

fun json_set :: "string \<Rightarrow> json \<Rightarrow> json \<Rightarrow> json" where
  "json_set key v (JObj kvs) = JObj (bt_insert key v kvs)"
| "json_set key v j = j"

section \<open>Results and assessments\<close>

datatype classification_result_state = Complete | Partial

record classification_result =
  cr_classifier_id :: string
  cr_state :: classification_result_state
  cr_primary_label :: "string option"
  cr_labels :: "string list"
  cr_missing_facts :: "string list"
  cr_evidence :: "json option"

definition compact :: "classification_result \<Rightarrow> classification_result" where
  "compact r = r\<lparr>cr_evidence := None\<rparr>"

record classifier_summary =
  cs_classifier_id :: string
  complete_count :: u64
  partial_count :: u64
  cs_unclassified_count :: u64
  label_counts :: "(string \<times> u64) list"

text \<open>
  \<^verbatim>\<open>Bip110RuleId\<close> of the model has the variants of the evaluator's \<^verbatim>\<open>RuleId\<close>, in the same order.
\<close>

datatype bip110_rule_id =
    PubOutputSize | PubElementSize | PubUndefinedVersion | PubTaprootAnnex | PubControlBlockSize
  | PubOpSuccess | PubTapscriptOpIf

definition ALL_RULES :: "bip110_rule_id list" where
  "ALL_RULES = [PubOutputSize, PubElementSize, PubUndefinedVersion, PubTaprootAnnex,
     PubControlBlockSize, PubOpSuccess, PubTapscriptOpIf]"

definition public_rule_number :: "bip110_rule_id \<Rightarrow> nat" where
  "public_rule_number r = (case r of
     PubOutputSize \<Rightarrow> 1 | PubElementSize \<Rightarrow> 2 | PubUndefinedVersion \<Rightarrow> 3 | PubTaprootAnnex \<Rightarrow> 4
   | PubControlBlockSize \<Rightarrow> 5 | PubOpSuccess \<Rightarrow> 6 | PubTapscriptOpIf \<Rightarrow> 7)"

datatype bip110_status = Compatible | Violating | Indeterminate

record bip110_assessment =
  ba_status :: bip110_status
  primary_rule :: "bip110_rule_id option"
  violated_rules :: "bip110_rule_id list"
  unknown_rules :: "bip110_rule_id list"

record bip110_summary =
  compatible_count :: u64
  violating_count :: u64
  indeterminate_count :: u64
  bs_unclassified_count :: u64

section \<open>Entries, snapshots, classifications\<close>

record membership_facts =
  mf_weight :: u64
  mf_ancestor_count :: u64
  mf_ancestor_vsize :: u64
  mf_ancestor_fee_sats :: "64 word"  \<comment> \<open>an \<^verbatim>\<open>i64\<close>, read with \<open>sint\<close>\<close>
  mf_descendant_count :: u64
  mf_descendant_vsize :: u64
  mf_replaceable :: bool

record transaction_structure =
  ts_input_count :: u64
  ts_output_count :: u64
  op_return_bytes :: u64
  output_sats :: u64
  witness_bytes :: u64

record mempool_entry =
  me_txid :: string
  me_wtxid :: string
  me_vsize :: u64
  me_weight :: u64
  fee_sats :: u64
  entered_at_ms :: u64
  me_ancestor_count :: u64
  me_ancestor_vsize :: u64
  me_ancestor_fee_sats :: "64 word"
  me_descendant_count :: u64
  me_descendant_vsize :: u64
  me_replaceable :: bool
  me_structure :: "transaction_structure option"
  classifications :: "classification_result list"
  me_bip110 :: "bip110_assessment option"

record chain_tip =
  ct_height :: u64
  ct_hash :: string

record mempool_snapshot =
  source_id :: string
  source_label :: string
  collection_started_at_ms :: u64
  collection_completed_at_ms :: u64
  collection_duration_ms :: u64
  observed_at_ms :: u64
  classification_revision :: u64
  ms_chain_tip :: chain_tip
  transaction_count :: u64
  total_vsize :: u64
  ms_classifier_catalog :: "classifier_descriptor list"
  classification_summaries :: "classifier_summary list"
  ms_bip110_summary :: bip110_summary
  transactions :: "mempool_entry list"

datatype bip110_rule_verdict = RulePass | RuleViolate | RuleUnknown

record bip110_rule_detail =
  rd_rule :: bip110_rule_id
  rd_number :: nat
  rd_verdict :: bip110_rule_verdict
  evidence_count :: u64
  rd_evidence :: "violation list"
  missing_count :: u64
  rd_missing :: "missing list"

record transaction_classification =
  tc_txid :: string
  tc_wtxid :: string
  tc_structure :: transaction_structure
  tc_results :: "classification_result list"
  tc_assessment :: bip110_assessment
  tc_rules :: "bip110_rule_detail list"

type_synonym transaction_classifications = "(string, transaction_classification) btree"

record mempool_observation =
  ob_snapshot :: mempool_snapshot
  ob_classifications :: transaction_classifications

section \<open>Errors\<close>

text \<open>
  \<^verbatim>\<open>ModelError\<close>, with its payloads; \<open>ExpectPanicked\<close> is not a variant of the source: it stands
  for the panic of the one \<^verbatim>\<open>expect\<close> in \<^verbatim>\<open>validate_classification\<close>.
\<close>

datatype model_error =
    InvalidSourceId string
  | InvalidSourceLabel string
  | ZeroVsize
  | InconsistentWeight u64 u64
  | InconsistentAncestry u64 u64 u64 u64 u64
  | EmptyTransactionStructure u64 u64
  | UnsafeJsonInteger string u64
  | UnsafeSignedJsonInteger string u64
  | InvalidCollectionWindow u64 u64
  | CollectionDurationMismatch u64 u64 u64
  | SnapshotTooLarge
  | TotalVsizeOverflow
  | TransactionsNotStrictlySorted
  | ClassificationKeyMismatch string string
  | ClassificationNotInSnapshot string
  | ClassificationVariantMismatch string
  | ClassificationDetailMissing string
  | InvalidClassificationDetail string string
  | ExpectPanicked

text \<open>The range check every published integer passes.\<close>

definition check_safe :: "string \<times> u64 \<Rightarrow> model_error + unit" where
  "check_safe = (\<lambda>(field, value).
     if MAX_SAFE_JSON_INTEGER < value then Inl (UnsafeJsonInteger field value) else Inr ())"

definition json_safe :: "u64 \<Rightarrow> bool" where
  "json_safe value \<longleftrightarrow> unat value < 2 ^ 53"

lemma check_safe_iff [simp]: "check_safe (field, value) = Inr u \<longleftrightarrow> json_safe value"
  by (auto simp: check_safe_def json_safe_def MAX_SAFE_JSON_INTEGER_def word_less_nat_alt not_less)

lemma not_json_safe: "MAX_SAFE_JSON_INTEGER < value \<longleftrightarrow> \<not> json_safe value"
  by (auto simp: json_safe_def MAX_SAFE_JSON_INTEGER_def word_less_nat_alt not_less)

end
