(* ===== verification/Model_Snapshot.thy ===== *)
theory Model_Snapshot
  imports Model_Types
begin

text \<open>
  The constructors of \<^verbatim>\<open>src/model.rs\<close> that validate: mempool entries, transaction structures,
  source names and snapshots, with the summaries a snapshot carries. The lemmas say when each
  constructor succeeds and what a constructed value satisfies: strictly sorted transactions,
  exact totals that JSON can carry, and summaries that account for every transaction. The
  constant fields \<^verbatim>\<open>evaluator_id\<close>, \<^verbatim>\<open>evaluator_version\<close> and \<^verbatim>\<open>scope\<close> of the BIP-110 summary are
  left out of the record.
\<close>

section \<open>Entries\<close>

definition membership_facts_solitary :: "u64 \<Rightarrow> u64 \<Rightarrow> membership_facts" where
  "membership_facts_solitary vsize fee =
     \<lparr> mf_weight = sat_mul64 vsize 4, mf_ancestor_count = 1, mf_ancestor_vsize = vsize,
       mf_ancestor_fee_sats = (if fee < 0x8000000000000000 then fee else 0x7fffffffffffffff),
       mf_descendant_count = 1, mf_descendant_vsize = vsize, mf_replaceable = False \<rparr>"

definition transaction_structure_new ::
    "u64 \<Rightarrow> u64 \<Rightarrow> u64 \<Rightarrow> u64 \<Rightarrow> u64 \<Rightarrow> model_error + transaction_structure" where
  "transaction_structure_new inputs outputs return_bytes sats witness =
     (if inputs = 0 \<or> outputs = 0 then Inl (EmptyTransactionStructure inputs outputs)
      else ok_then (check_all check_safe
        [(''input_count'', inputs), (''output_count'', outputs), (''op_return_bytes'', return_bytes),
         (''output_sats'', sats), (''witness_bytes'', witness)])
        (\<lambda>_. Inr \<lparr> ts_input_count = inputs, ts_output_count = outputs,
           op_return_bytes = return_bytes, output_sats = sats, witness_bytes = witness \<rparr>))"

definition mempool_entry_new_variant ::
    "string \<Rightarrow> string \<Rightarrow> u64 \<Rightarrow> u64 \<Rightarrow> u64 \<Rightarrow> membership_facts \<Rightarrow> model_error + mempool_entry" where
  "mempool_entry_new_variant txid wtxid vsize fee entered facts =
     (if vsize = 0 then Inl ZeroVsize
      else ok_then (check_all check_safe
        [(''vsize'', vsize), (''fee_sats'', fee), (''entered_at_ms'', entered),
         (''weight'', mf_weight facts), (''ancestor_count'', mf_ancestor_count facts),
         (''ancestor_vsize'', mf_ancestor_vsize facts),
         (''descendant_count'', mf_descendant_count facts),
         (''descendant_vsize'', mf_descendant_vsize facts)])
      (\<lambda>_.
        if unat MAX_SAFE_JSON_INTEGER < nat \<bar>sint (mf_ancestor_fee_sats facts)\<bar>
        then Inl (UnsafeSignedJsonInteger ''ancestor_fee_sats'' (mf_ancestor_fee_sats facts))
        else if mf_weight facts = 0 \<or> sat_mul64 vsize 4 < mf_weight facts
        then Inl (InconsistentWeight vsize (mf_weight facts))
        else if mf_ancestor_count facts = 0 \<or> mf_descendant_count facts = 0 \<or>
            mf_ancestor_vsize facts < vsize \<or> mf_descendant_vsize facts < vsize
        then Inl (InconsistentAncestry vsize (mf_ancestor_count facts) (mf_ancestor_vsize facts)
            (mf_descendant_count facts) (mf_descendant_vsize facts))
        else Inr \<lparr> me_txid = txid, me_wtxid = wtxid, me_vsize = vsize, me_weight = mf_weight facts,
          fee_sats = fee, entered_at_ms = entered, me_ancestor_count = mf_ancestor_count facts,
          me_ancestor_vsize = mf_ancestor_vsize facts,
          me_ancestor_fee_sats = mf_ancestor_fee_sats facts,
          me_descendant_count = mf_descendant_count facts,
          me_descendant_vsize = mf_descendant_vsize facts, me_replaceable = mf_replaceable facts,
          me_structure = None, classifications = [], me_bip110 = None \<rparr>))"

definition mempool_entry_new :: "string \<Rightarrow> u64 \<Rightarrow> u64 \<Rightarrow> u64 \<Rightarrow> model_error + mempool_entry" where
  "mempool_entry_new txid vsize fee entered =
     mempool_entry_new_variant txid txid vsize fee entered (membership_facts_solitary vsize fee)"

section \<open>Names\<close>

definition byte_of :: "char \<Rightarrow> nat" where
  "byte_of c = of_char c"

definition is_ascii_alphanumeric :: "char \<Rightarrow> bool" where
  "is_ascii_alphanumeric c \<longleftrightarrow>
     (let b = byte_of c in 48 \<le> b \<and> b \<le> 57 \<or> 65 \<le> b \<and> b \<le> 90 \<or> 97 \<le> b \<and> b \<le> 122)"

definition validate_source_id :: "string \<Rightarrow> model_error + unit" where
  "validate_source_id v =
     (if v = [] \<or> v = ''.'' \<or> v = ''..'' \<or> 64 < length v \<or>
         \<not> list_all (\<lambda>c. is_ascii_alphanumeric c \<or> c \<in> {CHR ''.'', CHR ''_'', CHR ''-''}) v
      then Inl (InvalidSourceId v) else Inr ())"

text \<open>
  \<^verbatim>\<open>value.trim().is_empty()\<close>: every character has the Unicode property \<^verbatim>\<open>White_Space\<close>, over the
  UTF-8 bytes.
\<close>

fun utf8_blank :: "nat list \<Rightarrow> bool" where
  "utf8_blank [] = True"
| "utf8_blank (b # bs) =
     (if 9 \<le> b \<and> b \<le> 13 \<or> b = 32 then utf8_blank bs
      else (case bs of
          [] \<Rightarrow> False
        | c # cs \<Rightarrow>
            if b = 0xc2 then (c = 0x85 \<or> c = 0xa0) \<and> utf8_blank cs
            else (case cs of
                [] \<Rightarrow> False
              | d # ds \<Rightarrow>
                  (b = 0xe1 \<and> c = 0x9a \<and> d = 0x80 \<or>
                   b = 0xe2 \<and> c = 0x80 \<and> (0x80 \<le> d \<and> d \<le> 0x8a \<or> d = 0xa8 \<or> d = 0xa9 \<or> d = 0xaf) \<or>
                   b = 0xe2 \<and> c = 0x81 \<and> d = 0x9f \<or>
                   b = 0xe3 \<and> c = 0x80 \<and> d = 0x80) \<and> utf8_blank ds)))"

definition validate_source_label :: "string \<Rightarrow> model_error + unit" where
  "validate_source_label v =
     (if utf8_blank (map byte_of v) \<or> 128 < length v then Inl (InvalidSourceLabel v) else Inr ())"

section \<open>Summaries\<close>

definition count_assessment :: "mempool_entry \<Rightarrow> bip110_summary \<Rightarrow> bip110_summary" where
  "count_assessment entry s = (case map_option ba_status (me_bip110 entry) of
     Some Compatible \<Rightarrow> s\<lparr>compatible_count := compatible_count s + 1\<rparr>
   | Some Violating \<Rightarrow> s\<lparr>violating_count := violating_count s + 1\<rparr>
   | Some Indeterminate \<Rightarrow> s\<lparr>indeterminate_count := indeterminate_count s + 1\<rparr>
   | None \<Rightarrow> s\<lparr>bs_unclassified_count := bs_unclassified_count s + 1\<rparr>)"

definition bip110_from_transactions :: "mempool_entry list \<Rightarrow> bip110_summary" where
  "bip110_from_transactions txs = fold count_assessment txs
     \<lparr> compatible_count = 0, violating_count = 0, indeterminate_count = 0, bs_unclassified_count = 0 \<rparr>"

definition count_label :: "string \<Rightarrow> classifier_summary \<Rightarrow> classifier_summary" where
  "count_label l s = s\<lparr>label_counts := bt_modify l (\<lambda>n. n + 1) (label_counts s)\<rparr>"

definition result_for :: "string \<Rightarrow> mempool_entry \<Rightarrow> classification_result option" where
  "result_for cid entry = find (\<lambda>r. cr_classifier_id r = cid) (classifications entry)"

definition count_entry :: "string \<Rightarrow> mempool_entry \<Rightarrow> classifier_summary \<Rightarrow> classifier_summary" where
  "count_entry cid entry s = (case result_for cid entry of
     None \<Rightarrow> s\<lparr>cs_unclassified_count := cs_unclassified_count s + 1\<rparr>
   | Some r \<Rightarrow>
       let s = (case cr_state r of
           Complete \<Rightarrow> s\<lparr>complete_count := complete_count s + 1\<rparr>
         | Partial \<Rightarrow> s\<lparr>partial_count := partial_count s + 1\<rparr>)
       in fold count_label (cr_labels r) s)"

definition classifier_summaries :: "mempool_entry list \<Rightarrow> classifier_summary list" where
  "classifier_summaries txs = map (\<lambda>d. fold (count_entry (cd_id d)) txs
     \<lparr> cs_classifier_id = cd_id d, complete_count = 0, partial_count = 0,
       cs_unclassified_count = 0, label_counts = bt_of_list (map (\<lambda>l. (ld_key l, 0)) (cd_labels d)) \<rparr>)
     classifier_catalog"

section \<open>Snapshots\<close>

fun sum_vsizes :: "u64 \<Rightarrow> mempool_entry list \<Rightarrow> model_error + u64" where
  "sum_vsizes acc [] = Inr acc"
| "sum_vsizes acc (e # es) = (case checked_add64 acc (me_vsize e) of
     None \<Rightarrow> Inl TotalVsizeOverflow
   | Some t \<Rightarrow> sum_vsizes t es)"

fun strictly_sorted_pairs :: "mempool_entry list \<Rightarrow> bool" where
  "strictly_sorted_pairs (a # b # es) = (me_txid a < me_txid b \<and> strictly_sorted_pairs (b # es))"
| "strictly_sorted_pairs _ = True"

definition mempool_snapshot_new_with_collection_window ::
    "string \<Rightarrow> string \<Rightarrow> u64 \<Rightarrow> u64 \<Rightarrow> u64 \<Rightarrow> chain_tip \<Rightarrow> mempool_entry list \<Rightarrow>
     model_error + mempool_snapshot" where
  "mempool_snapshot_new_with_collection_window sid lbl started completed duration tip txs =
     ok_then (validate_source_id sid) (\<lambda>_.
     ok_then (validate_source_label lbl) (\<lambda>_.
     ok_then (check_all check_safe
       [(''collection_started_at_ms'', started), (''collection_completed_at_ms'', completed),
        (''collection_duration_ms'', duration)]) (\<lambda>_.
     (case checked_sub64 completed started of
        None \<Rightarrow> Inl (InvalidCollectionWindow started completed)
      | Some expected \<Rightarrow>
          if duration \<noteq> expected then Inl (CollectionDurationMismatch started completed duration)
          else if MAX_SAFE_JSON_INTEGER < ct_height tip
          then Inl (UnsafeJsonInteger ''chain_tip.height'' (ct_height tip))
          else if \<not> strictly_sorted_pairs txs then Inl TransactionsNotStrictlySorted
          else if usize_max < length txs then Inl SnapshotTooLarge
          else if MAX_SAFE_JSON_INTEGER < of_nat (length txs) then Inl SnapshotTooLarge
          else ok_then (sum_vsizes 0 txs) (\<lambda>vsizes.
            if MAX_SAFE_JSON_INTEGER < vsizes then Inl (UnsafeJsonInteger ''total_vsize'' vsizes)
            else Inr \<lparr> source_id = sid, source_label = lbl, collection_started_at_ms = started,
              collection_completed_at_ms = completed, collection_duration_ms = duration,
              observed_at_ms = completed, classification_revision = 0, ms_chain_tip = tip,
              transaction_count = of_nat (length txs), total_vsize = vsizes,
              ms_classifier_catalog = classifier_catalog,
              classification_summaries = classifier_summaries txs,
              ms_bip110_summary = bip110_from_transactions txs, transactions = txs \<rparr>)))))"

definition mempool_snapshot_new ::
    "string \<Rightarrow> string \<Rightarrow> u64 \<Rightarrow> chain_tip \<Rightarrow> mempool_entry list \<Rightarrow> model_error + mempool_snapshot" where
  "mempool_snapshot_new sid lbl observed tip txs =
     mempool_snapshot_new_with_collection_window sid lbl observed observed 0 tip txs"

definition with_classification_revision :: "u64 \<Rightarrow> mempool_snapshot \<Rightarrow> model_error + mempool_snapshot" where
  "with_classification_revision revision s =
     (if MAX_SAFE_JSON_INTEGER < revision
      then Inl (UnsafeJsonInteger ''classification_revision'' revision)
      else Inr (s\<lparr>classification_revision := revision\<rparr>))"

section \<open>What a constructed entry satisfies\<close>

definition entry_ok :: "mempool_entry \<Rightarrow> bool" where
  "entry_ok e \<longleftrightarrow>
     0 < unat (me_vsize e) \<and> 0 < unat (me_weight e) \<and> unat (me_weight e) \<le> 4 * unat (me_vsize e) \<and>
     1 \<le> unat (me_ancestor_count e) \<and> unat (me_vsize e) \<le> unat (me_ancestor_vsize e) \<and>
     1 \<le> unat (me_descendant_count e) \<and> unat (me_vsize e) \<le> unat (me_descendant_vsize e) \<and>
     \<bar>sint (me_ancestor_fee_sats e)\<bar> < 2 ^ 53 \<and>
     list_all json_safe [me_vsize e, fee_sats e, entered_at_ms e, me_weight e, me_ancestor_count e,
       me_ancestor_vsize e, me_descendant_count e, me_descendant_vsize e]"

lemma unat_pos: "0 < unat (w :: 'a :: len word) \<longleftrightarrow> w \<noteq> 0"
  by (metis gr0I unat_eq_zero unsigned_0 less_numeral_extra(3))

lemma safe_mul4: "json_safe v \<Longrightarrow> unat (sat_mul64 v 4) = 4 * unat v"
  by (simp add: unat_sat_mul64 json_safe_def)

lemma signed_safe: "unat MAX_SAFE_JSON_INTEGER < nat \<bar>i\<bar> \<longleftrightarrow> \<not> \<bar>i\<bar> < 2 ^ 53"
  by (simp add: MAX_SAFE_JSON_INTEGER_def) linarith

lemma new_variant_Inr_iff:
  "mempool_entry_new_variant txid wtxid vsize fee entered facts = Inr e \<longleftrightarrow>
     e = \<lparr> me_txid = txid, me_wtxid = wtxid, me_vsize = vsize, me_weight = mf_weight facts,
       fee_sats = fee, entered_at_ms = entered, me_ancestor_count = mf_ancestor_count facts,
       me_ancestor_vsize = mf_ancestor_vsize facts, me_ancestor_fee_sats = mf_ancestor_fee_sats facts,
       me_descendant_count = mf_descendant_count facts,
       me_descendant_vsize = mf_descendant_vsize facts, me_replaceable = mf_replaceable facts,
       me_structure = None, classifications = [], me_bip110 = None \<rparr> \<and> entry_ok e"
proof -
  have one: "Suc 0 \<le> unat w \<longleftrightarrow> w \<noteq> 0" for w :: u64
    using unat_pos [of w] by (simp only: Suc_le_eq)
  show ?thesis
    unfolding mempool_entry_new_variant_def entry_ok_def signed_safe unat_pos
    by (auto simp: ok_then_Inr_iff check_all_Inr_iff one word_less_nat_alt not_less safe_mul4 unat_pos)
qed

text \<open>
  A mempool entry is built exactly from consistent facts: a positive virtual size, a weight
  between 1 and four times that size, at least the transaction itself among its ancestors and
  descendants, and integers that JSON carries exactly; the entry then has those facts and no
  classification.
\<close>

theorem mempool_entry_new_variant_iff:
  "mempool_entry_new_variant txid wtxid vsize fee entered facts = Inr e \<longleftrightarrow>
     e = \<lparr> me_txid = txid, me_wtxid = wtxid, me_vsize = vsize, me_weight = mf_weight facts,
       fee_sats = fee, entered_at_ms = entered, me_ancestor_count = mf_ancestor_count facts,
       me_ancestor_vsize = mf_ancestor_vsize facts, me_ancestor_fee_sats = mf_ancestor_fee_sats facts,
       me_descendant_count = mf_descendant_count facts,
       me_descendant_vsize = mf_descendant_vsize facts, me_replaceable = mf_replaceable facts,
       me_structure = None, classifications = [], me_bip110 = None \<rparr> \<and> entry_ok e"
  by (rule new_variant_Inr_iff)

lemma structure_new_Inr_iff:
  "transaction_structure_new a b c d w = Inr st \<longleftrightarrow>
     st = \<lparr> ts_input_count = a, ts_output_count = b, op_return_bytes = c, output_sats = d,
       witness_bytes = w \<rparr> \<and> a \<noteq> 0 \<and> b \<noteq> 0 \<and> list_all json_safe [a, b, c, d, w]"
  by (auto simp: transaction_structure_new_def ok_then_Inr_iff check_all_Inr_iff)

section \<open>Summaries account for every transaction\<close>

definition entry_status :: "mempool_entry \<Rightarrow> bip110_status option" where
  "entry_status e = map_option ba_status (me_bip110 e)"

definition status_count :: "bip110_status option \<Rightarrow> mempool_entry list \<Rightarrow> nat" where
  "status_count st txs = length (filter (\<lambda>e. entry_status e = st) txs)"

lemma status_count_simps [simp]:
  "status_count st [] = 0"
  "status_count st (e # txs) = (if entry_status e = st then Suc (status_count st txs) else status_count st txs)"
  by (simp_all add: status_count_def)

lemma count_assessment_status: "count_assessment e s = (case entry_status e of
     Some Compatible \<Rightarrow> s\<lparr>compatible_count := compatible_count s + 1\<rparr>
   | Some Violating \<Rightarrow> s\<lparr>violating_count := violating_count s + 1\<rparr>
   | Some Indeterminate \<Rightarrow> s\<lparr>indeterminate_count := indeterminate_count s + 1\<rparr>
   | None \<Rightarrow> s\<lparr>bs_unclassified_count := bs_unclassified_count s + 1\<rparr>)"
  by (simp add: count_assessment_def entry_status_def)

lemma count_assessment_fold:
  "fold count_assessment txs s =
     s\<lparr>compatible_count := compatible_count s + of_nat (status_count (Some Compatible) txs),
       violating_count := violating_count s + of_nat (status_count (Some Violating) txs),
       indeterminate_count := indeterminate_count s + of_nat (status_count (Some Indeterminate) txs),
       bs_unclassified_count := bs_unclassified_count s + of_nat (status_count None txs)\<rparr>"
  by (induction txs arbitrary: s)
    (auto simp: count_assessment_status split: option.splits bip110_status.splits)

lemma status_count_total:
  "status_count (Some Compatible) txs + status_count (Some Violating) txs +
     status_count (Some Indeterminate) txs + status_count None txs = length txs"
proof (induction txs)
  case (Cons e txs)
  have "entry_status e \<in> {Some Compatible, Some Violating, Some Indeterminate, None}"
    by (cases "entry_status e"; auto intro: bip110_status.exhaust)
  with Cons show ?case by auto
qed simp

lemma bip110_summary_counts:
  "bip110_from_transactions txs =
     \<lparr> compatible_count = of_nat (status_count (Some Compatible) txs),
       violating_count = of_nat (status_count (Some Violating) txs),
       indeterminate_count = of_nat (status_count (Some Indeterminate) txs),
       bs_unclassified_count = of_nat (status_count None txs) \<rparr>"
  by (simp add: bip110_from_transactions_def count_assessment_fold)

definition result_count :: "string \<Rightarrow> classification_result_state option \<Rightarrow> mempool_entry list \<Rightarrow> nat" where
  "result_count cid st txs = length (filter (\<lambda>e. map_option cr_state (result_for cid e) = st) txs)"

definition label_total :: "string \<Rightarrow> string \<Rightarrow> mempool_entry list \<Rightarrow> nat" where
  "label_total cid l txs =
     sum_list (map (\<lambda>e. case result_for cid e of None \<Rightarrow> 0 | Some r \<Rightarrow> count_list (cr_labels r) l) txs)"

lemma fold_count_label:
  "fold count_label ls s = s\<lparr>label_counts := fold (\<lambda>l. bt_modify l (\<lambda>n. n + 1)) ls (label_counts s)\<rparr>"
  by (induction ls arbitrary: s) (simp_all add: count_label_def)

lemma fold_label_get:
  "bt_get (fold (\<lambda>l. bt_modify l (\<lambda>n. n + 1)) ls m) k =
     map_option (\<lambda>n. n + of_nat (count_list ls k)) (bt_get m k :: u64 option)"
proof (induction ls arbitrary: m)
  case Nil
  then show ?case by (cases "bt_get m k") simp_all
next
  case (Cons l ls)
  then show ?case by (cases "bt_get m k") (auto simp: bt_get_modify add.assoc)
qed

lemma count_entry_fold:
  "complete_count (fold (count_entry cid) txs s) =
     complete_count s + of_nat (result_count cid (Some Complete) txs)"
  "partial_count (fold (count_entry cid) txs s) =
     partial_count s + of_nat (result_count cid (Some Partial) txs)"
  "cs_unclassified_count (fold (count_entry cid) txs s) =
     cs_unclassified_count s + of_nat (result_count cid None txs)"
  "cs_classifier_id (fold (count_entry cid) txs s) = cs_classifier_id s"
  "bt_get (label_counts (fold (count_entry cid) txs s)) l =
     map_option (\<lambda>n. n + of_nat (label_total cid l txs)) (bt_get (label_counts s) l)"
proof (induction txs arbitrary: s)
  case Nil
  { case 1 show ?case by (simp add: result_count_def) }
  { case 2 show ?case by (simp add: result_count_def) }
  { case 3 show ?case by (simp add: result_count_def) }
  { case 4 show ?case by simp }
  { case 5 show ?case by (cases "bt_get (label_counts s) l") (simp_all add: label_total_def) }
next
  case (Cons e txs)
  note defs = count_entry_def result_count_def Let_def fold_count_label
  { case 1 show ?case using Cons by (auto simp: defs split: option.splits classification_result_state.splits) }
  { case 2 show ?case using Cons by (auto simp: defs split: option.splits classification_result_state.splits) }
  { case 3 show ?case using Cons by (auto simp: defs split: option.splits classification_result_state.splits) }
  { case 4 show ?case using Cons by (auto simp: defs split: option.splits classification_result_state.splits) }
  { case 5 show ?case using Cons
      by (auto simp: defs label_total_def fold_label_get option.map_comp comp_def add.assoc
          split: option.splits classification_result_state.splits) }
qed

lemma result_count_total:
  "result_count cid (Some Complete) txs + result_count cid (Some Partial) txs +
     result_count cid None txs = length txs"
proof (induction txs)
  case (Cons e txs)
  show ?case
  proof (cases "result_for cid e")
    case (Some r)
    then show ?thesis using Cons by (cases "cr_state r") (simp_all add: result_count_def)
  qed (use Cons in \<open>simp add: result_count_def\<close>)
qed (simp add: result_count_def)

text \<open>
  The summaries of a snapshot account for every transaction: the four BIP-110 counts are the
  numbers of entries with each status, each classifier's counts are the numbers of entries with
  a complete, a partial and no result, both sum to the number of transactions, and each label
  count is the number of its occurrences (all of them modulo \<open>2^64\<close>, the width of the counters).
\<close>

theorem summaries_account_for_every_transaction:
  "bip110_from_transactions txs =
     \<lparr> compatible_count = of_nat (status_count (Some Compatible) txs),
       violating_count = of_nat (status_count (Some Violating) txs),
       indeterminate_count = of_nat (status_count (Some Indeterminate) txs),
       bs_unclassified_count = of_nat (status_count None txs) \<rparr> \<and>
   status_count (Some Compatible) txs + status_count (Some Violating) txs +
     status_count (Some Indeterminate) txs + status_count None txs = length txs \<and>
   list_all2 (\<lambda>d s. cs_classifier_id s = cd_id d \<and>
       complete_count s = of_nat (result_count (cd_id d) (Some Complete) txs) \<and>
       partial_count s = of_nat (result_count (cd_id d) (Some Partial) txs) \<and>
       cs_unclassified_count s = of_nat (result_count (cd_id d) None txs) \<and>
       complete_count s + partial_count s + cs_unclassified_count s = of_nat (length txs) \<and>
       list_all (\<lambda>l. bt_get (label_counts s) (ld_key l) =
           Some (of_nat (label_total (cd_id d) (ld_key l) txs))) (cd_labels d))
     classifier_catalog (classifier_summaries txs)"
proof (intro conjI)
  have zeros: "bt_get (bt_of_list (map (\<lambda>l. (ld_key l, 0 :: u64)) ls)) (ld_key l) = Some 0"
    if "l \<in> set ls" for l ls
  proof -
    have "bt_get (fold (\<lambda>(k, v). bt_insert k v) (map (\<lambda>l. (ld_key l, 0 :: u64)) ls) m) (ld_key l) = Some 0"
      if "l \<in> set ls \<or> bt_get m (ld_key l) = Some 0" "bt_ok m" for m
      using that by (induction ls arbitrary: m) (auto simp: bt_get_insert bt_ok_insert)
    with that show ?thesis by (simp add: bt_of_list_def)
  qed
  have sum: "complete_count s + partial_count s + cs_unclassified_count s = of_nat (length txs)"
    if "s = fold (count_entry cid) txs s0" "complete_count s0 = 0" "partial_count s0 = 0"
      "cs_unclassified_count s0 = 0" for s s0 cid
    using that by (simp add: count_entry_fold(1-3) flip: of_nat_add) (simp add: result_count_total)
  show "list_all2 (\<lambda>d s. cs_classifier_id s = cd_id d \<and>
       complete_count s = of_nat (result_count (cd_id d) (Some Complete) txs) \<and>
       partial_count s = of_nat (result_count (cd_id d) (Some Partial) txs) \<and>
       cs_unclassified_count s = of_nat (result_count (cd_id d) None txs) \<and>
       complete_count s + partial_count s + cs_unclassified_count s = of_nat (length txs) \<and>
       list_all (\<lambda>l. bt_get (label_counts s) (ld_key l) =
           Some (of_nat (label_total (cd_id d) (ld_key l) txs))) (cd_labels d))
     classifier_catalog (classifier_summaries txs)"
    unfolding classifier_summaries_def list_all2_map2
    by (intro list.rel_refl conjI sum [OF refl])
      (simp_all add: count_entry_fold list_all_iff zeros)
qed (rule bip110_summary_counts, rule status_count_total)

section \<open>What a constructed snapshot satisfies\<close>

lemma strictly_sorted_pairs_iff: "strictly_sorted_pairs txs \<longleftrightarrow> sorted_wrt (<) (map me_txid txs)"
  by (induction txs rule: strictly_sorted_pairs.induct) (auto intro: order.strict_trans)

lemma sum_vsizes_Inr_iff:
  "sum_vsizes acc txs = Inr t \<longleftrightarrow> unat t = unat acc + sum_list (map (unat \<circ> me_vsize) txs)"
proof (induction txs arbitrary: acc)
  case (Cons e txs)
  show ?case
  proof (cases "checked_add64 acc (me_vsize e)")
    case None
    then have "2 ^ 64 \<le> unat acc + unat (me_vsize e)" by (simp add: checked_add64_def split: if_splits)
    with None unsigned_less [of t, where 'a = nat] show ?thesis by simp
  next
    case (Some c)
    then have "unat c = unat acc + unat (me_vsize e)" by (simp add: checked_add64_Some_iff)
    with Some show ?thesis by (simp add: Cons add.assoc)
  qed
qed (auto simp: word_unat_eq_iff)

definition snapshot_ok :: "mempool_snapshot \<Rightarrow> bool" where
  "snapshot_ok s \<longleftrightarrow>
     sorted_wrt (<) (map me_txid (transactions s)) \<and>
     unat (transaction_count s) = length (transactions s) \<and>
     unat (total_vsize s) = sum_list (map (unat \<circ> me_vsize) (transactions s)) \<and>
     collection_started_at_ms s \<le> collection_completed_at_ms s \<and>
     collection_duration_ms s = collection_completed_at_ms s - collection_started_at_ms s \<and>
     observed_at_ms s = collection_completed_at_ms s \<and>
     ms_bip110_summary s = bip110_from_transactions (transactions s) \<and>
     classification_summaries s = classifier_summaries (transactions s) \<and>
     ms_classifier_catalog s = classifier_catalog \<and>
     validate_source_id (source_id s) = Inr () \<and> validate_source_label (source_label s) = Inr () \<and>
     list_all json_safe [collection_started_at_ms s, collection_completed_at_ms s,
       collection_duration_ms s, classification_revision s, ct_height (ms_chain_tip s),
       transaction_count s, total_vsize s]"

lemma check_safe_ok: "json_safe value \<Longrightarrow> check_safe (field, value) = Inr ()"
  by simp

lemma of_nat_length_safe:
  "length txs \<le> usize_max \<Longrightarrow> unat (of_nat (length txs) :: u64) = length txs"
  by (simp add: unat_of_nat)

lemma snapshot_new_Inr_iff:
  "mempool_snapshot_new_with_collection_window sid lbl started completed duration tip txs = Inr s \<longleftrightarrow>
     snapshot_ok s \<and> source_id s = sid \<and> source_label s = lbl \<and>
     collection_started_at_ms s = started \<and> collection_completed_at_ms s = completed \<and>
     collection_duration_ms s = duration \<and> ms_chain_tip s = tip \<and> transactions s = txs \<and>
     classification_revision s = 0"
proof
  assume "mempool_snapshot_new_with_collection_window sid lbl started completed duration tip txs = Inr s"
  then show "snapshot_ok s \<and> source_id s = sid \<and> source_label s = lbl \<and>
     collection_started_at_ms s = started \<and> collection_completed_at_ms s = completed \<and>
     collection_duration_ms s = duration \<and> ms_chain_tip s = tip \<and> transactions s = txs \<and>
     classification_revision s = 0"
    by (auto simp: mempool_snapshot_new_with_collection_window_def ok_then_Inr_iff check_all_Inr_iff
        snapshot_ok_def strictly_sorted_pairs_iff sum_vsizes_Inr_iff not_json_safe checked_sub64_def
        of_nat_length_safe not_less json_safe_def split: option.splits if_splits)
next
  assume r: "snapshot_ok s \<and> source_id s = sid \<and> source_label s = lbl \<and>
     collection_started_at_ms s = started \<and> collection_completed_at_ms s = completed \<and>
     collection_duration_ms s = duration \<and> ms_chain_tip s = tip \<and> transactions s = txs \<and>
     classification_revision s = 0"
  then have len: "length txs < 2 ^ 53" by (auto simp: snapshot_ok_def json_safe_def)
  then have count: "of_nat (length txs) = transaction_count s"
    using r by (auto simp: snapshot_ok_def intro!: unsigned_word_eqI [where 'a = nat] simp: unat_of_nat)
  have total: "sum_vsizes 0 txs = Inr (total_vsize s)"
    using r by (auto simp: snapshot_ok_def sum_vsizes_Inr_iff)
  have limit: "\<not> usize_max < length txs" using len by simp
  show "mempool_snapshot_new_with_collection_window sid lbl started completed duration tip txs = Inr s"
    using r total limit unfolding snapshot_ok_def
    by (elim conjE) (simp add: mempool_snapshot_new_with_collection_window_def count not_json_safe
        strictly_sorted_pairs_iff checked_sub64_def check_safe_ok)
qed

text \<open>
  C37: A snapshot is built exactly when its source names are valid, its collection window is
  consistent, its transactions are strictly sorted by txid (so no txid repeats) and its count and
  total virtual size, computed without wrap-around, are integers that JSON carries exactly.
\<close>

theorem mempool_snapshot_new_iff:
  "mempool_snapshot_new_with_collection_window sid lbl started completed duration tip txs = Inr s \<longleftrightarrow>
     snapshot_ok s \<and> source_id s = sid \<and> source_label s = lbl \<and>
     collection_started_at_ms s = started \<and> collection_completed_at_ms s = completed \<and>
     collection_duration_ms s = duration \<and> ms_chain_tip s = tip \<and> transactions s = txs \<and>
     classification_revision s = 0"
  by (rule snapshot_new_Inr_iff)

end
