(* ===== verification/Model_Classification.thy ===== *)
theory Model_Classification
  imports Model_Snapshot
begin

text \<open>
  The classification records of \<^verbatim>\<open>src/model.rs\<close>: the validation of a record against the catalog
  and against its own rule details, and the observations that combine a membership snapshot with
  the records that match it. The lemmas show that validation never reaches its \<^verbatim>\<open>expect\<close>, that an
  accepted observation attaches a record to exactly the witness variant it was computed for, and
  that materializing valid records over a valid snapshot never fails.
\<close>

section \<open>Validation of a classification record\<close>

definition detail_error :: "string \<Rightarrow> string \<Rightarrow> model_error + 'a" where
  "detail_error txid reason = Inl (InvalidClassificationDetail txid reason)"

definition validate_classifier_result ::
    "string \<Rightarrow> classification_result \<times> classifier_descriptor \<Rightarrow> model_error + unit" where
  "validate_classifier_result txid = (\<lambda>(result, descriptor).
     if cr_classifier_id result \<noteq> cd_id descriptor
     then detail_error txid ''classifier results must use canonical order''
     else if cr_labels result = [] \<and> cr_state result \<noteq> Partial \<or>
         cr_evidence result = None \<or>
         cr_state result = Complete \<and> cr_missing_facts result \<noteq> [] \<or>
         cr_state result = Partial \<and> cr_missing_facts result = [] \<or>
         (case cr_primary_label result of
            Some primary \<Rightarrow> primary \<notin> set (cr_labels result) | None \<Rightarrow> False)
     then detail_error txid ''classifier result state, labels, or evidence is inconsistent''
     else
       let declared = bs_of_list (map ld_key (cd_labels descriptor));
           labels = bs_of_list (cr_labels result)
       in if length labels \<noteq> length (cr_labels result) \<or> \<not> list_all (\<lambda>l. l \<in> set declared) labels
          then detail_error txid ''classifier result contains duplicate or undeclared labels''
          else let missing = bs_of_list (cr_missing_facts result)
            in if length missing \<noteq> length (cr_missing_facts result)
               then detail_error txid ''classifier result contains duplicate missing facts''
               else Inr ())"

definition validate_classifier_results ::
    "string \<Rightarrow> classification_result list \<Rightarrow> model_error + unit" where
  "validate_classifier_results txid results =
     (if length results \<noteq> length classifier_catalog
      then detail_error txid ''must contain every classifier result''
      else check_all (validate_classifier_result txid) (zip results classifier_catalog))"

definition status_label :: "bip110_status \<Rightarrow> string" where
  "status_label st = (case st of
     Compatible \<Rightarrow> ''compatible'' | Violating \<Rightarrow> ''violating'' | Indeterminate \<Rightarrow> ''indeterminate'')"

text \<open>The loop over the rule details, with the two vectors it pushes to.\<close>

fun validate_rule_details ::
    "string \<Rightarrow> (bip110_rule_detail \<times> bip110_rule_id) list \<Rightarrow>
     bip110_rule_id list \<Rightarrow> bip110_rule_id list \<Rightarrow>
     model_error + (bip110_rule_id list \<times> bip110_rule_id list)" where
  "validate_rule_details txid [] violated unknown = Inr (violated, unknown)"
| "validate_rule_details txid ((detail, expected) # rest) violated unknown =
     (if rd_rule detail \<noteq> expected \<or> rd_number detail \<noteq> public_rule_number expected
      then detail_error txid ''rules must use canonical order and numbering''
      else if MAX_BIP110_DETAIL_EXEMPLARS_PER_RULE < length (rd_evidence detail) \<or>
          MAX_BIP110_DETAIL_EXEMPLARS_PER_RULE < length (rd_missing detail)
      then detail_error txid ''retained rule exemplars exceed the configured bound''
      else
        let evidence_len = u64_of_usize (length (rd_evidence detail));
            missing_len = u64_of_usize (length (rd_missing detail))
        in if evidence_count detail < evidence_len \<or> missing_count detail < missing_len \<or>
            (evidence_count detail = 0) \<noteq> (rd_evidence detail = []) \<or>
            (missing_count detail = 0) \<noteq> (rd_missing detail = [])
        then detail_error txid ''rule exemplar counts do not match retained detail''
        else (case rd_verdict detail of
            RulePass \<Rightarrow>
              if evidence_count detail \<noteq> 0 \<or> missing_count detail \<noteq> 0
              then detail_error txid ''a passing rule cannot contain evidence or missing facts''
              else validate_rule_details txid rest violated unknown
          | RuleViolate \<Rightarrow>
              if evidence_count detail = 0
              then detail_error txid ''a violating rule must contain evidence''
              else validate_rule_details txid rest (violated @ [rd_rule detail])
                (if 0 < missing_count detail then unknown @ [rd_rule detail] else unknown)
          | RuleUnknown \<Rightarrow>
              if evidence_count detail \<noteq> 0 \<or> missing_count detail = 0
              then detail_error txid ''an unknown rule must contain only missing facts''
              else validate_rule_details txid rest violated (unknown @ [rd_rule detail])))"

definition expected_status :: "bip110_rule_id list \<Rightarrow> bip110_rule_id list \<Rightarrow> bip110_status" where
  "expected_status violated unknown =
     (if violated = [] then (if unknown = [] then Compatible else Indeterminate) else Violating)"

definition validate_classification :: "transaction_classification \<Rightarrow> model_error + unit" where
  "validate_classification c =
     ok_then (validate_classifier_results (tc_txid c) (tc_results c)) (\<lambda>_.
     (case find (\<lambda>r. cr_classifier_id r = KNOTS_BIP110_CLASSIFIER_ID) (tc_results c) of
        None \<Rightarrow> Inl ExpectPanicked
      | Some policy \<Rightarrow>
          let expected_label = status_label (ba_status (tc_assessment c));
              policy_is_partial = (unknown_rules (tc_assessment c) \<noteq> [])
          in if cr_primary_label policy \<noteq> Some expected_label \<or> cr_labels policy \<noteq> [expected_label] \<or>
              cr_state policy \<noteq> (if policy_is_partial then Partial else Complete) \<or>
              cr_missing_facts policy \<noteq> (if policy_is_partial then [''policy_facts''] else [])
             then detail_error (tc_txid c)
               ''BIP-110 classifier result does not match its policy assessment''
             else if length (tc_rules c) \<noteq> length ALL_RULES
             then detail_error (tc_txid c) ''must contain all seven rules''
             else ok_then (validate_rule_details (tc_txid c) (zip (tc_rules c) ALL_RULES) [] [])
               (\<lambda>(violated, unknown).
                 if ba_status (tc_assessment c) \<noteq> expected_status violated unknown \<or>
                    violated_rules (tc_assessment c) \<noteq> violated \<or>
                    unknown_rules (tc_assessment c) \<noteq> unknown \<or>
                    (case primary_rule (tc_assessment c) of
                       Some r \<Rightarrow> r \<notin> set violated | None \<Rightarrow> False)
                 then detail_error (tc_txid c) ''compact assessment does not match rule detail''
                 else Inr ())))"

section \<open>Observations\<close>

text \<open>\<^verbatim>\<open>slice::binary_search_by\<close> of the standard library, comparing a key.\<close>

function binary_search_loop :: "('a \<Rightarrow> 'k :: linorder) \<Rightarrow> 'k \<Rightarrow> 'a list \<Rightarrow> nat \<Rightarrow> nat \<Rightarrow> nat" where
  "binary_search_loop f k xs base n =
     (if n \<le> 1 then base
      else let half = n div 2; mid = base + half
        in binary_search_loop f k xs (if k < f (xs ! mid) then base else mid) (n - half))"
  by pat_completeness auto
termination by (relation "measure (\<lambda>(_, _, _, _, n). n)") auto

declare binary_search_loop.simps [simp del]

definition binary_search :: "('a \<Rightarrow> 'k :: linorder) \<Rightarrow> 'k \<Rightarrow> 'a list \<Rightarrow> nat option" where
  "binary_search f k xs =
     (if xs = [] then None
      else let base = binary_search_loop f k xs 0 (length xs)
        in if f (xs ! base) = k then Some base else None)"

definition check_classification ::
    "mempool_snapshot \<Rightarrow> string \<times> transaction_classification \<Rightarrow> model_error + unit" where
  "check_classification s = (\<lambda>(txid, c).
     ok_then (validate_classification c) (\<lambda>_.
       if txid \<noteq> tc_txid c then Inl (ClassificationKeyMismatch txid (tc_txid c))
       else (case binary_search me_txid txid (transactions s) of
           None \<Rightarrow> Inl (ClassificationNotInSnapshot txid)
         | Some i \<Rightarrow>
             let entry = transactions s ! i
             in if me_wtxid entry \<noteq> tc_wtxid c \<or>
                   classifications entry \<noteq> map compact (tc_results c) \<or>
                   me_bip110 entry \<noteq> Some (tc_assessment c) \<or>
                   me_structure entry \<noteq> Some (tc_structure c)
                then Inl (ClassificationVariantMismatch txid) else Inr ())))"

definition check_entry_detail :: "transaction_classifications \<Rightarrow> mempool_entry \<Rightarrow> model_error + unit" where
  "check_entry_detail cls entry =
     (if (classifications entry \<noteq> [] \<or> me_bip110 entry \<noteq> None \<or> me_structure entry \<noteq> None) \<and>
         \<not> bt_contains cls (me_txid entry)
      then Inl (ClassificationDetailMissing (me_txid entry)) else Inr ())"

definition mempool_observation_new ::
    "mempool_snapshot \<Rightarrow> transaction_classifications \<Rightarrow> model_error + mempool_observation" where
  "mempool_observation_new s cls =
     (if MAX_SAFE_JSON_INTEGER < classification_revision s
      then Inl (UnsafeJsonInteger ''classification_revision'' (classification_revision s))
      else ok_then (check_all (check_classification s) cls) (\<lambda>_.
           ok_then (check_all (check_entry_detail cls) (transactions s)) (\<lambda>_.
           Inr \<lparr> ob_snapshot = s, ob_classifications = cls \<rparr>)))"

definition overlay :: "transaction_classifications \<Rightarrow> mempool_entry \<Rightarrow> mempool_entry" where
  "overlay cls entry = (case bt_get cls (me_txid entry) of
     Some c \<Rightarrow> entry\<lparr>classifications := map compact (tc_results c),
       me_bip110 := Some (tc_assessment c), me_structure := Some (tc_structure c)\<rparr>
   | None \<Rightarrow> entry\<lparr>classifications := [], me_bip110 := None, me_structure := None\<rparr>)"

definition materialize_retained ::
    "mempool_snapshot \<Rightarrow> u64 \<Rightarrow> transaction_classifications \<Rightarrow> model_error + mempool_observation" where
  "materialize_retained membership revision cls =
     ok_then (mempool_snapshot_new_with_collection_window (source_id membership)
         (source_label membership) (collection_started_at_ms membership)
         (collection_completed_at_ms membership) (collection_duration_ms membership)
         (ms_chain_tip membership) (map (overlay cls) (transactions membership))) (\<lambda>s.
     ok_then (with_classification_revision revision s) (\<lambda>s.
     mempool_observation_new s cls))"

definition retained :: "mempool_snapshot \<Rightarrow> transaction_classifications \<Rightarrow> transaction_classifications" where
  "retained membership cls = bt_of_list (List.map_filter (\<lambda>entry.
     (case bt_get cls (me_txid entry) of
        Some c \<Rightarrow> if tc_txid c = me_txid entry \<and> tc_wtxid c = me_wtxid entry
          then Some (me_txid entry, c) else None
      | None \<Rightarrow> None)) (transactions membership))"

definition materialize ::
    "mempool_snapshot \<Rightarrow> u64 \<Rightarrow> transaction_classifications \<Rightarrow> model_error + mempool_observation" where
  "materialize membership revision cls =
     materialize_retained membership revision (retained membership cls)"

section \<open>Binary search\<close>

lemma binary_search_loop_inv:
  assumes "sorted_wrt (<) (map f xs)" "j < length xs" "f (xs ! j) = k"
    "base \<le> j" "j < base + n" "base + n \<le> length xs"
  shows "binary_search_loop f k xs base n = j"
  using assms
proof (induction f k xs base n rule: binary_search_loop.induct)
  case (1 f k xs base n)
  show ?case
  proof (cases "n \<le> 1")
    case True
    with "1.prems" show ?thesis by (simp add: binary_search_loop.simps)
  next
    case False
    let ?half = "n div 2"
    let ?mid = "base + ?half"
    have mid: "?mid < length xs" using "1.prems" False by linarith
    have cmp: "k < f (xs ! ?mid) \<longleftrightarrow> j < ?mid"
      using "1.prems"(1-3) mid
      by (metis (no_types, lifting) length_map linorder_neqE_nat nth_map order_less_asym order_less_irrefl
          sorted_wrt_iff_nth_less)
    have half: "?half \<le> n" "?half + ?half \<le> n" by simp_all
    have "binary_search_loop f k xs (if k < f (xs ! ?mid) then base else ?mid) (n - ?half) = j"
      by (rule "1.IH" [OF False refl refl])
        (use "1.prems" cmp half False in \<open>auto split: if_splits\<close>)
    with False show ?thesis by (simp add: binary_search_loop.simps [of f k xs base n] Let_def)
  qed
qed

lemma binary_search_Some_iff:
  assumes "sorted_wrt (<) (map f xs)"
  shows "binary_search f k xs = Some j \<longleftrightarrow> j < length xs \<and> f (xs ! j) = k"
proof -
  have bound: "0 < n \<Longrightarrow> base + n \<le> length xs \<Longrightarrow> binary_search_loop f k xs base n < length xs"
    for base n
  proof (induction f k xs base n rule: binary_search_loop.induct)
    case (1 f k xs base n)
    then show ?case by (subst binary_search_loop.simps) (auto simp: Let_def)
  qed
  have "binary_search_loop f k xs 0 (length xs) = j" if "j < length xs" "f (xs ! j) = k" for j
    by (rule binary_search_loop_inv [OF assms that]) (use that in simp_all)
  then show ?thesis
    using bound [of "length xs" 0] by (auto simp: binary_search_def Let_def)
qed

section \<open>Validation\<close>

lemma length_bs_of_list: "length (bs_of_list xs) = length xs \<longleftrightarrow> distinct xs"
proof -
  have "distinct (bs_of_list xs)"
    using bs_ok_of_list [of xs] strict_sorted_iff by blast
  then have "length (bs_of_list xs) = card (set xs)"
    using distinct_card by force
  then show ?thesis by (metis card_distinct distinct_card)
qed

lemma bs_of_list_Nil [simp]: "bs_of_list [] = []"
  by (simp add: bs_of_list_def)

definition result_ok :: "classification_result \<Rightarrow> classifier_descriptor \<Rightarrow> bool" where
  "result_ok r d \<longleftrightarrow> cr_classifier_id r = cd_id d \<and> cr_evidence r \<noteq> None \<and>
     (cr_labels r = [] \<longrightarrow> cr_state r = Partial) \<and>
     (cr_state r = Partial \<longleftrightarrow> cr_missing_facts r \<noteq> []) \<and>
     (case cr_primary_label r of Some p \<Rightarrow> p \<in> set (cr_labels r) | None \<Rightarrow> True) \<and>
     distinct (cr_labels r) \<and> set (cr_labels r) \<subseteq> set (declared_keys d) \<and>
     distinct (cr_missing_facts r)"

lemma validate_result_iff: "validate_classifier_result txid (r, d) = Inr () \<longleftrightarrow> result_ok r d"
  by (cases "cr_state r"; cases "cr_primary_label r")
    (auto simp: validate_classifier_result_def result_ok_def detail_error_def Let_def length_bs_of_list
      list_all_iff declared_keys_def)

lemma validate_results_iff:
  "validate_classifier_results txid results = Inr () \<longleftrightarrow> list_all2 result_ok results classifier_catalog"
proof -
  have "check_all (validate_classifier_result txid) (zip results classifier_catalog) = Inr () \<longleftrightarrow>
      (\<forall>(r, d) \<in> set (zip results classifier_catalog). result_ok r d)"
    by (auto simp: check_all_Inr_iff validate_result_iff)
  then show ?thesis
    by (auto simp: validate_classifier_results_def detail_error_def list_all2_iff)
qed

lemma validate_rule_details_no_panic:
  "validate_rule_details txid ds v u \<noteq> Inl ExpectPanicked"
proof (induction ds arbitrary: v u)
  case (Cons d ds)
  then show ?case
    by (cases d) (auto simp: detail_error_def Let_def split: bip110_rule_verdict.splits)
qed simp

lemma check_all_Inl_mem: "check_all f xs = Inl e \<Longrightarrow> \<exists>x \<in> set xs. f x = Inl e"
  by (induction xs) (auto simp: ok_then_Inl_iff)

lemma validate_results_ids:
  assumes "validate_classifier_results txid results = Inr ()"
  shows "map cr_classifier_id results = map cd_id classifier_catalog"
proof (rule nth_equalityI)
  from assms have len: "length results = length classifier_catalog"
    and ok: "\<forall>p \<in> set (zip results classifier_catalog). validate_classifier_result txid p = Inr ()"
    by (auto simp: validate_classifier_results_def detail_error_def check_all_Inr_iff split: if_splits)
  show "length (map cr_classifier_id results) = length (map cd_id classifier_catalog)"
    using len by simp
  fix i assume "i < length (map cr_classifier_id results)"
  with len have "(results ! i, classifier_catalog ! i) \<in> set (zip results classifier_catalog)"
    by (auto simp: in_set_zip)
  with ok have "cr_classifier_id (results ! i) = cd_id (classifier_catalog ! i)"
    by (auto simp: validate_classifier_result_def detail_error_def split: if_splits)
  with \<open>i < _\<close> len show "map cr_classifier_id results ! i = map cd_id classifier_catalog ! i"
    by simp
qed

text \<open>
  Validating a classification record never reaches its \<^verbatim>\<open>expect\<close>: once the classifier
  results have passed, they contain the BIP-110 result.
\<close>

theorem validate_classification_never_panics: "validate_classification c \<noteq> Inl ExpectPanicked"
proof
  assume "validate_classification c = Inl ExpectPanicked"
  then have "validate_classifier_results (tc_txid c) (tc_results c) = Inl ExpectPanicked \<or>
      (validate_classifier_results (tc_txid c) (tc_results c) = Inr () \<and>
       find (\<lambda>r. cr_classifier_id r = KNOTS_BIP110_CLASSIFIER_ID) (tc_results c) = None)"
    using validate_rule_details_no_panic
    by (auto simp: validate_classification_def ok_then_Inl_iff Let_def detail_error_def
        split: option.splits if_splits)
  then show False
  proof (elim disjE conjE)
    assume "validate_classifier_results (tc_txid c) (tc_results c) = Inl ExpectPanicked"
    then show False
      by (auto simp: validate_classifier_results_def validate_classifier_result_def detail_error_def Let_def
          split: if_splits dest!: check_all_Inl_mem)
  next
    assume "validate_classifier_results (tc_txid c) (tc_results c) = Inr ()"
    then have "KNOTS_BIP110_CLASSIFIER_ID \<in> set (map cr_classifier_id (tc_results c))"
      by (simp add: validate_results_ids catalog_ids KNOTS_BIP110_CLASSIFIER_ID_def)
    moreover assume "find (\<lambda>r. cr_classifier_id r = KNOTS_BIP110_CLASSIFIER_ID) (tc_results c) = None"
    ultimately show False by (auto simp: find_None_iff)
  qed
qed

section \<open>What an observation guarantees\<close>

definition attached :: "mempool_entry \<Rightarrow> transaction_classification \<Rightarrow> bool" where
  "attached e c \<longleftrightarrow> me_wtxid e = tc_wtxid c \<and> classifications e = map compact (tc_results c) \<and>
     me_bip110 e = Some (tc_assessment c) \<and> me_structure e = Some (tc_structure c)"

definition unattached :: "mempool_entry \<Rightarrow> bool" where
  "unattached e \<longleftrightarrow> classifications e = [] \<and> me_bip110 e = None \<and> me_structure e = None"

definition observation_ok :: "mempool_observation \<Rightarrow> bool" where
  "observation_ok obs \<longleftrightarrow>
     json_safe (classification_revision (ob_snapshot obs)) \<and>
     (\<forall>(txid, c) \<in> set (ob_classifications obs). validate_classification c = Inr () \<and>
        tc_txid c = txid \<and>
        (\<exists>e \<in> set (transactions (ob_snapshot obs)). me_txid e = txid \<and> attached e c)) \<and>
     (\<forall>e \<in> set (transactions (ob_snapshot obs)).
        unattached e \<or> bt_contains (ob_classifications obs) (me_txid e))"

lemma check_classification_Inr_iff:
  assumes "sorted_wrt (<) (map me_txid (transactions s))"
  shows "check_classification s (txid, c) = Inr () \<longleftrightarrow> validate_classification c = Inr () \<and>
     tc_txid c = txid \<and> (\<exists>e \<in> set (transactions s). me_txid e = txid \<and> attached e c)"
proof (cases "binary_search me_txid txid (transactions s)")
  case None
  then have "\<not> (j < length (transactions s) \<and> me_txid (transactions s ! j) = txid)" for j
    using binary_search_Some_iff [OF assms, of txid j] by simp
  then have "\<not> (\<exists>e \<in> set (transactions s). me_txid e = txid)"
    by (metis in_set_conv_nth)
  with None show ?thesis
    by (auto simp: check_classification_def ok_then_Inr_iff)
next
  case (Some i)
  then have i: "i < length (transactions s)" "me_txid (transactions s ! i) = txid"
    using binary_search_Some_iff [OF assms, of txid] by auto
  have "e = transactions s ! i" if "e \<in> set (transactions s)" "me_txid e = txid" for e
  proof -
    from that obtain j where j: "j < length (transactions s)" "e = transactions s ! j"
      by (auto simp: in_set_conv_nth)
    then have "binary_search me_txid txid (transactions s) = Some j"
      using that binary_search_Some_iff [OF assms, of txid j] by simp
    with Some j show ?thesis by simp
  qed
  then have "(\<exists>e \<in> set (transactions s). me_txid e = txid \<and> attached e c) \<longleftrightarrow> attached (transactions s ! i) c"
    using i by (metis nth_mem)
  with Some show ?thesis
    by (auto simp: check_classification_def ok_then_Inr_iff attached_def Let_def)
qed

lemma observation_new_Inr_iff:
  assumes "sorted_wrt (<) (map me_txid (transactions s))"
  shows "mempool_observation_new s cls = Inr obs \<longleftrightarrow>
    obs = \<lparr> ob_snapshot = s, ob_classifications = cls \<rparr> \<and> observation_ok obs"
proof -
  have detail: "check_entry_detail cls e = Inr () \<longleftrightarrow> unattached e \<or> bt_contains cls (me_txid e)" for e
    by (auto simp: check_entry_detail_def unattached_def)
  have pair: "check_classification s p = Inr () \<longleftrightarrow> (case p of (txid, c) \<Rightarrow>
      validate_classification c = Inr () \<and> tc_txid c = txid \<and>
      (\<exists>e \<in> set (transactions s). me_txid e = txid \<and> attached e c))" for p
    by (cases p) (simp add: check_classification_Inr_iff [OF assms])
  show ?thesis
    by (auto simp: mempool_observation_new_def ok_then_Inr_iff check_all_Inr_iff not_json_safe
        pair detail observation_ok_def split: if_splits)
qed

text \<open>
  An observation over a sorted snapshot is accepted exactly when the classification map and
  the entries agree: every record is valid, is stored under its own txid and is attached,
  unchanged, to the entry with that txid and its wtxid, and every entry without a record carries
  no classification at all.
\<close>

theorem observation_accepted_iff:
  assumes "sorted_wrt (<) (map me_txid (transactions s))"
  shows "mempool_observation_new s cls = Inr obs \<longleftrightarrow>
    obs = \<lparr> ob_snapshot = s, ob_classifications = cls \<rparr> \<and> observation_ok obs"
  by (rule observation_new_Inr_iff [OF assms])

section \<open>Materialization\<close>

lemma overlay_same [simp]:
  "me_txid (overlay cls e) = me_txid e" "me_wtxid (overlay cls e) = me_wtxid e"
  "me_vsize (overlay cls e) = me_vsize e"
  by (simp_all add: overlay_def split: option.splits)

definition record_for ::
    "transaction_classifications \<Rightarrow> mempool_entry \<Rightarrow> transaction_classification option" where
  "record_for cls e = (case bt_get cls (me_txid e) of
     Some c \<Rightarrow> if tc_txid c = me_txid e \<and> tc_wtxid c = me_wtxid e then Some c else None
   | None \<Rightarrow> None)"

lemma retained_get:
  assumes "distinct (map me_txid (transactions m))"
  shows "bt_get (retained m cls) k =
    (case find (\<lambda>e. me_txid e = k) (transactions m) of
       Some e \<Rightarrow> record_for cls e | None \<Rightarrow> None)"
proof -
  let ?f = "\<lambda>entry. (case bt_get cls (me_txid entry) of
        Some c \<Rightarrow> if tc_txid c = me_txid entry \<and> tc_wtxid c = me_wtxid entry
          then Some (me_txid entry, c) else None
      | None \<Rightarrow> None)"
  have f: "?f e = map_option (\<lambda>c. (me_txid e, c)) (record_for cls e)" for e
    by (simp add: record_for_def split: option.splits)
  have "bt_get (fold (\<lambda>(k, v). bt_insert k v) (List.map_filter ?f es) m0) k =
      (case find (\<lambda>e. me_txid e = k) es of
         Some e \<Rightarrow> (case record_for cls e of Some c \<Rightarrow> Some c | None \<Rightarrow> bt_get m0 k) | None \<Rightarrow> bt_get m0 k)"
    if "distinct (map me_txid es)" "bt_ok m0" for es m0
    using that
  proof (induction es arbitrary: m0)
    case (Cons e es)
    have fresh: "find (\<lambda>x. me_txid x = me_txid e) es = None"
      using Cons.prems by (auto simp: find_None_iff image_iff)
    show ?case
    proof (cases "record_for cls e")
      case None
      with Cons fresh show ?thesis by (auto simp: f split: option.splits)
    next
      case (Some c)
      with Cons fresh show ?thesis
        by (auto simp: f bt_get_insert bt_ok_insert split: option.splits)
    qed
  qed simp
  from this [OF assms, of "[]"] show ?thesis
    unfolding retained_def bt_of_list_def by (auto split: option.splits)
qed

lemma bt_ok_retained [simp]: "bt_ok (retained m cls)"
  by (simp add: retained_def bt_ok_of_list)

lemma retained_get_entry:
  assumes "sorted_wrt (<) (map me_txid (transactions m))" "e \<in> set (transactions m)"
  shows "bt_get (retained m cls) (me_txid e) = record_for cls e"
proof -
  have d: "distinct (map me_txid (transactions m))"
    using assms(1) by (simp add: strict_sorted_iff)
  have "distinct (map me_txid es) \<Longrightarrow> e \<in> set es \<Longrightarrow> find (\<lambda>x. me_txid x = me_txid e) es = Some e" for es
    by (induction es) (auto simp: image_iff)
  with d assms(2) have "find (\<lambda>x. me_txid x = me_txid e) (transactions m) = Some e" by blast
  with d show ?thesis by (simp add: retained_get)
qed

text \<open>The entry a reader sees: the membership facts with the record of its exact variant.\<close>

definition published_entry :: "transaction_classifications \<Rightarrow> mempool_entry \<Rightarrow> mempool_entry" where
  "published_entry cls e = (case record_for cls e of
     Some c \<Rightarrow> e\<lparr>classifications := map compact (tc_results c),
       me_bip110 := Some (tc_assessment c), me_structure := Some (tc_structure c)\<rparr>
   | None \<Rightarrow> e\<lparr>classifications := [], me_bip110 := None, me_structure := None\<rparr>)"

lemma overlay_retained:
  assumes "sorted_wrt (<) (map me_txid (transactions m))" "e \<in> set (transactions m)"
  shows "overlay (retained m cls) e = published_entry cls e"
  by (simp add: overlay_def published_entry_def retained_get_entry [OF assms] split: option.splits)

lemma published_same [simp]:
  "me_txid (published_entry cls e) = me_txid e" "me_wtxid (published_entry cls e) = me_wtxid e"
  "me_vsize (published_entry cls e) = me_vsize e"
  by (simp_all add: published_entry_def split: option.splits)

lemma snapshot_with_entries:
  assumes ok: "snapshot_ok m"
    and same: "map me_txid txs = map me_txid (transactions m)" "map me_vsize txs = map me_vsize (transactions m)"
  shows "\<exists>s. mempool_snapshot_new_with_collection_window (source_id m) (source_label m)
      (collection_started_at_ms m) (collection_completed_at_ms m) (collection_duration_ms m)
      (ms_chain_tip m) txs = Inr s \<and> transactions s = txs"
proof -
  let ?s = "m\<lparr>classification_revision := 0, transactions := txs,
    classification_summaries := classifier_summaries txs,
    ms_bip110_summary := bip110_from_transactions txs\<rparr>"
  have "length txs = length (transactions m)" using same(1) by (metis length_map)
  moreover have "map (unat \<circ> me_vsize) txs = map (unat \<circ> me_vsize) (transactions m)"
    using same(2) by (metis map_map)
  moreover have "json_safe 0" by (simp add: json_safe_def)
  ultimately have "snapshot_ok ?s"
    using ok same(1) unfolding snapshot_ok_def by (elim conjE) simp
  then have "mempool_snapshot_new_with_collection_window (source_id m) (source_label m)
      (collection_started_at_ms m) (collection_completed_at_ms m) (collection_duration_ms m)
      (ms_chain_tip m) txs = Inr ?s"
    unfolding snapshot_new_Inr_iff by simp
  then show ?thesis by auto
qed

lemma retained_mem:
  assumes "sorted_wrt (<) (map me_txid (transactions m))"
  shows "(k, c) \<in> set (retained m cls) \<longleftrightarrow>
    (\<exists>e \<in> set (transactions m). me_txid e = k \<and> record_for cls e = Some c)"
proof -
  have d: "distinct (map me_txid (transactions m))" using assms by (simp add: strict_sorted_iff)
  have "(k, c) \<in> set (retained m cls) \<longleftrightarrow> bt_get (retained m cls) k = Some c"
    by (rule bt_get_iff [symmetric]) simp
  also have "\<dots> \<longleftrightarrow> (\<exists>e \<in> set (transactions m). me_txid e = k \<and> record_for cls e = Some c)"
  proof
    assume "bt_get (retained m cls) k = Some c"
    then obtain e where "find (\<lambda>e. me_txid e = k) (transactions m) = Some e" "record_for cls e = Some c"
      by (auto simp: retained_get [OF d] split: option.splits)
    then show "\<exists>e \<in> set (transactions m). me_txid e = k \<and> record_for cls e = Some c"
      by (auto simp: find_Some_iff)
  next
    assume "\<exists>e \<in> set (transactions m). me_txid e = k \<and> record_for cls e = Some c"
    then show "bt_get (retained m cls) k = Some c"
      using retained_get_entry [OF assms] by auto
  qed
  finally show ?thesis .
qed

lemma materialize_result:
  assumes ok: "snapshot_ok m" and safe: "json_safe revision"
    and valid: "list_all (\<lambda>(k, c). validate_classification c = Inr ()) cls"
  shows "\<exists>obs. materialize m revision cls = Inr obs \<and> observation_ok obs \<and>
    snapshot_ok (ob_snapshot obs) \<and> classification_revision (ob_snapshot obs) = revision \<and>
    transactions (ob_snapshot obs) = map (published_entry cls) (transactions m) \<and>
    ob_classifications obs = retained m cls"
proof -
  have sorted: "sorted_wrt (<) (map me_txid (transactions m))" using ok by (simp add: snapshot_ok_def)
  let ?txs = "map (published_entry cls) (transactions m)"
  have txs: "map (overlay (retained m cls)) (transactions m) = ?txs"
    using overlay_retained [OF sorted] by simp
  obtain s where s: "mempool_snapshot_new_with_collection_window (source_id m) (source_label m)
      (collection_started_at_ms m) (collection_completed_at_ms m) (collection_duration_ms m)
      (ms_chain_tip m) ?txs = Inr s" "transactions s = ?txs"
    using snapshot_with_entries [OF ok, of ?txs] by auto
  let ?s = "s\<lparr>classification_revision := revision\<rparr>"
  let ?obs = "\<lparr> ob_snapshot = ?s, ob_classifications = retained m cls \<rparr>"
  have s_ok: "snapshot_ok ?s"
    using s(1) safe unfolding snapshot_new_Inr_iff by (auto simp: snapshot_ok_def)
  have "observation_ok ?obs"
    unfolding observation_ok_def
  proof (intro conjI)
    show "json_safe (classification_revision (ob_snapshot ?obs))" using safe by simp
    show "\<forall>(txid, c) \<in> set (ob_classifications ?obs). validate_classification c = Inr () \<and> tc_txid c = txid \<and>
        (\<exists>e \<in> set (transactions (ob_snapshot ?obs)). me_txid e = txid \<and> attached e c)"
    proof (clarsimp simp: retained_mem [OF sorted] s(2))
      fix e c assume e: "e \<in> set (transactions m)" and r: "record_for cls e = Some c"
      then obtain c0 where c: "bt_get cls (me_txid e) = Some c" "tc_txid c = me_txid e" "tc_wtxid c = me_wtxid e"
        by (auto simp: record_for_def split: option.splits if_splits)
      then have "validate_classification c = Inr ()"
        using valid by (auto simp: list_all_iff dest!: map_of_SomeD)
      moreover have "attached (published_entry cls e) c"
        using r c by (simp add: attached_def published_entry_def)
      ultimately show "validate_classification c = Inr () \<and> tc_txid c = me_txid e \<and>
          (\<exists>x \<in> set (transactions m). me_txid x = me_txid e \<and> attached (published_entry cls x) c)"
        using e c by blast
    qed
    show "\<forall>e \<in> set (transactions (ob_snapshot ?obs)).
        unattached e \<or> bt_contains (ob_classifications ?obs) (me_txid e)"
      using retained_get_entry [OF sorted]
      by (auto simp: s(2) unattached_def published_entry_def bt_contains_def split: option.splits)
  qed
  moreover have "sorted_wrt (<) (map me_txid (transactions ?s))"
    using s_ok by (simp add: snapshot_ok_def)
  ultimately have "mempool_observation_new ?s (retained m cls) = Inr ?obs"
    by (simp add: observation_new_Inr_iff)
  then have "materialize m revision cls = Inr ?obs"
    using safe by (simp add: materialize_def materialize_retained_def txs s(1)
        with_classification_revision_def not_json_safe)
  with \<open>observation_ok ?obs\<close> s_ok s(2) show ?thesis by auto
qed

text \<open>
  C17: Materializing valid records over a valid membership snapshot never fails. The observation
  is consistent, keeps every membership fact, carries the requested revision, and shows on each
  entry exactly the record whose txid and wtxid both match, so a record computed for another
  witness variant, or for a transaction that left the mempool, is never shown.
\<close>

theorem materialize_shows_exact_variants:
  assumes "snapshot_ok m" and "json_safe revision"
    and "list_all (\<lambda>(k, c). validate_classification c = Inr ()) cls"
  shows "\<exists>obs. materialize m revision cls = Inr obs \<and> observation_ok obs \<and>
    snapshot_ok (ob_snapshot obs) \<and> classification_revision (ob_snapshot obs) = revision \<and>
    transactions (ob_snapshot obs) = map (published_entry cls) (transactions m) \<and>
    ob_classifications obs = retained m cls"
  by (rule materialize_result [OF assms])

section \<open>An example record\<close>

text \<open>The fixture \<^verbatim>\<open>test_classifier_results\<close> of the source.\<close>

definition fixture_evidence :: "json option" where
  "fixture_evidence = Some (jobj [(''fixture'', JBool True)])"

definition test_classifier_results :: "bip110_assessment \<Rightarrow> classification_result list" where
  "test_classifier_results assessment =
     (let bip110_label = status_label (ba_status assessment);
          bip110_partial = (unknown_rules assessment \<noteq> [])
      in [\<lparr> cr_classifier_id = TRANSACTION_PROPERTIES_CLASSIFIER_ID, cr_state = Complete,
            cr_primary_label = None, cr_labels = [''version_2'', ''p2wpkh''], cr_missing_facts = [],
            cr_evidence = fixture_evidence \<rparr>,
          \<lparr> cr_classifier_id = TRANSACTION_SHAPE_CLASSIFIER_ID, cr_state = Complete,
            cr_primary_label = Some ''other_shape'', cr_labels = [''other_shape''],
            cr_missing_facts = [], cr_evidence = fixture_evidence \<rparr>,
          \<lparr> cr_classifier_id = DATA_PROTOCOLS_CLASSIFIER_ID, cr_state = Complete,
            cr_primary_label = Some ''no_detected_protocol'', cr_labels = [''no_detected_protocol''],
            cr_missing_facts = [], cr_evidence = fixture_evidence \<rparr>,
          \<lparr> cr_classifier_id = KNOTS_BIP110_CLASSIFIER_ID,
            cr_state = (if bip110_partial then Partial else Complete),
            cr_primary_label = Some bip110_label, cr_labels = [bip110_label],
            cr_missing_facts = (if bip110_partial then [''policy_facts''] else []),
            cr_evidence = fixture_evidence \<rparr>])"

definition example_assessment :: bip110_assessment where
  "example_assessment = \<lparr> ba_status = Compatible, primary_rule = None, violated_rules = [],
     unknown_rules = [] \<rparr>"

definition example_record :: "string \<Rightarrow> string \<Rightarrow> transaction_classification" where
  "example_record txid wtxid = \<lparr> tc_txid = txid, tc_wtxid = wtxid,
     tc_structure = \<lparr> ts_input_count = 1, ts_output_count = 2, op_return_bytes = 0,
       output_sats = 9000, witness_bytes = 100 \<rparr>,
     tc_results = test_classifier_results example_assessment, tc_assessment = example_assessment,
     tc_rules = map (\<lambda>r. \<lparr> rd_rule = r, rd_number = public_rule_number r, rd_verdict = RulePass,
       evidence_count = 0, rd_evidence = [], missing_count = 0, rd_missing = [] \<rparr>) ALL_RULES \<rparr>"

definition example_entry :: "string \<Rightarrow> string \<Rightarrow> mempool_entry" where
  "example_entry txid wtxid = \<lparr> me_txid = txid, me_wtxid = wtxid, me_vsize = 200, me_weight = 800,
     fee_sats = 1000, entered_at_ms = 5, me_ancestor_count = 1, me_ancestor_vsize = 200,
     me_ancestor_fee_sats = 1000, me_descendant_count = 1, me_descendant_vsize = 200,
     me_replaceable = False, me_structure = None, classifications = [], me_bip110 = None \<rparr>"

definition example_membership :: mempool_snapshot where
  "example_membership =
     (let txs = [example_entry ''aa'' ''a1'', example_entry ''bb'' ''b1'']
      in \<lparr> source_id = ''core'', source_label = ''Core'', collection_started_at_ms = 5,
        collection_completed_at_ms = 7, collection_duration_ms = 2, observed_at_ms = 7,
        classification_revision = 0, ms_chain_tip = \<lparr> ct_height = 9, ct_hash = ''h'' \<rparr>,
        transaction_count = 2, total_vsize = 400, ms_classifier_catalog = classifier_catalog,
        classification_summaries = classifier_summaries txs,
        ms_bip110_summary = bip110_from_transactions txs, transactions = txs \<rparr>)"

text \<open>One record for the current variant of its transaction and one for an older variant.\<close>

definition example_records :: transaction_classifications where
  "example_records = [(''aa'', example_record ''aa'' ''a1''), (''bb'', example_record ''bb'' ''b0'')]"

lemma example_record_valid: "validate_classification (example_record txid wtxid) = Inr ()"
proof -
  have "validate_classifier_results txid (test_classifier_results example_assessment) = Inr ()"
    by (simp add: validate_results_iff result_ok_def test_classifier_results_def classifier_catalog_def
        descriptor_defs classifier_ids example_assessment_def fixture_evidence_def label_def
        status_label_def declared_keys_def Let_def)
  then show ?thesis
    by (simp add: u64_of_usize_def MAX_BIP110_DETAIL_EXEMPLARS_PER_RULE_def validate_classification_def example_record_def test_classifier_results_def
        classifier_ids example_assessment_def status_label_def ALL_RULES_def expected_status_def Let_def)
qed

lemma example_membership_ok: "snapshot_ok example_membership"
  by (simp add: snapshot_ok_def example_membership_def example_entry_def json_safe_def Let_def
      validate_source_id_def validate_source_label_def is_ascii_alphanumeric_def byte_of_def)

theorem materialize_shows_exact_variants_witness:
  "\<exists>obs. materialize example_membership 3 example_records = Inr obs \<and> observation_ok obs \<and>
     map (\<lambda>e. (me_txid e, me_bip110 e)) (transactions (ob_snapshot obs)) =
       [(''aa'', Some example_assessment), (''bb'', None)]"
proof -
  have valid: "list_all (\<lambda>(k, c). validate_classification c = Inr ()) example_records"
    by (simp add: example_records_def example_record_valid)
  have safe: "json_safe 3" by (simp add: json_safe_def)
  have "map (published_entry example_records) (transactions example_membership) =
      [published_entry example_records (example_entry ''aa'' ''a1''),
       published_entry example_records (example_entry ''bb'' ''b1'')]"
    by (simp add: example_membership_def Let_def)
  then show ?thesis
    using materialize_shows_exact_variants [OF example_membership_ok safe valid]
    by (auto simp: published_entry_def record_for_def example_records_def example_record_def example_entry_def)
qed

theorem observation_accepted_iff_witness:
  "sorted_wrt (<) (map me_txid (transactions example_membership)) \<and>
   mempool_observation_new example_membership [] =
     Inr \<lparr> ob_snapshot = example_membership, ob_classifications = [] \<rparr>"
proof -
  have sorted: "sorted_wrt (<) (map me_txid (transactions example_membership))"
    using example_membership_ok by (simp add: snapshot_ok_def)
  have "observation_ok \<lparr> ob_snapshot = example_membership, ob_classifications = [] \<rparr>"
    by (simp add: observation_ok_def example_membership_def example_entry_def unattached_def json_safe_def Let_def)
  with observation_accepted_iff [OF sorted, of "[]" "\<lparr> ob_snapshot = example_membership, ob_classifications = [] \<rparr>"]
    sorted show ?thesis by blast
qed

end
