(* ===== verification/Arc4.thy ===== *)
theory Arc4
  imports Prelude "HOL-Library.Multiset"
begin

unbundle bit_operations_syntax

text \<open>
  The ARC4 stream cipher of \<^verbatim>\<open>src/classifiers/arc4.rs\<close>, which the data-protocol lens runs to
  recognise obfuscated payloads. The state is the list of the 256 cells of the array, indexed by
  bytes, so no index is out of range. The lemmas show that every step permutes the state, that
  the keystream does not depend on the data, and that the cipher is its own inverse.
\<close>

section \<open>The code\<close>

type_synonym arc4_state = "u8 list"

definition arc4_swap :: "nat \<Rightarrow> nat \<Rightarrow> arc4_state \<Rightarrow> arc4_state" where
  "arc4_swap a b s = s[a := s ! b, b := s ! a]"

definition arc4_identity :: arc4_state where
  "arc4_identity = map of_nat [0..<256]"

definition arc4_schedule_step :: "bytes \<Rightarrow> nat \<Rightarrow> u8 \<times> arc4_state \<Rightarrow> u8 \<times> arc4_state" where
  "arc4_schedule_step key index = (\<lambda>(swap_index, state).
     let swap_index = swap_index + state ! index + key ! (index mod length key)
     in (swap_index, arc4_swap index (unat swap_index) state))"

definition arc4_schedule :: "bytes \<Rightarrow> arc4_state" where
  "arc4_schedule key = snd (fold (arc4_schedule_step key) [0..<256] (0, arc4_identity))"

fun arc4_loop :: "u8 \<Rightarrow> u8 \<Rightarrow> arc4_state \<Rightarrow> bytes \<Rightarrow> bytes" where
  "arc4_loop i j state [] = []"
| "arc4_loop i j state (byte # data) =
     (let i = i + 1;
          j = j + state ! unat i;
          state = arc4_swap (unat i) (unat j) state;
          keystream = state ! unat (state ! unat i + state ! unat j)
      in (byte XOR keystream) # arc4_loop i j state data)"

definition arc4_apply :: "bytes \<Rightarrow> bytes \<Rightarrow> bytes" where
  "arc4_apply key data =
     (if key = [] then data else arc4_loop 0 0 (arc4_schedule key) data)"

section \<open>The state stays a permutation of the 256 bytes\<close>

definition arc4_ok :: "arc4_state \<Rightarrow> bool" where
  "arc4_ok s \<longleftrightarrow> mset s = mset arc4_identity"

lemma arc4_ok_length: "arc4_ok s \<Longrightarrow> length s = 256"
  using mset_eq_length [of s arc4_identity] by (simp add: arc4_ok_def) (simp add: arc4_identity_def)

lemma arc4_index: "arc4_ok s \<Longrightarrow> unat (b :: u8) < length s"
  using unsigned_less [of b, where 'a = nat] by (simp add: arc4_ok_length)

lemma arc4_ok_swap:
  assumes "arc4_ok s" "a < length s" "b < length s"
  shows "arc4_ok (arc4_swap a b s)"
  using assms by (simp add: arc4_ok_def arc4_swap_def mset_swap)

lemma arc4_ok_identity [simp]: "arc4_ok arc4_identity"
  by (simp add: arc4_ok_def)

lemma arc4_schedule_step_ok:
  assumes "index < 256" "arc4_ok (snd p)"
  shows "arc4_ok (snd (arc4_schedule_step key index p))"
  using assms by (auto simp: arc4_schedule_step_def Let_def split: prod.splits
      intro!: arc4_ok_swap arc4_index simp: arc4_ok_length)

lemma arc4_schedule_ok: "arc4_ok (arc4_schedule key)"
proof -
  have "list_all (\<lambda>i. i < 256) is \<Longrightarrow> arc4_ok (snd p) \<Longrightarrow>
      arc4_ok (snd (fold (arc4_schedule_step key) is p))" for "is" p
    by (induction "is" arbitrary: p) (simp_all add: arc4_schedule_step_ok)
  then show ?thesis
    by (simp add: arc4_schedule_def list_all_iff)
qed

lemma arc4_identity_bytes: "set arc4_identity = (UNIV :: u8 set)"
proof -
  have "b \<in> set arc4_identity" for b :: u8
    using unsigned_less [of b, where 'a = nat] by (auto simp: arc4_identity_def image_iff intro!: bexI [of _ "unat b"])
  then show ?thesis by blast
qed

lemma arc4_ok_distinct: "arc4_ok s \<Longrightarrow> distinct s \<and> set s = UNIV"
proof -
  assume ok: "arc4_ok s"
  have "card (UNIV :: u8 set) = 256" by (simp add: card_word)
  then have "distinct (arc4_identity)"
    using arc4_identity_bytes by (intro card_distinct) (simp, simp add: arc4_identity_def)
  with ok arc4_identity_bytes show ?thesis
    by (metis arc4_ok_def mset_eq_imp_distinct_iff mset_eq_setD)
qed

section \<open>The keystream\<close>

text \<open>The bytes the cipher adds: its output on zeros.\<close>

definition arc4_keystream :: "bytes \<Rightarrow> nat \<Rightarrow> bytes" where
  "arc4_keystream key n = arc4_apply key (replicate n 0)"

lemma length_arc4_loop [simp]: "length (arc4_loop i j s data) = length data"
  by (induction data arbitrary: i j s) (simp_all add: Let_def)

lemma arc4_loop_keystream:
  "arc4_loop i j s data = map2 (XOR) data (arc4_loop i j s (replicate (length data) 0))"
  by (induction data arbitrary: i j s) (simp_all add: Let_def)

lemma arc4_loop_take: "take n (arc4_loop i j s data) = arc4_loop i j s (take n data)"
proof (induction data arbitrary: i j s n)
  case (Cons b data)
  then show ?case by (cases n) (simp_all add: Let_def)
qed simp

lemma xor_map2_cancel:
  "length xs = length ks \<Longrightarrow> map2 (XOR) (map2 (XOR) xs ks) ks = (xs :: u8 list)"
  by (induction xs ks rule: list_induct2) (simp_all add: xor.assoc)

lemma arc4_twice: "arc4_apply key (arc4_apply key data) = data"
proof (cases "key = []")
  case False
  let ?ks = "arc4_loop 0 0 (arc4_schedule key) (replicate (length data) 0)"
  have out: "arc4_apply key data = map2 (XOR) data ?ks"
    using False arc4_loop_keystream [of 0 0 "arc4_schedule key" data] by (simp add: arc4_apply_def)
  then have "arc4_apply key (arc4_apply key data) = map2 (XOR) (map2 (XOR) data ?ks) ?ks"
    using False arc4_loop_keystream [of 0 0 "arc4_schedule key" "map2 (XOR) data ?ks"]
    by (simp add: arc4_apply_def)
  then show ?thesis by (simp add: xor_map2_cancel)
qed (simp add: arc4_apply_def)

text \<open>
  ARC4 is its own inverse: applying it twice with the same key gives the data back, for every
  key, the empty one included.
\<close>

theorem arc4_involution: "arc4_apply key (arc4_apply key data) = data"
  by (rule arc4_twice)

lemma arc4_length: "length (arc4_apply key data) = length data"
  by (simp add: arc4_apply_def)

text \<open>
  ARC4 is a stream cipher: the output has the length of the data, a prefix of the data is
  encrypted to the prefix of the output, and two messages under one key differ exactly where
  their plaintexts do.
\<close>

theorem arc4_stream:
  "length (arc4_apply key data) = length data \<and>
   arc4_apply key (take n data) = take n (arc4_apply key data) \<and>
   (arc4_apply key data = arc4_apply key data' \<longleftrightarrow> data = data')"
proof (intro conjI)
  show "arc4_apply key (take n data) = take n (arc4_apply key data)"
    by (simp add: arc4_apply_def arc4_loop_take)
  show "arc4_apply key data = arc4_apply key data' \<longleftrightarrow> data = data'"
    by (metis (no_types) arc4_twice)
qed (rule arc4_length)

end
