(* ===== verification/Classifiers.thy ===== *)
theory Classifiers
  imports Model_Classification Arc4
begin

unbundle bit_operations_syntax

text \<open>
  The classifier lenses of \<^verbatim>\<open>src/classifiers.rs\<close>: transaction properties, transaction shape,
  data protocols and the BIP-110 result, with their evidence, and the exact structure of a raw
  transaction. A lens is a pure function of the transaction, the known prevouts and, for the last
  one, the policy assessment. Labels are collected in a \<^verbatim>\<open>BTreeSet\<close> (a sorted list without
  repetition), evidence is a \<open>json\<close> value, and the functions of the \<^verbatim>\<open>bitcoin\<close> crate are the
  fields of \<open>lib\<close>.
\<close>

section \<open>Constants\<close>

definition ascii :: "string \<Rightarrow> bytes" where
  "ascii s = map of_char s"

definition ORD_ENVELOPE_BYTES :: bytes where "ORD_ENVELOPE_BYTES = [0x00, 0x63, 0x03, 0x6f, 0x72, 0x64]"
definition ORD_PROTOCOL_ID :: bytes where "ORD_PROTOCOL_ID = ascii ''ord''"
definition BRC20_PROTOCOL_MARKER :: bytes where
  "BRC20_PROTOCOL_MARKER = ascii [CHR 0x22, CHR ''p'', CHR 0x22, CHR '':'', CHR 0x22, CHR ''b'',
     CHR ''r'', CHR ''c'', CHR ''-'', CHR ''2'', CHR ''0'', CHR 0x22]"
definition CNTRPRTY_PREFIX :: bytes where "CNTRPRTY_PREFIX = ascii ''CNTRPRTY''"
definition OMNI_PREFIX :: bytes where "OMNI_PREFIX = ascii ''omni''"
definition STAMP_MARKERS :: "string list" where
  "STAMP_MARKERS = [''stamp:'', ''STAMP:'', ''stamps:'', ''STAMPS:'']"
definition burn_key :: "u8 \<Rightarrow> u8 \<Rightarrow> u8 \<Rightarrow> bytes" where
  "burn_key sign fill lst = ((replicate 33 fill)[0 := sign])[32 := lst]"
definition STAMPS_BURN_KEYS :: "bytes list" where
  "STAMPS_BURN_KEYS = [burn_key 0x02 0x22 0x22, burn_key 0x03 0x33 0x33, burn_key 0x02 0x02 0x02,
     burn_key 0x03 0x03 0x02, burn_key 0x03 0x03 0x03]"
definition MAX_CARRIER_EVIDENCE :: nat where "MAX_CARRIER_EVIDENCE = 8"
definition COINJOIN_MIN_INPUTS :: nat where "COINJOIN_MIN_INPUTS = 5"
definition COINJOIN_MIN_OUTPUTS :: nat where "COINJOIN_MIN_OUTPUTS = 5"
definition COINJOIN_MIN_EQUAL_OUTPUTS :: nat where "COINJOIN_MIN_EQUAL_OUTPUTS = 3"
definition SHAPE_RATIO :: nat where "SHAPE_RATIO = 5"
definition MAX_DETECTION_EVIDENCE :: nat where "MAX_DETECTION_EVIDENCE = 16"

definition PROPERTY_LABEL_ORDER :: "string list" where
  "PROPERTY_LABEL_ORDER = [''version_1'', ''version_2'', ''version_3'', ''version_other'',
     ''signals_rbf'', ''has_witness'', ''has_taproot_annex'', ''p2pk'', ''bare_multisig'', ''p2pkh'',
     ''p2sh'', ''p2wpkh'', ''p2wsh'', ''p2tr'', ''p2a'', ''unknown_witness_program'', ''op_return'',
     ''unknown_script'']"

definition SHAPE_LABEL_ORDER :: "string list" where
  "SHAPE_LABEL_ORDER = [''possible_coinjoin'', ''consolidation'', ''batch_payout'', ''other_shape'']"

definition DATA_LABEL_ORDER :: "string list" where
  "DATA_LABEL_ORDER = [''inscription'', ''brc20'', ''runes'', ''stamps'', ''counterparty'', ''omni'',
     ''other_op_return'', ''no_detected_protocol'']"

section \<open>Results\<close>

definition result :: "string \<Rightarrow> classification_result_state \<Rightarrow> string option \<Rightarrow> string list \<Rightarrow>
    string list \<Rightarrow> json \<Rightarrow> classification_result" where
  "result cid st primary labels missing evidence =
     \<lparr> cr_classifier_id = cid, cr_state = st, cr_primary_label = primary, cr_labels = labels,
       cr_missing_facts = missing, cr_evidence = Some evidence \<rparr>"

definition ordered_labels :: "string bset \<Rightarrow> string list \<Rightarrow> string list" where
  "ordered_labels found order = filter (\<lambda>l. l \<in> set found) order"

section \<open>Decoded scripts\<close>

definition decoded_instructions :: "rust_bitcoin \<Rightarrow> bytes \<Rightarrow> instruction list option" where
  "decoded_instructions lib script = collect_options (instructions lib script)"

definition op_return_payload :: "rust_bitcoin \<Rightarrow> bytes \<Rightarrow> bytes" where
  "op_return_payload lib script =
     (if script = [] then []
      else let remainder = drop 1 script in
        (case decoded_instructions lib remainder of
           None \<Rightarrow> remainder
         | Some is \<Rightarrow>
             (case collect_options (map (\<lambda>i. case i of PushBytes b \<Rightarrow> Some b | Op _ \<Rightarrow> None) is) of
                None \<Rightarrow> remainder
              | Some pushes \<Rightarrow> concat pushes)))"

definition contains_marker :: "bytes \<Rightarrow> bytes \<Rightarrow> bool" where
  "contains_marker payload marker = list_ex (\<lambda>w. w = marker) (windows (length marker) payload)"

section \<open>Structure\<close>

definition add_output :: "rust_bitcoin \<Rightarrow> tx_out \<Rightarrow> u64 \<times> u64 \<Rightarrow> u64 \<times> u64" where
  "add_output lib out = (\<lambda>(return_bytes, sats).
     let sats = sat_add64 sats (tx_value out)
     in if is_op_return lib (script_pubkey out)
        then (sat_add64 return_bytes
                (u64_of_usize (length (op_return_payload lib (script_pubkey out)))), sats)
        else (return_bytes, sats))"

definition structure_of :: "rust_bitcoin \<Rightarrow> transaction \<Rightarrow> model_error + transaction_structure" where
  "structure_of lib tx =
     (let inputs = u64_of_usize (length (tx_inputs tx));
          outputs = u64_of_usize (length (tx_outputs tx));
          (return_bytes, sats) = fold (add_output lib) (tx_outputs tx) (0, 0);
          witness = u64_of_usize (sat_sub (total_size lib tx) (base_size lib tx))
      in transaction_structure_new inputs outputs return_bytes sats witness)"

section \<open>Transaction properties\<close>

definition script_family :: "rust_bitcoin \<Rightarrow> bytes \<Rightarrow> string" where
  "script_family lib s =
     (if is_p2pk lib s then ''p2pk''
      else if is_multisig lib s then ''bare_multisig''
      else if is_p2pkh lib s then ''p2pkh''
      else if is_p2sh lib s then ''p2sh''
      else if is_p2wpkh lib s then ''p2wpkh''
      else if is_p2wsh lib s then ''p2wsh''
      else if is_p2tr lib s then ''p2tr''
      else if s = [0x51, 0x02, 0x4e, 0x73] then ''p2a''
      else if is_witness_program lib s then ''unknown_witness_program''
      else if is_op_return lib s then ''op_return''
      else ''unknown_script'')"

definition has_annex_candidate :: "tx_in \<Rightarrow> bool" where
  "has_annex_candidate input \<longleftrightarrow> 2 \<le> length (tx_witness input) \<and>
     (case last_of (tx_witness input) of Some e \<Rightarrow> first_of e = Some 0x50 | None \<Rightarrow> False)"

record property_scan =
  pp_found :: "string bset"
  pp_families :: "(string, nat) btree"
  pp_known :: nat
  pp_missing :: nat
  pp_annexes :: nat

definition count_key :: "'k :: linorder \<Rightarrow> ('k, nat) btree \<Rightarrow> ('k, nat) btree" where
  "count_key k m = bt_modify k Suc (bt_or_insert k 0 m)"

definition scan_family :: "string \<Rightarrow> property_scan \<Rightarrow> property_scan" where
  "scan_family family a = a\<lparr>pp_found := bs_insert family (pp_found a),
     pp_families := count_key family (pp_families a)\<rparr>"

definition scan_input :: "rust_bitcoin \<Rightarrow> prevout_set \<Rightarrow> nat \<times> tx_in \<Rightarrow> property_scan \<Rightarrow> property_scan" where
  "scan_input lib prevouts = (\<lambda>(index, input) a.
     (case prevout_get prevouts index of
        None \<Rightarrow> a\<lparr>pp_missing := pp_missing a + 1\<rparr>
      | Some prevout \<Rightarrow>
          let a = a\<lparr>pp_known := pp_known a + 1\<rparr>;
              a = scan_family (script_family lib (pf_script_pubkey prevout)) a
          in if is_p2tr lib (pf_script_pubkey prevout) \<and> has_annex_candidate input
             then a\<lparr>pp_annexes := pp_annexes a + 1,
                    pp_found := bs_insert ''has_taproot_annex'' (pp_found a)\<rparr>
             else a))"

definition version_label :: "u32 \<Rightarrow> string" where
  "version_label v = (if v = 1 then ''version_1'' else if v = 2 then ''version_2''
     else if v = 3 then ''version_3'' else ''version_other'')"

definition transaction_properties :: "rust_bitcoin \<Rightarrow> transaction \<Rightarrow> prevout_set \<Rightarrow> classification_result" where
  "transaction_properties lib tx prevouts =
     (let found = bs_insert (version_label (tx_version tx)) [];
          rbf_input_count = length (filter (\<lambda>i. is_rbf lib (tx_sequence i)) (tx_inputs tx));
          found = (if 0 < rbf_input_count then bs_insert ''signals_rbf'' found else found);
          witness_input_count = length (filter (\<lambda>i. tx_witness i \<noteq> []) (tx_inputs tx));
          found = (if 0 < witness_input_count then bs_insert ''has_witness'' found else found);
          a = \<lparr> pp_found = found, pp_families = [], pp_known = 0, pp_missing = 0, pp_annexes = 0 \<rparr>;
          a = fold (\<lambda>out. scan_family (script_family lib (script_pubkey out))) (tx_outputs tx) a;
          a = fold (scan_input lib prevouts) (enumerated (tx_inputs tx)) a;
          (st, missing_facts) = (if pp_missing a = 0 then (Complete, [])
            else (Partial, [''input_script_pubkeys'']))
      in result TRANSACTION_PROPERTIES_CLASSIFIER_ID st None
           (ordered_labels (pp_found a) PROPERTY_LABEL_ORDER) missing_facts
           (jobj [(''version'', JInt (sint (tx_version tx))),
              (''input_count'', jnat (length (tx_inputs tx))),
              (''output_count'', jnat (length (tx_outputs tx))),
              (''known_input_script_count'', jnat (pp_known a)),
              (''missing_input_script_count'', jnat (pp_missing a)),
              (''script_family_counts'', JObj (map (\<lambda>(k, n). (k, jnat n)) (pp_families a))),
              (''rbf_input_count'', jnat rbf_input_count),
              (''witness_input_count'', jnat witness_input_count),
              (''taproot_annex_input_count'', jnat (pp_annexes a))]))"

section \<open>Transaction shape\<close>

text \<open>\<^verbatim>\<open>Iterator::max_by_key\<close>: the last of the greatest elements.\<close>

definition max_by_key :: "('a \<Rightarrow> 'k :: linorder) \<Rightarrow> 'a list \<Rightarrow> 'a option" where
  "max_by_key f xs = (case xs of [] \<Rightarrow> None
     | x # rest \<Rightarrow> Some (fold (\<lambda>y best. if f best \<le> f y then y else best) rest x))"

definition most_repeated_nonzero_output :: "transaction \<Rightarrow> (u64 \<times> nat) option" where
  "most_repeated_nonzero_output tx = max_by_key (\<lambda>(value_sats, n). (n, value_sats))
     (fold (\<lambda>out m. if 0 < tx_value out then count_key (tx_value out) m else m) (tx_outputs tx) [])"

definition all_unique :: "bytes list \<Rightarrow> bool" where
  "all_unique values = all_new [] values"

definition all_input_scripts_known :: "transaction \<Rightarrow> prevout_set \<Rightarrow> bool" where
  "all_input_scripts_known tx prevouts \<longleftrightarrow> length (tx_inputs tx) = prevouts_len prevouts \<and>
     list_all (\<lambda>i. prevout_get prevouts i \<noteq> None) [0..<length (tx_inputs tx)]"

definition transaction_shape ::
    "transaction \<Rightarrow> prevout_set \<Rightarrow> classification_result \<Rightarrow> classification_result" where
  "transaction_shape tx prevouts data =
     (let input_count = length (tx_inputs tx);
          output_count = length (tx_outputs tx);
          consolidation = (SHAPE_RATIO \<le> input_count \<and> 0 < output_count \<and>
            sat_mul output_count SHAPE_RATIO \<le> input_count);
          batch_payout = (SHAPE_RATIO \<le> output_count \<and> 0 < input_count \<and>
            sat_mul input_count SHAPE_RATIO \<le> output_count);
          found = (if consolidation then bs_insert ''consolidation'' [] else []);
          found = (if batch_payout then bs_insert ''batch_payout'' found else found);
          repeated = most_repeated_nonzero_output tx;
          all_known = all_input_scripts_known tx prevouts;
          unique_outputs = all_unique (map script_pubkey (tx_outputs tx));
          unique_inputs = (all_known \<and> all_unique (List.map_filter
            (\<lambda>i. map_option pf_script_pubkey (prevout_get prevouts i)) [0..<input_count]));
          has_data_protocol = list_ex (\<lambda>l. l \<noteq> ''no_detected_protocol'') (cr_labels data);
          possible_coinjoin = (COINJOIN_MIN_INPUTS \<le> input_count \<and>
            COINJOIN_MIN_OUTPUTS \<le> output_count \<and>
            (case repeated of Some (_, n) \<Rightarrow> COINJOIN_MIN_EQUAL_OUTPUTS \<le> n | None \<Rightarrow> False) \<and>
            unique_outputs \<and> unique_inputs \<and> \<not> has_data_protocol);
          found = (if possible_coinjoin then bs_insert ''possible_coinjoin'' found else found);
          found = (if found = [] \<and> all_known then bs_insert ''other_shape'' found else found);
          primary = find (\<lambda>l. l \<in> set found) SHAPE_LABEL_ORDER;
          (st, missing_facts) = (if all_known then (Complete, [])
            else (Partial, [''input_script_pubkeys'']))
      in result TRANSACTION_SHAPE_CLASSIFIER_ID st primary (ordered_labels found SHAPE_LABEL_ORDER)
           missing_facts
           (jobj [(''input_count'', jnat input_count), (''output_count'', jnat output_count),
              (''shape_ratio'', jnat SHAPE_RATIO),
              (''most_repeated_nonzero_output'', (case repeated of
                 Some (value_sats, n) \<Rightarrow>
                   jobj [(''value_sats'', JInt (uint value_sats)), (''count'', jnat n)]
               | None \<Rightarrow> JNull)),
              (''output_scripts_unique'', JBool unique_outputs),
              (''known_input_scripts_unique'', if all_known then JBool unique_inputs else JNull),
              (''known_data_protocol'', JBool has_data_protocol)]))"

end
