(* ===== verification/Data_Protocols.thy ===== *)
theory Data_Protocols
  imports Classifiers "HOL-Library.Monad_Syntax"
begin

unbundle bit_operations_syntax

text \<open>
  The data-protocol lens of \<^verbatim>\<open>src/classifiers.rs\<close>: Ordinals envelopes in witnesses, protocol
  markers in \<^verbatim>\<open>OP_RETURN\<close> payloads, and the Stamps and Counterparty carriers in bare multisig
  outputs, which are deobfuscated with ARC4 under the first input's txid; then the whole
  classification of a transaction.
\<close>

section \<open>Detections\<close>

record data_analysis =
  da_labels :: "string bset"
  detections :: "json list"

definition detect :: "string \<Rightarrow> json \<Rightarrow> data_analysis \<Rightarrow> data_analysis" where
  "detect l evidence a =
     (let a = a\<lparr>da_labels := bs_insert l (da_labels a)\<rparr>
      in if length (detections a) < MAX_DETECTION_EVIDENCE
         then a\<lparr>detections := detections a @ [evidence]\<rparr> else a)"

section \<open>Ordinals envelopes\<close>

record ord_envelope =
  body_window :: bytes
  brc20_marker :: bool

definition is_ascii_whitespace :: "u8 \<Rightarrow> bool" where
  "is_ascii_whitespace b \<longleftrightarrow> b \<in> {0x20, 0x09, 0x0a, 0x0c, 0x0d}"

definition push_body_byte :: "u8 \<Rightarrow> ord_envelope \<Rightarrow> ord_envelope" where
  "push_body_byte b e =
     (let window = (if length (body_window e) = length BRC20_PROTOCOL_MARKER
            then drop 1 (body_window e) else body_window e) @ [b]
      in e\<lparr>body_window := window,
           brc20_marker := (brc20_marker e \<or> window = BRC20_PROTOCOL_MARKER)\<rparr>)"

definition push_body :: "bytes \<Rightarrow> ord_envelope \<Rightarrow> ord_envelope" where
  "push_body bs = fold push_body_byte (filter (\<lambda>b. \<not> is_ascii_whitespace b) bs)"

text \<open>The loop over the instructions after the envelope header.\<close>

fun envelope_loop :: "bool \<Rightarrow> instruction list \<Rightarrow> ord_envelope \<Rightarrow> ord_envelope" where
  "envelope_loop in_body [] e = e"
| "envelope_loop in_body (Op c # rest) e = e"
| "envelope_loop in_body (PushBytes b # rest) e =
     (if in_body then envelope_loop in_body rest (push_body b e)
      else if b = [] then envelope_loop True rest e
      else (case rest of
          PushBytes _ # rest \<Rightarrow> envelope_loop in_body rest e
        | _ \<Rightarrow> e))"

definition is_envelope_header :: "instruction list \<Rightarrow> bool" where
  "is_envelope_header w \<longleftrightarrow> w = [PushBytes [], Op 0x63, PushBytes ORD_PROTOCOL_ID]"

definition parse_ord_envelope :: "rust_bitcoin \<Rightarrow> bytes \<Rightarrow> ord_envelope option" where
  "parse_ord_envelope lib script = do {
     instrs \<leftarrow> decoded_instructions lib script;
     start \<leftarrow> position is_envelope_header (windows 3 instrs);
     Some (envelope_loop False (drop (start + 3) instrs)
       \<lparr> body_window = [], brc20_marker = False \<rparr>)
   }"

definition witness_detection :: "string \<Rightarrow> nat \<Rightarrow> nat \<Rightarrow> json" where
  "witness_detection l input element =
     jobj [(''label'', JStr l), (''carrier'', JStr ''witness''), (''input'', jnat input),
       (''element'', jnat element), (''detection'', JStr ''decoded_envelope'')]"

definition witness_stack :: "bytes list \<Rightarrow> bytes list" where
  "witness_stack elements =
     (if 2 \<le> length elements \<and>
         (case last_of elements of Some e \<Rightarrow> first_of e = Some 0x50 | None \<Rightarrow> False)
      then take (length elements - 1) elements else elements)"

definition tapscript_element :: "bytes list \<Rightarrow> (nat \<times> bytes) option" where
  "tapscript_element stack =
     (if 2 \<le> length stack
      then let control = stack ! (length stack - 1) in
        if 33 \<le> length control \<and> (length control - 33) mod 32 = 0 \<and>
           (case first_of control of Some leaf \<Rightarrow> leaf AND 0xfe = 0xc0 | None \<Rightarrow> False)
        then Some (length stack - 2, stack ! (length stack - 2)) else None
      else None)"

definition analyze_witness :: "rust_bitcoin \<Rightarrow> nat \<Rightarrow> bytes list \<Rightarrow> data_analysis \<Rightarrow> data_analysis" where
  "analyze_witness lib input witness a =
     (let envelope = (case tapscript_element (witness_stack witness) of
            None \<Rightarrow> None
          | Some (index, element) \<Rightarrow> map_option (\<lambda>e. (index, e)) (parse_ord_envelope lib element));
          strong_envelope = (envelope \<noteq> None);
          a = (case envelope of
            None \<Rightarrow> a
          | Some (index, e) \<Rightarrow>
              let a = detect ''inscription'' (witness_detection ''inscription'' input index) a
              in if brc20_marker e then detect ''brc20'' (witness_detection ''brc20'' input index) a else a)
      in if \<not> strong_envelope \<and> list_ex (\<lambda>element. contains_marker element ORD_ENVELOPE_BYTES) witness
         then detect ''inscription''
           (jobj [(''label'', JStr ''inscription''), (''carrier'', JStr ''witness''),
              (''input'', jnat input), (''detection'', JStr ''byte_pattern''),
              (''confidence'', JStr ''low'')]) a
         else a)"

section \<open>OP_RETURN payloads\<close>

definition arc4_key :: "transaction \<Rightarrow> bytes option" where
  "arc4_key tx = map_option (\<lambda>input. rev (op_txid (previous_output input))) (first_of (tx_inputs tx))"

definition starts_with :: "bytes \<Rightarrow> bytes \<Rightarrow> bool" where
  "starts_with data pre \<longleftrightarrow> take (length pre) data = pre"

definition cntrprty_offset :: "bytes \<Rightarrow> bool \<Rightarrow> nat option" where
  "cntrprty_offset data allow_length_prefix =
     (if starts_with data CNTRPRTY_PREFIX then Some 0
      else if allow_length_prefix \<and> length CNTRPRTY_PREFIX < length data \<and>
          take (length CNTRPRTY_PREFIX) (drop 1 data) = CNTRPRTY_PREFIX
      then Some 1 else None)"

definition analyze_op_return ::
    "rust_bitcoin \<Rightarrow> bytes option \<Rightarrow> nat \<times> tx_out \<Rightarrow> data_analysis \<Rightarrow> data_analysis" where
  "analyze_op_return lib key = (\<lambda>(output, txout) a.
     let bytes = script_pubkey txout in
     if \<not> is_op_return lib bytes then a
     else let payload = op_return_payload lib bytes in
       if starts_with bytes [0x6a, 0x5d]
       then detect ''runes'' (jobj [(''label'', JStr ''runes''), (''carrier'', JStr ''op_return''),
           (''output'', jnat output)]) a
       else if length CNTRPRTY_PREFIX \<le> length payload \<and>
           (case key of Some k \<Rightarrow> cntrprty_offset (arc4_apply k payload) False \<noteq> None | None \<Rightarrow> False)
       then detect ''counterparty'' (jobj [(''label'', JStr ''counterparty''),
           (''carrier'', JStr ''op_return''), (''output'', jnat output),
           (''detection'', JStr ''arc4_decrypted_prefix''), (''payload_bytes'', jnat (length payload))]) a
       else if starts_with payload OMNI_PREFIX
       then detect ''omni'' (jobj [(''label'', JStr ''omni''), (''carrier'', JStr ''op_return''),
           (''output'', jnat output), (''detection'', JStr ''payload_prefix'')]) a
       else detect ''other_op_return'' (jobj [(''label'', JStr ''other_op_return''),
           (''carrier'', JStr ''op_return''), (''output'', jnat output)]) a)"

section \<open>Bare multisig carriers\<close>

definition pushnum :: "u8 \<Rightarrow> u8 option" where
  "pushnum c = (if 0x51 \<le> c \<and> c \<le> 0x60 then Some (c - 0x50) else None)"

definition parse_bare_multisig :: "rust_bitcoin \<Rightarrow> bytes \<Rightarrow> (u8 \<times> bytes list) option" where
  "parse_bare_multisig lib script = do {
     instrs \<leftarrow> decoded_instructions lib script;
     (case instrs of
        Op required_opcode # rest \<Rightarrow> do {
          required \<leftarrow> pushnum required_opcode;
          (if rest = [] \<or> last rest \<noteq> Op 0xae then None
           else let head = butlast rest in
             if head = [] then None
             else (case last head of
                 Op total_opcode \<Rightarrow> do {
                   total \<leftarrow> pushnum total_opcode;
                   keys \<leftarrow> collect_options (map (\<lambda>i. case i of PushBytes b \<Rightarrow> Some b | Op _ \<Rightarrow> None)
                     (butlast head));
                   (if unat total = length keys \<and> 1 \<le> required \<and> required \<le> total
                    then Some (required, keys) else None)
                 }
               | PushBytes _ \<Rightarrow> None))
        }
      | _ \<Rightarrow> None)
   }"

record multisig_carrier =
  mc_output :: nat
  mc_required :: u8
  mc_keys :: "bytes list"

definition is_stamps_burn_key :: "bytes \<Rightarrow> bool" where
  "is_stamps_burn_key key = list_ex (\<lambda>burn. burn = key) STAMPS_BURN_KEYS"

definition compressed_key_payload :: "bytes \<Rightarrow> bytes option" where
  "compressed_key_payload key = (if length key \<noteq> 33 then None else Some (take 31 (drop 1 key)))"

definition compressed_pair_chunk :: "multisig_carrier \<Rightarrow> bytes option" where
  "compressed_pair_chunk c = do {
     k0 \<leftarrow> list_get (mc_keys c) 0;
     fst_part \<leftarrow> compressed_key_payload k0;
     k1 \<leftarrow> list_get (mc_keys c) 1;
     snd_part \<leftarrow> compressed_key_payload k1;
     Some (fst_part @ snd_part)
   }"

definition stamps_chunk :: "multisig_carrier \<Rightarrow> bytes option" where
  "stamps_chunk c =
     (if mc_required c \<noteq> 1 \<or> length (mc_keys c) \<noteq> 3 \<or> \<not> is_stamps_burn_key (mc_keys c ! 2)
      then None else compressed_pair_chunk c)"

definition counterparty_chunk :: "multisig_carrier \<Rightarrow> bytes option" where
  "counterparty_chunk c =
     (if length (mc_keys c) = 3 then compressed_pair_chunk c
      else if length (mc_keys c) = 2
      then let key = mc_keys c ! 1 in
        (case first_of key of
           None \<Rightarrow> None
         | Some b \<Rightarrow>
             if unat b + 1 \<le> length key then Some (take (unat b) (drop 1 key)) else None)
      else None)"

definition multisig_carriers :: "rust_bitcoin \<Rightarrow> transaction \<Rightarrow> multisig_carrier list" where
  "multisig_carriers lib tx = List.map_filter (\<lambda>(output, txout).
     map_option (\<lambda>(required, keys). \<lparr> mc_output = output, mc_required = required, mc_keys = keys \<rparr>)
       (parse_bare_multisig lib (script_pubkey txout))) (enumerated (tx_outputs tx))"

fun find_map :: "('a \<Rightarrow> 'b option) \<Rightarrow> 'a list \<Rightarrow> 'b option" where
  "find_map f [] = None"
| "find_map f (x # xs) = (case f x of Some y \<Rightarrow> Some y | None \<Rightarrow> find_map f xs)"

definition stamp_marker :: "bytes \<Rightarrow> (string \<times> nat) option" where
  "stamp_marker data = find_map (\<lambda>marker. map_option (\<lambda>offset. (marker, offset))
     (position (\<lambda>w. w = ascii marker) (windows (length marker) data))) STAMP_MARKERS"

definition carrier_evidence :: "nat list \<Rightarrow> json" where
  "carrier_evidence outputs = jobj [(''output_count'', jnat (length outputs)),
     (''outputs'', JArr (map jnat (take MAX_CARRIER_EVIDENCE outputs)))]"

text \<open>The outputs and chunks of the carriers a protocol reads.\<close>

definition carrier_chunks ::
    "(multisig_carrier \<Rightarrow> bytes option) \<Rightarrow> multisig_carrier list \<Rightarrow> (nat \<times> bytes) list" where
  "carrier_chunks chunk carriers =
     List.map_filter (\<lambda>c. map_option (\<lambda>b. (mc_output c, b)) (chunk c)) carriers"

definition detect_stamps :: "multisig_carrier list \<Rightarrow> bytes option \<Rightarrow> data_analysis \<Rightarrow> data_analysis" where
  "detect_stamps carriers key a =
     (let chunks = carrier_chunks stamps_chunk carriers;
          outputs = map fst chunks;
          data = concat (map snd chunks)
      in if outputs = [] then a
         else (case key of
             None \<Rightarrow> a
           | Some key \<Rightarrow>
               let decrypted = arc4_apply key data in
               (case stamp_marker decrypted of
                  None \<Rightarrow> a
                | Some (marker, offset) \<Rightarrow>
                    let transport = (if contains_marker decrypted CNTRPRTY_PREFIX
                          then ''counterparty'' else ''pure'');
                        evidence = carrier_evidence outputs;
                        evidence = json_set ''label'' (JStr ''stamps'') evidence;
                        evidence = json_set ''carrier'' (JStr ''bare_multisig'') evidence;
                        evidence = json_set ''detection'' (JStr ''arc4_decrypted_marker'') evidence;
                        evidence = json_set ''transport'' (JStr transport) evidence;
                        evidence = json_set ''marker'' (JStr marker) evidence;
                        evidence = json_set ''marker_offset'' (jnat offset) evidence;
                        evidence = json_set ''payload_bytes'' (jnat (length data)) evidence
                    in detect ''stamps'' evidence a)))"

text \<open>
  How a candidate payload decodes: the detection and the decoded bytes, or \<open>None\<close> for the
  \<^verbatim>\<open>continue\<close>s of the loop.
\<close>

definition decode_candidate :: "bytes option \<Rightarrow> bytes \<Rightarrow> (string \<times> bytes) option" where
  "decode_candidate key data =
     (if length data < length CNTRPRTY_PREFIX then None
      else if cntrprty_offset data False \<noteq> None then Some (''plaintext_prefix'', data)
      else (case key of
          None \<Rightarrow> None
        | Some key \<Rightarrow>
            let decrypted = arc4_apply key data in
            if cntrprty_offset decrypted True = None then None
            else Some (''arc4_decrypted_prefix'', decrypted)))"

fun try_candidates ::
    "bytes option \<Rightarrow> (nat list \<times> bytes) list \<Rightarrow> data_analysis \<Rightarrow> data_analysis" where
  "try_candidates key [] a = a"
| "try_candidates key ((outputs, data) # rest) a = (case decode_candidate key data of
     None \<Rightarrow> try_candidates key rest a
   | Some (detection, decoded) \<Rightarrow>
       let evidence = carrier_evidence outputs;
           evidence = json_set ''label'' (JStr ''counterparty'') evidence;
           evidence = json_set ''carrier'' (JStr ''bare_multisig'') evidence;
           evidence = json_set ''detection'' (JStr detection) evidence;
           evidence = json_set ''payload_bytes'' (jnat (length decoded)) evidence;
           a = detect ''counterparty'' evidence a
       in (case stamp_marker decoded of
             None \<Rightarrow> a
           | Some (marker, offset) \<Rightarrow>
               let evidence = carrier_evidence outputs;
                   evidence = json_set ''label'' (JStr ''stamps'') evidence;
                   evidence = json_set ''carrier'' (JStr ''bare_multisig'') evidence;
                   evidence = json_set ''detection'' (JStr ''counterparty_envelope_marker'') evidence;
                   evidence = json_set ''transport'' (JStr ''counterparty'') evidence;
                   evidence = json_set ''marker'' (JStr marker) evidence;
                   evidence = json_set ''marker_offset'' (jnat offset) evidence
               in detect ''stamps'' evidence a))"

definition detect_multisig_counterparty ::
    "multisig_carrier list \<Rightarrow> bytes option \<Rightarrow> data_analysis \<Rightarrow> data_analysis" where
  "detect_multisig_counterparty carriers key a =
     (let chunks = carrier_chunks counterparty_chunk carriers in
      if chunks = [] then a
      else let joined = (if 1 < length chunks
               then [(map fst chunks, concat (map snd chunks))] else [])
        in try_candidates key (joined @ map (\<lambda>(output, chunk). ([output], chunk)) chunks) a)"

definition analyze_multisig_carriers ::
    "rust_bitcoin \<Rightarrow> transaction \<Rightarrow> bytes option \<Rightarrow> data_analysis \<Rightarrow> data_analysis" where
  "analyze_multisig_carriers lib tx key a =
     (let carriers = multisig_carriers lib tx in
      if carriers = [] then a
      else detect_multisig_counterparty carriers key (detect_stamps carriers key a))"

section \<open>The lens\<close>

definition data_analysis_of :: "rust_bitcoin \<Rightarrow> transaction \<Rightarrow> data_analysis" where
  "data_analysis_of lib tx =
     (let key = arc4_key tx;
          a = \<lparr> da_labels = [], detections = [] \<rparr>;
          a = fold (\<lambda>(index, input). analyze_witness lib index (tx_witness input))
            (enumerated (tx_inputs tx)) a;
          a = fold (analyze_op_return lib key) (enumerated (tx_outputs tx)) a;
          a = analyze_multisig_carriers lib tx key a
      in if da_labels a = [] then a\<lparr>da_labels := bs_insert ''no_detected_protocol'' (da_labels a)\<rparr>
         else a)"

definition data_protocols :: "rust_bitcoin \<Rightarrow> transaction \<Rightarrow> classification_result" where
  "data_protocols lib tx =
     (let a = data_analysis_of lib tx;
          primary = find (\<lambda>l. l \<in> set (da_labels a)) DATA_LABEL_ORDER
      in result DATA_PROTOCOLS_CLASSIFIER_ID Complete primary
           (ordered_labels (da_labels a) DATA_LABEL_ORDER) []
           (jobj [(''detections'', JArr (detections a))]))"

section \<open>The BIP-110 result and the whole classification\<close>

definition rule_name :: "bip110_rule_id \<Rightarrow> string" where
  "rule_name r = (case r of
     PubOutputSize \<Rightarrow> ''output_size'' | PubElementSize \<Rightarrow> ''element_size''
   | PubUndefinedVersion \<Rightarrow> ''undefined_version'' | PubTaprootAnnex \<Rightarrow> ''taproot_annex''
   | PubControlBlockSize \<Rightarrow> ''control_block_size'' | PubOpSuccess \<Rightarrow> ''op_success''
   | PubTapscriptOpIf \<Rightarrow> ''tapscript_op_if'')"

text \<open>The derived \<^verbatim>\<open>Serialize\<close> of \<^verbatim>\<open>Bip110Assessment\<close>.\<close>

definition assessment_json :: "bip110_assessment \<Rightarrow> json" where
  "assessment_json a = jobj [(''status'', JStr (status_label (ba_status a))),
     (''primary_rule'', case primary_rule a of Some r \<Rightarrow> JStr (rule_name r) | None \<Rightarrow> JNull),
     (''violated_rules'', JArr (map (JStr \<circ> rule_name) (violated_rules a))),
     (''unknown_rules'', JArr (map (JStr \<circ> rule_name) (unknown_rules a)))]"

definition bip110_result :: "bip110_assessment \<Rightarrow> classification_result" where
  "bip110_result assessment =
     (let primary = status_label (ba_status assessment);
          partial = (unknown_rules assessment \<noteq> [])
      in result KNOTS_BIP110_CLASSIFIER_ID (if partial then Partial else Complete) (Some primary)
           [primary] (if partial then [''policy_facts''] else [])
           (jobj [(''assessment'', assessment_json assessment)]))"

definition classify_transaction ::
    "rust_bitcoin \<Rightarrow> transaction \<Rightarrow> prevout_set \<Rightarrow> bip110_assessment \<Rightarrow> classification_result list" where
  "classify_transaction lib tx prevouts assessment =
     (let data = data_protocols lib tx
      in [transaction_properties lib tx prevouts, transaction_shape tx prevouts data, data,
          bip110_result assessment])"

end
