(* ===== verification/Classifier_Props.thy ===== *)
theory Classifier_Props
  imports Data_Protocols
begin

text \<open>
  What the classifier lenses guarantee: their results always pass the catalog validation of the
  model, and their labels mean what the catalog says.
\<close>

section \<open>Labels\<close>

lemma distinct_ordered [simp]: "distinct order \<Longrightarrow> distinct (ordered_labels found order)"
  by (simp add: ordered_labels_def)

lemma set_ordered: "set (ordered_labels found order) = set found \<inter> set order"
  by (auto simp: ordered_labels_def)

lemma ordered_Nil_iff: "set found \<subseteq> set order \<Longrightarrow> ordered_labels found order = [] \<longleftrightarrow> found = []"
  by (cases found) (auto simp: ordered_labels_def filter_empty_conv)

lemma find_in_set: "find P xs = Some x \<Longrightarrow> x \<in> set xs \<and> P x"
  by (auto simp: find_Some_iff)

lemma label_orders_distinct [simp]:
  "distinct PROPERTY_LABEL_ORDER" "distinct SHAPE_LABEL_ORDER" "distinct DATA_LABEL_ORDER"
  by (simp_all add: PROPERTY_LABEL_ORDER_def SHAPE_LABEL_ORDER_def DATA_LABEL_ORDER_def)

lemma declared_orders:
  "declared_keys properties_descriptor = PROPERTY_LABEL_ORDER"
  "declared_keys shape_descriptor = SHAPE_LABEL_ORDER"
  "declared_keys data_descriptor = DATA_LABEL_ORDER"
  "declared_keys bip110_descriptor = [''compatible'', ''violating'', ''indeterminate'']"
  by (simp_all add: declared_keys_def descriptor_defs label_def PROPERTY_LABEL_ORDER_def
      SHAPE_LABEL_ORDER_def DATA_LABEL_ORDER_def)

lemma descriptor_ids:
  "cd_id properties_descriptor = ''transaction_properties''" "cd_id shape_descriptor = ''transaction_shape''"
  "cd_id data_descriptor = ''data_protocols''" "cd_id bip110_descriptor = ''knots_bip110''"
  by (simp_all add: descriptor_defs classifier_ids)

lemma result_fields [simp]:
  "cr_classifier_id (result cid st p ls ms e) = cid" "cr_state (result cid st p ls ms e) = st"
  "cr_primary_label (result cid st p ls ms e) = p" "cr_labels (result cid st p ls ms e) = ls"
  "cr_missing_facts (result cid st p ls ms e) = ms" "cr_evidence (result cid st p ls ms e) = Some e"
  by (simp_all add: result_def)

lemma result_case:
  "cr_classifier_id (case p of (st, ms) \<Rightarrow> result cid st q ls ms e) = cid"
  "cr_state (case p of (st, ms) \<Rightarrow> result cid st q ls ms e) = fst p"
  "cr_primary_label (case p of (st, ms) \<Rightarrow> result cid st q ls ms e) = q"
  "cr_labels (case p of (st, ms) \<Rightarrow> result cid st q ls ms e) = ls"
  "cr_missing_facts (case p of (st, ms) \<Rightarrow> result cid st q ls ms e) = snd p"
  "cr_evidence (case p of (st, ms) \<Rightarrow> result cid st q ls ms e) = Some e"
  by (cases p; simp)+

section \<open>Transaction properties\<close>

lemma scan_family_found [simp]: "set (pp_found (scan_family f a)) = insert f (set (pp_found a))"
  by (simp add: scan_family_def)

lemma scan_family_missing [simp]: "pp_missing (scan_family f a) = pp_missing a"
  by (simp add: scan_family_def)

lemma fold_outputs_found:
  "set (pp_found (fold (\<lambda>out. scan_family (script_family lib (script_pubkey out))) outs a)) =
     set (pp_found a) \<union> (\<lambda>out. script_family lib (script_pubkey out)) ` set outs"
  "pp_missing (fold (\<lambda>out. scan_family (script_family lib (script_pubkey out))) outs a) = pp_missing a"
  by (induction outs arbitrary: a) auto

lemma fold_inputs_missing:
  "pp_missing (fold (scan_input lib prevouts) its a) =
     pp_missing a + length (filter (\<lambda>it. prevout_get prevouts (fst it) = None) its)"
  by (induction its arbitrary: a) (auto simp: scan_input_def Let_def split: option.splits)

lemma fold_inputs_found:
  "set (pp_found (fold (scan_input lib prevouts) its a)) = set (pp_found a) \<union>
     {l. \<exists>(i, input) \<in> set its. \<exists>p. prevout_get prevouts i = Some p \<and>
        (l = script_family lib (pf_script_pubkey p) \<or>
         l = ''has_taproot_annex'' \<and> is_p2tr lib (pf_script_pubkey p) \<and> has_annex_candidate input)}"
proof (induction its arbitrary: a)
  case (Cons it its)
  obtain i input where it: "it = (i, input)" by (cases it)
  show ?case
  proof (cases "prevout_get prevouts i")
    case None
    then have "set (pp_found (scan_input lib prevouts it a)) = set (pp_found a)"
      by (simp add: it scan_input_def)
    with None show ?thesis by (simp add: Cons it)
  next
    case (Some p)
    then have "set (pp_found (scan_input lib prevouts it a)) = set (pp_found a) \<union>
        {l. l = script_family lib (pf_script_pubkey p) \<or>
          l = ''has_taproot_annex'' \<and> is_p2tr lib (pf_script_pubkey p) \<and> has_annex_candidate input}"
      by (auto simp: it scan_input_def Let_def)
    with Some show ?thesis by (auto simp: Cons it)
  qed
qed simp

lemma missing_prevouts:
  "length (filter (\<lambda>it. prevout_get prevouts (fst it) = None) (enumerated (tx_inputs tx))) = 0 \<longleftrightarrow>
     (\<forall>i < length (tx_inputs tx). prevout_get prevouts i \<noteq> None)"
proof -
  have "(\<forall>it \<in> set (enumerated xs). P (fst it)) \<longleftrightarrow> (\<forall>i < length xs. P i)" for P and xs :: "tx_in list"
    by (metis enumerated_mem fst_conv prod.exhaust)
  then show ?thesis by (simp add: filter_empty_conv)
qed

lemma properties_shape:
  "cr_classifier_id (transaction_properties lib tx prevouts) = ''transaction_properties''"
  "cr_primary_label (transaction_properties lib tx prevouts) = None"
  "cr_evidence (transaction_properties lib tx prevouts) \<noteq> None"
  "cr_state (transaction_properties lib tx prevouts) =
     (if \<forall>i < length (tx_inputs tx). prevout_get prevouts i \<noteq> None then Complete else Partial)"
  "cr_missing_facts (transaction_properties lib tx prevouts) =
     (if \<forall>i < length (tx_inputs tx). prevout_get prevouts i \<noteq> None then [] else [''input_script_pubkeys''])"
  using missing_prevouts [of prevouts tx]
  by (auto simp: transaction_properties_def Let_def classifier_ids fold_inputs_missing fold_outputs_found
      split: prod.splits if_splits)

lemma properties_labels:
  "\<exists>found. cr_labels (transaction_properties lib tx prevouts) = ordered_labels found PROPERTY_LABEL_ORDER \<and>
     set found = {version_label (tx_version tx)} \<union>
       (if \<exists>i \<in> set (tx_inputs tx). is_rbf lib (tx_sequence i) then {''signals_rbf''} else {}) \<union>
       (if \<exists>i \<in> set (tx_inputs tx). tx_witness i \<noteq> [] then {''has_witness''} else {}) \<union>
       (\<lambda>out. script_family lib (script_pubkey out)) ` set (tx_outputs tx) \<union>
       {l. \<exists>(i, input) \<in> set (enumerated (tx_inputs tx)). \<exists>p. prevout_get prevouts i = Some p \<and>
          (l = script_family lib (pf_script_pubkey p) \<or>
           l = ''has_taproot_annex'' \<and> is_p2tr lib (pf_script_pubkey p) \<and> has_annex_candidate input)}"
proof -
  let ?f0 = "bs_insert (version_label (tx_version tx)) []"
  let ?rbf = "length (filter (\<lambda>i. is_rbf lib (tx_sequence i)) (tx_inputs tx))"
  let ?wit = "length (filter (\<lambda>i. tx_witness i \<noteq> []) (tx_inputs tx))"
  let ?f1 = "if 0 < ?rbf then bs_insert ''signals_rbf'' ?f0 else ?f0"
  let ?f2 = "if 0 < ?wit then bs_insert ''has_witness'' ?f1 else ?f1"
  let ?a0 = "\<lparr> pp_found = ?f2, pp_families = [], pp_known = 0, pp_missing = 0, pp_annexes = 0 \<rparr>"
  let ?a1 = "fold (\<lambda>out. scan_family (script_family lib (script_pubkey out))) (tx_outputs tx) ?a0"
  let ?a2 = "fold (scan_input lib prevouts) (enumerated (tx_inputs tx)) ?a1"
  have "0 < ?rbf \<longleftrightarrow> (\<exists>i \<in> set (tx_inputs tx). is_rbf lib (tx_sequence i))"
    "0 < ?wit \<longleftrightarrow> (\<exists>i \<in> set (tx_inputs tx). tx_witness i \<noteq> [])"
    by (auto simp: filter_empty_conv)
  then have f2: "set ?f2 = {version_label (tx_version tx)} \<union>
       (if \<exists>i \<in> set (tx_inputs tx). is_rbf lib (tx_sequence i) then {''signals_rbf''} else {}) \<union>
       (if \<exists>i \<in> set (tx_inputs tx). tx_witness i \<noteq> [] then {''has_witness''} else {})"
    by (simp split: if_splits) blast
  have "cr_labels (transaction_properties lib tx prevouts) = ordered_labels (pp_found ?a2) PROPERTY_LABEL_ORDER"
    by (simp add: transaction_properties_def Let_def split: prod.splits)
  moreover have "set (pp_found ?a2) = set ?f2 \<union>
       (\<lambda>out. script_family lib (script_pubkey out)) ` set (tx_outputs tx) \<union>
       {l. \<exists>(i, input) \<in> set (enumerated (tx_inputs tx)). \<exists>p. prevout_get prevouts i = Some p \<and>
          (l = script_family lib (pf_script_pubkey p) \<or>
           l = ''has_taproot_annex'' \<and> is_p2tr lib (pf_script_pubkey p) \<and> has_annex_candidate input)}"
    unfolding fold_inputs_found fold_outputs_found by simp
  ultimately show ?thesis unfolding f2 by blast
qed

lemma version_label_order: "version_label v \<in> set PROPERTY_LABEL_ORDER"
  by (simp add: version_label_def PROPERTY_LABEL_ORDER_def)

lemma properties_result_ok: "result_ok (transaction_properties lib tx prevouts) properties_descriptor"
proof -
  obtain found where labels: "cr_labels (transaction_properties lib tx prevouts) =
      ordered_labels found PROPERTY_LABEL_ORDER" and v: "version_label (tx_version tx) \<in> set found"
    using properties_labels [of lib tx prevouts] by blast
  then have "version_label (tx_version tx) \<in> set (cr_labels (transaction_properties lib tx prevouts))"
    by (simp add: set_ordered version_label_order)
  then have "cr_labels (transaction_properties lib tx prevouts) \<noteq> []" by auto
  with labels show ?thesis
    by (auto simp: result_ok_def properties_shape declared_orders set_ordered descriptor_ids)
qed

section \<open>Transaction shape\<close>

lemma max_by_key_fold:
  "(let m = fold (\<lambda>y best. if f best \<le> f y then y else best) xs b
    in m \<in> insert b (set xs) \<and> f b \<le> f m \<and> (\<forall>y \<in> set xs. f y \<le> (f m :: 'k :: linorder)))"
proof (induction xs arbitrary: b)
  case (Cons x xs)
  let ?b = "if f b \<le> f x then x else b"
  have "f b \<le> f ?b" "f x \<le> f ?b" by auto
  with Cons.IH [of ?b] show ?case
    by (auto simp: Let_def intro: order_trans)
qed simp

lemma max_by_key_Some:
  assumes "max_by_key f xs = Some x"
  shows "x \<in> set xs \<and> (\<forall>y \<in> set xs. f y \<le> f x)"
proof (cases xs)
  case (Cons z zs)
  with assms max_by_key_fold [of f zs z] show ?thesis
    by (auto simp: max_by_key_def Let_def)
qed (use assms in \<open>simp add: max_by_key_def\<close>)

lemma max_by_key_None: "max_by_key f xs = None \<longleftrightarrow> xs = []"
  by (simp add: max_by_key_def split: list.splits)

lemma bt_ok_count_key: "bt_ok m \<Longrightarrow> bt_ok (count_key k m)"
  by (simp add: count_key_def bt_ok_or_insert)

lemma bt_get_count_key:
  "bt_ok m \<Longrightarrow> bt_get (count_key k m) k' = (if k' = k
     then Some (Suc (case bt_get m k of Some n \<Rightarrow> n | None \<Rightarrow> 0)) else bt_get m k')"
  by (auto simp: count_key_def bt_get_modify bt_get_or_insert split: option.splits)

definition value_count :: "u64 \<Rightarrow> tx_out list \<Rightarrow> nat" where
  "value_count v outs = length (filter (\<lambda>out. tx_value out = v) outs)"

lemma value_counts:
  defines "cnt \<equiv> \<lambda>outs m. fold (\<lambda>out m. if 0 < tx_value out then count_key (tx_value out) m else m) outs m"
  assumes "bt_ok m"
  shows "bt_ok (cnt outs m)"
    and "bt_get (cnt outs m) v = (if 0 < v \<and> 0 < value_count v outs
       then Some (value_count v outs + (case bt_get m v of Some n \<Rightarrow> n | None \<Rightarrow> 0)) else bt_get m v)"
proof -
  show "bt_ok (cnt outs m)"
    using assms(2) unfolding cnt_def by (induction outs arbitrary: m) (auto simp: bt_ok_count_key)
  show "bt_get (cnt outs m) v = (if 0 < v \<and> 0 < value_count v outs
       then Some (value_count v outs + (case bt_get m v of Some n \<Rightarrow> n | None \<Rightarrow> 0)) else bt_get m v)"
    using assms(2)
  proof (induction outs arbitrary: m)
    case Nil
    then show ?case by (simp add: cnt_def value_count_def)
  next
    case (Cons out outs)
    let ?m = "if 0 < tx_value out then count_key (tx_value out) m else m"
    have "cnt (out # outs) m = cnt outs ?m" by (simp add: cnt_def)
    moreover have "bt_ok ?m" using Cons.prems by (simp add: bt_ok_count_key)
    ultimately show ?case
      using Cons.IH [of ?m] Cons.prems
      by (cases "tx_value out = v") (auto simp: bt_get_count_key value_count_def split: option.splits)
  qed
qed

lemma most_repeated_at_least:
  assumes "0 < k"
  shows "(case most_repeated_nonzero_output tx of Some (_, n) \<Rightarrow> k \<le> n | None \<Rightarrow> False) \<longleftrightarrow>
    (\<exists>v. 0 < v \<and> k \<le> value_count v (tx_outputs tx))"
proof -
  let ?m = "fold (\<lambda>out m. if 0 < tx_value out then count_key (tx_value out) m else m) (tx_outputs tx) []"
  have ok: "bt_ok ?m" by (rule value_counts(1)) simp
  have get: "(v, n) \<in> set ?m \<longleftrightarrow> 0 < v \<and> 0 < n \<and> n = value_count v (tx_outputs tx)" for v n
    using value_counts(2) [of "[]" "tx_outputs tx" v]
    by (auto simp flip: bt_get_iff [OF ok])
  have "(case max_by_key (\<lambda>(v, n). (n, v)) ?m of Some (_, n) \<Rightarrow> k \<le> n | None \<Rightarrow> False) \<longleftrightarrow>
      (\<exists>(v, n) \<in> set ?m. k \<le> n)"
  proof (cases "max_by_key (\<lambda>(v, n). (n, v)) ?m")
    case None
    then have "?m = []" by (simp only: max_by_key_None)
    with None show ?thesis by (simp only:) simp
  next
    case (Some p)
    obtain v n where p: "p = (v, n)" by (cases p)
    from max_by_key_Some [OF Some] have mem: "(v, n) \<in> set ?m"
      and max: "\<And>e. e \<in> set ?m \<Longrightarrow> (case e of (v, n) \<Rightarrow> (n, v)) \<le> (n, v)"
      by (simp_all add: p)
    have "n' \<le> n" if "(v', n') \<in> set ?m" for v' n'
      using max [OF that] by (auto simp: less_eq_prod_simp)
    with Some mem show ?thesis by (auto simp: p) (blast intro: order_trans)
  qed
  also have "\<dots> \<longleftrightarrow> (\<exists>v. 0 < v \<and> k \<le> value_count v (tx_outputs tx))"
    using assms by (auto simp: get)
  finally show ?thesis by (simp add: most_repeated_nonzero_output_def)
qed

text \<open>The documented conditions of the four labels.\<close>

definition consolidation_spec :: "transaction \<Rightarrow> bool" where
  "consolidation_spec tx \<longleftrightarrow> 5 \<le> length (tx_inputs tx) \<and> tx_outputs tx \<noteq> [] \<and>
     5 * length (tx_outputs tx) \<le> length (tx_inputs tx)"

definition batch_payout_spec :: "transaction \<Rightarrow> bool" where
  "batch_payout_spec tx \<longleftrightarrow> 5 \<le> length (tx_outputs tx) \<and> tx_inputs tx \<noteq> [] \<and>
     5 * length (tx_inputs tx) \<le> length (tx_outputs tx)"

definition known_scripts :: "transaction \<Rightarrow> prevout_set \<Rightarrow> bytes list" where
  "known_scripts tx prevouts = List.map_filter
     (\<lambda>i. map_option pf_script_pubkey (prevout_get prevouts i)) [0..<length (tx_inputs tx)]"

definition coinjoin_spec :: "transaction \<Rightarrow> prevout_set \<Rightarrow> classification_result \<Rightarrow> bool" where
  "coinjoin_spec tx prevouts data \<longleftrightarrow>
     5 \<le> length (tx_inputs tx) \<and> 5 \<le> length (tx_outputs tx) \<and>
     (\<exists>v. 0 < v \<and> 3 \<le> value_count v (tx_outputs tx)) \<and>
     distinct (map script_pubkey (tx_outputs tx)) \<and>
     all_input_scripts_known tx prevouts \<and> distinct (known_scripts tx prevouts) \<and>
     set (cr_labels data) \<subseteq> {''no_detected_protocol''}"

definition shape_labels_spec :: "transaction \<Rightarrow> prevout_set \<Rightarrow> classification_result \<Rightarrow> string set" where
  "shape_labels_spec tx prevouts data =
     (if coinjoin_spec tx prevouts data then {''possible_coinjoin''} else {}) \<union>
     (if consolidation_spec tx then {''consolidation''} else {}) \<union>
     (if batch_payout_spec tx then {''batch_payout''} else {}) \<union>
     (if all_input_scripts_known tx prevouts \<and> \<not> coinjoin_spec tx prevouts data \<and>
         \<not> consolidation_spec tx \<and> \<not> batch_payout_spec tx then {''other_shape''} else {})"

lemma sat_mul_le: "b < usize_max \<Longrightarrow> sat_mul a 5 \<le> b \<longleftrightarrow> 5 * a \<le> b"
  by (auto simp: sat_mul_def min_def)

definition found_shapes :: "bool \<Rightarrow> bool \<Rightarrow> bool \<Rightarrow> bool \<Rightarrow> string bset" where
  "found_shapes c b j known =
     (let found = (if c then bs_insert ''consolidation'' [] else []);
          found = (if b then bs_insert ''batch_payout'' found else found);
          found = (if j then bs_insert ''possible_coinjoin'' found else found)
      in if found = [] \<and> known then bs_insert ''other_shape'' found else found)"

lemma bs_insert_not_Nil [simp]: "bs_insert x s \<noteq> []"
  by (metis insert_not_empty set_bs_insert set_empty)

lemma set_found_shapes:
  "set (found_shapes c b j known) =
     (if j then {''possible_coinjoin''} else {}) \<union> (if c then {''consolidation''} else {}) \<union>
     (if b then {''batch_payout''} else {}) \<union>
     (if known \<and> \<not> j \<and> \<not> c \<and> \<not> b then {''other_shape''} else {})"
  by (cases c; cases b; cases j; cases known) (simp_all add: found_shapes_def insert_commute)

lemma shape_found:
  fixes tx prevouts data
  assumes "length (tx_inputs tx) < usize_max" "length (tx_outputs tx) < usize_max"
  defines "found \<equiv> found_shapes (consolidation_spec tx) (batch_payout_spec tx)
    (coinjoin_spec tx prevouts data) (all_input_scripts_known tx prevouts)"
  shows "cr_labels (transaction_shape tx prevouts data) = ordered_labels found SHAPE_LABEL_ORDER"
    and "cr_primary_label (transaction_shape tx prevouts data) = find (\<lambda>l. l \<in> set found) SHAPE_LABEL_ORDER"
    and "set found = shape_labels_spec tx prevouts data"
proof -
  let ?n = "length (tx_inputs tx)"
  let ?m = "length (tx_outputs tx)"
  have c: "SHAPE_RATIO \<le> ?n \<and> 0 < ?m \<and> sat_mul ?m SHAPE_RATIO \<le> ?n \<longleftrightarrow> consolidation_spec tx"
    and b: "SHAPE_RATIO \<le> ?m \<and> 0 < ?n \<and> sat_mul ?n SHAPE_RATIO \<le> ?m \<longleftrightarrow> batch_payout_spec tx"
    using assms by (simp_all add: consolidation_spec_def batch_payout_spec_def SHAPE_RATIO_def sat_mul_le)
  have "(case most_repeated_nonzero_output tx of Some (_, n) \<Rightarrow> COINJOIN_MIN_EQUAL_OUTPUTS \<le> n | None \<Rightarrow> False)
      \<longleftrightarrow> (\<exists>v. 0 < v \<and> 3 \<le> value_count v (tx_outputs tx))"
    using most_repeated_at_least [of COINJOIN_MIN_EQUAL_OUTPUTS tx] by (simp add: COINJOIN_MIN_EQUAL_OUTPUTS_def)
  then have j: "COINJOIN_MIN_INPUTS \<le> ?n \<and> COINJOIN_MIN_OUTPUTS \<le> ?m \<and>
     (case most_repeated_nonzero_output tx of Some (_, n) \<Rightarrow> COINJOIN_MIN_EQUAL_OUTPUTS \<le> n | None \<Rightarrow> False) \<and>
     all_unique (map script_pubkey (tx_outputs tx)) \<and>
     (all_input_scripts_known tx prevouts \<and> all_unique (List.map_filter
            (\<lambda>i. map_option pf_script_pubkey (prevout_get prevouts i)) [0..<?n])) \<and>
     \<not> list_ex (\<lambda>l. l \<noteq> ''no_detected_protocol'') (cr_labels data) \<longleftrightarrow> coinjoin_spec tx prevouts data"
    by (auto simp: coinjoin_spec_def COINJOIN_MIN_INPUTS_def COINJOIN_MIN_OUTPUTS_def all_unique_def
        all_new_iff list_ex_iff known_scripts_def)
  show "cr_labels (transaction_shape tx prevouts data) = ordered_labels found SHAPE_LABEL_ORDER"
    "cr_primary_label (transaction_shape tx prevouts data) = find (\<lambda>l. l \<in> set found) SHAPE_LABEL_ORDER"
    by (simp_all only: transaction_shape_def Let_def result_case c b j found_def found_shapes_def)
  show "set found = shape_labels_spec tx prevouts data"
    by (simp only: found_def set_found_shapes shape_labels_spec_def)
qed

lemma shape_found_any:
  "\<exists>c b j. cr_labels (transaction_shape tx prevouts data) =
       ordered_labels (found_shapes c b j (all_input_scripts_known tx prevouts)) SHAPE_LABEL_ORDER \<and>
     cr_primary_label (transaction_shape tx prevouts data) =
       find (\<lambda>l. l \<in> set (found_shapes c b j (all_input_scripts_known tx prevouts))) SHAPE_LABEL_ORDER"
  unfolding transaction_shape_def Let_def result_case found_shapes_def by blast

lemma shape_state:
  "cr_classifier_id (transaction_shape tx prevouts data) = ''transaction_shape''"
  "cr_evidence (transaction_shape tx prevouts data) \<noteq> None"
  "cr_state (transaction_shape tx prevouts data) =
     (if all_input_scripts_known tx prevouts then Complete else Partial)"
  "cr_missing_facts (transaction_shape tx prevouts data) =
     (if all_input_scripts_known tx prevouts then [] else [''input_script_pubkeys''])"
  unfolding transaction_shape_def Let_def result_case by (simp_all add: classifier_ids)

lemma found_shapes_order: "set (found_shapes c b j known) \<subseteq> set SHAPE_LABEL_ORDER"
  by (auto simp: set_found_shapes SHAPE_LABEL_ORDER_def)

lemma found_shapes_known: "found_shapes c b j True \<noteq> []"
proof -
  have "set (found_shapes c b j True) \<noteq> {}" by (auto simp: set_found_shapes)
  then show ?thesis by auto
qed

lemma shape_result_ok: "result_ok (transaction_shape tx prevouts data) shape_descriptor"
proof -
  obtain c b j where l: "cr_labels (transaction_shape tx prevouts data) =
       ordered_labels (found_shapes c b j (all_input_scripts_known tx prevouts)) SHAPE_LABEL_ORDER"
    and p: "cr_primary_label (transaction_shape tx prevouts data) =
       find (\<lambda>l. l \<in> set (found_shapes c b j (all_input_scripts_known tx prevouts))) SHAPE_LABEL_ORDER"
    using shape_found_any by blast
  have "cr_labels (transaction_shape tx prevouts data) \<noteq> []" if "all_input_scripts_known tx prevouts"
    using that found_shapes_known [of c b j] found_shapes_order
    by (simp add: l ordered_Nil_iff)
  then show ?thesis
    unfolding result_ok_def shape_state declared_orders descriptor_ids
    using shape_state(2) [of tx prevouts data]
    by (auto simp: l p set_ordered split: option.splits dest!: find_in_set)
qed

section \<open>Data protocols\<close>

definition protocol_labels :: "string set" where
  "protocol_labels = {''inscription'', ''brc20'', ''runes'', ''stamps'', ''counterparty'', ''omni'',
     ''other_op_return''}"

definition data_ok :: "data_analysis \<Rightarrow> bool" where
  "data_ok a \<longleftrightarrow> set (da_labels a) \<subseteq> protocol_labels \<and>
     length (detections a) \<le> MAX_DETECTION_EVIDENCE \<and> (detections a = [] \<longleftrightarrow> da_labels a = [])"

lemma detect_labels [simp]: "set (da_labels (detect l e a)) = insert l (set (da_labels a))"
  by (simp add: detect_def Let_def)

lemma data_ok_detect: "data_ok a \<Longrightarrow> l \<in> protocol_labels \<Longrightarrow> data_ok (detect l e a)"
  by (auto simp: data_ok_def detect_def Let_def MAX_DETECTION_EVIDENCE_def)

lemma protocol_label_mem [simp]:
  "''inscription'' \<in> protocol_labels" "''brc20'' \<in> protocol_labels" "''runes'' \<in> protocol_labels"
  "''stamps'' \<in> protocol_labels" "''counterparty'' \<in> protocol_labels" "''omni'' \<in> protocol_labels"
  "''other_op_return'' \<in> protocol_labels"
  by (simp_all add: protocol_labels_def)

lemma data_ok_witness: "data_ok a \<Longrightarrow> data_ok (analyze_witness lib i w a)"
  by (auto simp: analyze_witness_def Let_def data_ok_detect split: option.splits)

lemma data_ok_op_return: "data_ok a \<Longrightarrow> data_ok (analyze_op_return lib key p a)"
  by (cases p) (simp add: analyze_op_return_def Let_def data_ok_detect)

lemma data_ok_stamps: "data_ok a \<Longrightarrow> data_ok (detect_stamps carriers key a)"
  by (simp add: detect_stamps_def Let_def data_ok_detect split: option.splits)

lemma data_ok_candidates: "data_ok a \<Longrightarrow> data_ok (try_candidates key cs a)"
proof (induction cs arbitrary: a)
  case (Cons c cs)
  then show ?case
    by (cases c) (simp add: data_ok_detect Let_def split: option.splits prod.splits)
qed simp

lemma data_ok_multisig: "data_ok a \<Longrightarrow> data_ok (analyze_multisig_carriers lib tx key a)"
  by (simp add: analyze_multisig_carriers_def detect_multisig_counterparty_def Let_def data_ok_stamps
      data_ok_candidates)

lemma data_ok_fold:
  "(\<And>x a. data_ok a \<Longrightarrow> data_ok (f x a)) \<Longrightarrow> data_ok a \<Longrightarrow> data_ok (fold f xs a)"
  by (induction xs arbitrary: a) auto

text \<open>The analysis before the negative label is added.\<close>

definition raw_analysis :: "rust_bitcoin \<Rightarrow> transaction \<Rightarrow> data_analysis" where
  "raw_analysis lib tx = analyze_multisig_carriers lib tx (arc4_key tx)
     (fold (analyze_op_return lib (arc4_key tx)) (enumerated (tx_outputs tx))
       (fold (\<lambda>(index, input). analyze_witness lib index (tx_witness input)) (enumerated (tx_inputs tx))
         \<lparr> da_labels = [], detections = [] \<rparr>))"

lemma data_analysis_of_raw: "data_analysis_of lib tx = (let a = raw_analysis lib tx in
    if da_labels a = [] then a\<lparr>da_labels := [''no_detected_protocol'']\<rparr> else a)"
  by (auto simp: data_analysis_of_def raw_analysis_def Let_def bs_insert_def insort_insert_key_def)

lemma data_ok_raw: "data_ok (raw_analysis lib tx)"
proof -
  have "data_ok \<lparr> da_labels = [], detections = [] \<rparr>" by (simp add: data_ok_def)
  then show ?thesis
    unfolding raw_analysis_def
    by (intro data_ok_multisig data_ok_fold data_ok_op_return) (auto simp: data_ok_witness split: prod.splits)
qed

lemma data_labels:
  "set (cr_labels (data_protocols lib tx)) =
     (if da_labels (raw_analysis lib tx) = [] then {''no_detected_protocol''}
      else set (da_labels (raw_analysis lib tx)))"
proof -
  have "protocol_labels \<subseteq> set DATA_LABEL_ORDER" "''no_detected_protocol'' \<in> set DATA_LABEL_ORDER"
    by (simp_all add: protocol_labels_def DATA_LABEL_ORDER_def)
  with data_ok_raw [of lib tx] show ?thesis
    by (auto simp: data_protocols_def data_analysis_of_raw set_ordered data_ok_def Let_def)
qed

lemma data_result_ok: "result_ok (data_protocols lib tx) data_descriptor"
proof -
  have order: "protocol_labels \<subseteq> set DATA_LABEL_ORDER" "''no_detected_protocol'' \<in> set DATA_LABEL_ORDER"
    by (simp_all add: protocol_labels_def DATA_LABEL_ORDER_def)
  have "set (cr_labels (data_protocols lib tx)) \<noteq> {}"
    by (simp add: data_labels)
  then have ne: "cr_labels (data_protocols lib tx) \<noteq> []" by auto
  have sub: "set (cr_labels (data_protocols lib tx)) \<subseteq> set DATA_LABEL_ORDER"
    using data_ok_raw [of lib tx] order by (auto simp: data_labels data_ok_def)
  have primary: "case cr_primary_label (data_protocols lib tx) of
      Some p \<Rightarrow> p \<in> set (cr_labels (data_protocols lib tx)) | None \<Rightarrow> True"
    by (auto simp: data_protocols_def Let_def set_ordered split: option.splits dest!: find_in_set)
  have rest: "cr_classifier_id (data_protocols lib tx) = ''data_protocols''"
    "cr_state (data_protocols lib tx) = Complete" "cr_missing_facts (data_protocols lib tx) = []"
    "cr_evidence (data_protocols lib tx) \<noteq> None" "distinct (cr_labels (data_protocols lib tx))"
    by (simp_all add: data_protocols_def Let_def classifier_ids)
  show ?thesis
    unfolding result_ok_def declared_orders descriptor_ids using ne sub primary rest by simp
qed

section \<open>Every classification is valid\<close>

lemma bip110_result_ok: "result_ok (bip110_result a) bip110_descriptor"
  by (cases "ba_status a") (simp_all add: result_ok_def bip110_result_def declared_orders descriptor_ids
      classifier_ids status_label_def Let_def)

lemma classify_valid: "validate_classifier_results txid (classify_transaction lib tx prevouts a) = Inr ()"
  by (simp add: validate_results_iff classify_transaction_def classifier_catalog_def Let_def
      properties_result_ok shape_result_ok data_result_ok bip110_result_ok)

text \<open>
  C32: The lenses always produce results that pass the catalog validation: whatever the
  transaction and the known prevouts, the four results come in catalog order, carry evidence,
  name only declared labels without repetition, have at least one label when complete, and name
  missing facts exactly when partial.
\<close>

theorem classify_transaction_valid:
  "validate_classifier_results txid (classify_transaction lib tx prevouts a) = Inr () \<and>
   list_all2 result_ok (classify_transaction lib tx prevouts a) classifier_catalog"
  using classify_valid [of txid lib tx prevouts a] by (simp add: validate_results_iff)

text \<open>
  C34: The transaction-shape labels are exactly the documented heuristics: a possible CoinJoin has
  at least five inputs and outputs, three equal nonzero outputs, no repeated script on either
  side, every input script known and no data protocol; consolidation and batch payout compare the
  counts five to one; and \<^verbatim>\<open>other_shape\<close>, a negative claim, is made only when every input script
  is known and no heuristic matched.
\<close>

theorem shape_labels_exact:
  assumes "length (tx_inputs tx) < usize_max" "length (tx_outputs tx) < usize_max"
  shows "set (cr_labels (transaction_shape tx prevouts data)) = shape_labels_spec tx prevouts data"
proof -
  have "set (found_shapes c b j k) \<inter> set SHAPE_LABEL_ORDER = set (found_shapes c b j k)" for c b j k
    using found_shapes_order by blast
  then show ?thesis
    by (simp only: shape_found(1) [OF assms] set_ordered) (simp only: shape_found(3) [OF assms])
qed

definition shape_example :: transaction where
  "shape_example = \<lparr> tx_version = 2,
     tx_inputs = replicate 5 \<lparr> previous_output = OutPoint (replicate 32 1) 0, script_sig = [],
       tx_sequence = 0, tx_witness = [] \<rparr>,
     tx_outputs = [\<lparr> tx_value = 7, script_pubkey = [0x51] \<rparr>] \<rparr>"

theorem shape_labels_exact_witness:
  "length (tx_inputs shape_example) < usize_max \<and> length (tx_outputs shape_example) < usize_max \<and>
   set (cr_labels (transaction_shape shape_example (prevouts_from_vec [])
     (bip110_result example_assessment))) = {''consolidation''}"
proof -
  have len: "length (tx_inputs shape_example) < usize_max" "length (tx_outputs shape_example) < usize_max"
    by (simp_all add: shape_example_def)
  have "shape_labels_spec shape_example (prevouts_from_vec []) (bip110_result example_assessment) =
      {''consolidation''}"
    by (simp add: shape_labels_spec_def coinjoin_spec_def consolidation_spec_def batch_payout_spec_def
        shape_example_def all_input_scripts_known_def prevouts_len_def prevouts_from_vec_def)
  with len shape_labels_exact [OF len, of "prevouts_from_vec []" "bip110_result example_assessment"] show ?thesis by simp
qed

text \<open>
  The properties lens reports exactly the observed labels: the version, replaceability and
  witness flags, the script family of every output and of every known input, and a Taproot annex
  exactly on a known P2TR input with an annex candidate. It is partial exactly when some input
  script is unknown.
\<close>

theorem properties_labels_exact:
  "set (cr_labels (transaction_properties lib tx prevouts)) =
     {version_label (tx_version tx)} \<union>
     (if list_ex (\<lambda>i. is_rbf lib (tx_sequence i)) (tx_inputs tx) then {''signals_rbf''} else {}) \<union>
     (if list_ex (\<lambda>i. tx_witness i \<noteq> []) (tx_inputs tx) then {''has_witness''} else {}) \<union>
     (\<lambda>out. script_family lib (script_pubkey out)) ` set (tx_outputs tx) \<union>
     {l. \<exists>i < length (tx_inputs tx). \<exists>p. prevout_get prevouts i = Some p \<and>
        (l = script_family lib (pf_script_pubkey p) \<or>
         l = ''has_taproot_annex'' \<and> is_p2tr lib (pf_script_pubkey p) \<and>
           has_annex_candidate (tx_inputs tx ! i))} \<and>
   (cr_state (transaction_properties lib tx prevouts) = Partial \<longleftrightarrow>
     list_ex (\<lambda>i. prevout_get prevouts i = None) [0..<length (tx_inputs tx)])"
proof -
  obtain found where l: "cr_labels (transaction_properties lib tx prevouts) =
      ordered_labels found PROPERTY_LABEL_ORDER"
    and f: "set found = {version_label (tx_version tx)} \<union>
       (if \<exists>i \<in> set (tx_inputs tx). is_rbf lib (tx_sequence i) then {''signals_rbf''} else {}) \<union>
       (if \<exists>i \<in> set (tx_inputs tx). tx_witness i \<noteq> [] then {''has_witness''} else {}) \<union>
       (\<lambda>out. script_family lib (script_pubkey out)) ` set (tx_outputs tx) \<union>
       {l. \<exists>(i, input) \<in> set (enumerated (tx_inputs tx)). \<exists>p. prevout_get prevouts i = Some p \<and>
          (l = script_family lib (pf_script_pubkey p) \<or>
           l = ''has_taproot_annex'' \<and> is_p2tr lib (pf_script_pubkey p) \<and> has_annex_candidate input)}"
    using properties_labels [of lib tx prevouts] by blast
  have family: "script_family lib x \<in> set PROPERTY_LABEL_ORDER" for x
    by (simp add: script_family_def PROPERTY_LABEL_ORDER_def)
  have "''signals_rbf'' \<in> set PROPERTY_LABEL_ORDER" "''has_witness'' \<in> set PROPERTY_LABEL_ORDER"
    "''has_taproot_annex'' \<in> set PROPERTY_LABEL_ORDER"
    by (simp_all add: PROPERTY_LABEL_ORDER_def)
  then have sub: "set found \<subseteq> set PROPERTY_LABEL_ORDER"
    unfolding f using family version_label_order by (auto split: if_splits)
  have pairs: "(\<exists>(i, input) \<in> set (enumerated (tx_inputs tx)). Q i input) \<longleftrightarrow>
      (\<exists>i < length (tx_inputs tx). Q i (tx_inputs tx ! i))" for Q
    by (auto simp: enumerated_mem)
  show ?thesis
  proof
    have "set (cr_labels (transaction_properties lib tx prevouts)) = set found"
      using sub by (auto simp: l set_ordered)
    then show "set (cr_labels (transaction_properties lib tx prevouts)) =
     {version_label (tx_version tx)} \<union>
     (if list_ex (\<lambda>i. is_rbf lib (tx_sequence i)) (tx_inputs tx) then {''signals_rbf''} else {}) \<union>
     (if list_ex (\<lambda>i. tx_witness i \<noteq> []) (tx_inputs tx) then {''has_witness''} else {}) \<union>
     (\<lambda>out. script_family lib (script_pubkey out)) ` set (tx_outputs tx) \<union>
     {l. \<exists>i < length (tx_inputs tx). \<exists>p. prevout_get prevouts i = Some p \<and>
        (l = script_family lib (pf_script_pubkey p) \<or>
         l = ''has_taproot_annex'' \<and> is_p2tr lib (pf_script_pubkey p) \<and>
           has_annex_candidate (tx_inputs tx ! i))}"
      by (simp only: f pairs list_ex_iff)
    show "cr_state (transaction_properties lib tx prevouts) = Partial \<longleftrightarrow>
        list_ex (\<lambda>i. prevout_get prevouts i = None) [0..<length (tx_inputs tx)]"
      by (auto simp: properties_shape list_ex_iff)
  qed
qed

end
