(* ===== verification/Data_Protocol_Props.thy ===== *)
theory Data_Protocol_Props
  imports Classifier_Props
begin

text \<open>
  The data-protocol lens and the exact structure in depth: the streaming BRC-20 matcher finds
  exactly the marker in the envelope body, ARC4-obfuscated Counterparty payloads are recognised,
  every \<^verbatim>\<open>OP_RETURN\<close> output is named, the retained detections are bounded, and the saturating
  sums of the transaction structure never reach a reader.
\<close>

section \<open>BRC-20\<close>

lemma sublist_snoc: "sublist m (xs @ [b]) \<longleftrightarrow> sublist m xs \<or> suffix m (xs @ [b])"
proof
  assume "sublist m (xs @ [b])"
  then obtain pre post where eq: "xs @ [b] = pre @ m @ post" by (auto simp: sublist_def)
  show "sublist m xs \<or> suffix m (xs @ [b])"
  proof (cases post rule: rev_cases)
    case Nil
    with eq show ?thesis by (auto simp: suffix_def)
  next
    case (snoc p q)
    with eq have "xs = pre @ m @ p" by simp
    then show ?thesis by (auto simp: sublist_def)
  qed
next
  assume "sublist m xs \<or> suffix m (xs @ [b])"
  then show "sublist m (xs @ [b])"
  proof
    assume "sublist m xs"
    then obtain pre post where "xs = pre @ m @ post" by (auto simp: sublist_def)
    then have "xs @ [b] = pre @ m @ (post @ [b])" by simp
    then show ?thesis unfolding sublist_def by blast
  qed (rule suffix_imp_sublist)
qed

lemma suffix_drop_iff: "length m \<le> length xs \<Longrightarrow> suffix m xs \<longleftrightarrow> drop (length xs - length m) xs = m"
  by (metis append_eq_conv_conj append_take_drop_id diff_diff_cancel length_append length_drop suffix_def
      suffix_drop diff_add_inverse2)

lemma drop_is_suffix_iff:
  assumes "m \<noteq> []"
  shows "drop (length xs - length m) xs = m \<longleftrightarrow> suffix m xs"
proof (cases "length m \<le> length xs")
  case True
  then show ?thesis by (simp add: suffix_drop_iff)
next
  case False
  then have "\<not> suffix m xs" by (auto dest: suffix_length_le)
  moreover have "drop (length xs - length m) xs \<noteq> m" using False by auto
  ultimately show ?thesis by blast
qed

lemma marker_length: "length BRC20_PROTOCOL_MARKER = 12"
  by (simp add: BRC20_PROTOCOL_MARKER_def ascii_def)

text \<open>The sliding window holds the last twelve bytes, and the flag remembers the marker.\<close>

lemma push_body_bytes:
  "fold push_body_byte bs \<lparr> body_window = [], brc20_marker = False \<rparr> =
     \<lparr> body_window = drop (length bs - 12) bs, brc20_marker = sublist BRC20_PROTOCOL_MARKER bs \<rparr>"
proof (induction bs rule: rev_induct)
  case Nil
  show ?case using marker_length by (auto simp: sublist_Nil_right)
next
  case (snoc b bs)
  let ?w = "drop (length bs - 12) bs"
  have window: "(if length ?w = 12 then drop 1 ?w else ?w) @ [b] = drop (length (bs @ [b]) - 12) (bs @ [b])"
  proof (cases "12 \<le> length bs")
    case True
    then have "length bs - 11 = Suc (length bs - 12)" by simp
    with True show ?thesis by simp
  qed simp
  have "drop (length (bs @ [b]) - 12) (bs @ [b]) = BRC20_PROTOCOL_MARKER \<longleftrightarrow>
      suffix BRC20_PROTOCOL_MARKER (bs @ [b])"
    using drop_is_suffix_iff [of BRC20_PROTOCOL_MARKER "bs @ [b]"] marker_length by fastforce
  then have "push_body_byte b \<lparr> body_window = ?w, brc20_marker = sublist BRC20_PROTOCOL_MARKER bs \<rparr> =
      \<lparr> body_window = drop (length (bs @ [b]) - 12) (bs @ [b]),
        brc20_marker = sublist BRC20_PROTOCOL_MARKER (bs @ [b]) \<rparr>"
    unfolding sublist_snoc push_body_byte_def Let_def marker_length ord_envelope.simps window by simp
  then show ?case
    by (simp only: fold_append comp_apply snoc fold_simps)
qed

lemma push_body_fold:
  "push_body b (fold push_body_byte bs e) =
     fold push_body_byte (bs @ filter (\<lambda>b. \<not> is_ascii_whitespace b) b) e"
  by (simp add: push_body_def)

text \<open>The pushes of an envelope that belong to its body.\<close>

fun body_pushes :: "bool \<Rightarrow> instruction list \<Rightarrow> bytes list" where
  "body_pushes in_body [] = []"
| "body_pushes in_body (Op c # rest) = []"
| "body_pushes in_body (PushBytes b # rest) =
     (if in_body then b # body_pushes True rest
      else if b = [] then body_pushes True rest
      else (case rest of PushBytes _ # rest \<Rightarrow> body_pushes False rest | _ \<Rightarrow> []))"

lemma envelope_loop_body:
  "envelope_loop in_body is (fold push_body_byte bs e) =
     fold push_body_byte (bs @ filter (\<lambda>b. \<not> is_ascii_whitespace b) (concat (body_pushes in_body is))) e"
proof (induction in_body "is" arbitrary: bs rule: body_pushes.induct)
  case (3 in_body b rest)
  show ?case
  proof (cases in_body)
    case True
    then show ?thesis using "3.IH"(1) by (simp add: push_body_fold del: fold_append)
  next
    case not_body: False
    show ?thesis
    proof (cases "b = []")
      case True
      then show ?thesis using "3.IH"(2) [OF not_body] not_body by (simp del: fold_append)
    next
      case False
      show ?thesis
      proof (cases rest)
        case (Cons i tail)
        then show ?thesis
          using "3.IH"(3) [OF not_body False Cons] not_body False
          by (cases i) (simp_all del: fold_append)
      qed (use not_body False in simp)
    qed
  qed
qed simp_all

text \<open>The instructions after the first envelope header of a script.\<close>

definition envelope_tail :: "rust_bitcoin \<Rightarrow> bytes \<Rightarrow> instruction list option" where
  "envelope_tail lib script = (case decoded_instructions lib script of
     None \<Rightarrow> None
   | Some is \<Rightarrow> map_option (\<lambda>start. drop (start + 3) is) (position is_envelope_header (windows 3 is)))"

text \<open>
  C35: The streaming BRC-20 detector, which keeps a window of twelve bytes over the pushes of an
  inscription body, fires exactly when the body, with its pushes joined and its whitespace
  removed, contains the marker, however the pushes split it.
\<close>

theorem brc20_matches_joined_body:
  "map_option brc20_marker (parse_ord_envelope lib script) =
     map_option (\<lambda>tail. sublist BRC20_PROTOCOL_MARKER
        (filter (\<lambda>b. \<not> is_ascii_whitespace b) (concat (body_pushes False tail)))) (envelope_tail lib script)"
proof -
  have "brc20_marker (envelope_loop False is \<lparr> body_window = [], brc20_marker = False \<rparr>) =
      sublist BRC20_PROTOCOL_MARKER (filter (\<lambda>b. \<not> is_ascii_whitespace b) (concat (body_pushes False is)))" for "is"
    using envelope_loop_body [of False "is" "[]" "\<lparr> body_window = [], brc20_marker = False \<rparr>"]
    by (simp add: push_body_bytes)
  then show ?thesis
    by (cases "decoded_instructions lib script")
      (auto simp: parse_ord_envelope_def envelope_tail_def option.map_comp comp_def
        split: option.splits bind_splits)
qed

section \<open>Detections only accumulate\<close>

lemma witness_labels_grow: "set (da_labels a) \<subseteq> set (da_labels (analyze_witness lib i w a))"
  by (auto simp: analyze_witness_def Let_def split: option.splits)

lemma op_return_labels_grow: "set (da_labels a) \<subseteq> set (da_labels (analyze_op_return lib key p a))"
  by (cases p) (auto simp: analyze_op_return_def Let_def)

lemma candidates_labels_grow: "set (da_labels a) \<subseteq> set (da_labels (try_candidates key cs a))"
proof (induction cs arbitrary: a)
  case (Cons c cs)
  obtain outputs data where c: "c = (outputs, data)" by (cases c)
  show ?case
  proof (cases "decode_candidate key data")
    case None
    then show ?thesis using Cons by (simp add: c)
  next
    case (Some p)
    then show ?thesis by (cases p) (auto simp: c Let_def split: option.splits)
  qed
qed simp

lemma multisig_labels_grow: "set (da_labels a) \<subseteq> set (da_labels (analyze_multisig_carriers lib tx key a))"
proof -
  have stamps: "set (da_labels a) \<subseteq> set (da_labels (detect_stamps carriers key a))" for carriers
    by (auto simp: detect_stamps_def Let_def split: option.splits)
  have "set (da_labels b) \<subseteq> set (da_labels (detect_multisig_counterparty carriers key b))"
    for carriers b
    unfolding detect_multisig_counterparty_def Let_def by (simp add: candidates_labels_grow del: try_candidates.simps)
  from subset_trans [OF stamps this] show ?thesis
    by (simp add: analyze_multisig_carriers_def Let_def)
qed

lemma fold_labels_grow:
  "(\<And>x a. set (da_labels a) \<subseteq> set (da_labels (f x a))) \<Longrightarrow> set (da_labels a) \<subseteq> set (da_labels (fold f xs a))"
  by (induction xs arbitrary: a) (simp, force)

lemma fold_reports:
  assumes grow: "\<And>x a. set (da_labels a) \<subseteq> set (da_labels (f x a))"
    and x: "x \<in> set xs" and l: "\<And>a. l \<in> set (da_labels (f x a))"
  shows "l \<in> set (da_labels (fold f xs a))"
proof -
  from x obtain ys zs where xs: "xs = ys @ x # zs" by (auto simp: in_set_conv_decomp)
  have "l \<in> set (da_labels (f x (fold f ys a)))" by (rule l)
  moreover have "set (da_labels (f x (fold f ys a))) \<subseteq> set (da_labels (fold f zs (f x (fold f ys a))))"
    using grow by (rule fold_labels_grow)
  ultimately show ?thesis by (auto simp: xs)
qed

text \<open>What one \<^verbatim>\<open>OP_RETURN\<close> output is called.\<close>

definition op_return_label :: "rust_bitcoin \<Rightarrow> bytes option \<Rightarrow> bytes \<Rightarrow> string" where
  "op_return_label lib key spk =
     (let payload = op_return_payload lib spk in
      if starts_with spk [0x6a, 0x5d] then ''runes''
      else if 8 \<le> length payload \<and>
          (case key of Some k \<Rightarrow> starts_with (arc4_apply k payload) CNTRPRTY_PREFIX | None \<Rightarrow> False)
      then ''counterparty''
      else if starts_with payload OMNI_PREFIX then ''omni'' else ''other_op_return'')"

lemma cntrprty_length: "length CNTRPRTY_PREFIX = 8"
  by (simp add: CNTRPRTY_PREFIX_def ascii_def)

lemma analyze_op_return_label:
  "is_op_return lib (script_pubkey out) \<Longrightarrow>
     set (da_labels (analyze_op_return lib key (i, out) a)) =
       insert (op_return_label lib key (script_pubkey out)) (set (da_labels a))"
  by (auto simp: analyze_op_return_def op_return_label_def Let_def cntrprty_length cntrprty_offset_def
      split: option.splits if_splits)

lemma op_return_reported:
  assumes "out \<in> set (tx_outputs tx)" "is_op_return lib (script_pubkey out)"
  shows "op_return_label lib (arc4_key tx) (script_pubkey out) \<in> set (cr_labels (data_protocols lib tx))"
proof -
  from assms(1) obtain i where "i < length (tx_outputs tx)" "tx_outputs tx ! i = out"
    by (auto simp: in_set_conv_nth)
  then have "(i, out) \<in> set (enumerated (tx_outputs tx))" by (simp add: enumerated_mem)
  then have "op_return_label lib (arc4_key tx) (script_pubkey out) \<in> set (da_labels
      (fold (analyze_op_return lib (arc4_key tx)) (enumerated (tx_outputs tx)) a))" for a
    by (rule fold_reports [OF op_return_labels_grow]) (simp add: analyze_op_return_label [OF assms(2)])
  then have "op_return_label lib (arc4_key tx) (script_pubkey out) \<in> set (da_labels (raw_analysis lib tx))"
    unfolding raw_analysis_def using multisig_labels_grow by blast
  then show ?thesis by (auto simp: data_labels)
qed

text \<open>
  Every \<^verbatim>\<open>OP_RETURN\<close> output is named: the lens reports its protocol (runes, Counterparty or
  Omni, tried in this order) or \<^verbatim>\<open>other_op_return\<close>, so the negative label is never given to a
  transaction with an \<^verbatim>\<open>OP_RETURN\<close> output.
\<close>

theorem op_return_is_named:
  assumes "out \<in> set (tx_outputs tx)" "is_op_return lib (script_pubkey out)"
  shows "op_return_label lib (arc4_key tx) (script_pubkey out) \<in> set (cr_labels (data_protocols lib tx)) \<and>
    ''no_detected_protocol'' \<notin> set (cr_labels (data_protocols lib tx))"
proof -
  have mem: "op_return_label lib (arc4_key tx) (script_pubkey out) \<in> set (cr_labels (data_protocols lib tx))"
    by (rule op_return_reported [OF assms])
  have "op_return_label lib (arc4_key tx) (script_pubkey out) \<noteq> ''no_detected_protocol''"
    by (simp add: op_return_label_def Let_def)
  moreover have "''no_detected_protocol'' \<notin> protocol_labels"
    by (simp add: protocol_labels_def)
  ultimately have "''no_detected_protocol'' \<notin> set (cr_labels (data_protocols lib tx))"
    using mem data_ok_raw [of lib tx] by (auto simp: data_labels data_ok_def split: if_splits)
  with mem show ?thesis ..
qed

section \<open>Counterparty payloads\<close>

text \<open>What a Counterparty encoder puts behind \<^verbatim>\<open>OP_RETURN\<close>.\<close>

definition counterparty_payload :: "txid \<Rightarrow> bytes \<Rightarrow> bytes" where
  "counterparty_payload seed message = arc4_apply (rev seed) (CNTRPRTY_PREFIX @ message)"

text \<open>
  C36: What a Counterparty encoder writes is recognised: an \<^verbatim>\<open>OP_RETURN\<close> output whose payload is the
  prefix and a message, obfuscated with ARC4 under the first input's txid in display order, gets
  the label \<^verbatim>\<open>counterparty\<close>, whatever the message, unless it is a runestone.
\<close>

theorem counterparty_roundtrip:
  assumes "tx_inputs tx = input # inputs" and "out \<in> set (tx_outputs tx)"
    and "is_op_return lib (script_pubkey out)" and "\<not> starts_with (script_pubkey out) [0x6a, 0x5d]"
    and "op_return_payload lib (script_pubkey out) =
      counterparty_payload (op_txid (previous_output input)) message"
  shows "''counterparty'' \<in> set (cr_labels (data_protocols lib tx))"
proof -
  let ?key = "rev (op_txid (previous_output input))"
  have "arc4_key tx = Some ?key" using assms(1) by (simp add: arc4_key_def)
  moreover have "arc4_apply ?key (op_return_payload lib (script_pubkey out)) = CNTRPRTY_PREFIX @ message"
    by (simp add: assms(5) counterparty_payload_def arc4_twice)
  moreover have "8 \<le> length (op_return_payload lib (script_pubkey out))"
    by (simp add: assms(5) counterparty_payload_def arc4_length cntrprty_length)
  ultimately have "op_return_label lib (arc4_key tx) (script_pubkey out) = ''counterparty''"
    using assms(4) by (simp add: op_return_label_def starts_with_def)
  with op_return_reported [OF assms(2,3)] show ?thesis by simp
qed

section \<open>Bounded evidence\<close>

text \<open>
  However large the transaction, the retained detections are at most sixteen, and there is
  one exactly when a protocol was detected.
\<close>

theorem detections_bounded:
  "cr_evidence (data_protocols lib tx) =
     Some (jobj [(''detections'', JArr (detections (data_analysis_of lib tx)))]) \<and>
   length (detections (data_analysis_of lib tx)) \<le> 16 \<and>
   (detections (data_analysis_of lib tx) = [] \<longleftrightarrow>
      cr_labels (data_protocols lib tx) = [''no_detected_protocol''])"
proof (intro conjI)
  show "cr_evidence (data_protocols lib tx) =
     Some (jobj [(''detections'', JArr (detections (data_analysis_of lib tx)))])"
    by (simp add: data_protocols_def Let_def)
  show "length (detections (data_analysis_of lib tx)) \<le> 16"
    using data_ok_raw [of lib tx] by (simp add: data_analysis_of_raw data_ok_def MAX_DETECTION_EVIDENCE_def Let_def)
  have "detections (data_analysis_of lib tx) = [] \<longleftrightarrow> da_labels (raw_analysis lib tx) = []"
    using data_ok_raw [of lib tx] by (simp add: data_analysis_of_raw data_ok_def Let_def)
  also have "\<dots> \<longleftrightarrow> cr_labels (data_protocols lib tx) = [''no_detected_protocol'']"
  proof
    assume "da_labels (raw_analysis lib tx) = []"
    then show "cr_labels (data_protocols lib tx) = [''no_detected_protocol'']"
      by (simp add: data_protocols_def data_analysis_of_raw Let_def ordered_labels_def DATA_LABEL_ORDER_def)
  next
    assume "cr_labels (data_protocols lib tx) = [''no_detected_protocol'']"
    then have "''no_detected_protocol'' \<in> set (cr_labels (data_protocols lib tx))" by simp
    then show "da_labels (raw_analysis lib tx) = []"
      using data_ok_raw [of lib tx]
      by (auto simp: data_labels data_ok_def protocol_labels_def split: if_splits)
  qed
  finally show "detections (data_analysis_of lib tx) = [] \<longleftrightarrow>
      cr_labels (data_protocols lib tx) = [''no_detected_protocol'']" .
qed

section \<open>Exact structure\<close>

definition payload_total :: "rust_bitcoin \<Rightarrow> tx_out list \<Rightarrow> nat" where
  "payload_total lib outs = sum_list (map (\<lambda>out. if is_op_return lib (script_pubkey out)
     then length (op_return_payload lib (script_pubkey out)) else 0) outs)"

definition sats_total :: "tx_out list \<Rightarrow> nat" where
  "sats_total outs = sum_list (map (\<lambda>out. unat (tx_value out)) outs)"

lemma add_output_fold:
  "unat (fst (fold (add_output lib) outs p)) = min (unat (fst p) + payload_total lib outs) usize_max \<and>
   unat (snd (fold (add_output lib) outs p)) = min (unat (snd p) + sats_total outs) usize_max"
proof (induction outs arbitrary: p)
  case Nil
  have "unat x \<le> usize_max" for x :: u64 using unsigned_less [of x, where 'a = nat] by simp
  then show ?case by (simp add: payload_total_def sats_total_def)
next
  case (Cons out outs)
  obtain r v where p: "p = (r, v)" by (cases p)
  have le: "unat x \<le> usize_max" for x :: u64 using unsigned_less [of x, where 'a = nat] by simp
  show ?case
    using Cons.IH [of "add_output lib out p"]
    by (auto simp: p add_output_def Let_def unat_sat_add64 unat_u64_of_usize payload_total_def
        sats_total_def min_def)
qed

lemma json_safe_saturated:
  "unat w = min n usize_max \<Longrightarrow> json_safe w \<longleftrightarrow> n < 2 ^ 53"
  by (auto simp: json_safe_def min_def split: if_splits)

text \<open>
  The structure of a transaction is exact or absent: it is derived exactly when there is an
  input and an output and every count and sum, taken over the integers, is below \<open>2^53\<close>, and it
  then holds those sums. The saturating arithmetic never lets a clipped value through.
\<close>

theorem structure_is_exact:
  "structure_of lib tx = Inr st \<longleftrightarrow>
     unat (ts_input_count st) = length (tx_inputs tx) \<and> unat (ts_output_count st) = length (tx_outputs tx) \<and>
     unat (op_return_bytes st) = payload_total lib (tx_outputs tx) \<and>
     unat (output_sats st) = sats_total (tx_outputs tx) \<and>
     unat (witness_bytes st) = total_size lib tx - base_size lib tx \<and>
     tx_inputs tx \<noteq> [] \<and> tx_outputs tx \<noteq> [] \<and>
     list_all (\<lambda>n. n < 2 ^ 53) [length (tx_inputs tx), length (tx_outputs tx),
       payload_total lib (tx_outputs tx), sats_total (tx_outputs tx), total_size lib tx - base_size lib tx]"
proof -
  let ?sums = "fold (add_output lib) (tx_outputs tx) (0, 0)"
  let ?w = "u64_of_usize (sat_sub (total_size lib tx) (base_size lib tx))"
  have fstsum: "unat (fst ?sums) = min (payload_total lib (tx_outputs tx)) usize_max"
    and sndsum: "unat (snd ?sums) = min (sats_total (tx_outputs tx)) usize_max"
    using add_output_fold [of lib "tx_outputs tx" "(0, 0)"] by simp_all
  have w: "unat ?w = min (total_size lib tx - base_size lib tx) usize_max"
    by (simp add: unat_u64_of_usize sat_sub_def)
  have counts: "unat (u64_of_usize (length xs)) = min (length xs) usize_max" for xs :: "'x list"
    by (simp add: unat_u64_of_usize)
  note safe = json_safe_saturated [OF fstsum] json_safe_saturated [OF sndsum] json_safe_saturated [OF w]
    json_safe_saturated [OF counts]
  have exact: "w = v \<longleftrightarrow> unat v = n" if "unat w = min n usize_max" "n < 2 ^ 53" for w v :: u64 and n
    using that by (auto simp: word_unat_eq_iff)
  have "structure_of lib tx = Inr st \<longleftrightarrow>
      st = \<lparr> ts_input_count = u64_of_usize (length (tx_inputs tx)),
        ts_output_count = u64_of_usize (length (tx_outputs tx)), op_return_bytes = fst ?sums,
        output_sats = snd ?sums, witness_bytes = ?w \<rparr> \<and>
      tx_inputs tx \<noteq> [] \<and> tx_outputs tx \<noteq> [] \<and>
      list_all (\<lambda>n. n < 2 ^ 53) [length (tx_inputs tx), length (tx_outputs tx),
       payload_total lib (tx_outputs tx), sats_total (tx_outputs tx), total_size lib tx - base_size lib tx]"
    by (simp add: structure_of_def Let_def case_prod_unfold structure_new_Inr_iff safe)
  also have "\<dots> \<longleftrightarrow> unat (ts_input_count st) = length (tx_inputs tx) \<and> unat (ts_output_count st) = length (tx_outputs tx) \<and>
     unat (op_return_bytes st) = payload_total lib (tx_outputs tx) \<and>
     unat (output_sats st) = sats_total (tx_outputs tx) \<and>
     unat (witness_bytes st) = total_size lib tx - base_size lib tx \<and>
     tx_inputs tx \<noteq> [] \<and> tx_outputs tx \<noteq> [] \<and>
     list_all (\<lambda>n. n < 2 ^ 53) [length (tx_inputs tx), length (tx_outputs tx),
       payload_total lib (tx_outputs tx), sats_total (tx_outputs tx), total_size lib tx - base_size lib tx]"
    using exact [OF fstsum, of "op_return_bytes st"] exact [OF sndsum, of "output_sats st"]
      exact [OF w, of "witness_bytes st"] exact [OF counts, of "tx_inputs tx" "ts_input_count st"]
      exact [OF counts, of "tx_outputs tx" "ts_output_count st"]
    by (cases st) auto
  finally show ?thesis .
qed

section \<open>An example carrier\<close>

lemma reference_single_push:
  assumes "length d = 9"
  shows "op_return_payload reference_bitcoin (0x6a # 0x09 # d) = d"
proof -
  have "reference_decode 0 (0x09 # d) = [Some (0, PushBytes d)]"
    using assms by (simp add: push_width_def split_push_def Let_def)
  then show ?thesis
    by (simp add: op_return_payload_def decoded_instructions_def reference_bitcoin_def collect_options_Some_iff)
qed

definition carrier_example :: transaction where
  "carrier_example = \<lparr> tx_version = 2,
     tx_inputs = [\<lparr> previous_output = OutPoint (replicate 32 7) 1, script_sig = [], tx_sequence = 0,
       tx_witness = [] \<rparr>],
     tx_outputs = [\<lparr> tx_value = 0,
       script_pubkey = 0x6a # 0x09 # counterparty_payload (replicate 32 7) [0x2a] \<rparr>] \<rparr>"

lemma carrier_example_facts:
  defines "out \<equiv> \<lparr> tx_value = 0, script_pubkey = 0x6a # 0x09 # counterparty_payload (replicate 32 7) [0x2a] \<rparr>"
  shows "tx_inputs carrier_example = [\<lparr> previous_output = OutPoint (replicate 32 7) 1, script_sig = [],
      tx_sequence = 0, tx_witness = [] \<rparr>]"
    and "out \<in> set (tx_outputs carrier_example)"
    and "is_op_return reference_bitcoin (script_pubkey out)"
    and "\<not> starts_with (script_pubkey out) [0x6a, 0x5d]"
    and "op_return_payload reference_bitcoin (script_pubkey out) =
      counterparty_payload (op_txid (OutPoint (replicate 32 7) 1)) [0x2a]"
proof -
  have "length (counterparty_payload (replicate 32 7) [0x2a]) = 9"
    by (simp add: counterparty_payload_def arc4_length cntrprty_length)
  then show "op_return_payload reference_bitcoin (script_pubkey out) =
      counterparty_payload (op_txid (OutPoint (replicate 32 7) 1)) [0x2a]"
    by (simp add: out_def reference_single_push)
qed (simp_all add: carrier_example_def out_def starts_with_def reference_bitcoin_def)

theorem counterparty_roundtrip_witness:
  "''counterparty'' \<in> set (cr_labels (data_protocols reference_bitcoin carrier_example))"
  using counterparty_roundtrip [OF carrier_example_facts(1-4), of "[0x2a]"] carrier_example_facts(5)
  by simp

theorem op_return_is_named_witness:
  "''no_detected_protocol'' \<notin> set (cr_labels (data_protocols reference_bitcoin carrier_example))"
  using op_return_is_named [OF carrier_example_facts(2,3)] by blast

end
