(* ===== verification/Evidence.thy ===== *)
theory Evidence
  imports Bip110_Policy Data_Protocol_Props
begin

text \<open>
  From evaluator evidence to a published record: \<^verbatim>\<open>classification_from_evidence\<close> of
  \<^verbatim>\<open>src/classification.rs\<close>, which counts and truncates the evidence of each rule and derives the
  compact assessment, and the record \<^verbatim>\<open>classify_ready\<close> assembles for one transaction. The
  theorems show that such a record always passes \<^verbatim>\<open>validate_classification\<close>, and relate its status
  to the policy verdicts.
\<close>

section \<open>The code\<close>

definition public_rule_id :: "rule_id \<Rightarrow> bip110_rule_id" where
  "public_rule_id r = (case r of
     OutputSize \<Rightarrow> PubOutputSize | ElementSize \<Rightarrow> PubElementSize
   | UndefinedVersion \<Rightarrow> PubUndefinedVersion | TaprootAnnex \<Rightarrow> PubTaprootAnnex
   | ControlBlockSize \<Rightarrow> PubControlBlockSize | OpSuccess \<Rightarrow> PubOpSuccess
   | TapscriptOpIf \<Rightarrow> PubTapscriptOpIf)"

text \<open>The closure of the loop: it pushes to the two vectors and returns the detail.\<close>

definition rule_detail_of ::
    "rule_outcome \<Rightarrow> bip110_rule_id list \<times> bip110_rule_id list \<Rightarrow>
     bip110_rule_detail \<times> (bip110_rule_id list \<times> bip110_rule_id list)" where
  "rule_detail_of out = (\<lambda>(violated, unknown).
     let rule = public_rule_id (ro_rule out);
         number = public_rule_number rule;
         ((verdict, evidence, missing), violated, unknown) = (case ro_verdict out of
             Pass \<Rightarrow> ((RulePass, [], []), violated, unknown)
           | Violate evidence missing \<Rightarrow>
               ((RuleViolate, evidence, missing), violated @ [rule],
                if missing \<noteq> [] then unknown @ [rule] else unknown)
           | Unknown missing \<Rightarrow> ((RuleUnknown, [], missing), violated, unknown @ [rule]))
     in (\<lparr> rd_rule = rule, rd_number = number, rd_verdict = verdict,
           evidence_count = u64_of_usize (length evidence),
           rd_evidence = take MAX_BIP110_DETAIL_EXEMPLARS_PER_RULE evidence,
           missing_count = u64_of_usize (length missing),
           rd_missing = take MAX_BIP110_DETAIL_EXEMPLARS_PER_RULE missing \<rparr>, violated, unknown))"

fun rule_details ::
    "rule_outcome list \<Rightarrow> bip110_rule_id list \<times> bip110_rule_id list \<Rightarrow>
     bip110_rule_detail list \<times> (bip110_rule_id list \<times> bip110_rule_id list)" where
  "rule_details [] acc = ([], acc)"
| "rule_details (out # outs) acc =
     (let (detail, acc) = rule_detail_of out acc; (details, acc) = rule_details outs acc
      in (detail # details, acc))"

definition classification_from_evidence ::
    "string \<Rightarrow> string \<Rightarrow> transaction_structure \<Rightarrow> tx_evidence \<Rightarrow> transaction_classification" where
  "classification_from_evidence txid wtxid st evidence =
     (let primary = map_option (\<lambda>p. public_rule_id (pv_rule p)) (te_primary_violation evidence);
          (rules, violated, unknown) = rule_details (te_rules evidence) ([], []);
          status = (if violated = [] then (if unknown = [] then Compatible else Indeterminate)
            else Violating)
      in \<lparr> tc_txid = txid, tc_wtxid = wtxid, tc_structure = st, tc_results = [],
           tc_assessment = \<lparr> ba_status = status, primary_rule = primary, violated_rules = violated,
             unknown_rules = unknown \<rparr>,
           tc_rules = rules \<rparr>)"

text \<open>
  The record of one ready transaction, as \<^verbatim>\<open>classify_ready\<close> builds it: the policy evidence, the
  assessment, and then the lens results over that assessment.
\<close>

definition classify_record ::
    "rust_bitcoin \<Rightarrow> string \<Rightarrow> string \<Rightarrow> transaction_structure \<Rightarrow> transaction \<Rightarrow> prevout_set \<Rightarrow>
     transaction_classification option" where
  "classify_record lib txid wtxid st tx prevouts =
     map_option (\<lambda>evidence.
       let c = classification_from_evidence txid wtxid st evidence
       in c\<lparr>tc_results := classify_transaction lib tx prevouts (tc_assessment c)\<rparr>)
     (evaluate_mempool_policy lib tx prevouts)"

section \<open>The rule details\<close>

definition rule_violated :: "rule_outcome \<Rightarrow> bool" where
  "rule_violated out \<longleftrightarrow> is_violate (ro_verdict out)"

definition rule_missing :: "rule_outcome \<Rightarrow> bool" where
  "rule_missing out \<longleftrightarrow> (case ro_verdict out of
     Pass \<Rightarrow> False | Violate _ missing \<Rightarrow> missing \<noteq> [] | Unknown _ \<Rightarrow> True)"

definition verdict_evidence :: "rule_verdict \<Rightarrow> violation list" where
  "verdict_evidence v = (case v of Violate evidence _ \<Rightarrow> evidence | _ \<Rightarrow> [])"

definition verdict_missing :: "rule_verdict \<Rightarrow> missing list" where
  "verdict_missing v = (case v of Violate _ missing \<Rightarrow> missing | Unknown missing \<Rightarrow> missing | Pass \<Rightarrow> [])"

definition public_verdict :: "rule_verdict \<Rightarrow> bip110_rule_verdict" where
  "public_verdict v = (case v of Pass \<Rightarrow> RulePass | Violate _ _ \<Rightarrow> RuleViolate | Unknown _ \<Rightarrow> RuleUnknown)"

definition detail_of :: "rule_outcome \<Rightarrow> bip110_rule_detail" where
  "detail_of out =
     (let evidence = verdict_evidence (ro_verdict out); missing = verdict_missing (ro_verdict out)
      in \<lparr> rd_rule = public_rule_id (ro_rule out),
           rd_number = public_rule_number (public_rule_id (ro_rule out)),
           rd_verdict = public_verdict (ro_verdict out),
           evidence_count = u64_of_usize (length evidence), rd_evidence = take 1 evidence,
           missing_count = u64_of_usize (length missing), rd_missing = take 1 missing \<rparr>)"

abbreviation public_rules :: "rule_outcome list \<Rightarrow> bip110_rule_id list" where
  "public_rules outs \<equiv> map (\<lambda>out. public_rule_id (ro_rule out)) outs"

lemma rule_detail_of_eq:
  "rule_detail_of out (v, u) = (detail_of out,
     (v @ public_rules (filter rule_violated [out]), u @ public_rules (filter rule_missing [out])))"
  by (cases "ro_verdict out")
    (simp_all add: rule_detail_of_def detail_of_def verdict_evidence_def verdict_missing_def
      public_verdict_def rule_violated_def rule_missing_def is_violate_def Let_def
      MAX_BIP110_DETAIL_EXEMPLARS_PER_RULE_def)

lemma rule_details_eq:
  "rule_details outs (v, u) = (map detail_of outs,
     (v @ public_rules (filter rule_violated outs), u @ public_rules (filter rule_missing outs)))"
proof (induction outs arbitrary: v u)
  case (Cons out outs)
  then show ?case by (simp add: rule_detail_of_eq del: filter.simps) simp
qed simp

lemma u64_of_usize_pos: "0 < u64_of_usize n \<longleftrightarrow> n \<noteq> 0"
  by (metis u64_of_usize_0 word_gt_0)

lemma u64_of_usize_mono: "m \<le> n \<Longrightarrow> u64_of_usize m \<le> u64_of_usize n"
  by (simp add: word_le_nat_alt unat_u64_of_usize)

definition outcome_ok :: "rule_outcome \<Rightarrow> bool" where
  "outcome_ok out \<longleftrightarrow> (case ro_verdict out of
     Violate evidence missing \<Rightarrow> evidence \<noteq> [] | Unknown missing \<Rightarrow> missing \<noteq> [] | Pass \<Rightarrow> True)"

lemma validate_one_detail:
  assumes "outcome_ok out"
  shows "validate_rule_details txid ((detail_of out, public_rule_id (ro_rule out)) # rest) v u =
    validate_rule_details txid rest (v @ public_rules (filter rule_violated [out]))
      (u @ public_rules (filter rule_missing [out]))"
proof -
  have bounds: "\<not> u64_of_usize n < u64_of_usize (min n (Suc 0))" for n
    using u64_of_usize_mono [of "min n (Suc 0)" n] by simp
  show ?thesis
    using assms bounds
    by (cases "ro_verdict out")
      (simp_all add: detail_of_def verdict_evidence_def verdict_missing_def public_verdict_def
        outcome_ok_def rule_violated_def rule_missing_def is_violate_def Let_def
        MAX_BIP110_DETAIL_EXEMPLARS_PER_RULE_def u64_of_usize_pos)
qed

lemma validate_details:
  "list_all outcome_ok outs \<Longrightarrow>
     validate_rule_details txid (zip (map detail_of outs) (public_rules outs)) v u =
     Inr (v @ public_rules (filter rule_violated outs), u @ public_rules (filter rule_missing outs))"
  by (induction outs arbitrary: v u)
    (simp_all add: validate_one_detail del: validate_rule_details.simps(2))

section \<open>Records are valid\<close>

lemma evidence_ok_outcomes:
  assumes "evidence_ok e"
  shows "public_rules (te_rules e) = ALL_RULES" "list_all outcome_ok (te_rules e)"
proof -
  have "public_rules (te_rules e) = map public_rule_id (map ro_rule (te_rules e))" by simp
  also have "\<dots> = ALL_RULES"
    using assms by (simp add: evidence_ok_def all_rules_def INPUT_SCOPED_def public_rule_id_def ALL_RULES_def)
  finally show "public_rules (te_rules e) = ALL_RULES" .
  show "list_all outcome_ok (te_rules e)"
    using assms by (auto simp: evidence_ok_def list_all_iff outcome_ok_def split: rule_verdict.splits)
qed

lemma evidence_ok_primary:
  assumes "evidence_ok e" "te_primary_violation e = Some p"
  shows "public_rule_id (pv_rule p) \<in> set (public_rules (filter rule_violated (te_rules e)))"
proof -
  have "list_ex (\<lambda>out. ro_rule out = pv_rule p \<and>
      (case ro_verdict out of Violate evidence _ \<Rightarrow> pv_evidence p \<in> set evidence | _ \<Rightarrow> False)) (te_rules e)"
    using assms unfolding evidence_ok_def by (elim conjE) (simp only: option.case)
  then obtain out where "out \<in> set (te_rules e)" "ro_rule out = pv_rule p"
    and v: "case ro_verdict out of Violate evidence _ \<Rightarrow> pv_evidence p \<in> set evidence | _ \<Rightarrow> False"
    unfolding list_ex_iff by blast
  moreover from v have "is_violate (ro_verdict out)"
    by (cases "ro_verdict out") (simp_all add: is_violate_def)
  ultimately show ?thesis by (auto simp: rule_violated_def image_iff)
qed

lemma classify_record_Some:
  "classify_record lib txid wtxid st tx prevouts = Some c \<Longrightarrow>
     \<exists>e. evaluate_mempool_policy lib tx prevouts = Some e \<and> evidence_ok e \<and>
       c = \<lparr> tc_txid = txid, tc_wtxid = wtxid, tc_structure = st,
         tc_results = classify_transaction lib tx prevouts (tc_assessment c),
         tc_assessment = \<lparr> ba_status = expected_status
             (public_rules (filter rule_violated (te_rules e))) (public_rules (filter rule_missing (te_rules e))),
           primary_rule = map_option (\<lambda>p. public_rule_id (pv_rule p)) (te_primary_violation e),
           violated_rules = public_rules (filter rule_violated (te_rules e)),
           unknown_rules = public_rules (filter rule_missing (te_rules e)) \<rparr>,
         tc_rules = map detail_of (te_rules e) \<rparr>"
  by (auto simp: classify_record_def classification_from_evidence_def rule_details_eq expected_status_def
      Let_def evaluate_mempool_policy_def evaluate_applied_spec evidence_spec_ok)

lemma find_policy_result:
  "find (\<lambda>r. cr_classifier_id r = KNOTS_BIP110_CLASSIFIER_ID) (classify_transaction lib tx prevouts a) =
     Some (bip110_result a)"
  using properties_shape(1) [of lib tx prevouts] shape_state(1) [of tx prevouts "data_protocols lib tx"]
  by (simp add: classify_transaction_def Let_def KNOTS_BIP110_CLASSIFIER_ID_def)
    (simp add: data_protocols_def bip110_result_def Let_def classifier_ids)

lemma record_is_valid:
  assumes "classify_record lib txid wtxid st tx prevouts = Some c"
  shows "validate_classification c = Inr ()"
proof -
  obtain e where e: "evidence_ok e"
    and c: "c = \<lparr> tc_txid = txid, tc_wtxid = wtxid, tc_structure = st,
         tc_results = classify_transaction lib tx prevouts (tc_assessment c),
         tc_assessment = \<lparr> ba_status = expected_status
             (public_rules (filter rule_violated (te_rules e))) (public_rules (filter rule_missing (te_rules e))),
           primary_rule = map_option (\<lambda>p. public_rule_id (pv_rule p)) (te_primary_violation e),
           violated_rules = public_rules (filter rule_violated (te_rules e)),
           unknown_rules = public_rules (filter rule_missing (te_rules e)) \<rparr>,
         tc_rules = map detail_of (te_rules e) \<rparr>"
    using classify_record_Some [OF assms] by blast
  let ?a = "tc_assessment c"
  let ?v = "public_rules (filter rule_violated (te_rules e))"
  let ?u = "public_rules (filter rule_missing (te_rules e))"
  have a: "ba_status ?a = expected_status ?v ?u" "violated_rules ?a = ?v" "unknown_rules ?a = ?u"
    "primary_rule ?a = map_option (\<lambda>p. public_rule_id (pv_rule p)) (te_primary_violation e)"
    by (subst c, simp)+
  have r: "tc_results c = classify_transaction lib tx prevouts ?a" by (subst c, simp)
  have d: "tc_rules c = map detail_of (te_rules e)" by (subst c, simp)
  have len: "length (tc_rules c) = length ALL_RULES"
    using evidence_ok_outcomes(1) [OF e] by (metis d length_map)
  have details: "validate_rule_details (tc_txid c) (zip (tc_rules c) ALL_RULES) [] [] = Inr (?v, ?u)"
    using validate_details [OF evidence_ok_outcomes(2) [OF e], of "tc_txid c" "[]" "[]"]
    by (simp add: evidence_ok_outcomes(1) [OF e] d)
  have primary: "case primary_rule ?a of Some r \<Rightarrow> r \<in> set ?v | None \<Rightarrow> True"
    using evidence_ok_primary [OF e] by (simp add: a split: option.splits)
  have policy: "cr_primary_label (bip110_result ?a) = Some (status_label (ba_status ?a))"
    "cr_labels (bip110_result ?a) = [status_label (ba_status ?a)]"
    "cr_state (bip110_result ?a) = (if unknown_rules ?a \<noteq> [] then Partial else Complete)"
    "cr_missing_facts (bip110_result ?a) = (if unknown_rules ?a \<noteq> [] then [''policy_facts''] else [])"
    by (simp_all add: bip110_result_def Let_def)
  show ?thesis
    unfolding validate_classification_def r classify_valid ok_then_simps find_policy_result option.case
      Let_def policy len details
    using primary by (auto simp: a split: option.splits)
qed

text \<open>
  C5: Every record the pipeline builds is valid: for every transaction and every set of known
  prevouts the record of the policy evaluation and the lenses exists (nothing panics) and passes
  \<^verbatim>\<open>validate_classification\<close>, so publishing it cannot be refused.
\<close>

theorem pipeline_records_are_valid:
  "\<exists>c. classify_record lib txid wtxid st tx prevouts = Some c \<and> validate_classification c = Inr () \<and>
     tc_txid c = txid \<and> tc_wtxid c = wtxid \<and> tc_structure c = st"
proof -
  obtain c where c: "classify_record lib txid wtxid st tx prevouts = Some c"
    by (simp add: classify_record_def evaluate_mempool_policy_def evaluate_applied_spec)
  have "tc_txid c = txid \<and> tc_wtxid c = wtxid \<and> tc_structure c = st"
    using classify_record_Some [OF c]
    by (metis (no_types, lifting) transaction_classification.select_convs(1-3))
  with c record_is_valid [OF c] show ?thesis by blast
qed

lemma record_status:
  "map_option (\<lambda>c. ba_status (tc_assessment c)) (classify_record lib txid wtxid st tx prevouts) =
     Some (if \<exists>r. violates (evaluate_mempool_policy lib tx prevouts) r then Violating
       else if \<not> is_coinbase lib tx \<and> list_ex (\<lambda>i. prevout_get prevouts i = None) [0..<length (tx_inputs tx)]
       then Indeterminate else Compatible)"
proof -
  let ?e = "evidence_spec lib tx prevouts MempoolPolicyRules"
  let ?views = "views_of lib MempoolPolicyRules prevouts tx"
  have eval: "evaluate_mempool_policy lib tx prevouts = Some ?e"
    by (simp add: evaluate_mempool_policy_def evaluate_applied_spec)
  have rules: "te_rules ?e = map (\<lambda>r. outcome r (rule_verdict_spec tx ?views r)) all_rules"
    by (simp add: evidence_spec_def Let_def)
  have all: "r \<in> set all_rules" for r by (cases r) (simp_all add: all_rules_def INPUT_SCOPED_def)
  have v: "public_rules (filter rule_violated (te_rules ?e)) = [] \<longleftrightarrow> \<not> (\<exists>r. violates (Some ?e) r)"
    using all by (auto simp: rules filter_empty_conv rule_violated_def outcome_def violates_def
        rule_verdict_of_spec)
  have u: "public_rules (filter rule_missing (te_rules ?e)) = [] \<longleftrightarrow>
      \<not> (\<not> is_coinbase lib tx \<and> list_ex (\<lambda>i. prevout_get prevouts i = None) [0..<length (tx_inputs tx)])"
  proof -
    have missing: "missing_for r (input_view lib MempoolPolicyRules prevouts (i, txin)) \<noteq> [] \<longleftrightarrow>
        prevout_get prevouts i = None" for r i txin
      by (cases "prevout_get prevouts i") (simp_all add: policy_view)
    have "rule_missing (outcome r (rule_verdict_spec tx ?views r)) \<longleftrightarrow>
        r \<noteq> OutputSize \<and> (\<exists>v \<in> set ?views. missing_for r v \<noteq> [])" for r
      by (auto simp: rule_missing_def outcome_def rule_verdict_spec_def slot_verdict_def)
    then have "rule_missing (outcome r (rule_verdict_spec tx ?views r)) \<longleftrightarrow> r \<noteq> OutputSize \<and>
        \<not> is_coinbase lib tx \<and> (\<exists>i < length (tx_inputs tx). prevout_get prevouts i = None)" for r
      by (simp add: bex_views missing)
    then show ?thesis
      using all [of ElementSize] by (auto simp: rules filter_empty_conv list_ex_iff)
  qed
  show ?thesis
    using v u unfolding classify_record_def eval option.map classification_from_evidence_def rule_details_eq
    by (simp add: Let_def)
qed

text \<open>
  The compact status says what the policy found: a record is violating exactly when some rule
  is violated, indeterminate exactly when none is but the non-coinbase transaction has an unknown
  prevout, and compatible otherwise.
\<close>

theorem status_reflects_policy:
  "map_option (\<lambda>c. ba_status (tc_assessment c)) (classify_record lib txid wtxid st tx prevouts) =
     Some (if \<exists>r. violates (evaluate_mempool_policy lib tx prevouts) r then Violating
       else if \<not> is_coinbase lib tx \<and> list_ex (\<lambda>i. prevout_get prevouts i = None) [0..<length (tx_inputs tx)]
       then Indeterminate else Compatible)"
  by (rule record_status)

end
