(* ===== verification/Resolver_Types.thy ===== *)
theory Resolver_Types
  imports Evidence
begin

text \<open>
  The bounded requests of the classification pipeline, \<^verbatim>\<open>src/classification.rs\<close>: its constants,
  the configured limits, the size estimates of a response, and the functions that cut the work
  into slices and RPC batches. The lemmas show that batches lose and reorder nothing, that every
  batch respects the count and byte ceilings its consumer checks, and that batching ends.
\<close>

section \<open>Constants\<close>

definition RAW_TRANSACTION_BATCH_SIZE :: nat where "RAW_TRANSACTION_BATCH_SIZE = 256"
definition MAX_GETTXOUT_BATCH_SIZE :: nat where "MAX_GETTXOUT_BATCH_SIZE = 512"
definition MAX_RPC_LANES :: nat where "MAX_RPC_LANES = 8"
definition MAX_TRANSACTIONS_PER_SLICE :: nat where "MAX_TRANSACTIONS_PER_SLICE = 8192"
definition MAX_BATCH_RESPONSE_BYTES :: nat where "MAX_BATCH_RESPONSE_BYTES = 16 * 1024 * 1024"
definition MAX_RAW_RESPONSE_BYTES_PER_SLICE :: nat where
  "MAX_RAW_RESPONSE_BYTES_PER_SLICE = 256 * 1024 * 1024"
definition MAX_CONFIRMED_RESPONSE_BYTES_PER_SLICE :: nat where
  "MAX_CONFIRMED_RESPONSE_BYTES_PER_SLICE = 256 * 1024 * 1024"
definition MAX_UNIQUE_PREVOUTS_PER_SLICE :: nat where "MAX_UNIQUE_PREVOUTS_PER_SLICE = 65536"
definition MAX_FACT_ATTEMPTS_PER_SOURCE_PER_WINDOW :: u8 where
  "MAX_FACT_ATTEMPTS_PER_SOURCE_PER_WINDOW = 2"
definition MAX_PENDING_SCRIPT_BYTES :: nat where
  "MAX_PENDING_SCRIPT_BYTES = MAX_CONFIRMED_RESPONSE_BYTES_PER_SLICE"
definition MAX_AUXILIARY_CACHE_BYTES :: nat where "MAX_AUXILIARY_CACHE_BYTES = 512 * 1024 * 1024"
definition ESTIMATED_JSON_BYTES_PER_RESPONSE :: nat where "ESTIMATED_JSON_BYTES_PER_RESPONSE = 512"
definition MAX_CONFIRMED_SCRIPT_HEX_CHARACTERS :: nat where
  "MAX_CONFIRMED_SCRIPT_HEX_CHARACTERS = 64 * 1024"
definition ESTIMATED_GETTXOUT_RESPONSE_BYTES :: nat where
  "ESTIMATED_GETTXOUT_RESPONSE_BYTES =
     MAX_CONFIRMED_SCRIPT_HEX_CHARACTERS + ESTIMATED_JSON_BYTES_PER_RESPONSE"

lemmas resolver_constants = RAW_TRANSACTION_BATCH_SIZE_def MAX_GETTXOUT_BATCH_SIZE_def
  MAX_RPC_LANES_def MAX_TRANSACTIONS_PER_SLICE_def MAX_BATCH_RESPONSE_BYTES_def
  MAX_RAW_RESPONSE_BYTES_PER_SLICE_def MAX_CONFIRMED_RESPONSE_BYTES_PER_SLICE_def
  MAX_UNIQUE_PREVOUTS_PER_SLICE_def MAX_FACT_ATTEMPTS_PER_SOURCE_PER_WINDOW_def
  MAX_PENDING_SCRIPT_BYTES_def MAX_AUXILIARY_CACHE_BYTES_def ESTIMATED_JSON_BYTES_PER_RESPONSE_def
  MAX_CONFIRMED_SCRIPT_HEX_CHARACTERS_def ESTIMATED_GETTXOUT_RESPONSE_BYTES_def

section \<open>Limits\<close>

record classification_limits =
  max_transactions_per_slice :: nat
  rpc_lanes :: nat
  max_auxiliary_cache_bytes :: nat

record resolver_limits =
  max_parent_transactions_per_wave :: nat
  max_confirmed_prevouts_per_wave :: nat
  max_unique_prevouts_per_window :: nat
  max_pending_script_bytes :: nat

text \<open>
  The error type, without the nested sources of the variant \<^verbatim>\<open>Batch\<close>, which carries a boxed
  error of the RPC client.
\<close>

datatype classification_error =
    InvalidLimits
  | BatchFailed
  | BatchResponseTooLarge nat nat
  | BatchResponseEstimateTooLarge nat nat
  | InvalidMembershipTxid string
  | GenerationOverflow

definition limits_new :: "nat \<Rightarrow> nat \<Rightarrow> nat \<Rightarrow> classification_error + classification_limits" where
  "limits_new slots lanes cache_bytes =
     (if slots = 0 \<or> MAX_TRANSACTIONS_PER_SLICE < slots \<or> lanes = 0 \<or> MAX_RPC_LANES < lanes \<or>
         cache_bytes = 0 \<or> MAX_AUXILIARY_CACHE_BYTES < cache_bytes
      then Inl InvalidLimits
      else Inr \<lparr> max_transactions_per_slice = slots, rpc_lanes = lanes,
        max_auxiliary_cache_bytes = cache_bytes \<rparr>)"

text \<open>\<^verbatim>\<open>div_ceil(2)\<close>.\<close>

definition prevout_rpc_lanes :: "classification_limits \<Rightarrow> nat" where
  "prevout_rpc_lanes l = (rpc_lanes l + 1) div 2"

definition maximum_confirmed_prevouts_per_batch :: nat where
  "maximum_confirmed_prevouts_per_batch =
     min MAX_GETTXOUT_BATCH_SIZE (MAX_BATCH_RESPONSE_BYTES div ESTIMATED_GETTXOUT_RESPONSE_BYTES)"

definition maximum_confirmed_prevouts_per_slice :: nat where
  "maximum_confirmed_prevouts_per_slice =
     min MAX_UNIQUE_PREVOUTS_PER_SLICE
       (MAX_CONFIRMED_RESPONSE_BYTES_PER_SLICE div ESTIMATED_GETTXOUT_RESPONSE_BYTES)"

definition resolver_production :: "nat \<Rightarrow> resolver_limits" where
  "resolver_production cache_bytes =
     \<lparr> max_parent_transactions_per_wave = MAX_TRANSACTIONS_PER_SLICE,
       max_confirmed_prevouts_per_wave = maximum_confirmed_prevouts_per_slice,
       max_unique_prevouts_per_window = MAX_UNIQUE_PREVOUTS_PER_SLICE,
       max_pending_script_bytes = min MAX_PENDING_SCRIPT_BYTES cache_bytes \<rparr>"

section \<open>Estimates\<close>

record expected_variant =
  ev_txid :: string
  ev_wtxid :: string
  ev_vsize :: u64

definition estimated_raw_response_bytes :: "expected_variant \<Rightarrow> nat" where
  "estimated_raw_response_bytes v =
     sat_add (sat_mul (unat (ev_vsize v)) 8) ESTIMATED_JSON_BYTES_PER_RESPONSE"

definition estimated_raw_batch_response_bytes :: "expected_variant list \<Rightarrow> nat" where
  "estimated_raw_batch_response_bytes vs =
     foldl (\<lambda>n v. sat_add n (estimated_raw_response_bytes v)) 0 vs"

definition estimated_confirmed_batch_response_bytes :: "nat \<Rightarrow> nat" where
  "estimated_confirmed_batch_response_bytes n = sat_mul n ESTIMATED_GETTXOUT_RESPONSE_BYTES"

definition estimated_script_bytes :: "bytes \<Rightarrow> nat" where
  "estimated_script_bytes s = sat_add (length s) ESTIMATED_JSON_BYTES_PER_RESPONSE"

section \<open>Slices and batches\<close>

fun bounded_variants_loop ::
    "nat \<Rightarrow> nat \<Rightarrow> expected_variant list \<Rightarrow> expected_variant list \<Rightarrow> expected_variant list" where
  "bounded_variants_loop maximum estimated bounded [] = bounded"
| "bounded_variants_loop maximum estimated bounded (v # vs) =
     (if maximum \<le> length bounded then bounded
      else let bytes = estimated_raw_response_bytes v
        in if bounded \<noteq> [] \<and> MAX_RAW_RESPONSE_BYTES_PER_SLICE < sat_add estimated bytes then bounded
           else bounded_variants_loop maximum (sat_add estimated bytes) (bounded @ [v]) vs)"

definition bounded_variants :: "expected_variant list \<Rightarrow> nat \<Rightarrow> expected_variant list" where
  "bounded_variants variants maximum = bounded_variants_loop maximum 0 [] variants"

text \<open>
  \<^verbatim>\<open>next_raw_transaction_batch\<close> takes from the iterator, so it also returns what remains.
\<close>

fun raw_batch_loop ::
    "nat \<Rightarrow> expected_variant list \<Rightarrow> expected_variant list \<Rightarrow>
     expected_variant list \<times> expected_variant list" where
  "raw_batch_loop estimated batch [] = (batch, [])"
| "raw_batch_loop estimated batch (v # rest) =
     (if length batch < RAW_TRANSACTION_BATCH_SIZE
      then let bytes = estimated_raw_response_bytes v
        in if batch \<noteq> [] \<and> MAX_BATCH_RESPONSE_BYTES < sat_add estimated bytes then (batch, v # rest)
           else raw_batch_loop (sat_add estimated bytes) (batch @ [v]) rest
      else (batch, v # rest))"

definition next_raw_transaction_batch ::
    "expected_variant list \<Rightarrow> expected_variant list option \<times> expected_variant list" where
  "next_raw_transaction_batch remaining =
     (let (batch, rest) = raw_batch_loop 0 [] remaining
      in (if batch = [] then None else Some batch, rest))"

definition next_confirmed_prevout_batch ::
    "out_point list \<Rightarrow> out_point list option \<times> out_point list" where
  "next_confirmed_prevout_batch remaining =
     (let n = maximum_confirmed_prevouts_per_batch; batch = take n remaining
      in (if batch = [] then None else Some batch, drop n remaining))"

lemma raw_batch_loop_append:
  "raw_batch_loop e b vs = (b', rest) \<Longrightarrow> b' @ rest = b @ vs \<and> (\<exists>more. b' = b @ more)"
  by (induction e b vs arbitrary: b' rest rule: raw_batch_loop.induct)
    (fastforce simp: Let_def split: if_splits)+

lemma raw_batch_loop_shorter:
  assumes "next_raw_transaction_batch remaining = (Some batch, rest)"
  shows "batch \<noteq> [] \<and> batch @ rest = remaining"
proof -
  obtain b r where br: "raw_batch_loop 0 [] remaining = (b, r)" by force
  then have "b @ r = remaining" using raw_batch_loop_append by fastforce
  with br assms show ?thesis by (simp add: next_raw_transaction_batch_def split: if_splits)
qed

text \<open>The drain of the iterator: \<^verbatim>\<open>std::iter::from_fn(..).collect()\<close>.\<close>

function raw_transaction_batches :: "expected_variant list \<Rightarrow> expected_variant list list" where
  "raw_transaction_batches remaining = (case next_raw_transaction_batch remaining of
     (None, _) \<Rightarrow> []
   | (Some batch, rest) \<Rightarrow> batch # raw_transaction_batches rest)"
  by pat_completeness auto
termination
  by (relation "measure length")
    (auto simp: less_Suc_eq_le dest!: raw_batch_loop_shorter [OF sym] simp flip: length_greater_0_conv)

declare raw_transaction_batches.simps [simp del]

section \<open>Batches\<close>

lemma estimated_batch_append:
  "estimated_raw_batch_response_bytes (vs @ [v]) =
     sat_add (estimated_raw_batch_response_bytes vs) (estimated_raw_response_bytes v)"
  by (simp add: estimated_raw_batch_response_bytes_def)

lemma estimated_batch_Nil [simp]: "estimated_raw_batch_response_bytes [] = 0"
  by (simp add: estimated_raw_batch_response_bytes_def)

definition raw_batch_ok :: "expected_variant list \<Rightarrow> bool" where
  "raw_batch_ok b \<longleftrightarrow> b \<noteq> [] \<and> length b \<le> RAW_TRANSACTION_BATCH_SIZE \<and>
     (length b = 1 \<or> estimated_raw_batch_response_bytes b \<le> MAX_BATCH_RESPONSE_BYTES)"

lemma raw_batch_loop_ok:
  "raw_batch_loop e b vs = (b', rest) \<Longrightarrow> e = estimated_raw_batch_response_bytes b \<Longrightarrow>
     b = [] \<or> raw_batch_ok b \<Longrightarrow> b' = [] \<or> raw_batch_ok b'"
proof (induction e b vs arbitrary: b' rest rule: raw_batch_loop.induct)
  case (2 e b v vs)
  let ?e = "sat_add e (estimated_raw_response_bytes v)"
  show ?case
  proof (cases "length b < RAW_TRANSACTION_BATCH_SIZE \<and> \<not> (b \<noteq> [] \<and> MAX_BATCH_RESPONSE_BYTES < ?e)")
    case True
    then have "raw_batch_loop ?e (b @ [v]) vs = (b', rest)" using "2.prems"(1) by (auto simp: Let_def)
    moreover have "raw_batch_ok (b @ [v])"
      using True "2.prems"(2) by (auto simp: raw_batch_ok_def estimated_batch_append not_less)
    moreover have "?e = estimated_raw_batch_response_bytes (b @ [v])"
      by (simp add: estimated_batch_append "2.prems"(2))
    ultimately show ?thesis
      using "2.IH" [OF conjunct1 [OF True] refl conjunct2 [OF True]] by blast
  next
    case False
    then show ?thesis using "2.prems" by (auto simp: Let_def split: if_splits)
  qed
qed simp

lemma raw_batches_step:
  "raw_transaction_batches vs = [] \<and> vs = [] \<or>
   (\<exists>b rest. vs = b @ rest \<and> raw_batch_ok b \<and>
      raw_transaction_batches vs = b # raw_transaction_batches rest)"
proof -
  obtain b rest where br: "raw_batch_loop 0 [] vs = (b, rest)" by force
  have split_vs: "b @ rest = vs" using br raw_batch_loop_append by fastforce
  have "b = [] \<or> raw_batch_ok b" using raw_batch_loop_ok [OF br] by simp
  moreover have nil: "vs = []" if "b = []"
    using br that by (cases vs) (auto simp: Let_def RAW_TRANSACTION_BATCH_SIZE_def
        dest: raw_batch_loop_append)
  moreover have "raw_transaction_batches vs = (if b = [] then [] else b # raw_transaction_batches rest)"
    by (subst raw_transaction_batches.simps) (simp add: next_raw_transaction_batch_def br)
  ultimately show ?thesis using split_vs by (cases "b = []") (auto simp: raw_batch_ok_def)
qed

lemma raw_batches_partition_lemma:
  "concat (raw_transaction_batches vs) = vs \<and> list_all raw_batch_ok (raw_transaction_batches vs)"
proof (induction vs rule: measure_induct_rule [of length])
  case (less vs)
  from raw_batches_step [of vs] show ?case
  proof (elim disjE exE conjE)
    fix b rest assume *: "vs = b @ rest" "raw_batch_ok b"
      "raw_transaction_batches vs = b # raw_transaction_batches rest"
    then have "length rest < length vs" by (simp add: raw_batch_ok_def)
    with less * show ?thesis by auto
  qed simp
qed

text \<open>
  Cutting the wanted transactions into RPC batches loses, repeats and reorders none of them.
  Every batch is non-empty and holds at most 256 requests, and its estimated response stays under
  the 16 MiB ceiling \<^verbatim>\<open>fetch_raw_transactions\<close> enforces, unless it is a single transaction that
  exceeds the ceiling on its own.
\<close>

theorem raw_batches_partition:
  "concat (raw_transaction_batches vs) = vs \<and>
   list_all (\<lambda>b. b \<noteq> [] \<and> length b \<le> RAW_TRANSACTION_BATCH_SIZE \<and>
     (length b = 1 \<or> estimated_raw_batch_response_bytes b \<le> MAX_BATCH_RESPONSE_BYTES))
     (raw_transaction_batches vs)"
  using raw_batches_partition_lemma [of vs] by (simp add: raw_batch_ok_def list_all_iff)

text \<open>
  A batch of confirmed prevouts always passes the guard of \<^verbatim>\<open>fetch_confirmed_prevouts\<close>.
\<close>

lemma confirmed_batch_within_limits:
  assumes "next_confirmed_prevout_batch remaining = (Some batch, rest)"
  shows "batch @ rest = remaining" "0 < length batch" "length batch \<le> MAX_GETTXOUT_BATCH_SIZE"
    "estimated_confirmed_batch_response_bytes (length batch) \<le> MAX_BATCH_RESPONSE_BYTES"
proof -
  have b: "batch = take 254 remaining" "rest = drop 254 remaining" "batch \<noteq> []"
    using assms by (auto simp: next_confirmed_prevout_batch_def Let_def
        maximum_confirmed_prevouts_per_batch_def resolver_constants split: if_splits)
  then show "batch @ rest = remaining" "0 < length batch" "length batch \<le> MAX_GETTXOUT_BATCH_SIZE"
    by (auto simp: MAX_GETTXOUT_BATCH_SIZE_def)
  have "length batch \<le> 254" using b by simp
  then show "estimated_confirmed_batch_response_bytes (length batch) \<le> MAX_BATCH_RESPONSE_BYTES"
    by (simp add: estimated_confirmed_batch_response_bytes_def sat_mul_def resolver_constants)
qed

section \<open>Slices\<close>

lemma bounded_loop_prefix:
  "\<exists>more rest. bounded_variants_loop n e b vs = b @ more \<and> vs = more @ rest \<and>
     (length b \<le> n \<longrightarrow> length (b @ more) \<le> n)"
proof (induction n e b vs rule: bounded_variants_loop.induct)
  case (2 n e b v vs)
  let ?e = "sat_add e (estimated_raw_response_bytes v)"
  show ?case
  proof (cases "n \<le> length b \<or> b \<noteq> [] \<and> MAX_RAW_RESPONSE_BYTES_PER_SLICE < ?e")
    case True
    then show ?thesis by (auto simp: Let_def)
  next
    case False
    then obtain more rest where
      "bounded_variants_loop n ?e (b @ [v]) vs = (b @ [v]) @ more" "vs = more @ rest"
      "length ((b @ [v]) @ more) \<le> n"
      using "2.IH" by fastforce
    with False show ?thesis by (intro exI [of _ "v # more"] exI [of _ rest]) (simp add: Let_def)
  qed
qed simp

lemma bounded_loop_bytes:
  assumes "e = estimated_raw_batch_response_bytes b"
    "length b \<le> 1 \<or> e \<le> MAX_RAW_RESPONSE_BYTES_PER_SLICE"
  shows "length (bounded_variants_loop n e b vs) \<le> 1 \<or>
    estimated_raw_batch_response_bytes (bounded_variants_loop n e b vs) \<le> MAX_RAW_RESPONSE_BYTES_PER_SLICE"
  using assms
proof (induction n e b vs rule: bounded_variants_loop.induct)
  case (2 n e b v vs)
  let ?e = "sat_add e (estimated_raw_response_bytes v)"
  show ?case
  proof (cases "n \<le> length b \<or> b \<noteq> [] \<and> MAX_RAW_RESPONSE_BYTES_PER_SLICE < ?e")
    case True
    with "2.prems" show ?thesis by (auto simp: Let_def)
  next
    case False
    then have "length (b @ [v]) \<le> 1 \<or> ?e \<le> MAX_RAW_RESPONSE_BYTES_PER_SLICE" by auto
    with False "2.prems"(1) show ?thesis
      using "2.IH" by (auto simp: Let_def estimated_batch_append)
  qed
qed simp

lemma bounded_variants_progress:
  assumes "0 < n"
  shows "bounded_variants (v # vs) n \<noteq> []"
proof -
  let ?e = "sat_add 0 (estimated_raw_response_bytes v)"
  have "bounded_variants (v # vs) n = bounded_variants_loop n ?e [v] vs"
    using assms by (simp add: bounded_variants_def Let_def)
  then show ?thesis using bounded_loop_prefix [of n ?e "[v]" vs] by auto
qed

end
