(* ===== verification/Script_Cache.thy ===== *)
theory Script_Cache
  imports Resolver_Types
begin

text \<open>
  The two cache kinds of the classification pipeline, \<^verbatim>\<open>src/classification.rs\<close>: the outputs of
  transactions that are in the mempool, and the weighted LRU cache of confirmed outpoint scripts.
  \<open>None\<close> of the map lookups stands for \<^verbatim>\<open>None\<close>; the stamps are \<^verbatim>\<open>u64\<close> words.
\<close>

section \<open>The code\<close>

record cached_outputs =
  co_wtxid :: string
  co_scripts :: "bytes list"
  co_estimated_bytes :: nat

definition co_script :: "cached_outputs \<Rightarrow> u32 \<Rightarrow> bytes option" where
  "co_script outputs vout = list_get (co_scripts outputs) (unat vout)"

definition cached_outputs_of :: "expected_variant \<Rightarrow> transaction \<Rightarrow> cached_outputs" where
  "cached_outputs_of expected tx =
     (let scripts = map script_pubkey (tx_outputs tx)
      in \<lparr> co_wtxid = ev_wtxid expected, co_scripts = scripts,
           co_estimated_bytes =
             foldl (\<lambda>n s. sat_add n (length s)) ESTIMATED_JSON_BYTES_PER_RESPONSE scripts \<rparr>)"

record cache_entry =
  ce_script :: bytes
  ce_estimated_bytes :: nat
  ce_stamp :: u64

record confirmed_cache =
  cc_entries :: "(out_point, cache_entry) btree"
  cc_lru :: "(u64 \<times> out_point) bset"
  cc_bytes :: nat
  cc_maximum :: nat
  cc_next_stamp :: u64

definition cache_new :: "nat \<Rightarrow> confirmed_cache" where
  "cache_new maximum =
     \<lparr> cc_entries = [], cc_lru = [], cc_bytes = 0, cc_maximum = maximum, cc_next_stamp = 0 \<rparr>"

text \<open>The renumbering loop of \<^verbatim>\<open>allocate_stamp\<close>, over the outpoints in LRU order.\<close>

fun renumber :: "nat \<Rightarrow> out_point list \<Rightarrow> confirmed_cache \<Rightarrow> confirmed_cache" where
  "renumber index [] c = c"
| "renumber index (k # ks) c =
     (let stamp = (if index < 2 ^ 64 then of_nat index else u64_max - 1)
      in renumber (index + 1) ks
           (if bt_contains (cc_entries c) k
            then c\<lparr>cc_entries := bt_modify k (\<lambda>e. e\<lparr>ce_stamp := stamp\<rparr>) (cc_entries c),
                   cc_lru := bs_insert (stamp, k) (cc_lru c)\<rparr>
            else c))"

definition allocate_stamp :: "confirmed_cache \<Rightarrow> u64 \<times> confirmed_cache" where
  "allocate_stamp c =
     (let c = (if cc_next_stamp c = u64_max
           then let ordered = map snd (cc_lru c);
                    c = renumber 0 ordered (c\<lparr>cc_lru := []\<rparr>);
                    n = length (cc_lru c)
                in c\<lparr>cc_next_stamp := (if n < 2 ^ 64 then of_nat n else u64_max - 1)\<rparr>
           else c)
      in (cc_next_stamp c, c\<lparr>cc_next_stamp := cc_next_stamp c + 1\<rparr>))"

definition cache_get :: "out_point \<Rightarrow> confirmed_cache \<Rightarrow> bytes option \<times> confirmed_cache" where
  "cache_get k c = (case bt_get (cc_entries c) k of
     None \<Rightarrow> (None, c)
   | Some entry \<Rightarrow>
       let c = c\<lparr>cc_lru := bs_remove (ce_stamp entry, k) (cc_lru c)\<rparr>;
           (stamp, c) = allocate_stamp c
       in (Some (ce_script entry),
           c\<lparr>cc_entries := bt_modify k (\<lambda>e. e\<lparr>ce_stamp := stamp\<rparr>) (cc_entries c),
             cc_lru := bs_insert (stamp, k) (cc_lru c)\<rparr>))"

function shrink_to :: "nat \<Rightarrow> confirmed_cache \<Rightarrow> confirmed_cache" where
  "shrink_to target c =
     (if cc_bytes c \<le> target then c
      else (case cc_lru c of
          [] \<Rightarrow> c\<lparr>cc_entries := [], cc_bytes := 0\<rparr>
        | (stamp, k) # rest \<Rightarrow>
            let c = c\<lparr>cc_lru := rest\<rparr>
            in (case bt_get (cc_entries c) k of
                 None \<Rightarrow> shrink_to target c
               | Some entry \<Rightarrow>
                   if ce_stamp entry \<noteq> stamp then shrink_to target c
                   else shrink_to target (c\<lparr>cc_entries := bt_remove k (cc_entries c),
                     cc_bytes := sat_sub (cc_bytes c) (ce_estimated_bytes entry)\<rparr>))))"
  by pat_completeness auto
termination by (relation "measure (\<lambda>(_, c). length (cc_lru c))") auto

declare shrink_to.simps [simp del]

text \<open>The removal of an entry, as both branches of \<^verbatim>\<open>insert\<close> do it.\<close>

definition cache_remove :: "out_point \<Rightarrow> cache_entry \<Rightarrow> confirmed_cache \<Rightarrow> confirmed_cache" where
  "cache_remove k existing c =
     c\<lparr>cc_entries := bt_remove k (cc_entries c),
       cc_lru := bs_remove (ce_stamp existing, k) (cc_lru c),
       cc_bytes := sat_sub (cc_bytes c) (ce_estimated_bytes existing)\<rparr>"

text \<open>The part of \<^verbatim>\<open>insert\<close> after the conflict check.\<close>

definition cache_insert_fresh ::
    "out_point \<Rightarrow> bytes \<Rightarrow> nat \<Rightarrow> confirmed_cache \<Rightarrow> bool \<times> confirmed_cache" where
  "cache_insert_fresh k script reserved c =
     (let available = sat_sub (cc_maximum c) reserved;
          estimated = estimated_script_bytes script
      in if available < estimated then (False, c)
      else let
          c = (case bt_get (cc_entries c) k of
              Some existing \<Rightarrow> cache_remove k existing c
            | None \<Rightarrow> c);
          c = shrink_to (sat_sub available estimated) c;
          (stamp, c) = allocate_stamp c
        in (True,
            c\<lparr>cc_bytes := sat_add (cc_bytes c) estimated,
              cc_entries := bt_insert k
                \<lparr> ce_script = script, ce_estimated_bytes = estimated, ce_stamp = stamp \<rparr>
                (cc_entries c),
              cc_lru := bs_insert (stamp, k) (cc_lru c)\<rparr>))"

definition cache_insert ::
    "out_point \<Rightarrow> bytes \<Rightarrow> nat \<Rightarrow> confirmed_cache \<Rightarrow> bool \<times> confirmed_cache" where
  "cache_insert k script reserved c =
     (case bt_get (cc_entries c) k of
        Some existing \<Rightarrow> if ce_script existing \<noteq> script
          then (False, cache_remove k existing c)
          else cache_insert_fresh k script reserved c
      | None \<Rightarrow> cache_insert_fresh k script reserved c)"

definition reserve_for_outputs :: "nat \<Rightarrow> confirmed_cache \<Rightarrow> confirmed_cache" where
  "reserve_for_outputs output_bytes c = shrink_to (sat_sub (cc_maximum c) output_bytes) c"

end
