(* ===== verification/Script_Cache_Props.thy ===== *)
theory Script_Cache_Props
  imports Script_Cache
begin

text \<open>
  The cache of confirmed scripts is a weighted LRU cache: the invariant that ties the map, the
  LRU index and the byte count together; the refinement of every operation to the recency list
  (least recently used first); and the interface \<open>fact_cache\<close> the resolver relies on, interpreted
  on the cache.
\<close>

section \<open>The recency index\<close>

text \<open>
  The entries without their stamps: what a change of the recency order must preserve. The keys in
  \<open>H\<close> are held by the map but not by the index, as in the middle of \<^verbatim>\<open>get\<close>.
\<close>

definition contents :: "confirmed_cache \<Rightarrow> (out_point, cache_entry) btree" where
  "contents c = bt_map_values (\<lambda>_ e. e\<lparr>ce_stamp := 0\<rparr>) (cc_entries c)"

definition indexed :: "out_point set \<Rightarrow> confirmed_cache \<Rightarrow> bool" where
  "indexed H c \<longleftrightarrow> bt_ok (cc_entries c) \<and> bs_ok (cc_lru c) \<and> distinct (map fst (cc_lru c)) \<and>
     (\<forall>s k. (s, k) \<in> set (cc_lru c) \<longleftrightarrow>
        k \<notin> H \<and> (\<exists>e. bt_get (cc_entries c) k = Some e \<and> ce_stamp e = s)) \<and>
     (\<forall>x \<in> set (cc_lru c). fst x < cc_next_stamp c)"

lemma bs_insert_last:
  assumes "bs_ok xs" "\<And>y. y \<in> set xs \<Longrightarrow> y < x"
  shows "bs_insert x xs = xs @ [x]"
proof -
  have "sorted xs" "x \<notin> set xs" using assms by (auto simp: strict_sorted_iff)
  moreover have "insort x xs = xs @ [x]"
    using assms(2) by (induction xs) (auto simp: not_le dest: leD)
  ultimately show ?thesis by (simp add: bs_insert_def insort_insert_key_def)
qed

lemma above_all: "\<forall>x \<in> set xs. fst x < s \<Longrightarrow> y \<in> set xs \<Longrightarrow> y < (s, k)"
  by (cases y) (auto simp: less_prod_def)

lemma indexed_keys_distinct: "indexed H c \<Longrightarrow> distinct (map snd (cc_lru c))"
  unfolding indexed_def distinct_map
  by (intro conjI inj_onI) (auto simp: distinct_map)

lemma indexed_keys:
  "indexed H c \<Longrightarrow> set (map snd (cc_lru c)) = {k. k \<notin> H \<and> bt_get (cc_entries c) k \<noteq> None}"
  unfolding indexed_def by (auto simp: image_iff) (metis snd_conv)

lemma contents_get: "bt_get (contents c) k = map_option (\<lambda>e. e\<lparr>ce_stamp := 0\<rparr>) (bt_get (cc_entries c) k)"
  by (simp add: contents_def bt_get_map_values)

lemma contents_modify_stamp [simp]:
  "bt_map_values (\<lambda>_ e. e\<lparr>ce_stamp := 0\<rparr>) (bt_modify k (\<lambda>e. e\<lparr>ce_stamp := s\<rparr>) m) =
     bt_map_values (\<lambda>_ e. e\<lparr>ce_stamp := 0\<rparr>) m"
  by (induction m) (auto simp: bt_map_values_def bt_modify_def)

lemma of_nat_less_u64: "i < j \<Longrightarrow> j < 2 ^ 64 \<Longrightarrow> (of_nat i :: u64) < of_nat j"
  by (simp add: word_less_nat_alt unat_of_nat)

definition renumbered :: "nat \<Rightarrow> out_point list \<Rightarrow> confirmed_cache \<Rightarrow> confirmed_cache \<Rightarrow> bool" where
  "renumbered i ks c c' \<longleftrightarrow>
     cc_lru c' = cc_lru c @ map (\<lambda>(j, k). (of_nat j, k)) (List.enumerate i ks) \<and>
     (\<forall>k. k \<notin> set ks \<longrightarrow> bt_get (cc_entries c') k = bt_get (cc_entries c) k) \<and>
     (\<forall>j k. (j, k) \<in> set (List.enumerate i ks) \<longrightarrow>
       map_option ce_stamp (bt_get (cc_entries c') k) = Some (of_nat j)) \<and>
     contents c' = contents c \<and> cc_bytes c' = cc_bytes c \<and> cc_maximum c' = cc_maximum c \<and>
     bt_ok (cc_entries c') \<and> bs_ok (cc_lru c')"

abbreviation restamp :: "out_point \<Rightarrow> u64 \<Rightarrow> confirmed_cache \<Rightarrow> confirmed_cache" where
  "restamp k s c \<equiv> c\<lparr>cc_entries := bt_modify k (\<lambda>e. e\<lparr>ce_stamp := s\<rparr>) (cc_entries c),
     cc_lru := bs_insert (s, k) (cc_lru c)\<rparr>"

lemma contents_restamp [simp]: "contents (restamp k s c) = contents c"
  by (simp add: contents_def)

lemma renumbered_Cons:
  assumes "renumbered (Suc i) ks (restamp k (of_nat i) c) c'" "k \<notin> set ks"
    "bt_get (cc_entries c) k \<noteq> None" "bs_insert (of_nat i, k) (cc_lru c) = cc_lru c @ [(of_nat i, k)]"
  shows "renumbered i (k # ks) c c'"
  using assms by (auto simp: renumbered_def bt_get_modify contents_def)

lemma renumber_spec:
  assumes "bt_ok (cc_entries c)" "bs_ok (cc_lru c)" "i + length ks < 2 ^ 64" "distinct ks"
    "\<forall>k \<in> set ks. bt_get (cc_entries c) k \<noteq> None" "\<forall>x \<in> set (cc_lru c). fst x < of_nat i"
  shows "renumbered i ks c (renumber i ks c)"
  using assms
proof (induction ks arbitrary: i c)
  case Nil
  then show ?case by (simp add: renumbered_def)
next
  case (Cons k ks)
  let ?c = "restamp k (of_nat i) c"
  have lru: "bs_insert (of_nat i, k) (cc_lru c) = cc_lru c @ [(of_nat i, k)]"
    using Cons.prems(2,6) by (intro bs_insert_last above_all)
  have i: "i < 2 ^ 64" "Suc i + length ks < 2 ^ 64" using Cons.prems(3) by auto
  have step: "renumber i (k # ks) c = renumber (Suc i) ks ?c"
    using Cons.prems(5) i by (auto simp: Let_def bt_contains_def)
  have lt: "(of_nat i :: u64) < of_nat (Suc i)" using i(2) by (intro of_nat_less_u64) auto
  have "renumbered (Suc i) ks ?c (renumber (Suc i) ks ?c)"
  proof (rule Cons.IH)
    show "bt_ok (cc_entries ?c)" using Cons.prems(1) by simp
    show "bs_ok (cc_lru ?c)" using Cons.prems(2) by (simp add: bs_ok_insert)
    show "\<forall>k \<in> set ks. bt_get (cc_entries ?c) k \<noteq> None"
      using Cons.prems(5) by (auto simp: bt_get_modify)
    show "\<forall>x \<in> set (cc_lru ?c). fst x < of_nat (Suc i)"
      using Cons.prems(6) lt by (auto intro: order.strict_trans)
  qed (use i Cons.prems(4) in auto)
  then show ?case
    unfolding step using Cons.prems(4,5) lru by (intro renumbered_Cons) auto
qed

lemma contents_lru [simp]:
  "contents (c\<lparr>cc_lru := l\<rparr>) = contents c" "contents (c\<lparr>cc_next_stamp := n\<rparr>) = contents c"
  "contents (c\<lparr>cc_bytes := b\<rparr>) = contents c"
  by (simp_all add: contents_def)

lemma contents_eq_None:
  "contents c = contents c' \<Longrightarrow> bt_get (cc_entries c) k = None \<longleftrightarrow> bt_get (cc_entries c') k = None"
  by (metis contents_get option.map_disc_iff)

lemma enumerate_has: "k \<in> set ks \<Longrightarrow> \<exists>j. (j, k) \<in> set (List.enumerate 0 ks)"
  by (metis enumerated_mem in_set_conv_nth)

lemma enumerate_keyD: "(j, k) \<in> set (List.enumerate 0 ks) \<Longrightarrow> k \<in> set ks \<and> j < length ks"
  by (auto simp: enumerated_mem)

lemma renumbered_indexed:
  assumes c: "indexed H c" and len: "length (cc_lru c) < usize_max"
    and c': "renumbered 0 (map snd (cc_lru c)) (c\<lparr>cc_lru := []\<rparr>) c'"
  shows "indexed H (c'\<lparr>cc_next_stamp := of_nat (length (cc_lru c'))\<rparr>) \<and>
    map snd (cc_lru c') = map snd (cc_lru c)"
proof -
  let ?ks = "map snd (cc_lru c)"
  have lru: "cc_lru c' = map (\<lambda>(j, k). (of_nat j, k)) (List.enumerate 0 ?ks)"
    and stamps: "\<And>j k. (j, k) \<in> set (List.enumerate 0 ?ks) \<Longrightarrow>
      map_option ce_stamp (bt_get (cc_entries c') k) = Some (of_nat j)"
    and same: "contents c' = contents c" and ok: "bt_ok (cc_entries c')" "bs_ok (cc_lru c')"
    using c' by (auto simp: renumbered_def)
  have keys: "k \<in> set ?ks \<longleftrightarrow> k \<notin> H \<and> bt_get (cc_entries c') k \<noteq> None" for k
    using indexed_keys [OF c] contents_eq_None [OF same, of k] by auto
  have mem: "(s, k) \<in> set (cc_lru c') \<longleftrightarrow>
      k \<notin> H \<and> (\<exists>e. bt_get (cc_entries c') k = Some e \<and> ce_stamp e = s)" for s k
  proof
    assume "(s, k) \<in> set (cc_lru c')"
    then obtain j where "(j, k) \<in> set (List.enumerate 0 ?ks)" "s = of_nat j" by (auto simp: lru)
    with stamps [of j k] keys [of k] show "k \<notin> H \<and> (\<exists>e. bt_get (cc_entries c') k = Some e \<and> ce_stamp e = s)"
      by (auto dest: enumerate_keyD)
  next
    assume r: "k \<notin> H \<and> (\<exists>e. bt_get (cc_entries c') k = Some e \<and> ce_stamp e = s)"
    then obtain e where e: "bt_get (cc_entries c') k = Some e" "ce_stamp e = s" by blast
    have "k \<in> set ?ks" using keys [of k] r e by simp
    then obtain j where j: "(j, k) \<in> set (List.enumerate 0 ?ks)" using enumerate_has [of k ?ks] by blast
    have "Some s = Some (of_nat j :: u64)"
      using stamps [OF j] unfolding e(1) option.map e(2) .
    with j show "(s, k) \<in> set (cc_lru c')" by (auto simp: lru intro!: image_eqI [of _ _ "(j, k)"])
  qed
  have n: "length (cc_lru c') = length ?ks" by (simp add: lru)
  have below: "\<forall>x \<in> set (cc_lru c'). fst x < of_nat (length (cc_lru c'))"
    using len by (auto simp: lru dest!: enumerate_keyD intro!: of_nat_less_u64)
  have fsts: "map fst (cc_lru c') = map (of_nat :: nat \<Rightarrow> u64) [0..<length ?ks]"
    by (auto simp: lru comp_def case_prod_unfold enumerate_eq_zip intro!: nth_equalityI)
  have "inj_on (of_nat :: nat \<Rightarrow> u64) {0..<length ?ks}"
    using len by (intro inj_onI) (auto simp: word_unat_eq_iff unat_of_nat)
  then have "distinct (map fst (cc_lru c'))" by (simp add: fsts distinct_map)
  moreover have "map snd (cc_lru c') = ?ks"
    by (auto simp: lru comp_def case_prod_unfold intro!: nth_equalityI)
  ultimately show ?thesis using mem below ok by (simp add: indexed_def)
qed

lemma u64_succ: "(s :: u64) \<noteq> u64_max \<Longrightarrow> s < s + 1"
  using unsigned_less [of s, where 'a = nat] by (auto simp: word_less_nat_alt unat_word_ariths word_unat_eq_iff)

lemma allocate_stamp_spec:
  assumes c: "indexed H c" and len: "length (cc_lru c) < usize_max"
    and eq: "allocate_stamp c = (s, c')"
  shows "indexed H c' \<and> map snd (cc_lru c') = map snd (cc_lru c) \<and> contents c' = contents c \<and>
    cc_bytes c' = cc_bytes c \<and> cc_maximum c' = cc_maximum c \<and>
    (\<forall>x \<in> set (cc_lru c'). fst x < s) \<and> s < cc_next_stamp c'"
proof -
  let ?r = "renumber 0 (map snd (cc_lru c)) (c\<lparr>cc_lru := []\<rparr>)"
  define d where "d = (if cc_next_stamp c = u64_max
     then ?r\<lparr>cc_next_stamp := of_nat (length (cc_lru ?r))\<rparr> else c)"
  have d: "indexed H d \<and> map snd (cc_lru d) = map snd (cc_lru c) \<and> contents d = contents c \<and>
    cc_bytes d = cc_bytes c \<and> cc_maximum d = cc_maximum c \<and> cc_next_stamp d \<noteq> u64_max \<and>
    (cc_next_stamp c = u64_max \<longrightarrow> length (cc_lru ?r) < 2 ^ 64)"
  proof (cases "cc_next_stamp c = u64_max")
    case True
    have r: "renumbered 0 (map snd (cc_lru c)) (c\<lparr>cc_lru := []\<rparr>) ?r"
      using c len indexed_keys_distinct [OF c] indexed_keys [OF c]
      by (intro renumber_spec) (auto simp: indexed_def)
    have len_r: "length (cc_lru ?r) = length (cc_lru c)" using r by (simp add: renumbered_def)
    have "(of_nat (length (cc_lru c)) :: u64) \<noteq> u64_max"
      using len by (simp add: word_unat_eq_iff unat_of_nat)
    then show ?thesis
      using renumbered_indexed [OF c len r] True r len len_r
      by (simp add: d_def renumbered_def)
  qed (use c in \<open>simp add: d_def\<close>)
  have s: "s = cc_next_stamp d" "c' = d\<lparr>cc_next_stamp := cc_next_stamp d + 1\<rparr>"
    using eq d by (auto simp: allocate_stamp_def Let_def d_def split: if_splits)
  have lt: "s < s + 1" using d s(1) by (simp add: u64_succ)
  have "indexed H c'"
    using d lt unfolding s(1) s(2) indexed_def by (auto intro: order.strict_trans)
  with d lt show ?thesis by (auto simp: s indexed_def)
qed

section \<open>The invariant\<close>

definition accounted :: "confirmed_cache \<Rightarrow> bool" where
  "accounted c \<longleftrightarrow>
     (\<forall>e \<in> snd ` set (cc_entries c). ce_estimated_bytes e = estimated_script_bytes (ce_script e)) \<and>
     cc_bytes c = bt_weight ce_estimated_bytes (cc_entries c) \<and>
     cc_bytes c \<le> cc_maximum c \<and> cc_maximum c \<le> usize_max"

definition cache_ok :: "confirmed_cache \<Rightarrow> bool" where
  "cache_ok c \<longleftrightarrow> indexed {} c \<and> accounted c"

lemma weight_contents: "bt_weight ce_estimated_bytes (contents c) = bt_weight ce_estimated_bytes (cc_entries c)"
  by (simp add: contents_def bt_weight_def bt_map_values_def comp_def case_prod_unfold)

lemma estimates_contents:
  "(\<forall>e \<in> snd ` set (contents c). ce_estimated_bytes e = estimated_script_bytes (ce_script e)) \<longleftrightarrow>
   (\<forall>e \<in> snd ` set (cc_entries c). ce_estimated_bytes e = estimated_script_bytes (ce_script e))"
  by (simp add: contents_def bt_map_values_def ball_simps case_prod_unfold)

lemma accounted_cong:
  assumes "contents c' = contents c" "cc_bytes c' = cc_bytes c" "cc_maximum c' = cc_maximum c"
  shows "accounted c' \<longleftrightarrow> accounted c"
  using assms weight_contents [of c] weight_contents [of c'] estimates_contents [of c]
    estimates_contents [of c'] unfolding accounted_def by simp

lemma entries_bound:
  assumes "accounted c"
  shows "512 * length (cc_entries c) \<le> cc_bytes c"
proof -
  have w: "512 * length m \<le> bt_weight ce_estimated_bytes m"
    if "\<forall>e \<in> snd ` set m. ce_estimated_bytes e = estimated_script_bytes (ce_script e)"
    for m :: "(out_point, cache_entry) btree"
    using that
  proof (induction m)
    case (Cons e m)
    then have "512 \<le> ce_estimated_bytes (snd e)"
      by (simp add: estimated_script_bytes_def ESTIMATED_JSON_BYTES_PER_RESPONSE_def sat_add_def)
    with Cons show ?case by simp
  qed simp
  with assms show ?thesis by (simp add: accounted_def)
qed

lemma lru_length:
  assumes "indexed H c"
  shows "length (cc_lru c) \<le> length (cc_entries c)"
proof -
  have "set (map snd (cc_lru c)) \<subseteq> set (bt_keys (cc_entries c))"
    using indexed_keys [OF assms] by (auto simp: map_of_eq_None_iff)
  then have "card (set (map snd (cc_lru c))) \<le> card (set (bt_keys (cc_entries c)))"
    by (intro card_mono) auto
  then have "length (cc_lru c) \<le> card (set (bt_keys (cc_entries c)))"
    using distinct_card [OF indexed_keys_distinct [OF assms]] by simp
  then show ?thesis using card_length [of "bt_keys (cc_entries c)"] by simp
qed

lemma lru_room: "indexed H c \<Longrightarrow> accounted c \<Longrightarrow> length (cc_lru c) < usize_max"
  using lru_length [of H c] entries_bound [of c] by (simp add: accounted_def)

section \<open>The recency list\<close>

text \<open>The abstract cache: keys with their scripts, least recently used first.\<close>

definition script_at :: "confirmed_cache \<Rightarrow> out_point \<Rightarrow> bytes option" where
  "script_at c k = map_option ce_script (bt_get (cc_entries c) k)"

definition recency :: "confirmed_cache \<Rightarrow> (out_point \<times> bytes) list" where
  "recency c = map (\<lambda>k. (k, the (script_at c k))) (map snd (cc_lru c))"

lemma script_at_contents: "script_at c k = map_option ce_script (bt_get (contents c) k)"
  by (simp add: script_at_def contents_get option.map_comp comp_def)

lemma script_at_cong: "contents c = contents c' \<Longrightarrow> script_at c = script_at c'"
  by (rule ext) (simp add: script_at_contents)

lemma recency_keys [simp]: "map fst (recency c) = map snd (cc_lru c)"
  by (simp add: recency_def comp_def)

lemma map_of_recency:
  assumes "indexed {} c"
  shows "map_of (recency c) k = script_at c k"
proof (cases "script_at c k")
  case None
  then have "k \<notin> set (map snd (cc_lru c))"
    using indexed_keys [OF assms] by (auto simp: script_at_def)
  then have "map_of (recency c) k = None" by (metis map_of_eq_None_iff recency_keys set_map)
  with None show ?thesis by simp
next
  case (Some s)
  then have "k \<in> set (map snd (cc_lru c))"
    using indexed_keys [OF assms] by (auto simp: script_at_def)
  then show ?thesis
    unfolding recency_def map_of_map_restrict using Some by (simp add: restrict_map_def)
qed

fun total_bytes :: "(out_point \<times> bytes) list \<Rightarrow> nat" where
  "total_bytes [] = 0"
| "total_bytes (x # xs) = estimated_script_bytes (snd x) + total_bytes xs"

lemma total_bytes_append [simp]: "total_bytes (xs @ ys) = total_bytes xs + total_bytes ys"
  by (induction xs) auto

text \<open>Eviction from the least recently used end until the rest fits.\<close>

fun evict :: "nat \<Rightarrow> (out_point \<times> bytes) list \<Rightarrow> (out_point \<times> bytes) list" where
  "evict target [] = []"
| "evict target (x # xs) = (if total_bytes (x # xs) \<le> target then x # xs else evict target xs)"

lemma total_bytes_evict: "total_bytes (evict target xs) \<le> target"
  by (induction xs) auto

lemma evict_suffix: "\<exists>dropped. xs = dropped @ evict target xs"
  by (induction xs) (auto, metis append_Cons)

lemma weight_as_keys:
  assumes "bt_ok m"
  shows "bt_weight f m = (\<Sum>k \<in> set (bt_keys m). f (the (bt_get m k)))"
  using assms
proof (induction m)
  case (Cons e m)
  then have "bt_weight f m = (\<Sum>k \<in> set (bt_keys m). f (the (bt_get m k)))" by (simp add: bt_ok_Cons)
  also have "\<dots> = (\<Sum>k \<in> set (bt_keys m). f (the (bt_get (e # m) k)))"
    using Cons.prems by (intro sum.cong) (auto simp: bt_ok_Cons)
  moreover have "fst e \<notin> set (bt_keys m)" using Cons.prems by (auto simp: bt_ok_Cons)
  ultimately show ?case by (cases e) (simp add: sum.insert)
qed simp

lemma total_bytes_recency:
  assumes "cache_ok c"
  shows "total_bytes (recency c) = cc_bytes c"
proof -
  have c: "indexed {} c" "accounted c" using assms by (auto simp: cache_ok_def)
  let ?m = "cc_entries c" and ?ks = "map snd (cc_lru c)"
  have est: "ce_estimated_bytes (the (bt_get ?m k)) = estimated_script_bytes (the (script_at c k))"
    if "k \<in> set (bt_keys ?m)" for k
  proof -
    from that obtain e where e: "bt_get ?m k = Some e" by (metis list.set_map map_of_eq_None_iff not_Some_eq)
    then have "e \<in> snd ` set ?m" by (metis image_eqI map_of_SomeD snd_conv)
    with e c(2) show ?thesis by (auto simp: accounted_def script_at_def)
  qed
  have ks: "set ?ks = set (bt_keys ?m)"
    using indexed_keys [OF c(1)] by (auto simp: map_of_eq_None_iff image_iff)
  have tb: "total_bytes (map (\<lambda>k. (k, g k)) ks) = sum_list (map (estimated_script_bytes \<circ> g) ks)"
    for g ks by (induction ks) auto
  have "total_bytes (recency c) = sum_list (map (estimated_script_bytes \<circ> (\<lambda>k. the (script_at c k))) ?ks)"
    unfolding recency_def by (rule tb)
  also have "\<dots> = (\<Sum>k \<in> set ?ks. estimated_script_bytes (the (script_at c k)))"
    using indexed_keys_distinct [OF c(1)] by (subst sum_list_distinct_conv_sum_set) (auto simp: comp_def)
  also have "\<dots> = (\<Sum>k \<in> set (bt_keys ?m). ce_estimated_bytes (the (bt_get ?m k)))"
    unfolding ks by (intro sum.cong) (auto simp: est)
  also have "\<dots> = cc_bytes c"
    using c by (simp add: weight_as_keys accounted_def indexed_def)
  finally show ?thesis .
qed

section \<open>The operations refine the recency list\<close>

lemma recency_cong:
  "contents c' = contents c \<Longrightarrow> map snd (cc_lru c') = map snd (cc_lru c) \<Longrightarrow> recency c' = recency c"
  using script_at_cong [of c' c] by (simp add: recency_def)

text \<open>The final step of \<^verbatim>\<open>get\<close> and \<^verbatim>\<open>insert\<close>: a fresh stamp puts the key at the end.\<close>

lemma restamp_indexed:
  assumes c: "indexed {k} c" and e: "bt_get (cc_entries c) k = Some e"
    and fresh: "\<forall>x \<in> set (cc_lru c). fst x < s" "s < cc_next_stamp c"
  shows "indexed {} (restamp k s c) \<and> map snd (cc_lru (restamp k s c)) = map snd (cc_lru c) @ [k]"
proof -
  have lru: "bs_insert (s, k) (cc_lru c) = cc_lru c @ [(s, k)]"
    using c fresh(1) by (intro bs_insert_last above_all) (auto simp: indexed_def)
  have "s \<notin> fst ` set (cc_lru c)" using fresh(1) by auto
  then have d: "distinct (map fst (cc_lru c @ [(s, k)]))" using c by (auto simp: indexed_def)
  have so: "bs_ok (cc_lru c @ [(s, k)])"
    using c fresh(1) by (auto simp: indexed_def sorted_wrt_append intro: above_all)
  show ?thesis
    using c e fresh d so unfolding indexed_def by (auto simp: lru bt_get_modify)
qed

lemma unindex:
  assumes c: "indexed {} c" and e: "bt_get (cc_entries c) k = Some e"
  shows "indexed {k} (c\<lparr>cc_lru := bs_remove (ce_stamp e, k) (cc_lru c)\<rparr>) \<and>
    map snd (bs_remove (ce_stamp e, k) (cc_lru c)) = filter (\<lambda>k'. k' \<noteq> k) (map snd (cc_lru c))"
proof -
  have same: "x \<noteq> (ce_stamp e, k) \<longleftrightarrow> snd x \<noteq> k" if "x \<in> set (cc_lru c)" for x
    using c e that by (cases x) (auto simp: indexed_def)
  then have f: "bs_remove (ce_stamp e, k) (cc_lru c) = filter (\<lambda>x. snd x \<noteq> k) (cc_lru c)"
    unfolding bs_remove_def by (intro filter_cong) auto
  have "distinct (map fst (filter (\<lambda>x. snd x \<noteq> k) (cc_lru c)))"
    using c by (simp add: indexed_def distinct_map_filter)
  then show ?thesis
    using c unfolding f indexed_def by (auto simp: sorted_wrt_filter filter_map comp_def)
qed

lemma cache_get_spec:
  assumes ok: "cache_ok c"
  shows "cache_ok (snd (cache_get k c)) \<and> fst (cache_get k c) = map_of (recency c) k \<and>
    cc_maximum (snd (cache_get k c)) = cc_maximum c \<and>
    recency (snd (cache_get k c)) = (case map_of (recency c) k of
        None \<Rightarrow> recency c
      | Some s \<Rightarrow> filter (\<lambda>x. fst x \<noteq> k) (recency c) @ [(k, s)])"
proof -
  have c: "indexed {} c" "accounted c" using ok by (auto simp: cache_ok_def)
  show ?thesis
  proof (cases "bt_get (cc_entries c) k")
    case None
    with ok show ?thesis
      by (simp add: cache_get_def map_of_recency [OF c(1)] script_at_def)
  next
    case (Some e)
    let ?u = "c\<lparr>cc_lru := bs_remove (ce_stamp e, k) (cc_lru c)\<rparr>"
    obtain s a where sa: "allocate_stamp ?u = (s, a)" by force
    have u: "indexed {k} ?u" "map snd (cc_lru ?u) = filter (\<lambda>k'. k' \<noteq> k) (map snd (cc_lru c))"
      using unindex [OF c(1) Some] by auto
    have "length (cc_lru ?u) \<le> length (cc_lru c)" by (simp add: bs_remove_def)
    then have a: "indexed {k} a" "map snd (cc_lru a) = map snd (cc_lru ?u)" "contents a = contents c"
      "cc_bytes a = cc_bytes c" "cc_maximum a = cc_maximum c" "\<forall>x \<in> set (cc_lru a). fst x < s"
      "s < cc_next_stamp a"
      using allocate_stamp_spec [OF u(1) _ sa] lru_room [OF c] by auto
    obtain e' where e': "bt_get (cc_entries a) k = Some e'"
      using contents_eq_None [OF a(3), of k] Some by auto
    have get: "cache_get k c = (Some (ce_script e), restamp k s a)"
      by (simp add: cache_get_def Some sa Let_def)
    have r: "indexed {} (restamp k s a)" "map snd (cc_lru (restamp k s a)) = map snd (cc_lru a) @ [k]"
      using restamp_indexed [OF a(1) e' a(6,7)] by auto
    have ac: "accounted (restamp k s a)"
    proof (rule accounted_cong [THEN iffD2])
      show "contents (restamp k s a) = contents c" using a(3) by (simp add: contents_def)
    qed (simp_all add: a(4,5) c(2))
    have "script_at (restamp k s a) = script_at c"
      using a(3) by (intro script_at_cong) (simp add: contents_def)
    then have "recency (restamp k s a) = filter (\<lambda>x. fst x \<noteq> k) (recency c) @ [(k, ce_script e)]"
      using Some u(2) r(2) a(2)
      by (simp add: recency_def filter_map comp_def script_at_def)
    with get r ac show ?thesis
      by (simp add: cache_ok_def a(5) map_of_recency [OF c(1)] script_at_def Some)
  qed
qed

lemma accounted_remove:
  assumes "accounted c" "bt_ok (cc_entries c)" "bt_get (cc_entries c) k = Some e"
  shows "accounted (c\<lparr>cc_entries := bt_remove k (cc_entries c), cc_lru := l,
    cc_bytes := sat_sub (cc_bytes c) (ce_estimated_bytes e)\<rparr>)"
  using assms bt_weight_remove [OF assms(2), of ce_estimated_bytes k]
  by (auto simp: accounted_def sat_sub_def bt_remove_def)

lemma cache_remove_spec:
  assumes ok: "cache_ok c" and e: "bt_get (cc_entries c) k = Some e"
  shows "cache_ok (cache_remove k e c) \<and> cc_maximum (cache_remove k e c) = cc_maximum c \<and>
    bt_get (cc_entries (cache_remove k e c)) k = None \<and>
    recency (cache_remove k e c) = filter (\<lambda>x. fst x \<noteq> k) (recency c)"
proof -
  have c: "indexed {} c" "accounted c" using ok by (auto simp: cache_ok_def)
  have b: "bt_ok (cc_entries c)" using c(1) by (simp add: indexed_def)
  let ?l = "bs_remove (ce_stamp e, k) (cc_lru c)"
  have u: "indexed {k} (c\<lparr>cc_lru := ?l\<rparr>)" "map snd ?l = filter (\<lambda>k'. k' \<noteq> k) (map snd (cc_lru c))"
    using unindex [OF c(1) e] by auto
  have i: "indexed {} (cache_remove k e c)"
    using u(1) b unfolding indexed_def cache_remove_def
    by (auto simp: bt_ok_remove bt_get_remove)
  have "script_at (cache_remove k e c) k' = script_at c k'" if "k' \<noteq> k" for k'
    using that b by (simp add: script_at_def cache_remove_def bt_get_remove)
  then have "recency (cache_remove k e c) = filter (\<lambda>x. fst x \<noteq> k) (recency c)"
    unfolding recency_def using u(2) by (auto simp: cache_remove_def filter_map comp_def)
  with i show ?thesis
    using accounted_remove [OF c(2) b e] b
    by (simp add: cache_ok_def cache_remove_def bt_get_remove)
qed

lemma set_evict: "set (evict target xs) \<subseteq> set xs"
  by (induction xs) auto

lemma indexed_entry:
  "indexed H c \<Longrightarrow> (s, k) \<in> set (cc_lru c) \<Longrightarrow> \<exists>e. bt_get (cc_entries c) k = Some e \<and> ce_stamp e = s"
  by (simp add: indexed_def)

lemma evict_fits: "total_bytes xs \<le> target \<Longrightarrow> evict target xs = xs"
  by (cases xs) auto

lemma shrink_to_spec:
  assumes "cache_ok c"
  shows "cache_ok (shrink_to target c) \<and> cc_maximum (shrink_to target c) = cc_maximum c \<and>
    recency (shrink_to target c) = evict target (recency c)"
  using assms
proof (induction c rule: measure_induct_rule [of "\<lambda>c. length (cc_lru c)"])
  case (less c)
  have c: "indexed {} c" using less.prems by (simp add: cache_ok_def)
  have tb: "total_bytes (recency c) = cc_bytes c" by (rule total_bytes_recency [OF less.prems])
  show ?case
  proof (cases "cc_bytes c \<le> target")
    case True
    with tb less.prems show ?thesis by (simp add: shrink_to.simps [of target c] evict_fits)
  next
    case False
    then obtain s k rest where l: "cc_lru c = (s, k) # rest"
      using tb by (cases "cc_lru c") (auto simp: recency_def)
    then have "(s, k) \<in> set (cc_lru c)" by simp
    then obtain e where e: "bt_get (cc_entries c) k = Some e" "ce_stamp e = s"
      using indexed_entry [OF c] by blast
    have d: "distinct (cc_lru c)" using c by (auto simp: indexed_def distinct_map)
    have cr: "c\<lparr>cc_lru := rest, cc_entries := bt_remove k (cc_entries c),
        cc_bytes := sat_sub (cc_bytes c) (ce_estimated_bytes e)\<rparr> = cache_remove k e c"
    proof -
      have "bs_remove (s, k) (cc_lru c) = rest"
        using d by (auto simp: l bs_remove_def filter_id_conv)
      then show ?thesis by (simp add: cache_remove_def e(2))
    qed
    have step: "shrink_to target c = shrink_to target (cache_remove k e c)"
      using False l e by (simp add: shrink_to.simps [of target c] cr [symmetric])
    have r: "cache_ok (cache_remove k e c)" "cc_maximum (cache_remove k e c) = cc_maximum c"
      "recency (cache_remove k e c) = filter (\<lambda>x. fst x \<noteq> k) (recency c)"
      using cache_remove_spec [OF less.prems e(1)] by auto
    have "k \<notin> set (map snd rest)" using indexed_keys_distinct [OF c] by (simp add: l)
    then have "filter (\<lambda>x. fst x \<noteq> k) (recency c) = tl (recency c)"
      by (auto simp: recency_def l filter_id_conv)
    moreover have "evict target (recency c) = evict target (tl (recency c))"
      using False tb by (simp add: recency_def l)
    moreover have "length (cc_lru (cache_remove k e c)) < length (cc_lru c)"
      unfolding cr [symmetric] by (simp add: l)
    ultimately show ?thesis
      using less.IH [OF _ r(1)] r(2,3) by (simp add: step)
  qed
qed

definition insert_fresh_spec ::
    "nat \<Rightarrow> nat \<Rightarrow> out_point \<Rightarrow> bytes \<Rightarrow> (out_point \<times> bytes) list \<Rightarrow>
     bool \<times> (out_point \<times> bytes) list" where
  "insert_fresh_spec maximum reserved k s xs =
     (let available = maximum - reserved
      in if available < estimated_script_bytes s then (False, xs)
         else (True, evict (available - estimated_script_bytes s) (filter (\<lambda>x. fst x \<noteq> k) xs) @ [(k, s)]))"

text \<open>The abstract insertion: a contradicted script is dropped, a script that fits becomes the
  most recently used one.\<close>

definition insert_spec ::
    "nat \<Rightarrow> nat \<Rightarrow> out_point \<Rightarrow> bytes \<Rightarrow> (out_point \<times> bytes) list \<Rightarrow>
     bool \<times> (out_point \<times> bytes) list" where
  "insert_spec maximum reserved k s xs = (case map_of xs k of
     Some s' \<Rightarrow> if s' \<noteq> s then (False, filter (\<lambda>x. fst x \<noteq> k) xs)
       else insert_fresh_spec maximum reserved k s xs
   | None \<Rightarrow> insert_fresh_spec maximum reserved k s xs)"

text \<open>The last step of \<^verbatim>\<open>insert\<close>, on a cache that has room and does not hold the key.\<close>

lemma cache_add_spec:
  assumes ok: "cache_ok c" and new: "bt_get (cc_entries c) k = None"
    and room: "cc_bytes c + estimated_script_bytes script \<le> cc_maximum c"
    and sa: "allocate_stamp c = (s, a)"
  defines "c' \<equiv> a\<lparr>cc_bytes := sat_add (cc_bytes a) (estimated_script_bytes script),
      cc_entries := bt_insert k \<lparr> ce_script = script,
        ce_estimated_bytes = estimated_script_bytes script, ce_stamp = s \<rparr> (cc_entries a),
      cc_lru := bs_insert (s, k) (cc_lru a)\<rparr>"
  shows "cache_ok c' \<and> cc_maximum c' = cc_maximum c \<and> recency c' = recency c @ [(k, script)]"
proof -
  have c: "indexed {} c" "accounted c" using ok by (auto simp: cache_ok_def)
  have a: "indexed {} a" "map snd (cc_lru a) = map snd (cc_lru c)" "contents a = contents c"
    "cc_bytes a = cc_bytes c" "cc_maximum a = cc_maximum c" "\<forall>x \<in> set (cc_lru a). fst x < s"
    "s < cc_next_stamp a"
    using allocate_stamp_spec [OF c(1) lru_room [OF c] sa] by auto
  have na: "bt_get (cc_entries a) k = None" using contents_eq_None [OF a(3)] new by simp
  have aa: "accounted a" using accounted_cong [OF a(3-5)] c(2) by simp
  have b: "bt_ok (cc_entries a)" using a(1) by (simp add: indexed_def)
  have lru: "bs_insert (s, k) (cc_lru a) = cc_lru a @ [(s, k)]"
    using a(1,6) by (intro bs_insert_last above_all) (auto simp: indexed_def)
  have "s \<notin> fst ` set (cc_lru a)" using a(6) by auto
  then have d: "distinct (map fst (cc_lru a @ [(s, k)]))" using a(1) by (auto simp: indexed_def)
  have so: "bs_ok (cc_lru a @ [(s, k)])"
    using a(1,6) by (auto simp: indexed_def sorted_wrt_append intro: above_all)
  have "indexed {} c'"
    using a(1,6,7) na b d so unfolding indexed_def c'_def
    by (auto simp: lru bt_ok_insert bt_get_insert)
  moreover have "accounted c'"
    using aa room a(4,5) b na
    by (auto simp: accounted_def c'_def set_bt_insert bt_insert_fresh_weight sat_add_def)
  moreover have "recency c' = recency c @ [(k, script)]"
  proof -
    have nk: "k \<notin> set (map snd (cc_lru a))" using indexed_keys [OF a(1)] na by simp
    have other: "script_at c' k' = script_at c k'" if "k' \<noteq> k" for k'
      using that b script_at_cong [OF a(3)] by (auto simp: script_at_def c'_def bt_get_insert fun_eq_iff)
    have "script_at c' k = Some script" by (simp add: script_at_def c'_def bt_get_insert b)
    moreover have "recency c' = map (\<lambda>k. (k, the (script_at c' k))) (map snd (cc_lru c)) @
        [(k, the (script_at c' k))]"
      unfolding a(2) [symmetric] by (simp add: recency_def c'_def lru)
    moreover have "map (\<lambda>k. (k, the (script_at c' k))) (map snd (cc_lru c)) = recency c"
      unfolding recency_def
    proof (rule map_cong [OF refl])
      fix x assume "x \<in> set (map snd (cc_lru c))"
      with nk a(2) have "x \<noteq> k" by metis
      with other show "(x, the (script_at c' x)) = (x, the (script_at c x))" by simp
    qed
    ultimately show ?thesis by simp
  qed
  ultimately show ?thesis by (simp add: cache_ok_def c'_def a(5))
qed

lemma cache_insert_fresh_spec:
  assumes ok: "cache_ok c"
  shows "cache_ok (snd (cache_insert_fresh k script reserved c)) \<and>
    cc_maximum (snd (cache_insert_fresh k script reserved c)) = cc_maximum c \<and>
    (fst (cache_insert_fresh k script reserved c), recency (snd (cache_insert_fresh k script reserved c))) =
      insert_fresh_spec (cc_maximum c) reserved k script (recency c)"
proof (cases "sat_sub (cc_maximum c) reserved < estimated_script_bytes script")
  case True
  with ok show ?thesis by (simp add: cache_insert_fresh_def insert_fresh_spec_def sat_sub_def)
next
  case False
  let ?e = "estimated_script_bytes script"
  let ?t = "cc_maximum c - reserved - ?e"
  define r where "r = (case bt_get (cc_entries c) k of Some existing \<Rightarrow> cache_remove k existing c | None \<Rightarrow> c)"
  have r: "cache_ok r" "cc_maximum r = cc_maximum c" "bt_get (cc_entries r) k = None"
    "recency r = filter (\<lambda>x. fst x \<noteq> k) (recency c)"
  proof -
    have "filter (\<lambda>x. fst x \<noteq> k) (recency c) = recency c" if "bt_get (cc_entries c) k = None"
      using that indexed_keys [of "{}" c] ok
      by (auto simp: filter_id_conv recency_def cache_ok_def image_iff) force
    then show "cache_ok r" "cc_maximum r = cc_maximum c" "bt_get (cc_entries r) k = None"
      "recency r = filter (\<lambda>x. fst x \<noteq> k) (recency c)"
      using ok cache_remove_spec [OF ok, of k] by (auto simp: r_def split: option.splits)
  qed
  define t where "t = shrink_to ?t r"
  have t: "cache_ok t" "cc_maximum t = cc_maximum c" "recency t = evict ?t (recency r)"
    using shrink_to_spec [OF r(1), of ?t] r(2) by (auto simp: t_def)
  have "k \<notin> fst ` set (recency t)"
    using set_evict [of ?t "recency r"] r(4) by (auto simp: t(3))
  then have "map_of (recency t) k = None" by (simp add: map_of_eq_None_iff)
  then have n: "bt_get (cc_entries t) k = None"
    using map_of_recency [of t k] t(1) by (simp add: cache_ok_def script_at_def)
  have "cc_bytes t \<le> ?t"
    using total_bytes_recency [OF t(1)] total_bytes_evict [of ?t "recency r"] t(3) by simp
  then have room: "cc_bytes t + ?e \<le> cc_maximum t" using False t(2) by (simp add: sat_sub_def)
  obtain s a where sa: "allocate_stamp t = (s, a)" by force
  have eq: "cache_insert_fresh k script reserved c = (True, a\<lparr>cc_bytes := sat_add (cc_bytes a) ?e,
      cc_entries := bt_insert k \<lparr> ce_script = script, ce_estimated_bytes = ?e, ce_stamp = s \<rparr> (cc_entries a),
      cc_lru := bs_insert (s, k) (cc_lru a)\<rparr>)"
    using False unfolding cache_insert_fresh_def Let_def r_def [symmetric] sat_sub_def t_def [symmetric] sa
    by simp
  have "insert_fresh_spec (cc_maximum c) reserved k script (recency c) = (True, recency t @ [(k, script)])"
    using False t(3) r(4) by (simp add: insert_fresh_spec_def sat_sub_def)
  then show ?thesis
    using cache_add_spec [OF t(1) n room sa] t(2) unfolding eq by simp
qed

lemma cache_insert_spec:
  assumes ok: "cache_ok c"
  shows "cache_ok (snd (cache_insert k script reserved c)) \<and>
    cc_maximum (snd (cache_insert k script reserved c)) = cc_maximum c \<and>
    (fst (cache_insert k script reserved c), recency (snd (cache_insert k script reserved c))) =
      insert_spec (cc_maximum c) reserved k script (recency c)"
  using ok cache_insert_fresh_spec [OF ok, of k script reserved] cache_remove_spec [OF ok, of k]
    map_of_recency [of c k]
  by (auto simp: cache_insert_def insert_spec_def cache_ok_def script_at_def split: option.splits)

lemma recency_held: "indexed {} c \<Longrightarrow> script_at c = map_of (recency c)"
  by (rule ext) (simp add: map_of_recency)

lemma reserve_spec:
  assumes "cache_ok c"
  shows "cache_ok (reserve_for_outputs n c) \<and> cc_maximum (reserve_for_outputs n c) = cc_maximum c \<and>
    recency (reserve_for_outputs n c) = evict (cc_maximum c - n) (recency c)"
  using shrink_to_spec [OF assms] by (simp add: reserve_for_outputs_def sat_sub_def)

lemma map_of_evict:
  assumes "distinct (map fst xs)" "map_of (evict target xs) k = Some v"
  shows "map_of xs k = Some v"
proof -
  have "(k, v) \<in> set xs" using assms(2) set_evict [of target xs] by (auto dest: map_of_SomeD)
  with assms(1) show ?thesis by simp
qed

lemma recency_distinct: "cache_ok c \<Longrightarrow> distinct (map fst (recency c))"
  using indexed_keys_distinct [of "{}" c] by (simp add: cache_ok_def)

section \<open>The interface of a fact cache\<close>

text \<open>
  What the resolver relies on: a lookup answers from what is held and forgets nothing, a store
  adds at most the given fact, refuses to hold a contradicted one, and no operation outgrows the
  capacity.
\<close>

datatype ('k, 'v) cache_op = LookUp 'k | Store 'k 'v nat | Reserve nat

locale fact_cache =
  fixes ok :: "'c \<Rightarrow> bool"
    and held :: "'c \<Rightarrow> 'k \<Rightarrow> 'v option"
    and used :: "'c \<Rightarrow> nat"
    and capacity :: "'c \<Rightarrow> nat"
    and get :: "'k \<Rightarrow> 'c \<Rightarrow> 'v option \<times> 'c"
    and put :: "'k \<Rightarrow> 'v \<Rightarrow> nat \<Rightarrow> 'c \<Rightarrow> bool \<times> 'c"
    and reserve :: "nat \<Rightarrow> 'c \<Rightarrow> 'c"
  assumes get_ok: "ok c \<Longrightarrow> ok (snd (get k c))"
    and get_answer: "ok c \<Longrightarrow> fst (get k c) = held c k"
    and get_keeps: "ok c \<Longrightarrow> held (snd (get k c)) = held c"
    and put_ok: "ok c \<Longrightarrow> ok (snd (put k v r c))"
    and put_only: "ok c \<Longrightarrow> held (snd (put k v r c)) j = Some w \<Longrightarrow> held c j = Some w \<or> j = k \<and> w = v"
    and put_stores: "ok c \<Longrightarrow> fst (put k v r c) \<Longrightarrow> held (snd (put k v r c)) k = Some v"
    and put_contradicted: "ok c \<Longrightarrow> held c k = Some w \<Longrightarrow> w \<noteq> v \<Longrightarrow> held (snd (put k v r c)) k = None"
    and reserve_ok: "ok c \<Longrightarrow> ok (reserve n c)"
    and reserve_only: "ok c \<Longrightarrow> held (reserve n c) j = Some w \<Longrightarrow> held c j = Some w"
    and within: "ok c \<Longrightarrow> used c \<le> capacity c"
    and capacity_get: "ok c \<Longrightarrow> capacity (snd (get k c)) = capacity c"
    and capacity_put: "ok c \<Longrightarrow> capacity (snd (put k v r c)) = capacity c"
    and capacity_reserve: "ok c \<Longrightarrow> capacity (reserve n c) = capacity c"
begin

lemma run_ok:
  "ok c \<Longrightarrow> ok (fold (\<lambda>q c. case q of LookUp k \<Rightarrow> snd (get k c) | Store k v r \<Rightarrow> snd (put k v r c)
      | Reserve n \<Rightarrow> reserve n c) qs c)"
  by (induction qs arbitrary: c) (auto simp: get_ok put_ok reserve_ok split: cache_op.splits)

lemma run_capacity:
  "ok c \<Longrightarrow> capacity (fold (\<lambda>q c. case q of LookUp k \<Rightarrow> snd (get k c) | Store k v r \<Rightarrow> snd (put k v r c)
      | Reserve n \<Rightarrow> reserve n c) qs c) = capacity c"
  by (induction qs arbitrary: c)
    (auto simp: get_ok put_ok reserve_ok capacity_get capacity_put capacity_reserve split: cache_op.splits)

lemma run_only_stored:
  "ok c \<Longrightarrow> held (fold (\<lambda>q c. case q of LookUp k \<Rightarrow> snd (get k c) | Store k v r \<Rightarrow> snd (put k v r c)
      | Reserve n \<Rightarrow> reserve n c) qs c) j = Some w \<Longrightarrow>
     held c j = Some w \<or> (\<exists>r. Store j w r \<in> set qs)"
proof (induction qs arbitrary: c)
  case (Cons q qs)
  show ?case
  proof (cases q)
    case (LookUp k)
    then show ?thesis using Cons.prems Cons.IH [of "snd (get k c)"]
      by (auto simp: get_ok get_keeps)
  next
    case (Store k v r)
    then show ?thesis using Cons.prems Cons.IH [of "snd (put k v r c)"] put_only [OF Cons.prems(1), of k v r j w]
      by (auto simp: put_ok)
  next
    case (Reserve n)
    then show ?thesis using Cons.prems Cons.IH [of "reserve n c"] reserve_only [OF Cons.prems(1), of n j w]
      by (auto simp: reserve_ok)
  qed
qed simp

end

lemma map_of_filter_key: "map_of (filter (\<lambda>x. fst x \<noteq> k) xs) j = (if j = k then None else map_of xs j)"
  by (induction xs) auto

lemma insert_spec_only:
  assumes "distinct (map fst xs)" "map_of (snd (insert_spec m r k v xs)) j = Some w"
  shows "map_of xs j = Some w \<or> j = k \<and> w = v"
proof -
  have d: "distinct (map fst (filter (\<lambda>x. fst x \<noteq> k) xs))" using assms(1) by (rule distinct_map_filter)
  have "map_of xs j = Some w \<or> j = k \<and> w = v"
    if "map_of (evict t (filter (\<lambda>x. fst x \<noteq> k) xs) @ [(k, v)]) j = Some w" for t
    using that map_of_evict [OF d, of t j w]
    by (auto simp: map_add_Some_iff map_of_filter_key split: if_splits)
  with assms(2) show ?thesis
    by (auto simp: insert_spec_def insert_fresh_spec_def Let_def map_of_filter_key
        split: option.splits if_splits)
qed

lemma insert_spec_stores:
  "fst (insert_spec m r k v xs) \<Longrightarrow> map_of (snd (insert_spec m r k v xs)) k = Some v"
proof -
  have "map_of (evict t (filter (\<lambda>x. fst x \<noteq> k) xs) @ [(k, v)]) k = Some v" for t
  proof -
    have "k \<notin> fst ` set (evict t (filter (\<lambda>x. fst x \<noteq> k) xs))"
      using set_evict [of t "filter (\<lambda>x. fst x \<noteq> k) xs"] by auto
    then have "map_of (evict t (filter (\<lambda>x. fst x \<noteq> k) xs)) k = None" by (simp add: map_of_eq_None_iff)
    then show ?thesis by (simp add: map_add_def)
  qed
  then show "fst (insert_spec m r k v xs) \<Longrightarrow> map_of (snd (insert_spec m r k v xs)) k = Some v"
    by (auto simp: insert_spec_def insert_fresh_spec_def Let_def split: option.splits if_splits)
qed

lemma script_at_insert:
  "cache_ok c \<Longrightarrow> script_at (snd (cache_insert k s r c)) = map_of (snd (insert_spec (cc_maximum c) r k s (recency c)))"
  using cache_insert_spec [of c k s r] recency_held [of "snd (cache_insert k s r c)"]
  by (metis cache_ok_def prod.sel(2))

lemma fst_cache_insert:
  "cache_ok c \<Longrightarrow> fst (cache_insert k s r c) = fst (insert_spec (cc_maximum c) r k s (recency c))"
  using cache_insert_spec [of c k s r] by (metis prod.sel(1))

lemma script_at_get: "cache_ok c \<Longrightarrow> script_at (snd (cache_get k c)) = script_at c"
proof -
  assume ok: "cache_ok c"
  have "map_of (filter (\<lambda>x. fst x \<noteq> k) (recency c) @ [(k, s)]) = map_of (recency c)"
    if "map_of (recency c) k = Some s" for s
    using that by (auto simp: fun_eq_iff map_add_def map_of_filter_key split: option.splits)
  with cache_get_spec [OF ok, of k] ok show ?thesis
    by (auto simp: recency_held cache_ok_def split: option.splits)
qed

interpretation confirmed: fact_cache cache_ok script_at cc_bytes cc_maximum cache_get cache_insert
  reserve_for_outputs
proof unfold_locales
  fix c :: confirmed_cache and k j :: out_point and s w :: bytes and r n :: nat
  assume ok: "cache_ok c"
  have held: "script_at c = map_of (recency c)" using ok by (simp add: recency_held cache_ok_def)
  note sp = cache_insert_spec [OF ok, of k s r] and gs = cache_get_spec [OF ok, of k]
    and rs = reserve_spec [OF ok, of n]
  show "cache_ok (snd (cache_get k c))" "cache_ok (snd (cache_insert k s r c))"
    "cache_ok (reserve_for_outputs n c)" using sp gs rs by auto
  show "fst (cache_get k c) = script_at c k" using gs held by simp
  show "script_at (snd (cache_get k c)) = script_at c" using ok by (rule script_at_get)
  show "script_at (snd (cache_insert k s r c)) j = Some w \<Longrightarrow> script_at c j = Some w \<or> j = k \<and> w = s"
    using insert_spec_only [OF recency_distinct [OF ok]] by (simp add: script_at_insert [OF ok] held)
  show "fst (cache_insert k s r c) \<Longrightarrow> script_at (snd (cache_insert k s r c)) k = Some s"
    by (simp add: script_at_insert [OF ok] fst_cache_insert [OF ok] insert_spec_stores)
  show "script_at c k = Some w \<Longrightarrow> w \<noteq> s \<Longrightarrow> script_at (snd (cache_insert k s r c)) k = None"
    by (simp add: script_at_insert [OF ok] held insert_spec_def map_of_filter_key)
  show "script_at (reserve_for_outputs n c) j = Some w \<Longrightarrow> script_at c j = Some w"
    using rs map_of_evict [OF recency_distinct [OF ok]] by (simp add: recency_held cache_ok_def held)
  show "cc_bytes c \<le> cc_maximum c" using ok by (simp add: cache_ok_def accounted_def)
  show "cc_maximum (snd (cache_get k c)) = cc_maximum c"
    "cc_maximum (snd (cache_insert k s r c)) = cc_maximum c"
    "cc_maximum (reserve_for_outputs n c) = cc_maximum c" using sp rs gs by auto
qed

section \<open>Properties\<close>

lemma cache_new_ok: "maximum \<le> usize_max \<Longrightarrow> cache_ok (cache_new maximum)"
  by (simp add: cache_new_def cache_ok_def indexed_def accounted_def)

text \<open>The abstract lookup: a hit becomes the most recently used key.\<close>

definition get_spec :: "out_point \<Rightarrow> (out_point \<times> bytes) list \<Rightarrow> bytes option \<times> (out_point \<times> bytes) list" where
  "get_spec k xs = (map_of xs k, (case map_of xs k of
     None \<Rightarrow> xs | Some s \<Rightarrow> filter (\<lambda>x. fst x \<noteq> k) xs @ [(k, s)]))"

definition cache_step :: "(out_point, bytes) cache_op \<Rightarrow> confirmed_cache \<Rightarrow> confirmed_cache" where
  "cache_step q c = (case q of LookUp k \<Rightarrow> snd (cache_get k c)
     | Store k s r \<Rightarrow> snd (cache_insert k s r c) | Reserve n \<Rightarrow> reserve_for_outputs n c)"

lemma fold_cache_step: "fold cache_step = fold (\<lambda>q c. case q of LookUp k \<Rightarrow> snd (cache_get k c)
     | Store k s r \<Rightarrow> snd (cache_insert k s r c) | Reserve n \<Rightarrow> reserve_for_outputs n c)"
  by (rule arg_cong [of _ _ fold]) (auto simp: cache_step_def fun_eq_iff)

text \<open>The same steps on the recency list.\<close>

definition lru_step :: "nat \<Rightarrow> (out_point, bytes) cache_op \<Rightarrow> (out_point \<times> bytes) list \<Rightarrow> (out_point \<times> bytes) list" where
  "lru_step maximum q xs = (case q of LookUp k \<Rightarrow> snd (get_spec k xs)
     | Store k s r \<Rightarrow> snd (insert_spec maximum r k s xs) | Reserve n \<Rightarrow> evict (maximum - n) xs)"

lemma cache_step_spec:
  assumes "cache_ok c"
  shows "cache_ok (cache_step q c) \<and> cc_maximum (cache_step q c) = cc_maximum c \<and>
    recency (cache_step q c) = lru_step (cc_maximum c) q (recency c)"
proof (cases q)
  case (LookUp k)
  then show ?thesis using cache_get_spec [OF assms, of k] by (simp add: cache_step_def lru_step_def get_spec_def)
next
  case (Store k s r)
  then show ?thesis using cache_insert_spec [OF assms, of k s r]
    by (simp add: cache_step_def lru_step_def) (metis prod.sel(2))
next
  case (Reserve n)
  then show ?thesis using reserve_spec [OF assms, of n] by (simp add: cache_step_def lru_step_def)
qed

lemma cache_run_spec:
  assumes "cache_ok c"
  shows "recency (fold cache_step qs c) = fold (lru_step (cc_maximum c)) qs (recency c) \<and>
    cc_maximum (fold cache_step qs c) = cc_maximum c"
  using assms by (induction qs arbitrary: c) (simp_all add: cache_step_spec)

definition example_ops :: "(out_point, bytes) cache_op list" where
  "example_ops =
     [Store (OutPoint [1] 0) [0x51] 0, Store (OutPoint [2] 0) [0x52] 0, LookUp (OutPoint [1] 0)]"

definition example_cache :: confirmed_cache where
  "example_cache = fold cache_step example_ops (cache_new 1030)"

lemma example_cache_ok: "cache_ok example_cache"
  unfolding example_cache_def fold_cache_step
  by (rule confirmed.run_ok) (simp add: cache_new_ok)

lemma cache_new_view [simp]: "recency (cache_new n) = []" "cc_maximum (cache_new n) = n"
  by (simp_all add: cache_new_def recency_def)

lemmas lru_evaluation = insert_spec_def insert_fresh_spec_def get_spec_def lru_step_def
  estimated_script_bytes_def sat_add_def ESTIMATED_JSON_BYTES_PER_RESPONSE_def

lemma example_cache_view:
  "recency example_cache = [(OutPoint [2] 0, [0x52]), (OutPoint [1] 0, [0x51])]"
  "cc_maximum example_cache = 1030"
  using cache_run_spec [of "cache_new 1030" example_ops]
  by (simp_all add: example_cache_def cache_new_ok example_ops_def lru_evaluation)

text \<open>
  C23: The three operations of \<^verbatim>\<open>ConfirmedScriptCache\<close> are those of a weighted LRU list. A lookup
  returns the held script and makes its key the most recently used; an insertion drops a key whose
  held script differs, refuses a script that cannot fit beside the reserved bytes, and otherwise
  evicts from the least recently used end exactly until the new script fits; a reservation evicts
  in the same order. The stamps, their renumbering at \<^verbatim>\<open>u64::MAX\<close>, and the byte counter stay
  consistent throughout.
\<close>

theorem confirmed_cache_is_lru:
  assumes "cache_ok c"
  shows "cache_ok (snd (cache_get k c)) \<and>
    (fst (cache_get k c), recency (snd (cache_get k c))) = get_spec k (recency c) \<and>
    cache_ok (snd (cache_insert k s r c)) \<and>
    (fst (cache_insert k s r c), recency (snd (cache_insert k s r c))) =
      insert_spec (cc_maximum c) r k s (recency c) \<and>
    cache_ok (reserve_for_outputs n c) \<and>
    recency (reserve_for_outputs n c) = evict (cc_maximum c - n) (recency c)"
  using cache_get_spec [OF assms, of k] cache_insert_spec [OF assms, of k s r] reserve_spec [OF assms, of n]
  by (simp add: get_spec_def)

theorem confirmed_cache_is_lru_witness:
  "fst (cache_insert (OutPoint [3] 0) [0x53] 0 example_cache) \<and>
   recency (snd (cache_insert (OutPoint [3] 0) [0x53] 0 example_cache)) =
     [(OutPoint [1] 0, [0x51]), (OutPoint [3] 0, [0x53])]"
proof -
  have "insert_spec (cc_maximum example_cache) 0 (OutPoint [3] 0) [0x53] (recency example_cache) =
    (True, [(OutPoint [1] 0, [0x51]), (OutPoint [3] 0, [0x53])])"
    by (simp add: example_cache_view lru_evaluation)
  then show ?thesis
    using confirmed_cache_is_lru [OF example_cache_ok, of "OutPoint [3] 0" "[0x53]" 0 0] by simp
qed

text \<open>
  C31: However lookups, insertions and reservations are interleaved, a confirmed cache never uses more
  than its configured bytes, and every script it returns is one that was inserted for that very
  outpoint.
\<close>

theorem cache_runs_bounded_and_sound:
  assumes "maximum \<le> usize_max"
  shows "cc_bytes (fold cache_step qs (cache_new maximum)) \<le> maximum \<and>
    list_all (\<lambda>(k, s). list_ex (\<lambda>q. case q of Store k' s' _ \<Rightarrow> k' = k \<and> s' = s | _ \<Rightarrow> False) qs)
      (recency (fold cache_step qs (cache_new maximum)))"
proof -
  let ?c = "fold cache_step qs (cache_new maximum)"
  have ok: "cache_ok (cache_new maximum)" using assms by (rule cache_new_ok)
  have run: "cache_ok ?c" unfolding fold_cache_step by (rule confirmed.run_ok [OF ok])
  have "cc_maximum ?c = maximum"
    using confirmed.run_capacity [OF ok, of qs] by (simp add: fold_cache_step cache_new_def)
  then have bytes: "cc_bytes ?c \<le> maximum" using confirmed.within [OF run] by simp
  have "\<exists>r. Store k s r \<in> set qs" if "(k, s) \<in> set (recency ?c)" for k s
  proof -
    have "script_at ?c k = Some s"
      using that run recency_distinct [OF run] by (simp add: recency_held cache_ok_def)
    then show ?thesis
      using confirmed.run_only_stored [OF ok, of qs k s]
      by (auto simp: fold_cache_step script_at_def cache_new_def)
  qed
  then have "list_ex (\<lambda>q. case q of Store k' s' _ \<Rightarrow> k' = k \<and> s' = s | _ \<Rightarrow> False) qs"
    if "(k, s) \<in> set (recency ?c)" for k s
    using that by (force simp: list_ex_iff)
  with bytes show ?thesis by (auto simp: list_all_iff)
qed

theorem cache_runs_bounded_and_sound_witness:
  "cc_bytes example_cache \<le> 1030 \<and> recency example_cache =
     [(OutPoint [2] 0, [0x52]), (OutPoint [1] 0, [0x51])]"
  using cache_runs_bounded_and_sound [of 1030 example_ops] example_cache_view
  by (simp add: example_cache_def [symmetric])

lemma script_bytes_pos: "0 < estimated_script_bytes s"
  by (simp add: estimated_script_bytes_def sat_add_def ESTIMATED_JSON_BYTES_PER_RESPONSE_def)

text \<open>After a successful insertion the cache leaves the reserved bytes free.\<close>

lemma insert_leaves_room:
  assumes "cache_ok c" "fst (cache_insert k s r c)"
  shows "cc_bytes (snd (cache_insert k s r c)) + r \<le> cc_maximum c"
proof -
  let ?c = "snd (cache_insert k s r c)"
  have ok: "cache_ok ?c" using cache_insert_spec [OF assms(1)] by simp
  have sp: "(True, recency ?c) = insert_spec (cc_maximum c) r k s (recency c)"
    using cache_insert_spec [OF assms(1), of k s r] assms(2) by simp
  have fits: "total_bytes xs + r \<le> m" if "insert_fresh_spec m r k s ys = (True, xs)" for m xs ys
    using that total_bytes_evict [of "m - r - estimated_script_bytes s" "filter (\<lambda>x. fst x \<noteq> k) ys"]
      script_bytes_pos [of s]
    by (clarsimp simp: insert_fresh_spec_def Let_def simp del: diff_diff_left split: if_splits) linarith
  have "total_bytes (recency ?c) + r \<le> cc_maximum c"
    using sp [symmetric] fits by (auto simp: insert_spec_def split: option.splits if_splits)
  then show ?thesis by (simp add: total_bytes_recency [OF ok])
qed

lemma insert_bytes_le:
  assumes "cache_ok c" "\<not> fst (cache_insert k s r c)"
  shows "cc_bytes (snd (cache_insert k s r c)) \<le> cc_bytes c"
proof -
  let ?c = "snd (cache_insert k s r c)"
  have ok: "cache_ok ?c" using cache_insert_spec [OF assms(1)] by simp
  have sp: "(False, recency ?c) = insert_spec (cc_maximum c) r k s (recency c)"
    using cache_insert_spec [OF assms(1), of k s r] assms(2) by simp
  have le: "total_bytes (filter P xs) \<le> total_bytes xs" for P xs by (induction xs) auto
  have "total_bytes (recency ?c) \<le> total_bytes (recency c)"
    using sp le [of "\<lambda>x. fst x \<noteq> k" "recency c"]
    by (simp add: insert_spec_def insert_fresh_spec_def Let_def split: option.splits if_splits)
  then show ?thesis by (simp add: total_bytes_recency [OF ok] total_bytes_recency [OF assms(1)])
qed

lemma reserve_bytes:
  assumes "cache_ok c"
  shows "cc_bytes (reserve_for_outputs n c) \<le> cc_maximum c - n"
  using reserve_spec [OF assms, of n] total_bytes_evict [of "cc_maximum c - n" "recency c"]
  by (metis total_bytes_recency)

end
