(* ===== verification/Pending.thy ===== *)
theory Pending
  imports Script_Cache_Props
begin

text \<open>
  The pending slice of \<^verbatim>\<open>src/classification.rs\<close>: the admitted transactions of one generation and
  the facts (scripts of the outputs they spend) they wait for. A fact is a small state machine
  that moves through waiting for a parent transaction or a confirmed output, a bounded number of
  attempts, a script, an explicit absence, a capacity block or a deferral; a candidate is classified
  when all its facts are terminal. Text forms of txids are the \<^verbatim>\<open>bitcoin\<close> crate's and a parameter;
  \<open>None\<close> as the result of \<open>classify_ready\<close> is its \<^verbatim>\<open>unreachable!\<close> or \<^verbatim>\<open>expect\<close>.
\<close>

section \<open>State\<close>

text \<open>\<^verbatim>\<open>str::parse::<Txid>\<close> and \<^verbatim>\<open>Txid::to_string\<close>.\<close>

record txid_codec =
  parse_txid :: "string \<Rightarrow> txid option"
  show_txid :: "txid \<Rightarrow> string"

record current_variant =
  cv_wtxid :: string
  cv_vsize :: u64

record prepared_candidate =
  pr_expected :: expected_variant
  pr_transaction :: transaction

record pending_candidate =
  pc_expected :: expected_variant
  pc_transaction :: transaction
  pc_required :: "out_point list"
  fact_cursor :: nat

datatype fact_source = CurrentParent | ConfirmedOutput | ParentFallback

datatype fact_state =
    Ready bytes
  | Awaiting fact_source u8
  | CapacityBlocked fact_source
  | OperationallyDeferred
  | ExplicitlyMissing

record pending_slice =
  pd_queued :: "prepared_candidate list"
  pd_active :: "(string, pending_candidate) btree"
  pd_fair_order :: "string list"
  pd_facts :: "(out_point, fact_state) btree"
  pd_deferred :: "out_point bset"
  pd_raw_outputs :: "(txid, cached_outputs) btree"
  pd_script_bytes :: nat

record cached_classification =
  cc_classification :: transaction_classification
  cc_retryable :: bool

datatype 'a rpc_value = Found 'a | ExplicitNull | RetryableFailure | SystemicFailure

section \<open>Byte accounting\<close>

fun fact_bytes :: "nat \<Rightarrow> fact_state \<Rightarrow> nat" where
  "fact_bytes n (Ready script) = sat_add n (estimated_script_bytes script)"
| "fact_bytes n _ = n"

definition recount_script_bytes :: "pending_slice \<Rightarrow> pending_slice" where
  "recount_script_bytes p = p\<lparr>pd_script_bytes := foldl fact_bytes 0 (map snd (pd_facts p))\<rparr>"

definition drop_unreferenced_facts :: "pending_slice \<Rightarrow> pending_slice" where
  "drop_unreferenced_facts p =
     (let referenced = bs_of_list (concat (map (pc_required \<circ> snd) (pd_active p)))
      in recount_script_bytes (p\<lparr>pd_facts := bt_retain (\<lambda>k _. k \<in> set referenced) (pd_facts p)\<rparr>))"

definition has_pending_script_capacity :: "resolver_limits \<Rightarrow> pending_slice \<Rightarrow> bool" where
  "has_pending_script_capacity lim p \<longleftrightarrow> pd_script_bytes p < max_pending_script_bytes lim"

text \<open>The part of \<^verbatim>\<open>store_script\<close> for a fact that may still take a script.\<close>

definition admit_script :: "out_point \<Rightarrow> bytes \<Rightarrow> nat \<Rightarrow> pending_slice \<Rightarrow> bool \<times> pending_slice" where
  "admit_script k script maximum p =
     (case checked_add (pd_script_bytes p) (estimated_script_bytes script) of
        None \<Rightarrow> (False, p)
      | Some new_total \<Rightarrow>
          if maximum < new_total then (False, p)
          else (True, p\<lparr>pd_facts := bt_modify k (\<lambda>_. Ready script) (pd_facts p),
                        pd_script_bytes := new_total\<rparr>))"

definition store_script :: "out_point \<Rightarrow> bytes \<Rightarrow> nat \<Rightarrow> pending_slice \<Rightarrow> bool \<times> pending_slice" where
  "store_script k script maximum p = (case bt_get (pd_facts p) k of
     Some (Ready _) \<Rightarrow> (True, p)
   | Some (Awaiting _ _) \<Rightarrow> admit_script k script maximum p
   | Some (CapacityBlocked _) \<Rightarrow> admit_script k script maximum p
   | _ \<Rightarrow> (False, p))"

definition mark_capacity_blocked :: "out_point \<Rightarrow> pending_slice \<Rightarrow> pending_slice" where
  "mark_capacity_blocked k p = (case bt_get (pd_facts p) k of
     Some (Awaiting source _) \<Rightarrow> p\<lparr>pd_facts := bt_insert k (CapacityBlocked source) (pd_facts p)\<rparr>
   | Some (CapacityBlocked source) \<Rightarrow> p\<lparr>pd_facts := bt_insert k (CapacityBlocked source) (pd_facts p)\<rparr>
   | _ \<Rightarrow> p)"

text \<open>
  The step every resolving loop takes on a known script: store it and count it as resolved, or
  block the fact and count it as deferred by capacity.
\<close>

definition store_or_block ::
    "resolver_limits \<Rightarrow> out_point \<Rightarrow> bytes \<Rightarrow> nat \<times> nat \<times> pending_slice \<Rightarrow> nat \<times> nat \<times> pending_slice" where
  "store_or_block lim k script = (\<lambda>(resolved, blocked, p).
     (case store_script k script (max_pending_script_bytes lim) p of
        (True, p) \<Rightarrow> (resolved + 1, blocked, p)
      | (False, p) \<Rightarrow> (resolved, blocked + 1, mark_capacity_blocked k p)))"

section \<open>Admission\<close>

definition unique_prevouts :: "rust_bitcoin \<Rightarrow> transaction \<Rightarrow> out_point bset" where
  "unique_prevouts lib tx = bs_of_list (map previous_output
     (filter (\<lambda>i. \<not> is_null lib (previous_output i)) (tx_inputs tx)))"

definition initial_fact :: "(txid, current_variant) btree \<Rightarrow> pending_slice \<Rightarrow> out_point \<Rightarrow> fact_state" where
  "initial_fact variants p k =
     (if k \<in> set (pd_deferred p) then OperationallyDeferred
      else Awaiting (if bt_contains variants (op_txid k) then CurrentParent else ConfirmedOutput) 0)"

text \<open>The body of the loop for one admitted candidate.\<close>

definition activate ::
    "rust_bitcoin \<Rightarrow> (txid, current_variant) btree \<Rightarrow> prepared_candidate \<Rightarrow> pending_slice \<Rightarrow> pending_slice" where
  "activate lib variants next p =
     (let unique = unique_prevouts lib (pr_transaction next); key = ev_wtxid (pr_expected next)
      in p\<lparr>pd_facts := fold (\<lambda>k. bt_or_insert k (initial_fact variants p k)) unique (pd_facts p),
           pd_fair_order := pd_fair_order p @ [key],
           pd_active := bt_insert key \<lparr> pc_expected = pr_expected next,
             pc_transaction = pr_transaction next, pc_required = unique, fact_cursor = 0 \<rparr>
             (pd_active p)\<rparr>)"

definition window_full :: "rust_bitcoin \<Rightarrow> resolver_limits \<Rightarrow> prepared_candidate \<Rightarrow> pending_slice \<Rightarrow> bool" where
  "window_full lib lim next p \<longleftrightarrow>
     (let new_facts = length (filter (\<lambda>k. \<not> bt_contains (pd_facts p) k)
            (unique_prevouts lib (pr_transaction next)))
      in pd_active p \<noteq> [] \<and>
         max_unique_prevouts_per_window lim < sat_add (length (pd_facts p)) new_facts)"

fun activate_loop ::
    "rust_bitcoin \<Rightarrow> (txid, current_variant) btree \<Rightarrow> resolver_limits \<Rightarrow> prepared_candidate list \<Rightarrow>
     pending_slice \<Rightarrow> pending_slice" where
  "activate_loop lib variants lim [] p = p\<lparr>pd_queued := []\<rparr>"
| "activate_loop lib variants lim (next # queue) p =
     (if window_full lib lim next p then p\<lparr>pd_queued := next # queue\<rparr>
      else activate_loop lib variants lim queue (activate lib variants next p))"

definition activate_waiting ::
    "rust_bitcoin \<Rightarrow> (txid, current_variant) btree \<Rightarrow> resolver_limits \<Rightarrow> pending_slice \<Rightarrow> pending_slice" where
  "activate_waiting lib variants lim p =
     recount_script_bytes (activate_loop lib variants lim (pd_queued p) p)"

definition pending_new ::
    "rust_bitcoin \<Rightarrow> txid_codec \<Rightarrow> (expected_variant \<times> transaction) list \<Rightarrow>
     (txid, current_variant) btree \<Rightarrow> resolver_limits \<Rightarrow> pending_slice" where
  "pending_new lib codec txs variants lim =
     activate_waiting lib variants lim
       \<lparr> pd_queued = map (\<lambda>(expected, tx). \<lparr> pr_expected = expected, pr_transaction = tx \<rparr>) txs,
         pd_active = [], pd_fair_order = [], pd_facts = [], pd_deferred = [],
         pd_raw_outputs = fold (\<lambda>(expected, tx) m. case parse_txid codec (ev_txid expected) of
             Some txid \<Rightarrow> bt_insert txid (cached_outputs_of expected tx) m | None \<Rightarrow> m) txs [],
         pd_script_bytes = 0 \<rparr>"

definition candidate_count :: "pending_slice \<Rightarrow> nat" where
  "candidate_count p = sat_add (length (pd_active p)) (length (pd_queued p))"

definition pending_is_empty :: "pending_slice \<Rightarrow> bool" where
  "pending_is_empty p \<longleftrightarrow> pd_active p = [] \<and> pd_queued p = []"

section \<open>Known facts\<close>

definition waiting_facts :: "pending_slice \<Rightarrow> (out_point \<times> fact_source) list" where
  "waiting_facts p = List.map_filter (\<lambda>(k, state). case state of
     Awaiting source _ \<Rightarrow> Some (k, source) | CapacityBlocked source \<Rightarrow> Some (k, source) | _ \<Rightarrow> None)
     (pd_facts p)"

definition cached_script :: "(txid, cached_outputs) btree \<Rightarrow> out_point \<Rightarrow> bytes option" where
  "cached_script outputs k =
     Option.bind (bt_get outputs (op_txid k)) (\<lambda>c. co_script c (op_vout k))"

text \<open>The script of a current parent: from the slice itself, or from a cache of the same variant.\<close>

definition parent_script ::
    "(txid, current_variant) btree \<Rightarrow> (txid, cached_outputs) btree \<Rightarrow> pending_slice \<Rightarrow> out_point \<Rightarrow> bytes option" where
  "parent_script variants outputs p k = (case cached_script (pd_raw_outputs p) k of
     Some s \<Rightarrow> Some s
   | None \<Rightarrow> (case bt_get variants (op_txid k) of
       None \<Rightarrow> None
     | Some expected \<Rightarrow> (case bt_get outputs (op_txid k) of
         None \<Rightarrow> None
       | Some cached \<Rightarrow>
           if co_wtxid cached = cv_wtxid expected then co_script cached (op_vout k) else None)))"

fun hydrate_cached ::
    "(txid, current_variant) btree \<Rightarrow> (txid, cached_outputs) btree \<Rightarrow> resolver_limits \<Rightarrow>
     (out_point \<times> fact_source) list \<Rightarrow> confirmed_cache \<Rightarrow> nat \<times> nat \<times> pending_slice \<Rightarrow>
     confirmed_cache \<times> nat \<times> nat \<times> pending_slice" where
  "hydrate_cached variants outputs lim [] cache acc = (cache, acc)"
| "hydrate_cached variants outputs lim ((k, source) # rest) cache acc =
     (let (script, cache) = (case source of
          CurrentParent \<Rightarrow> (parent_script variants outputs (snd (snd acc)) k, cache)
        | _ \<Rightarrow> cache_get k cache)
      in hydrate_cached variants outputs lim rest cache
        (case script of Some s \<Rightarrow> store_or_block lim k s acc | None \<Rightarrow> acc))"

definition hydrate_from_caches ::
    "(txid, current_variant) btree \<Rightarrow> (txid, cached_outputs) btree \<Rightarrow> resolver_limits \<Rightarrow>
     confirmed_cache \<Rightarrow> pending_slice \<Rightarrow> confirmed_cache \<times> nat \<times> nat \<times> pending_slice" where
  "hydrate_from_caches variants outputs lim cache p =
     hydrate_cached variants outputs lim (waiting_facts p) cache (0, 0, p)"

definition transient_script ::
    "(txid, cached_outputs) btree \<Rightarrow> (out_point, bytes) btree \<Rightarrow> out_point \<times> fact_source \<Rightarrow> bytes option" where
  "transient_script outputs confirmed = (\<lambda>(k, source). case source of
     CurrentParent \<Rightarrow> cached_script outputs k | _ \<Rightarrow> bt_get confirmed k)"

definition hydrate_from_transient ::
    "(txid, cached_outputs) btree \<Rightarrow> (out_point, bytes) btree \<Rightarrow> resolver_limits \<Rightarrow> pending_slice \<Rightarrow>
     nat \<times> nat \<times> pending_slice" where
  "hydrate_from_transient outputs confirmed lim p =
     fold (\<lambda>w acc. case transient_script outputs confirmed w of
        Some s \<Rightarrow> store_or_block lim (fst w) s acc | None \<Rightarrow> acc) (waiting_facts p) (0, 0, p)"

definition has_transient_capacity_blocked_fact ::
    "(txid, cached_outputs) btree \<Rightarrow> (out_point, bytes) btree \<Rightarrow> pending_slice \<Rightarrow> bool" where
  "has_transient_capacity_blocked_fact outputs confirmed p \<longleftrightarrow> list_ex (\<lambda>(k, state). case state of
     CapacityBlocked CurrentParent \<Rightarrow>
       cached_script (pd_raw_outputs p) k = None \<and> cached_script outputs k \<noteq> None
   | CapacityBlocked _ \<Rightarrow> bt_contains confirmed k
   | _ \<Rightarrow> False) (pd_facts p)"

section \<open>Attempts and deferral\<close>

definition sat_inc8 :: "u8 \<Rightarrow> u8" where
  "sat_inc8 a = (if a = 255 then 255 else a + 1)"

definition record_fact_attempt :: "out_point \<Rightarrow> pending_slice \<Rightarrow> pending_slice" where
  "record_fact_attempt k p = p\<lparr>pd_facts := bt_modify k (\<lambda>state. case state of
     Awaiting source attempts \<Rightarrow> Awaiting source (sat_inc8 attempts) | _ \<Rightarrow> state) (pd_facts p)\<rparr>"

definition record_parent_attempt :: "txid \<Rightarrow> pending_slice \<Rightarrow> pending_slice" where
  "record_parent_attempt parent p = p\<lparr>pd_facts := bt_map_values (\<lambda>k state. case state of
     Awaiting CurrentParent attempts \<Rightarrow>
       if op_txid k = parent then Awaiting CurrentParent (sat_inc8 attempts) else state
   | _ \<Rightarrow> state) (pd_facts p)\<rparr>"

definition fall_back_parent_to_gettxout :: "txid \<Rightarrow> pending_slice \<Rightarrow> pending_slice" where
  "fall_back_parent_to_gettxout parent p = p\<lparr>pd_facts := bt_map_values (\<lambda>k state. case state of
     Awaiting CurrentParent _ \<Rightarrow> if op_txid k = parent then Awaiting ParentFallback 0 else state
   | _ \<Rightarrow> state) (pd_facts p)\<rparr>"

definition defer_fact :: "out_point \<Rightarrow> pending_slice \<Rightarrow> pending_slice" where
  "defer_fact k p = p\<lparr>pd_deferred := bs_insert k (pd_deferred p),
     pd_facts := bt_modify k (\<lambda>_. OperationallyDeferred) (pd_facts p)\<rparr>"

definition defer_if_attempts_exhausted :: "out_point \<Rightarrow> pending_slice \<Rightarrow> pending_slice" where
  "defer_if_attempts_exhausted k p = (case bt_get (pd_facts p) k of
     Some (Awaiting _ attempts) \<Rightarrow>
       if MAX_FACT_ATTEMPTS_PER_SOURCE_PER_WINDOW \<le> attempts then defer_fact k p else p
   | _ \<Rightarrow> p)"

section \<open>Request waves\<close>

text \<open>
  \<^verbatim>\<open>next_candidate_fact\<close>: the first required fact from the cursor on that satisfies the predicate.
\<close>

fun scan_facts ::
    "(out_point \<Rightarrow> fact_state \<Rightarrow> bool) \<Rightarrow> (out_point, fact_state) btree \<Rightarrow> pending_candidate \<Rightarrow>
     nat list \<Rightarrow> out_point option \<times> pending_candidate" where
  "scan_facts P facts c [] = (None, c)"
| "scan_facts P facts c (offset # offsets) =
     (let n = length (pc_required c); index = sat_add (fact_cursor c) offset mod n;
          k = pc_required c ! index
      in (case bt_get facts k of
           None \<Rightarrow> scan_facts P facts c offsets
         | Some state \<Rightarrow>
             if P k state then (Some k, c\<lparr>fact_cursor := (index + 1) mod n\<rparr>)
             else scan_facts P facts c offsets))"

definition next_candidate_fact ::
    "(out_point \<Rightarrow> fact_state \<Rightarrow> bool) \<Rightarrow> (out_point, fact_state) btree \<Rightarrow> pending_candidate \<Rightarrow>
     out_point option \<times> pending_candidate" where
  "next_candidate_fact P facts c =
     (if pc_required c = [] then (None, c) else scan_facts P facts c [0..<length (pc_required c)])"

text \<open>The local variables of a wave; \<open>'b\<close> is what is never selected twice.\<close>

record ('a, 'b) wave =
  wv_pending :: pending_slice
  wv_selected :: "'a list"
  wv_seen :: "'b list"
  wv_bytes :: nat
  wv_added :: bool

definition wave_start :: "pending_slice \<Rightarrow> ('a, 'b) wave" where
  "wave_start p = \<lparr> wv_pending = p, wv_selected = [], wv_seen = [], wv_bytes = 0, wv_added = False \<rparr>"

text \<open>
  One pass over the fair order: each key is popped, pushed back and visited. A visit that
  returns \<open>True\<close> returns from the function.
\<close>

fun wave_round ::
    "(string \<Rightarrow> ('a, 'b) wave \<Rightarrow> bool \<times> ('a, 'b) wave) \<Rightarrow> nat \<Rightarrow> ('a, 'b) wave \<Rightarrow> bool \<times> ('a, 'b) wave" where
  "wave_round visit 0 w = (False, w)"
| "wave_round visit (Suc n) w = (case pd_fair_order (wv_pending w) of
     [] \<Rightarrow> (False, w)
   | key # rest \<Rightarrow>
       (case visit key (w\<lparr>wv_pending := (wv_pending w)\<lparr>pd_fair_order := rest @ [key]\<rparr>\<rparr>) of
          (True, w) \<Rightarrow> (True, w)
        | (False, w) \<Rightarrow> wave_round visit n w))"

text \<open>The candidate's cursor is moved by \<^verbatim>\<open>next_candidate_fact\<close>, selected or not.\<close>

definition pick_fact ::
    "(out_point \<Rightarrow> fact_state \<Rightarrow> bool) \<Rightarrow> string \<Rightarrow> ('a, 'b) wave \<Rightarrow> out_point option \<times> ('a, 'b) wave" where
  "pick_fact P key w =
     (let p = wv_pending w
      in case bt_get (pd_active p) key of
           None \<Rightarrow> (None, w)
         | Some candidate \<Rightarrow>
             let (k, candidate) = next_candidate_fact P (pd_facts p) candidate
             in (k, w\<lparr>wv_pending := p\<lparr>pd_active := bt_modify key (\<lambda>_. candidate) (pd_active p)\<rparr>\<rparr>))"

fun parent_selectable :: "txid bset \<Rightarrow> out_point \<Rightarrow> fact_state \<Rightarrow> bool" where
  "parent_selectable seen k (Awaiting CurrentParent attempts) =
     (attempts < MAX_FACT_ATTEMPTS_PER_SOURCE_PER_WINDOW \<and> op_txid k \<notin> set seen)"
| "parent_selectable seen k _ = False"

definition parent_visit ::
    "txid_codec \<Rightarrow> (txid, current_variant) btree \<Rightarrow> resolver_limits \<Rightarrow> string \<Rightarrow>
     (expected_variant, txid) wave \<Rightarrow> bool \<times> (expected_variant, txid) wave" where
  "parent_visit codec variants lim key w =
     (case pick_fact (parent_selectable (wv_seen w)) key w of
        (None, w) \<Rightarrow> (False, w)
      | (Some k, w) \<Rightarrow>
          (case bt_get variants (op_txid k) of
             None \<Rightarrow> (False, w)
           | Some parent \<Rightarrow>
               let expected = \<lparr> ev_txid = show_txid codec (op_txid k), ev_wtxid = cv_wtxid parent,
                     ev_vsize = cv_vsize parent \<rparr>;
                   next_bytes = estimated_raw_response_bytes expected
               in if wv_selected w \<noteq> [] \<and>
                     MAX_RAW_RESPONSE_BYTES_PER_SLICE < sat_add (wv_bytes w) next_bytes
                  then (False, w)
                  else let w = w\<lparr>wv_bytes := sat_add (wv_bytes w) next_bytes,
                          wv_pending := record_parent_attempt (op_txid k) (wv_pending w),
                          wv_seen := bs_insert (op_txid k) (wv_seen w),
                          wv_selected := wv_selected w @ [expected], wv_added := True\<rparr>
                    in (max_parent_transactions_per_wave lim \<le> length (wv_selected w), w)))"

fun confirmed_selectable :: "out_point bset \<Rightarrow> out_point \<Rightarrow> fact_state \<Rightarrow> bool" where
  "confirmed_selectable seen k (Awaiting ConfirmedOutput attempts) =
     (attempts < MAX_FACT_ATTEMPTS_PER_SOURCE_PER_WINDOW \<and> k \<notin> set seen)"
| "confirmed_selectable seen k (Awaiting ParentFallback attempts) =
     (attempts < MAX_FACT_ATTEMPTS_PER_SOURCE_PER_WINDOW \<and> k \<notin> set seen)"
| "confirmed_selectable seen k _ = False"

definition confirmed_visit ::
    "nat \<Rightarrow> string \<Rightarrow> (out_point, out_point) wave \<Rightarrow> bool \<times> (out_point, out_point) wave" where
  "confirmed_visit maximum key w =
     (case pick_fact (confirmed_selectable (wv_seen w)) key w of
        (None, w) \<Rightarrow> (False, w)
      | (Some k, w) \<Rightarrow>
          let w = w\<lparr>wv_pending := record_fact_attempt k (wv_pending w),
                wv_seen := bs_insert k (wv_seen w), wv_selected := wv_selected w @ [k],
                wv_added := True\<rparr>
          in (maximum \<le> length (wv_selected w), w))"

text \<open>
  What both visits promise: a visit that does not return either selects nothing or leaves the
  selection longer and still below the wave's maximum. It is why the loops end.
\<close>

locale wave_visit =
  fixes visit :: "string \<Rightarrow> ('a, 'b) wave \<Rightarrow> bool \<times> ('a, 'b) wave" and maximum :: nat
  assumes visit_continues: "visit key w = (False, w') \<Longrightarrow>
    (wv_added w' = wv_added w \<and> wv_selected w' = wv_selected w) \<or>
    (wv_added w' \<and> length (wv_selected w) < length (wv_selected w') \<and>
     length (wv_selected w') < maximum)"
begin

lemma round_continues:
  "wave_round visit n w = (False, w') \<Longrightarrow>
    (wv_added w' = wv_added w \<and> wv_selected w' = wv_selected w) \<or>
    (wv_added w' \<and> length (wv_selected w) < length (wv_selected w') \<and>
     length (wv_selected w') < maximum)"
proof (induction n arbitrary: w)
  case 0
  then show ?case by simp
next
  case (Suc n)
  show ?case
  proof (cases "pd_fair_order (wv_pending w)")
    case Nil
    then show ?thesis using Suc.prems by simp
  next
    case (Cons key rest)
    let ?w = "w\<lparr>wv_pending := (wv_pending w)\<lparr>pd_fair_order := rest @ [key]\<rparr>\<rparr>"
    obtain r v where v: "visit key ?w = (r, v)" by fastforce
    have r: "\<not> r" and round: "wave_round visit n v = (False, w')"
      using Suc.prems Cons v by (cases r; simp)+
    have "(wv_added v = wv_added w \<and> wv_selected v = wv_selected w) \<or>
        (wv_added v \<and> length (wv_selected w) < length (wv_selected v) \<and> length (wv_selected v) < maximum)"
      using visit_continues [of key ?w v] v r by simp
    then show ?thesis using Suc.IH [OF round] by auto
  qed
qed

lemma another_round_decreases:
  assumes "wave_round visit n (w\<lparr>wv_added := False\<rparr>) = (False, w')" "wv_added w'"
  shows "maximum - length (wv_selected w') < maximum - length (wv_selected w)"
  using round_continues [OF assms(1)] assms(2) by auto

end

lemma pick_fact_frame:
  "pick_fact P key w = (k, w') \<Longrightarrow> wv_selected w' = wv_selected w \<and> wv_seen w' = wv_seen w \<and>
     wv_bytes w' = wv_bytes w \<and> wv_added w' = wv_added w"
  by (auto simp: pick_fact_def Let_def split: option.splits prod.splits)

interpretation parent_wave: wave_visit "parent_visit codec variants lim" "max_parent_transactions_per_wave lim"
proof
  fix key and w w' :: "(expected_variant, txid) wave"
  obtain k v where v: "pick_fact (parent_selectable (wv_seen w)) key w = (k, v)" by fastforce
  assume "parent_visit codec variants lim key w = (False, w')"
  then show "(wv_added w' = wv_added w \<and> wv_selected w' = wv_selected w) \<or>
      (wv_added w' \<and> length (wv_selected w) < length (wv_selected w') \<and>
       length (wv_selected w') < max_parent_transactions_per_wave lim)"
    using pick_fact_frame [OF v]
    by (auto simp: parent_visit_def v Let_def split: option.splits if_splits)
qed

interpretation confirmed_wave: wave_visit "confirmed_visit maximum" maximum
proof
  fix key and w w' :: "(out_point, out_point) wave"
  obtain k v where v: "pick_fact (confirmed_selectable (wv_seen w)) key w = (k, v)" by fastforce
  assume "confirmed_visit maximum key w = (False, w')"
  then show "(wv_added w' = wv_added w \<and> wv_selected w' = wv_selected w) \<or>
      (wv_added w' \<and> length (wv_selected w) < length (wv_selected w') \<and>
       length (wv_selected w') < maximum)"
    using pick_fact_frame [OF v]
    by (auto simp: confirmed_visit_def v Let_def split: option.splits if_splits)
qed

text \<open>The \<^verbatim>\<open>loop\<close> of each wave: rounds until one returns or adds nothing.\<close>

function parent_wave_loop ::
    "txid_codec \<Rightarrow> (txid, current_variant) btree \<Rightarrow> resolver_limits \<Rightarrow>
     (expected_variant, txid) wave \<Rightarrow> (expected_variant, txid) wave" where
  "parent_wave_loop codec variants lim w =
     (case wave_round (parent_visit codec variants lim) (length (pd_fair_order (wv_pending w)))
          (w\<lparr>wv_added := False\<rparr>) of
        (True, w) \<Rightarrow> w
      | (False, w') \<Rightarrow> if wv_added w' then parent_wave_loop codec variants lim w' else w')"
  by auto
termination
  by (relation "measure (\<lambda>(codec, variants, lim, w). max_parent_transactions_per_wave lim -
        length (wv_selected w))") (auto dest: parent_wave.another_round_decreases [OF sym])

function confirmed_wave_loop ::
    "nat \<Rightarrow> (out_point, out_point) wave \<Rightarrow> (out_point, out_point) wave" where
  "confirmed_wave_loop maximum w =
     (case wave_round (confirmed_visit maximum) (length (pd_fair_order (wv_pending w)))
          (w\<lparr>wv_added := False\<rparr>) of
        (True, w) \<Rightarrow> w
      | (False, w') \<Rightarrow> if wv_added w' then confirmed_wave_loop maximum w' else w')"
  by auto
termination
  by (relation "measure (\<lambda>(maximum, w). maximum - length (wv_selected w))")
     (auto dest: confirmed_wave.another_round_decreases [OF sym])

declare parent_wave_loop.simps [simp del]
declare confirmed_wave_loop.simps [simp del]

definition next_parent_wave ::
    "txid_codec \<Rightarrow> (txid, current_variant) btree \<Rightarrow> resolver_limits \<Rightarrow> pending_slice \<Rightarrow>
     expected_variant list \<times> pending_slice" where
  "next_parent_wave codec variants lim p =
     (if \<not> has_pending_script_capacity lim p then ([], p)
      else let w = parent_wave_loop codec variants lim (wave_start p) in (wv_selected w, wv_pending w))"

definition confirmed_wave_maximum :: "resolver_limits \<Rightarrow> pending_slice \<Rightarrow> nat" where
  "confirmed_wave_maximum lim p =
     (let available = max_pending_script_bytes lim - pd_script_bytes p;
          maximum = min (max_confirmed_prevouts_per_wave lim)
            (available div ESTIMATED_GETTXOUT_RESPONSE_BYTES)
      in if 0 < available then max maximum 1 else 0)"

definition next_confirmed_wave :: "resolver_limits \<Rightarrow> pending_slice \<Rightarrow> out_point list \<times> pending_slice" where
  "next_confirmed_wave lim p =
     (let maximum = confirmed_wave_maximum lim p
      in if maximum = 0 then ([], p)
         else let w = confirmed_wave_loop maximum (wave_start p) in (wv_selected w, wv_pending w))"

end
