(* ===== verification/Pending_Ops.thy ===== *)
theory Pending_Ops
  imports Pending
begin

text \<open>
  What a classification slice does with the answers of its waves: fetched parents and confirmed
  outputs are applied to the waiting facts, candidates that cannot be resolved are deferred, and
  candidates whose facts are all terminal leave the slice as classifications.
\<close>

section \<open>Answers\<close>

text \<open>
  \<^verbatim>\<open>apply_parent_transaction\<close>: every fact waiting for this parent takes its output's script; one
  whose output does not exist is deferred after its last attempt.
\<close>

definition waiting_for_parent :: "txid \<Rightarrow> pending_slice \<Rightarrow> out_point list" where
  "waiting_for_parent parent p = map fst (filter (\<lambda>(k, state). op_txid k = parent \<and>
     (case state of Awaiting CurrentParent _ \<Rightarrow> True | _ \<Rightarrow> False)) (pd_facts p))"

definition apply_parent_output ::
    "cached_outputs \<Rightarrow> resolver_limits \<Rightarrow> out_point \<Rightarrow> nat \<times> nat \<times> pending_slice \<Rightarrow>
     nat \<times> nat \<times> pending_slice" where
  "apply_parent_output outputs lim k = (\<lambda>(resolved, blocked, p). case co_script outputs (op_vout k) of
     None \<Rightarrow> (resolved, blocked, defer_if_attempts_exhausted k p)
   | Some script \<Rightarrow> store_or_block lim k script (resolved, blocked, p))"

definition apply_parent_transaction ::
    "txid_codec \<Rightarrow> expected_variant \<Rightarrow> transaction \<Rightarrow> resolver_limits \<Rightarrow> pending_slice \<Rightarrow>
     cached_outputs \<times> nat \<times> nat \<times> pending_slice" where
  "apply_parent_transaction codec expected tx lim p =
     (let outputs = cached_outputs_of expected tx
      in case parse_txid codec (ev_txid expected) of
           None \<Rightarrow> (outputs, 0, 0, p)
         | Some txid \<Rightarrow> (outputs, fold (apply_parent_output outputs lim) (waiting_for_parent txid p) (0, 0, p)))"

text \<open>
  \<^verbatim>\<open>apply_confirmed_value\<close>: the script for the cache, then the resolved, missing and blocked counts.
\<close>

fun apply_confirmed_value ::
    "out_point \<Rightarrow> bytes rpc_value \<Rightarrow> resolver_limits \<Rightarrow> pending_slice \<Rightarrow>
     (bytes option \<times> nat \<times> nat \<times> nat) \<times> pending_slice" where
  "apply_confirmed_value k (Found script) lim p =
     (case store_script k script (max_pending_script_bytes lim) p of
        (True, p) \<Rightarrow> ((Some script, 1, 0, 0), p)
      | (False, p) \<Rightarrow> ((Some script, 0, 0, 1), mark_capacity_blocked k p))"
| "apply_confirmed_value k ExplicitNull lim p = (case bt_get (pd_facts p) k of
     Some (Awaiting ConfirmedOutput _) \<Rightarrow>
       ((None, 0, 1, 0), p\<lparr>pd_facts := bt_insert k ExplicitlyMissing (pd_facts p)\<rparr>)
   | Some (Awaiting ParentFallback _) \<Rightarrow> ((None, 0, 0, 0), defer_if_attempts_exhausted k p)
   | _ \<Rightarrow> ((None, 0, 0, 0), p))"
| "apply_confirmed_value k RetryableFailure lim p = ((None, 0, 0, 0), defer_if_attempts_exhausted k p)"
| "apply_confirmed_value k SystemicFailure lim p = ((None, 0, 0, 0), p)"

section \<open>Deferral under pressure\<close>

definition awaiting_fact :: "pending_slice \<Rightarrow> out_point \<Rightarrow> bool" where
  "awaiting_fact p k \<longleftrightarrow> (case bt_get (pd_facts p) k of Some (Awaiting _ _) \<Rightarrow> True | _ \<Rightarrow> False)"

definition deferred_fact :: "pending_slice \<Rightarrow> out_point \<Rightarrow> bool" where
  "deferred_fact p k \<longleftrightarrow> bt_get (pd_facts p) k = Some OperationallyDeferred"

definition blocked_fact :: "pending_slice \<Rightarrow> out_point \<Rightarrow> bool" where
  "blocked_fact p k \<longleftrightarrow> (case bt_get (pd_facts p) k of Some (CapacityBlocked _) \<Rightarrow> True | _ \<Rightarrow> False)"

definition defer_one_capacity_blocked_fact :: "pending_slice \<Rightarrow> bool \<times> pending_slice" where
  "defer_one_capacity_blocked_fact p =
     (case find_map (\<lambda>key. Option.bind (bt_get (pd_active p) key)
          (\<lambda>c. List.find (awaiting_fact p) (pc_required c))) (pd_fair_order p) of
        Some k \<Rightarrow> (True, mark_capacity_blocked k p)
      | None \<Rightarrow> (False, p))"

text \<open>The tail of every removal: the fair order keeps the active keys, unreferenced facts go.\<close>

definition prune_after_removal :: "pending_slice \<Rightarrow> pending_slice" where
  "prune_after_removal p = drop_unreferenced_facts
     (p\<lparr>pd_fair_order := filter (bt_contains (pd_active p)) (pd_fair_order p)\<rparr>)"

definition defer_exhausted_candidates :: "pending_slice \<Rightarrow> nat \<times> pending_slice" where
  "defer_exhausted_candidates p =
     (let doomed = map fst (filter (\<lambda>(key, c). list_ex (deferred_fact p) (pc_required c)) (pd_active p))
      in if doomed = [] then (0, p)
         else (length doomed, prune_after_removal (p\<lparr>pd_active := fold bt_remove doomed (pd_active p)\<rparr>)))"

text \<open>
  Which candidate a capacity block costs: of those with a blocked fact, the first that frees the
  most bytes of scripts no other candidate references.
\<close>

definition reference_counts :: "pending_slice \<Rightarrow> (out_point, nat) btree" where
  "reference_counts p = fold (\<lambda>k counts. bt_modify k Suc (bt_or_insert k 0 counts))
     (concat (map (pc_required \<circ> snd) (pd_active p))) []"

definition freed_bytes :: "pending_slice \<Rightarrow> (out_point, nat) btree \<Rightarrow> pending_candidate \<Rightarrow> nat" where
  "freed_bytes p counts c = foldl sat_add 0 (List.map_filter (\<lambda>k. case bt_get (pd_facts p) k of
       Some (Ready script) \<Rightarrow>
         if bt_get counts k = Some 1 then Some (estimated_script_bytes script) else None
     | _ \<Rightarrow> None) (pc_required c))"

definition doomed_step ::
    "pending_slice \<Rightarrow> (out_point, nat) btree \<Rightarrow> string \<Rightarrow> string option \<times> nat \<Rightarrow> string option \<times> nat" where
  "doomed_step p counts key = (\<lambda>(doomed, most). case bt_get (pd_active p) key of
     None \<Rightarrow> (doomed, most)
   | Some c \<Rightarrow>
       if \<not> list_ex (blocked_fact p) (pc_required c) then (doomed, most)
       else let freed = freed_bytes p counts c
            in if doomed = None \<or> most < freed then (Some key, freed) else (doomed, most))"

definition doomed_candidate :: "pending_slice \<Rightarrow> string option" where
  "doomed_candidate p = fst (fold (doomed_step p (reference_counts p)) (pd_fair_order p) (None, 0))"

definition defer_capacity_blocked_candidate :: "pending_slice \<Rightarrow> nat \<times> pending_slice" where
  "defer_capacity_blocked_candidate p = (case doomed_candidate p of
     None \<Rightarrow> (0, p)
   | Some doomed \<Rightarrow> (1, drop_unreferenced_facts (p\<lparr>pd_active := bt_remove doomed (pd_active p),
       pd_fair_order := filter (\<lambda>key. key \<noteq> doomed) (pd_fair_order p)\<rparr>)))"

section \<open>Classification\<close>

definition terminal_fact :: "pending_slice \<Rightarrow> out_point \<Rightarrow> bool" where
  "terminal_fact p k \<longleftrightarrow> (case bt_get (pd_facts p) k of
     Some (Ready _) \<Rightarrow> True | Some ExplicitlyMissing \<Rightarrow> True | _ \<Rightarrow> False)"

definition ready_keys :: "pending_slice \<Rightarrow> string list" where
  "ready_keys p =
     map fst (filter (\<lambda>(key, c). list_all (terminal_fact p) (pc_required c)) (pd_active p))"

text \<open>The match over one input's fact; the outer \<open>None\<close> is \<^verbatim>\<open>unreachable!\<close>.\<close>

definition input_fact :: "pending_slice \<Rightarrow> tx_in \<Rightarrow> prevout_facts option option" where
  "input_fact p i = (case bt_get (pd_facts p) (previous_output i) of
     Some (Ready script) \<Rightarrow> Some (Some (prevout_new script None))
   | Some ExplicitlyMissing \<Rightarrow> Some None
   | _ \<Rightarrow> None)"

definition candidate_prevouts ::
    "rust_bitcoin \<Rightarrow> pending_slice \<Rightarrow> pending_candidate \<Rightarrow> (prevout_set \<times> bool) option" where
  "candidate_prevouts lib p c =
     (if is_coinbase lib (pc_transaction c) then Some (\<lparr> ps_facts = [] \<rparr>, False)
      else map_option (\<lambda>facts. (prevouts_from_vec facts, list_ex (\<lambda>f. f = None) facts))
        (those (map (input_fact p) (tx_inputs (pc_transaction c)))))"

definition classify_candidate ::
    "rust_bitcoin \<Rightarrow> pending_slice \<Rightarrow> pending_candidate \<Rightarrow> cached_classification option" where
  "classify_candidate lib p c =
     (case candidate_prevouts lib p c of
        None \<Rightarrow> None
      | Some (prevouts, retryable) \<Rightarrow>
          (case structure_of lib (pc_transaction c) of
             Inl _ \<Rightarrow> None
           | Inr st \<Rightarrow> map_option (\<lambda>r. \<lparr> cc_classification = r, cc_retryable = retryable \<rparr>)
               (classify_record lib (ev_txid (pc_expected c)) (ev_wtxid (pc_expected c)) st
                  (pc_transaction c) prevouts)))"

fun classify_keys ::
    "rust_bitcoin \<Rightarrow> string list \<Rightarrow> pending_slice \<Rightarrow> (cached_classification list \<times> pending_slice) option" where
  "classify_keys lib [] p = Some ([], p)"
| "classify_keys lib (key # keys) p = (case bt_get (pd_active p) key of
     None \<Rightarrow> None
   | Some c \<Rightarrow> (case classify_candidate lib p c of
       None \<Rightarrow> None
     | Some r \<Rightarrow> map_option (\<lambda>(rs, p). (r # rs, p))
         (classify_keys lib keys (p\<lparr>pd_active := bt_remove key (pd_active p)\<rparr>))))"

definition classify_ready ::
    "rust_bitcoin \<Rightarrow> pending_slice \<Rightarrow> (cached_classification list \<times> pending_slice) option" where
  "classify_ready lib p =
     map_option (\<lambda>(rs, p). (rs, prune_after_removal p)) (classify_keys lib (ready_keys p) p)"

end
