(* ===== verification/Pending_Props.thy ===== *)
theory Pending_Props
  imports Pending_Ops
begin

text \<open>
  The pending slice as a state machine: whatever order its operations come in, the facts are those
  its active candidates need, the byte count is what the stored scripts weigh and stays under the
  limit, and a deferred fact stays deferred. From it: what the waves select, and that classifying the
  ready candidates never reaches its \<^verbatim>\<open>unreachable!\<close> for the transactions a node serves.
\<close>

section \<open>Maps of facts\<close>

lemma bt_insert_existing:
  assumes "bt_ok m" "bt_contains m k"
  shows "bt_insert k v m = bt_modify k (\<lambda>_. v) m"
  using assms by (intro bt_ext) (auto simp: bt_ok_insert bt_get_insert bt_get_modify bt_contains_def)

lemma bt_modify_map: "bt_modify k f = bt_map_values (\<lambda>k'. if k' = k then f else id)"
  by (auto simp: bt_modify_def bt_map_values_def fun_eq_iff)

lemma bt_weight_map_values:
  "(\<And>k v. (k, v) \<in> set m \<Longrightarrow> w (f k v) = w v) \<Longrightarrow> bt_weight w (bt_map_values f m) = bt_weight w m"
  by (induction m) (auto simp: bt_map_values_def)

lemma bt_modify_absent: "k \<notin> set (bt_keys m) \<Longrightarrow> bt_modify k f m = m"
  by (induction m) (auto simp: bt_modify_def)

lemma bt_weight_modify:
  "bt_ok m \<Longrightarrow> bt_get m k = Some v \<Longrightarrow> bt_weight w (bt_modify k f m) + w v = bt_weight w m + w (f v)"
proof (induction m)
  case Nil
  then show ?case by simp
next
  case (Cons e m)
  show ?case
  proof (cases "fst e = k")
    case True
    then have "k \<notin> set (bt_keys m)" using Cons.prems by (auto simp: bt_ok_Cons)
    then have "bt_modify k f m = m" by (rule bt_modify_absent)
    with True Cons.prems show ?thesis by (cases e) (simp add: bt_modify_def)
  next
    case False
    with Cons show ?thesis by (cases e) (simp add: bt_modify_def bt_ok_Cons)
  qed
qed

lemma bt_weight_filter: "bt_weight w (filter P m) \<le> bt_weight w m"
  by (induction m) auto

lemma bt_keys_contains: "k \<in> set (bt_keys m) \<longleftrightarrow> bt_contains m k"
  by (auto simp: bt_contains_def map_of_eq_None_iff image_iff)

lemma keys_fold_or_insert:
  "bt_ok m \<Longrightarrow> bt_ok (fold (\<lambda>k. bt_or_insert k (f k)) ks m) \<and>
     (\<forall>k. bt_get (fold (\<lambda>k. bt_or_insert k (f k)) ks m) k =
        (case bt_get m k of Some v \<Rightarrow> Some v | None \<Rightarrow> if k \<in> set ks then Some (f k) else None))"
proof (induction ks arbitrary: m)
  case Nil
  then show ?case by (auto split: option.splits)
next
  case (Cons k ks)
  then show ?case
    using Cons.IH [of "bt_or_insert k (f k) m"]
    by (auto simp: bt_ok_or_insert bt_get_or_insert split: option.splits)
qed

section \<open>The invariant\<close>

fun state_bytes :: "fact_state \<Rightarrow> nat" where
  "state_bytes (Ready script) = estimated_script_bytes script"
| "state_bytes _ = 0"

text \<open>The facts and their accounting.\<close>

definition facts_inv :: "nat \<Rightarrow> pending_slice \<Rightarrow> bool" where
  "facts_inv maximum p \<longleftrightarrow> bt_ok (pd_facts p) \<and> pd_script_bytes p = bt_weight state_bytes (pd_facts p) \<and>
     pd_script_bytes p \<le> maximum \<and> maximum \<le> usize_max \<and>
     (\<forall>k state. bt_get (pd_facts p) k = Some state \<longrightarrow>
        (state = OperationallyDeferred \<longleftrightarrow> k \<in> set (pd_deferred p)))"

text \<open>The candidates: what each needs, the fair order over them, and the facts they need.\<close>

definition candidate_ok :: "rust_bitcoin \<Rightarrow> string \<Rightarrow> pending_candidate \<Rightarrow> bool" where
  "candidate_ok lib key c \<longleftrightarrow> key = ev_wtxid (pc_expected c) \<and>
     pc_required c = unique_prevouts lib (pc_transaction c)"

definition cursors_ok :: "(string, pending_candidate) btree \<Rightarrow> bool" where
  "cursors_ok active \<longleftrightarrow> (\<forall>(key, c) \<in> set active. fact_cursor c \<le> length (pc_required c))"

definition needed :: "pending_slice \<Rightarrow> out_point set" where
  "needed p = (\<Union>(key, c) \<in> set (pd_active p). set (pc_required c))"

abbreviation queued_keys :: "pending_slice \<Rightarrow> string list" where
  "queued_keys p \<equiv> map (\<lambda>c. ev_wtxid (pr_expected c)) (pd_queued p)"

definition slice_inv :: "rust_bitcoin \<Rightarrow> pending_slice \<Rightarrow> bool" where
  "slice_inv lib p \<longleftrightarrow> bt_ok (pd_active p) \<and> (\<forall>(key, c) \<in> set (pd_active p). candidate_ok lib key c) \<and>
     mset (pd_fair_order p) = mset (bt_keys (pd_active p)) \<and> set (bt_keys (pd_facts p)) = needed p \<and>
     distinct (bt_keys (pd_active p) @ queued_keys p) \<and> cursors_ok (pd_active p)"

definition pending_inv :: "rust_bitcoin \<Rightarrow> resolver_limits \<Rightarrow> pending_slice \<Rightarrow> bool" where
  "pending_inv lib lim p \<longleftrightarrow> facts_inv (max_pending_script_bytes lim) p \<and> slice_inv lib p"

text \<open>
  Everything but the facts' states and the order of the requests: what the operations on facts leave.
\<close>

definition shape ::
    "pending_slice \<Rightarrow> (string \<times> expected_variant \<times> transaction \<times> out_point list) list \<times> string multiset \<times>
     out_point list \<times> prepared_candidate list \<times> bool" where
  "shape p = (map (\<lambda>(key, c). (key, pc_expected c, pc_transaction c, pc_required c)) (pd_active p),
     mset (pd_fair_order p), bt_keys (pd_facts p), pd_queued p, cursors_ok (pd_active p))"

lemma slice_inv_shape:
  assumes "shape p' = shape p" "slice_inv lib p"
  shows "slice_inv lib p'"
proof -
  let ?f = "\<lambda>(key :: string, c). (key, pc_expected c, pc_transaction c, pc_required c)"
  have m: "map ?f (pd_active p') = map ?f (pd_active p)" "mset (pd_fair_order p') = mset (pd_fair_order p)"
    "bt_keys (pd_facts p') = bt_keys (pd_facts p)" "pd_queued p' = pd_queued p"
    "cursors_ok (pd_active p') = cursors_ok (pd_active p)"
    using assms(1) by (simp_all add: shape_def)
  have keys: "bt_keys (pd_active p') = bt_keys (pd_active p)"
    using arg_cong [OF m(1), of "map fst"] by (simp add: comp_def case_prod_unfold)
  have s: "?f ` set (pd_active p') = ?f ` set (pd_active p)"
    using arg_cong [OF m(1), of set] by simp
  have ok: "(\<forall>(key, c) \<in> set a. candidate_ok lib key c) \<longleftrightarrow> (\<forall>(key, e, tx, r) \<in> ?f ` set a.
      key = ev_wtxid e \<and> r = unique_prevouts lib tx)" for a
    by (auto simp: candidate_ok_def)
  have need: "needed q = (\<Union>(key, e, tx, r) \<in> ?f ` set (pd_active q). set r)" for q
    by (auto simp: needed_def)
  show ?thesis
    using assms(2) unfolding slice_inv_def ok need bt_ok_def keys s m by simp
qed

text \<open>The fields a step on the facts does not touch, as a rewrite rule.\<close>

lemma shape_facts [simp]:
  "bt_keys facts = bt_keys (pd_facts p) \<Longrightarrow> shape (p\<lparr>pd_facts := facts\<rparr>) = shape p"
  "shape (p\<lparr>pd_deferred := d\<rparr>) = shape p"
  "shape (p\<lparr>pd_script_bytes := n\<rparr>) = shape p"
  by (simp_all add: shape_def)

subsection \<open>Steps on the facts\<close>

lemma facts_inv_map:
  assumes "facts_inv n p"
    "\<And>k state. bt_get (pd_facts p) k = Some state \<Longrightarrow> state_bytes (f k state) = state_bytes state \<and>
       (f k state = OperationallyDeferred \<longleftrightarrow> state = OperationallyDeferred)"
  shows "facts_inv n (p\<lparr>pd_facts := bt_map_values f (pd_facts p)\<rparr>)"
proof -
  have "bt_weight state_bytes (bt_map_values f (pd_facts p)) = bt_weight state_bytes (pd_facts p)"
    using assms by (intro bt_weight_map_values) (auto simp: facts_inv_def simp flip: bt_get_iff)
  with assms show ?thesis by (auto simp: facts_inv_def bt_get_map_values)
qed

lemma record_fact_attempt_inv:
  "facts_inv n p \<Longrightarrow> facts_inv n (record_fact_attempt k p) \<and> shape (record_fact_attempt k p) = shape p \<and>
     set (pd_deferred p) \<subseteq> set (pd_deferred (record_fact_attempt k p))"
  unfolding record_fact_attempt_def bt_modify_map
  by (intro conjI facts_inv_map) (auto split: fact_state.splits)

lemma record_parent_attempt_inv:
  "facts_inv n p \<Longrightarrow> facts_inv n (record_parent_attempt t p) \<and> shape (record_parent_attempt t p) = shape p \<and>
     set (pd_deferred p) \<subseteq> set (pd_deferred (record_parent_attempt t p))"
  unfolding record_parent_attempt_def
  by (intro conjI facts_inv_map) (auto split: fact_state.splits fact_source.splits)

lemma fall_back_inv:
  "facts_inv n p \<Longrightarrow> facts_inv n (fall_back_parent_to_gettxout t p) \<and>
     shape (fall_back_parent_to_gettxout t p) = shape p \<and>
     set (pd_deferred p) \<subseteq> set (pd_deferred (fall_back_parent_to_gettxout t p))"
  unfolding fall_back_parent_to_gettxout_def
  by (intro conjI facts_inv_map) (auto split: fact_state.splits fact_source.splits)

lemma mark_capacity_blocked_eq:
  assumes "bt_ok (pd_facts p)"
  shows "mark_capacity_blocked k p = p\<lparr>pd_facts := bt_modify k (\<lambda>state. case state of
     Awaiting source _ \<Rightarrow> CapacityBlocked source | _ \<Rightarrow> state) (pd_facts p)\<rparr>"
proof -
  let ?m = "pd_facts p"
  let ?f = "\<lambda>state. case state of Awaiting source _ \<Rightarrow> CapacityBlocked source | _ \<Rightarrow> state"
  have "(case bt_get ?m k of Some (Awaiting s _) \<Rightarrow> bt_insert k (CapacityBlocked s) ?m
      | Some (CapacityBlocked s) \<Rightarrow> bt_insert k (CapacityBlocked s) ?m | _ \<Rightarrow> ?m) = bt_modify k ?f ?m"
    (is "?n = _")
    using assms by (intro bt_ext)
      (auto simp: bt_ok_insert bt_get_insert bt_get_modify split: option.splits fact_state.splits)
  moreover have "mark_capacity_blocked k p = p\<lparr>pd_facts := ?n\<rparr>"
    by (auto simp: mark_capacity_blocked_def split: option.splits fact_state.splits)
  ultimately show ?thesis by simp
qed

lemma mark_capacity_blocked_inv:
  assumes "facts_inv n p"
  shows "facts_inv n (mark_capacity_blocked k p) \<and> shape (mark_capacity_blocked k p) = shape p \<and>
     set (pd_deferred p) \<subseteq> set (pd_deferred (mark_capacity_blocked k p))"
proof -
  have eq: "mark_capacity_blocked k p = p\<lparr>pd_facts := bt_modify k (\<lambda>state. case state of
     Awaiting source _ \<Rightarrow> CapacityBlocked source | _ \<Rightarrow> state) (pd_facts p)\<rparr>"
    using assms by (intro mark_capacity_blocked_eq) (simp add: facts_inv_def)
  show ?thesis unfolding eq unfolding bt_modify_map
    using assms by (intro conjI facts_inv_map) (auto split: fact_state.splits)
qed

lemma defer_if_attempts_exhausted_inv:
  assumes "facts_inv n p"
  shows "facts_inv n (defer_if_attempts_exhausted k p) \<and> shape (defer_if_attempts_exhausted k p) = shape p \<and>
     set (pd_deferred p) \<subseteq> set (pd_deferred (defer_if_attempts_exhausted k p))"
proof (cases "\<exists>s a. bt_get (pd_facts p) k = Some (Awaiting s a) \<and>
    MAX_FACT_ATTEMPTS_PER_SOURCE_PER_WINDOW \<le> a")
  case True
  then obtain s a where g: "bt_get (pd_facts p) k = Some (Awaiting s a)"
    and eq: "defer_if_attempts_exhausted k p = defer_fact k p"
    by (auto simp: defer_if_attempts_exhausted_def)
  have "bt_weight state_bytes (bt_modify k (\<lambda>_. OperationallyDeferred) (pd_facts p)) =
      bt_weight state_bytes (pd_facts p)"
    using bt_weight_modify [OF _ g, of state_bytes] assms by (simp add: facts_inv_def)
  then show ?thesis
    unfolding eq using assms by (auto simp: facts_inv_def defer_fact_def bt_get_modify shape_def)
next
  case False
  then have "defer_if_attempts_exhausted k p = p"
    by (auto simp: defer_if_attempts_exhausted_def split: option.splits fact_state.splits)
  with assms show ?thesis by simp
qed

lemma store_script_inv:
  assumes "facts_inv n p" "store_script k script n p = (r, p')"
  shows "facts_inv n p' \<and> shape p' = shape p \<and>
     set (pd_deferred p) \<subseteq> set (pd_deferred p')"
proof (cases "p' = p")
  case True
  with assms show ?thesis by simp
next
  case False
  with assms(2) obtain state where g: "bt_get (pd_facts p) k = Some state"
    and zero: "state_bytes state = 0" "state \<noteq> OperationallyDeferred"
    and fits: "pd_script_bytes p + estimated_script_bytes script \<le> n"
    and p': "p' = p\<lparr>pd_facts := bt_modify k (\<lambda>_. Ready script) (pd_facts p),
        pd_script_bytes := pd_script_bytes p + estimated_script_bytes script\<rparr>"
    by (auto simp: store_script_def admit_script_def split: option.splits fact_state.splits if_splits)
  have "bt_weight state_bytes (bt_modify k (\<lambda>_. Ready script) (pd_facts p)) =
      bt_weight state_bytes (pd_facts p) + estimated_script_bytes script"
    using bt_weight_modify [OF _ g, of state_bytes] assms(1) zero by (simp add: facts_inv_def)
  with assms(1) g zero fits show ?thesis
    unfolding p' by (auto simp: facts_inv_def bt_get_modify shape_def)
qed

lemma store_or_block_inv:
  assumes "facts_inv (max_pending_script_bytes lim) p" "store_or_block lim k script (a, b, p) = (a', b', p')"
  shows "facts_inv (max_pending_script_bytes lim) p' \<and> shape p' = shape p \<and>
     set (pd_deferred p) \<subseteq> set (pd_deferred p')"
proof -
  obtain r q where q: "store_script k script (max_pending_script_bytes lim) p = (r, q)"
    by fastforce
  show ?thesis
    using assms(2) store_script_inv [OF assms(1) q] mark_capacity_blocked_inv [of _ q k]
    by (cases r) (auto simp: store_or_block_def q)
qed


text \<open>What every operation of a slice after its admission does: it keeps the invariant and the shape.\<close>

definition kept :: "rust_bitcoin \<Rightarrow> resolver_limits \<Rightarrow> pending_slice \<Rightarrow> pending_slice \<Rightarrow> bool" where
  "kept lib lim p p' \<longleftrightarrow> (pending_inv lib lim p \<longrightarrow> pending_inv lib lim p' \<and> shape p' = shape p \<and>
     set (pd_deferred p) \<subseteq> set (pd_deferred p'))"

lemma kept_refl [intro, simp]: "kept lib lim p p"
  by (simp add: kept_def)

lemma kept_trans: "kept lib lim p q \<Longrightarrow> kept lib lim q r \<Longrightarrow> kept lib lim p r"
  by (auto simp: kept_def)

lemma kept_facts:
  "(facts_inv (max_pending_script_bytes lim) p \<Longrightarrow>
      facts_inv (max_pending_script_bytes lim) p' \<and> shape p' = shape p \<and>
      set (pd_deferred p) \<subseteq> set (pd_deferred p')) \<Longrightarrow> kept lib lim p p'"
  by (auto simp: kept_def pending_inv_def intro: slice_inv_shape)

lemma kept_fold:
  assumes "\<And>x acc. kept lib lim (snd (snd acc)) (snd (snd (f x acc)))"
  shows "kept lib lim (snd (snd acc)) (snd (snd (fold f xs acc)))"
proof (induction xs arbitrary: acc)
  case Nil
  then show ?case by simp
next
  case (Cons x xs)
  then show ?case using kept_trans [OF assms [of acc x] Cons.IH [of "f x acc"]] by simp
qed

lemma kept_store_or_block: "kept lib lim (snd (snd acc)) (snd (snd (store_or_block lim k script acc)))"
proof -
  obtain a b p where acc: "acc = (a, b, p)" by (cases acc) auto
  obtain a' b' p' where r: "store_or_block lim k script (a, b, p) = (a', b', p')"
    by (cases "store_or_block lim k script (a, b, p)") auto
  show ?thesis unfolding acc r by (simp add: kept_facts store_or_block_inv [OF _ r])
qed

lemma kept_hydrate_cached:
  "hydrate_cached variants outputs lim ws cache acc = (cache', acc') \<Longrightarrow>
    kept lib lim (snd (snd acc)) (snd (snd acc'))"
proof (induction ws arbitrary: cache acc)
  case Nil
  then show ?case by simp
next
  case (Cons w ws)
  obtain k source where w: "w = (k, source)" by (cases w)
  obtain script mid where g: "(case source of CurrentParent \<Rightarrow>
      (parent_script variants outputs (snd (snd acc)) k, cache) | _ \<Rightarrow> cache_get k cache) = (script, mid)"
    by (cases "case source of CurrentParent \<Rightarrow>
      (parent_script variants outputs (snd (snd acc)) k, cache) | _ \<Rightarrow> cache_get k cache") auto
  let ?acc = "case script of Some s \<Rightarrow> store_or_block lim k s acc | None \<Rightarrow> acc"
  have "kept lib lim (snd (snd acc)) (snd (snd ?acc))"
    by (simp add: kept_store_or_block split: option.splits)
  moreover have "hydrate_cached variants outputs lim ws mid ?acc = (cache', acc')"
    using Cons.prems by (simp add: w g)
  ultimately show ?case using Cons.IH by (blast intro: kept_trans)
qed

lemma kept_hydrate_from_caches:
  "hydrate_from_caches variants outputs lim cache p = (cache', a, b, p') \<Longrightarrow> kept lib lim p p'"
  unfolding hydrate_from_caches_def by (drule kept_hydrate_cached [of _ _ _ _ _ _ _ _ lib]) simp

lemma kept_hydrate_from_transient:
  "hydrate_from_transient outputs confirmed lim p = (a, b, p') \<Longrightarrow> kept lib lim p p'"
proof -
  let ?f = "\<lambda>w acc. case transient_script outputs confirmed w of
      Some s \<Rightarrow> store_or_block lim (fst w) s acc | None \<Rightarrow> acc"
  have "kept lib lim (snd (snd acc)) (snd (snd (?f w acc)))" for w acc
    by (auto simp: kept_store_or_block split: option.splits)
  then have "kept lib lim p (snd (snd (fold ?f (waiting_facts p) (0, 0, p))))"
    using kept_fold [of lib lim ?f "(0, 0, p)"] by simp
  then show "hydrate_from_transient outputs confirmed lim p = (a, b, p') \<Longrightarrow> kept lib lim p p'"
    by (simp add: hydrate_from_transient_def)
qed

lemma kept_defer_if_attempts_exhausted: "kept lib lim p (defer_if_attempts_exhausted k p)"
  by (simp add: kept_facts defer_if_attempts_exhausted_inv)

lemma kept_apply_parent_transaction:
  "apply_parent_transaction codec expected tx lim p = (out, a, b, p') \<Longrightarrow> kept lib lim p p'"
proof -
  have "kept lib lim (snd (snd acc)) (snd (snd (apply_parent_output outputs lim k acc)))" for outputs k acc
    using kept_store_or_block [of lib lim acc]
    by (cases acc) (auto simp: apply_parent_output_def kept_defer_if_attempts_exhausted split: option.splits)
  then have "kept lib lim p (snd (snd (fold (apply_parent_output outputs lim) ks (0, 0, p))))" for outputs ks
    using kept_fold [of lib lim "apply_parent_output outputs lim" "(0, 0, p)"] by simp
  then show "apply_parent_transaction codec expected tx lim p = (out, a, b, p') \<Longrightarrow> kept lib lim p p'"
    by (auto simp: apply_parent_transaction_def Let_def split: option.splits) (metis snd_conv)
qed

lemma kept_missing:
  assumes "bt_get (pd_facts p) k = Some (Awaiting ConfirmedOutput a)"
  shows "kept lib lim p (p\<lparr>pd_facts := bt_insert k ExplicitlyMissing (pd_facts p)\<rparr>)"
proof (rule kept_facts)
  assume inv: "facts_inv (max_pending_script_bytes lim) p"
  have eq: "bt_insert k ExplicitlyMissing (pd_facts p) =
      bt_modify k (\<lambda>state. case state of Awaiting _ _ \<Rightarrow> ExplicitlyMissing | _ \<Rightarrow> state) (pd_facts p)"
    using inv assms by (intro bt_ext) (auto simp: facts_inv_def bt_ok_insert bt_get_insert bt_get_modify)
  show "facts_inv (max_pending_script_bytes lim) (p\<lparr>pd_facts := bt_insert k ExplicitlyMissing (pd_facts p)\<rparr>) \<and>
      shape (p\<lparr>pd_facts := bt_insert k ExplicitlyMissing (pd_facts p)\<rparr>) = shape p \<and>
      set (pd_deferred p) \<subseteq> set (pd_deferred (p\<lparr>pd_facts := bt_insert k ExplicitlyMissing (pd_facts p)\<rparr>))"
    unfolding eq unfolding bt_modify_map
    using inv by (intro conjI facts_inv_map) (auto split: fact_state.splits)
qed

lemma kept_apply_confirmed_value:
  assumes "apply_confirmed_value k v lim p = (r, p')"
  shows "kept lib lim p p'"
proof (cases v)
  case (Found script)
  obtain r' q where q: "store_script k script (max_pending_script_bytes lim) p = (r', q)" by fastforce
  have "kept lib lim p q" by (intro kept_facts store_script_inv [OF _ q])
  moreover have "kept lib lim q (mark_capacity_blocked k q)"
    by (intro kept_facts mark_capacity_blocked_inv)
  ultimately show ?thesis using assms by (cases r') (auto simp: Found q intro: kept_trans)
qed (use assms in \<open>auto simp: kept_missing kept_defer_if_attempts_exhausted split: option.splits fact_state.splits
    fact_source.splits\<close>)

lemma kept_defer_one:
  "defer_one_capacity_blocked_fact p = (r, p') \<Longrightarrow> kept lib lim p p'"
  by (auto simp: defer_one_capacity_blocked_fact_def kept_facts mark_capacity_blocked_inv
      split: option.splits)

subsection \<open>Waves\<close>

lemma mod_le_self: "xs \<noteq> [] \<Longrightarrow> n mod length xs \<le> length xs"
  by (simp add: less_imp_le)

lemma scan_facts_frame:
  "pc_required c \<noteq> [] \<Longrightarrow> scan_facts P facts c offsets = (k, c') \<Longrightarrow> pc_expected c' = pc_expected c \<and>
     pc_transaction c' = pc_transaction c \<and> pc_required c' = pc_required c \<and>
     (fact_cursor c \<le> length (pc_required c) \<longrightarrow> fact_cursor c' \<le> length (pc_required c))"
  by (induction offsets) (auto simp: Let_def mod_le_self split: option.splits if_splits)

lemma next_candidate_fact_frame:
  "next_candidate_fact P facts c = (k, c') \<Longrightarrow> pc_expected c' = pc_expected c \<and>
     pc_transaction c' = pc_transaction c \<and> pc_required c' = pc_required c \<and>
     (fact_cursor c \<le> length (pc_required c) \<longrightarrow> fact_cursor c' \<le> length (pc_required c))"
  by (auto simp: next_candidate_fact_def dest: scan_facts_frame split: if_splits)

lemma kept_cursor:
  assumes "bt_get (pd_active p) key = Some c" "pc_expected c' = pc_expected c"
    "pc_transaction c' = pc_transaction c" "pc_required c' = pc_required c"
    "fact_cursor c \<le> length (pc_required c) \<Longrightarrow> fact_cursor c' \<le> length (pc_required c)"
  shows "kept lib lim p (p\<lparr>pd_active := bt_modify key (\<lambda>_. c') (pd_active p)\<rparr>)" (is "kept _ _ _ ?p")
proof -
  have "shape ?p = shape p" "pending_inv lib lim ?p" if inv: "pending_inv lib lim p"
  proof -
    have ok: "bt_ok (pd_active p)" using inv by (simp add: pending_inv_def slice_inv_def)
    have c: "v = c" if "(key, v) \<in> set (pd_active p)" for v
      using that assms(1) ok by (auto simp flip: bt_get_iff)
    have "map (\<lambda>(key, c). (key, pc_expected c, pc_transaction c, pc_required c))
        (bt_modify key (\<lambda>_. c') (pd_active p)) =
      map (\<lambda>(key, c). (key, pc_expected c, pc_transaction c, pc_required c)) (pd_active p)"
      using c assms(2-4) by (auto simp: bt_modify_def intro!: map_cong)
    moreover have old: "cursors_ok (pd_active p)"
      using inv by (simp add: pending_inv_def slice_inv_def)
    moreover have "cursors_ok (bt_modify key (\<lambda>_. c') (pd_active p))"
    proof -
      have "fact_cursor c \<le> length (pc_required c)"
        using old map_of_SomeD [OF assms(1)] by (auto simp: cursors_ok_def)
      with old assms(4,5) show ?thesis by (auto simp: cursors_ok_def bt_modify_def)
    qed
    ultimately show s: "shape ?p = shape p" by (simp add: shape_def)
    show "pending_inv lib lim ?p"
      using inv slice_inv_shape [OF s] by (simp add: pending_inv_def facts_inv_def)
  qed
  then show ?thesis by (simp add: kept_def)
qed

lemma kept_pick_fact:
  assumes "pick_fact P key w = (k, w')"
  shows "kept lib lim (wv_pending w) (wv_pending w')"
proof (cases "bt_get (pd_active (wv_pending w)) key")
  case None
  with assms show ?thesis by (simp add: pick_fact_def)
next
  case (Some c)
  obtain k' c' where n: "next_candidate_fact P (pd_facts (wv_pending w)) c = (k', c')" by fastforce
  show ?thesis
    using assms Some kept_cursor [OF Some] next_candidate_fact_frame [OF n]
    by (auto simp: pick_fact_def n Let_def)
qed

lemma kept_rotate:
  "pd_fair_order p = key # rest \<Longrightarrow> kept lib lim p (p\<lparr>pd_fair_order := rest @ [key]\<rparr>)"
proof -
  let ?p = "p\<lparr>pd_fair_order := rest @ [key]\<rparr>"
  assume "pd_fair_order p = key # rest"
  then have s: "shape ?p = shape p" by (simp add: shape_def)
  then show "kept lib lim p ?p"
    using slice_inv_shape [OF s] by (simp add: kept_def pending_inv_def facts_inv_def)
qed

lemma kept_record_fact_attempt: "kept lib lim p (record_fact_attempt k p)"
  by (intro kept_facts record_fact_attempt_inv)

lemma kept_record_parent_attempt: "kept lib lim p (record_parent_attempt t p)"
  by (intro kept_facts record_parent_attempt_inv)

lemma kept_parent_visit:
  assumes "parent_visit codec variants l key w = (r, w')"
  shows "kept lib lim (wv_pending w) (wv_pending w')"
proof -
  obtain k v where v: "pick_fact (parent_selectable (wv_seen w)) key w = (k, v)" by fastforce
  have "kept lib lim (wv_pending v) (wv_pending w')"
    using assms by (auto simp: parent_visit_def v Let_def kept_record_parent_attempt split: option.splits if_splits)
  with kept_pick_fact [OF v] show ?thesis by (rule kept_trans)
qed

lemma kept_confirmed_visit:
  assumes "confirmed_visit n key w = (r, w')"
  shows "kept lib lim (wv_pending w) (wv_pending w')"
proof -
  obtain k v where v: "pick_fact (confirmed_selectable (wv_seen w)) key w = (k, v)" by fastforce
  have "kept lib lim (wv_pending v) (wv_pending w')"
    using assms by (auto simp: confirmed_visit_def v Let_def kept_record_fact_attempt split: option.splits)
  with kept_pick_fact [OF v] show ?thesis by (rule kept_trans)
qed

lemma kept_wave_round:
  assumes "\<And>key w r w'. visit key w = (r, w') \<Longrightarrow> kept lib lim (wv_pending w) (wv_pending w')"
  shows "wave_round visit n w = (r, w') \<Longrightarrow> kept lib lim (wv_pending w) (wv_pending w')"
proof (induction n arbitrary: w)
  case 0
  then show ?case by simp
next
  case (Suc n)
  show ?case
  proof (cases "pd_fair_order (wv_pending w)")
    case Nil
    with Suc.prems show ?thesis by simp
  next
    case (Cons key rest)
    let ?w = "w\<lparr>wv_pending := (wv_pending w)\<lparr>pd_fair_order := rest @ [key]\<rparr>\<rparr>"
    obtain b v where v: "visit key ?w = (b, v)" by fastforce
    have step: "kept lib lim (wv_pending w) (wv_pending v)"
      using kept_trans [OF kept_rotate [OF Cons]] assms [OF v] by simp
    show ?thesis
      using Suc.prems Cons v Suc.IH [of v] step by (cases b) (auto intro: kept_trans)
  qed
qed

lemma kept_parent_wave_loop:
  "kept lib lim (wv_pending w) (wv_pending (parent_wave_loop codec variants l w))"
proof (induction codec variants l w rule: parent_wave_loop.induct)
  case (1 codec variants l w)
  obtain r v where v: "wave_round (parent_visit codec variants l) (length (pd_fair_order (wv_pending w)))
      (w\<lparr>wv_added := False\<rparr>) = (r, v)" by fastforce
  have k: "kept lib lim (wv_pending w) (wv_pending v)"
    using kept_wave_round [OF kept_parent_visit v] by simp
  show ?case
    using k 1 [OF v [symmetric]] by (subst parent_wave_loop.simps) (auto simp: v intro: kept_trans split: bool.splits)
qed

lemma kept_confirmed_wave_loop:
  "kept lib lim (wv_pending w) (wv_pending (confirmed_wave_loop n w))"
proof (induction n w rule: confirmed_wave_loop.induct)
  case (1 n w)
  obtain r v where v: "wave_round (confirmed_visit n) (length (pd_fair_order (wv_pending w)))
      (w\<lparr>wv_added := False\<rparr>) = (r, v)" by fastforce
  have k: "kept lib lim (wv_pending w) (wv_pending v)"
    using kept_wave_round [OF kept_confirmed_visit v] by simp
  show ?case
    using k 1 [OF v [symmetric]] by (subst confirmed_wave_loop.simps) (auto simp: v intro: kept_trans split: bool.splits)
qed

lemma kept_next_parent_wave: "next_parent_wave codec variants l p = (ks, p') \<Longrightarrow> kept lib lim p p'"
  using kept_parent_wave_loop [of lib lim "wave_start p" codec variants l]
  by (auto simp: next_parent_wave_def wave_start_def Let_def split: if_splits)

lemma kept_next_confirmed_wave: "next_confirmed_wave l p = (ks, p') \<Longrightarrow> kept lib lim p p'"
  using kept_confirmed_wave_loop [of lib lim "wave_start p"]
  by (auto simp: next_confirmed_wave_def wave_start_def Let_def split: if_splits)

subsection \<open>Removal\<close>

lemma fact_bytes_fold:
  "n + bt_weight state_bytes m \<le> usize_max \<Longrightarrow>
    foldl fact_bytes n (map snd m) = n + bt_weight state_bytes m"
proof (induction m arbitrary: n)
  case Nil
  then show ?case by simp
next
  case (Cons e m)
  have "fact_bytes n (snd e) = n + state_bytes (snd e)"
    using Cons.prems by (cases "snd e") (auto simp: sat_add_exact)
  then show ?case using Cons by simp
qed

lemma recount_id: "facts_inv n p \<Longrightarrow> recount_script_bytes p = p"
  by (simp add: recount_script_bytes_def facts_inv_def fact_bytes_fold)

lemma keys_of_filter:
  "bt_ok m \<Longrightarrow> filter (bt_contains (filter Q m)) (bt_keys m) = bt_keys (filter Q m)"
proof -
  assume ok: "bt_ok m"
  have "bt_contains (filter Q m) (fst e) \<longleftrightarrow> Q e" if e: "e \<in> set m" for e
  proof
    assume "bt_contains (filter Q m) (fst e)"
    then obtain v where v: "(fst e, v) \<in> set m" "Q (fst e, v)"
      by (auto simp flip: bt_keys_contains)
    with e have "v = snd e" using bt_unique [OF ok v(1), of "snd e"] by simp
    with v show "Q e" by simp
  next
    assume "Q e"
    with e show "bt_contains (filter Q m) (fst e)" by (auto simp flip: bt_keys_contains)
  qed
  then show ?thesis by (simp add: filter_map comp_def cong: filter_cong)
qed

lemma drop_unreferenced_inv:
  assumes inv: "facts_inv n p" and q: "pd_facts q = pd_facts p" "pd_deferred q = pd_deferred p"
  shows "facts_inv n (drop_unreferenced_facts q)"
    and "set (bt_keys (pd_facts (drop_unreferenced_facts q))) =
      set (bt_keys (pd_facts p)) \<inter> needed q"
proof -
  let ?m = "bt_retain (\<lambda>k _. k \<in> needed q) (pd_facts p)"
  have n: "set (bs_of_list (concat (map (pc_required \<circ> snd) (pd_active q)))) = needed q"
    by (auto simp: needed_def)
  have le: "bt_weight state_bytes ?m \<le> bt_weight state_bytes (pd_facts p)"
    by (simp add: bt_retain_def bt_weight_filter)
  have w: "foldl fact_bytes 0 (map snd ?m) = bt_weight state_bytes ?m"
    using inv le by (intro fact_bytes_fold [where n = 0, simplified]) (simp add: facts_inv_def)
  have d: "drop_unreferenced_facts q =
      q\<lparr>pd_facts := ?m, pd_script_bytes := bt_weight state_bytes ?m\<rparr>"
    unfolding drop_unreferenced_facts_def recount_script_bytes_def Let_def n by (simp add: q w)
  have ok: "bt_ok (pd_facts p)" using inv by (simp add: facts_inv_def)
  show "facts_inv n (drop_unreferenced_facts q)"
    unfolding d using inv le ok
    by (auto simp: facts_inv_def bt_ok_retain bt_get_retain q split: option.splits if_splits)
  show "set (bt_keys (pd_facts (drop_unreferenced_facts q))) = set (bt_keys (pd_facts p)) \<inter> needed q"
    by (auto simp: d bt_retain_def)
qed

lemma drop_unreferenced_frame [simp]:
  "pd_active (drop_unreferenced_facts q) = pd_active q"
  "pd_queued (drop_unreferenced_facts q) = pd_queued q"
  "pd_fair_order (drop_unreferenced_facts q) = pd_fair_order q"
  "pd_deferred (drop_unreferenced_facts q) = pd_deferred q"
  "pd_raw_outputs (drop_unreferenced_facts q) = pd_raw_outputs q"
  by (simp_all add: drop_unreferenced_facts_def recount_script_bytes_def)

lemma removal_inv:
  assumes "pending_inv lib lim p"
  shows "pending_inv lib lim (prune_after_removal (p\<lparr>pd_active := filter Q (pd_active p)\<rparr>))"
    (is "pending_inv lib lim ?p")
proof -
  let ?active = "filter Q (pd_active p)"
  let ?q = "p\<lparr>pd_active := ?active, pd_fair_order := filter (bt_contains ?active) (pd_fair_order p)\<rparr>"
  have p: "?p = drop_unreferenced_facts ?q" by (simp add: prune_after_removal_def)
  have facts: "facts_inv (max_pending_script_bytes lim) p" and s: "slice_inv lib p"
    using assms by (simp_all add: pending_inv_def)
  have ok: "bt_ok (pd_active p)" using s by (simp add: slice_inv_def)
  have sub: "needed ?q \<subseteq> needed p" by (auto simp: needed_def)
  have "mset (filter (bt_contains ?active) (pd_fair_order p)) =
      filter_mset (bt_contains ?active) (mset (bt_keys (pd_active p)))"
    using s by (simp add: slice_inv_def)
  also have "\<dots> = mset (bt_keys ?active)"
    using keys_of_filter [OF ok, of Q] by (metis mset_filter)
  finally have fair: "mset (filter (bt_contains ?active) (pd_fair_order p)) = mset (bt_keys ?active)" .
  have "set (bt_keys (pd_facts ?p)) = needed ?q"
    using drop_unreferenced_inv(2) [OF facts, of ?q] s sub by (auto simp: p slice_inv_def)
  moreover have "needed ?p = needed ?q" by (simp add: p needed_def)
  moreover have "distinct (bt_keys ?active @ queued_keys p)"
    using s by (auto simp: slice_inv_def distinct_map_filter)
  moreover have "cursors_ok ?active"
    using s by (auto simp: slice_inv_def cursors_ok_def)
  ultimately have "slice_inv lib ?p"
    using s fair ok by (auto simp: slice_inv_def p bt_ok_filter)
  then show ?thesis
    using drop_unreferenced_inv(1) [OF facts, of ?q] by (simp add: pending_inv_def p)
qed

lemma fold_bt_remove: "fold bt_remove ks m = filter (\<lambda>e. fst e \<notin> set ks) m"
  by (induction ks arbitrary: m) (auto simp: bt_remove_def intro: filter_cong)

lemma defer_exhausted_inv:
  "pending_inv lib lim p \<Longrightarrow> defer_exhausted_candidates p = (n, p') \<Longrightarrow> pending_inv lib lim p'"
  by (auto simp: defer_exhausted_candidates_def Let_def fold_bt_remove removal_inv split: if_splits)

lemma defer_capacity_inv:
  assumes "pending_inv lib lim p" "defer_capacity_blocked_candidate p = (n, p')"
  shows "pending_inv lib lim p'"
proof (cases "doomed_candidate p")
  case None
  with assms show ?thesis by (simp add: defer_capacity_blocked_candidate_def)
next
  case (Some doomed)
  have "set (pd_fair_order p) = set (bt_keys (pd_active p))"
    using assms(1) unfolding pending_inv_def slice_inv_def by (metis mset_eq_setD)
  then have "filter (bt_contains (bt_remove doomed (pd_active p))) (pd_fair_order p) =
      filter (\<lambda>key. key \<noteq> doomed) (pd_fair_order p)"
    by (intro filter_cong) (auto simp: bt_remove_def simp flip: bt_keys_contains)
  with assms Some removal_inv [OF assms(1), of "\<lambda>e. fst e \<noteq> doomed"] show ?thesis
    by (auto simp: defer_capacity_blocked_candidate_def prune_after_removal_def bt_remove_def)
qed

lemma classify_keys_removes:
  "classify_keys lib keys p = Some (rs, p') \<Longrightarrow>
    p' = p\<lparr>pd_active := filter (\<lambda>e. fst e \<notin> set keys) (pd_active p)\<rparr>"
proof (induction keys arbitrary: p rs p')
  case Nil
  then show ?case by simp
next
  case (Cons key keys)
  then obtain c r rs' q where "classify_keys lib keys (p\<lparr>pd_active := bt_remove key (pd_active p)\<rparr>) = Some (rs', q)"
    "p' = q"
    by (auto split: option.splits)
  with Cons.IH show ?case by (fastforce simp: bt_remove_def intro: filter_cong)
qed

lemma classify_ready_inv:
  "pending_inv lib lim p \<Longrightarrow> classify_ready lib p = Some (rs, p') \<Longrightarrow> pending_inv lib lim p'"
  by (auto simp: classify_ready_def dest!: classify_keys_removes intro: removal_inv)

subsection \<open>Admission\<close>

lemma fold_or_insert_weight:
  "bt_ok m \<Longrightarrow> (\<And>k. w (f k) = 0) \<Longrightarrow> bt_weight w (fold (\<lambda>k. bt_or_insert k (f k)) ks m) = bt_weight w m"
proof (induction ks arbitrary: m)
  case Nil
  then show ?case by simp
next
  case (Cons k ks)
  have "bt_weight w (bt_or_insert k (f k) m) = bt_weight w m"
    using Cons.prems by (auto simp: bt_or_insert_def bt_contains_def bt_insert_fresh_weight)
  with Cons show ?case by (simp add: bt_ok_or_insert)
qed

lemma initial_fact_simps [simp]:
  "state_bytes (initial_fact variants p k) = 0"
  "initial_fact variants p k = OperationallyDeferred \<longleftrightarrow> k \<in> set (pd_deferred p)"
  by (simp_all add: initial_fact_def)

lemma bt_keys_insert_fresh:
  "bt_ok m \<Longrightarrow> k \<notin> set (bt_keys m) \<Longrightarrow> mset (bt_keys (bt_insert k v m)) = add_mset k (mset (bt_keys m))"
proof -
  assume ok: "bt_ok m" and k: "k \<notin> set (bt_keys m)"
  have "dropWhile (\<lambda>e. fst e \<le> k) m = dropWhile (\<lambda>e. fst e < k) m"
    using k by (intro dropWhile_cong) (auto simp: image_iff order.order_iff_strict)
  moreover have "mset (bt_keys m) = mset (bt_keys (takeWhile (\<lambda>e. fst e < k) m)) +
      mset (bt_keys (dropWhile (\<lambda>e. fst e < k) m))"
    by (metis map_append mset_append takeWhile_dropWhile_id)
  ultimately show ?thesis by (simp add: bt_insert_def)
qed

lemma activate_inv:
  assumes "pending_inv lib lim (p\<lparr>pd_queued := next # queue\<rparr>)"
  shows "pending_inv lib lim ((activate lib variants next p)\<lparr>pd_queued := queue\<rparr>)" (is "pending_inv _ _ ?p")
proof -
  let ?unique = "unique_prevouts lib (pr_transaction next)" and ?key = "ev_wtxid (pr_expected next)"
  let ?c = "\<lparr> pc_expected = pr_expected next, pc_transaction = pr_transaction next,
    pc_required = ?unique, fact_cursor = 0 \<rparr>"
  let ?facts = "fold (\<lambda>k. bt_or_insert k (initial_fact variants p k)) ?unique (pd_facts p)"
  have p: "?p = p\<lparr>pd_queued := queue, pd_facts := ?facts, pd_fair_order := pd_fair_order p @ [?key],
      pd_active := bt_insert ?key ?c (pd_active p)\<rparr>"
    by (simp add: activate_def Let_def)
  have facts: "facts_inv (max_pending_script_bytes lim) p"
    using assms by (simp add: pending_inv_def facts_inv_def)
  have ok: "bt_ok (pd_facts p)" using facts by (simp add: facts_inv_def)
  have okf: "bt_ok ?facts"
    and get: "\<forall>k. bt_get ?facts k = (case bt_get (pd_facts p) k of Some v \<Rightarrow> Some v
      | None \<Rightarrow> if k \<in> set ?unique then Some (initial_fact variants p k) else None)"
    using keys_fold_or_insert [OF ok, of "initial_fact variants p" ?unique] by blast+
  have active: "bt_ok (pd_active p)" "?key \<notin> set (bt_keys (pd_active p))"
    "mset (pd_fair_order p) = mset (bt_keys (pd_active p))"
    "set (bt_keys (pd_facts p)) = needed p"
    "\<forall>(key, c) \<in> set (pd_active p). candidate_ok lib key c"
    "distinct (bt_keys (pd_active p) @ ?key # map (\<lambda>c. ev_wtxid (pr_expected c)) queue)"
    "cursors_ok (pd_active p)"
    using assms by (auto simp: pending_inv_def slice_inv_def needed_def)
  have set: "set (bt_insert ?key ?c (pd_active p)) = insert (?key, ?c) (set (pd_active p))"
    using active(1,2) by (force simp: set_bt_insert)
  have need: "needed ?p = set ?unique \<union> needed p" unfolding needed_def by (simp add: p set)
  have keys: "set (bt_keys ?facts) = set ?unique \<union> needed p"
  proof -
    have "k \<in> set (bt_keys ?facts) \<longleftrightarrow> k \<in> set ?unique \<or> k \<in> set (bt_keys (pd_facts p))" for k
      unfolding bt_keys_contains bt_contains_def by (auto simp: get split: option.splits)
    with active(4) show ?thesis by blast
  qed
  have fm: "mset (bt_keys (bt_insert ?key ?c (pd_active p))) = add_mset ?key (mset (bt_keys (pd_active p)))"
    using active(1,2) by (rule bt_keys_insert_fresh)
  have dist: "distinct (bt_keys (bt_insert ?key ?c (pd_active p)) @ map (\<lambda>c. ev_wtxid (pr_expected c)) queue)"
  proof (rule mset_eq_imp_distinct_iff [THEN iffD2, OF _ active(6)])
    show "mset (bt_keys (bt_insert ?key ?c (pd_active p)) @ map (\<lambda>c. ev_wtxid (pr_expected c)) queue) =
        mset (bt_keys (pd_active p) @ ?key # map (\<lambda>c. ev_wtxid (pr_expected c)) queue)"
      using fm by simp
  qed
  have "facts_inv (max_pending_script_bytes lim) ?p"
    using facts okf fold_or_insert_weight [OF ok, of state_bytes "initial_fact variants p" ?unique]
    by (auto simp: facts_inv_def p get split: option.splits if_splits)
  moreover have "slice_inv lib ?p"
    unfolding slice_inv_def need
    using active keys dist fm by (auto simp: p bt_ok_insert set candidate_ok_def cursors_ok_def)
  ultimately show ?thesis by (simp add: pending_inv_def)
qed

lemma activate_loop_inv:
  "pending_inv lib lim (p\<lparr>pd_queued := queue\<rparr>) \<Longrightarrow>
    pending_inv lib lim (activate_loop lib variants lim queue p)"
proof (induction queue arbitrary: p)
  case Nil
  then show ?case by simp
next
  case (Cons c queue)
  then show ?case using activate_inv [OF Cons.prems, of variants] by simp
qed

lemma activate_waiting_inv:
  "pending_inv lib lim p \<Longrightarrow> pending_inv lib lim (activate_waiting lib variants lim p)"
proof -
  assume "pending_inv lib lim p"
  then have "pending_inv lib lim (activate_loop lib variants lim (pd_queued p) p)"
    by (intro activate_loop_inv) simp
  then show ?thesis unfolding activate_waiting_def using recount_id by (metis pending_inv_def)
qed

lemma pending_new_inv:
  assumes "distinct (map (ev_wtxid \<circ> fst) txs)" "max_pending_script_bytes lim \<le> usize_max"
  shows "pending_inv lib lim (pending_new lib codec txs variants lim)"
  unfolding pending_new_def
  by (intro activate_waiting_inv)
    (use assms in \<open>simp add: pending_inv_def facts_inv_def slice_inv_def needed_def bt_ok_def
      cursors_ok_def comp_def case_prod_unfold\<close>)

end
