(* ===== verification/Pending_Safety.thy ===== *)
theory Pending_Safety
  imports Pending_Props
begin

text \<open>
  The operations of a pending slice in any order, with any answers of the node: a step relation and
  what holds of every slice it reaches from an admitted set of transactions.
\<close>

section \<open>Runs\<close>

inductive pending_step ::
    "rust_bitcoin \<Rightarrow> txid_codec \<Rightarrow> (txid, current_variant) btree \<Rightarrow> resolver_limits \<Rightarrow>
     pending_slice \<Rightarrow> pending_slice \<Rightarrow> bool"
  for lib codec variants lim where
  activation: "pending_step lib codec variants lim p (activate_waiting lib variants lim p)"
| hydration: "hydrate_from_caches variants outputs lim cache p = (cache', a, b, p') \<Longrightarrow>
    pending_step lib codec variants lim p p'"
| transient: "hydrate_from_transient outputs confirmed lim p = (a, b, p') \<Longrightarrow>
    pending_step lib codec variants lim p p'"
| parent_request: "next_parent_wave codec variants lim p = (expected, p') \<Longrightarrow>
    pending_step lib codec variants lim p p'"
| parent_answer: "apply_parent_transaction codec e tx lim p = (outputs, a, b, p') \<Longrightarrow>
    pending_step lib codec variants lim p p'"
| parent_failure: "pending_step lib codec variants lim p (fall_back_parent_to_gettxout t p)"
| confirmed_request: "next_confirmed_wave lim p = (ks, p') \<Longrightarrow> pending_step lib codec variants lim p p'"
| confirmed_answer: "apply_confirmed_value k answer lim p = (r, p') \<Longrightarrow>
    pending_step lib codec variants lim p p'"
| pressure: "defer_one_capacity_blocked_fact p = (b, p') \<Longrightarrow> pending_step lib codec variants lim p p'"
| exhaustion: "defer_exhausted_candidates p = (n, p') \<Longrightarrow> pending_step lib codec variants lim p p'"
| eviction: "defer_capacity_blocked_candidate p = (n, p') \<Longrightarrow> pending_step lib codec variants lim p p'"
| classification: "classify_ready lib p = Some (rs, p') \<Longrightarrow> pending_step lib codec variants lim p p'"

inductive pending_reaches ::
    "rust_bitcoin \<Rightarrow> txid_codec \<Rightarrow> (txid, current_variant) btree \<Rightarrow> resolver_limits \<Rightarrow>
     pending_slice \<Rightarrow> pending_slice \<Rightarrow> bool"
  for lib codec variants lim p where
  here: "pending_reaches lib codec variants lim p p"
| step: "pending_reaches lib codec variants lim p q \<Longrightarrow> pending_step lib codec variants lim q r \<Longrightarrow>
    pending_reaches lib codec variants lim p r"

text \<open>The slices that come from the admission of these transactions.\<close>

abbreviation pending_runs ::
    "rust_bitcoin \<Rightarrow> txid_codec \<Rightarrow> (txid, current_variant) btree \<Rightarrow> resolver_limits \<Rightarrow>
     (expected_variant \<times> transaction) list \<Rightarrow> pending_slice \<Rightarrow> bool" where
  "pending_runs lib codec variants lim txs \<equiv>
     pending_reaches lib codec variants lim (pending_new lib codec txs variants lim)"

text \<open>What the type \<^verbatim>\<open>usize\<close> and the distinct variants of a slice give for its admission.\<close>

definition admissible :: "resolver_limits \<Rightarrow> (expected_variant \<times> transaction) list \<Rightarrow> bool" where
  "admissible lim txs \<longleftrightarrow> distinct (map (ev_wtxid \<circ> fst) txs) \<and> max_pending_script_bytes lim \<le> usize_max"

section \<open>What every step keeps\<close>

text \<open>The transactions a slice still holds.\<close>

definition held :: "string \<times> pending_candidate \<Rightarrow> expected_variant \<times> transaction" where
  "held e = (pc_expected (snd e), pc_transaction (snd e))"

definition queued :: "prepared_candidate \<Rightarrow> expected_variant \<times> transaction" where
  "queued q = (pr_expected q, pr_transaction q)"

definition admitted :: "pending_slice \<Rightarrow> (expected_variant \<times> transaction) set" where
  "admitted p = held ` set (pd_active p) \<union> queued ` set (pd_queued p)"

lemma admitted_shape: "shape p' = shape p \<Longrightarrow> admitted p' = admitted p"
proof -
  assume s: "shape p' = shape p"
  let ?f = "\<lambda>(key :: string, c). (key, pc_expected c, pc_transaction c, pc_required c)"
  have m: "map ?f (pd_active p') = map ?f (pd_active p)" and q: "pd_queued p' = pd_queued p"
    using s by (simp_all add: shape_def)
  have h: "map held a = map (\<lambda>(key, e, tx, k). (e, tx)) (map ?f a)" for a
    by (simp add: held_def comp_def case_prod_unfold)
  have "set (map held (pd_active p')) = set (map held (pd_active p))"
    unfolding h m ..
  with q show ?thesis by (simp add: admitted_def)
qed

definition advances :: "pending_slice \<Rightarrow> pending_slice \<Rightarrow> bool" where
  "advances p p' \<longleftrightarrow> admitted p' \<subseteq> admitted p \<and> set (pd_deferred p) \<subseteq> set (pd_deferred p')"

lemma kept_advances:
  "kept lib lim p p' \<Longrightarrow> pending_inv lib lim p \<Longrightarrow> pending_inv lib lim p' \<and> advances p p'"
  unfolding kept_def advances_def using admitted_shape [of p' p] by blast

lemma activate_admitted:
  assumes "bt_ok (pd_active p)"
  shows "bt_ok (pd_active (activate lib variants c p))" (is ?ok)
    and "admitted ((activate lib variants c p)\<lparr>pd_queued := queue\<rparr>) \<subseteq>
      admitted (p\<lparr>pd_queued := c # queue\<rparr>)" (is ?sub)
    and "pd_deferred (activate lib variants c p) = pd_deferred p" (is ?def)
proof -
  let ?key = "ev_wtxid (pr_expected c)"
  let ?new = "\<lparr> pc_expected = pr_expected c, pc_transaction = pr_transaction c,
      pc_required = unique_prevouts lib (pr_transaction c), fact_cursor = 0 \<rparr>"
  have a: "pd_active (activate lib variants c p) = bt_insert ?key ?new (pd_active p)"
    by (simp add: activate_def Let_def)
  show ?ok by (simp add: a assms bt_ok_insert)
  show ?def by (simp add: activate_def Let_def)
  have "set (bt_insert ?key ?new (pd_active p)) \<subseteq> insert (?key, ?new) (set (pd_active p))"
    using assms by (auto simp: set_bt_insert)
  then have "held ` set (bt_insert ?key ?new (pd_active p)) \<subseteq> insert (queued c) (held ` set (pd_active p))"
    by (fastforce simp: held_def queued_def)
  then show ?sub by (auto simp: admitted_def a)
qed

lemma activate_loop_admitted:
  "bt_ok (pd_active p) \<Longrightarrow>
    admitted (activate_loop lib variants lim queue p) \<subseteq> admitted (p\<lparr>pd_queued := queue\<rparr>) \<and>
    pd_deferred (activate_loop lib variants lim queue p) = pd_deferred p"
proof (induction queue arbitrary: p)
  case Nil
  then show ?case by simp
next
  case (Cons c queue)
  have ok: "bt_ok (pd_active (activate lib variants c p))"
    by (rule activate_admitted(1) [OF Cons.prems])
  note IH = Cons.IH [OF ok]
  show ?case
  proof (cases "window_full lib lim c p")
    case True
    then show ?thesis by simp
  next
    case False
    then have eq: "activate_loop lib variants lim (c # queue) p =
        activate_loop lib variants lim queue (activate lib variants c p)"
      by simp
    have "admitted ((activate lib variants c p)\<lparr>pd_queued := queue\<rparr>) \<subseteq> admitted (p\<lparr>pd_queued := c # queue\<rparr>)"
      and "pd_deferred (activate lib variants c p) = pd_deferred p"
      using activate_admitted [OF Cons.prems] by metis+
    then show ?thesis unfolding eq using IH by auto
  qed
qed

lemma activate_waiting_advances: "pending_inv lib lim p \<Longrightarrow> advances p (activate_waiting lib variants lim p)"
  using activate_loop_admitted [where p = p and queue = "pd_queued p"]
  by (auto simp: advances_def activate_waiting_def pending_inv_def slice_inv_def admitted_def
      recount_script_bytes_def)

lemma prune_advances:
  "advances p (prune_after_removal (p\<lparr>pd_active := filter Q (pd_active p)\<rparr>))"
  by (auto simp: advances_def admitted_def prune_after_removal_def)

lemma defer_exhausted_advances: "defer_exhausted_candidates p = (n, p') \<Longrightarrow> advances p p'"
  by (auto simp: defer_exhausted_candidates_def Let_def fold_bt_remove prune_advances split: if_splits)
    (simp add: advances_def)

lemma defer_capacity_advances: "defer_capacity_blocked_candidate p = (n, p') \<Longrightarrow> advances p p'"
  by (auto simp: defer_capacity_blocked_candidate_def advances_def admitted_def bt_remove_def
      split: option.splits)

lemma classify_ready_advances: "classify_ready lib p = Some (rs, p') \<Longrightarrow> advances p p'"
  by (auto simp: classify_ready_def dest!: classify_keys_removes intro: prune_advances)

lemma pending_step_inv:
  assumes "pending_step lib codec variants lim p p'" "pending_inv lib lim p"
  shows "pending_inv lib lim p' \<and> advances p p'"
  using assms
proof (cases rule: pending_step.cases)
  case activation
  with assms(2) show ?thesis by (simp add: activate_waiting_inv activate_waiting_advances)
next
  case parent_failure
  then have "kept lib lim p p'" by (metis kept_facts fall_back_inv)
  with assms(2) show ?thesis by (rule kept_advances [rotated])
next
  case exhaustion
  with assms(2) show ?thesis by (blast intro: defer_exhausted_inv defer_exhausted_advances)
next
  case eviction
  with assms(2) show ?thesis by (blast intro: defer_capacity_inv defer_capacity_advances)
next
  case classification
  with assms(2) show ?thesis by (blast intro: classify_ready_inv classify_ready_advances)
qed (use assms(2) in \<open>blast intro!: kept_advances intro: kept_hydrate_from_caches
  kept_hydrate_from_transient kept_next_parent_wave kept_apply_parent_transaction
  kept_next_confirmed_wave kept_apply_confirmed_value kept_defer_one\<close>)+

lemma pending_reaches_inv:
  assumes "pending_reaches lib codec variants lim p p'" "pending_inv lib lim p"
  shows "pending_inv lib lim p' \<and> advances p p'"
  using assms
proof (induction rule: pending_reaches.induct)
  case here
  then show ?case by (simp add: advances_def)
next
  case (step q r)
  then show ?case using pending_step_inv [of lib codec variants lim q r] by (fastforce simp: advances_def)
qed

lemma pending_new_admitted: "admitted (pending_new lib codec txs variants lim) \<subseteq> set txs"
proof -
  let ?p = "\<lparr> pd_queued = map (\<lambda>(expected, tx). \<lparr> pr_expected = expected, pr_transaction = tx \<rparr>) txs,
     pd_active = [], pd_fair_order = [], pd_facts = [], pd_deferred = [],
     pd_raw_outputs = fold (\<lambda>(expected, tx) m. case parse_txid codec (ev_txid expected) of
         Some txid \<Rightarrow> bt_insert txid (cached_outputs_of expected tx) m | None \<Rightarrow> m) txs [],
     pd_script_bytes = 0 \<rparr>"
  have "admitted ?p \<subseteq> set txs" by (auto simp: admitted_def queued_def)
  moreover have "admitted (activate_waiting lib variants lim ?p) \<subseteq> admitted ?p"
    using activate_loop_admitted [where p = ?p and queue = "pd_queued ?p"]
    by (auto simp: activate_waiting_def recount_script_bytes_def admitted_def bt_ok_def)
  ultimately show ?thesis by (auto simp: pending_new_def)
qed

lemma pending_runs_inv:
  assumes "pending_runs lib codec variants lim txs p" "admissible lim txs"
  shows "pending_inv lib lim p" "admitted p \<subseteq> set txs"
  using pending_reaches_inv [OF assms(1) pending_new_inv] assms(2) pending_new_admitted [of lib codec txs variants lim]
  by (auto simp: admissible_def advances_def)

section \<open>Classifying the ready candidates\<close>

text \<open>
  The record is the one of this transaction under exactly the scripts its facts hold, and is
  retryable when one of them is explicitly missing.
\<close>

definition record_of_facts ::
    "rust_bitcoin \<Rightarrow> pending_slice \<Rightarrow> expected_variant \<Rightarrow> transaction \<Rightarrow> cached_classification \<Rightarrow> bool" where
  "record_of_facts lib p e tx r \<longleftrightarrow> (\<exists>st prevouts. structure_of lib tx = Inr st \<and>
     classify_record lib (ev_txid e) (ev_wtxid e) st tx prevouts = Some (cc_classification r) \<and>
     (\<not> is_coinbase lib tx \<longrightarrow> (\<forall>i < length (tx_inputs tx). prevout_get prevouts i =
        (case bt_get (pd_facts p) (previous_output (tx_inputs tx ! i)) of
           Some (Ready script) \<Rightarrow> Some (prevout_new script None) | _ \<Rightarrow> None))) \<and>
     (cc_retryable r \<longleftrightarrow> \<not> is_coinbase lib tx \<and> (\<exists>i \<in> set (tx_inputs tx).
        bt_get (pd_facts p) (previous_output i) = Some ExplicitlyMissing)))"

lemma those_Some_iff: "those xs = Some ys \<longleftrightarrow> xs = map Some ys"
  by (induction xs arbitrary: ys) (auto split: option.splits)

lemma those_total: "(\<And>x. x \<in> set xs \<Longrightarrow> x \<noteq> None) \<Longrightarrow> \<exists>ys. those xs = Some ys"
  by (induction xs) (auto split: option.splits)

lemma classify_candidate_record:
  assumes "classify_candidate lib p c = Some r"
  shows "record_of_facts lib p (pc_expected c) (pc_transaction c) r"
proof -
  let ?tx = "pc_transaction c"
  obtain prevouts st where pv: "candidate_prevouts lib p c = Some (prevouts, cc_retryable r)"
    and st: "structure_of lib ?tx = Inr st"
    and rec: "classify_record lib (ev_txid (pc_expected c)) (ev_wtxid (pc_expected c)) st ?tx prevouts =
      Some (cc_classification r)"
    using assms by (auto simp: classify_candidate_def split: option.splits sum.splits)
  show ?thesis
  proof (cases "is_coinbase lib ?tx")
    case True
    with pv st rec show ?thesis
      unfolding record_of_facts_def candidate_prevouts_def by auto
  next
    case False
    then obtain facts where facts: "map (input_fact p) (tx_inputs ?tx) = map Some facts"
      and pvf: "prevouts = prevouts_from_vec facts"
      and rt: "cc_retryable r \<longleftrightarrow> None \<in> set facts"
      using pv by (auto simp: candidate_prevouts_def those_Some_iff list_ex_iff)
    have len: "length facts = length (tx_inputs ?tx)" using facts by (metis length_map)
    have nth: "input_fact p (tx_inputs ?tx ! i) = Some (facts ! i)" if "i < length (tx_inputs ?tx)" for i
      using that facts len by (metis nth_map)
    have get: "prevout_get prevouts i = (case bt_get (pd_facts p) (previous_output (tx_inputs ?tx ! i)) of
        Some (Ready script) \<Rightarrow> Some (prevout_new script None) | _ \<Rightarrow> None)"
      if "i < length (tx_inputs ?tx)" for i
      using nth [OF that] that len
      by (auto simp: pvf prevout_get_from_vec input_fact_def split: option.splits fact_state.splits)
    have miss: "None \<in> set facts \<longleftrightarrow> (\<exists>i \<in> set (tx_inputs ?tx).
        bt_get (pd_facts p) (previous_output i) = Some ExplicitlyMissing)"
    proof -
      have "None \<in> set facts \<longleftrightarrow> Some None \<in> set (map (input_fact p) (tx_inputs ?tx))"
        by (auto simp: facts)
      moreover have "input_fact p i = Some None \<longleftrightarrow>
          bt_get (pd_facts p) (previous_output i) = Some ExplicitlyMissing" for i
        by (auto simp: input_fact_def split: option.splits fact_state.splits)
      ultimately show ?thesis by (metis (no_types, lifting) image_iff set_map)
    qed
    show ?thesis
      unfolding record_of_facts_def using st rec get miss rt False by blast
  qed
qed

text \<open>Such a record is valid, and one that is final leaves nothing undetermined.\<close>

lemma record_of_facts_valid:
  assumes "record_of_facts lib p e tx r"
    and "\<And>i. i \<in> set (tx_inputs tx) \<Longrightarrow> \<not> is_coinbase lib tx \<Longrightarrow> terminal_fact p (previous_output i)"
  shows "validate_classification (cc_classification r) = Inr ()"
    "tc_txid (cc_classification r) = ev_txid e" "tc_wtxid (cc_classification r) = ev_wtxid e"
    "\<not> cc_retryable r \<Longrightarrow> ba_status (tc_assessment (cc_classification r)) \<noteq> Indeterminate"
proof -
  obtain st prevouts where
    rec: "classify_record lib (ev_txid e) (ev_wtxid e) st tx prevouts = Some (cc_classification r)"
    and get: "\<not> is_coinbase lib tx \<longrightarrow> (\<forall>i < length (tx_inputs tx). prevout_get prevouts i =
        (case bt_get (pd_facts p) (previous_output (tx_inputs tx ! i)) of
           Some (Ready script) \<Rightarrow> Some (prevout_new script None) | _ \<Rightarrow> None))"
    and retry: "cc_retryable r \<longleftrightarrow> \<not> is_coinbase lib tx \<and> (\<exists>i \<in> set (tx_inputs tx).
        bt_get (pd_facts p) (previous_output i) = Some ExplicitlyMissing)"
    using assms(1) unfolding record_of_facts_def by blast
  show "validate_classification (cc_classification r) = Inr ()" by (rule record_is_valid [OF rec])
  show "tc_txid (cc_classification r) = ev_txid e" "tc_wtxid (cc_classification r) = ev_wtxid e"
    using classify_record_Some [OF rec] by (metis (no_types, lifting) transaction_classification.select_convs(1,2))+
  assume final: "\<not> cc_retryable r"
  have "prevout_get prevouts i \<noteq> None" if "\<not> is_coinbase lib tx" "i < length (tx_inputs tx)" for i
  proof -
    have i: "tx_inputs tx ! i \<in> set (tx_inputs tx)" using that(2) by simp
    have "bt_get (pd_facts p) (previous_output (tx_inputs tx ! i)) \<noteq> Some ExplicitlyMissing"
      using final retry that(1) i by blast
    moreover have "terminal_fact p (previous_output (tx_inputs tx ! i))"
      using assms(2) [OF i that(1)] .
    ultimately show ?thesis
      using get that by (auto simp: terminal_fact_def split: option.splits fact_state.splits)
  qed
  then have "\<not> (\<not> is_coinbase lib tx \<and> list_ex (\<lambda>i. prevout_get prevouts i = None) [0..<length (tx_inputs tx)])"
    by (auto simp: list_ex_iff)
  then show "ba_status (tc_assessment (cc_classification r)) \<noteq> Indeterminate"
    using record_status [of lib "ev_txid e" "ev_wtxid e" st tx prevouts] unfolding rec by (auto split: if_splits)
qed

lemma classify_candidate_active [simp]:
  "classify_candidate lib (p\<lparr>pd_active := a\<rparr>) c = classify_candidate lib p c"
proof -
  have "input_fact (p\<lparr>pd_active := a\<rparr>) = input_fact p" by (simp add: input_fact_def fun_eq_iff)
  then show ?thesis by (simp add: classify_candidate_def candidate_prevouts_def)
qed

lemma classify_keys_spec:
  assumes "distinct keys"
    "\<And>key. key \<in> set keys \<Longrightarrow> \<exists>c r. bt_get (pd_active p) key = Some c \<and> classify_candidate lib p c = Some r"
    "bt_ok (pd_active p)"
  shows "\<exists>rs p'. classify_keys lib keys p = Some (rs, p') \<and> list_all2 (\<lambda>key r. \<exists>c.
     bt_get (pd_active p) key = Some c \<and> classify_candidate lib p c = Some r) keys rs"
  using assms
proof (induction keys arbitrary: p)
  case Nil
  then show ?case by simp
next
  case (Cons key keys)
  let ?p = "p\<lparr>pd_active := bt_remove key (pd_active p)\<rparr>"
  obtain c r where c: "bt_get (pd_active p) key = Some c" "classify_candidate lib p c = Some r"
    using Cons.prems(2) [of key] by auto
  have get: "bt_get (pd_active ?p) k = bt_get (pd_active p) k" if "k \<in> set keys" for k
    using that Cons.prems(1,3) by (auto simp: bt_get_remove)
  obtain rs p' where r: "classify_keys lib keys ?p = Some (rs, p')"
    and all: "list_all2 (\<lambda>key r. \<exists>c. bt_get (pd_active ?p) key = Some c \<and>
      classify_candidate lib ?p c = Some r) keys rs"
    using Cons.IH [of ?p] Cons.prems get by (auto simp: bt_ok_remove)
  have "list_all2 (\<lambda>key r. \<exists>c. bt_get (pd_active p) key = Some c \<and>
      classify_candidate lib p c = Some r) keys rs"
    using all get by (auto simp: list_all2_conv_all_nth)
  with c r show ?case by simp
qed

text \<open>When nothing is unreachable: only a coinbase may have an input without an output to spend.\<close>

definition well_formed :: "rust_bitcoin \<Rightarrow> transaction \<Rightarrow> bool" where
  "well_formed lib tx \<longleftrightarrow> \<not> isl (structure_of lib tx) \<and>
     (\<not> is_coinbase lib tx \<longrightarrow> list_all (\<lambda>i. \<not> is_null lib (previous_output i)) (tx_inputs tx))"

lemma ready_candidate_classified:
  assumes "candidate_ok lib key c" "list_all (terminal_fact p) (pc_required c)"
    "well_formed lib (pc_transaction c)"
  shows "\<exists>r. classify_candidate lib p c = Some r"
    "i \<in> set (tx_inputs (pc_transaction c)) \<Longrightarrow> \<not> is_coinbase lib (pc_transaction c) \<Longrightarrow>
      terminal_fact p (previous_output i)"
proof -
  let ?tx = "pc_transaction c"
  have t: "terminal_fact p (previous_output i)"
    if "i \<in> set (tx_inputs ?tx)" "\<not> is_coinbase lib ?tx" for i
    using that assms by (auto simp: well_formed_def candidate_ok_def unique_prevouts_def list_all_iff)
  then show "i \<in> set (tx_inputs ?tx) \<Longrightarrow> \<not> is_coinbase lib ?tx \<Longrightarrow> terminal_fact p (previous_output i)" .
  have f: "\<exists>facts. those (map (input_fact p) (tx_inputs ?tx)) = Some facts" if "\<not> is_coinbase lib ?tx"
    using t [OF _ that]
    by (intro those_total) (fastforce simp: terminal_fact_def input_fact_def split: option.splits fact_state.splits)
  have "\<exists>x. classify_record lib txid wtxid st ?tx prevouts = Some x" for txid wtxid st prevouts
    using record_status [of lib txid wtxid st ?tx prevouts]
    by (cases "classify_record lib txid wtxid st ?tx prevouts") auto
  moreover obtain pv where "candidate_prevouts lib p c = Some pv"
    using f by (cases "is_coinbase lib ?tx") (auto simp: candidate_prevouts_def)
  ultimately show "\<exists>r. classify_candidate lib p c = Some r"
    using assms(3) by (cases pv) (auto simp: classify_candidate_def well_formed_def split: sum.splits)
qed

text \<open>What \<open>classify_ready\<close> does on any consistent slice of well-formed transactions.\<close>

lemma classify_ready_spec:
  assumes inv: "slice_inv lib p" and wf: "\<And>e tx. (e, tx) \<in> admitted p \<Longrightarrow> well_formed lib tx"
  shows "\<exists>rs p'. classify_ready lib p = Some (rs, p') \<and>
    map (\<lambda>r. tc_wtxid (cc_classification r)) rs = ready_keys p \<and>
    bt_keys (pd_active p') = filter (\<lambda>key. key \<notin> set (ready_keys p)) (bt_keys (pd_active p)) \<and>
    list_all (\<lambda>r. \<exists>(e, tx) \<in> admitted p. record_of_facts lib p e tx r \<and>
      validate_classification (cc_classification r) = Inr () \<and>
      tc_txid (cc_classification r) = ev_txid e \<and> tc_wtxid (cc_classification r) = ev_wtxid e \<and>
      (\<not> cc_retryable r \<longrightarrow> ba_status (tc_assessment (cc_classification r)) \<noteq> Indeterminate)) rs"
proof -
  have ok: "bt_ok (pd_active p)" using inv by (simp add: slice_inv_def)
  have ready: "\<exists>c. bt_get (pd_active p) key = Some c \<and> candidate_ok lib key c \<and>
      list_all (terminal_fact p) (pc_required c) \<and> (pc_expected c, pc_transaction c) \<in> admitted p"
    if key: "key \<in> set (ready_keys p)" for key
  proof -
    obtain c where c: "(key, c) \<in> set (pd_active p)" "list_all (terminal_fact p) (pc_required c)"
      using key by (fastforce simp: ready_keys_def)
    moreover have "bt_get (pd_active p) key = Some c" using c(1) ok by (simp add: bt_get_iff)
    moreover have "(pc_expected c, pc_transaction c) \<in> admitted p"
      using c(1) by (force simp: admitted_def held_def)
    ultimately show ?thesis using inv by (auto simp: slice_inv_def)
  qed
  have total: "\<exists>c r. bt_get (pd_active p) key = Some c \<and> classify_candidate lib p c = Some r"
    if "key \<in> set (ready_keys p)" for key
    using ready [OF that] ready_candidate_classified(1) wf by metis
  have dist: "distinct (ready_keys p)"
    using ok by (simp add: ready_keys_def bt_ok_distinct bt_ok_filter)
  obtain rs q where cl: "classify_keys lib (ready_keys p) p = Some (rs, q)"
    and all: "list_all2 (\<lambda>key r. \<exists>c. bt_get (pd_active p) key = Some c \<and>
      classify_candidate lib p c = Some r) (ready_keys p) rs"
    using classify_keys_spec [OF dist total ok] by blast
  let ?good = "\<lambda>r. \<exists>(e, tx) \<in> admitted p. record_of_facts lib p e tx r \<and>
      validate_classification (cc_classification r) = Inr () \<and>
      tc_txid (cc_classification r) = ev_txid e \<and> tc_wtxid (cc_classification r) = ev_wtxid e \<and>
      (\<not> cc_retryable r \<longrightarrow> ba_status (tc_assessment (cc_classification r)) \<noteq> Indeterminate)"
  have each: "tc_wtxid (cc_classification r) = key \<and> ?good r"
    if key: "key \<in> set (ready_keys p)"
      and found: "\<exists>c. bt_get (pd_active p) key = Some c \<and> classify_candidate lib p c = Some r"
    for key r
  proof -
    obtain c where c: "classify_candidate lib p c = Some r" "candidate_ok lib key c"
      "list_all (terminal_fact p) (pc_required c)" "(pc_expected c, pc_transaction c) \<in> admitted p"
      using found ready [OF key] by auto
    note v = record_of_facts_valid [OF classify_candidate_record [OF c(1)]
        ready_candidate_classified(2) [OF c(2,3) wf [OF c(4)]]]
    show ?thesis using v c classify_candidate_record [OF c(1)] by (auto simp: candidate_ok_def)
  qed
  have "map (\<lambda>r. tc_wtxid (cc_classification r)) rs = ready_keys p"
    using all each by (auto simp: list_all2_conv_all_nth list_eq_iff_nth_eq)
  moreover have "list_all ?good rs"
    unfolding list_all_length
  proof (intro allI impI)
    fix i assume "i < length rs"
    with all have "ready_keys p ! i \<in> set (ready_keys p)" "\<exists>c. bt_get (pd_active p) (ready_keys p ! i) = Some c \<and>
        classify_candidate lib p c = Some (rs ! i)"
      by (simp_all add: list_all2_conv_all_nth)
    from each [OF this] show "?good (rs ! i)" by (rule conjunct2)
  qed
  moreover have "bt_keys (pd_active q) = filter (\<lambda>key. key \<notin> set (ready_keys p)) (bt_keys (pd_active p))"
    using classify_keys_removes [OF cl] by (simp add: filter_map comp_def)
  ultimately show ?thesis
    by (auto simp: classify_ready_def cl prune_after_removal_def)
qed

text \<open>
  C9: Classifying the ready candidates of any reachable slice never panics when every admitted
  transaction has a derivable structure and only coinbases have null inputs: exactly the ready
  candidates leave the slice, each with the record of its transaction under the scripts its facts
  hold; the record passes validation, and unless an explicitly missing output makes it retryable its
  status is not indeterminate.
\<close>

theorem ready_candidates_are_classified:
  assumes "pending_runs lib codec variants lim txs p" "admissible lim txs"
    "list_all (\<lambda>(e, tx). well_formed lib tx) txs"
  shows "\<exists>rs p'. classify_ready lib p = Some (rs, p') \<and>
    map (\<lambda>r. tc_wtxid (cc_classification r)) rs = ready_keys p \<and>
    bt_keys (pd_active p') = filter (\<lambda>key. key \<notin> set (ready_keys p)) (bt_keys (pd_active p)) \<and>
    list_all (\<lambda>r. \<exists>(e, tx) \<in> set txs. record_of_facts lib p e tx r \<and>
      validate_classification (cc_classification r) = Inr () \<and>
      (\<not> cc_retryable r \<longrightarrow> ba_status (tc_assessment (cc_classification r)) \<noteq> Indeterminate)) rs"
proof -
  have inv: "slice_inv lib p" and sub: "admitted p \<subseteq> set txs"
    using pending_runs_inv [OF assms(1,2)] by (auto simp: pending_inv_def)
  have wf: "well_formed lib tx" if "(e, tx) \<in> admitted p" for e tx
    using that sub assms(3) by (auto simp: list_all_iff)
  obtain rs p' where spec: "classify_ready lib p = Some (rs, p')"
    "map (\<lambda>r. tc_wtxid (cc_classification r)) rs = ready_keys p"
    "bt_keys (pd_active p') = filter (\<lambda>key. key \<notin> set (ready_keys p)) (bt_keys (pd_active p))"
    and good: "list_all (\<lambda>r. \<exists>(e, tx) \<in> admitted p. record_of_facts lib p e tx r \<and>
      validate_classification (cc_classification r) = Inr () \<and>
      tc_txid (cc_classification r) = ev_txid e \<and> tc_wtxid (cc_classification r) = ev_wtxid e \<and>
      (\<not> cc_retryable r \<longrightarrow> ba_status (tc_assessment (cc_classification r)) \<noteq> Indeterminate)) rs"
    using classify_ready_spec [OF inv] wf by blast
  have "list_all (\<lambda>r. \<exists>(e, tx) \<in> set txs. record_of_facts lib p e tx r \<and>
      validate_classification (cc_classification r) = Inr () \<and>
      (\<not> cc_retryable r \<longrightarrow> ba_status (tc_assessment (cc_classification r)) \<noteq> Indeterminate)) rs"
    using good sub unfolding list_all_iff by fastforce
  with spec show ?thesis by blast
qed

end
