(* ===== verification/Pending_Waves.thy ===== *)
theory Pending_Waves
  imports Pending_Safety
begin

text \<open>
  What a request wave selects: facts that wait for this source, each once, as many as the limits
  allow and nothing left behind when it stops short; and what deferral means for later waves.
\<close>

section \<open>Picking a fact\<close>

lemma scan_facts_Some:
  "scan_facts P facts c offsets = (Some k, c') \<Longrightarrow> \<exists>state. bt_get facts k = Some state \<and> P k state"
  by (induction offsets) (auto simp: Let_def split: option.splits if_splits)

lemma scan_facts_None:
  "scan_facts P facts c offsets = (None, c') \<Longrightarrow> c' = c \<and> (\<forall>i \<in> set offsets. \<forall>state.
     let k = pc_required c ! (sat_add (fact_cursor c) i mod length (pc_required c))
     in bt_get facts k = Some state \<longrightarrow> \<not> P k state)"
  by (induction offsets) (auto simp: Let_def split: option.splits if_splits)

lemma next_candidate_fact_Some:
  "next_candidate_fact P facts c = (Some k, c') \<Longrightarrow> \<exists>state. bt_get facts k = Some state \<and> P k state"
  by (auto simp: next_candidate_fact_def dest: scan_facts_Some split: if_splits)

text \<open>From any cursor the offsets reach every position.\<close>

lemma offset_exists:
  fixes n :: nat
  assumes "j < n" "cursor \<le> n"
  shows "\<exists>i < n. (cursor + i) mod n = j"
proof (cases "cursor \<le> j")
  case True
  with assms show ?thesis by (intro exI [of _ "j - cursor"]) auto
next
  case False
  with assms have "cursor + (j + n - cursor) = j + n" "j + n - cursor < n" by auto
  then show ?thesis using assms by (intro exI [of _ "j + n - cursor"]) simp
qed

lemma next_candidate_fact_None:
  assumes "next_candidate_fact P facts c = (None, c')"
    "fact_cursor c \<le> length (pc_required c)" "2 * length (pc_required c) \<le> usize_max"
  shows "c' = c" "\<And>k state. k \<in> set (pc_required c) \<Longrightarrow> bt_get facts k = Some state \<Longrightarrow> \<not> P k state"
proof -
  let ?n = "length (pc_required c)"
  show "c' = c"
    using assms(1) by (auto simp: next_candidate_fact_def dest: scan_facts_None split: if_splits)
  fix k state
  assume k: "k \<in> set (pc_required c)" and state: "bt_get facts k = Some state"
  then have scan: "scan_facts P facts c [0..<?n] = (None, c')"
    using assms(1) by (cases "pc_required c = []") (simp_all add: next_candidate_fact_def)
  obtain j where j: "j < ?n" "pc_required c ! j = k" using k by (auto simp: in_set_conv_nth)
  obtain i where i: "i < ?n" "(fact_cursor c + i) mod ?n = j"
    using offset_exists [OF j(1) assms(2)] by blast
  have "sat_add (fact_cursor c) i = fact_cursor c + i"
    using i(1) assms(2,3) by (intro sat_add_exact) simp
  then show "\<not> P k state"
    using scan_facts_None [OF scan] i j state by (auto simp: Let_def dest!: bspec [of _ _ i])
qed

lemma pick_fact_Some:
  assumes "pick_fact P key w = (Some k, w')"
  shows "\<exists>state. bt_get (pd_facts (wv_pending w)) k = Some state \<and> P k state"
    "pd_facts (wv_pending w') = pd_facts (wv_pending w)"
  using assms next_candidate_fact_Some [of P "pd_facts (wv_pending w)" _ k]
  by (auto simp: pick_fact_def Let_def split: option.splits prod.splits)

lemma pick_fact_None:
  assumes "pick_fact P key w = (None, w')" "bt_ok (pd_active (wv_pending w))"
    "cursors_ok (pd_active (wv_pending w))"
    "\<forall>(key, c) \<in> set (pd_active (wv_pending w)). 2 * length (pc_required c) \<le> usize_max"
  shows "w' = w" "\<And>c k state. bt_get (pd_active (wv_pending w)) key = Some c \<Longrightarrow>
     k \<in> set (pc_required c) \<Longrightarrow> bt_get (pd_facts (wv_pending w)) k = Some state \<Longrightarrow> \<not> P k state"
proof -
  let ?p = "wv_pending w"
  have *: "w' = w \<and> (\<forall>k \<in> set (pc_required c). \<forall>state. bt_get (pd_facts ?p) k = Some state \<longrightarrow> \<not> P k state)"
    if c: "bt_get (pd_active ?p) key = Some c" for c
  proof -
    have "(key, c) \<in> set (pd_active ?p)" using c assms(2) by (simp add: bt_get_iff)
    then have len: "fact_cursor c \<le> length (pc_required c)" "2 * length (pc_required c) \<le> usize_max"
      using assms(3,4) by (auto simp: cursors_ok_def)
    obtain c' where n: "next_candidate_fact P (pd_facts ?p) c = (None, c')"
      and w': "w' = w\<lparr>wv_pending := ?p\<lparr>pd_active := bt_modify key (\<lambda>_. c') (pd_active ?p)\<rparr>\<rparr>"
      using assms(1) c by (auto simp: pick_fact_def Let_def split: prod.splits)
    have "bt_modify key (\<lambda>_. c) (pd_active ?p) = pd_active ?p"
      using assms(2) c by (intro bt_ext) (auto simp: bt_get_modify)
    then show ?thesis using next_candidate_fact_None [OF n len] w' by auto
  qed
  show "w' = w"
    using assms(1) * by (cases "bt_get (pd_active ?p) key") (auto simp: pick_fact_def)
  show "\<And>c k state. bt_get (pd_active ?p) key = Some c \<Longrightarrow> k \<in> set (pc_required c) \<Longrightarrow>
      bt_get (pd_facts ?p) k = Some state \<Longrightarrow> \<not> P k state"
    using * by blast
qed

section \<open>The confirmed wave\<close>

lemma confirmed_selectable_seen:
  "confirmed_selectable seen k state \<longleftrightarrow> confirmed_selectable [] k state \<and> k \<notin> set seen"
  by (cases "(seen, k, state)" rule: confirmed_selectable.cases) auto

fun one_more_attempt :: "fact_state \<Rightarrow> fact_state" where
  "one_more_attempt (Awaiting source attempts) = Awaiting source (sat_inc8 attempts)"
| "one_more_attempt state = state"

definition confirmed_wave_ok :: "pending_slice \<Rightarrow> (out_point, out_point) wave \<Rightarrow> bool" where
  "confirmed_wave_ok p w \<longleftrightarrow> distinct (wv_selected w) \<and> set (wv_seen w) = set (wv_selected w) \<and>
     (\<forall>k. bt_get (pd_facts (wv_pending w)) k =
        map_option (if k \<in> set (wv_selected w) then one_more_attempt else id) (bt_get (pd_facts p) k)) \<and>
     (\<forall>k \<in> set (wv_selected w). \<exists>state. bt_get (pd_facts p) k = Some state \<and> confirmed_selectable [] k state)"

lemma record_fact_attempt_get:
  "bt_get (pd_facts (record_fact_attempt k p)) k' =
     map_option (if k' = k then one_more_attempt else id) (bt_get (pd_facts p) k')"
  by (auto simp: record_fact_attempt_def bt_get_modify option.map_id intro!: option.map_cong split: fact_state.splits)

lemma confirmed_visit_ok:
  assumes "confirmed_wave_ok p w" "length (wv_selected w) < n" "confirmed_visit n key w = (r, w')"
  shows "confirmed_wave_ok p w' \<and> length (wv_selected w') \<le> n \<and>
    (r \<longleftrightarrow> length (wv_selected w') = n)"
proof -
  obtain k v where v: "pick_fact (confirmed_selectable (wv_seen w)) key w = (k, v)" by fastforce
  note frame = pick_fact_frame [OF v]
  show ?thesis
  proof (cases k)
    case None
    then have "w' = v" "\<not> r" using assms(3) v by (simp_all add: confirmed_visit_def)
    moreover have "pd_facts (wv_pending v) = pd_facts (wv_pending w)"
      using v by (auto simp: pick_fact_def Let_def split: option.splits prod.splits)
    ultimately show ?thesis using assms(1,2) frame by (simp add: confirmed_wave_ok_def)
  next
    case (Some x)
    note pick = pick_fact_Some [OF v [unfolded Some]]
    obtain state where state: "bt_get (pd_facts (wv_pending w)) x = Some state"
      and sel: "confirmed_selectable (wv_seen w) x state" using pick(1) by blast
    have fresh: "x \<notin> set (wv_selected w)" and sel0: "confirmed_selectable [] x state"
      using sel assms(1) confirmed_selectable_seen [of "wv_seen w"] by (auto simp: confirmed_wave_ok_def)
    then have old: "bt_get (pd_facts p) x = Some state"
      using state assms(1) by (simp add: confirmed_wave_ok_def option.map_id)
    have w': "wv_selected w' = wv_selected w @ [x]" "wv_seen w' = bs_insert x (wv_seen w)"
      "wv_pending w' = record_fact_attempt x (wv_pending v)" "r \<longleftrightarrow> n \<le> length (wv_selected w')"
      using assms(3) frame by (auto simp: confirmed_visit_def v Some Let_def)
    have "confirmed_wave_ok p w'"
      using assms(1) fresh old sel0
      by (auto simp: confirmed_wave_ok_def w' record_fact_attempt_get pick(2) option.map_comp comp_def
          option.map_ident option.map_id)
    then show ?thesis using assms(2) w' by auto
  qed
qed

lemma confirmed_round_ok:
  assumes "confirmed_wave_ok p w" "length (wv_selected w) < n"
    "wave_round (confirmed_visit n) m w = (r, w')"
  shows "confirmed_wave_ok p w' \<and> length (wv_selected w') \<le> n \<and> (r \<longleftrightarrow> length (wv_selected w') = n)"
  using assms
proof (induction m arbitrary: w)
  case 0
  then show ?case by auto
next
  case (Suc m)
  show ?case
  proof (cases "pd_fair_order (wv_pending w)")
    case Nil
    with Suc.prems show ?thesis by auto
  next
    case (Cons key rest)
    let ?w = "w\<lparr>wv_pending := (wv_pending w)\<lparr>pd_fair_order := rest @ [key]\<rparr>\<rparr>"
    obtain b v where v: "confirmed_visit n key ?w = (b, v)" by fastforce
    have ok: "confirmed_wave_ok p ?w" using Suc.prems(1) by (simp add: confirmed_wave_ok_def)
    have step: "confirmed_wave_ok p v \<and> length (wv_selected v) \<le> n \<and> (b \<longleftrightarrow> length (wv_selected v) = n)"
      using confirmed_visit_ok [OF ok _ v] Suc.prems(2) by simp
    show ?thesis
    proof (cases b)
      case True
      with Suc.prems(3) Cons v step show ?thesis by auto
    next
      case False
      with Suc.prems(3) Cons v have "wave_round (confirmed_visit n) m v = (r, w')" by simp
      then show ?thesis using Suc.IH [of v] step False by auto
    qed
  qed
qed

text \<open>A round that adds nothing has found every candidate it passed without a selectable fact.\<close>

definition scannable :: "pending_slice \<Rightarrow> bool" where
  "scannable p \<longleftrightarrow> bt_ok (pd_active p) \<and> cursors_ok (pd_active p) \<and>
     (\<forall>(key, c) \<in> set (pd_active p). 2 * length (pc_required c) \<le> usize_max)"

definition nothing_selectable :: "pending_slice \<Rightarrow> out_point bset \<Rightarrow> string \<Rightarrow> bool" where
  "nothing_selectable p seen key \<longleftrightarrow> (\<forall>c. bt_get (pd_active p) key = Some c \<longrightarrow>
     (\<forall>k \<in> set (pc_required c). \<forall>state. bt_get (pd_facts p) k = Some state \<longrightarrow>
        \<not> confirmed_selectable seen k state))"

lemma confirmed_visit_added:
  "confirmed_visit n key w = (r, w') \<Longrightarrow> wv_added w \<Longrightarrow> wv_added w'"
  using pick_fact_frame [of _ key w]
  by (auto simp: confirmed_visit_def Let_def split: prod.splits option.splits)

lemma confirmed_round_added:
  "wave_round (confirmed_visit n) m w = (r, w') \<Longrightarrow> wv_added w \<Longrightarrow> wv_added w'"
proof (induction m arbitrary: w)
  case 0
  then show ?case by simp
next
  case (Suc m)
  then show ?case
    by (auto split: list.splits prod.splits bool.splits dest!: confirmed_visit_added)
qed

lemma quiet_visit:
  assumes "confirmed_visit n key w = (r, w')" "\<not> wv_added w'" "scannable (wv_pending w)"
  shows "w' = w" "\<not> r" "nothing_selectable (wv_pending w) (wv_seen w) key"
proof -
  obtain k v where v: "pick_fact (confirmed_selectable (wv_seen w)) key w = (k, v)" by fastforce
  have k: "k = None" using assms(1,2) v by (cases k) (auto simp: confirmed_visit_def Let_def)
  have sc: "bt_ok (pd_active (wv_pending w))" "cursors_ok (pd_active (wv_pending w))"
    "\<forall>(key, c) \<in> set (pd_active (wv_pending w)). 2 * length (pc_required c) \<le> usize_max"
    using assms(3) by (simp_all add: scannable_def)
  note none = pick_fact_None [OF v [unfolded k] sc]
  show "w' = w" "\<not> r" using assms(1) v none(1) k by (simp_all add: confirmed_visit_def)
  show "nothing_selectable (wv_pending w) (wv_seen w) key"
    using none(2) unfolding nothing_selectable_def by blast
qed

lemma quiet_round:
  assumes "wave_round (confirmed_visit n) m w = (r, w')" "\<not> wv_added w'" "scannable (wv_pending w)"
    "m \<le> length (pd_fair_order (wv_pending w))"
  shows "(\<forall>key \<in> set (take m (pd_fair_order (wv_pending w))).
      nothing_selectable (wv_pending w) (wv_seen w) key) \<and> wv_selected w' = wv_selected w"
  using assms
proof (induction m arbitrary: w)
  case 0
  then show ?case by simp
next
  case (Suc m)
  note prems = Suc.prems
  obtain key rest where fair: "pd_fair_order (wv_pending w) = key # rest"
    using prems(4) by (cases "pd_fair_order (wv_pending w)") auto
  let ?w = "w\<lparr>wv_pending := (wv_pending w)\<lparr>pd_fair_order := rest @ [key]\<rparr>\<rparr>"
  obtain b v where v: "confirmed_visit n key ?w = (b, v)" by fastforce
  have sc: "scannable (wv_pending ?w)" using prems(3) by (simp add: scannable_def)
  have quiet: "\<not> wv_added v"
    using prems(1,2) fair v by (cases b) (auto dest: confirmed_round_added)
  note q = quiet_visit [OF v quiet sc]
  have round: "wave_round (confirmed_visit n) m ?w = (r, w')"
    using prems(1) fair v q(1,2) by simp
  have take: "take m (pd_fair_order (wv_pending ?w)) = take m rest" "m \<le> length (rest @ [key])"
    using prems(4) fair by simp_all
  have "nothing_selectable (wv_pending ?w) (wv_seen ?w) = nothing_selectable (wv_pending w) (wv_seen w)"
    by (simp add: nothing_selectable_def fun_eq_iff)
  then show ?case
    using Suc.IH [OF round prems(2) sc] take q(3) by (auto simp: fair)
qed

definition sizes_ok :: "pending_slice \<Rightarrow> bool" where
  "sizes_ok p \<longleftrightarrow> (\<forall>(key, c) \<in> set (pd_active p). 2 * length (pc_required c) \<le> usize_max)"

lemma sizes_shape: "shape p' = shape p \<Longrightarrow> sizes_ok p \<Longrightarrow> sizes_ok p'"
proof -
  assume s: "shape p' = shape p" and ok: "sizes_ok p"
  let ?f = "\<lambda>(key :: string, c). (key, pc_expected c, pc_transaction c, pc_required c)"
  have m: "map ?f (pd_active p') = map ?f (pd_active p)" using s by (simp add: shape_def)
  have l: "sizes_ok q \<longleftrightarrow> list_all (\<lambda>(key, e, tx, r). 2 * length r \<le> usize_max) (map ?f (pd_active q))" for q
    by (auto simp: sizes_ok_def list_all_iff)
  show "sizes_ok p'" using ok unfolding l m .
qed

lemma nothing_selectable_complete:
  assumes "confirmed_wave_ok p w" "slice_inv lib (wv_pending w)" "set (wv_seen w) = set (wv_selected w)"
    "\<forall>key \<in> set (pd_fair_order (wv_pending w)). nothing_selectable (wv_pending w) (wv_seen w) key"
    "bt_get (pd_facts p) k = Some state" "confirmed_selectable [] k state"
  shows "k \<in> set (wv_selected w)"
proof (rule ccontr)
  assume new: "k \<notin> set (wv_selected w)"
  then have now: "bt_get (pd_facts (wv_pending w)) k = Some state"
    using assms(1,5) by (simp add: confirmed_wave_ok_def)
  then have "k \<in> needed (wv_pending w)"
    using assms(2) map_of_SomeD [OF now] unfolding slice_inv_def by (metis fst_conv image_eqI set_map)
  then obtain key c where c: "(key, c) \<in> set (pd_active (wv_pending w))" "k \<in> set (pc_required c)"
    by (auto simp: needed_def)
  then have "key \<in> set (pd_fair_order (wv_pending w))" "bt_get (pd_active (wv_pending w)) key = Some c"
    using assms(2) c(1) unfolding slice_inv_def
    by (metis fst_conv image_eqI mset_eq_setD set_map) (use assms(2) c(1) in \<open>simp add: slice_inv_def bt_get_iff\<close>)
  then have "\<not> confirmed_selectable (wv_seen w) k state"
    using assms(4) c(2) now unfolding nothing_selectable_def by blast
  then show False
    using new assms(3,6) confirmed_selectable_seen [of "wv_seen w" k state] by simp
qed

lemma confirmed_loop_ok:
  assumes "confirmed_wave_ok p w" "length (wv_selected w) < n" "pending_inv lib lim (wv_pending w)"
    "sizes_ok (wv_pending w)"
  shows "confirmed_wave_ok p (confirmed_wave_loop n w) \<and>
    length (wv_selected (confirmed_wave_loop n w)) \<le> n \<and>
    (length (wv_selected (confirmed_wave_loop n w)) = n \<or>
     (\<forall>k state. bt_get (pd_facts p) k = Some state \<longrightarrow> confirmed_selectable [] k state \<longrightarrow>
        k \<in> set (wv_selected (confirmed_wave_loop n w))))"
  using assms
proof (induction n w rule: confirmed_wave_loop.induct)
  case (1 n w)
  let ?w = "w\<lparr>wv_added := False\<rparr>" and ?m = "length (pd_fair_order (wv_pending w))"
  obtain r v where v: "wave_round (confirmed_visit n) ?m ?w = (r, v)" by fastforce
  have ok: "confirmed_wave_ok p ?w" using 1(2) by (simp add: confirmed_wave_ok_def)
  have step: "confirmed_wave_ok p v \<and> length (wv_selected v) \<le> n \<and> (r \<longleftrightarrow> length (wv_selected v) = n)"
    using confirmed_round_ok [OF ok _ v] 1(3) by simp
  have kept: "pending_inv lib lim (wv_pending v)" "sizes_ok (wv_pending v)"
    using kept_wave_round [where lib = lib and lim = lim, OF kept_confirmed_visit v] 1(4,5) sizes_shape
    by (auto simp: kept_def)
  show ?case
  proof (cases "r \<or> \<not> wv_added v")
    case False
    then have "confirmed_wave_loop n w = confirmed_wave_loop n v"
      by (subst confirmed_wave_loop.simps) (simp add: v)
    then show ?thesis using 1(1) [OF v [symmetric]] False step kept by simp
  next
    case True
    then have loop: "confirmed_wave_loop n w = v"
      by (subst confirmed_wave_loop.simps) (auto simp: v split: bool.splits)
    have "\<forall>k state. bt_get (pd_facts p) k = Some state \<longrightarrow> confirmed_selectable [] k state \<longrightarrow>
        k \<in> set (wv_selected v)" if "\<not> r"
    proof -
      have quiet: "\<not> wv_added v" using True that by simp
      have sc: "scannable (wv_pending ?w)"
        using 1(4,5) by (auto simp: scannable_def pending_inv_def slice_inv_def sizes_ok_def)
      have "\<forall>key \<in> set (pd_fair_order (wv_pending ?w)). nothing_selectable (wv_pending ?w) (wv_seen ?w) key"
        and sel: "wv_selected v = wv_selected w"
        using quiet_round [OF v quiet sc] by simp_all
      then show ?thesis
        using nothing_selectable_complete [OF ok, of lib] 1(4) ok unfolding sel
        by (simp add: pending_inv_def confirmed_wave_ok_def)
    qed
    then show ?thesis using loop step by blast
  qed
qed

lemma unique_prevouts_length: "length (unique_prevouts lib tx) \<le> length (tx_inputs tx)"
proof -
  have "length (bs_of_list xs) \<le> length xs" for xs :: "out_point list"
    using bs_ok_of_list [of xs] distinct_card [of "bs_of_list xs"] card_length [of xs]
    by (simp add: strict_sorted_iff)
  then have "length (unique_prevouts lib tx) \<le> length (filter (\<lambda>i. \<not> is_null lib (previous_output i)) (tx_inputs tx))"
    unfolding unique_prevouts_def by (metis length_map)
  also have "\<dots> \<le> length (tx_inputs tx)" by (rule length_filter_le)
  finally show ?thesis .
qed

lemma small_sizes_ok:
  assumes inv: "pending_inv lib lim p" and small: "\<And>e tx. (e, tx) \<in> admitted p \<Longrightarrow> 2 * length (tx_inputs tx) \<le> usize_max"
  shows "sizes_ok p"
proof -
  have "2 * length (pc_required c) \<le> usize_max" if "(key, c) \<in> set (pd_active p)" for key c
  proof -
    have "(pc_expected c, pc_transaction c) \<in> admitted p" using that by (force simp: admitted_def held_def)
    then have "2 * length (tx_inputs (pc_transaction c)) \<le> usize_max" by (rule small)
    moreover have "pc_required c = unique_prevouts lib (pc_transaction c)"
      using that inv by (auto simp: pending_inv_def slice_inv_def candidate_ok_def)
    ultimately show ?thesis using unique_prevouts_length [of lib "pc_transaction c"] by simp
  qed
  then show ?thesis by (auto simp: sizes_ok_def)
qed

lemma runs_sizes_ok:
  assumes "pending_runs lib codec variants lim txs p" "admissible lim txs"
    "list_all (\<lambda>(e, tx). 2 * length (tx_inputs tx) \<le> usize_max) txs"
  shows "sizes_ok p"
  using pending_runs_inv [OF assms(1,2)] assms(3) by (intro small_sizes_ok) (auto simp: list_all_iff)

lemma next_confirmed_wave_spec:
  assumes inv: "pending_inv lib lim p" and sizes: "sizes_ok p" and next_wave: "next_confirmed_wave lim p = (ks, p')"
  shows "distinct ks \<and> length ks \<le> confirmed_wave_maximum lim p \<and>
    (length ks < confirmed_wave_maximum lim p \<longrightarrow>
      (\<forall>k state. bt_get (pd_facts p) k = Some state \<and> confirmed_selectable [] k state \<longrightarrow> k \<in> set ks)) \<and>
    (\<forall>k \<in> set ks. \<exists>state. bt_get (pd_facts p) k = Some state \<and> confirmed_selectable [] k state) \<and>
    (\<forall>k. bt_get (pd_facts p') k =
       map_option (if k \<in> set ks then one_more_attempt else id) (bt_get (pd_facts p) k))"
proof -
  let ?n = "confirmed_wave_maximum lim p"
  let ?w = "wave_start p :: (out_point, out_point) wave"
  have start: "confirmed_wave_ok p ?w"
    by (simp add: confirmed_wave_ok_def wave_start_def option.map_id)
  have spec: "confirmed_wave_ok p w \<and> ks = wv_selected w \<and> p' = wv_pending w \<and> length ks \<le> ?n \<and>
      (length ks = ?n \<or> (\<forall>k state. bt_get (pd_facts p) k = Some state \<longrightarrow>
        confirmed_selectable [] k state \<longrightarrow> k \<in> set ks))"
    if "w = (if ?n = 0 then ?w else confirmed_wave_loop ?n ?w)" for w
  proof (cases "?n = 0")
    case True
    with that next_wave start show ?thesis by (simp add: next_confirmed_wave_def) (simp add: wave_start_def)
  next
    case False
    then show ?thesis
      using that next_wave confirmed_loop_ok [OF start, of ?n lib lim] inv sizes
      by (auto simp: next_confirmed_wave_def Let_def) (simp_all add: wave_start_def)
  qed
  then obtain w where w: "confirmed_wave_ok p w" "ks = wv_selected w" "p' = wv_pending w" "length ks \<le> ?n"
    "length ks = ?n \<or> (\<forall>k state. bt_get (pd_facts p) k = Some state \<longrightarrow>
        confirmed_selectable [] k state \<longrightarrow> k \<in> set ks)"
    by blast
  show ?thesis
    using w by (auto simp: confirmed_wave_ok_def)
qed

text \<open>
  C27: A confirmed wave of a reachable slice selects distinct outpoints, each waiting for a confirmed
  output (or falling back to one) with attempts left; at most as many as the limits allow, and fewer
  only when no waiting fact was left out; each selected fact has one more attempt and no other
  fact changes.
\<close>

theorem confirmed_wave_takes_all_it_can:
  assumes "pending_runs lib codec variants lim txs p" "admissible lim txs"
    "list_all (\<lambda>(e, tx). 2 * length (tx_inputs tx) \<le> usize_max) txs"
    "next_confirmed_wave lim p = (ks, p')"
  shows "distinct ks \<and> length ks \<le> confirmed_wave_maximum lim p \<and>
    (length ks < confirmed_wave_maximum lim p \<longrightarrow>
      (\<forall>k state. bt_get (pd_facts p) k = Some state \<and> confirmed_selectable [] k state \<longrightarrow> k \<in> set ks)) \<and>
    (\<forall>k \<in> set ks. \<exists>state. bt_get (pd_facts p) k = Some state \<and> confirmed_selectable [] k state) \<and>
    (\<forall>k. bt_get (pd_facts p') k =
       map_option (if k \<in> set ks then one_more_attempt else id) (bt_get (pd_facts p) k))"
  by (rule next_confirmed_wave_spec [OF pending_runs_inv(1) [OF assms(1,2)] runs_sizes_ok [OF assms(1-3)] assms(4)])

section \<open>The parent wave\<close>

definition parent_request ::
    "txid_codec \<Rightarrow> (txid, current_variant) btree \<Rightarrow> pending_slice \<Rightarrow> txid \<Rightarrow> expected_variant \<Rightarrow> bool" where
  "parent_request codec variants p t e \<longleftrightarrow>
     (\<exists>v. bt_get variants t = Some v \<and>
        e = \<lparr> ev_txid = show_txid codec t, ev_wtxid = cv_wtxid v, ev_vsize = cv_vsize v \<rparr>) \<and>
     (\<exists>k attempts. op_txid k = t \<and> bt_get (pd_facts p) k = Some (Awaiting CurrentParent attempts) \<and>
        attempts < MAX_FACT_ATTEMPTS_PER_SOURCE_PER_WINDOW)"

definition response_bytes_of :: "expected_variant list \<Rightarrow> nat" where
  "response_bytes_of es = foldl sat_add 0 (map estimated_raw_response_bytes es)"

definition parent_wave_ok ::
    "txid_codec \<Rightarrow> (txid, current_variant) btree \<Rightarrow> pending_slice \<Rightarrow> (expected_variant, txid) wave \<Rightarrow> bool" where
  "parent_wave_ok codec variants p w \<longleftrightarrow> (\<exists>ts. distinct ts \<and> set (wv_seen w) = set ts \<and>
     list_all2 (parent_request codec variants p) ts (wv_selected w) \<and>
     wv_bytes w = response_bytes_of (wv_selected w) \<and>
     (length (wv_selected w) \<le> 1 \<or> wv_bytes w \<le> MAX_RAW_RESPONSE_BYTES_PER_SLICE) \<and>
     (\<forall>k. op_txid k \<notin> set ts \<longrightarrow> bt_get (pd_facts (wv_pending w)) k = bt_get (pd_facts p) k))"

lemma parent_selectable_iff:
  "parent_selectable seen k state \<longleftrightarrow> (\<exists>attempts. state = Awaiting CurrentParent attempts \<and>
     attempts < MAX_FACT_ATTEMPTS_PER_SOURCE_PER_WINDOW \<and> op_txid k \<notin> set seen)"
  by (cases "(seen, k, state)" rule: parent_selectable.cases) auto

lemma record_parent_attempt_other:
  "op_txid k \<noteq> t \<Longrightarrow> bt_get (pd_facts (record_parent_attempt t p)) k = bt_get (pd_facts p) k"
  by (cases "bt_get (pd_facts p) k")
    (auto simp: record_parent_attempt_def bt_get_map_values split: fact_state.splits fact_source.splits)

lemma parent_visit_ok:
  assumes "parent_wave_ok codec variants p w" "length (wv_selected w) < n \<or> wv_selected w = []"
    "n = max_parent_transactions_per_wave lim" "parent_visit codec variants lim key w = (r, w')"
  shows "parent_wave_ok codec variants p w' \<and> length (wv_selected w') \<le> max n 1 \<and>
    (\<not> r \<longrightarrow> length (wv_selected w') < n \<or> wv_selected w' = [])"
proof -
  obtain k v where v: "pick_fact (parent_selectable (wv_seen w)) key w = (k, v)" by fastforce
  note frame = pick_fact_frame [OF v]
  have facts: "pd_facts (wv_pending v) = pd_facts (wv_pending w)"
    using v by (auto simp: pick_fact_def Let_def split: option.splits prod.splits)
  have okv: "parent_wave_ok codec variants p v"
    using assms(1) frame facts by (simp add: parent_wave_ok_def)
  have same: ?thesis if "w' = v" using that okv assms(2) frame by auto
  show ?thesis
  proof (cases k)
    case None
    then show ?thesis using assms(4) v same by (simp add: parent_visit_def)
  next
    case (Some x)
    show ?thesis
    proof (cases "bt_get variants (op_txid x)")
      case None
      then show ?thesis using assms(4) v same Some by (simp add: parent_visit_def)
    next
      case (Some parent)
      let ?t = "op_txid x"
      let ?e = "\<lparr> ev_txid = show_txid codec ?t, ev_wtxid = cv_wtxid parent, ev_vsize = cv_vsize parent \<rparr>"
      let ?bytes = "sat_add (wv_bytes v) (estimated_raw_response_bytes ?e)"
      show ?thesis
      proof (cases "wv_selected v \<noteq> [] \<and> MAX_RAW_RESPONSE_BYTES_PER_SLICE < ?bytes")
        case True
        then show ?thesis using assms(4) v same Some \<open>k = Some x\<close> by (simp add: parent_visit_def Let_def)
      next
        case False
        have w': "wv_selected w' = wv_selected v @ [?e]" "wv_seen w' = bs_insert ?t (wv_seen v)"
          "wv_bytes w' = ?bytes" "wv_pending w' = record_parent_attempt ?t (wv_pending v)"
          "r \<longleftrightarrow> max_parent_transactions_per_wave lim \<le> length (wv_selected w')"
          using assms(4) v False Some \<open>k = Some x\<close> by (auto simp: parent_visit_def Let_def)
        obtain ts where ts: "distinct ts" "set (wv_seen v) = set ts"
          "list_all2 (parent_request codec variants p) ts (wv_selected v)"
          "wv_bytes v = response_bytes_of (wv_selected v)"
          "\<forall>k. op_txid k \<notin> set ts \<longrightarrow> bt_get (pd_facts (wv_pending v)) k = bt_get (pd_facts p) k"
          using okv by (auto simp: parent_wave_ok_def)
        obtain attempts where sel: "bt_get (pd_facts (wv_pending v)) x = Some (Awaiting CurrentParent attempts)"
          "attempts < MAX_FACT_ATTEMPTS_PER_SOURCE_PER_WINDOW" "?t \<notin> set ts"
          using pick_fact_Some(1) [OF v [unfolded \<open>k = Some x\<close>]] ts(2) frame
          by (auto simp: parent_selectable_iff facts)
        have req: "parent_request codec variants p ?t ?e"
          using Some sel ts(5) unfolding parent_request_def by metis
        have "parent_wave_ok codec variants p w'"
          unfolding parent_wave_ok_def
        proof (intro exI [of _ "ts @ [?t]"] conjI)
          show "distinct (ts @ [?t])" "set (wv_seen w') = set (ts @ [?t])"
            using ts sel by (auto simp: w')
          show "list_all2 (parent_request codec variants p) (ts @ [?t]) (wv_selected w')"
            using ts(3) req by (simp add: w' list_all2_appendI)
          show "wv_bytes w' = response_bytes_of (wv_selected w')"
            by (simp add: w' ts(4) response_bytes_of_def)
          show "length (wv_selected w') \<le> 1 \<or> wv_bytes w' \<le> MAX_RAW_RESPONSE_BYTES_PER_SLICE"
            using False by (auto simp: w')
          show "\<forall>k. op_txid k \<notin> set (ts @ [?t]) \<longrightarrow>
              bt_get (pd_facts (wv_pending w')) k = bt_get (pd_facts p) k"
            using ts(5) by (simp add: w' record_parent_attempt_other)
        qed
        moreover have "length (wv_selected w') \<le> max n 1"
          using assms(2) frame by (auto simp: w')
        ultimately show ?thesis using w'(5) assms(3) by auto
      qed
    qed
  qed
qed

lemma parent_round_ok:
  assumes "parent_wave_ok codec variants p w" "length (wv_selected w) < n \<or> wv_selected w = []"
    "n = max_parent_transactions_per_wave lim"
    "wave_round (parent_visit codec variants lim) m w = (r, w')"
  shows "parent_wave_ok codec variants p w' \<and> length (wv_selected w') \<le> max n 1 \<and>
    (\<not> r \<longrightarrow> length (wv_selected w') < n \<or> wv_selected w' = [])"
  using assms
proof (induction m arbitrary: w)
  case 0
  then show ?case by auto
next
  case (Suc m)
  show ?case
  proof (cases "pd_fair_order (wv_pending w)")
    case Nil
    with Suc.prems show ?thesis by auto
  next
    case (Cons key rest)
    let ?w = "w\<lparr>wv_pending := (wv_pending w)\<lparr>pd_fair_order := rest @ [key]\<rparr>\<rparr>"
    obtain b v where v: "parent_visit codec variants lim key ?w = (b, v)" by fastforce
    have ok: "parent_wave_ok codec variants p ?w" using Suc.prems(1) by (simp add: parent_wave_ok_def)
    note step = parent_visit_ok [OF ok _ Suc.prems(3) v]
    show ?thesis
    proof (cases b)
      case True
      with Suc.prems Cons v step show ?thesis by auto
    next
      case False
      with Suc.prems(4) Cons v have "wave_round (parent_visit codec variants lim) m v = (r, w')" by simp
      then show ?thesis using Suc.IH [of v] step Suc.prems(2,3) False by auto
    qed
  qed
qed

lemma parent_loop_ok:
  assumes "parent_wave_ok codec variants p w"
    "length (wv_selected w) < max_parent_transactions_per_wave lim \<or> wv_selected w = []"
  shows "parent_wave_ok codec variants p (parent_wave_loop codec variants lim w) \<and>
    length (wv_selected (parent_wave_loop codec variants lim w)) \<le> max (max_parent_transactions_per_wave lim) 1"
  using assms
proof (induction codec variants lim w rule: parent_wave_loop.induct)
  case (1 codec variants lim w)
  let ?w = "w\<lparr>wv_added := False\<rparr>" and ?m = "length (pd_fair_order (wv_pending w))"
  obtain r v where v: "wave_round (parent_visit codec variants lim) ?m ?w = (r, v)" by fastforce
  have ok: "parent_wave_ok codec variants p ?w" using 1(2) by (simp add: parent_wave_ok_def)
  note step = parent_round_ok [OF ok _ refl v]
  show ?case
  proof (cases "r \<or> \<not> wv_added v")
    case True
    then have "parent_wave_loop codec variants lim w = v"
      by (subst parent_wave_loop.simps) (auto simp: v split: bool.splits)
    then show ?thesis using step 1(3) by simp
  next
    case False
    then have "parent_wave_loop codec variants lim w = parent_wave_loop codec variants lim v"
      by (subst parent_wave_loop.simps) (simp add: v)
    then show ?thesis using 1(1) [OF v [symmetric]] False step 1(3) by simp
  qed
qed

text \<open>
  A parent wave asks for each parent transaction once, only for current variants some fact waits
  for with attempts left, and at most as many as the limits allow; unless it is a single request, the
  estimated responses fit the slice's response budget.
\<close>

theorem parent_wave_is_bounded:
  "let es = fst (next_parent_wave codec variants lim p)
   in (\<exists>ts. distinct ts \<and> list_all2 (parent_request codec variants p) ts es) \<and>
      length es \<le> max (max_parent_transactions_per_wave lim) 1 \<and>
      (length es \<le> 1 \<or> response_bytes_of es \<le> MAX_RAW_RESPONSE_BYTES_PER_SLICE)"
proof -
  have start: "parent_wave_ok codec variants p (wave_start p)"
    by (simp add: parent_wave_ok_def wave_start_def response_bytes_of_def)
  have "wv_selected (wave_start p :: (expected_variant, txid) wave) = []" by (simp add: wave_start_def)
  note loop = parent_loop_ok [OF start disjI2 [OF this], of lim]
  show ?thesis
  proof (cases "has_pending_script_capacity lim p")
    case True
    then show ?thesis
      using loop by (auto simp: next_parent_wave_def parent_wave_ok_def Let_def)
  next
    case False
    then show ?thesis by (simp add: next_parent_wave_def)
  qed
qed

section \<open>Accounting and deferral\<close>

text \<open>
  C28: In every reachable slice the script byte count is exactly what the stored scripts weigh and
  never exceeds its limit, there is a fact for each outpoint an active candidate needs and no other,
  and the fair order is a permutation of the active candidates.
\<close>

theorem pending_slice_is_accounted:
  assumes "pending_runs lib codec variants lim txs p" "admissible lim txs"
  shows "pd_script_bytes p = bt_weight state_bytes (pd_facts p) \<and>
    pd_script_bytes p \<le> max_pending_script_bytes lim \<and>
    set (bt_keys (pd_facts p)) = set (concat (map (\<lambda>(key, c). pc_required c) (pd_active p))) \<and>
    mset (pd_fair_order p) = mset (bt_keys (pd_active p)) \<and> distinct (pd_fair_order p) \<and>
    admitted p \<subseteq> set txs"
proof -
  have inv: "facts_inv (max_pending_script_bytes lim) p" "slice_inv lib p" and sub: "admitted p \<subseteq> set txs"
    using pending_runs_inv [OF assms] by (auto simp: pending_inv_def)
  have "distinct (bt_keys (pd_active p))" "mset (pd_fair_order p) = mset (bt_keys (pd_active p))"
    using inv(2) by (simp_all add: slice_inv_def)
  then have "distinct (pd_fair_order p)" by (metis mset_eq_imp_distinct_iff)
  with inv sub show ?thesis
    by (simp add: facts_inv_def slice_inv_def needed_def case_prod_unfold)
qed

text \<open>
  C24: A fact that exhausted its attempts is final for the slice: in every later slice it is still
  deferred, it is neither waiting nor resolved, so nothing requests it again, and no candidate that
  needs it survives the next deferral of exhausted candidates.
\<close>

theorem deferred_facts_are_final:
  assumes "pending_runs lib codec variants lim txs p" "admissible lim txs"
    "pending_reaches lib codec variants lim p p'" "k \<in> set (pd_deferred p)"
  shows "k \<in> set (pd_deferred p') \<and>
    (bt_get (pd_facts p') k = None \<or> bt_get (pd_facts p') k = Some OperationallyDeferred) \<and>
    k \<notin> fst ` set (waiting_facts p') \<and>
    (\<forall>(key, c) \<in> set (pd_active (snd (defer_exhausted_candidates p'))). k \<notin> set (pc_required c))"
proof -
  have inv: "pending_inv lib lim p'" and k: "k \<in> set (pd_deferred p')"
    using pending_reaches_inv [OF assms(3) pending_runs_inv(1) [OF assms(1,2)]] assms(4)
    by (auto simp: advances_def)
  then have states: "bt_get (pd_facts p') k = None \<or> bt_get (pd_facts p') k = Some OperationallyDeferred"
    by (cases "bt_get (pd_facts p') k") (auto simp: pending_inv_def facts_inv_def)
  have ok: "bt_ok (pd_facts p')" using inv by (simp add: pending_inv_def facts_inv_def)
  have "k \<notin> fst ` set (waiting_facts p')"
  proof
    assume "k \<in> fst ` set (waiting_facts p')"
    then obtain state where "(k, state) \<in> set (pd_facts p')" "state \<noteq> OperationallyDeferred"
      by (auto simp: waiting_facts_def List.map_filter_def split: fact_state.splits)
    moreover from this(1) ok have "bt_get (pd_facts p') k = Some state" by (simp add: bt_get_iff)
    ultimately show False using states by simp
  qed
  moreover have "k \<notin> set (pc_required c)"
    if c: "(key, c) \<in> set (pd_active (snd (defer_exhausted_candidates p')))" for key c
  proof
    assume need: "k \<in> set (pc_required c)"
    have active: "(key, c) \<in> set (pd_active p')"
      and live: "\<not> list_ex (deferred_fact p') (pc_required c)"
    proof -
      let ?doomed = "map fst (filter (\<lambda>(key, c). list_ex (deferred_fact p') (pc_required c)) (pd_active p'))"
      have "pd_active (snd (defer_exhausted_candidates p')) =
          filter (\<lambda>e. fst e \<notin> set ?doomed) (pd_active p')"
        by (auto simp: defer_exhausted_candidates_def Let_def fold_bt_remove prune_after_removal_def
            filter_empty_conv intro!: filter_True [symmetric])
      with c have e: "(key, c) \<in> set (pd_active p')" "key \<notin> set ?doomed" by auto
      then show "(key, c) \<in> set (pd_active p')" "\<not> list_ex (deferred_fact p') (pc_required c)"
        by (force simp: image_iff)+
    qed
    have "k \<in> set (bt_keys (pd_facts p'))"
      using inv active need by (force simp: pending_inv_def slice_inv_def needed_def)
    then have "bt_contains (pd_facts p') k" by (simp only: bt_keys_contains)
    then have "deferred_fact p' k"
      using states by (auto simp: deferred_fact_def bt_contains_def)
    with need live show False by (auto simp: list_ex_iff)
  qed
  ultimately show ?thesis using k states by blast
qed

end
