(* ===== verification/Pending_Examples.thy ===== *)
theory Pending_Examples
  imports Pending_Waves
begin

text \<open>
  A concrete slice: the tapscript spend of the policy examples waits for one confirmed output, whose
  script arrives in the first wave, after which it is classified; and a slice whose output stays
  unavailable until its attempts are used up.
\<close>

section \<open>A slice that completes\<close>

definition example_codec :: txid_codec where
  "example_codec = \<lparr>
     parse_txid = (\<lambda>s. if length s = 32 then Some (map (\<lambda>c. of_nat (of_char c)) s) else None),
     show_txid = map (\<lambda>b. char_of (unat b)) \<rparr>"

definition example_variant :: expected_variant where
  "example_variant = \<lparr> ev_txid = ''t'', ev_wtxid = ''w'', ev_vsize = 100 \<rparr>"

definition example_limits :: resolver_limits where
  "example_limits = \<lparr> max_parent_transactions_per_wave = 4, max_confirmed_prevouts_per_wave = 4,
     max_unique_prevouts_per_window = 16, max_pending_script_bytes = 1000000 \<rparr>"

text \<open>The spend of the policy example, paying to an anyone-can-spend output.\<close>

definition example_spend :: transaction where
  "example_spend = \<lparr> tx_version = 2, tx_inputs = [example_tapscript_input],
     tx_outputs = [\<lparr> tx_value = 1000, script_pubkey = [0x51] \<rparr>] \<rparr>"

abbreviation example_txs :: "(expected_variant \<times> transaction) list" where
  "example_txs \<equiv> [(example_variant, example_spend)]"

definition example_outpoint :: out_point where
  "example_outpoint = OutPoint (replicate 32 3) 0"

text \<open>The slice with its one fact in some state, and the candidate's cursor and the bytes stored.\<close>

definition example_with :: "fact_state \<Rightarrow> out_point list \<Rightarrow> nat \<Rightarrow> pending_slice" where
  "example_with state deferred bytes = \<lparr> pd_queued = [],
     pd_active = [(''w'', \<lparr> pc_expected = example_variant, pc_transaction = example_spend,
       pc_required = [example_outpoint], fact_cursor = 0 \<rparr>)],
     pd_fair_order = [''w''], pd_facts = [(example_outpoint, state)], pd_deferred = deferred,
     pd_raw_outputs = [], pd_script_bytes = bytes \<rparr>"

abbreviation "example_slice \<equiv> example_with (Awaiting ConfirmedOutput 0) [] 0"
abbreviation "example_requested \<equiv> example_with (Awaiting ConfirmedOutput 1) [] 0"
abbreviation "example_retried \<equiv> example_with (Awaiting ConfirmedOutput 2) [] 0"
abbreviation "example_exhausted \<equiv> example_with OperationallyDeferred [example_outpoint] 0"
abbreviation "example_resolved \<equiv>
  example_with (Ready example_taproot_spk) [] (estimated_script_bytes example_taproot_spk)"

lemmas example_defs = example_with_def example_limits_def example_variant_def

lemma example_input: "tx_inputs example_spend = [example_tapscript_input]"
  "previous_output example_tapscript_input = example_outpoint"
  by (simp_all add: example_spend_def example_tapscript_input_def example_outpoint_def)

lemma example_not_null: "\<not> is_null reference_bitcoin example_outpoint"
  by (simp add: reference_bitcoin_def example_outpoint_def)

lemma example_unique: "unique_prevouts reference_bitcoin example_spend = [example_outpoint]"
  by (simp add: unique_prevouts_def example_input example_not_null bs_of_list_def bs_insert_def
      insort_insert_key_def)

lemma example_new: "pending_new reference_bitcoin example_codec example_txs [] example_limits = example_slice"
  by (simp add: pending_new_def activate_waiting_def window_full_def activate_def Let_def example_unique
      bt_or_insert_def bt_contains_def bt_insert_def initial_fact_def recount_script_bytes_def
      example_codec_def example_defs)

lemma sat_add_small: "sat_add 0 n = min n usize_max"
  by (simp add: sat_add_def)

lemma example_maximum:
  "confirmed_wave_maximum example_limits (example_with (Awaiting ConfirmedOutput attempts) d 0) = 4"
  by (simp add: confirmed_wave_maximum_def example_defs resolver_constants)

text \<open>The wave around the one fact: requested in the first round, seen in the second.\<close>

definition example_wave_state :: "u8 \<Rightarrow> out_point list \<Rightarrow> bool \<Rightarrow> (out_point, out_point) wave" where
  "example_wave_state attempts ks added =
     \<lparr> wv_pending = example_with (Awaiting ConfirmedOutput attempts) [] 0,
       wv_selected = ks, wv_seen = ks, wv_bytes = 0, wv_added = added \<rparr>"

lemma example_visits:
  "attempts < 2 \<Longrightarrow> confirmed_visit 4 ''w'' (example_wave_state attempts [] False) =
     (False, example_wave_state (attempts + 1) [example_outpoint] True)"
  "confirmed_visit 4 ''w'' (example_wave_state attempts [example_outpoint] False) =
     (False, example_wave_state attempts [example_outpoint] False)"
  by (simp_all add: confirmed_visit_def pick_fact_def next_candidate_fact_def Let_def
      example_wave_state_def example_defs sat_add_small MAX_FACT_ATTEMPTS_PER_SOURCE_PER_WINDOW_def
      record_fact_attempt_def bt_modify_def bs_insert_def insort_insert_key_def sat_inc8_def)
    (auto simp: word_less_nat_alt)

lemma example_round:
  "wave_round (confirmed_visit 4) (length (pd_fair_order (wv_pending (example_wave_state a ks b))))
     (example_wave_state a ks b\<lparr>wv_added := False\<rparr>) =
   (case confirmed_visit 4 ''w'' (example_wave_state a ks False) of (r, w) \<Rightarrow> (r, w))"
  by (auto simp: example_wave_state_def example_with_def split: prod.splits bool.splits)

lemma example_wave:
  assumes "attempts < 2"
  shows "next_confirmed_wave example_limits (example_with (Awaiting ConfirmedOutput attempts) [] 0) =
    ([example_outpoint], example_with (Awaiting ConfirmedOutput (attempts + 1)) [] 0)"
proof -
  have second: "confirmed_wave_loop 4 (example_wave_state (attempts + 1) [example_outpoint] True) =
      example_wave_state (attempts + 1) [example_outpoint] False"
    by (subst confirmed_wave_loop.simps, simp only: example_round)
      (simp add: example_visits, simp add: example_wave_state_def)
  have first: "confirmed_wave_loop 4 (example_wave_state attempts [] False) =
      confirmed_wave_loop 4 (example_wave_state (attempts + 1) [example_outpoint] True)"
    by (subst confirmed_wave_loop.simps, simp only: example_round)
      (simp add: example_visits assms, simp add: example_wave_state_def)
  have "wave_start (example_with (Awaiting ConfirmedOutput attempts) [] 0) = example_wave_state attempts [] False"
    by (simp add: wave_start_def example_wave_state_def)
  then show ?thesis
    by (simp add: next_confirmed_wave_def example_maximum first second Let_def)
      (simp add: example_wave_state_def)
qed

lemma example_answers:
  "apply_confirmed_value example_outpoint (Found example_taproot_spk) example_limits example_requested =
     ((Some example_taproot_spk, 1, 0, 0), example_resolved)"
  "apply_confirmed_value example_outpoint RetryableFailure example_limits example_requested =
     ((None, 0, 0, 0), example_requested)"
  "apply_confirmed_value example_outpoint RetryableFailure example_limits example_retried =
     ((None, 0, 0, 0), example_exhausted)"
  by (simp_all add: store_script_def admit_script_def checked_add_def estimated_script_bytes_def sat_add_def
      example_taproot_spk_def example_defs resolver_constants bt_modify_def defer_fact_def bs_insert_def
      insort_insert_key_def defer_if_attempts_exhausted_def word_le_nat_alt)

lemma example_admissible: "admissible example_limits example_txs"
  by (simp add: admissible_def example_limits_def)

abbreviation "example_runs \<equiv>
  pending_runs reference_bitcoin example_codec [] example_limits example_txs"

lemma example_slice_run: "example_runs example_slice"
  unfolding example_new by (rule pending_reaches.here)

lemma example_requested_run: "example_runs example_requested"
  using pending_reaches.step [OF example_slice_run pending_step.confirmed_request [OF example_wave]] by simp

lemma example_resolved_run: "example_runs example_resolved"
  by (rule pending_reaches.step [OF example_requested_run
        pending_step.confirmed_answer [OF example_answers(1)]])

lemma example_exhausted_run: "example_runs example_exhausted"
proof -
  have "example_runs example_retried"
    using pending_reaches.step [OF example_requested_run pending_step.confirmed_request [OF example_wave]]
    by simp
  then show ?thesis
    by (rule pending_reaches.step [OF _ pending_step.confirmed_answer [OF example_answers(3)]])
qed

lemma example_ready: "ready_keys example_resolved = [''w'']"
  by (simp add: ready_keys_def terminal_fact_def example_with_def)

lemma example_structure: "\<not> isl (structure_of reference_bitcoin example_spend)"
proof -
  have w: "sat_sub (total_size reference_bitcoin example_spend) (base_size reference_bitcoin example_spend) = 38"
    by (simp add: reference_bitcoin_def example_spend_def example_tapscript_input_def sat_sub_def)
  have f: "fold (add_output reference_bitcoin) (tx_outputs example_spend) (0, 0) = (0, 1000)"
    by (simp add: example_spend_def add_output_def sat_add64_def) (simp add: reference_bitcoin_def)
  have "\<exists>st. structure_of reference_bitcoin example_spend = Inr st"
    unfolding structure_of_def Let_def f w case_prod_conv structure_new_Inr_iff
    by (simp add: example_spend_def u64_of_usize_def json_safe_def)
  then show ?thesis by auto
qed

lemma example_not_coinbase: "\<not> is_coinbase reference_bitcoin example_spend"
  by (simp add: reference_bitcoin_def example_spend_def example_tapscript_input_def)

lemma example_well_formed: "list_all (\<lambda>(e, tx). well_formed reference_bitcoin tx) example_txs"
  using example_structure example_not_null by (simp add: well_formed_def example_input)

theorem ready_candidates_are_classified_witness:
  "\<exists>rs p'. classify_ready reference_bitcoin example_resolved = Some (rs, p') \<and>
     map (\<lambda>r. tc_wtxid (cc_classification r)) rs = [''w'']"
  using ready_candidates_are_classified [OF example_resolved_run example_admissible example_well_formed]
  unfolding example_ready by (elim exE conjE) (intro exI conjI)

theorem pending_slice_is_accounted_witness:
  "pd_script_bytes example_resolved = bt_weight state_bytes (pd_facts example_resolved) \<and>
   pd_script_bytes example_resolved = estimated_script_bytes example_taproot_spk \<and>
   pd_fair_order example_resolved = [''w'']"
  using pending_slice_is_accounted [OF example_resolved_run example_admissible]
  by (simp add: example_with_def)

theorem confirmed_wave_takes_all_it_can_witness:
  "next_confirmed_wave example_limits example_slice = ([example_outpoint], example_requested) \<and>
   bt_get (pd_facts example_slice) example_outpoint = Some (Awaiting ConfirmedOutput 0) \<and>
   bt_get (pd_facts example_requested) example_outpoint = Some (Awaiting ConfirmedOutput 1)"
proof -
  have sizes: "list_all (\<lambda>(e, tx). 2 * length (tx_inputs tx) \<le> usize_max) example_txs"
    by (simp add: example_spend_def)
  have wave: "next_confirmed_wave example_limits example_slice = ([example_outpoint], example_requested)"
    using example_wave [of 0] by simp
  have get: "bt_get (pd_facts example_slice) example_outpoint = Some (Awaiting ConfirmedOutput 0)"
    by (simp add: example_with_def)
  have "\<forall>k. bt_get (pd_facts example_requested) k = map_option
      (if k \<in> set [example_outpoint] then one_more_attempt else id) (bt_get (pd_facts example_slice) k)"
    using confirmed_wave_takes_all_it_can [OF example_slice_run example_admissible sizes wave] by blast
  from spec [OF this, of example_outpoint] show ?thesis
    using get wave by (simp add: sat_inc8_def)
qed

theorem deferred_facts_are_final_witness:
  "pd_deferred example_exhausted = [example_outpoint] \<and>
   bt_get (pd_facts example_exhausted) example_outpoint = Some OperationallyDeferred \<and>
   example_outpoint \<notin> fst ` set (waiting_facts example_exhausted)"
proof -
  have d: "example_outpoint \<in> set (pd_deferred example_exhausted)" by (simp add: example_with_def)
  have "example_outpoint \<notin> fst ` set (waiting_facts example_exhausted)"
    using deferred_facts_are_final [OF example_exhausted_run example_admissible pending_reaches.here d]
    by blast
  then show ?thesis by (simp add: example_with_def)
qed

section \<open>Why only coinbases may have null inputs\<close>

text \<open>
  A transaction with a null input among several is not a coinbase; its null input has no fact, so
  classifying it reaches the \<^verbatim>\<open>unreachable!\<close>. Such a transaction is invalid by consensus, and only a
  faulty node could serve it; the well-formedness in the property above excludes it.
\<close>

definition null_outpoint :: out_point where
  "null_outpoint = OutPoint (replicate 32 0) 0xffffffff"

definition null_input_spend :: transaction where
  "null_input_spend = example_spend\<lparr>tx_inputs :=
     [example_tapscript_input, example_tapscript_input\<lparr>previous_output := null_outpoint\<rparr>]\<rparr>"

text \<open>The slice of this transaction alone, its one real output found.\<close>

definition null_input_slice :: pending_slice where
  "null_input_slice = \<lparr> pd_queued = [],
     pd_active = [(''w'', \<lparr> pc_expected = example_variant, pc_transaction = null_input_spend,
       pc_required = [example_outpoint], fact_cursor = 0 \<rparr>)],
     pd_fair_order = [''w''], pd_facts = [(example_outpoint, Ready example_taproot_spk)], pd_deferred = [],
     pd_raw_outputs = [], pd_script_bytes = estimated_script_bytes example_taproot_spk \<rparr>"

lemma null_input_unique: "unique_prevouts reference_bitcoin null_input_spend = [example_outpoint]"
proof -
  have "is_null reference_bitcoin null_outpoint" by (simp add: reference_bitcoin_def null_outpoint_def)
  then show ?thesis
    by (simp add: unique_prevouts_def null_input_spend_def example_input example_not_null bs_of_list_def
        bs_insert_def insort_insert_key_def)
qed

theorem null_input_among_several_panics:
  "snd (apply_confirmed_value example_outpoint (Found example_taproot_spk) example_limits
     (pending_new reference_bitcoin example_codec [(example_variant, null_input_spend)] [] example_limits)) =
     null_input_slice \<and>
   \<not> is_coinbase reference_bitcoin null_input_spend \<and>
   ready_keys null_input_slice = [''w''] \<and> classify_ready reference_bitcoin null_input_slice = None"
proof (intro conjI)
  have new: "pending_new reference_bitcoin example_codec [(example_variant, null_input_spend)] [] example_limits =
      null_input_slice\<lparr>pd_facts := [(example_outpoint, Awaiting ConfirmedOutput 0)], pd_script_bytes := 0\<rparr>"
    by (simp add: pending_new_def activate_waiting_def window_full_def activate_def Let_def null_input_unique
        bt_or_insert_def bt_contains_def bt_insert_def initial_fact_def recount_script_bytes_def
        example_codec_def example_defs null_input_slice_def)
  show "snd (apply_confirmed_value example_outpoint (Found example_taproot_spk) example_limits
     (pending_new reference_bitcoin example_codec [(example_variant, null_input_spend)] [] example_limits)) =
     null_input_slice"
    unfolding new
    by (simp add: store_script_def admit_script_def checked_add_def estimated_script_bytes_def sat_add_def
        example_taproot_spk_def example_limits_def resolver_constants bt_modify_def null_input_slice_def)
  show coinbase: "\<not> is_coinbase reference_bitcoin null_input_spend"
    by (simp add: reference_bitcoin_def null_input_spend_def)
  show ready: "ready_keys null_input_slice = [''w'']"
    by (simp add: ready_keys_def terminal_fact_def null_input_slice_def)
  have distinct: "null_outpoint \<noteq> example_outpoint"
    by (simp add: null_outpoint_def example_outpoint_def)
  then have "those (map (input_fact null_input_slice) (tx_inputs null_input_spend)) = None"
    by (simp add: null_input_spend_def input_fact_def null_input_slice_def example_input)
  then have "classify_candidate reference_bitcoin null_input_slice \<lparr> pc_expected = example_variant,
      pc_transaction = null_input_spend, pc_required = [example_outpoint], fact_cursor = 0 \<rparr> = None"
    using coinbase by (simp add: classify_candidate_def candidate_prevouts_def)
  then show "classify_ready reference_bitcoin null_input_slice = None"
    unfolding classify_ready_def ready by (simp add: null_input_slice_def)
qed

end
