(* ===== verification/Publisher.thy ===== *)
theory Publisher
  imports Model_Classification
begin

text \<open>
  The publisher of the current state of one source, \<^verbatim>\<open>src/runtime/publisher.rs\<close>, with the response
  types of \<^verbatim>\<open>src/model.rs\<close> it fills in. Each publishing operation of the code reads the state under
  a read lock, prepares and encodes a response with no lock held, and then commits under the write
  lock if nothing it relied on has changed, or goes round its loop again. An operation in flight is
  therefore a \<open>task\<close> whose constructor says at which lock acquisition it stands and what it has
  captured; \<open>task_step\<close> runs it over the next critical section. The relation \<open>publisher_step\<close>
  interleaves any number of tasks. The JSON encoder is a parameter, \<open>None\<close> being its error; a
  \<^verbatim>\<open>Duration\<close> is its number of nanoseconds; the test hooks and log lines are left out.
\<close>

section \<open>Responses\<close>

datatype source_availability = Waiting | SourceReady | Stale | SourceError

datatype classification_state = Classifying | ClassificationComplete | ClassificationPaused

record classification_progress =
  cp_state :: classification_state
  cp_revision :: u64
  classified_count :: u64
  cp_unclassified_count :: u64

definition progress_from_snapshot :: "classification_state \<Rightarrow> mempool_snapshot \<Rightarrow> classification_progress" where
  "progress_from_snapshot st snap =
     (let summary = ms_bip110_summary snap
      in \<lparr> cp_state = st, cp_revision = classification_revision snap,
           classified_count =
             compatible_count summary + violating_count summary + indeterminate_count summary,
           cp_unclassified_count = bs_unclassified_count summary \<rparr>)"

record source_summary =
  ss_source_id :: string
  ss_source_label :: string
  availability :: source_availability
  poll_interval_seconds :: u64
  ss_last_poll :: "u64 option"
  snapshot_observed_at_ms :: "u64 option"
  ss_chain_tip :: "chain_tip option"
  ss_transaction_count :: "u64 option"
  ss_total_vsize :: "u64 option"
  ss_classification :: "classification_progress option"
  ss_last_error :: "string option"

record snapshot_response =
  sr_source :: source_summary
  sr_snapshot :: "mempool_snapshot option"

record transaction_detail_response =
  td_source_id :: string
  td_observed_at_ms :: u64
  td_revision :: u64
  td_txid :: string
  td_wtxid :: string
  td_classifications :: "classification_result list"
  td_assessment :: bip110_assessment
  td_rules :: "bip110_rule_detail list"

datatype transaction_lookup =
    LookupReady transaction_detail_response | WaitingForSnapshot | NotPresent | Unclassified

text \<open>The errors of \<^verbatim>\<open>RuntimeError\<close> the publisher and the runtime raise themselves.\<close>

datatype runtime_error =
    Model model_error
  | ZeroPollInterval
  | NoSources
  | TooManySources nat nat
  | DuplicateSource string
  | PollIntervalMismatch string u64 u64
  | SnapshotSourceMismatch string string
  | ClassificationGenerationOverflow
  | ClassificationReportGenerationMismatch u64 u64
  | ClassificationRevisionMismatch u64 u64
  | ClassificationRevisionSequence u64 u64
  | ClassificationsExceedMembership nat nat
  | ClassificationStateWithoutSnapshot
  | SnapshotResponseEncoding

section \<open>State\<close>

record publisher =
  pb_source_id :: string
  pb_source_label :: string
  pb_poll_interval :: nat

record cached_response =
  cr_body :: bytes
  cr_etag :: "string option"

record current_state =
  st_last_poll :: "u64 option"
  st_membership :: "mempool_snapshot option"
  st_latest :: "mempool_snapshot option"
  st_classifications :: transaction_classifications
  st_last_error :: "string option"
  st_cached :: "cached_response option"
  st_generation :: "u64 option"
  st_revision :: u64
  st_lifecycle :: "classification_state option"
  st_status_revision :: u64
  st_response_revision :: u64

definition state_default :: current_state where
  "state_default = \<lparr> st_last_poll = None, st_membership = None, st_latest = None,
     st_classifications = [], st_last_error = None, st_cached = None, st_generation = None,
     st_revision = 0, st_lifecycle = None, st_status_revision = 0, st_response_revision = 0 \<rparr>"

definition as_secs :: "nat \<Rightarrow> u64" where
  "as_secs d = of_nat (d div 1000000000)"

definition summary_from_parts ::
    "publisher \<Rightarrow> u64 option \<Rightarrow> mempool_snapshot option \<Rightarrow> classification_state option \<Rightarrow>
     string option \<Rightarrow> source_summary" where
  "summary_from_parts pb last_poll latest lifecycle last_error =
     (let avail = (case (latest, last_error) of
          (None, None) \<Rightarrow> Waiting | (None, Some _) \<Rightarrow> SourceError
        | (Some _, None) \<Rightarrow> SourceReady | (Some _, Some _) \<Rightarrow> Stale);
          progress = (case (latest, lifecycle) of
          (Some snap, Some st) \<Rightarrow> Some (progress_from_snapshot st snap) | _ \<Rightarrow> None)
      in \<lparr> ss_source_id = pb_source_id pb, ss_source_label = pb_source_label pb,
           availability = avail, poll_interval_seconds = as_secs (pb_poll_interval pb),
           ss_last_poll = last_poll, snapshot_observed_at_ms = map_option observed_at_ms latest,
           ss_chain_tip = map_option ms_chain_tip latest,
           ss_transaction_count = map_option transaction_count latest,
           ss_total_vsize = map_option total_vsize latest, ss_classification = progress,
           ss_last_error = last_error \<rparr>)"

definition summary_from_state :: "publisher \<Rightarrow> current_state \<Rightarrow> source_summary" where
  "summary_from_state pb st = summary_from_parts pb (st_last_poll st) (st_latest st)
     (st_lifecycle st) (st_last_error st)"

definition snapshot_response_of :: "publisher \<Rightarrow> current_state \<Rightarrow> snapshot_response" where
  "snapshot_response_of pb st = \<lparr> sr_source = summary_from_state pb st, sr_snapshot = st_latest st \<rparr>"

text \<open>\<^verbatim>\<open>Display\<close> of an unsigned integer.\<close>

fun decimal :: "nat \<Rightarrow> string" where
  "decimal n = (if n < 10 then [char_of (48 + n)] else decimal (n div 10) @ [char_of (48 + n mod 10)])"

declare decimal.simps [simp del]

definition etag_of :: "publisher \<Rightarrow> u64 \<Rightarrow> mempool_snapshot \<Rightarrow> string" where
  "etag_of pb revision snap =
     [CHR ''W'', CHR ''/'', CHR 0x22] @ pb_source_id pb @ ''-'' @ decimal (unat (observed_at_ms snap)) @
     ''-'' @ decimal (unat revision) @ [CHR 0x22]"

definition replace_cached_response :: "publisher \<Rightarrow> bytes \<Rightarrow> current_state \<Rightarrow> current_state" where
  "replace_cached_response pb body st =
     (let revision = st_response_revision st + 1
      in st\<lparr>st_response_revision := revision,
            st_cached := Some \<lparr> cr_body = body,
              cr_etag = map_option (etag_of pb revision) (st_latest st) \<rparr>\<rparr>)"

definition record_poll_started :: "u64 \<Rightarrow> current_state \<Rightarrow> current_state" where
  "record_poll_started started st =
     st\<lparr>st_last_poll := Some started, st_status_revision := st_status_revision st + 1\<rparr>"

text \<open>
  What a reader gets: the cached body with its tag, or an encoding of the state, untagged.
\<close>

definition snapshot_response_payload ::
    "(snapshot_response \<Rightarrow> bytes option) \<Rightarrow> publisher \<Rightarrow> current_state \<Rightarrow> runtime_error + cached_response" where
  "snapshot_response_payload encode pb st = (case st_cached st of
     Some response \<Rightarrow> Inr response
   | None \<Rightarrow> (case encode (snapshot_response_of pb st) of
       None \<Rightarrow> Inl SnapshotResponseEncoding
     | Some body \<Rightarrow> Inr \<lparr> cr_body = body, cr_etag = None \<rparr>))"

definition transaction_detail :: "publisher \<Rightarrow> current_state \<Rightarrow> string \<Rightarrow> transaction_lookup" where
  "transaction_detail pb st txid = (case st_latest st of
     None \<Rightarrow> WaitingForSnapshot
   | Some snap \<Rightarrow>
       (case binary_search me_txid txid (transactions snap) of
          None \<Rightarrow> NotPresent
        | Some _ \<Rightarrow>
            (case bt_get (st_classifications st) txid of
               None \<Rightarrow> Unclassified
             | Some c \<Rightarrow> LookupReady \<lparr> td_source_id = pb_source_id pb,
                 td_observed_at_ms = observed_at_ms snap, td_revision = st_revision st,
                 td_txid = tc_txid c, td_wtxid = tc_wtxid c, td_classifications = tc_results c,
                 td_assessment = tc_assessment c, td_rules = tc_rules c \<rparr>)))"

section \<open>Publishing operations in flight\<close>

record generation_start =
  gs_generation :: u64
  gs_revision :: u64
  gs_has_eligible_work :: bool
  gs_membership :: mempool_snapshot
  gs_classifications :: transaction_classifications

record revision_delta =
  dl_generation :: u64
  dl_revision :: u64
  dl_changed :: "transaction_classification list"

record prepared_observation =
  po_latest :: mempool_snapshot
  po_classifications :: transaction_classifications

definition prepare_observation ::
    "mempool_snapshot \<Rightarrow> u64 \<Rightarrow> transaction_classifications \<Rightarrow> runtime_error + prepared_observation" where
  "prepare_observation membership revision cls =
     (case materialize_retained membership revision cls of
        Inl e \<Rightarrow> Inl (Model e)
      | Inr ob \<Rightarrow> Inr \<lparr> po_latest = ob_snapshot ob, po_classifications = ob_classifications ob \<rparr>)"

text \<open>
  What an operation carries across its suspension points. The \<open>Commit\<close> constructors hold the
  captured parts of the state and the encoded body, and stand before the write lock.
\<close>

record update_capture =
  uc_generation :: u64
  uc_delta_revision :: u64
  uc_state :: classification_state
  uc_status_revision :: u64
  uc_revision :: u64
  uc_prepared :: prepared_observation
  uc_body :: bytes

datatype task =
    MembershipStart generation_start
  | MembershipLoop generation_start prepared_observation classification_state
  | MembershipCommit generation_start prepared_observation classification_state u64 "u64 option" bytes
  | UpdateStart u64 "revision_delta option" classification_state
  | UpdateCommit update_capture
  | LifecycleLoop u64 classification_state
  | LifecycleCommit u64 classification_state u64 u64 bytes
  | FailureLoop string
  | FailureCommit string u64 "u64 option" u64 bytes
  | Finished "runtime_error + bool"

text \<open>\<^verbatim>\<open>is_some_and(|current| current >= generation)\<close>.\<close>

definition superseded :: "current_state \<Rightarrow> u64 \<Rightarrow> bool" where
  "superseded st generation = (case st_generation st of None \<Rightarrow> False | Some current \<Rightarrow> generation \<le> current)"

definition membership_start :: "publisher \<Rightarrow> generation_start \<Rightarrow> current_state \<Rightarrow> task" where
  "membership_start pb gs st =
     (if source_id (gs_membership gs) \<noteq> pb_source_id pb
      then Finished (Inl (SnapshotSourceMismatch (pb_source_id pb) (source_id (gs_membership gs))))
      else if gs_revision gs \<noteq> 0
      then Finished (Inl (ClassificationRevisionMismatch (gs_revision gs) 0))
      else if length (transactions (gs_membership gs)) < length (gs_classifications gs)
      then Finished (Inl (ClassificationsExceedMembership (length (gs_classifications gs))
             (length (transactions (gs_membership gs)))))
      else if superseded st (gs_generation gs) then Finished (Inr False)
      else (case prepare_observation (gs_membership gs) (gs_revision gs) (gs_classifications gs) of
          Inl e \<Rightarrow> Finished (Inl e)
        | Inr prepared \<Rightarrow> MembershipLoop gs prepared
            (if gs_has_eligible_work gs then Classifying else ClassificationComplete)))"

definition membership_loop ::
    "(snapshot_response \<Rightarrow> bytes option) \<Rightarrow> publisher \<Rightarrow> generation_start \<Rightarrow> prepared_observation \<Rightarrow>
     classification_state \<Rightarrow> current_state \<Rightarrow> task" where
  "membership_loop encode pb gs prepared lifecycle st =
     (if superseded st (gs_generation gs) then Finished (Inr False)
      else (case encode \<lparr> sr_source = summary_from_parts pb (st_last_poll st)
              (Some (po_latest prepared)) (Some lifecycle) None,
              sr_snapshot = Some (po_latest prepared) \<rparr> of
          None \<Rightarrow> Finished (Inl SnapshotResponseEncoding)
        | Some body \<Rightarrow> MembershipCommit gs prepared lifecycle (st_status_revision st)
            (st_generation st) body))"

definition membership_commit ::
    "publisher \<Rightarrow> generation_start \<Rightarrow> prepared_observation \<Rightarrow> classification_state \<Rightarrow> u64 \<Rightarrow>
     u64 option \<Rightarrow> bytes \<Rightarrow> current_state \<Rightarrow> task \<times> current_state" where
  "membership_commit pb gs prepared lifecycle status generation body st =
     (if superseded st (gs_generation gs) then (Finished (Inr False), st)
      else if st_status_revision st \<noteq> status \<or> st_generation st \<noteq> generation
      then (MembershipLoop gs prepared lifecycle, st)
      else (Finished (Inr True), replace_cached_response pb body
        (st\<lparr>st_membership := Some (gs_membership gs), st_latest := Some (po_latest prepared),
            st_classifications := po_classifications prepared, st_last_error := None,
            st_generation := Some (gs_generation gs), st_revision := gs_revision gs,
            st_lifecycle := Some lifecycle, st_status_revision := st_status_revision st + 1\<rparr>)))"

text \<open>The encoding at the head of the update loop, from the captured or re-captured parts.\<close>

definition update_encode ::
    "(snapshot_response \<Rightarrow> bytes option) \<Rightarrow> publisher \<Rightarrow> u64 \<Rightarrow> u64 \<Rightarrow> classification_state \<Rightarrow> u64 \<Rightarrow>
     prepared_observation \<Rightarrow> current_state \<Rightarrow> task" where
  "update_encode encode pb generation delta_revision lifecycle revision prepared st =
     (case encode \<lparr> sr_source = summary_from_parts pb (st_last_poll st)
           (Some (po_latest prepared)) (Some lifecycle) (st_last_error st),
         sr_snapshot = Some (po_latest prepared) \<rparr> of
        None \<Rightarrow> Finished (Inl SnapshotResponseEncoding)
      | Some body \<Rightarrow> UpdateCommit \<lparr> uc_generation = generation, uc_delta_revision = delta_revision,
          uc_state = lifecycle, uc_status_revision = st_status_revision st, uc_revision = revision,
          uc_prepared = prepared, uc_body = body \<rparr>)"

definition update_start ::
    "(snapshot_response \<Rightarrow> bytes option) \<Rightarrow> publisher \<Rightarrow> u64 \<Rightarrow> revision_delta option \<Rightarrow>
     classification_state \<Rightarrow> current_state \<Rightarrow> task" where
  "update_start encode pb generation delta lifecycle st = (case delta of
     None \<Rightarrow> LifecycleLoop generation lifecycle
   | Some d \<Rightarrow>
       if dl_generation d \<noteq> generation
       then Finished (Inl (ClassificationReportGenerationMismatch generation (dl_generation d)))
       else if st_generation st \<noteq> Some generation then Finished (Inr False)
       else if dl_revision d \<le> st_revision st then Finished (Inr False)
       else (case checked_add64 (st_revision st) 1 of
           None \<Rightarrow> Finished (Inl ClassificationGenerationOverflow)
         | Some expected \<Rightarrow>
             if dl_revision d \<noteq> expected
             then Finished (Inl (ClassificationRevisionSequence (st_revision st) (dl_revision d)))
             else (case st_membership st of
                 None \<Rightarrow> Finished (Inl ClassificationStateWithoutSnapshot)
               | Some membership \<Rightarrow>
                   let cls = fold (\<lambda>c. bt_insert (tc_txid c) c) (dl_changed d) (st_classifications st)
                   in if length (transactions membership) < length cls
                      then Finished (Inl (ClassificationsExceedMembership (length cls)
                             (length (transactions membership))))
                      else (case prepare_observation membership (dl_revision d) cls of
                          Inl e \<Rightarrow> Finished (Inl e)
                        | Inr prepared \<Rightarrow> update_encode encode pb generation (dl_revision d) lifecycle
                            (st_revision st) prepared st))))"

definition update_commit ::
    "(snapshot_response \<Rightarrow> bytes option) \<Rightarrow> publisher \<Rightarrow> update_capture \<Rightarrow> current_state \<Rightarrow>
     task \<times> current_state" where
  "update_commit encode pb u st =
     (if st_generation st \<noteq> Some (uc_generation u) \<or> st_revision st \<noteq> uc_revision u
      then (Finished (Inr False), st)
      else if st_status_revision st \<noteq> uc_status_revision u
      then (update_encode encode pb (uc_generation u) (uc_delta_revision u) (uc_state u)
              (uc_revision u) (uc_prepared u) st, st)
      else (Finished (Inr True), replace_cached_response pb (uc_body u)
        (st\<lparr>st_latest := Some (po_latest (uc_prepared u)),
            st_classifications := po_classifications (uc_prepared u),
            st_revision := uc_delta_revision u, st_lifecycle := Some (uc_state u),
            st_status_revision := (if st_lifecycle st \<noteq> Some (uc_state u)
              then st_status_revision st + 1 else st_status_revision st)\<rparr>)))"

definition lifecycle_loop ::
    "(snapshot_response \<Rightarrow> bytes option) \<Rightarrow> publisher \<Rightarrow> u64 \<Rightarrow> classification_state \<Rightarrow> current_state \<Rightarrow> task" where
  "lifecycle_loop encode pb generation lifecycle st =
     (if st_generation st \<noteq> Some generation then Finished (Inr False)
      else (case st_latest st of
          None \<Rightarrow> Finished (Inl ClassificationStateWithoutSnapshot)
        | Some latest \<Rightarrow>
            if st_lifecycle st = Some lifecycle then Finished (Inr True)
            else (case encode \<lparr> sr_source = summary_from_parts pb (st_last_poll st) (Some latest)
                    (Some lifecycle) (st_last_error st), sr_snapshot = Some latest \<rparr> of
                None \<Rightarrow> Finished (Inl SnapshotResponseEncoding)
              | Some body \<Rightarrow> LifecycleCommit generation lifecycle (st_status_revision st)
                  (st_revision st) body)))"

definition lifecycle_commit ::
    "publisher \<Rightarrow> u64 \<Rightarrow> classification_state \<Rightarrow> u64 \<Rightarrow> u64 \<Rightarrow> bytes \<Rightarrow> current_state \<Rightarrow> task \<times> current_state" where
  "lifecycle_commit pb generation lifecycle status revision body st =
     (if st_generation st \<noteq> Some generation then (Finished (Inr False), st)
      else if st_status_revision st \<noteq> status \<or> st_revision st \<noteq> revision
      then (LifecycleLoop generation lifecycle, st)
      else (Finished (Inr True), replace_cached_response pb body
        (st\<lparr>st_lifecycle := Some lifecycle, st_status_revision := st_status_revision st + 1\<rparr>)))"

definition failure_loop ::
    "(snapshot_response \<Rightarrow> bytes option) \<Rightarrow> publisher \<Rightarrow> string \<Rightarrow> current_state \<Rightarrow> task" where
  "failure_loop encode pb err st =
     (case encode \<lparr> sr_source = summary_from_parts pb (st_last_poll st) (st_latest st)
          (st_lifecycle st) (Some err), sr_snapshot = st_latest st \<rparr> of
        None \<Rightarrow> Finished (Inl SnapshotResponseEncoding)
      | Some body \<Rightarrow> FailureCommit err (st_status_revision st) (st_generation st) (st_revision st) body)"

definition failure_commit ::
    "publisher \<Rightarrow> string \<Rightarrow> u64 \<Rightarrow> u64 option \<Rightarrow> u64 \<Rightarrow> bytes \<Rightarrow> current_state \<Rightarrow> task \<times> current_state" where
  "failure_commit pb err status generation revision body st =
     (if st_status_revision st \<noteq> status \<or> st_generation st \<noteq> generation \<or> st_revision st \<noteq> revision
      then (FailureLoop err, st)
      else (Finished (Inr True), replace_cached_response pb body
        (st\<lparr>st_last_error := Some err, st_status_revision := st_status_revision st + 1\<rparr>)))"

text \<open>One critical section of an operation; \<^verbatim>\<open>publish_failure\<close> returns \<^verbatim>\<open>()\<close>, shown as \<open>True\<close>.\<close>

fun task_step ::
    "(snapshot_response \<Rightarrow> bytes option) \<Rightarrow> publisher \<Rightarrow> task \<Rightarrow> current_state \<Rightarrow> task \<times> current_state" where
  "task_step encode pb (MembershipStart gs) st = (membership_start pb gs st, st)"
| "task_step encode pb (MembershipLoop gs prepared lifecycle) st =
     (membership_loop encode pb gs prepared lifecycle st, st)"
| "task_step encode pb (MembershipCommit gs prepared lifecycle status generation body) st =
     membership_commit pb gs prepared lifecycle status generation body st"
| "task_step encode pb (UpdateStart generation delta lifecycle) st =
     (update_start encode pb generation delta lifecycle st, st)"
| "task_step encode pb (UpdateCommit u) st = update_commit encode pb u st"
| "task_step encode pb (LifecycleLoop generation lifecycle) st =
     (lifecycle_loop encode pb generation lifecycle st, st)"
| "task_step encode pb (LifecycleCommit generation lifecycle status revision body) st =
     lifecycle_commit pb generation lifecycle status revision body st"
| "task_step encode pb (FailureLoop err) st = (failure_loop encode pb err st, st)"
| "task_step encode pb (FailureCommit err status generation revision body) st =
     failure_commit pb err status generation revision body st"
| "task_step encode pb (Finished r) st = (Finished r, st)"

text \<open>The operations other components can start.\<close>

fun is_request :: "task \<Rightarrow> bool" where
  "is_request (MembershipStart _) = True"
| "is_request (UpdateStart _ _ _) = True"
| "is_request (FailureLoop _) = True"
| "is_request _ = False"

text \<open>
  Any number of operations run interleaved: a new one may start, a poll may be recorded, or any
  operation in flight may run its next critical section.
\<close>

inductive publisher_step ::
    "(snapshot_response \<Rightarrow> bytes option) \<Rightarrow> publisher \<Rightarrow> current_state \<times> task list \<Rightarrow>
     current_state \<times> task list \<Rightarrow> bool"
  for encode pb where
  start: "is_request t \<Longrightarrow> publisher_step encode pb (st, ts) (st, ts @ [t])"
| poll: "publisher_step encode pb (st, ts) (record_poll_started started st, ts)"
| run: "i < length ts \<Longrightarrow> task_step encode pb (ts ! i) st = (t, st') \<Longrightarrow>
    publisher_step encode pb (st, ts) (st', ts[i := t])"

inductive publisher_reaches ::
    "(snapshot_response \<Rightarrow> bytes option) \<Rightarrow> publisher \<Rightarrow> current_state \<times> task list \<Rightarrow> nat \<Rightarrow>
     current_state \<times> task list \<Rightarrow> bool"
  for encode pb s0 where
  initial: "publisher_reaches encode pb s0 0 s0"
| step: "publisher_reaches encode pb s0 n s \<Longrightarrow> publisher_step encode pb s s' \<Longrightarrow>
    publisher_reaches encode pb s0 (Suc n) s'"

abbreviation publisher_runs ::
    "(snapshot_response \<Rightarrow> bytes option) \<Rightarrow> publisher \<Rightarrow> nat \<Rightarrow> current_state \<times> task list \<Rightarrow> bool" where
  "publisher_runs encode pb \<equiv> publisher_reaches encode pb (state_default, [])"

inductive_cases publisher_stepE: "publisher_step encode pb (st, ts) s'"

end
