(* ===== verification/Publisher_Props.thy ===== *)
theory Publisher_Props
  imports Publisher
begin

text \<open>
  Invariants of the publisher under every interleaving of its operations: what is published is a
  validated observation of the current membership, the cached response encodes the state it was
  committed with, and the lifecycle parts of the state come and go together. The counters wrap at
  \<^verbatim>\<open>u64\<close>; the invariant carries the true number of status changes beside the word, and holds
  for runs of fewer than \<open>2 ^ 64\<close> critical sections.
\<close>

section \<open>Epochs\<close>

text \<open>The generation and revision a task relied on; a later state never returns to an earlier one.\<close>

definition epoch :: "current_state \<Rightarrow> u64 option \<times> u64" where
  "epoch st = (st_generation st, st_revision st)"

fun reached :: "u64 option \<times> u64 \<Rightarrow> current_state \<Rightarrow> bool" where
  "reached (None, r) st = True"
| "reached (Some g, r) st =
     (case st_generation st of None \<Rightarrow> False | Some g' \<Rightarrow> g < g' \<or> g = g' \<and> r \<le> st_revision st)"

definition response_bytes ::
    "(snapshot_response \<Rightarrow> bytes option) \<Rightarrow> publisher \<Rightarrow> u64 option \<Rightarrow> mempool_snapshot option \<Rightarrow>
     classification_state option \<Rightarrow> string option \<Rightarrow> bytes option" where
  "response_bytes encode pb last_poll latest lifecycle err =
     encode \<lparr> sr_source = summary_from_parts pb last_poll latest lifecycle err, sr_snapshot = latest \<rparr>"

section \<open>The invariant\<close>

definition current_ok :: "publisher \<Rightarrow> current_state \<Rightarrow> bool" where
  "current_ok pb st = (case st_generation st of
     None \<Rightarrow> st_membership st = None \<and> st_latest st = None \<and> st_lifecycle st = None \<and>
       st_classifications st = [] \<and> st_revision st = 0
   | Some _ \<Rightarrow> st_lifecycle st \<noteq> None \<and>
       (\<exists>membership latest. st_membership st = Some membership \<and> st_latest st = Some latest \<and>
          source_id membership = pb_source_id pb \<and>
          prepare_observation membership (st_revision st) (st_classifications st) =
            Inr \<lparr> po_latest = latest, po_classifications = st_classifications st \<rparr>))"

definition response_ok :: "(snapshot_response \<Rightarrow> bytes option) \<Rightarrow> publisher \<Rightarrow> current_state \<Rightarrow> bool" where
  "response_ok encode pb st = (case st_cached st of
     None \<Rightarrow> st_generation st = None
   | Some c \<Rightarrow>
       (\<exists>last_poll. response_bytes encode pb last_poll (st_latest st) (st_lifecycle st) (st_last_error st) =
          Some (cr_body c)) \<and>
       cr_etag c = map_option (etag_of pb (st_response_revision st)) (st_latest st))"

text \<open>A captured status revision is that of an earlier or the current state.\<close>

definition captured :: "nat \<Rightarrow> u64 \<Rightarrow> (bool \<Rightarrow> bool) \<Rightarrow> bool" where
  "captured n status P \<longleftrightarrow> (\<exists>m \<le> n. status = of_nat m \<and> P (m = n))"

definition prepared_start :: "publisher \<Rightarrow> generation_start \<Rightarrow> prepared_observation \<Rightarrow> bool" where
  "prepared_start pb gs prepared \<longleftrightarrow> source_id (gs_membership gs) = pb_source_id pb \<and>
     prepare_observation (gs_membership gs) (gs_revision gs) (gs_classifications gs) = Inr prepared"

fun task_ok ::
    "(snapshot_response \<Rightarrow> bytes option) \<Rightarrow> publisher \<Rightarrow> nat \<Rightarrow> current_state \<Rightarrow> task \<Rightarrow> bool" where
  "task_ok encode pb n st (MembershipLoop gs prepared lifecycle) = prepared_start pb gs prepared"
| "task_ok encode pb n st (MembershipCommit gs prepared lifecycle status generation body) =
     (prepared_start pb gs prepared \<and>
      captured n status (\<lambda>now. now \<longrightarrow> response_bytes encode pb (st_last_poll st)
        (Some (po_latest prepared)) (Some lifecycle) None = Some body))"
| "task_ok encode pb n st (UpdateCommit u) =
     (reached (Some (uc_generation u), uc_revision u) st \<and>
      unat (uc_delta_revision u) = unat (uc_revision u) + 1 \<and>
      (epoch st = (Some (uc_generation u), uc_revision u) \<longrightarrow>
        (\<exists>membership cls. st_membership st = Some membership \<and>
           prepare_observation membership (uc_delta_revision u) cls = Inr (uc_prepared u))) \<and>
      captured n (uc_status_revision u) (\<lambda>now. now \<longrightarrow> response_bytes encode pb (st_last_poll st)
        (Some (po_latest (uc_prepared u))) (Some (uc_state u)) (st_last_error st) = Some (uc_body u)))"
| "task_ok encode pb n st (LifecycleCommit generation lifecycle status revision body) =
     (reached (Some generation, revision) st \<and>
      captured n status (\<lambda>now. now \<and> epoch st = (Some generation, revision) \<longrightarrow>
        response_bytes encode pb (st_last_poll st) (st_latest st) (Some lifecycle) (st_last_error st) =
          Some body))"
| "task_ok encode pb n st (FailureCommit err status generation revision body) =
     (reached (generation, revision) st \<and>
      captured n status (\<lambda>now. now \<and> epoch st = (generation, revision) \<longrightarrow>
        response_bytes encode pb (st_last_poll st) (st_latest st) (st_lifecycle st) (Some err) =
          Some body))"
| "task_ok encode pb n st t = True"

definition publisher_inv ::
    "(snapshot_response \<Rightarrow> bytes option) \<Rightarrow> publisher \<Rightarrow> nat \<Rightarrow> current_state \<times> task list \<Rightarrow> bool" where
  "publisher_inv encode pb n = (\<lambda>(st, ts). st_status_revision st = of_nat n \<and> current_ok pb st \<and>
     response_ok encode pb st \<and> (\<forall>t \<in> set ts. task_ok encode pb n st t))"

section \<open>A later state\<close>

text \<open>
  The changes other tasks may see: an epoch is never left and entered again, and while the status
  count stands still so do the poll time and the error.
\<close>

definition later :: "nat \<Rightarrow> current_state \<Rightarrow> nat \<Rightarrow> current_state \<Rightarrow> bool" where
  "later n st n' st' \<longleftrightarrow> n \<le> n' \<and>
     (n' = n \<longrightarrow> st_last_poll st' = st_last_poll st \<and> st_last_error st' = st_last_error st) \<and>
     (\<forall>e. reached e st \<longrightarrow> reached e st') \<and>
     (\<forall>e. reached e st \<and> epoch st' = e \<longrightarrow> epoch st = e \<and> st_membership st' = st_membership st \<and>
        (n' = n \<longrightarrow> st_latest st' = st_latest st \<and> st_lifecycle st' = st_lifecycle st))"

lemma later_refl [simp]: "later n st n st"
  by (simp add: later_def)

lemma captured_mono:
  assumes "captured n status P" "n \<le> n'" "\<And>now. P now \<Longrightarrow> n' = n \<Longrightarrow> Q now" "Q False"
  shows "captured n' status Q"
proof -
  obtain m where m: "m \<le> n" "status = of_nat m" "P (m = n)" using assms(1) by (auto simp: captured_def)
  have "Q (m = n')"
  proof (cases "m = n'")
    case True
    with m(1) assms(2) have "n' = n" by simp
    with m(3) True show ?thesis using assms(3) by simp
  qed (simp add: assms(4))
  moreover have "m \<le> n'" using m(1) assms(2) by simp
  ultimately show ?thesis using m(2) unfolding captured_def by blast
qed

lemma laterD:
  assumes "later n st n' st'"
  shows "n \<le> n'" "n' = n \<Longrightarrow> st_last_poll st' = st_last_poll st"
    "n' = n \<Longrightarrow> st_last_error st' = st_last_error st"
    "reached e st \<Longrightarrow> reached e st'"
    "reached e st \<Longrightarrow> epoch st' = e \<Longrightarrow> epoch st = e"
    "reached e st \<Longrightarrow> epoch st' = e \<Longrightarrow> st_membership st' = st_membership st"
    "reached e st \<Longrightarrow> epoch st' = e \<Longrightarrow> n' = n \<Longrightarrow> st_latest st' = st_latest st"
    "reached e st \<Longrightarrow> epoch st' = e \<Longrightarrow> n' = n \<Longrightarrow> st_lifecycle st' = st_lifecycle st"
  using assms unfolding later_def by blast+

lemma later_new_epoch:
  assumes "n \<le> n'" "n' = n \<Longrightarrow> st_last_poll st' = st_last_poll st \<and> st_last_error st' = st_last_error st"
    "\<And>e. reached e st \<Longrightarrow> reached e st' \<and> epoch st' \<noteq> e"
  shows "later n st n' st'"
  using assms unfolding later_def by blast

lemma task_ok_later:
  assumes ok: "task_ok encode pb n st t" and l: "later n st n' st'"
  shows "task_ok encode pb n' st' t"
proof (cases t)
  case (MembershipCommit gs prepared lifecycle status generation body)
  with ok show ?thesis by (auto elim!: captured_mono [OF _ laterD(1) [OF l]] simp: laterD(2) [OF l])
next
  case (UpdateCommit u)
  let ?e = "(Some (uc_generation u), uc_revision u)"
  have r: "reached ?e st" using ok UpdateCommit by simp
  have c: "captured n (uc_status_revision u) (\<lambda>now. now \<longrightarrow> response_bytes encode pb (st_last_poll st)
        (Some (po_latest (uc_prepared u))) (Some (uc_state u)) (st_last_error st) = Some (uc_body u))"
    using ok UpdateCommit by simp
  have "captured n' (uc_status_revision u) (\<lambda>now. now \<longrightarrow> response_bytes encode pb (st_last_poll st')
        (Some (po_latest (uc_prepared u))) (Some (uc_state u)) (st_last_error st') = Some (uc_body u))"
    by (rule captured_mono [OF c laterD(1) [OF l]]) (simp_all add: laterD(2,3) [OF l])
  then show ?thesis
    using ok UpdateCommit laterD(4-6) [OF l r] by simp
next
  case (LifecycleCommit generation lifecycle status revision body)
  let ?e = "(Some generation, revision)"
  have r: "reached ?e st" and c: "captured n status (\<lambda>now. now \<and> epoch st = ?e \<longrightarrow>
      response_bytes encode pb (st_last_poll st) (st_latest st) (Some lifecycle) (st_last_error st) = Some body)"
    using ok LifecycleCommit by simp_all
  have "captured n' status (\<lambda>now. now \<and> epoch st' = ?e \<longrightarrow>
      response_bytes encode pb (st_last_poll st') (st_latest st') (Some lifecycle) (st_last_error st') = Some body)"
    by (rule captured_mono [OF c laterD(1) [OF l]])
      (use laterD(2,3) [OF l] laterD(5,7) [OF l r] in auto)
  then show ?thesis using LifecycleCommit laterD(4) [OF l r] by simp
next
  case (FailureCommit err status generation revision body)
  let ?e = "(generation, revision)"
  have r: "reached ?e st" and c: "captured n status (\<lambda>now. now \<and> epoch st = ?e \<longrightarrow>
      response_bytes encode pb (st_last_poll st) (st_latest st) (st_lifecycle st) (Some err) = Some body)"
    using ok FailureCommit by simp_all
  have "captured n' status (\<lambda>now. now \<and> epoch st' = ?e \<longrightarrow>
      response_bytes encode pb (st_last_poll st') (st_latest st') (st_lifecycle st') (Some err) = Some body)"
    by (rule captured_mono [OF c laterD(1) [OF l]])
      (use laterD(2,3) [OF l] laterD(5,7,8) [OF l r] in auto)
  then show ?thesis using FailureCommit laterD(4) [OF l r] by simp
qed (use ok in auto)

section \<open>Every critical section keeps the invariant\<close>

lemma prepare_classifications:
  "prepare_observation membership revision cls = Inr p \<Longrightarrow> po_classifications p = cls"
  by (auto simp: prepare_observation_def materialize_retained_def mempool_observation_new_def
      ok_then_Inr_iff split: sum.splits if_splits)

lemma captured_now:
  assumes "captured n (of_nat n) P" "n < 2 ^ 64"
  shows "P True"
proof -
  obtain m where m: "m \<le> n" "(of_nat n :: u64) = of_nat m" "P (m = n)" using assms(1) by (auto simp: captured_def)
  have "unat (of_nat n :: u64) = unat (of_nat m :: u64)" using m(2) by simp
  then have "n = m" using m(1) assms(2) by (simp add: unat_of_nat)
  with m(3) show ?thesis by simp
qed

lemma capturedI: "P True \<Longrightarrow> captured n (of_nat n) P"
  by (auto simp: captured_def)

definition kept ::
    "(snapshot_response \<Rightarrow> bytes option) \<Rightarrow> publisher \<Rightarrow> nat \<Rightarrow> current_state \<Rightarrow> task \<times> current_state \<Rightarrow> bool" where
  "kept encode pb n st = (\<lambda>(t', st'). \<exists>n'. n' \<le> n + 1 \<and> st_status_revision st' = of_nat n' \<and>
     later n st n' st' \<and> current_ok pb st' \<and> response_ok encode pb st' \<and> task_ok encode pb n' st' t')"

lemma keptI:
  "n' \<le> n + 1 \<Longrightarrow> st_status_revision st' = of_nat n' \<Longrightarrow> later n st n' st' \<Longrightarrow> current_ok pb st' \<Longrightarrow>
   response_ok encode pb st' \<Longrightarrow> task_ok encode pb n' st' t' \<Longrightarrow> kept encode pb n st (t', st')"
  by (auto simp: kept_def)

lemma kept_same:
  assumes "st_status_revision st = of_nat n" "current_ok pb st" "response_ok encode pb st"
    "task_ok encode pb n st t'"
  shows "kept encode pb n st (t', st)"
  using assms by (intro keptI [of n]) auto

lemma response_ok_replaced:
  assumes "response_bytes encode pb lp (st_latest st) (st_lifecycle st) (st_last_error st) = Some body"
  shows "response_ok encode pb (replace_cached_response pb body st)"
  using assms by (auto simp: response_ok_def replace_cached_response_def Let_def)

lemma replaced_fields [simp]:
  "st_last_poll (replace_cached_response pb body st) = st_last_poll st"
  "st_membership (replace_cached_response pb body st) = st_membership st"
  "st_latest (replace_cached_response pb body st) = st_latest st"
  "st_classifications (replace_cached_response pb body st) = st_classifications st"
  "st_last_error (replace_cached_response pb body st) = st_last_error st"
  "st_generation (replace_cached_response pb body st) = st_generation st"
  "st_revision (replace_cached_response pb body st) = st_revision st"
  "st_lifecycle (replace_cached_response pb body st) = st_lifecycle st"
  "st_status_revision (replace_cached_response pb body st) = st_status_revision st"
  by (simp_all add: replace_cached_response_def Let_def)

lemma epoch_replaced [simp]: "epoch (replace_cached_response pb body st) = epoch st"
  by (simp add: epoch_def)

lemma reached_replaced [simp]: "reached e (replace_cached_response pb body st) = reached e st"
  by (cases "(e, st)" rule: reached.cases) (simp_all split: option.splits)

lemma later_replaced [simp]:
  "later n st n' (replace_cached_response pb body st') = later n st n' st'"
  by (simp add: later_def)

lemma current_ok_replaced [simp]:
  "current_ok pb (replace_cached_response pb body st) = current_ok pb st"
  by (simp add: current_ok_def split: option.split)

lemma later_status:
  assumes "epoch st' = epoch st" "st_membership st' = st_membership st"
  shows "later n st (Suc n) st'"
proof -
  have "reached e st' = reached e st" for e
    using assms(1) by (cases "(e, st)" rule: reached.cases) (auto simp: epoch_def split: option.splits)
  with assms show ?thesis by (simp add: later_def)
qed

lemma membership_commit_kept:
  assumes st: "st_status_revision st = of_nat n" "current_ok pb st" "response_ok encode pb st"
    and n: "n < 2 ^ 64"
    and t: "task_ok encode pb n st (MembershipCommit gs prepared lifecycle status generation body)"
  shows "kept encode pb n st (membership_commit pb gs prepared lifecycle status generation body st)"
proof (cases "superseded st (gs_generation gs) \<or> st_status_revision st \<noteq> status \<or> st_generation st \<noteq> generation")
  case True
  with st t show ?thesis by (auto simp: membership_commit_def intro!: kept_same)
next
  case False
  let ?st = "st\<lparr>st_membership := Some (gs_membership gs), st_latest := Some (po_latest prepared),
    st_classifications := po_classifications prepared, st_last_error := None,
    st_generation := Some (gs_generation gs), st_revision := gs_revision gs,
    st_lifecycle := Some lifecycle, st_status_revision := st_status_revision st + 1\<rparr>"
  have p: "prepared_start pb gs prepared" and
    body: "response_bytes encode pb (st_last_poll st) (Some (po_latest prepared)) (Some lifecycle) None = Some body"
    using t captured_now [OF _ n] False st(1) by auto
  have new: "st_generation st = None \<or> (\<exists>g. st_generation st = Some g \<and> g < gs_generation gs)"
    using False by (auto simp: superseded_def not_le split: option.splits)
  have "later n st (Suc n) ?st"
  proof (rule later_new_epoch)
    fix e assume "reached e st"
    then show "reached e ?st \<and> epoch ?st \<noteq> e"
      using new by (cases "(e, st)" rule: reached.cases) (auto simp: epoch_def split: option.splits)
  qed simp_all
  moreover have "current_ok pb ?st"
    using p prepare_classifications by (fastforce simp: current_ok_def prepared_start_def)
  moreover have "response_ok encode pb (replace_cached_response pb body ?st)"
    using body by (intro response_ok_replaced) simp
  ultimately show ?thesis
    using False st(1) by (auto simp: membership_commit_def intro!: keptI [of "Suc n"])
qed

lemma update_encode_kept:
  assumes st: "st_status_revision st = of_nat n" "current_ok pb st" "response_ok encode pb st"
    and r: "reached (Some generation, revision) st" "unat delta_revision = unat revision + 1"
      "epoch st = (Some generation, revision) \<longrightarrow>
        (\<exists>membership cls. st_membership st = Some membership \<and>
           prepare_observation membership delta_revision cls = Inr prepared)"
  shows "kept encode pb n st
    (update_encode encode pb generation delta_revision lifecycle revision prepared st, st)"
  using st r by (auto simp: update_encode_def response_bytes_def intro!: kept_same capturedI split: option.splits)

lemma update_commit_kept:
  assumes st: "st_status_revision st = of_nat n" "current_ok pb st" "response_ok encode pb st"
    and n: "n < 2 ^ 64" and t: "task_ok encode pb n st (UpdateCommit u)"
  shows "kept encode pb n st (update_commit encode pb u st)"
proof (cases "st_generation st = Some (uc_generation u) \<and> st_revision st = uc_revision u")
  case False
  with st show ?thesis by (auto simp: update_commit_def intro!: kept_same)
next
  case True
  show ?thesis
  proof (cases "st_status_revision st = uc_status_revision u")
    case False
    with True st t show ?thesis by (simp add: update_commit_def update_encode_kept)
  next
    case status: True
    let ?st = "st\<lparr>st_latest := Some (po_latest (uc_prepared u)),
      st_classifications := po_classifications (uc_prepared u),
      st_revision := uc_delta_revision u, st_lifecycle := Some (uc_state u),
      st_status_revision := (if st_lifecycle st \<noteq> Some (uc_state u)
        then st_status_revision st + 1 else st_status_revision st)\<rparr>"
    have body: "response_bytes encode pb (st_last_poll st) (Some (po_latest (uc_prepared u)))
        (Some (uc_state u)) (st_last_error st) = Some (uc_body u)"
      using t captured_now [OF _ n] status st(1) by auto
    have next_rev: "uc_revision u < uc_delta_revision u"
      using t by (simp add: word_less_nat_alt)
    obtain membership cls where m: "st_membership st = Some membership"
      "prepare_observation membership (uc_delta_revision u) cls = Inr (uc_prepared u)"
      using t True by (auto simp: epoch_def)
    have l: "later n st n' ?st" if "n \<le> n'" for n'
    proof (rule later_new_epoch)
      fix e assume "reached e st"
      then show "reached e ?st \<and> epoch ?st \<noteq> e"
        using True next_rev by (cases "(e, st)" rule: reached.cases) (auto simp: epoch_def)
    qed (use that in simp_all)
    have src: "source_id membership = pb_source_id pb" using st(2) True m(1) by (auto simp: current_ok_def)
    have c: "current_ok pb ?st"
      using m True src prepare_classifications [OF m(2)] by (cases "uc_prepared u") (auto simp: current_ok_def)
    have r: "response_ok encode pb (replace_cached_response pb (uc_body u) ?st)"
      using body by (intro response_ok_replaced) simp
    let ?n = "if st_lifecycle st \<noteq> Some (uc_state u) then Suc n else n"
    have eq: "update_commit encode pb u st = (Finished (Inr True), replace_cached_response pb (uc_body u) ?st)"
      using True status by (simp add: update_commit_def)
    show ?thesis
      unfolding eq by (rule keptI [of ?n]) (use st(1) c r l [of ?n] in simp_all)
  qed
qed

lemma lifecycle_commit_kept:
  assumes st: "st_status_revision st = of_nat n" "current_ok pb st" "response_ok encode pb st"
    and n: "n < 2 ^ 64" and t: "task_ok encode pb n st (LifecycleCommit generation lifecycle status revision body)"
  shows "kept encode pb n st (lifecycle_commit pb generation lifecycle status revision body st)"
proof (cases "st_generation st = Some generation \<and> st_status_revision st = status \<and> st_revision st = revision")
  case False
  with st show ?thesis by (auto simp: lifecycle_commit_def intro!: kept_same)
next
  case True
  let ?st = "st\<lparr>st_lifecycle := Some lifecycle, st_status_revision := st_status_revision st + 1\<rparr>"
  have body: "response_bytes encode pb (st_last_poll st) (st_latest st) (Some lifecycle) (st_last_error st) = Some body"
    using t captured_now [OF _ n] True st(1) by (auto simp: epoch_def)
  have "later n st (Suc n) ?st" by (intro later_status) (simp_all add: epoch_def)
  moreover have "current_ok pb ?st" using st(2) True by (auto simp: current_ok_def)
  moreover have "response_ok encode pb (replace_cached_response pb body ?st)"
    using body by (intro response_ok_replaced) simp
  ultimately show ?thesis
    using True st(1) by (auto simp: lifecycle_commit_def intro!: keptI [of "Suc n"])
qed

lemma failure_commit_kept:
  assumes st: "st_status_revision st = of_nat n" "current_ok pb st" "response_ok encode pb st"
    and n: "n < 2 ^ 64" and t: "task_ok encode pb n st (FailureCommit err status generation revision body)"
  shows "kept encode pb n st (failure_commit pb err status generation revision body st)"
proof (cases "st_status_revision st = status \<and> st_generation st = generation \<and> st_revision st = revision")
  case False
  with st show ?thesis by (auto simp: failure_commit_def intro!: kept_same)
next
  case True
  let ?st = "st\<lparr>st_last_error := Some err, st_status_revision := st_status_revision st + 1\<rparr>"
  have body: "response_bytes encode pb (st_last_poll st) (st_latest st) (st_lifecycle st) (Some err) = Some body"
    using t captured_now [OF _ n] True st(1) by (auto simp: epoch_def)
  have "later n st (Suc n) ?st" by (intro later_status) (simp_all add: epoch_def)
  moreover have "current_ok pb ?st" using st(2) by (auto simp: current_ok_def split: option.splits)
  moreover have "response_ok encode pb (replace_cached_response pb body ?st)"
    using body by (intro response_ok_replaced) simp
  ultimately show ?thesis
    using True st(1) by (auto simp: failure_commit_def intro!: keptI [of "Suc n"])
qed

lemma update_start_kept:
  assumes st: "st_status_revision st = of_nat n" "current_ok pb st" "response_ok encode pb st"
  shows "kept encode pb n st (update_start encode pb generation delta lifecycle st, st)"
proof -
  have finished: "kept encode pb n st (Finished r, st)" for r using st by (intro kept_same) auto
  show ?thesis
  proof (cases delta)
    case None
    with st show ?thesis by (auto simp: update_start_def intro!: kept_same)
  next
    case (Some d)
    show ?thesis
    proof (cases "dl_generation d = generation \<and> st_generation st = Some generation \<and>
        checked_add64 (st_revision st) 1 = Some (dl_revision d)")
      case True
      then have rev: "unat (dl_revision d) = unat (st_revision st) + 1" by (simp add: checked_add64_Some_iff)
      then have gt: "\<not> dl_revision d \<le> st_revision st" by (simp add: word_le_nat_alt)
      have r: "reached (Some generation, st_revision st) st" using True by simp
      have enc: "kept encode pb n st
          (update_encode encode pb generation (dl_revision d) lifecycle (st_revision st) prepared st, st)"
        if "st_membership st = Some mem" "prepare_observation mem (dl_revision d) cls = Inr prepared"
        for mem cls prepared
        using that by (intro update_encode_kept [OF st r rev]) blast
      show ?thesis
        using True Some gt finished enc
        by (auto simp: update_start_def Let_def split: option.split sum.split)
    next
      case False
      with Some finished show ?thesis by (auto simp: update_start_def split: option.split)
    qed
  qed
qed

lemma reached_self [simp]: "reached (st_generation st, st_revision st) st"
  by (cases "st_generation st") auto

lemma task_step_kept:
  assumes st: "st_status_revision st = of_nat n" "current_ok pb st" "response_ok encode pb st"
    and n: "n < 2 ^ 64" and t: "task_ok encode pb n st t"
  shows "kept encode pb n st (task_step encode pb t st)"
proof (cases t)
  case (MembershipStart gs)
  with st show ?thesis
    by (auto simp: membership_start_def prepared_start_def intro!: kept_same split: sum.split)
next
  case (MembershipLoop gs prepared lifecycle)
  with st t show ?thesis
    by (auto simp: membership_loop_def response_bytes_def intro!: kept_same capturedI split: option.split)
next
  case (LifecycleLoop generation lifecycle)
  with st show ?thesis
    by (auto simp: lifecycle_loop_def response_bytes_def intro!: kept_same capturedI split: option.split)
next
  case (FailureLoop err)
  with st show ?thesis
    by (auto simp: failure_loop_def response_bytes_def intro!: kept_same capturedI split: option.split)
next
  case (MembershipCommit gs prepared lifecycle status generation body)
  with membership_commit_kept [OF st n] t show ?thesis by (simp only: task_step.simps)
next
  case (UpdateStart generation delta lifecycle)
  with update_start_kept [OF st] show ?thesis by simp
next
  case (UpdateCommit u)
  with update_commit_kept [OF st n] t show ?thesis by (simp only: task_step.simps)
next
  case (LifecycleCommit generation lifecycle status revision body)
  with lifecycle_commit_kept [OF st n] t show ?thesis by (simp only: task_step.simps)
next
  case (FailureCommit err status generation revision body)
  with failure_commit_kept [OF st n] t show ?thesis by (simp only: task_step.simps)
qed (use st in \<open>simp add: kept_same\<close>)

lemma publisher_step_inv:
  assumes "publisher_step encode pb s s'" "publisher_inv encode pb n s" "n < 2 ^ 64"
  shows "\<exists>n' \<le> n + 1. publisher_inv encode pb n' s'"
  using assms
proof (induction rule: publisher_step.induct)
  case (start t st ts)
  then have "publisher_inv encode pb n (st, ts @ [t])"
    by (cases t) (auto simp: publisher_inv_def)
  then show ?case by (intro exI [of _ n]) simp
next
  case (poll st ts started)
  let ?st = "record_poll_started started st"
  have l: "later n st (Suc n) ?st" by (intro later_status) (simp_all add: epoch_def record_poll_started_def)
  have "publisher_inv encode pb (Suc n) (?st, ts)"
    using poll task_ok_later [OF _ l]
    by (auto simp: publisher_inv_def record_poll_started_def current_ok_def response_ok_def
        split: option.splits)
  then show ?case by (intro exI [of _ "Suc n"]) simp
next
  case (run i ts st t st')
  then have "kept encode pb n st (t, st')"
    using task_step_kept [of st n pb encode "ts ! i"] by (auto simp: publisher_inv_def)
  then obtain n' where k: "n' \<le> n + 1" "st_status_revision st' = of_nat n'" "later n st n' st'"
    "current_ok pb st'" "response_ok encode pb st'" "task_ok encode pb n' st' t"
    by (auto simp: kept_def)
  have "\<forall>u \<in> set (ts[i := t]). task_ok encode pb n' st' u"
    using run.prems(1) task_ok_later [OF _ k(3)] k(6) set_update_subset_insert [of ts i t]
    by (auto simp: publisher_inv_def)
  with k show ?case by (auto simp: publisher_inv_def)
qed

lemma publisher_runs_inv:
  assumes "publisher_runs encode pb k s" "k \<le> 2 ^ 64"
  shows "\<exists>n \<le> k. publisher_inv encode pb n s"
  using assms
proof (induction rule: publisher_reaches.induct)
  case initial
  then show ?case by (simp add: publisher_inv_def state_default_def current_ok_def response_ok_def)
next
  case (step k s s')
  then obtain n where n: "n \<le> k" "publisher_inv encode pb n s" by auto
  moreover have "n < 2 ^ 64" using n(1) step.prems by simp
  ultimately obtain n' where "n' \<le> n + 1" "publisher_inv encode pb n' s'"
    using publisher_step_inv [OF step.hyps(2)] by blast
  with n(1) show ?case by (intro exI [of _ n']) simp
qed

section \<open>What is published\<close>

lemma materialized_ok:
  assumes "materialize_retained m revision cls = Inr ob"
  shows "observation_ok ob \<and> snapshot_ok (ob_snapshot ob) \<and> source_id (ob_snapshot ob) = source_id m \<and>
    classification_revision (ob_snapshot ob) = revision \<and>
    transactions (ob_snapshot ob) = map (overlay cls) (transactions m) \<and> ob_classifications ob = cls"
proof -
  obtain s where s: "mempool_snapshot_new_with_collection_window (source_id m)
         (source_label m) (collection_started_at_ms m)
         (collection_completed_at_ms m) (collection_duration_ms m)
         (ms_chain_tip m) (map (overlay cls) (transactions m)) = Inr s"
    "json_safe revision" "mempool_observation_new (s\<lparr>classification_revision := revision\<rparr>) cls = Inr ob"
    using assms by (auto simp: materialize_retained_def ok_then_Inr_iff with_classification_revision_def
        not_json_safe split: if_splits)
  let ?s = "s\<lparr>classification_revision := revision\<rparr>"
  have ok: "snapshot_ok ?s" "source_id ?s = source_id m" "transactions ?s = map (overlay cls) (transactions m)"
    using s(1,2) unfolding snapshot_new_Inr_iff by (auto simp: snapshot_ok_def)
  then have "sorted_wrt (<) (map me_txid (transactions ?s))" by (simp add: snapshot_ok_def)
  with s(3) ok show ?thesis by (auto simp: observation_new_Inr_iff)
qed

lemma current_ok_latest:
  assumes "current_ok pb st" "st_latest st = Some latest"
  shows "st_generation st \<noteq> None \<and> st_lifecycle st \<noteq> None \<and>
    observation_ok \<lparr> ob_snapshot = latest, ob_classifications = st_classifications st \<rparr> \<and>
    snapshot_ok latest \<and> source_id latest = pb_source_id pb \<and>
    classification_revision latest = st_revision st \<and>
    (\<exists>m. st_membership st = Some m \<and>
       transactions latest = map (overlay (st_classifications st)) (transactions m))"
proof -
  obtain m where m: "st_membership st = Some m" "source_id m = pb_source_id pb"
    "prepare_observation m (st_revision st) (st_classifications st) =
       Inr \<lparr> po_latest = latest, po_classifications = st_classifications st \<rparr>"
    using assms by (auto simp: current_ok_def split: option.splits)
  then obtain ob where ob: "materialize_retained m (st_revision st) (st_classifications st) = Inr ob"
    "ob_snapshot ob = latest"
    by (auto simp: prepare_observation_def split: sum.splits)
  have "ob = \<lparr> ob_snapshot = latest, ob_classifications = st_classifications st \<rparr>"
    using materialized_ok [OF ob(1)] ob(2) by (cases ob) simp
  with materialized_ok [OF ob(1)] ob(2) m assms show ?thesis
    by (auto simp: current_ok_def split: option.splits)
qed

lemma runs_current_ok:
  assumes "publisher_runs encode pb k (st, ts)" "k \<le> 2 ^ 64"
  shows "current_ok pb st" "response_ok encode pb st"
  using publisher_runs_inv [OF assms] by (auto simp: publisher_inv_def)

text \<open>
  C6: Under every interleaving of membership publications, classification updates, lifecycle changes,
  failures and polls, what is published is a validated observation of the current membership at
  the published revision: each entry shows the record stored for it and nothing else, the snapshot
  belongs to this source, and snapshot, generation and lifecycle state exist together or not at all.
\<close>

theorem published_state_is_validated:
  assumes "publisher_runs encode pb k (st, ts)" and "k \<le> 2 ^ 64"
  shows "case st_latest st of
      None \<Rightarrow> st_generation st = None \<and> st_lifecycle st = None \<and> st_classifications st = []
    | Some latest \<Rightarrow> st_generation st \<noteq> None \<and> st_lifecycle st \<noteq> None \<and>
        observation_ok \<lparr> ob_snapshot = latest, ob_classifications = st_classifications st \<rparr> \<and>
        snapshot_ok latest \<and> source_id latest = pb_source_id pb \<and>
        classification_revision latest = st_revision st \<and>
        (\<exists>m. st_membership st = Some m \<and>
           transactions latest = map (overlay (st_classifications st)) (transactions m))"
proof -
  have ok: "current_ok pb st" using assms by (rule runs_current_ok)
  show ?thesis
  proof (cases "st_latest st")
    case None
    with ok show ?thesis by (auto simp: current_ok_def split: option.splits)
  next
    case (Some latest)
    with current_ok_latest [OF ok Some] show ?thesis by simp
  qed
qed

text \<open>
  C15: The cached response is never a mixture of two states: its body encodes exactly the published
  snapshot, lifecycle state and error, up to the time of the last poll, and nothing has been
  published while there is none.
\<close>

theorem cached_response_is_coherent:
  assumes "publisher_runs encode pb k (st, ts)" and "k \<le> 2 ^ 64"
  shows "case st_cached st of
      None \<Rightarrow> st_latest st = None
    | Some c \<Rightarrow> (\<exists>last_poll. encode \<lparr> sr_source = (summary_from_state pb st)\<lparr>ss_last_poll := last_poll\<rparr>,
        sr_snapshot = st_latest st \<rparr> = Some (cr_body c))"
proof -
  have "(summary_from_state pb st)\<lparr>ss_last_poll := lp\<rparr> =
      summary_from_parts pb lp (st_latest st) (st_lifecycle st) (st_last_error st)" for lp
    by (simp add: summary_from_state_def summary_from_parts_def Let_def)
  then show ?thesis
    using runs_current_ok [OF assms]
    by (auto simp: response_ok_def current_ok_def response_bytes_def split: option.splits)
qed

lemma membership_loop_finishes:
  "\<exists>r st'. (case task_step encode pb (MembershipLoop gs p l) st of (t, st) \<Rightarrow> task_step encode pb t st) = (Finished r, st')"
  by (auto simp: membership_loop_def membership_commit_def split: option.splits)

lemma update_encode_finishes:
  "st_generation st = Some g \<Longrightarrow> st_revision st = rv \<Longrightarrow>
   \<exists>r st'. task_step encode pb (update_encode encode pb g d l rv p st) st = (Finished r, st')"
  by (auto simp: update_encode_def update_commit_def split: option.splits)

lemma lifecycle_loop_finishes:
  "\<exists>r st'. (case task_step encode pb (LifecycleLoop g l) st of (t, st) \<Rightarrow> task_step encode pb t st) = (Finished r, st')"
  by (auto simp: lifecycle_loop_def lifecycle_commit_def split: option.splits)

lemma failure_loop_finishes:
  "\<exists>r st'. (case task_step encode pb (FailureLoop e) st of (t, st) \<Rightarrow> task_step encode pb t st) = (Finished r, st')"
  by (auto simp: failure_loop_def failure_commit_def split: option.splits)

text \<open>Where one critical section of an update leads: to the result, to a loop, or to a fresh encoding.\<close>

lemma update_start_leads:
  "(\<exists>r. update_start encode pb g d l st = Finished r) \<or> update_start encode pb g d l st = LifecycleLoop g l \<or>
   (st_generation st = Some g \<and> (\<exists>dr p. update_start encode pb g d l st =
     update_encode encode pb g dr l (st_revision st) p st))"
  by (auto simp: update_start_def Let_def split: option.split sum.split)

lemma update_start_finishes:
  "\<exists>r st'. (case task_step encode pb (update_start encode pb g d l st) st of (t, st) \<Rightarrow> task_step encode pb t st) =
     (Finished r, st')"
  using update_start_leads [of encode pb g d l st] lifecycle_loop_finishes [of encode pb g l st]
    update_encode_finishes [of st g "st_revision st" encode pb]
  by (metis (no_types, lifting) case_prod_conv task_step.simps(10))

text \<open>
  C30: A publication nobody disturbs finishes: from any state, three critical sections in a row bring
  every operation to its result, whatever it had captured before.
\<close>

theorem undisturbed_publication_finishes:
  "\<exists>r st'. ((\<lambda>(t, st). task_step encode pb t st) ^^ 3) (t, st) = (Finished r, st')"
proof -
  let ?f = "\<lambda>(t, st). task_step encode pb t st"
  have fin: "?f (Finished r, s) = (Finished r, s)" for r s by simp
  note loops = membership_loop_finishes [of encode pb _ _ _ st] lifecycle_loop_finishes [of encode pb _ _ st]
    failure_loop_finishes [of encode pb _ st]
  have "\<exists>r s. ?f (?f (?f (t, st))) = (Finished r, s)"
  proof (cases t)
    case (MembershipStart gs)
    have "(\<exists>r. membership_start pb gs st = Finished r) \<or> (\<exists>p l. membership_start pb gs st = MembershipLoop gs p l)"
      by (auto simp: membership_start_def split: sum.split)
    with loops(1) [of gs] MembershipStart fin show ?thesis by auto
  next
    case (UpdateStart g d l)
    with update_start_finishes [of encode pb g d l st] show ?thesis by simp
  next
    case (UpdateCommit c)
    have "(\<exists>r s. ?f (t, st) = (Finished r, s)) \<or> (\<exists>r s. ?f (?f (t, st)) = (Finished r, s))"
      using UpdateCommit update_encode_finishes [of st "uc_generation c" "uc_revision c" encode pb]
      by (auto simp: update_commit_def)
    with fin show ?thesis by metis
  qed (use loops fin in \<open>auto simp: membership_commit_def lifecycle_commit_def failure_commit_def; metis case_prod_conv\<close>)+
  then show ?thesis by (simp add: numeral_3_eq_3)
qed

section \<open>Entity tags\<close>

lemma decimal_digits: "set (decimal n) \<subseteq> char_of ` {48..57::nat}"
proof (induction n rule: decimal.induct)
  case (1 n)
  have last: "char_of (48 + n mod 10) \<in> char_of ` {48..57::nat}" by (intro imageI) auto
  show ?case
  proof (cases "n < 10")
    case True
    then show ?thesis by (auto simp: decimal.simps [of n])
  next
    case False
    with 1 last show ?thesis by (simp add: decimal.simps [of n])
  qed
qed

lemma dash_not_digit: "CHR ''-'' \<notin> set (decimal n)"
proof
  assume "CHR ''-'' \<in> set (decimal n)"
  then obtain m :: nat where m: "48 \<le> m" "m \<le> 57" "CHR ''-'' = char_of m"
    using decimal_digits [of n] by auto
  have "(45 :: nat) = of_char (CHR ''-'')" by simp
  also have "\<dots> = of_char (char_of m :: char)" by (simp only: m(3))
  also have "\<dots> = m" using m(1,2) by (simp only: of_char_of) simp
  finally show False using m(1) by simp
qed

definition decimal_value :: "string \<Rightarrow> nat" where
  "decimal_value = foldl (\<lambda>a c. 10 * a + (of_char c - 48)) 0"

lemma decimal_value_decimal [simp]: "decimal_value (decimal n) = n"
proof (induction n rule: decimal.induct)
  case (1 n)
  show ?case
  proof (cases "n < 10")
    case True
    then have "decimal n = [char_of (48 + n)]" by (subst decimal.simps) simp
    with True show ?thesis by (simp add: decimal_value_def)
  next
    case False
    then have "decimal n = decimal (n div 10) @ [char_of (48 + n mod 10)]" by (subst decimal.simps) simp
    moreover have "decimal_value (decimal (n div 10)) = n div 10" using 1 False by simp
    moreover have "(48 + n mod 10) mod 256 = 48 + n mod 10" by simp
    ultimately show ?thesis by (simp add: decimal_value_def)
  qed
qed

lemma decimal_inj: "decimal n = decimal m \<Longrightarrow> n = m"
  by (metis decimal_value_decimal)

lemma etag_determines_revision:
  assumes "etag_of pb r snap = etag_of pb r' snap'"
  shows "r = r'"
proof -
  have "decimal (unat (observed_at_ms snap)) @ CHR ''-'' # (decimal (unat r) @ [CHR 0x22]) =
      decimal (unat (observed_at_ms snap')) @ CHR ''-'' # (decimal (unat r') @ [CHR 0x22])"
    using assms by (simp add: etag_of_def)
  moreover have "CHR ''-'' \<notin> set (decimal k @ [CHR 0x22])" for k using dash_not_digit by simp
  ultimately have "decimal (unat r) @ [CHR 0x22] = decimal (unat r') @ [CHR 0x22]"
    using dash_not_digit by (metis append_Cons_eq_iff)
  then show ?thesis using decimal_inj by (simp add: word_unat_eq_iff)
qed

lemma response_ok_tag:
  assumes "response_ok encode pb st" "st_cached st = Some c" "cr_etag c = Some tag"
  shows "\<exists>snap. tag = etag_of pb (st_response_revision st) snap"
  using assms by (cases "st_latest st") (auto simp: response_ok_def)

lemma task_step_response:
  assumes "task_step encode pb t st = (t', st')"
  shows "st_cached st' = st_cached st \<and> st_response_revision st' = st_response_revision st \<or>
    st_response_revision st' = st_response_revision st + 1"
  using assms
  by (cases t) (auto simp: membership_commit_def update_commit_def lifecycle_commit_def
      failure_commit_def replace_cached_response_def Let_def split: if_splits)

lemma publisher_step_response:
  "publisher_step encode pb s s' \<Longrightarrow>
     st_cached (fst s') = st_cached (fst s) \<and> st_response_revision (fst s') = st_response_revision (fst s) \<or>
     st_response_revision (fst s') = st_response_revision (fst s) + 1"
  by (induction rule: publisher_step.induct)
    (auto simp: record_poll_started_def dest: task_step_response)

lemma reaches_response:
  "publisher_reaches encode pb s n s' \<Longrightarrow>
     \<exists>j \<le> n. st_response_revision (fst s') = st_response_revision (fst s) + of_nat j \<and>
       (j = 0 \<longrightarrow> st_cached (fst s') = st_cached (fst s))"
proof (induction rule: publisher_reaches.induct)
  case initial
  then show ?case by simp
next
  case (step n s1 s2)
  then obtain j where j: "j \<le> n" "st_response_revision (fst s1) = st_response_revision (fst s) + of_nat j"
    "j = 0 \<longrightarrow> st_cached (fst s1) = st_cached (fst s)" by blast
  from publisher_step_response [OF step.hyps(2)] show ?case
  proof
    assume "st_cached (fst s2) = st_cached (fst s1) \<and> st_response_revision (fst s2) = st_response_revision (fst s1)"
    with j show ?thesis by (intro exI [of _ j]) auto
  next
    assume "st_response_revision (fst s2) = st_response_revision (fst s1) + 1"
    with j show ?thesis by (intro exI [of _ "Suc j"]) (auto simp: algebra_simps)
  qed
qed

lemma reaches_trans:
  "publisher_reaches encode pb s1 n s2 \<Longrightarrow> publisher_reaches encode pb s0 k s1 \<Longrightarrow>
     publisher_reaches encode pb s0 (k + n) s2"
  by (induction rule: publisher_reaches.induct) (auto intro: publisher_reaches.step)

lemma etag_identifies:
  assumes "publisher_runs encode pb k (st, ts)" and "publisher_reaches encode pb (st, ts) n (st', ts')"
    and "k + n < 2 ^ 64" and "st_cached st = Some c" and "st_cached st' = Some c'"
    and "cr_etag c = Some tag" and "cr_etag c' = Some tag"
  shows "cr_body c' = cr_body c"
proof -
  have "response_ok encode pb st"
    using runs_current_ok(2) [OF assms(1)] assms(3) by simp
  moreover have "response_ok encode pb st'"
    using runs_current_ok(2) [OF reaches_trans [OF assms(2,1)]] assms(3) by simp
  ultimately obtain snap snap' where "tag = etag_of pb (st_response_revision st) snap"
    "tag = etag_of pb (st_response_revision st') snap'"
    using response_ok_tag assms(4-7) by metis
  then have "st_response_revision st = st_response_revision st'"
    using etag_determines_revision by blast
  moreover obtain j where j: "j \<le> n" "st_response_revision st' = st_response_revision st + of_nat j"
    "j = 0 \<longrightarrow> st_cached st' = st_cached st"
    using reaches_response [OF assms(2)] by auto
  ultimately have "(of_nat j :: u64) = 0" by simp
  then have "j = 0" using j(1) assms(3) by (simp add: word_unat_eq_iff unat_of_nat)
  with j(3) assms(4,5) show ?thesis by simp
qed

text \<open>
  An entity tag identifies one response: a client that holds a tag and sees it again, however many
  operations have run in between, holds exactly the bytes now served. This is what lets the API
  answer a conditional request without a body.
\<close>

theorem etag_identifies_response:
  assumes "publisher_runs encode pb k (st, ts)" and "publisher_reaches encode pb (st, ts) n (st', ts')"
    and "k + n < 2 ^ 64" and "st_cached st = Some c" and "st_cached st' = Some c'"
    and "cr_etag c = Some tag" and "cr_etag c' = Some tag"
  shows "cr_body c' = cr_body c"
  by (rule etag_identifies [OF assms])

section \<open>Details\<close>

lemma detail_of_latest:
  assumes "current_ok pb st" and "st_latest st = Some latest"
  shows "(transaction_detail pb st txid = NotPresent \<longleftrightarrow> txid \<notin> me_txid ` set (transactions latest)) \<and>
    (case transaction_detail pb st txid of
       LookupReady d \<Rightarrow> td_txid d = txid \<and> td_observed_at_ms d = observed_at_ms latest \<and>
         td_revision d = classification_revision latest \<and>
         (\<exists>e \<in> set (transactions latest). me_txid e = txid \<and> me_wtxid e = td_wtxid d \<and>
            classifications e = map compact (td_classifications d) \<and>
            me_bip110 e = Some (td_assessment d))
     | Unclassified \<Rightarrow> list_all (\<lambda>e. me_txid e = txid \<longrightarrow> unattached e) (transactions latest)
     | WaitingForSnapshot \<Rightarrow> False | NotPresent \<Rightarrow> True)"
proof -
  note ok = current_ok_latest [OF assms]
  have obs: "observation_ok \<lparr> ob_snapshot = latest, ob_classifications = st_classifications st \<rparr>"
    and sorted: "sorted_wrt (<) (map me_txid (transactions latest))"
    and rev: "classification_revision latest = st_revision st"
    using ok by (auto simp: snapshot_ok_def)
  have found: "binary_search me_txid txid (transactions latest) = None \<longleftrightarrow> txid \<notin> me_txid ` set (transactions latest)"
  proof (cases "binary_search me_txid txid (transactions latest)")
    case None
    then have "\<not> (j < length (transactions latest) \<and> me_txid (transactions latest ! j) = txid)" for j
      using binary_search_Some_iff [OF sorted, of txid j] by simp
    then have "txid \<notin> me_txid ` set (transactions latest)" by (metis imageE in_set_conv_nth)
    with None show ?thesis by simp
  next
    case (Some i)
    then have "i < length (transactions latest)" "me_txid (transactions latest ! i) = txid"
      using binary_search_Some_iff [OF sorted, of txid i] by auto
    then have "txid \<in> me_txid ` set (transactions latest)" by (metis imageI nth_mem)
    with Some show ?thesis by simp
  qed
  show ?thesis
  proof (cases "bt_get (st_classifications st) txid")
    case None
    then show ?thesis
      using obs found assms(2)
      by (auto simp: transaction_detail_def observation_ok_def bt_contains_def list_all_iff split: option.splits)
  next
    case (Some c)
    then have "(txid, c) \<in> set (st_classifications st)" by (rule map_of_SomeD)
    then obtain e where "e \<in> set (transactions latest)" "me_txid e = txid" "attached e c" "tc_txid c = txid"
      using obs by (auto simp: observation_ok_def)
    then show ?thesis
      using Some found assms(2) rev by (auto simp: transaction_detail_def attached_def split: option.splits)
  qed
qed

text \<open>
  The detail a client asks for is that of the published snapshot: an unknown txid is reported as
  not present, and a classified one returns the record the snapshot shows for the current witness
  variant, at the snapshot's own revision and observation time.
\<close>

theorem detail_matches_snapshot:
  assumes "publisher_runs encode pb k (st, ts)" and "k \<le> 2 ^ 64" and "st_latest st = Some latest"
  shows "(transaction_detail pb st txid = NotPresent \<longleftrightarrow> txid \<notin> me_txid ` set (transactions latest)) \<and>
    (case transaction_detail pb st txid of
       LookupReady d \<Rightarrow> td_txid d = txid \<and> td_observed_at_ms d = observed_at_ms latest \<and>
         td_revision d = classification_revision latest \<and>
         (\<exists>e \<in> set (transactions latest). me_txid e = txid \<and> me_wtxid e = td_wtxid d \<and>
            classifications e = map compact (td_classifications d) \<and>
            me_bip110 e = Some (td_assessment d))
     | Unclassified \<Rightarrow> list_all (\<lambda>e. me_txid e = txid \<longrightarrow> unattached e) (transactions latest)
     | WaitingForSnapshot \<Rightarrow> False | NotPresent \<Rightarrow> True)"
  by (rule detail_of_latest [OF runs_current_ok(1) [OF assms(1,2)] assms(3)])

section \<open>An example run\<close>

definition example_publisher :: publisher where
  "example_publisher = \<lparr> pb_source_id = ''core'', pb_source_label = ''Core'',
     pb_poll_interval = 10000000000 \<rparr>"

definition example_encode :: "snapshot_response \<Rightarrow> bytes option" where
  "example_encode r = Some [0x7b, 0x7d]"

definition example_start :: generation_start where
  "example_start = \<lparr> gs_generation = 1, gs_revision = 0, gs_has_eligible_work = True,
     gs_membership = example_membership, gs_classifications = [] \<rparr>"

lemma example_prepared:
  "\<exists>p. prepare_observation example_membership 0 [] = Inr p \<and>
     map me_txid (transactions (po_latest p)) = [''aa'', ''bb''] \<and> observed_at_ms (po_latest p) = 7"
proof -
  have "retained example_membership [] = []"
    by (simp add: retained_def example_membership_def Let_def map_filter_def bt_of_list_def)
  then obtain ob where ob: "materialize_retained example_membership 0 [] = Inr ob"
    using materialize_result [OF example_membership_ok, of 0 "[]"]
    by (auto simp: materialize_def json_safe_def)
  note ok = materialized_ok [OF ob]
  obtain s where "mempool_snapshot_new_with_collection_window (source_id example_membership)
         (source_label example_membership) (collection_started_at_ms example_membership)
         (collection_completed_at_ms example_membership) (collection_duration_ms example_membership)
         (ms_chain_tip example_membership) (map (overlay []) (transactions example_membership)) = Inr s"
    "mempool_observation_new (s\<lparr>classification_revision := 0\<rparr>) [] = Inr ob"
    using ob by (auto simp: materialize_retained_def ok_then_Inr_iff with_classification_revision_def
        not_json_safe split: if_splits)
  then have "observed_at_ms (ob_snapshot ob) = 7"
    unfolding snapshot_new_Inr_iff
    by (auto simp: mempool_observation_new_def ok_then_Inr_iff snapshot_ok_def example_membership_def Let_def
        split: if_splits)
  with ok ob show ?thesis
    by (auto simp: prepare_observation_def example_membership_def example_entry_def Let_def)
qed

lemma example_run:
  "\<exists>st ts latest. publisher_runs example_encode example_publisher 4 (st, ts) \<and>
     st_latest st = Some latest \<and> map me_txid (transactions latest) = [''aa'', ''bb''] \<and>
     st_cached st = Some \<lparr> cr_body = [0x7b, 0x7d], cr_etag = Some (etag_of example_publisher 1 latest) \<rparr>"
proof -
  obtain p where p: "prepare_observation example_membership 0 [] = Inr p"
    "map me_txid (transactions (po_latest p)) = [''aa'', ''bb'']"
    using example_prepared by (elim exE conjE) (rule that)
  let ?e = example_encode and ?pb = example_publisher
  let ?commit = "MembershipCommit example_start p Classifying 0 None [0x7b, 0x7d]"
  have run: "publisher_reaches ?e ?pb s0 (Suc n) (st', [t'])"
    if "publisher_reaches ?e ?pb s0 n (st, [t])" "task_step ?e ?pb t st = (t', st')" for s0 n st st' t t'
    using publisher_reaches.step [OF that(1) publisher_step.run [of 0 "[t]"]] that(2) by simp
  have "publisher_runs ?e ?pb 0 (state_default, [])" by (rule publisher_reaches.initial)
  then have "publisher_runs ?e ?pb 1 (state_default, [MembershipStart example_start])"
    using publisher_reaches.step [OF _ publisher_step.start [of "MembershipStart example_start"]] by fastforce
  then have "publisher_runs ?e ?pb 2 (state_default, [MembershipLoop example_start p Classifying])"
    using run [of "(state_default, [])" 1] p
    by (simp add: membership_start_def example_start_def example_publisher_def superseded_def
        state_default_def example_membership_def Let_def numeral_2_eq_2)
  then have r3: "publisher_runs ?e ?pb 3 (state_default, [?commit])"
    using run [of "(state_default, [])" 2]
    by (simp add: membership_loop_def example_start_def superseded_def state_default_def
        example_encode_def numeral_3_eq_3 numeral_2_eq_2)
  obtain t' st' where c: "task_step ?e ?pb ?commit state_default = (t', st')" by force
  have "publisher_runs ?e ?pb 4 (st', [t'])"
    using run [OF r3 c] by (simp add: numeral_eq_Suc)
  moreover have "st_latest st' = Some (po_latest p)"
    "st_cached st' = Some \<lparr> cr_body = [0x7b, 0x7d], cr_etag = Some (etag_of ?pb 1 (po_latest p)) \<rparr>"
    using c by (auto simp: membership_commit_def superseded_def state_default_def
        replace_cached_response_def Let_def)
  ultimately show ?thesis using p(2) by (intro exI conjI)
qed

theorem published_state_is_validated_witness:
  "\<exists>st ts latest. publisher_runs example_encode example_publisher 4 (st, ts) \<and>
     st_latest st = Some latest \<and> snapshot_ok latest \<and> source_id latest = ''core'' \<and>
     map me_txid (transactions latest) = [''aa'', ''bb'']"
proof -
  obtain st ts latest where r: "publisher_runs example_encode example_publisher 4 (st, ts)"
    "st_latest st = Some latest" "map me_txid (transactions latest) = [''aa'', ''bb'']"
    using example_run by (elim exE conjE) (rule that)
  with published_state_is_validated [OF r(1)] show ?thesis
    by (auto simp: example_publisher_def)
qed

theorem cached_response_is_coherent_witness:
  "\<exists>st ts c last_poll. publisher_runs example_encode example_publisher 4 (st, ts) \<and>
     st_cached st = Some c \<and>
     example_encode \<lparr> sr_source = (summary_from_state example_publisher st)\<lparr>ss_last_poll := last_poll\<rparr>,
       sr_snapshot = st_latest st \<rparr> = Some (cr_body c)"
proof -
  obtain st ts c where r: "publisher_runs example_encode example_publisher 4 (st, ts)" "st_cached st = Some c"
    using example_run by (elim exE conjE) (rule that)
  with cached_response_is_coherent [OF r(1)] show ?thesis by auto
qed

theorem etag_identifies_response_witness:
  "\<exists>st ts st' c c'. publisher_runs example_encode example_publisher 4 (st, ts) \<and>
     publisher_reaches example_encode example_publisher (st, ts) 1 (st', ts) \<and>
     st_last_poll st' = Some 9 \<and> st_cached st = Some c \<and> st_cached st' = Some c' \<and>
     cr_etag c = cr_etag c' \<and> cr_body c = cr_body c'"
proof -
  obtain st ts latest where r: "publisher_runs example_encode example_publisher 4 (st, ts)"
    "st_cached st = Some \<lparr> cr_body = [0x7b, 0x7d], cr_etag = Some (etag_of example_publisher 1 latest) \<rparr>"
    using example_run by (elim exE conjE) (rule that)
  let ?st = "record_poll_started 9 st"
  have p: "publisher_reaches example_encode example_publisher (st, ts) 1 (?st, ts)"
    using publisher_reaches.step [OF publisher_reaches.initial publisher_step.poll] by simp
  have c: "st_cached ?st = st_cached st" "st_last_poll ?st = Some 9" by (simp_all add: record_poll_started_def)
  with etag_identifies_response [OF r(1) p, of _ _ "etag_of example_publisher 1 latest"] r p
  show ?thesis by fastforce
qed

theorem detail_matches_snapshot_witness:
  "\<exists>st ts. publisher_runs example_encode example_publisher 4 (st, ts) \<and>
     transaction_detail example_publisher st ''cc'' = NotPresent \<and>
     transaction_detail example_publisher st ''aa'' \<noteq> NotPresent"
proof -
  obtain st ts latest where r: "publisher_runs example_encode example_publisher 4 (st, ts)"
    "st_latest st = Some latest" "map me_txid (transactions latest) = [''aa'', ''bb'']"
    using example_run by (elim exE conjE) (rule that)
  have keys: "me_txid ` set (transactions latest) = {''aa'', ''bb''}"
    using arg_cong [OF r(3), of set] by simp
  have "transaction_detail example_publisher st t = NotPresent \<longleftrightarrow> t \<notin> me_txid ` set (transactions latest)" for t
    using detail_matches_snapshot [OF r(1) _ r(2), of t] by simp
  with r(1) show ?thesis by (auto simp: keys intro!: exI [of _ st] exI [of _ ts])
qed

end
