(* ===== verification/Pipeline.thy ===== *)
theory Pipeline
  imports Pending_Waves Publisher_Props
begin

text \<open>
  The coordinator of \<^verbatim>\<open>src/classification.rs\<close>: the generations of membership, the work each keeps,
  the auxiliary caches they share, and the installation of a snapshot as the next generation. Generation
  ids increase strictly, so comparing them is comparing the \<^verbatim>\<open>Arc\<close> pointers of the code.
\<close>

section \<open>State\<close>

record classification_work =
  wk_classifications :: "(string, cached_classification) btree"
  wk_outputs :: "(txid, cached_outputs) btree"
  wk_attempted :: "string bset"
  wk_raw_retry_used :: "string bset"
  wk_pending :: "pending_slice option"
  wk_output_bytes :: nat
  wk_revision :: u64

definition work_default :: classification_work where
  "work_default = \<lparr> wk_classifications = [], wk_outputs = [], wk_attempted = [], wk_raw_retry_used = [],
     wk_pending = None, wk_output_bytes = 0, wk_revision = 0 \<rparr>"

record generation =
  cg_id :: u64
  cg_membership :: mempool_snapshot
  cg_variants :: "(txid, current_variant) btree"
  cg_work :: classification_work

record coordinator =
  cd_next_generation :: u64
  cd_current :: "generation option"
  cd_cache :: confirmed_cache

definition coordinator_new :: "nat \<Rightarrow> coordinator" where
  "coordinator_new maximum_cache_bytes =
     \<lparr> cd_next_generation = 0, cd_current = None, cd_cache = cache_new maximum_cache_bytes \<rparr>"

section \<open>Operations\<close>

text \<open>The outputs of a mempool transaction enter the cache by taking room from the confirmed scripts.\<close>

definition insert_outputs ::
    "nat \<Rightarrow> txid \<times> cached_outputs \<Rightarrow> classification_work \<times> confirmed_cache \<Rightarrow>
     classification_work \<times> confirmed_cache" where
  "insert_outputs maximum = (\<lambda>(txid, outputs) (work, cache).
     (let replaced_bytes = (case bt_get (wk_outputs work) txid of
            None \<Rightarrow> 0 | Some existing \<Rightarrow> co_estimated_bytes existing);
          base = sat_sub (wk_output_bytes work) replaced_bytes
      in case checked_add base (co_estimated_bytes outputs) of
           None \<Rightarrow> (work, cache)
         | Some new_total \<Rightarrow>
             if maximum < new_total then (work, cache)
             else (work\<lparr>wk_output_bytes := new_total,
                     wk_outputs := bt_insert txid outputs (wk_outputs work)\<rparr>,
                   reserve_for_outputs new_total cache)))"

fun membership_variants ::
    "txid_codec \<Rightarrow> mempool_entry list \<Rightarrow> (txid, current_variant) btree \<Rightarrow>
     classification_error + (txid, current_variant) btree" where
  "membership_variants codec [] m = Inr m"
| "membership_variants codec (entry # entries) m =
     (case parse_txid codec (me_txid entry) of
        None \<Rightarrow> Inl (InvalidMembershipTxid (me_txid entry))
      | Some txid \<Rightarrow> membership_variants codec entries
          (bt_insert txid \<lparr> cv_wtxid = me_wtxid entry, cv_vsize = me_vsize entry \<rparr> m))"

text \<open>
  What one entry carries over from the previous generation's work: its exact classification, into
  the new work and the handoff, and its outputs.
\<close>

record carried =
  cr_classifications :: "(string, cached_classification) btree"
  cr_handoff :: transaction_classifications
  cr_outputs :: "(txid \<times> cached_outputs) list"

definition carry_classification :: "classification_work \<Rightarrow> mempool_entry \<Rightarrow> carried \<Rightarrow> carried" where
  "carry_classification previous entry c =
     (case bt_get (wk_classifications previous) (me_wtxid entry) of
        Some cached \<Rightarrow>
          if tc_txid (cc_classification cached) = me_txid entry
          then c\<lparr>cr_classifications := bt_insert (me_wtxid entry) cached (cr_classifications c),
                 cr_handoff := bt_insert (me_txid entry) (cc_classification cached) (cr_handoff c)\<rparr>
          else c
      | None \<Rightarrow> c)"

definition carry_outputs :: "txid_codec \<Rightarrow> classification_work \<Rightarrow> mempool_entry \<Rightarrow> carried \<Rightarrow> carried" where
  "carry_outputs codec previous entry c =
     (case parse_txid codec (me_txid entry) of
        None \<Rightarrow> c
      | Some txid \<Rightarrow> (case bt_get (wk_outputs previous) txid of
          Some outputs \<Rightarrow>
            if co_wtxid outputs = me_wtxid entry then c\<lparr>cr_outputs := cr_outputs c @ [(txid, outputs)]\<rparr> else c
        | None \<Rightarrow> c))"

definition carry_over ::
    "txid_codec \<Rightarrow> classification_work \<Rightarrow> mempool_entry list \<Rightarrow> carried" where
  "carry_over codec previous entries =
     fold (\<lambda>entry. carry_outputs codec previous entry \<circ> carry_classification previous entry) entries
       \<lparr> cr_classifications = [], cr_handoff = [], cr_outputs = [] \<rparr>"

text \<open>\<^verbatim>\<open>is_none_or(|cached| cached.retryable)\<close>.\<close>

definition unsettled :: "classification_work \<Rightarrow> mempool_entry \<Rightarrow> bool" where
  "unsettled work entry = (case bt_get (wk_classifications work) (me_wtxid entry) of
     None \<Rightarrow> True | Some cached \<Rightarrow> cc_retryable cached)"

definition install_generation ::
    "txid_codec \<Rightarrow> nat \<Rightarrow> mempool_snapshot \<Rightarrow> (txid, current_variant) btree \<Rightarrow> u64 \<Rightarrow> coordinator \<Rightarrow>
     generation_start \<times> coordinator" where
  "install_generation codec maximum membership variants gid cd =
     (let carried = (case cd_current cd of
            None \<Rightarrow> \<lparr> cr_classifications = [], cr_handoff = [], cr_outputs = [] \<rparr>
          | Some previous \<Rightarrow> carry_over codec (cg_work previous) (transactions membership));
          work = work_default\<lparr>wk_classifications := cr_classifications carried\<rparr>;
          (work, cache) = fold (insert_outputs maximum) (cr_outputs carried) (work, cd_cache cd)
      in (\<lparr> gs_generation = gid, gs_revision = 0,
            gs_has_eligible_work = list_ex (unsettled work) (transactions membership),
            gs_membership = membership, gs_classifications = cr_handoff carried \<rparr>,
          \<lparr> cd_next_generation = gid,
            cd_current = Some \<lparr> cg_id = gid, cg_membership = membership, cg_variants = variants,
              cg_work = work \<rparr>,
            cd_cache = cache \<rparr>))"

definition install_snapshot ::
    "txid_codec \<Rightarrow> classification_limits \<Rightarrow> mempool_snapshot \<Rightarrow> coordinator \<Rightarrow>
     classification_error + generation_start \<times> coordinator" where
  "install_snapshot codec lim membership cd =
     (case membership_variants codec (transactions membership) [] of
        Inl e \<Rightarrow> Inl e
      | Inr variants \<Rightarrow>
          (case checked_add64 (cd_next_generation cd) 1 of
             None \<Rightarrow> Inl GenerationOverflow
           | Some gid \<Rightarrow> Inr (install_generation codec (max_auxiliary_cache_bytes lim) membership
               variants gid cd)))"

section \<open>The invariant of the coordinator\<close>

text \<open>Cached classifications are valid records of their variant.\<close>

definition classified_ok :: "(string, cached_classification) btree \<Rightarrow> bool" where
  "classified_ok m \<longleftrightarrow> bt_ok m \<and> (\<forall>(wtxid, cached) \<in> set m. tc_wtxid (cc_classification cached) = wtxid \<and>
     validate_classification (cc_classification cached) = Inr ())"

text \<open>The two auxiliary caches share one limit, and their byte counts are what they hold.\<close>

definition caches_ok :: "nat \<Rightarrow> classification_work \<times> confirmed_cache \<Rightarrow> bool" where
  "caches_ok maximum = (\<lambda>(work, cache). cache_ok cache \<and> cc_maximum cache = maximum \<and>
     bt_ok (wk_outputs work) \<and> wk_output_bytes work = bt_weight co_estimated_bytes (wk_outputs work) \<and>
     wk_output_bytes work + cc_bytes cache \<le> maximum)"

definition coordinator_ok :: "nat \<Rightarrow> coordinator \<Rightarrow> bool" where
  "coordinator_ok maximum cd \<longleftrightarrow> (case cd_current cd of
     None \<Rightarrow> caches_ok maximum (work_default, cd_cache cd)
   | Some g \<Rightarrow> cg_id g = cd_next_generation cd \<and> caches_ok maximum (cg_work g, cd_cache cd) \<and>
       classified_ok (wk_classifications (cg_work g)))"

lemma bt_weight_insert:
  assumes "bt_ok m"
  shows "bt_weight f (bt_insert k v m) + (case bt_get m k of None \<Rightarrow> 0 | Some u \<Rightarrow> f u) = f v + bt_weight f m"
proof (cases "bt_get m k")
  case None
  then show ?thesis using assms by (simp add: bt_insert_fresh_weight)
next
  case (Some u)
  then have "bt_insert k v m = bt_modify k (\<lambda>_. v) m"
    using assms by (intro bt_insert_existing) (auto simp: bt_contains_def)
  with Some show ?thesis using bt_weight_modify [OF assms Some, of f "\<lambda>_. v"] by simp
qed

lemma insert_outputs_ok:
  assumes "caches_ok maximum wc"
  shows "caches_ok maximum (insert_outputs maximum e wc)"
    "wk_classifications (fst (insert_outputs maximum e wc)) = wk_classifications (fst wc)"
proof -
  obtain txid outputs where e: "e = (txid, outputs)" by (cases e)
  obtain work cache where wc: "wc = (work, cache)" by (cases wc)
  let ?old = "case bt_get (wk_outputs work) txid of None \<Rightarrow> 0 | Some existing \<Rightarrow> co_estimated_bytes existing"
  let ?new = "wk_output_bytes work - ?old + co_estimated_bytes outputs"
  have ok: "cache_ok cache" "cc_maximum cache = maximum" "bt_ok (wk_outputs work)"
    "wk_output_bytes work = bt_weight co_estimated_bytes (wk_outputs work)"
    using assms by (simp_all add: caches_ok_def wc)
  show "wk_classifications (fst (insert_outputs maximum e wc)) = wk_classifications (fst wc)"
    by (auto simp: insert_outputs_def e wc Let_def split: option.splits)
  have weight: "bt_weight co_estimated_bytes (bt_insert txid outputs (wk_outputs work)) = ?new"
    using bt_weight_insert [OF ok(3), of co_estimated_bytes txid outputs] ok(4)
      bt_weight_remove [OF ok(3), of co_estimated_bytes txid] by (auto split: option.splits)
  define new where "new = ?new"
  have eq: "insert_outputs maximum e wc = (if new \<le> usize_max \<and> new \<le> maximum
      then (work\<lparr>wk_output_bytes := new, wk_outputs := bt_insert txid outputs (wk_outputs work)\<rparr>,
        reserve_for_outputs new cache) else wc)"
    by (simp add: insert_outputs_def e wc Let_def sat_sub_def checked_add_def new_def)
  have "new \<le> maximum \<longrightarrow> new + cc_bytes (reserve_for_outputs new cache) \<le> maximum"
    using reserve_bytes [OF ok(1), of new] ok(2) by linarith
  then show "caches_ok maximum (insert_outputs maximum e wc)"
    using assms reserve_spec [OF ok(1), of new] ok(2,3) weight [folded new_def] unfolding eq
    by (simp add: caches_ok_def bt_ok_insert)
qed

lemma insert_outputs_fold_ok:
  "caches_ok maximum wc \<Longrightarrow> caches_ok maximum (fold (insert_outputs maximum) es wc) \<and>
     wk_classifications (fst (fold (insert_outputs maximum) es wc)) = wk_classifications (fst wc)"
  by (induction es arbitrary: wc) (auto simp: insert_outputs_ok)

section \<open>The handoff\<close>

lemma bt_of_list_snoc: "bt_of_list (xs @ [(k, v)]) = bt_insert k v (bt_of_list xs)"
  by (simp add: bt_of_list_def)

lemma map_filter_snoc:
  "List.map_filter f (xs @ [x]) = List.map_filter f xs @ (case f x of None \<Rightarrow> [] | Some y \<Rightarrow> [y])"
  by (simp add: List.map_filter_def split: option.splits)

lemma bt_get_of_map_filter:
  "distinct (map f es) \<Longrightarrow> bt_get (bt_of_list (List.map_filter (\<lambda>e. map_option (Pair (f e)) (h e)) es)) k =
     (case find (\<lambda>e. f e = k) es of Some e \<Rightarrow> h e | None \<Rightarrow> None)"
proof (induction es rule: rev_induct)
  case Nil
  then show ?case by (simp add: bt_of_list_def List.map_filter_def)
next
  case (snoc e es)
  have split: "find (\<lambda>x. f x = k) (es @ [e]) =
      (case find (\<lambda>x. f x = k) es of Some y \<Rightarrow> Some y | None \<Rightarrow> if f e = k then Some e else None)"
    by (induction es) auto
  have new: "find (\<lambda>x. f x = k) es = None" if "f e = k"
    using snoc.prems that by (auto simp: find_None_iff image_iff)
  show ?case
  proof (cases "h e")
    case None
    then show ?thesis
      using snoc new by (auto simp: map_filter_snoc split split: option.splits)
  next
    case (Some v)
    then show ?thesis
      using snoc new by (auto simp: map_filter_snoc bt_of_list_snoc bt_get_insert bt_ok_of_list split
          split: option.splits)
  qed
qed

text \<open>The record the previous generation holds for exactly this entry.\<close>

definition previous_record :: "classification_work \<Rightarrow> mempool_entry \<Rightarrow> cached_classification option" where
  "previous_record previous entry =
     (case bt_get (wk_classifications previous) (me_wtxid entry) of
        Some cached \<Rightarrow> if tc_txid (cc_classification cached) = me_txid entry then Some cached else None
      | None \<Rightarrow> None)"

definition current_record :: "coordinator \<Rightarrow> mempool_entry \<Rightarrow> cached_classification option" where
  "current_record cd entry = (case cd_current cd of
     None \<Rightarrow> None | Some g \<Rightarrow> previous_record (cg_work g) entry)"

lemma carry_over_spec:
  "cr_handoff (carry_over codec previous entries) = bt_of_list (List.map_filter
     (\<lambda>e. map_option (Pair (me_txid e)) (map_option cc_classification (previous_record previous e))) entries)"
  "cr_classifications (carry_over codec previous entries) = bt_of_list (List.map_filter
     (\<lambda>e. map_option (Pair (me_wtxid e)) (previous_record previous e)) entries)"
proof (induction entries rule: rev_induct)
  case Nil
  { case 1 then show ?case by (simp add: carry_over_def bt_of_list_def List.map_filter_def)
  next case 2 then show ?case by (simp add: carry_over_def bt_of_list_def List.map_filter_def) }
next
  case (snoc e es)
  have step: "carry_over codec previous (es @ [e]) =
      carry_outputs codec previous e (carry_classification previous e (carry_over codec previous es))"
    by (simp add: carry_over_def)
  have out: "cr_handoff (carry_outputs codec previous e c) = cr_handoff c"
    "cr_classifications (carry_outputs codec previous e c) = cr_classifications c" for c
    by (simp_all add: carry_outputs_def split: option.splits)
  { case 1
    show ?case using snoc.IH(1)
      by (simp add: step out map_filter_snoc bt_of_list_snoc carry_classification_def previous_record_def
          split: option.splits)
  next case 2
    show ?case using snoc.IH(2)
      by (simp add: step out map_filter_snoc bt_of_list_snoc carry_classification_def previous_record_def
          split: option.splits) }
qed

lemma set_bt_of_list: "set (bt_of_list xs) \<subseteq> set xs"
proof (induction xs rule: rev_induct)
  case Nil
  then show ?case by (simp add: bt_of_list_def)
next
  case (snoc x xs)
  then show ?case by (cases x) (auto simp: bt_of_list_snoc set_bt_insert bt_ok_of_list)
qed

lemma classified_ok_carried:
  assumes "classified_ok (wk_classifications previous)"
  shows "classified_ok (cr_classifications (carry_over codec previous entries))"
proof -
  have "tc_wtxid (cc_classification c) = k \<and> validate_classification (cc_classification c) = Inr ()"
    if kc: "(k, c) \<in> set (cr_classifications (carry_over codec previous entries))" for k c
  proof -
    have "(k, c) \<in> set (List.map_filter (\<lambda>e. map_option (Pair (me_wtxid e)) (previous_record previous e)) entries)"
      using kc set_bt_of_list unfolding carry_over_spec by fast
    then obtain e where "me_wtxid e = k" "previous_record previous e = Some c"
      by (auto simp: List.map_filter_def)
    then have "(k, c) \<in> set (wk_classifications previous)"
      using assms by (auto simp: previous_record_def classified_ok_def bt_get_iff split: option.splits if_splits)
    then show ?thesis using assms by (auto simp: classified_ok_def)
  qed
  then show ?thesis by (auto simp: classified_ok_def carry_over_spec(2) bt_ok_of_list)
qed

lemma install_work:
  assumes "coordinator_ok maximum cd"
  shows "coordinator_ok maximum (snd (install_generation codec maximum membership variants gid cd))"
    "gs_classifications (fst (install_generation codec maximum membership variants gid cd)) =
       bt_of_list (List.map_filter (\<lambda>e. map_option (Pair (me_txid e))
         (map_option cc_classification (current_record cd e))) (transactions membership))"
    "unsettled (cg_work (the (cd_current (snd (install_generation codec maximum membership variants gid cd))))) =
     unsettled (work_default\<lparr>wk_classifications := bt_of_list (List.map_filter
         (\<lambda>e. map_option (Pair (me_wtxid e)) (current_record cd e)) (transactions membership))\<rparr>)"
proof -
  define carried where "carried = (case cd_current cd of
      None \<Rightarrow> \<lparr> cr_classifications = [], cr_handoff = [], cr_outputs = [] \<rparr>
    | Some previous \<Rightarrow> carry_over codec (cg_work previous) (transactions membership))"
  define work where "work = work_default\<lparr>wk_classifications := cr_classifications carried\<rparr>"
  define wc where "wc = fold (insert_outputs maximum) (cr_outputs carried) (work, cd_cache cd)"
  have inst: "install_generation codec maximum membership variants gid cd =
      (\<lparr> gs_generation = gid, gs_revision = 0,
         gs_has_eligible_work = list_ex (unsettled (fst wc)) (transactions membership),
         gs_membership = membership, gs_classifications = cr_handoff carried \<rparr>,
       \<lparr> cd_next_generation = gid, cd_current = Some \<lparr> cg_id = gid, cg_membership = membership,
           cg_variants = variants, cg_work = fst wc \<rparr>, cd_cache = snd wc \<rparr>)"
    by (simp add: install_generation_def carried_def [symmetric] work_def [symmetric] wc_def [symmetric]
        case_prod_unfold Let_def)
  have "caches_ok maximum (work, cd_cache cd)"
    using assms by (auto simp: coordinator_ok_def caches_ok_def work_def work_default_def bt_ok_def
        split: option.splits)
  from insert_outputs_fold_ok [OF this, of "cr_outputs carried"]
  have ok: "caches_ok maximum wc" and cls: "wk_classifications (fst wc) = cr_classifications carried"
    by (simp_all add: wc_def work_def)
  have spec: "cr_handoff carried = bt_of_list (List.map_filter (\<lambda>e. map_option (Pair (me_txid e))
        (map_option cc_classification (current_record cd e))) (transactions membership))"
    "cr_classifications carried = bt_of_list (List.map_filter (\<lambda>e. map_option (Pair (me_wtxid e))
        (current_record cd e)) (transactions membership))"
    by (cases "cd_current cd"; simp add: carried_def carry_over_spec current_record_def bt_of_list_def
        List.map_filter_def)+
  have "classified_ok (cr_classifications carried)"
  proof (cases "cd_current cd")
    case None
    then show ?thesis by (simp add: carried_def classified_ok_def bt_ok_def)
  next
    case (Some g)
    then show ?thesis
      using assms classified_ok_carried by (simp add: carried_def coordinator_ok_def)
  qed
  then show "coordinator_ok maximum (snd (install_generation codec maximum membership variants gid cd))"
    using ok cls by (cases wc) (simp add: inst coordinator_ok_def)
  show "gs_classifications (fst (install_generation codec maximum membership variants gid cd)) =
       bt_of_list (List.map_filter (\<lambda>e. map_option (Pair (me_txid e))
         (map_option cc_classification (current_record cd e))) (transactions membership))"
    by (simp add: inst spec)
  show "unsettled (cg_work (the (cd_current (snd (install_generation codec maximum membership variants gid cd))))) =
     unsettled (work_default\<lparr>wk_classifications := bt_of_list (List.map_filter
         (\<lambda>e. map_option (Pair (me_wtxid e)) (current_record cd e)) (transactions membership))\<rparr>)"
    by (simp add: inst unsettled_def cls spec fun_eq_iff)
qed

section \<open>Properties of an installation\<close>

lemma install_snapshot_Inr:
  "install_snapshot codec lim membership cd = Inr r \<longleftrightarrow>
     (\<exists>variants. membership_variants codec (transactions membership) [] = Inr variants \<and>
        unat (cd_next_generation cd) + 1 < 2 ^ 64 \<and>
        r = install_generation codec (max_auxiliary_cache_bytes lim) membership variants
              (cd_next_generation cd + 1) cd)"
  by (auto simp: install_snapshot_def checked_add64_def split: sum.splits option.splits)

lemma install_generation_ids:
  "gs_generation (fst (install_generation codec maximum membership variants gid cd)) = gid"
  "gs_revision (fst (install_generation codec maximum membership variants gid cd)) = 0"
  "gs_membership (fst (install_generation codec maximum membership variants gid cd)) = membership"
  "cd_next_generation (snd (install_generation codec maximum membership variants gid cd)) = gid"
  "gs_has_eligible_work (fst (install_generation codec maximum membership variants gid cd)) =
     list_ex (unsettled (cg_work (the (cd_current (snd (install_generation codec maximum membership
       variants gid cd)))))) (transactions membership)"
  by (simp_all add: install_generation_def Let_def case_prod_unfold)

lemma distinct_txids: "snapshot_ok m \<Longrightarrow> distinct (map me_txid (transactions m))"
  by (simp add: snapshot_ok_def strict_sorted_iff)

lemma find_by_key:
  "distinct (map f es) \<Longrightarrow> e \<in> set es \<Longrightarrow> find (\<lambda>x. f x = f e) es = Some e"
  by (induction es) (auto simp: image_iff)

text \<open>
  Installing a snapshot starts the next generation (ids never wrap) and hands over, for each
  entry, exactly the record the previous generation held for its witness variant and transaction;
  the coordinator stays consistent, its two caches together within the auxiliary limit, and with
  distinct variants there is eligible work exactly when some entry has no final record.
\<close>

theorem install_hands_over_exact_records:
  assumes "coordinator_ok (max_auxiliary_cache_bytes lim) cd" "snapshot_ok membership"
    "install_snapshot codec lim membership cd = Inr (gs, cd')"
  shows "unat (gs_generation gs) = unat (cd_next_generation cd) + 1 \<and> gs_revision gs = 0 \<and>
    coordinator_ok (max_auxiliary_cache_bytes lim) cd' \<and>
    (\<forall>txid. bt_get (gs_classifications gs) txid =
       (case find (\<lambda>e. me_txid e = txid) (transactions membership) of
          Some e \<Rightarrow> map_option cc_classification (current_record cd e) | None \<Rightarrow> None)) \<and>
    (distinct (map me_wtxid (transactions membership)) \<longrightarrow>
      gs_has_eligible_work gs = list_ex (\<lambda>e. case current_record cd e of
        None \<Rightarrow> True | Some cached \<Rightarrow> cc_retryable cached) (transactions membership))"
proof -
  let ?max = "max_auxiliary_cache_bytes lim" and ?gid = "cd_next_generation cd + 1"
  obtain variants where gid: "unat (cd_next_generation cd) + 1 < 2 ^ 64"
    and r: "(gs, cd') = install_generation codec ?max membership variants ?gid cd"
    using assms(3) by (auto simp: install_snapshot_Inr)
  have gs: "gs = fst (install_generation codec ?max membership variants ?gid cd)"
    and cd': "cd' = snd (install_generation codec ?max membership variants ?gid cd)"
    by (simp_all flip: r)
  note work = install_work [OF assms(1), of codec membership variants ?gid]
  have "unat ?gid = unat (cd_next_generation cd) + 1"
    using gid by (simp add: unat_word_ariths)
  moreover have "gs_has_eligible_work gs = list_ex (\<lambda>e. case current_record cd e of
        None \<Rightarrow> True | Some cached \<Rightarrow> cc_retryable cached) (transactions membership)"
    if d: "distinct (map me_wtxid (transactions membership))"
  proof -
    have "unsettled (cg_work (the (cd_current cd'))) e = (case current_record cd e of
        None \<Rightarrow> True | Some cached \<Rightarrow> cc_retryable cached)" if "e \<in> set (transactions membership)" for e
      unfolding cd' work(3) unsettled_def
      by (simp add: bt_get_of_map_filter [OF d] find_by_key [OF d that])
    then show ?thesis unfolding gs cd' install_generation_ids by (simp add: list_ex_iff)
  qed
  moreover have "\<forall>txid. bt_get (gs_classifications gs) txid =
       (case find (\<lambda>e. me_txid e = txid) (transactions membership) of
          Some e \<Rightarrow> map_option cc_classification (current_record cd e) | None \<Rightarrow> None)"
    unfolding gs work(2) by (intro allI bt_get_of_map_filter [OF distinct_txids [OF assms(2)]])
  ultimately show ?thesis
    using work(1) gs cd' install_generation_ids by metis
qed

section \<open>What the publisher shows of a generation\<close>

text \<open>
  The published records are exactly the generation's, one for each entry whose witness variant and
  transaction it has classified.
\<close>

definition mirrors :: "mempool_entry list \<Rightarrow> classification_work \<Rightarrow> transaction_classifications \<Rightarrow> bool" where
  "mirrors entries work cls \<longleftrightarrow> bt_ok cls \<and> (\<forall>txid. bt_get cls txid =
     (case find (\<lambda>e. me_txid e = txid) entries of
        Some e \<Rightarrow> map_option cc_classification (previous_record work e) | None \<Rightarrow> None))"

lemma mirrors_record:
  assumes "classified_ok (wk_classifications work)" "previous_record work e = Some cached"
  shows "tc_txid (cc_classification cached) = me_txid e \<and> tc_wtxid (cc_classification cached) = me_wtxid e \<and>
    validate_classification (cc_classification cached) = Inr ()"
proof -
  have "(me_wtxid e, cached) \<in> set (wk_classifications work)" "tc_txid (cc_classification cached) = me_txid e"
    using assms by (auto simp: previous_record_def classified_ok_def bt_get_iff split: option.splits if_splits)
  with assms(1) show ?thesis by (auto simp: classified_ok_def)
qed

lemma mirrors_entry:
  assumes "mirrors entries work cls" "bt_get cls k = Some c"
  shows "\<exists>e cached. e \<in> set entries \<and> me_txid e = k \<and> previous_record work e = Some cached \<and>
    c = cc_classification cached"
proof -
  obtain e cached where "find (\<lambda>e. me_txid e = k) entries = Some e" "previous_record work e = Some cached"
    "c = cc_classification cached"
    using assms by (auto simp: mirrors_def split: option.splits)
  moreover from this(1) have "e \<in> set entries \<and> me_txid e = k" by (auto simp: find_Some_iff)
  ultimately show ?thesis by blast
qed

lemma mirrors_prepared:
  assumes "snapshot_ok m" "classified_ok (wk_classifications work)" "mirrors (transactions m) work cls"
    "json_safe revision"
  shows "\<exists>prepared. prepare_observation m revision cls = Inr prepared \<and> po_classifications prepared = cls"
    and "length cls \<le> length (transactions m)"
proof -
  let ?txs = "transactions m"
  note d = distinct_txids [OF assms(1)]
  have ok: "bt_ok cls" using assms(3) by (simp add: mirrors_def)
  have same: "retained m cls = cls"
  proof (rule bt_ext)
    fix k
    have get: "bt_get cls (me_txid e) = map_option cc_classification (previous_record work e)"
      if "e \<in> set ?txs" for e
      using assms(3) find_by_key [OF d that] by (simp add: mirrors_def)
    have "record_for cls e = bt_get cls (me_txid e)" if "e \<in> set ?txs" for e
      using get [OF that] mirrors_record [OF assms(2), of e]
      by (cases "previous_record work e") (auto simp: record_for_def)
    moreover have "e \<in> set ?txs \<and> me_txid e = k" if "find (\<lambda>e. me_txid e = k) ?txs = Some e" for e
      using that by (auto simp: find_Some_iff)
    ultimately have "record_for cls e = bt_get cls k" if "find (\<lambda>e. me_txid e = k) ?txs = Some e" for e
      using that by blast
    moreover have "bt_get cls k = None" if "find (\<lambda>e. me_txid e = k) ?txs = None"
      using that assms(3) by (simp add: mirrors_def)
    ultimately show "bt_get (retained m cls) k = bt_get cls k"
      unfolding retained_get [OF d] by (simp split: option.splits)
  qed (simp_all add: ok)
  have "list_all (\<lambda>(k, c). validate_classification c = Inr ()) cls"
    using mirrors_entry [OF assms(3)] mirrors_record [OF assms(2)] ok
    by (fastforce simp: list_all_iff bt_get_iff [symmetric])
  then obtain obs where "materialize m revision cls = Inr obs" "ob_classifications obs = cls"
    using materialize_result [OF assms(1,4), of cls] same by auto
  then show "\<exists>prepared. prepare_observation m revision cls = Inr prepared \<and> po_classifications prepared = cls"
    by (auto simp: prepare_observation_def materialize_def same)
  have "set (bt_keys cls) \<subseteq> set (map me_txid ?txs)"
    using mirrors_entry [OF assms(3)] ok by (fastforce simp: bt_get_iff [symmetric])
  then have "card (set (bt_keys cls)) \<le> card (set (map me_txid ?txs))" by (rule card_mono [rotated]) simp
  also have "\<dots> \<le> length (map me_txid ?txs)" by (rule card_length)
  finally show "length cls \<le> length ?txs"
    using distinct_card [OF bt_ok_distinct [OF ok]] by simp
qed

text \<open>
  Whatever was classified before, the handoff of an installation is one the publisher of the
  same source accepts: it either waits to commit the prepared observation or is superseded, and is
  never refused with an error.
\<close>

theorem installed_generation_is_publishable:
  assumes "coordinator_ok (max_auxiliary_cache_bytes lim) cd" "snapshot_ok membership"
    "install_snapshot codec lim membership cd = Inr (gs, cd')"
    "source_id membership = pb_source_id pb"
  shows "membership_start pb gs st = Finished (Inr False) \<or>
    (\<exists>prepared. po_classifications prepared = gs_classifications gs \<and>
       membership_start pb gs st = MembershipLoop gs prepared
         (if gs_has_eligible_work gs then Classifying else ClassificationComplete))"
proof -
  let ?max = "max_auxiliary_cache_bytes lim" and ?txs = "transactions membership"
  obtain variants where "(gs, cd') = install_generation codec ?max membership variants
      (cd_next_generation cd + 1) cd"
    using assms(3) by (auto simp: install_snapshot_Inr)
  then have gs: "gs = fst (install_generation codec ?max membership variants (cd_next_generation cd + 1) cd)"
    by (metis fst_conv)
  let ?work = "case cd_current cd of None \<Rightarrow> work_default | Some g \<Rightarrow> cg_work g"
  have rec: "current_record cd e = previous_record ?work e" for e
    by (simp add: current_record_def previous_record_def work_default_def split: option.splits)
  have ok: "classified_ok (wk_classifications ?work)"
    using assms(1) by (auto simp: coordinator_ok_def classified_ok_def work_default_def bt_ok_def split: option.splits)
  have "mirrors ?txs ?work (gs_classifications gs)"
    unfolding mirrors_def gs install_work(2) [OF assms(1)] rec
    by (intro conjI allI bt_ok_of_list bt_get_of_map_filter distinct_txids assms(2))
  from mirrors_prepared [OF assms(2) ok this, of 0]
  obtain prepared where "prepare_observation membership 0 (gs_classifications gs) = Inr prepared"
    "po_classifications prepared = gs_classifications gs" "length (gs_classifications gs) \<le> length ?txs"
    by (auto simp: json_safe_def)
  moreover have "gs_membership gs = membership" "gs_revision gs = 0"
    by (simp_all add: gs install_generation_ids)
  ultimately show ?thesis
    using assms(4) by (auto simp: membership_start_def)
qed

end
