(* ===== verification/Slice.thy ===== *)
theory Slice
  imports Pipeline
begin

text \<open>
  One classification slice of \<^verbatim>\<open>src/classification.rs\<close>, \<^verbatim>\<open>classify_next_for_generation\<close>, from taking the
  pending work to the commit. The driver lock makes the slice the only user of its generation's work
  and of the confirmed cache until a new snapshot supersedes the generation, so the slice is a
  function of the state it took, of the node's answers and of the outcomes of its checks that the
  generation is still current. A slice that finds itself superseded stops; what it changed in
  the work of the superseded generation is never read again.
\<close>

section \<open>State\<close>

record ('k, 'v) fetch =
  cf_values :: "('k \<times> 'v rpc_value) list"
  cf_response_failures :: nat
  cf_systemic_response_failures :: nat
  cf_missing_responses :: nat
  cf_all_missing_batches :: nat
  cf_batch_failures :: nat
  cf_response_bytes :: nat

record advance =
  ad_attempted :: nat
  ad_fact_requests :: nat
  ad_facts_resolved :: nat
  ad_facts_missing :: nat
  ad_capacity_deferred :: nat
  ad_deferred_candidates :: nat
  ad_classifications :: "cached_classification list"
  ad_outputs :: "(txid, cached_outputs) btree"
  ad_confirmed_scripts :: "(out_point, bytes) btree"
  ad_response_failures :: nat
  ad_systemic_response_failures :: nat
  ad_missing_responses :: nat
  ad_all_missing_batches :: nat
  ad_batch_failures :: nat
  ad_response_bytes :: nat

definition advance_default :: advance where
  "advance_default = \<lparr> ad_attempted = 0, ad_fact_requests = 0, ad_facts_resolved = 0,
     ad_facts_missing = 0, ad_capacity_deferred = 0, ad_deferred_candidates = 0,
     ad_classifications = [], ad_outputs = [], ad_confirmed_scripts = [], ad_response_failures = 0,
     ad_systemic_response_failures = 0, ad_missing_responses = 0, ad_all_missing_batches = 0,
     ad_batch_failures = 0, ad_response_bytes = 0 \<rparr>"

datatype disposition = Continue | CompleteSlice | Paused | StaleSlice

record slice_report =
  rp_generation :: u64
  rp_attempted :: nat
  rp_newly_classified :: nat
  rp_fact_requests :: nat
  rp_facts_resolved :: nat
  rp_facts_missing :: nat
  rp_capacity_deferred :: nat
  rp_deferred_candidates :: nat
  rp_response_failures :: nat
  rp_systemic_response_failures :: nat
  rp_missing_responses :: nat
  rp_batch_failures :: nat
  rp_response_bytes :: nat
  rp_classified :: nat
  rp_remaining :: nat
  rp_complete :: bool
  rp_stale :: bool
  rp_disposition :: disposition
  rp_publication :: "revision_delta option"

definition report_waiting :: slice_report where
  "report_waiting = \<lparr> rp_generation = 0, rp_attempted = 0, rp_newly_classified = 0,
     rp_fact_requests = 0, rp_facts_resolved = 0, rp_facts_missing = 0, rp_capacity_deferred = 0,
     rp_deferred_candidates = 0, rp_response_failures = 0, rp_systemic_response_failures = 0,
     rp_missing_responses = 0, rp_batch_failures = 0, rp_response_bytes = 0, rp_classified = 0,
     rp_remaining = 0, rp_complete = True, rp_stale = False, rp_disposition = CompleteSlice,
     rp_publication = None \<rparr>"

definition report_stale_after :: "u64 \<Rightarrow> advance \<Rightarrow> slice_report" where
  "report_stale_after gid a = \<lparr> rp_generation = gid, rp_attempted = ad_attempted a, rp_newly_classified = 0,
     rp_fact_requests = ad_fact_requests a, rp_facts_resolved = ad_facts_resolved a,
     rp_facts_missing = ad_facts_missing a, rp_capacity_deferred = ad_capacity_deferred a,
     rp_deferred_candidates = ad_deferred_candidates a, rp_response_failures = ad_response_failures a,
     rp_systemic_response_failures = ad_systemic_response_failures a,
     rp_missing_responses = ad_missing_responses a, rp_batch_failures = ad_batch_failures a,
     rp_response_bytes = ad_response_bytes a, rp_classified = 0, rp_remaining = 0, rp_complete = False,
     rp_stale = True, rp_disposition = StaleSlice, rp_publication = None \<rparr>"

definition report_stale :: "u64 \<Rightarrow> slice_report" where
  "report_stale gid = \<lparr> rp_generation = gid, rp_attempted = 0, rp_newly_classified = 0,
     rp_fact_requests = 0, rp_facts_resolved = 0, rp_facts_missing = 0, rp_capacity_deferred = 0,
     rp_deferred_candidates = 0, rp_response_failures = 0, rp_systemic_response_failures = 0,
     rp_missing_responses = 0, rp_batch_failures = 0, rp_response_bytes = 0, rp_classified = 0,
     rp_remaining = 0, rp_complete = False, rp_stale = True, rp_disposition = StaleSlice,
     rp_publication = None \<rparr>"

text \<open>
  What surrounds a slice: its generation, the limits, the answers of the node to its three requests,
  and the outcome of its \<open>n\<close>-th check that the generation is current.
\<close>

record slice_env =
  en_lib :: rust_bitcoin
  en_codec :: txid_codec
  en_limits :: classification_limits
  en_resolver :: resolver_limits
  en_id :: u64
  en_entries :: "mempool_entry list"
  en_variants :: "(txid, current_variant) btree"
  en_raw :: "expected_variant list \<Rightarrow> (expected_variant, transaction) fetch"
  en_parents :: "expected_variant list \<Rightarrow> (expected_variant, transaction) fetch"
  en_confirmed :: "out_point list \<Rightarrow> (out_point, bytes) fetch"
  en_live :: "nat \<Rightarrow> bool"

record slice_state =
  sl_work :: classification_work
  sl_cache :: confirmed_cache
  sl_pending :: pending_slice
  sl_advance :: advance
  sl_paused :: bool
  sl_checks :: nat

text \<open>How a slice stops early: superseded, or at a panic of \<open>classify_ready\<close>.\<close>

datatype slice_stop = Superseded slice_state | Panicked

definition still_current :: "slice_env \<Rightarrow> slice_state \<Rightarrow> slice_stop + slice_state" where
  "still_current env s = (if en_live env (sl_checks s) then Inr (s\<lparr>sl_checks := sl_checks s + 1\<rparr>)
     else Inl (Superseded s))"

section \<open>Candidates\<close>

definition fresh_entry :: "classification_work \<Rightarrow> mempool_entry \<Rightarrow> bool" where
  "fresh_entry work entry \<longleftrightarrow> me_wtxid entry \<notin> set (wk_attempted work) \<and>
     \<not> bt_contains (wk_classifications work) (me_wtxid entry)"

definition retryable_entry :: "classification_work \<Rightarrow> mempool_entry \<Rightarrow> bool" where
  "retryable_entry work entry \<longleftrightarrow> me_wtxid entry \<notin> set (wk_attempted work) \<and>
     (case bt_get (wk_classifications work) (me_wtxid entry) of
        Some cached \<Rightarrow> cc_retryable cached | None \<Rightarrow> False)"

definition expected_of :: "mempool_entry \<Rightarrow> expected_variant" where
  "expected_of entry = \<lparr> ev_txid = me_txid entry, ev_wtxid = me_wtxid entry, ev_vsize = me_vsize entry \<rparr>"

definition select_candidates ::
    "nat \<Rightarrow> mempool_entry list \<Rightarrow> classification_work \<Rightarrow> expected_variant list \<times> classification_work" where
  "select_candidates maximum entries work =
     (let candidates = bounded_variants (map expected_of
            (filter (fresh_entry work) entries @ filter (retryable_entry work) entries)) maximum
      in (candidates, work\<lparr>wk_attempted :=
            fold (\<lambda>c. bs_insert (ev_wtxid c)) candidates (wk_attempted work)\<rparr>))"

definition absorb_counts :: "('k, 'v) fetch \<Rightarrow> advance \<Rightarrow> advance" where
  "absorb_counts f a = a\<lparr>
     ad_response_failures := ad_response_failures a + cf_response_failures f,
     ad_systemic_response_failures := ad_systemic_response_failures a + cf_systemic_response_failures f,
     ad_missing_responses := ad_missing_responses a + cf_missing_responses f,
     ad_all_missing_batches := ad_all_missing_batches a + cf_all_missing_batches f,
     ad_batch_failures := ad_batch_failures a + cf_batch_failures f,
     ad_response_bytes := ad_response_bytes a + cf_response_bytes f\<rparr>"

definition found_values :: "('k, 'v) fetch \<Rightarrow> ('k \<times> 'v) list" where
  "found_values f = List.map_filter (\<lambda>(k, value). case value of Found v \<Rightarrow> Some (k, v) | _ \<Rightarrow> None) (cf_values f)"

text \<open>A retryable variant may be attempted once more in its generation.\<close>

definition grant_retry :: "string \<Rightarrow> classification_work \<Rightarrow> classification_work" where
  "grant_retry wtxid work =
     (if wtxid \<in> set (wk_raw_retry_used work) then work
      else work\<lparr>wk_raw_retry_used := bs_insert wtxid (wk_raw_retry_used work),
                wk_attempted := bs_remove wtxid (wk_attempted work)\<rparr>)"

definition retryable_variants :: "(expected_variant, 'v) fetch \<Rightarrow> string list" where
  "retryable_variants f = List.map_filter (\<lambda>(expected, value).
     case value of RetryableFailure \<Rightarrow> Some (ev_wtxid expected) | _ \<Rightarrow> None) (cf_values f)"

definition extend_outputs ::
    "(txid, cached_outputs) btree \<Rightarrow> (txid, cached_outputs) btree \<Rightarrow> (txid, cached_outputs) btree" where
  "extend_outputs new outputs = fold (\<lambda>(txid, o'). bt_insert txid o') new outputs"

text \<open>
  What the raw answers leave: the pending slice of the transactions found, if any; the retries granted.
\<close>

definition admit_fetched ::
    "slice_env \<Rightarrow> (expected_variant, transaction) fetch \<Rightarrow> classification_work \<Rightarrow> advance \<Rightarrow>
     pending_slice option \<times> classification_work \<times> advance" where
  "admit_fetched env f work a =
     (let work = fold grant_retry (retryable_variants f) work; txs = found_values f
      in if txs = [] then (None, work, a)
         else let p = pending_new (en_lib env) (en_codec env) txs (en_variants env) (en_resolver env)
           in (Some p, work, a\<lparr>ad_outputs := extend_outputs (pd_raw_outputs p) (ad_outputs a)\<rparr>))"

section \<open>Facts\<close>

definition hydrate_slice :: "slice_env \<Rightarrow> slice_state \<Rightarrow> slice_state" where
  "hydrate_slice env s =
     (case hydrate_from_caches (en_variants env) (wk_outputs (sl_work s)) (en_resolver env)
          (sl_cache s) (sl_pending s) of
        (cache, resolved, blocked, p) \<Rightarrow> s\<lparr>sl_cache := cache, sl_pending := p,
          sl_advance := (sl_advance s)\<lparr>ad_facts_resolved := ad_facts_resolved (sl_advance s) + resolved,
            ad_capacity_deferred := ad_capacity_deferred (sl_advance s) + blocked\<rparr>\<rparr>)"

definition hydrate_transient :: "slice_env \<Rightarrow> slice_state \<Rightarrow> slice_state" where
  "hydrate_transient env s =
     (case hydrate_from_transient (ad_outputs (sl_advance s)) (ad_confirmed_scripts (sl_advance s))
          (en_resolver env) (sl_pending s) of
        (resolved, blocked, p) \<Rightarrow> s\<lparr>sl_pending := p,
          sl_advance := (sl_advance s)\<lparr>ad_facts_resolved := ad_facts_resolved (sl_advance s) + resolved,
            ad_capacity_deferred := ad_capacity_deferred (sl_advance s) + blocked\<rparr>\<rparr>)"

definition classify_slice :: "slice_env \<Rightarrow> slice_state \<Rightarrow> slice_stop + slice_state" where
  "classify_slice env s = (case classify_ready (en_lib env) (sl_pending s) of
     None \<Rightarrow> Inl Panicked
   | Some (rs, p) \<Rightarrow> Inr (s\<lparr>sl_pending := p,
       sl_advance := (sl_advance s)\<lparr>ad_classifications := ad_classifications (sl_advance s) @ rs\<rparr>\<rparr>))"

definition activate_slice :: "slice_env \<Rightarrow> slice_state \<Rightarrow> slice_state" where
  "activate_slice env s =
     s\<lparr>sl_pending := activate_waiting (en_lib env) (en_variants env) (en_resolver env) (sl_pending s)\<rparr>"

definition is_systemic :: "advance \<Rightarrow> bool" where
  "is_systemic a \<longleftrightarrow> 0 < ad_batch_failures a \<or> 0 < ad_systemic_response_failures a \<or> 0 < ad_all_missing_batches a"

definition fetch_systemic :: "('k, 'v) fetch \<Rightarrow> bool" where
  "fetch_systemic f \<longleftrightarrow> 0 < cf_batch_failures f \<or> 0 < cf_systemic_response_failures f \<or>
     0 < cf_all_missing_batches f"

section \<open>The parent wave\<close>

text \<open>The body of the loop over the answers, with the parents resolved so far.\<close>

definition apply_parent ::
    "slice_env \<Rightarrow> expected_variant \<times> transaction rpc_value \<Rightarrow> txid bset \<times> slice_state \<Rightarrow>
     txid bset \<times> slice_state" where
  "apply_parent env = (\<lambda>(expected, value) (resolved_parents, s).
     (case parse_txid (en_codec env) (ev_txid expected) of
        None \<Rightarrow> (resolved_parents, s)
      | Some parent \<Rightarrow> (case value of
          Found tx \<Rightarrow>
            (case apply_parent_transaction (en_codec env) expected tx (en_resolver env) (sl_pending s) of
               (outputs, resolved, blocked, p) \<Rightarrow> (bs_insert parent resolved_parents,
                 s\<lparr>sl_pending := p, sl_advance := (sl_advance s)\<lparr>
                     ad_outputs := bt_insert parent outputs (ad_outputs (sl_advance s)),
                     ad_facts_resolved := ad_facts_resolved (sl_advance s) + resolved,
                     ad_capacity_deferred := ad_capacity_deferred (sl_advance s) + blocked\<rparr>\<rparr>))
        | _ \<Rightarrow> (resolved_parents, s))))"

definition parent_answers ::
    "slice_env \<Rightarrow> txid bset \<Rightarrow> (expected_variant, transaction) fetch \<Rightarrow> slice_state \<Rightarrow> slice_state" where
  "parent_answers env selected f s =
     (let (resolved_parents, s) = fold (apply_parent env) (cf_values f)
            ([], s\<lparr>sl_paused := sl_paused s \<or> fetch_systemic f\<rparr>)
      in if sl_paused s then s
         else s\<lparr>sl_pending := fold fall_back_parent_to_gettxout
            (filter (\<lambda>t. t \<notin> set resolved_parents) selected) (sl_pending s)\<rparr>)"

definition parent_stage :: "slice_env \<Rightarrow> slice_state \<Rightarrow> slice_stop + slice_state" where
  "parent_stage env s =
     (let (wave, p) = (if sl_paused s then ([], sl_pending s)
            else next_parent_wave (en_codec env) (en_variants env) (en_resolver env) (sl_pending s));
          s = s\<lparr>sl_pending := p\<rparr>
      in if wave = [] then Inr s
         else let selected = bs_of_list (List.map_filter (\<lambda>e. parse_txid (en_codec env) (ev_txid e)) wave);
             f = en_parents env wave;
             s = s\<lparr>sl_advance := absorb_counts f ((sl_advance s)
                    \<lparr>ad_fact_requests := ad_fact_requests (sl_advance s) + length wave\<rparr>)\<rparr>
           in ok_then (still_current env s) (\<lambda>s. Inr (parent_answers env selected f s)))"

section \<open>The confirmed wave\<close>

definition apply_confirmed ::
    "slice_env \<Rightarrow> out_point \<times> bytes rpc_value \<Rightarrow> slice_state \<Rightarrow> slice_state" where
  "apply_confirmed env = (\<lambda>(k, value) s.
     (case apply_confirmed_value k value (en_resolver env) (sl_pending s) of
        ((script, resolved, missing, blocked), p) \<Rightarrow> s\<lparr>sl_pending := p, sl_advance := (sl_advance s)\<lparr>
           ad_confirmed_scripts := (case script of None \<Rightarrow> ad_confirmed_scripts (sl_advance s)
             | Some script \<Rightarrow> bt_insert k script (ad_confirmed_scripts (sl_advance s))),
           ad_facts_resolved := ad_facts_resolved (sl_advance s) + resolved,
           ad_facts_missing := ad_facts_missing (sl_advance s) + missing,
           ad_capacity_deferred := ad_capacity_deferred (sl_advance s) + blocked\<rparr>\<rparr>))"

definition confirmed_stage :: "slice_env \<Rightarrow> slice_state \<Rightarrow> slice_stop + slice_state" where
  "confirmed_stage env s =
     (let (wave, p) = (if sl_paused s then ([], sl_pending s)
            else next_confirmed_wave (en_resolver env) (sl_pending s));
          s = s\<lparr>sl_pending := p\<rparr>
      in if wave = [] then Inr s
         else let f = en_confirmed env wave;
             s = s\<lparr>sl_advance := absorb_counts f ((sl_advance s)
                    \<lparr>ad_fact_requests := ad_fact_requests (sl_advance s) + length wave\<rparr>)\<rparr>
           in ok_then (still_current env s) (\<lambda>s. Inr (fold (apply_confirmed env) (cf_values f) s)))"

section \<open>Capacity pressure\<close>

text \<open>Every continuing pass classifies a candidate, so the passes end.\<close>

lemma active_mark [simp]: "pd_active (mark_capacity_blocked k p) = pd_active p"
  by (simp add: mark_capacity_blocked_def split: option.splits fact_state.splits)

lemma active_store: "store_script k script n p = (r, p') \<Longrightarrow> pd_active p' = pd_active p"
  by (auto simp: store_script_def admit_script_def split: option.splits fact_state.splits if_splits)

lemma active_store_or_block [simp]:
  "pd_active (snd (snd (store_or_block lim k script acc))) = pd_active (snd (snd acc))"
  by (cases acc) (auto simp: store_or_block_def active_store split: prod.splits bool.splits)

lemma active_hydrate_cached:
  "hydrate_cached variants outputs lim ws cache acc = (cache', acc') \<Longrightarrow>
    pd_active (snd (snd acc')) = pd_active (snd (snd acc))"
proof (induction ws arbitrary: cache acc)
  case Nil
  then show ?case by simp
next
  case (Cons w ws)
  obtain k source where w: "w = (k, source)" by (cases w)
  obtain script mid where g: "(case source of CurrentParent \<Rightarrow>
      (parent_script variants outputs (snd (snd acc)) k, cache) | _ \<Rightarrow> cache_get k cache) = (script, mid)"
    by fastforce
  have "hydrate_cached variants outputs lim ws mid
      (case script of Some s \<Rightarrow> store_or_block lim k s acc | None \<Rightarrow> acc) = (cache', acc')"
    using Cons.prems by (simp add: w g)
  from Cons.IH [OF this] show ?case by (simp split: option.splits)
qed

lemma active_hydrate_slice [simp]: "pd_active (sl_pending (hydrate_slice env s)) = pd_active (sl_pending s)"
proof -
  obtain cache a b p where h: "hydrate_from_caches (en_variants env) (wk_outputs (sl_work s)) (en_resolver env)
      (sl_cache s) (sl_pending s) = (cache, a, b, p)"
    by (rule prod_cases4)
  have "pd_active p = pd_active (sl_pending s)"
    using active_hydrate_cached [OF h [unfolded hydrate_from_caches_def]] by simp
  then show ?thesis by (simp add: hydrate_slice_def h)
qed

lemma active_fold:
  "(\<And>x acc. pd_active (snd (snd (f x acc))) = pd_active (snd (snd acc))) \<Longrightarrow>
    pd_active (snd (snd (fold f xs acc))) = pd_active (snd (snd acc))"
  by (induction xs arbitrary: acc) auto

lemma active_hydrate_transient [simp]:
  "pd_active (sl_pending (hydrate_transient env s)) = pd_active (sl_pending s)"
proof -
  let ?f = "\<lambda>w acc. case transient_script (ad_outputs (sl_advance s)) (ad_confirmed_scripts (sl_advance s)) w of
      Some script \<Rightarrow> store_or_block (en_resolver env) (fst w) script acc | None \<Rightarrow> acc"
  have "pd_active (snd (snd (fold ?f ws (0, 0, sl_pending s)))) = pd_active (sl_pending s)" for ws
    using active_fold [of ?f ws "(0, 0, sl_pending s)"] by (simp split: option.splits)
  then show ?thesis
    by (simp add: hydrate_transient_def hydrate_from_transient_def case_prod_unfold)
qed

lemma active_prune [simp]: "pd_active (prune_after_removal p) = pd_active p"
  by (simp add: prune_after_removal_def)

lemma bt_remove_shorter: "bt_get m k = Some v \<Longrightarrow> length (bt_remove k m) < length m"
  unfolding bt_remove_def by (rule length_filter_less [of "(k, v)"]) (auto dest: map_of_SomeD)

lemma classify_keys_shorter:
  "classify_keys lib keys p = Some (rs, p') \<Longrightarrow> length (pd_active p') + length rs \<le> length (pd_active p)"
proof (induction keys arbitrary: p rs)
  case Nil
  then show ?case by simp
next
  case (Cons key keys)
  from Cons.prems obtain c rs' where c: "bt_get (pd_active p) key = Some c"
    and rest: "classify_keys lib keys (p\<lparr>pd_active := bt_remove key (pd_active p)\<rparr>) = Some (rs', p')"
    and rs: "length rs = Suc (length rs')"
    by (auto split: option.splits)
  show ?case using Cons.IH [OF rest] bt_remove_shorter [OF c] rs by simp
qed

lemma classify_slice_shorter:
  "classify_slice env s = Inr s' \<Longrightarrow> length (pd_active (sl_pending s')) + length (ad_classifications (sl_advance s'))
     \<le> length (pd_active (sl_pending s)) + length (ad_classifications (sl_advance s))"
  by (auto simp: classify_slice_def classify_ready_def split: option.splits dest!: classify_keys_shorter)

definition recovery_pass :: "slice_env \<Rightarrow> slice_state \<Rightarrow> slice_stop + slice_state" where
  "recovery_pass env s =
     ok_then (still_current env s) (\<lambda>s. ok_then (still_current env s) (\<lambda>s.
       classify_slice env (hydrate_transient env (hydrate_slice env s))))"

lemma recovery_pass_shorter:
  assumes "recovery_pass env s = Inr s'"
  shows "length (pd_active (sl_pending s')) + length (ad_classifications (sl_advance s'))
     \<le> length (pd_active (sl_pending s)) + length (ad_classifications (sl_advance s))"
proof -
  have ad: "ad_classifications (sl_advance (hydrate_transient env (hydrate_slice env u))) =
      ad_classifications (sl_advance u)" for u
    by (simp add: hydrate_transient_def hydrate_slice_def split: prod.splits)
  show ?thesis
    using assms classify_slice_shorter
    by (fastforce simp: recovery_pass_def still_current_def ok_then_def ad split: if_splits sum.splits)
qed

function recover_known_facts :: "slice_env \<Rightarrow> slice_state \<Rightarrow> slice_stop + slice_state" where
  "recover_known_facts env s = (case recovery_pass env s of
     Inl e \<Rightarrow> Inl e
   | Inr s' \<Rightarrow>
       if length (ad_classifications (sl_advance s')) \<le> length (ad_classifications (sl_advance s))
       then Inr s' else recover_known_facts env s')"
  by auto
termination
  by (relation "measure (\<lambda>(env, s). length (pd_active (sl_pending s)))")
    (auto dest!: recovery_pass_shorter)

declare recover_known_facts.simps [simp del]

lemma recover_shorter:
  "recover_known_facts env s = Inr s' \<Longrightarrow> length (pd_active (sl_pending s')) \<le> length (pd_active (sl_pending s))"
proof (induction env s rule: recover_known_facts.induct)
  case (1 env s)
  then obtain u where u: "recovery_pass env s = Inr u"
    by (auto simp: recover_known_facts.simps [of env s] split: sum.splits)
  note le = recovery_pass_shorter [OF u]
  have eq: "recover_known_facts env s =
      (if length (ad_classifications (sl_advance u)) \<le> length (ad_classifications (sl_advance s))
       then Inr u else recover_known_facts env u)"
    by (simp add: recover_known_facts.simps [of env s] u)
  have ad: "length (ad_classifications (sl_advance s)) \<le> length (ad_classifications (sl_advance u))"
  proof -
    have ad: "ad_classifications (sl_advance (hydrate_transient env (hydrate_slice env v))) =
        ad_classifications (sl_advance v)" for v
      by (simp add: hydrate_transient_def hydrate_slice_def split: prod.splits)
    show ?thesis
      using u by (auto simp: recovery_pass_def still_current_def ok_then_def classify_slice_def ad
          split: if_splits sum.splits option.splits)
  qed
  show ?case
  proof (cases "length (ad_classifications (sl_advance u)) \<le> length (ad_classifications (sl_advance s))")
    case True
    then show ?thesis using 1(2) eq le ad by simp
  next
    case False
    then show ?thesis using 1(2) 1(1) [OF u False] eq le ad by simp
  qed
qed

lemma doomed_candidate_active:
  assumes "doomed_candidate p = Some key"
  shows "bt_get (pd_active p) key \<noteq> None"
proof -
  have "fst acc = None \<or> bt_get (pd_active p) (the (fst acc)) \<noteq> None \<Longrightarrow>
      fst (fold (doomed_step p counts) ks acc) = None \<or>
      bt_get (pd_active p) (the (fst (fold (doomed_step p counts) ks acc))) \<noteq> None" for counts ks acc
  proof (induction ks arbitrary: acc)
    case (Cons k ks)
    have "fst (doomed_step p counts k acc) = None \<or>
        bt_get (pd_active p) (the (fst (doomed_step p counts k acc))) \<noteq> None"
      using Cons.prems by (auto simp: doomed_step_def Let_def split: prod.splits option.splits)
    from Cons.IH [OF this] show ?case by simp
  qed simp
  from this [of "(None, 0)" "reference_counts p" "pd_fair_order p"] show ?thesis
    using assms by (simp add: doomed_candidate_def)
qed

lemma defer_capacity_shorter:
  "defer_capacity_blocked_candidate p = (n, p') \<Longrightarrow> n \<noteq> 0 \<Longrightarrow> length (pd_active p') < length (pd_active p)"
  using doomed_candidate_active [of p]
  by (auto simp: defer_capacity_blocked_candidate_def bt_remove_shorter split: option.splits)

definition transient_fact_survives :: "slice_state \<Rightarrow> bool" where
  "transient_fact_survives s \<longleftrightarrow> has_transient_capacity_blocked_fact
     (ad_outputs (sl_advance s)) (ad_confirmed_scripts (sl_advance s)) (sl_pending s)"

definition defer_candidate :: "slice_state \<Rightarrow> nat \<times> slice_state" where
  "defer_candidate s = (case defer_capacity_blocked_candidate (sl_pending s) of
     (n, p) \<Rightarrow> (n, s\<lparr>sl_pending := p, sl_advance := (sl_advance s)
       \<lparr>ad_deferred_candidates := ad_deferred_candidates (sl_advance s) + n\<rparr>\<rparr>))"

lemma defer_candidate_shorter:
  "(n, s') = defer_candidate s \<Longrightarrow> 0 < n \<Longrightarrow>
    length (pd_active (sl_pending s')) < length (pd_active (sl_pending s))"
  using defer_capacity_shorter [of "sl_pending s" n]
  by (auto simp: defer_candidate_def split: prod.splits)

function resolve_capacity_pressure ::
    "slice_env \<Rightarrow> bool \<Rightarrow> slice_state \<Rightarrow> slice_stop + slice_state" where
  "resolve_capacity_pressure env deferred_once s = (case recover_known_facts env s of
     Inl e \<Rightarrow> Inl e
   | Inr s' \<Rightarrow>
       if deferred_once \<and> \<not> transient_fact_survives s' then Inr s'
       else (case defer_candidate s' of
           (deferred, s'') \<Rightarrow> if deferred = 0 then Inr s'' else resolve_capacity_pressure env True s''))"
  by auto
termination
  by (relation "measure (\<lambda>(env, _, s). length (pd_active (sl_pending s)))")
    (auto dest!: recover_shorter defer_candidate_shorter)

declare resolve_capacity_pressure.simps [simp del]

section \<open>The slice\<close>

text \<open>From the second \<^verbatim>\<open>classify_ready\<close> on: deferral of what this slice cannot resolve.\<close>

definition relieve_slice :: "slice_env \<Rightarrow> slice_state \<Rightarrow> slice_state" where
  "relieve_slice env s =
     (let p = sl_pending s; a = sl_advance s;
          (blocked, p) = (if has_pending_script_capacity (en_resolver env) p then (False, p)
            else defer_one_capacity_blocked_fact p);
          (deferred, p) = defer_exhausted_candidates p
      in s\<lparr>sl_pending := p,
           sl_advance := a\<lparr>ad_capacity_deferred := ad_capacity_deferred a + (if blocked then 1 else 0),
             ad_deferred_candidates := ad_deferred_candidates a + deferred\<rparr>\<rparr>)"

definition facts_stage :: "slice_env \<Rightarrow> slice_state \<Rightarrow> slice_stop + slice_state" where
  "facts_stage env s =
     ok_then (still_current env s) (\<lambda>s.
     ok_then (classify_slice env (hydrate_slice env s)) (\<lambda>s.
     let s = activate_slice env s; s = s\<lparr>sl_paused := is_systemic (sl_advance s)\<rparr>
     in ok_then (parent_stage env s) (\<lambda>s.
        ok_then (confirmed_stage env s) (\<lambda>s.
        ok_then (classify_slice env s) (\<lambda>s.
        ok_then (resolve_capacity_pressure env False (relieve_slice env s)) (\<lambda>s.
        Inr (activate_slice env s)))))))"

datatype slice_end =
    Reported slice_report classification_work confirmed_cache
  | SliceFailed classification_error classification_work confirmed_cache
  | SlicePanicked

definition remaining_work :: "mempool_entry list \<Rightarrow> classification_work \<Rightarrow> nat" where
  "remaining_work entries work =
     sat_add (length (filter (\<lambda>e. me_wtxid e \<notin> set (wk_attempted work) \<and> unsettled work e) entries))
       (case wk_pending work of None \<Rightarrow> 0 | Some p \<Rightarrow> candidate_count p)"

definition store_classifications :: "cached_classification list \<Rightarrow> classification_work \<Rightarrow> classification_work" where
  "store_classifications rs work = work\<lparr>wk_classifications :=
     fold (\<lambda>r. bt_insert (tc_wtxid (cc_classification r)) r) rs (wk_classifications work)\<rparr>"

text \<open>The revision of the work grows when something was classified.\<close>

definition next_revision :: "advance \<Rightarrow> classification_work \<Rightarrow> classification_error + classification_work" where
  "next_revision a work =
     (if ad_classifications a = [] then Inr work
      else case checked_add64 (wk_revision work) 1 of
          None \<Rightarrow> Inl GenerationOverflow | Some revision \<Rightarrow> Inr (work\<lparr>wk_revision := revision\<rparr>))"

text \<open>The positive facts of the slice enter the shared caches.\<close>

definition store_facts ::
    "slice_env \<Rightarrow> advance \<Rightarrow> classification_work \<times> confirmed_cache \<Rightarrow> classification_work \<times> confirmed_cache" where
  "store_facts env a wc =
     (let (work, cache) = fold (insert_outputs (max_auxiliary_cache_bytes (en_limits env))) (ad_outputs a) wc
      in (work, fold (\<lambda>(k, script) c. snd (cache_insert k script (wk_output_bytes work) c))
            (ad_confirmed_scripts a) cache))"

definition finish_report :: "slice_env \<Rightarrow> advance \<Rightarrow> classification_work \<Rightarrow> slice_report" where
  "finish_report env a work =
     (let systemic = is_systemic a; remaining = remaining_work (en_entries env) work
      in \<lparr> rp_generation = en_id env, rp_attempted = ad_attempted a,
           rp_newly_classified = length (ad_classifications a), rp_fact_requests = ad_fact_requests a,
           rp_facts_resolved = ad_facts_resolved a, rp_facts_missing = ad_facts_missing a,
           rp_capacity_deferred = ad_capacity_deferred a,
           rp_deferred_candidates = ad_deferred_candidates a, rp_response_failures = ad_response_failures a,
           rp_systemic_response_failures = ad_systemic_response_failures a,
           rp_missing_responses = ad_missing_responses a, rp_batch_failures = ad_batch_failures a,
           rp_response_bytes = ad_response_bytes a, rp_classified = length (wk_classifications work),
           rp_remaining = remaining, rp_complete = (remaining = 0 \<and> \<not> systemic), rp_stale = False,
           rp_disposition = (if systemic then Paused else if remaining = 0 then CompleteSlice else Continue),
           rp_publication = (if ad_classifications a = [] then None
             else Some \<lparr> dl_generation = en_id env, dl_revision = wk_revision work,
               dl_changed = map cc_classification (ad_classifications a) \<rparr>) \<rparr>)"

definition commit_slice ::
    "slice_env \<Rightarrow> pending_slice option \<Rightarrow> advance \<Rightarrow> classification_work \<Rightarrow> confirmed_cache \<Rightarrow> nat \<Rightarrow> slice_end" where
  "commit_slice env pending a work cache checks =
     (if \<not> en_live env checks then Reported (report_stale_after (en_id env) a) work cache
      else let (work, cache) = store_facts env a (work, cache);
          work = store_classifications (ad_classifications a) work
        in case next_revision a work of
             Inl e \<Rightarrow> SliceFailed e work cache
           | Inr work \<Rightarrow> (case pending of
               None \<Rightarrow> Reported (finish_report env a work) work cache
             | Some p \<Rightarrow>
                 (case hydrate_from_caches (en_variants env) (wk_outputs work) (en_resolver env) cache p of
                   (cache, resolved, blocked, p) \<Rightarrow>
                     let a = a\<lparr>ad_facts_resolved := ad_facts_resolved a + resolved,
                           ad_capacity_deferred := ad_capacity_deferred a + blocked\<rparr>;
                         work = work\<lparr>wk_pending := Some p\<rparr>
                     in Reported (finish_report env a work) work cache)))"

definition pending_slice_run ::
    "slice_env \<Rightarrow> pending_slice \<Rightarrow> advance \<Rightarrow> classification_work \<Rightarrow> confirmed_cache \<Rightarrow> nat \<Rightarrow> slice_end" where
  "pending_slice_run env p a work cache checks =
     (case facts_stage env \<lparr> sl_work = work, sl_cache = cache, sl_pending = p, sl_advance = a,
          sl_paused = False, sl_checks = checks \<rparr> of
        Inl (Superseded s) \<Rightarrow> Reported (report_stale_after (en_id env) (sl_advance s)) (sl_work s) (sl_cache s)
      | Inl Panicked \<Rightarrow> SlicePanicked
      | Inr s \<Rightarrow> commit_slice env (if pending_is_empty (sl_pending s) then None else Some (sl_pending s))
          (sl_advance s) (sl_work s) (sl_cache s) (sl_checks s))"

text \<open>A slice without pending work first requests new candidates.\<close>

definition fresh_slice_run ::
    "slice_env \<Rightarrow> classification_work \<Rightarrow> confirmed_cache \<Rightarrow> nat \<Rightarrow> slice_end" where
  "fresh_slice_run env work cache checks =
     (let (candidates, work) = select_candidates (max_transactions_per_slice (en_limits env))
            (en_entries env) work;
          a = advance_default\<lparr>ad_attempted := length candidates\<rparr>
      in if candidates = [] then commit_slice env None a work cache checks
         else let f = en_raw env candidates; a = absorb_counts f a
           in if \<not> en_live env checks then Reported (report_stale_after (en_id env) a) work cache
              else (case admit_fetched env f work a of
                  (None, work, a) \<Rightarrow> commit_slice env None a work cache (checks + 1)
                | (Some p, work, a) \<Rightarrow> pending_slice_run env p a work cache (checks + 1)))"

text \<open>
  \<^verbatim>\<open>classify_next_for_generation\<close> on the current generation, if there is one: the check after the
  driver lock and the one that takes the pending slice are the checks 0 and 1.
\<close>

definition classify_generation ::
    "slice_env \<Rightarrow> u64 option \<Rightarrow> classification_work \<Rightarrow> confirmed_cache \<Rightarrow> slice_end" where
  "classify_generation env expected work cache =
     (if expected \<noteq> Some (en_id env) \<or> \<not> en_live env 0 \<or> \<not> en_live env 1
      then Reported (report_stale (en_id env)) work cache
      else (case wk_pending work of
          None \<Rightarrow> fresh_slice_run env work cache 2
        | Some p \<Rightarrow> pending_slice_run env p advance_default (work\<lparr>wk_pending := None\<rparr>) cache 2))"

definition env_of ::
    "slice_env \<Rightarrow> generation \<Rightarrow> slice_env" where
  "env_of env g = env\<lparr>en_id := cg_id g, en_entries := transactions (cg_membership g),
     en_variants := cg_variants g\<rparr>"

definition classify_next ::
    "slice_env \<Rightarrow> u64 option \<Rightarrow> coordinator \<Rightarrow> slice_end" where
  "classify_next env expected cd = (case cd_current cd of
     None \<Rightarrow> Reported report_waiting work_default (cd_cache cd)
   | Some g \<Rightarrow> classify_generation (env_of env g) expected (cg_work g) (cd_cache cd))"

end
