(* ===== verification/Slice_Props.thy ===== *)
theory Slice_Props
  imports Slice
begin

text \<open>
  What every classification slice keeps, whatever the node answers and whenever the slice is
  superseded: the shared caches stay within their limit, the pending slice stays consistent and
  made of well-formed transactions of the membership, every record is valid, and nothing panics.
\<close>

section \<open>The confirmed cache during hydration\<close>

lemma renumber_bytes [simp]: "cc_bytes (renumber n ks c) = cc_bytes c"
  by (induction n ks c rule: renumber.induct) (simp_all add: Let_def split: option.splits)

lemma cache_get_bytes [simp]: "cc_bytes (snd (cache_get k c)) = cc_bytes c"
  by (simp add: cache_get_def allocate_stamp_def Let_def split: option.splits prod.splits)

lemma hydrate_cached_cache:
  "hydrate_cached variants outputs lim ws cache acc = (cache', acc') \<Longrightarrow> cache_ok cache \<Longrightarrow>
    cache_ok cache' \<and> cc_maximum cache' = cc_maximum cache \<and> cc_bytes cache' = cc_bytes cache"
proof (induction ws arbitrary: cache acc)
  case Nil
  then show ?case by simp
next
  case (Cons w ws)
  obtain k source where w: "w = (k, source)" by (cases w)
  obtain script mid where g: "(case source of CurrentParent \<Rightarrow>
      (parent_script variants outputs (snd (snd acc)) k, cache) | _ \<Rightarrow> cache_get k cache) = (script, mid)"
    by fastforce
  have "mid = cache \<or> mid = snd (cache_get k cache)"
    using g by (cases source) (auto simp: prod_eq_iff)
  then have mid: "cache_ok mid \<and> cc_maximum mid = cc_maximum cache \<and> cc_bytes mid = cc_bytes cache"
    using cache_get_spec [OF Cons.prems(2), of k] cache_get_bytes [of k cache] Cons.prems(2) by auto
  have "hydrate_cached variants outputs lim ws mid
      (case script of Some s \<Rightarrow> store_or_block lim k s acc | None \<Rightarrow> acc) = (cache', acc')"
    using Cons.prems(1) by (simp add: w g)
  from Cons.IH [OF this] mid show ?case by simp
qed

section \<open>The invariant of a slice\<close>

text \<open>Records that are valid and belong to one of the given transactions.\<close>

definition records_of ::
    "(expected_variant \<times> transaction) set \<Rightarrow> cached_classification list \<Rightarrow> bool" where
  "records_of W rs \<longleftrightarrow> list_all (\<lambda>r. validate_classification (cc_classification r) = Inr () \<and>
     (\<exists>(e, tx) \<in> W. tc_txid (cc_classification r) = ev_txid e \<and>
        tc_wtxid (cc_classification r) = ev_wtxid e)) rs"

text \<open>The transactions a generation may hold: well-formed ones of its entries.\<close>

definition eligible :: "slice_env \<Rightarrow> (expected_variant \<times> transaction) set" where
  "eligible env = {(e, tx). e \<in> expected_of ` set (en_entries env) \<and> well_formed (en_lib env) tx}"

definition pending_ok :: "slice_env \<Rightarrow> pending_slice \<Rightarrow> bool" where
  "pending_ok env p \<longleftrightarrow> pending_inv (en_lib env) (en_resolver env) p \<and> admitted p \<subseteq> eligible env"

definition slice_ok :: "slice_env \<Rightarrow> classification_work \<Rightarrow> slice_state \<Rightarrow> bool" where
  "slice_ok env work s \<longleftrightarrow> sl_work s = work \<and> pending_ok env (sl_pending s) \<and>
     records_of (eligible env) (ad_classifications (sl_advance s)) \<and>
     caches_ok (max_auxiliary_cache_bytes (en_limits env)) (work, sl_cache s)"

definition stage_ok :: "slice_env \<Rightarrow> classification_work \<Rightarrow> slice_stop + slice_state \<Rightarrow> bool" where
  "stage_ok env work r \<longleftrightarrow> (case r of
     Inl Panicked \<Rightarrow> False | Inl (Superseded s) \<Rightarrow> slice_ok env work s | Inr s \<Rightarrow> slice_ok env work s)"

lemma stage_ok_Inr [simp]: "stage_ok env work (Inr s) = slice_ok env work s"
  by (simp add: stage_ok_def)

lemma stage_ok_then:
  "stage_ok env work r \<Longrightarrow> (\<And>s. slice_ok env work s \<Longrightarrow> stage_ok env work (f s)) \<Longrightarrow> stage_ok env work (ok_then r f)"
  by (cases r) (auto simp: stage_ok_def)

text \<open>A step that only moves the pending slice along, keeping what was classified.\<close>

lemma slice_ok_moved:
  assumes "slice_ok env work s"
    "pending_inv (en_lib env) (en_resolver env) (sl_pending s) \<Longrightarrow>
      pending_inv (en_lib env) (en_resolver env) p \<and> advances (sl_pending s) p"
    "sl_work s' = sl_work s" "sl_cache s' = sl_cache s" "sl_pending s' = p"
    "ad_classifications (sl_advance s') = ad_classifications (sl_advance s)"
  shows "slice_ok env work s'"
  using assms by (auto simp: slice_ok_def pending_ok_def advances_def)

lemma slice_ok_kept:
  assumes "slice_ok env work s" "Pending_Props.kept (en_lib env) (en_resolver env) (sl_pending s) (sl_pending s')"
    "sl_work s' = sl_work s" "sl_cache s' = sl_cache s"
    "ad_classifications (sl_advance s') = ad_classifications (sl_advance s)"
  shows "slice_ok env work s'"
  using slice_ok_moved [OF assms(1) _ assms(3,4) refl assms(5)] kept_advances [OF assms(2)] by blast

lemma still_current_ok: "slice_ok env work s \<Longrightarrow> stage_ok env work (still_current env s)"
  by (simp add: still_current_def stage_ok_def slice_ok_def)

lemma hydrate_slice_ok:
  assumes "slice_ok env work s"
  shows "slice_ok env work (hydrate_slice env s)"
proof -
  obtain cache a b p where h: "hydrate_from_caches (en_variants env) (wk_outputs (sl_work s))
      (en_resolver env) (sl_cache s) (sl_pending s) = (cache, a, b, p)"
    by (rule prod_cases4)
  have "pending_inv (en_lib env) (en_resolver env) p \<and> advances (sl_pending s) p"
    using kept_advances [OF kept_hydrate_from_caches [OF h, of "en_lib env"]] assms
    by (simp add: slice_ok_def pending_ok_def)
  moreover have "cache_ok cache \<and> cc_maximum cache = cc_maximum (sl_cache s) \<and>
      cc_bytes cache = cc_bytes (sl_cache s)"
    using hydrate_cached_cache [OF h [unfolded hydrate_from_caches_def]] assms
    by (simp add: slice_ok_def caches_ok_def)
  ultimately show ?thesis
    using assms by (auto simp: hydrate_slice_def h slice_ok_def pending_ok_def advances_def caches_ok_def)
qed

lemma hydrate_transient_ok:
  assumes "slice_ok env work s"
  shows "slice_ok env work (hydrate_transient env s)"
proof -
  obtain a b p where h: "hydrate_from_transient (ad_outputs (sl_advance s))
      (ad_confirmed_scripts (sl_advance s)) (en_resolver env) (sl_pending s) = (a, b, p)"
    by (rule prod_cases3)
  show ?thesis
    by (rule slice_ok_kept [OF assms]) (simp_all add: hydrate_transient_def h kept_hydrate_from_transient [OF h])
qed

lemma activate_slice_ok: "slice_ok env work s \<Longrightarrow> slice_ok env work (activate_slice env s)"
  by (rule slice_ok_moved [where p = "activate_waiting (en_lib env) (en_variants env) (en_resolver env) (sl_pending s)"])
    (simp_all add: activate_slice_def activate_waiting_inv activate_waiting_advances)

lemma records_of_append: "records_of W (xs @ ys) \<longleftrightarrow> records_of W xs \<and> records_of W ys"
  by (simp add: records_of_def)

lemma classify_slice_ok:
  assumes "slice_ok env work s"
  shows "stage_ok env work (classify_slice env s)"
proof -
  let ?p = "sl_pending s"
  have inv: "pending_inv (en_lib env) (en_resolver env) ?p" and sub: "admitted ?p \<subseteq> eligible env"
    using assms by (simp_all add: slice_ok_def pending_ok_def)
  obtain rs p where c: "classify_ready (en_lib env) ?p = Some (rs, p)"
    and good: "list_all (\<lambda>r. \<exists>(e, tx) \<in> admitted ?p. record_of_facts (en_lib env) ?p e tx r \<and>
      validate_classification (cc_classification r) = Inr () \<and>
      tc_txid (cc_classification r) = ev_txid e \<and> tc_wtxid (cc_classification r) = ev_wtxid e \<and>
      (\<not> cc_retryable r \<longrightarrow> ba_status (tc_assessment (cc_classification r)) \<noteq> Indeterminate)) rs"
    using classify_ready_spec [of "en_lib env" ?p] inv sub
    by (auto simp: pending_inv_def eligible_def)
  have "records_of (eligible env) rs"
    using good sub by (fastforce simp: records_of_def list_all_iff)
  moreover have "pending_inv (en_lib env) (en_resolver env) p \<and> advances ?p p"
    using classify_ready_inv [OF inv c] classify_ready_advances [OF c] by simp
  ultimately show ?thesis
    using assms by (auto simp: classify_slice_def c slice_ok_def pending_ok_def advances_def records_of_append)
qed

section \<open>The stages\<close>

lemma apply_parent_ok:
  assumes "slice_ok env work (snd acc)"
  shows "slice_ok env work (snd (apply_parent env a acc))"
proof -
  obtain expected answer where a: "a = (expected, answer)" by (cases a)
  obtain parents s where acc: "acc = (parents, s)" by (cases acc)
  show ?thesis
  proof (cases "parse_txid (en_codec env) (ev_txid expected)")
    case None
    then show ?thesis using assms by (simp add: apply_parent_def a acc)
  next
    case (Some parent)
    show ?thesis
    proof (cases answer)
      case (Found tx)
      obtain outputs x y p where r: "apply_parent_transaction (en_codec env) expected tx (en_resolver env)
          (sl_pending s) = (outputs, x, y, p)"
        by (rule prod_cases4)
      show ?thesis
        by (rule slice_ok_kept [OF assms])
          (simp_all add: apply_parent_def a acc Some Found r kept_apply_parent_transaction [OF r])
    qed (use assms in \<open>simp_all add: apply_parent_def a acc Some\<close>)
  qed
qed

lemma slice_ok_fold:
  "(\<And>x s. slice_ok env work s \<Longrightarrow> slice_ok env work (f x s)) \<Longrightarrow> slice_ok env work s \<Longrightarrow>
    slice_ok env work (fold f xs s)"
  by (induction xs arbitrary: s) auto

lemma apply_parents_ok:
  "slice_ok env work (snd acc) \<Longrightarrow> slice_ok env work (snd (fold (apply_parent env) answers acc))"
  by (induction answers arbitrary: acc) (auto simp: apply_parent_ok)

lemma fall_back_kept: "Pending_Props.kept lib lim p (fall_back_parent_to_gettxout t p)"
  by (rule kept_facts) (rule fall_back_inv)

lemma fall_backs_kept: "Pending_Props.kept lib lim p (fold fall_back_parent_to_gettxout ts p)"
proof (induction ts arbitrary: p)
  case (Cons t ts)
  show ?case using Pending_Props.kept_trans [OF fall_back_kept Cons] by simp
qed simp

lemma parent_answers_ok:
  assumes "slice_ok env work s"
  shows "slice_ok env work (parent_answers env selected f s)"
proof -
  let ?acc = "([], s\<lparr>sl_paused := sl_paused s \<or> fetch_systemic f\<rparr>)"
  obtain parents s' where r: "fold (apply_parent env) (cf_values f) ?acc = (parents, s')" by fastforce
  have "slice_ok env work (snd ?acc)" using assms by (simp add: slice_ok_def)
  from apply_parents_ok [OF this, of "cf_values f"] have ok: "slice_ok env work s'" by (simp add: r)
  show ?thesis
    unfolding parent_answers_def r Let_def
    using ok by (auto intro!: slice_ok_kept [OF ok] fall_backs_kept)
qed

lemma parent_stage_ok:
  assumes "slice_ok env work s"
  shows "stage_ok env work (parent_stage env s)"
proof -
  obtain wave p where w: "(if sl_paused s then ([], sl_pending s)
      else next_parent_wave (en_codec env) (en_variants env) (en_resolver env) (sl_pending s)) = (wave, p)"
    by fastforce
  have k: "Pending_Props.kept (en_lib env) (en_resolver env) (sl_pending s) p"
    using w by (auto intro: kept_next_parent_wave split: if_splits)
  have "slice_ok env work (s\<lparr>sl_pending := p\<rparr>)"
    by (rule slice_ok_kept [OF assms]) (simp_all add: k)
  moreover have "slice_ok env work (s\<lparr>sl_pending := p, sl_advance := absorb_counts f a\<rparr>)"
    if "ad_classifications a = ad_classifications (sl_advance s)" for f :: "(expected_variant, transaction) fetch" and a
    by (rule slice_ok_kept [OF assms]) (simp_all add: k absorb_counts_def that)
  ultimately show ?thesis
    unfolding parent_stage_def w Let_def prod.case
    by (auto intro!: stage_ok_then still_current_ok parent_answers_ok)
qed

lemma apply_confirmed_ok:
  assumes "slice_ok env work s"
  shows "slice_ok env work (apply_confirmed env a s)"
proof -
  obtain k answer where a: "a = (k, answer)" by (cases a)
  obtain script x y z p where r: "apply_confirmed_value k answer (en_resolver env) (sl_pending s) = ((script, x, y, z), p)"
    by (metis prod_cases4 surj_pair)
  show ?thesis
    by (rule slice_ok_kept [OF assms]) (simp_all add: apply_confirmed_def a r kept_apply_confirmed_value [OF r])
qed

lemma confirmed_stage_ok:
  assumes "slice_ok env work s"
  shows "stage_ok env work (confirmed_stage env s)"
proof -
  obtain wave p where w: "(if sl_paused s then ([], sl_pending s)
      else next_confirmed_wave (en_resolver env) (sl_pending s)) = (wave, p)"
    by fastforce
  have k: "Pending_Props.kept (en_lib env) (en_resolver env) (sl_pending s) p"
    using w by (auto intro: kept_next_confirmed_wave split: if_splits)
  have "slice_ok env work (s\<lparr>sl_pending := p\<rparr>)"
    by (rule slice_ok_kept [OF assms]) (simp_all add: k)
  moreover have "slice_ok env work (s\<lparr>sl_pending := p, sl_advance := absorb_counts f a\<rparr>)"
    if "ad_classifications a = ad_classifications (sl_advance s)" for f :: "(out_point, bytes) fetch" and a
    by (rule slice_ok_kept [OF assms]) (simp_all add: k absorb_counts_def that)
  ultimately show ?thesis
    unfolding confirmed_stage_def w Let_def prod.case
    by (auto intro!: stage_ok_then still_current_ok slice_ok_fold apply_confirmed_ok)
qed

lemma recovery_pass_ok: "slice_ok env work s \<Longrightarrow> stage_ok env work (recovery_pass env s)"
  unfolding recovery_pass_def
  by (intro stage_ok_then still_current_ok classify_slice_ok hydrate_transient_ok hydrate_slice_ok)

lemma recover_ok: "slice_ok env work s \<Longrightarrow> stage_ok env work (recover_known_facts env s)"
proof (induction env s rule: recover_known_facts.induct)
  case (1 env s)
  note pass = recovery_pass_ok [OF 1(2)]
  show ?case
  proof (cases "recovery_pass env s")
    case (Inl e)
    then show ?thesis using pass by (simp add: recover_known_facts.simps [of env s])
  next
    case (Inr u)
    then show ?thesis
      using pass 1(1) [OF Inr] by (simp add: recover_known_facts.simps [of env s])
  qed
qed

lemma defer_candidate_ok:
  assumes "slice_ok env work s"
  shows "slice_ok env work (snd (defer_candidate s))"
proof -
  obtain n p where d: "defer_capacity_blocked_candidate (sl_pending s) = (n, p)" by fastforce
  show ?thesis
    by (rule slice_ok_moved [OF assms, where p = p])
      (auto simp: defer_candidate_def d intro: defer_capacity_inv [OF _ d] defer_capacity_advances [OF d])
qed

lemma resolve_ok: "slice_ok env work s \<Longrightarrow> stage_ok env work (resolve_capacity_pressure env once s)"
proof (induction env once s rule: resolve_capacity_pressure.induct)
  case (1 env once s)
  note rec = recover_ok [OF 1(2)]
  show ?case
  proof (cases "recover_known_facts env s")
    case (Inl e)
    then show ?thesis using rec by (simp add: resolve_capacity_pressure.simps [of env once s])
  next
    case (Inr u)
    obtain n v where d: "defer_candidate u = (n, v)" by fastforce
    have "slice_ok env work v" using defer_candidate_ok [of env work u] rec by (simp add: Inr d)
    then show ?thesis
      using rec 1(1) [OF Inr _ d [symmetric]] by (simp add: resolve_capacity_pressure.simps [of env once s] Inr d)
  qed
qed

lemma relieve_slice_ok:
  assumes "slice_ok env work s"
  shows "slice_ok env work (relieve_slice env s)"
proof -
  obtain blocked p where b: "(if has_pending_script_capacity (en_resolver env) (sl_pending s)
      then (False, sl_pending s) else defer_one_capacity_blocked_fact (sl_pending s)) = (blocked, p)"
    by fastforce
  obtain n q where d: "defer_exhausted_candidates p = (n, q)" by fastforce
  have k: "Pending_Props.kept (en_lib env) (en_resolver env) (sl_pending s) p"
    using b by (auto intro: kept_defer_one split: if_splits)
  show ?thesis
  proof (rule slice_ok_moved [OF assms, where p = q])
    assume "pending_inv (en_lib env) (en_resolver env) (sl_pending s)"
    then show "pending_inv (en_lib env) (en_resolver env) q \<and> advances (sl_pending s) q"
      using kept_advances [OF k] defer_exhausted_inv [OF _ d] defer_exhausted_advances [OF d]
      by (auto simp: advances_def)
  qed (simp_all add: relieve_slice_def b d Let_def)
qed

lemma facts_stage_ok: "slice_ok env work s \<Longrightarrow> stage_ok env work (facts_stage env s)"
proof -
  have paused: "slice_ok env work s \<Longrightarrow> slice_ok env work (s\<lparr>sl_paused := b\<rparr>)" for b s
    by (simp add: slice_ok_def)
  show "slice_ok env work s \<Longrightarrow> stage_ok env work (facts_stage env s)"
    unfolding facts_stage_def Let_def
    by (intro stage_ok_then still_current_ok classify_slice_ok hydrate_slice_ok parent_stage_ok
        confirmed_stage_ok resolve_ok relieve_slice_ok paused activate_slice_ok stage_ok_Inr [THEN iffD2])
qed

section \<open>The commit\<close>

text \<open>What a generation's work satisfies between slices.\<close>

definition work_ok :: "slice_env \<Rightarrow> classification_work \<Rightarrow> confirmed_cache \<Rightarrow> bool" where
  "work_ok env work cache \<longleftrightarrow> caches_ok (max_auxiliary_cache_bytes (en_limits env)) (work, cache) \<and>
     classified_ok (wk_classifications work) \<and>
     (\<forall>p. wk_pending work = Some p \<longrightarrow> pending_ok env p)"

lemma cache_insert_caches:
  assumes "caches_ok maximum (work, cache)"
  shows "caches_ok maximum (work, snd (cache_insert k s (wk_output_bytes work) cache))"
proof -
  let ?r = "cache_insert k s (wk_output_bytes work) cache"
  have ok: "cache_ok cache" "cc_maximum cache = maximum" using assms by (simp_all add: caches_ok_def)
  have "wk_output_bytes work + cc_bytes (snd ?r) \<le> maximum"
  proof (cases "fst ?r")
    case True
    then show ?thesis using insert_leaves_room [OF ok(1) True] ok(2) by simp
  next
    case False
    then show ?thesis using insert_bytes_le [OF ok(1) False] assms by (simp add: caches_ok_def)
  qed
  then show ?thesis
    using assms cache_insert_spec [OF ok(1), of k s "wk_output_bytes work"] by (simp add: caches_ok_def)
qed

lemma cache_inserts_caches:
  "caches_ok maximum (work, cache) \<Longrightarrow> caches_ok maximum
     (work, fold (\<lambda>(k, script) c. snd (cache_insert k script (wk_output_bytes work) c)) scripts cache)"
proof (induction scripts arbitrary: cache)
  case Nil
  then show ?case by simp
next
  case (Cons x scripts)
  then show ?case using cache_insert_caches [OF Cons.prems] by (cases x) simp
qed

lemma insert_outputs_frame:
  "wk_pending (fst (fold (insert_outputs maximum) es wc)) = wk_pending (fst wc) \<and>
   wk_revision (fst (fold (insert_outputs maximum) es wc)) = wk_revision (fst wc) \<and>
   wk_attempted (fst (fold (insert_outputs maximum) es wc)) = wk_attempted (fst wc)"
proof (induction es arbitrary: wc)
  case Nil
  then show ?case by simp
next
  case (Cons e es)
  have "wk_pending (fst (insert_outputs maximum e wc)) = wk_pending (fst wc) \<and>
      wk_revision (fst (insert_outputs maximum e wc)) = wk_revision (fst wc) \<and>
      wk_attempted (fst (insert_outputs maximum e wc)) = wk_attempted (fst wc)"
    by (cases e; cases wc) (simp add: insert_outputs_def Let_def split: option.splits)
  then show ?case using Cons by simp
qed

lemma store_facts_spec:
  assumes "caches_ok (max_auxiliary_cache_bytes (en_limits env)) (work, cache)"
    "store_facts env a (work, cache) = (work', cache')"
  shows "caches_ok (max_auxiliary_cache_bytes (en_limits env)) (work', cache') \<and>
    wk_classifications work' = wk_classifications work \<and> wk_pending work' = wk_pending work \<and>
    wk_revision work' = wk_revision work \<and> wk_attempted work' = wk_attempted work"
proof -
  let ?max = "max_auxiliary_cache_bytes (en_limits env)"
  obtain w c where f: "fold (insert_outputs ?max) (ad_outputs a) (work, cache) = (w, c)" by fastforce
  have w: "work' = w"
    and c: "cache' = fold (\<lambda>(k, script) c. snd (cache_insert k script (wk_output_bytes w) c)) (ad_confirmed_scripts a) c"
    using assms(2) by (auto simp: store_facts_def f)
  have "caches_ok ?max (w, c)" "wk_classifications w = wk_classifications work"
    using insert_outputs_fold_ok [OF assms(1), of "ad_outputs a"] by (simp_all add: f)
  then show ?thesis
    using cache_inserts_caches [of ?max w c "ad_confirmed_scripts a"]
      insert_outputs_frame [of ?max "ad_outputs a" "(work, cache)"]
    by (simp add: w c f)
qed

lemma store_classifications_ok:
  assumes "classified_ok (wk_classifications work)" "records_of W rs"
  shows "classified_ok (wk_classifications (store_classifications rs work))"
proof -
  have "classified_ok m \<Longrightarrow> records_of W rs \<Longrightarrow>
      classified_ok (fold (\<lambda>r. bt_insert (tc_wtxid (cc_classification r)) r) rs m)" for m
  proof (induction rs arbitrary: m)
    case Nil
    then show ?case by simp
  next
    case (Cons r rs)
    have "classified_ok (bt_insert (tc_wtxid (cc_classification r)) r m)"
      using Cons.prems by (auto simp: classified_ok_def records_of_def bt_ok_insert set_bt_insert)
    then show ?case using Cons.IH Cons.prems(2) by (simp add: records_of_def)
  qed
  with assms show ?thesis by (simp add: store_classifications_def)
qed

text \<open>What the report of a slice says about the work it leaves.\<close>

definition report_ok ::
    "slice_env \<Rightarrow> classification_work \<Rightarrow> slice_report \<Rightarrow> classification_work \<Rightarrow> bool" where
  "report_ok env work rp work' \<longleftrightarrow> rp_generation rp = en_id env \<and>
     (rp_stale rp \<longleftrightarrow> rp_disposition rp = StaleSlice) \<and>
     (rp_stale rp \<longrightarrow> rp_publication rp = None) \<and>
     (\<not> rp_stale rp \<longrightarrow> rp_remaining rp = remaining_work (en_entries env) work' \<and>
        rp_classified rp = length (wk_classifications work') \<and>
        (rp_complete rp \<longleftrightarrow> rp_disposition rp = CompleteSlice) \<and> (rp_complete rp \<longrightarrow> rp_remaining rp = 0) \<and>
        (rp_disposition rp = Continue \<longrightarrow> 0 < rp_remaining rp)) \<and> (case rp_publication rp of
     None \<Rightarrow> wk_revision work' = wk_revision work \<and> wk_classifications work' = wk_classifications work
   | Some d \<Rightarrow> dl_generation d = en_id env \<and> unat (dl_revision d) = unat (wk_revision work) + 1 \<and>
       wk_revision work' = dl_revision d \<and> (\<exists>rs. rs \<noteq> [] \<and> dl_changed d = map cc_classification rs \<and>
         records_of (eligible env) rs \<and>
         wk_classifications work' = wk_classifications (store_classifications rs work)))"

definition end_ok :: "slice_env \<Rightarrow> classification_work \<Rightarrow> slice_end \<Rightarrow> bool" where
  "end_ok env work r \<longleftrightarrow> (case r of
     Reported rp work' cache \<Rightarrow> work_ok env work' cache \<and> report_ok env work rp work'
   | SliceFailed e work' cache \<Rightarrow> work_ok env work' cache \<and> wk_revision work = u64_max
   | SlicePanicked \<Rightarrow> False)"

lemma finish_report_ok:
  assumes "wk_revision work' = wk_revision w" "wk_classifications work' = wk_classifications w"
    "next_revision a w0 = Inr w" "wk_revision w0 = wk_revision work"
    "wk_classifications w0 = wk_classifications (store_classifications (ad_classifications a) work)"
    "records_of (eligible env) (ad_classifications a)" "ad_classifications a' = ad_classifications a"
  shows "report_ok env work (finish_report env a' work') work'"
proof (cases "ad_classifications a = []")
  case True
  then show ?thesis
    using assms by (auto simp: report_ok_def finish_report_def Let_def next_revision_def store_classifications_def)
next
  case False
  then have rev: "unat (wk_revision w) = unat (wk_revision work) + 1"
    and cls: "wk_classifications w = wk_classifications w0"
    using assms(3,4) by (auto simp: next_revision_def checked_add64_Some_iff split: option.splits)
  have "\<exists>rs. rs \<noteq> [] \<and> map cc_classification (ad_classifications a) = map cc_classification rs \<and>
      records_of (eligible env) rs \<and>
      wk_classifications work' = wk_classifications (store_classifications rs work)"
    using False assms cls by (intro exI [of _ "ad_classifications a"]) simp
  then show ?thesis
    using False rev assms(1,7) by (simp add: report_ok_def finish_report_def Let_def)
qed

lemma stale_report_ok: "report_ok env work (report_stale_after (en_id env) a) work"
  "report_ok env work (report_stale (en_id env)) work"
  by (simp_all add: report_ok_def report_stale_after_def report_stale_def)

lemma commit_slice_ok:
  assumes ok: "work_ok env work cache" and none: "wk_pending work = None"
    and recs: "records_of (eligible env) (ad_classifications a)"
    and pend: "\<And>p. pending = Some p \<Longrightarrow> pending_ok env p"
  shows "end_ok env work (commit_slice env pending a work cache checks)"
proof (cases "en_live env checks")
  case False
  then show ?thesis using ok by (simp add: commit_slice_def end_ok_def stale_report_ok)
next
  case True
  let ?max = "max_auxiliary_cache_bytes (en_limits env)"
  obtain w1 c1 where st: "store_facts env a (work, cache) = (w1, c1)" by fastforce
  have caches: "caches_ok ?max (work, cache)" and cls: "classified_ok (wk_classifications work)"
    using ok by (simp_all add: work_ok_def)
  define w0 where "w0 = store_classifications (ad_classifications a) w1"
  note f = store_facts_spec [OF caches st]
  have frame: "wk_revision w0 = wk_revision work" "wk_pending w0 = None"
    "wk_classifications w0 = wk_classifications (store_classifications (ad_classifications a) work)"
    "caches_ok ?max (w0, c1)"
    using f none by (simp_all add: w0_def store_classifications_def caches_ok_def)
  have cls0: "classified_ok (wk_classifications w0)"
    using store_classifications_ok [OF cls recs] frame(3) by simp
  have eq: "commit_slice env pending a work cache checks =
      (case next_revision a w0 of
             Inl e \<Rightarrow> SliceFailed e w0 c1
           | Inr work \<Rightarrow> (case pending of
               None \<Rightarrow> Reported (finish_report env a work) work c1
             | Some p \<Rightarrow>
                 (case hydrate_from_caches (en_variants env) (wk_outputs work) (en_resolver env) c1 p of
                   (cache, resolved, blocked, p) \<Rightarrow>
                     let a = a\<lparr>ad_facts_resolved := ad_facts_resolved a + resolved,
                           ad_capacity_deferred := ad_capacity_deferred a + blocked\<rparr>;
                         work = work\<lparr>wk_pending := Some p\<rparr>
                     in Reported (finish_report env a work) work cache)))"
    using True unfolding w0_def commit_slice_def Let_def by (simp add: st)
  show ?thesis
  proof (cases "next_revision a w0")
    case (Inl e)
    then have "unat (wk_revision work) + 1 \<ge> 2 ^ 64"
      using frame(1) by (auto simp: next_revision_def checked_add64_def split: if_splits option.splits)
    then have "wk_revision work = u64_max"
      using unsigned_less [of "wk_revision work", where 'a = nat] by (simp add: word_unat_eq_iff)
    then show ?thesis using frame cls0 unfolding eq by (simp add: Inl end_ok_def work_ok_def)
  next
    case (Inr w)
    have w: "wk_classifications w = wk_classifications w0" "wk_pending w = None" "caches_ok ?max (w, c1)"
      using Inr frame by (auto simp: next_revision_def caches_ok_def split: if_splits option.splits)
    show ?thesis
    proof (cases pending)
      case None
      have "report_ok env work (finish_report env a w) w"
        by (rule finish_report_ok [OF refl refl Inr frame(1) frame(3) recs refl])
      then show ?thesis using w cls0 unfolding eq by (simp add: Inr None end_ok_def work_ok_def)
    next
      case (Some p)
      obtain c2 x y q where h: "hydrate_from_caches (en_variants env) (wk_outputs w) (en_resolver env) c1 p = (c2, x, y, q)"
        by (rule prod_cases4)
      let ?a = "a\<lparr>ad_facts_resolved := ad_facts_resolved a + x, ad_capacity_deferred := ad_capacity_deferred a + y\<rparr>"
      have q: "pending_ok env q"
        using pend [OF Some] kept_advances [OF kept_hydrate_from_caches [OF h, of "en_lib env"]]
        by (auto simp: pending_ok_def advances_def)
      have "cache_ok c2 \<and> cc_maximum c2 = cc_maximum c1 \<and> cc_bytes c2 = cc_bytes c1"
        using hydrate_cached_cache [OF h [unfolded hydrate_from_caches_def]] w(3) by (simp add: caches_ok_def)
      then have c2: "caches_ok ?max (w\<lparr>wk_pending := Some q\<rparr>, c2)" using w(3) by (simp add: caches_ok_def)
      have "report_ok env work (finish_report env ?a (w\<lparr>wk_pending := Some q\<rparr>)) (w\<lparr>wk_pending := Some q\<rparr>)"
        by (rule finish_report_ok [OF _ _ Inr frame(1) frame(3) recs]) simp_all
      then show ?thesis using w cls0 q c2 unfolding eq by (simp add: Inr Some h Let_def end_ok_def work_ok_def)
    qed
  qed
qed

lemma pending_slice_run_ok:
  assumes ok: "work_ok env work cache" and none: "wk_pending work = None"
    and recs: "records_of (eligible env) (ad_classifications a)" and p: "pending_ok env p"
  shows "end_ok env work (pending_slice_run env p a work cache checks)"
proof -
  let ?s = "\<lparr> sl_work = work, sl_cache = cache, sl_pending = p, sl_advance = a, sl_paused = False,
      sl_checks = checks \<rparr>"
  have "slice_ok env work ?s"
    using ok recs p by (simp add: slice_ok_def work_ok_def)
  from facts_stage_ok [OF this] have st: "stage_ok env work (facts_stage env ?s)" .
  show ?thesis
  proof (cases "facts_stage env ?s")
    case (Inl e)
    then show ?thesis
      using st ok none by (cases e) (auto simp: pending_slice_run_def stage_ok_def end_ok_def slice_ok_def
          work_ok_def stale_report_ok)
  next
    case (Inr s)
    then have s: "slice_ok env work s" using st by simp
    have "work_ok env work (sl_cache s)" using s ok by (simp add: slice_ok_def work_ok_def)
    from commit_slice_ok [OF this none, of "sl_advance s"]
    show ?thesis using s by (auto simp: pending_slice_run_def Inr slice_ok_def)
  qed
qed

section \<open>New candidates\<close>

text \<open>
  What a slice relies on when it requests transactions: each answer is for a transaction it
  requested, no two for the same one, and a transaction found has a structure that can be derived.
\<close>

definition same_core :: "classification_work \<Rightarrow> classification_work \<Rightarrow> bool" where
  "same_core w w' \<longleftrightarrow> wk_classifications w' = wk_classifications w \<and> wk_outputs w' = wk_outputs w \<and>
     wk_output_bytes w' = wk_output_bytes w \<and> wk_pending w' = wk_pending w \<and> wk_revision w' = wk_revision w"

lemma same_core_refl [simp]: "same_core w w" by (simp add: same_core_def)

lemma same_core_trans: "same_core u v \<Longrightarrow> same_core v w \<Longrightarrow> same_core u w"
  by (simp add: same_core_def)

lemma work_ok_core: "same_core w w' \<Longrightarrow> work_ok env w' cache = work_ok env w cache"
  by (simp add: same_core_def work_ok_def caches_ok_def)

lemma end_ok_core: "same_core w w' \<Longrightarrow> end_ok env w' r = end_ok env w r"
  by (simp add: same_core_def end_ok_def report_ok_def store_classifications_def
      split: slice_end.splits option.splits)

lemma grant_retry_core: "same_core work (fold grant_retry ks work)"
proof (induction ks arbitrary: work)
  case (Cons k ks)
  have "same_core work (grant_retry k work)" by (simp add: grant_retry_def same_core_def)
  from same_core_trans [OF this Cons] show ?case by simp
qed simp

lemma select_candidates_spec:
  assumes "select_candidates maximum entries work = (cs, work')" "distinct (map me_wtxid entries)"
  shows "distinct (map ev_wtxid cs)" "set cs \<subseteq> expected_of ` set entries" "same_core work work'"
proof -
  let ?es = "filter (fresh_entry work) entries @ filter (retryable_entry work) entries"
  have cs: "cs = bounded_variants (map expected_of ?es) maximum"
    and w: "work' = work\<lparr>wk_attempted := fold (\<lambda>c. bs_insert (ev_wtxid c)) cs (wk_attempted work)\<rparr>"
    using assms(1) by (auto simp: select_candidates_def Let_def)
  show "same_core work work'" by (simp add: w same_core_def)
  obtain rest where pre: "map expected_of ?es = cs @ rest"
    using bounded_loop_prefix [of maximum 0 "[]" "map expected_of ?es"] by (auto simp: cs bounded_variants_def)
  have keys: "map ev_wtxid (map expected_of es) = map me_wtxid es" for es
    by (simp add: expected_of_def comp_def)
  have disj: "\<not> (fresh_entry work e \<and> retryable_entry work e)" for e
    by (auto simp: fresh_entry_def retryable_entry_def bt_contains_def split: option.splits)
  have "distinct (map me_wtxid ?es)"
    using assms(2) disj by (auto simp: distinct_map_filter inj_on_def distinct_map)
  then have "distinct (map ev_wtxid (cs @ rest))" by (metis keys pre)
  then show "distinct (map ev_wtxid cs)" by simp
  have "set cs \<subseteq> set (map expected_of ?es)" unfolding pre by simp
  then show "set cs \<subseteq> expected_of ` set entries" by auto
qed

locale transaction_source =
  fixes lib :: rust_bitcoin
    and fetch_all :: "expected_variant list \<Rightarrow> (expected_variant, transaction) fetch"
  assumes answers_requested: "mset (map fst (cf_values (fetch_all req))) \<subseteq># mset req"
    and found_structure: "(e, Found tx) \<in> set (cf_values (fetch_all req)) \<Longrightarrow> \<not> isl (structure_of lib tx)"
begin

lemma found_requested:
  "mset (map fst (found_values (fetch_all req))) \<subseteq># mset req"
proof -
  have "mset (map fst (List.map_filter (\<lambda>(k, v). case v of Found x \<Rightarrow> Some (k, x) | _ \<Rightarrow> None) xs)) \<subseteq>#
      mset (map fst xs)" for xs :: "(expected_variant \<times> transaction rpc_value) list"
    by (induction xs) (auto simp: List.map_filter_def split: rpc_value.splits intro: subset_mset.order_trans)
  then show ?thesis
    unfolding found_values_def using answers_requested by (rule subset_mset.order_trans)
qed

lemma found_distinct:
  assumes "distinct (map ev_wtxid req)"
  shows "distinct (map (ev_wtxid \<circ> fst) (found_values (fetch_all req)))"
    and "set (map fst (found_values (fetch_all req))) \<subseteq> set req"
proof -
  have sub: "mset (map ev_wtxid (map fst (found_values (fetch_all req)))) \<subseteq># mset (map ev_wtxid req)"
    unfolding mset_map [of ev_wtxid] by (rule image_mset_subseteq_mono [OF found_requested])
  have "distinct xs" if "mset xs \<subseteq># mset ys" "distinct ys" for xs ys :: "string list"
    using that by (metis distinct_append ex_mset mset_append mset_eq_imp_distinct_iff
        mset_subset_eq_exists_conv)
  from this [OF sub assms] show "distinct (map (ev_wtxid \<circ> fst) (found_values (fetch_all req)))" by simp
  show "set (map fst (found_values (fetch_all req))) \<subseteq> set req"
    using set_mset_mono [OF found_requested, of req] by simp
qed

lemma found_transaction:
  "(e, tx) \<in> set (found_values (fetch_all req)) \<Longrightarrow> \<not> isl (structure_of lib tx)"
  using found_structure by (fastforce simp: found_values_def List.map_filter_def split: rpc_value.splits)

text \<open>The transactions found are ones a slice may hold, when none has a null input it should not.\<close>

lemma admit_fetched_ok:
  assumes "admit_fetched env (fetch_all cs) work a = (pending, work', a')" "en_lib env = lib"
    "distinct (map ev_wtxid cs)" "set cs \<subseteq> expected_of ` set (en_entries env)"
    "max_pending_script_bytes (en_resolver env) \<le> usize_max"
    "\<forall>(e, tx) \<in> set (found_values (fetch_all cs)). \<not> is_coinbase lib tx \<longrightarrow>
       list_all (\<lambda>i. \<not> is_null lib (previous_output i)) (tx_inputs tx)"
  shows "same_core work work'" "ad_classifications a' = ad_classifications a"
    "pending = Some p \<Longrightarrow> pending_ok env p"
proof -
  let ?txs = "found_values (fetch_all cs)"
  let ?p = "pending_new lib (en_codec env) ?txs (en_variants env) (en_resolver env)"
  have eq: "work' = fold grant_retry (retryable_variants (fetch_all cs)) work"
    "ad_classifications a' = ad_classifications a" "pending = None \<or> pending = Some ?p"
    using assms(1,2) by (auto simp: admit_fetched_def Let_def split: if_splits)
  show "same_core work work'" by (simp add: eq(1) grant_retry_core)
  show "ad_classifications a' = ad_classifications a" by (rule eq(2))
  have "(e, tx) \<in> eligible env" if "(e, tx) \<in> set ?txs" for e tx
  proof -
    have "e \<in> set cs" using found_distinct(2) [OF assms(3)] that by force
    with assms(4) have "e \<in> expected_of ` set (en_entries env)" by blast
    then show ?thesis
      using found_transaction [OF that] assms(6) that by (auto simp: eligible_def well_formed_def assms(2))
  qed
  then have "set ?txs \<subseteq> eligible env" by auto
  moreover have "pending_inv lib (en_resolver env) ?p"
    by (rule pending_new_inv [OF found_distinct(1) [OF assms(3)] assms(5)])
  ultimately have "pending_ok env ?p"
    using pending_new_admitted [of lib "en_codec env" ?txs "en_variants env" "en_resolver env"]
    by (auto simp: pending_ok_def assms(2))
  with eq(3) show "pending = Some p \<Longrightarrow> pending_ok env p" by auto
qed

end

section \<open>The whole slice\<close>

text \<open>What the surroundings of a slice must satisfy, besides answering only what it requests.\<close>

definition env_ok :: "slice_env \<Rightarrow> bool" where
  "env_ok env \<longleftrightarrow> distinct (map me_wtxid (en_entries env)) \<and>
     max_pending_script_bytes (en_resolver env) \<le> usize_max \<and>
     (\<forall>req e tx. (e, Found tx) \<in> set (cf_values (en_raw env req)) \<longrightarrow> \<not> is_coinbase (en_lib env) tx \<longrightarrow>
       list_all (\<lambda>i. \<not> is_null (en_lib env) (previous_output i)) (tx_inputs tx))"

lemma no_records [simp]: "ad_classifications advance_default = []" "records_of W []"
  by (simp_all add: advance_default_def records_of_def)

lemma fresh_slice_run_ok:
  assumes src: "transaction_source (en_lib env) (en_raw env)" and env: "env_ok env"
    and ok: "work_ok env work cache" and none: "wk_pending work = None"
  shows "end_ok env work (fresh_slice_run env work cache checks)"
proof -
  obtain cs w1 where sel: "select_candidates (max_transactions_per_slice (en_limits env)) (en_entries env) work = (cs, w1)"
    by fastforce
  have d: "distinct (map me_wtxid (en_entries env))" using env by (simp add: env_ok_def)
  note cand = select_candidates_spec [OF sel d]
  let ?a = "advance_default\<lparr>ad_attempted := length cs\<rparr>"
  let ?f = "en_raw env cs"
  let ?b = "absorb_counts ?f ?a"
  have b: "ad_classifications ?b = []" by (simp add: absorb_counts_def)
  have w1: "work_ok env w1 cache" "wk_pending w1 = None"
    using ok none work_ok_core [OF cand(3)] cand(3) by (auto simp: same_core_def)
  obtain pending w2 a2 where adm: "admit_fetched env ?f w1 ?b = (pending, w2, a2)"
    by (rule prod_cases3)
  have nulls: "\<forall>(e, tx) \<in> set (found_values ?f). \<not> is_coinbase (en_lib env) tx \<longrightarrow>
      list_all (\<lambda>i. \<not> is_null (en_lib env) (previous_output i)) (tx_inputs tx)"
    using env by (fastforce simp: env_ok_def found_values_def List.map_filter_def split: rpc_value.splits)
  have usize: "max_pending_script_bytes (en_resolver env) \<le> usize_max" using env by (simp add: env_ok_def)
  note fresh = transaction_source.admit_fetched_ok [OF src adm refl cand(1,2) usize nulls]
  have w2: "work_ok env w2 cache" "wk_pending w2 = None"
    using w1 work_ok_core [OF fresh(1)] fresh(1) by (auto simp: same_core_def)
  have a2: "ad_classifications a2 = []" using fresh(2) b by simp
  have "end_ok env w1 (fresh_slice_run env work cache checks)"
  proof (cases "cs = []")
    case True
    then have "fresh_slice_run env work cache checks = commit_slice env None ?a w1 cache checks"
      by (simp add: fresh_slice_run_def sel)
    then show ?thesis using commit_slice_ok [OF w1, of ?a None checks] by simp
  next
    case False
    show ?thesis
    proof (cases "en_live env checks")
      case dead: False
      then show ?thesis
        using w1 False by (simp add: fresh_slice_run_def sel Let_def end_ok_def stale_report_ok)
    next
      case True
      have "end_ok env w2 (fresh_slice_run env work cache checks)"
      proof (cases pending)
        case None
        then have "fresh_slice_run env work cache checks = commit_slice env None a2 w2 cache (checks + 1)"
          using False True adm by (simp add: fresh_slice_run_def sel Let_def)
        then show ?thesis using commit_slice_ok [OF w2, of a2 None] a2 by simp
      next
        case (Some p)
        then have "fresh_slice_run env work cache checks = pending_slice_run env p a2 w2 cache (checks + 1)"
          using False True adm by (simp add: fresh_slice_run_def sel Let_def)
        then show ?thesis using pending_slice_run_ok [OF w2, of a2 p] a2 fresh(3) [OF Some] by simp
      qed
      then show ?thesis by (simp add: end_ok_core [OF fresh(1)])
    qed
  qed
  then show ?thesis by (simp add: end_ok_core [OF cand(3)])
qed

lemma classify_generation_ok:
  assumes src: "transaction_source (en_lib env) (en_raw env)" and env: "env_ok env"
    and ok: "work_ok env work cache"
  shows "end_ok env work (classify_generation env expected work cache)"
proof (cases "expected \<noteq> Some (en_id env) \<or> \<not> en_live env 0 \<or> \<not> en_live env 1")
  case True
  then show ?thesis using ok by (simp add: classify_generation_def end_ok_def stale_report_ok)
next
  case False
  show ?thesis
  proof (cases "wk_pending work")
    case None
    then show ?thesis
      using False fresh_slice_run_ok [OF src env ok None] by (simp add: classify_generation_def)
  next
    case (Some p)
    have w: "work_ok env (work\<lparr>wk_pending := None\<rparr>) cache" "pending_ok env p"
      using ok Some by (simp_all add: work_ok_def caches_ok_def)
    have "end_ok env (work\<lparr>wk_pending := None\<rparr>)
        (pending_slice_run env p advance_default (work\<lparr>wk_pending := None\<rparr>) cache 2)"
      using pending_slice_run_ok [OF w(1) _ _ w(2), of advance_default] by simp
    moreover have "end_ok env (work\<lparr>wk_pending := None\<rparr>) r = end_ok env work r" for r
      by (simp add: end_ok_def report_ok_def store_classifications_def split: slice_end.splits option.splits)
    ultimately show ?thesis using False Some by (simp add: classify_generation_def)
  qed
qed

end
