(* ===== verification/Transport.thy ===== *)
theory Transport
  imports Prelude
begin

text \<open>
  The bounded HTTP transport, \<^verbatim>\<open>src/rpc_transport.rs\<close>, and the string functions of the standard library
  that several components use. Sending a request is \<^verbatim>\<open>minreq\<close>'s and a parameter; a response is its
  status, its headers and the body as the successive chunks that reads will find. A read returns at most as
  much as it asks for, and an empty read is the end of the body.
\<close>

section \<open>Strings\<close>

text \<open>
  \<^verbatim>\<open>str::trim\<close> on UTF-8 text: the encodings of the characters with the property \<^verbatim>\<open>White_Space\<close>.
\<close>

definition white_space :: "string list" where
  "white_space = map (map char_of)
     ([[0x09], [0x0a], [0x0b], [0x0c], [0x0d], [0x20], [0xc2, 0x85], [0xc2, 0xa0], [0xe1, 0x9a, 0x80]]
      @ map (\<lambda>n. [0xe2, 0x80, n]) ([0x80..<0x8b] @ [0xa8, 0xa9, 0xaf])
      @ [[0xe2, 0x81, 0x9f], [0xe3, 0x80, 0x80 :: nat]])"

lemma found_shorter:
  assumes "List.find (\<lambda>w. w \<noteq> [] \<and> take (length w) s = w) ws = Some w"
  shows "length (drop (length w) s) < length s"
proof -
  have "w \<noteq> []" "take (length w) s = w" using assms by (auto simp: find_Some_iff)
  then have "s \<noteq> []" by auto
  with \<open>w \<noteq> []\<close> show ?thesis by simp
qed

function drop_leading :: "string list \<Rightarrow> string \<Rightarrow> string" where
  "drop_leading ws s = (case List.find (\<lambda>w. w \<noteq> [] \<and> take (length w) s = w) ws of
     None \<Rightarrow> s | Some w \<Rightarrow> drop_leading ws (drop (length w) s))"
  by auto
termination
  by (relation "measure (\<lambda>(_, s). length s)") (auto dest: found_shorter simp del: length_drop)

declare drop_leading.simps [simp del]

definition trim_start :: "string \<Rightarrow> string" where
  "trim_start = drop_leading white_space"

definition trim_end :: "string \<Rightarrow> string" where
  "trim_end s = rev (drop_leading (map rev white_space) (rev s))"

definition trim :: "string \<Rightarrow> string" where
  "trim s = trim_end (trim_start s)"

definition ascii_lower :: "char \<Rightarrow> char" where
  "ascii_lower c = (let n = of_char c :: nat in if 0x41 \<le> n \<and> n \<le> 0x5a then char_of (n + 0x20) else c)"

definition eq_ignore_ascii_case :: "string \<Rightarrow> string \<Rightarrow> bool" where
  "eq_ignore_ascii_case a b \<longleftrightarrow> map ascii_lower a = map ascii_lower b"

text \<open>\<^verbatim>\<open>str::parse::<usize>\<close>: an optional plus sign, then decimal digits, without overflow.\<close>

definition digit_of :: "char \<Rightarrow> nat option" where
  "digit_of c = (let n = of_char c in if 0x30 \<le> n \<and> n \<le> 0x39 then Some (n - 0x30) else None)"

fun parse_digits :: "nat \<Rightarrow> string \<Rightarrow> nat option" where
  "parse_digits n [] = Some n"
| "parse_digits n (c # cs) = (case digit_of c of
     None \<Rightarrow> None
   | Some d \<Rightarrow> if n * 10 + d \<le> usize_max then parse_digits (n * 10 + d) cs else None)"

definition parse_usize :: "string \<Rightarrow> nat option" where
  "parse_usize s =
     (let digits = (case s of c # cs \<Rightarrow> if c = CHR ''+'' then cs else s | [] \<Rightarrow> [])
      in if digits = [] then None else parse_digits 0 digits)"

section \<open>Responses\<close>

definition MAX_RESPONSE_HEADER_BYTES :: nat where "MAX_RESPONSE_HEADER_BYTES = 64 * 1024"
definition MAX_RESPONSE_STATUS_LINE_BYTES :: nat where "MAX_RESPONSE_STATUS_LINE_BYTES = 8 * 1024"

datatype read_event = Chunk bytes | ReadFailure

record http_response =
  hr_status :: u16
  hr_headers :: "(string \<times> string) list"
  hr_body :: "read_event list"

datatype transport_error =
    Transport
  | UnexpectedHttpStatus u16
  | UnsupportedTransferEncoding
  | IncompleteResponseBody nat nat
  | ResponseTooLarge nat nat

text \<open>\<^verbatim>\<open>Read::read\<close> into a buffer of \<open>n\<close> bytes.\<close>

fun read_some :: "nat \<Rightarrow> read_event list \<Rightarrow> transport_error + bytes \<times> read_event list" where
  "read_some n [] = Inr ([], [])"
| "read_some n (ReadFailure # es) = Inl Transport"
| "read_some n (Chunk c # es) =
     (if length c \<le> n then Inr (c, es) else Inr (take n c, Chunk (drop n c) # es))"

fun event_size :: "read_event \<Rightarrow> nat" where
  "event_size (Chunk c) = Suc (length c)"
| "event_size ReadFailure = 1"

lemma read_some_shrinks:
  "read_some n es = Inr (c, es') \<Longrightarrow> c \<noteq> [] \<Longrightarrow> (\<Sum>e\<leftarrow>es'. event_size e) < (\<Sum>e\<leftarrow>es. event_size e)"
  by (induction n es rule: read_some.induct) (auto split: if_splits)

text \<open>The body of the loop asks for one byte more than it may still accept, within its buffer.\<close>

definition read_limit :: "nat \<Rightarrow> bytes \<Rightarrow> nat" where
  "read_limit maximum body = min (sat_add (sat_sub maximum (length body)) 1) (8 * 1024)"

function read_body :: "nat \<Rightarrow> read_event list \<Rightarrow> bytes \<Rightarrow> transport_error + bytes" where
  "read_body maximum es body = (case read_some (read_limit maximum body) es of
     Inl e \<Rightarrow> Inl e
   | Inr (c, es') \<Rightarrow>
       if c = [] then Inr body
       else if sat_sub maximum (length body) < length c then Inl (ResponseTooLarge (sat_add maximum 1) maximum)
       else read_body maximum es' (body @ c))"
  by auto
termination
  by (relation "measure (\<lambda>(_, es, _). \<Sum>e\<leftarrow>es. event_size e)") (auto dest: read_some_shrinks)

declare read_body.simps [simp del]

definition header_named :: "string \<Rightarrow> string \<times> string \<Rightarrow> bool" where
  "header_named name = (\<lambda>(n, _). eq_ignore_ascii_case n name)"

definition announced_length :: "http_response \<Rightarrow> nat option" where
  "announced_length r = Option.bind (List.find (header_named ''content-length'') (hr_headers r))
     (\<lambda>(_, v). parse_usize (trim v))"

definition read_bounded_response :: "http_response \<Rightarrow> nat \<Rightarrow> transport_error + u16 \<times> bytes" where
  "read_bounded_response r maximum =
     (if list_ex (header_named ''transfer-encoding'') (hr_headers r) then Inl UnsupportedTransferEncoding
      else case announced_length r of
        Some actual \<Rightarrow>
          if maximum < actual then Inl (ResponseTooLarge actual maximum)
          else (case read_body maximum (hr_body r) [] of
              Inl e \<Rightarrow> Inl e
            | Inr body \<Rightarrow> if length body \<noteq> actual then Inl (IncompleteResponseBody actual (length body))
                else Inr (hr_status r, body))
      | None \<Rightarrow> (case read_body maximum (hr_body r) [] of
          Inl e \<Rightarrow> Inl e | Inr body \<Rightarrow> Inr (hr_status r, body)))"

text \<open>One request; \<open>send\<close> is \<^verbatim>\<open>minreq\<close> with redirects off and the header limits above.\<close>

definition post_json_bounded ::
    "(bytes \<Rightarrow> http_response option) \<Rightarrow> bytes \<Rightarrow> nat \<Rightarrow> transport_error + u16 \<times> bytes" where
  "post_json_bounded send body maximum = (case send body of
     None \<Rightarrow> Inl Transport
   | Some r \<Rightarrow> if hr_status r \<noteq> 200 then Inl (UnexpectedHttpStatus (hr_status r))
       else read_bounded_response r maximum)"

section \<open>The body that is read\<close>

text \<open>What the peer delivers before the end or a failure, and whether it failed.\<close>

fun delivered :: "read_event list \<Rightarrow> bytes \<times> bool" where
  "delivered [] = ([], False)"
| "delivered (ReadFailure # es) = ([], True)"
| "delivered (Chunk c # es) =
     (if c = [] then ([], False) else (let (b, failed) = delivered es in (c @ b, failed)))"

lemma delivered_read:
  "read_some n es = Inr (c, es') \<Longrightarrow> 0 < n \<Longrightarrow> delivered es = (if c = [] then ([], False)
     else (c @ fst (delivered es'), snd (delivered es')))"
proof (induction n es rule: read_some.induct)
  case (3 n d es)
  show ?case
  proof (cases "length d \<le> n")
    case True
    then show ?thesis using 3 by (auto simp: case_prod_unfold Let_def)
  next
    case False
    then have "c = take n d" "es' = Chunk (drop n d) # es" using 3 by auto
    moreover have "take n d @ drop n d = d" "d \<noteq> []" "take n d \<noteq> []" "drop n d \<noteq> []"
      using False 3(2) by auto
    ultimately show ?thesis by (auto simp: case_prod_unfold Let_def simp flip: append_assoc)
  qed
qed simp_all

lemma delivered_failure: "read_some n es = Inl e \<Longrightarrow> delivered es = ([], True) \<and> e = Transport"
  by (induction n es rule: read_some.induct) (auto split: if_splits)

text \<open>The loop computes exactly this: all that is delivered, unless that is too much.\<close>

lemma read_body_spec:
  "length body \<le> maximum \<Longrightarrow> read_body maximum es body = (case delivered es of (b, failed) \<Rightarrow>
     if maximum < length body + length b then Inl (ResponseTooLarge (sat_add maximum 1) maximum)
     else if failed then Inl Transport else Inr (body @ b))"
proof (induction maximum es body rule: read_body.induct)
  case (1 maximum es body)
  let ?n = "read_limit maximum body"
  have n: "0 < ?n" by (simp add: read_limit_def sat_add_def)
  show ?case
  proof (cases "read_some ?n es")
    case (Inl e)
    then show ?thesis using delivered_failure [OF Inl] 1(2) by (simp add: read_body.simps [of maximum])
  next
    case (Inr r)
    obtain c es' where r: "r = (c, es')" by (cases r)
    note d = delivered_read [OF Inr [unfolded r] n]
    show ?thesis
    proof (cases "c = []")
      case True
      then show ?thesis using 1(2) d by (simp add: read_body.simps [of maximum] Inr r)
    next
      case False
      show ?thesis
      proof (cases "maximum - length body < length c")
        case True
        then show ?thesis using False d 1(2) by (auto simp: read_body.simps [of maximum es] Inr r sat_sub_def)
      next
        case le: False
        then have "length (body @ c) \<le> maximum" using 1(2) by simp
        with 1(1) [OF Inr r [symmetric] False] le
        have "read_body maximum es' (body @ c) = (case delivered es' of (b, failed) \<Rightarrow>
            if maximum < length (body @ c) + length b then Inl (ResponseTooLarge (sat_add maximum 1) maximum)
            else if failed then Inl Transport else Inr ((body @ c) @ b))"
          by (simp add: sat_sub_def)
        then show ?thesis
          using False le d by (simp add: read_body.simps [of maximum es] Inr r sat_sub_def case_prod_unfold add.assoc)
      qed
    qed
  qed
qed

text \<open>
  C21: Reading a response always ends, and returns exactly the bytes delivered when the node answered
  without transfer encoding, within the limit, without a failure, and with the length it announced; else the
  error of the first of these that it breaks. In particular no more than the limit is ever accepted.
\<close>

theorem bounded_response_is_exact:
  "read_bounded_response r maximum =
     (if list_ex (\<lambda>(n, v). eq_ignore_ascii_case n ''transfer-encoding'') (hr_headers r) then Inl UnsupportedTransferEncoding
      else if \<exists>n. announced_length r = Some n \<and> maximum < n
      then Inl (ResponseTooLarge (the (announced_length r)) maximum)
      else case delivered (hr_body r) of (body, failed) \<Rightarrow>
        if maximum < length body then Inl (ResponseTooLarge (sat_add maximum 1) maximum)
        else if failed then Inl Transport
        else if \<exists>n. announced_length r = Some n \<and> n \<noteq> length body
        then Inl (IncompleteResponseBody (the (announced_length r)) (length body))
        else Inr (hr_status r, body))"
  by (auto simp: read_bounded_response_def read_body_spec header_named_def list_ex_iff case_prod_unfold
      split: option.splits)

end
