(* ===== verification/Rpc_Batch.thy ===== *)
theory Rpc_Batch
  imports Transport BTree "HOL-Library.Multiset"
begin

text \<open>
  JSON-RPC batches, \<^verbatim>\<open>src/classification_rpc.rs\<close>: request ids, the outcome of a response (a present
  \<^verbatim>\<open>null\<close> result is not an omitted one), and matching responses to requests by id. Parsing JSON
  text is \<^verbatim>\<open>serde_json\<close>'s and a parameter. A response
  arrives as the raw text of its members; \<open>None\<close> is an omitted member.
\<close>

section \<open>Responses\<close>

datatype member = MissingMember | NullMember | ValueMember string

record rpc_response =
  rs_result :: member
  rs_error :: member
  rs_id :: u64
  rs_jsonrpc :: "string option"

datatype rpc_outcome = OutcomeValue string | OutcomeNull | OutcomeError int | ProtocolFailure | Malformed

definition JSON_RPC_VERSION :: string where "JSON_RPC_VERSION = ''2.0''"

text \<open>\<^verbatim>\<open>deserialize_result_member\<close> and \<^verbatim>\<open>deserialize_error_member\<close>, and the default of both.\<close>

definition member_of :: "string option \<Rightarrow> member" where
  "member_of text = (case text of None \<Rightarrow> MissingMember
   | Some raw \<Rightarrow> if trim raw = ''null'' then NullMember else ValueMember raw)"

definition outcome_of :: "(string \<Rightarrow> int option) \<Rightarrow> rpc_response \<Rightarrow> rpc_outcome" where
  "outcome_of parse_error_code r =
     (if rs_jsonrpc r \<noteq> Some JSON_RPC_VERSION then ProtocolFailure
      else case rs_error r of
          ValueMember error \<Rightarrow> (case parse_error_code error of Some code \<Rightarrow> OutcomeError code | None \<Rightarrow> Malformed)
        | NullMember \<Rightarrow> Malformed
        | MissingMember \<Rightarrow> (case rs_result r of
            ValueMember result \<Rightarrow> OutcomeValue result | NullMember \<Rightarrow> OutcomeNull | MissingMember \<Rightarrow> Malformed))"

section \<open>Batches\<close>

text \<open>The errors of the client, without the nested sources of the libraries.\<close>

datatype rpc_error =
    EmptyBatch
  | RequestIdExhausted
  | EncodeRequest
  | RpcTransport
  | RpcUnexpectedHttpStatus u16
  | RpcUnsupportedTransferEncoding
  | RpcIncompleteResponseBody nat nat
  | DecodeResponse u16
  | RpcResponseTooLarge nat nat
  | WrongBatchResponseSize
  | DuplicateResponseId u64
  | UnexpectedResponseId u64

fun from_transport_error :: "transport_error \<Rightarrow> rpc_error" where
  "from_transport_error Transport = RpcTransport"
| "from_transport_error (UnexpectedHttpStatus status) = RpcUnexpectedHttpStatus status"
| "from_transport_error UnsupportedTransferEncoding = RpcUnsupportedTransferEncoding"
| "from_transport_error (IncompleteResponseBody expected actual) = RpcIncompleteResponseBody expected actual"
| "from_transport_error (ResponseTooLarge actual maximum) = RpcResponseTooLarge actual maximum"

definition reserve_ids :: "nat \<Rightarrow> u64 \<Rightarrow> rpc_error + u64 list \<times> u64" where
  "reserve_ids n next_id =
     (if n = 0 then Inl EmptyBatch
      else if usize_max < n then Inl RequestIdExhausted
      else (case checked_add64 next_id (of_nat n) of
          None \<Rightarrow> Inl RequestIdExhausted
        | Some bound \<Rightarrow> Inr (map (\<lambda>i. next_id + of_nat i) [0..<n], bound)))"

fun index_responses ::
    "rpc_response list \<Rightarrow> (u64, rpc_response) btree \<Rightarrow> rpc_error + (u64, rpc_response) btree" where
  "index_responses [] m = Inr m"
| "index_responses (r # rs) m =
     (if bt_contains m (rs_id r) then Inl (DuplicateResponseId (rs_id r))
      else index_responses rs (bt_insert (rs_id r) r m))"

fun take_responses ::
    "u64 list \<Rightarrow> (u64, rpc_response) btree \<Rightarrow> rpc_response option list \<times> (u64, rpc_response) btree" where
  "take_responses [] m = ([], m)"
| "take_responses (k # ks) m =
     (let (rs, rest) = take_responses ks (bt_remove k m) in (bt_get m k # rs, rest))"

text \<open>
  The hash map's first key, when ids are left over, is any of them: \<open>first_key\<close> chooses it.
\<close>

definition decode_batch_response ::
    "(bytes \<Rightarrow> rpc_response list option) \<Rightarrow> (u64 list \<Rightarrow> u64) \<Rightarrow> bytes \<Rightarrow> u16 \<Rightarrow> u64 list \<Rightarrow>
     rpc_error + rpc_response option list" where
  "decode_batch_response parse first_key body status_code expected_ids =
     (case parse body of
        None \<Rightarrow> Inl (DecodeResponse status_code)
      | Some responses \<Rightarrow>
          if length expected_ids < length responses then Inl WrongBatchResponseSize
          else (case index_responses responses [] of
              Inl e \<Rightarrow> Inl e
            | Inr by_id \<Rightarrow> (case take_responses expected_ids by_id of
                (ordered, rest) \<Rightarrow>
                  if rest \<noteq> [] then Inl (UnexpectedResponseId (first_key (bt_keys rest)))
                  else Inr ordered)))"

record rpc_batch =
  rb_responses :: "rpc_response option list"
  rb_response_bytes :: nat

text \<open>
  The client: what the libraries do for it (the encoding of a request, sending it to the configured
  node, parsing the body), and its response limit.
\<close>

record 'p rpc_wire =
  encode_request :: "string \<Rightarrow> 'p list \<Rightarrow> u64 list \<Rightarrow> bytes option"
  send_request :: "bytes \<Rightarrow> http_response option"
  maximum_response_bytes :: nat
  parse_responses :: "bytes \<Rightarrow> rpc_response list option"
  first_key :: "u64 list \<Rightarrow> u64"

definition send_batch ::
    "'p rpc_wire \<Rightarrow> string \<Rightarrow> 'p list \<Rightarrow> u64 \<Rightarrow> (rpc_error + rpc_batch) \<times> u64" where
  "send_batch wire method parameters next_id =
     (case reserve_ids (length parameters) next_id of
        Inl e \<Rightarrow> (Inl e, next_id)
      | Inr (ids, bound) \<Rightarrow>
          ((case encode_request wire method parameters ids of
              None \<Rightarrow> Inl EncodeRequest
            | Some request \<Rightarrow>
                (case post_json_bounded (send_request wire) request (maximum_response_bytes wire) of
                   Inl e \<Rightarrow> Inl (from_transport_error e)
                 | Inr (status_code, body) \<Rightarrow>
                     ok_then (decode_batch_response (parse_responses wire) (first_key wire) body status_code ids)
                       (\<lambda>responses. Inr \<lparr> rb_responses = responses, rb_response_bytes = length body \<rparr>))), bound))"

section \<open>Properties\<close>

lemma index_responses_spec:
  "bt_ok m \<Longrightarrow> index_responses rs m = Inr m' \<Longrightarrow> bt_ok m' \<and> distinct (map rs_id rs) \<and>
     (\<forall>k. bt_get m' k = (case find (\<lambda>r. rs_id r = k) rs of Some r \<Rightarrow> Some r | None \<Rightarrow> bt_get m k)) \<and>
     (\<forall>r \<in> set rs. bt_get m (rs_id r) = None)"
proof (induction rs arbitrary: m)
  case Nil
  then show ?case by simp
next
  case (Cons r rs)
  then have fresh: "bt_get m (rs_id r) = None" and rest: "index_responses rs (bt_insert (rs_id r) r m) = Inr m'"
    by (auto simp: bt_contains_def split: if_splits)
  note IH = Cons.IH [OF bt_ok_insert [OF Cons.prems(1)] rest]
  have ins: "bt_get (bt_insert (rs_id r) r m) k = (if k = rs_id r then Some r else bt_get m k)" for k
    using Cons.prems(1) by (rule bt_get_insert)
  have others: "rs_id x \<noteq> rs_id r \<and> bt_get m (rs_id x) = None" if "x \<in> set rs" for x
    using IH that by (auto simp: ins split: if_splits)
  have none: "find (\<lambda>x. rs_id x = rs_id r) rs = None"
    using others by (auto simp: find_None_iff)
  have "bt_get m' k = (case find (\<lambda>r. rs_id r = k) (r # rs) of Some r \<Rightarrow> Some r | None \<Rightarrow> bt_get m k)" for k
    using IH none by (auto simp: ins split: option.splits)
  moreover have "distinct (map rs_id (r # rs))"
  proof -
    have "rs_id r \<notin> rs_id ` set rs" using others by (metis imageE)
    then show ?thesis using IH by simp
  qed
  ultimately show ?case using IH others fresh by auto
qed

lemma take_responses_spec:
  "distinct ks \<Longrightarrow> bt_ok m \<Longrightarrow> take_responses ks m = (map (bt_get m) ks, filter (\<lambda>e. fst e \<notin> set ks) m)"
proof (induction ks arbitrary: m)
  case Nil
  then show ?case by simp
next
  case (Cons k ks)
  have "map (bt_get (bt_remove k m)) ks = map (bt_get m) ks"
    using Cons.prems by (auto simp: bt_get_remove)
  moreover have "filter (\<lambda>e. fst e \<notin> set ks) (bt_remove k m) = filter (\<lambda>e. fst e \<notin> set (k # ks)) m"
    by (auto simp: bt_remove_def intro: filter_cong)
  ultimately show ?case using Cons by (simp add: bt_ok_remove)
qed

text \<open>
  Ids are consecutive and distinct, and no two reservations overlap: the counter never wraps.
\<close>

lemma reserve_ids_spec:
  "reserve_ids n next_id = Inr (ids, bound) \<longleftrightarrow> n \<noteq> 0 \<and> unat next_id + n < 2 ^ 64 \<and>
     map unat ids = [unat next_id..<unat next_id + n] \<and> unat bound = unat next_id + n"
proof -
  have c: "unat (of_nat n :: u64) = n" if "n \<le> usize_max"
    using that by (simp add: unat_of_nat)
  have i: "unat (next_id + of_nat i) = unat next_id + i" if "unat next_id + i < 2 ^ 64" for i
    using that by (simp add: unat_word_ariths unat_of_nat)
  have ids: "map unat (map (\<lambda>i. next_id + of_nat i) [0..<n]) = [unat next_id..<unat next_id + n]"
    if "unat next_id + n < 2 ^ 64"
    using that i by (intro nth_equalityI) auto
  have eq: "xs = ys" if "map unat xs = map unat ys" for xs ys :: "u64 list"
    using that by (metis inj_map_eq_map inj_unsigned)
  show ?thesis
  proof (cases "n \<noteq> 0 \<and> unat next_id + n < 2 ^ 64")
    case True
    then have "n \<le> usize_max" by simp
    with True c have add: "checked_add64 next_id (of_nat n) = Some (next_id + of_nat n)"
      by (simp add: checked_add64_def)
    have "unat (next_id + of_nat n) = unat next_id + n" using True i by blast
    then have "unat bound = unat next_id + n \<longleftrightarrow> bound = next_id + of_nat n"
      by (metis word_unat_eq_iff)
    then show ?thesis
      using True add \<open>n \<le> usize_max\<close> ids
        eq [of "map (\<lambda>i. next_id + of_nat i) [0..<n]" ids]
      by (auto simp: reserve_ids_def simp del: map_map)
  next
    case False
    then show ?thesis using c by (auto simp: reserve_ids_def checked_add64_def split: if_splits)
  qed
qed

lemma set_present: "set (List.map_filter id xs) = {r. Some r \<in> set xs}"
  by (induction xs) (auto simp: List.map_filter_def split: option.splits)

lemma decode_batch_spec:
  assumes "distinct ids" "decode_batch_response parse hash_first body status ids = Inr answers"
  shows "\<exists>responses. parse body = Some responses \<and> length answers = length ids \<and>
    (\<forall>i < length ids. answers ! i = find (\<lambda>r. rs_id r = ids ! i) responses) \<and>
    mset (List.map_filter id answers) = mset responses"
proof -
  obtain responses by_id where p: "parse body = Some responses"
    and idx: "index_responses responses [] = Inr by_id"
    and tr: "take_responses ids by_id = (answers, [])"
    using assms(2) by (auto simp: decode_batch_response_def split: option.splits sum.splits prod.splits if_splits)
  have spec: "bt_ok by_id" "distinct (map rs_id responses)"
    "\<And>k. bt_get by_id k = find (\<lambda>r. rs_id r = k) responses"
    using index_responses_spec [OF _ idx] by (auto simp: bt_ok_def split: option.splits)
  have a: "answers = map (bt_get by_id) ids" and left: "filter (\<lambda>e. fst e \<notin> set ids) by_id = []"
    using take_responses_spec [OF assms(1) spec(1)] tr by simp_all
  have found: "find (\<lambda>r. rs_id r = k) responses = Some r \<longleftrightarrow> r \<in> set responses \<and> rs_id r = k" for r k
    using spec(2) by (induction responses) (auto simp: image_iff)
  have all: "rs_id r \<in> set ids" if "r \<in> set responses" for r
  proof -
    have "bt_get by_id (rs_id r) = Some r" using spec(3) found that by simp
    then have "(rs_id r, r) \<in> set by_id" using spec(1) by (simp add: bt_get_iff)
    with left show ?thesis by (auto simp: filter_empty_conv)
  qed
  have mem: "r \<in> set (List.map_filter id answers) \<longleftrightarrow> r \<in> set responses" for r
  proof
    assume "r \<in> set responses"
    then have "rs_id r \<in> set ids" "find (\<lambda>x. rs_id x = rs_id r) responses = Some r"
      using all found by simp_all
    then show "r \<in> set (List.map_filter id answers)"
      unfolding set_present a by (auto simp: spec(3) image_iff intro!: bexI [of _ "rs_id r"])
  next
    assume "r \<in> set (List.map_filter id answers)"
    then obtain k where "find (\<lambda>x. rs_id x = k) responses = Some r"
      by (auto simp: set_present a spec(3) dest: sym)
    then show "r \<in> set responses" using found by simp
  qed
  have dist: "distinct (List.map_filter id (map (\<lambda>k. find (\<lambda>r. rs_id r = k) responses) ks))" if "distinct ks" for ks
    using that
  proof (induction ks)
    case Nil
    then show ?case by (simp add: List.map_filter_def)
  next
    case (Cons k ks)
    have "r \<notin> set (List.map_filter id (map (\<lambda>k. find (\<lambda>r. rs_id r = k) responses) ks))"
      if "find (\<lambda>r. rs_id r = k) responses = Some r" for r
      using that Cons.prems found by (auto simp: List.map_filter_def)
    with Cons show ?case by (auto simp: List.map_filter_def split: option.splits)
  qed
  have "mset (List.map_filter id answers) = mset responses"
  proof (rule set_eq_iff_mset_eq_distinct [THEN iffD1])
    show "distinct (List.map_filter id answers)"
      using dist [OF assms(1)] by (simp add: a spec(3) fun_eq_iff [symmetric] cong: map_cong)
    show "distinct responses" using spec(2) by (simp add: distinct_map)
    show "set (List.map_filter id answers) = set responses" using mem by blast
  qed
  then show ?thesis using p a spec(3) by simp
qed

text \<open>The body that was accepted is within the limit.\<close>

lemma post_bounded: "post_json_bounded send request maximum = Inr (status, body) \<Longrightarrow> length body \<le> maximum"
  by (auto simp: post_json_bounded_def read_bounded_response_def read_body_spec case_prod_unfold
      split: option.splits if_splits sum.splits)

lemma reserved_ids:
  assumes "reserve_ids n next_id = Inr (ids, bound)"
  shows "length ids = n" "distinct ids" "i < n \<Longrightarrow> unat (ids ! i) = unat next_id + i" "unat bound = unat next_id + n"
proof -
  have m: "map unat ids = [unat next_id..<unat next_id + n]" and b: "unat bound = unat next_id + n"
    using assms unfolding reserve_ids_spec by auto
  show len: "length ids = n" using arg_cong [OF m, of length] by simp
  have "distinct (map unat ids)" by (simp add: m)
  then show "distinct ids" by (simp add: distinct_map)
  show "unat bound = unat next_id + n" by (rule b)
  assume "i < n"
  then have "map unat ids ! i = unat next_id + i" by (simp add: m)
  with \<open>i < n\<close> len show "unat (ids ! i) = unat next_id + i" by simp
qed

lemma send_batch_result:
  assumes "send_batch wire method parameters next_id = (Inr batch, next_id')"
  shows "\<exists>ids body status. reserve_ids (length parameters) next_id = Inr (ids, next_id') \<and>
    length body \<le> maximum_response_bytes wire \<and> rb_response_bytes batch = length body \<and>
    decode_batch_response (parse_responses wire) (first_key wire) body status ids = Inr (rb_responses batch)"
  using assms post_bounded
  by (fastforce simp: send_batch_def ok_then_Inr_iff split: sum.splits option.splits prod.splits)

lemma send_batch_length:
  assumes "send_batch wire method parameters next_id = (Inr batch, next_id')"
  shows "length (rb_responses batch) = length parameters"
proof -
  obtain ids body status where ids: "reserve_ids (length parameters) next_id = Inr (ids, next_id')"
    and dec: "decode_batch_response (parse_responses wire) (first_key wire) body status ids = Inr (rb_responses batch)"
    using send_batch_result [OF assms] by blast
  show ?thesis using decode_batch_spec [OF reserved_ids(2) [OF ids] dec] reserved_ids(1) [OF ids] by auto
qed

text \<open>
  C20: A batch that returns answers each request at its own position: the answer is the response that
  carries that request's id, or none; the answers are the responses of a body within the byte limit,
  none lost, duplicated or invented; and the ids it used are never given out again.
\<close>

theorem batch_answers_match_requests:
  assumes "send_batch wire method parameters next_id = (Inr batch, next_id')"
  shows "\<exists>body responses. parse_responses wire body = Some responses \<and>
    length body \<le> maximum_response_bytes wire \<and> rb_response_bytes batch = length body \<and>
    length (rb_responses batch) = length parameters \<and>
    (\<forall>i < length parameters. rb_responses batch ! i =
       find (\<lambda>r. unat (rs_id r) = unat next_id + i) responses) \<and>
    mset (List.map_filter id (rb_responses batch)) = mset responses \<and>
    unat next_id' = unat next_id + length parameters"
proof -
  obtain ids body status where ids: "reserve_ids (length parameters) next_id = Inr (ids, next_id')"
    and body: "length body \<le> maximum_response_bytes wire" "rb_response_bytes batch = length body"
    and dec: "decode_batch_response (parse_responses wire) (first_key wire) body status ids = Inr (rb_responses batch)"
    using send_batch_result [OF assms] by blast
  note r = reserved_ids [OF ids]
  obtain responses where p: "parse_responses wire body = Some responses"
    "length (rb_responses batch) = length ids"
    "\<forall>i < length ids. rb_responses batch ! i = find (\<lambda>r. rs_id r = ids ! i) responses"
    "mset (List.map_filter id (rb_responses batch)) = mset responses"
    using decode_batch_spec [OF r(2) dec] by blast
  have eq: "(\<lambda>x. rs_id x = ids ! i) = (\<lambda>x. unat (rs_id x) = unat next_id + i)" if "i < length parameters" for i
    unfolding r(3) [OF that, symmetric] by (simp add: fun_eq_iff word_unat_eq_iff)
  then have "rb_responses batch ! i = find (\<lambda>r. unat (rs_id r) = unat next_id + i) responses"
    if "i < length parameters" for i
    using p(3) r(1) that unfolding eq [OF that, symmetric] by simp
  then show ?thesis using p(1,2,4) body r(1,4) by metis
qed

section \<open>An example exchange\<close>

text \<open>Two requests; the node answers them in the other order.\<close>

definition example_response :: "u64 \<Rightarrow> rpc_response" where
  "example_response i = \<lparr> rs_result = ValueMember ''0'', rs_error = MissingMember, rs_id = i,
     rs_jsonrpc = Some ''2.0'' \<rparr>"

definition example_wire :: "unit rpc_wire" where
  "example_wire = \<lparr> encode_request = (\<lambda>_ _ _. Some []),
     send_request = (\<lambda>_. Some \<lparr> hr_status = 200, hr_headers = [], hr_body = [Chunk [1, 2]] \<rparr>),
     maximum_response_bytes = 2,
     parse_responses = (\<lambda>body. Some [example_response 8, example_response 7]), first_key = hd \<rparr>"

definition example_batch :: rpc_batch where
  "example_batch = \<lparr> rb_responses = [Some (example_response 7), Some (example_response 8)],
     rb_response_bytes = 2 \<rparr>"

lemma example_exchange: "send_batch example_wire ''getrawtransaction'' [(), ()] 7 = (Inr example_batch, 9)"
  by (simp add: send_batch_def example_wire_def reserve_ids_def checked_add64_def post_json_bounded_def
      read_bounded_response_def announced_length_def read_body_spec sat_add_def example_batch_def
      decode_batch_response_def example_response_def bt_contains_def bt_insert_def bt_remove_def
      upt_rec Let_def)

theorem batch_answers_match_requests_witness:
  "length (rb_responses example_batch) = 2 \<and> rb_response_bytes example_batch \<le> 2"
  using batch_answers_match_requests [OF example_exchange] by (auto simp: example_wire_def)

end
