(* ===== verification/Fetch.thy ===== *)
theory Fetch
  imports Slice_Props Rpc_Batch Pending_Examples
begin

text \<open>
  The bounded requests of a classification slice in \<^verbatim>\<open>src/classification.rs\<close>: one batch of raw
  transactions or of confirmed outputs, what each item's response means, and the RPC lanes that keep a
  few batches in flight. The order in which batches complete, whether a task fails, and the request ids a task
  gets are those of the scheduler, arbitrary functions of the model.
\<close>

section \<open>One response\<close>

definition MAX_TRANSACTION_HEX_CHARACTERS :: nat where "MAX_TRANSACTION_HEX_CHARACTERS = 8000000"

text \<open>
  What \<^verbatim>\<open>serde_json\<close> and the \<^verbatim>\<open>bitcoin\<close> crate decode: the code of an error object, a JSON string, the
  \<^verbatim>\<open>scriptPubKey.hex\<close> of a \<^verbatim>\<open>GetTxOutWire\<close>, a transaction and a script in hex; and the text forms of a
  transaction's two ids.
\<close>

record node_codec =
  parse_error_code :: "string \<Rightarrow> int option"
  parse_json_string :: "string \<Rightarrow> string option"
  parse_script_hex :: "string \<Rightarrow> string option"
  decode_transaction_hex :: "string \<Rightarrow> transaction option"
  decode_script_hex :: "string \<Rightarrow> bytes option"
  compute_txid :: "transaction \<Rightarrow> string"
  compute_wtxid :: "transaction \<Rightarrow> string"

record item_counts =
  ic_response_failures :: nat
  ic_systemic_response_failures :: nat
  ic_missing_responses :: nat

record 'v batch_fetch =
  bf_values :: "'v rpc_value list"
  bf_response_failures :: nat
  bf_systemic_response_failures :: nat
  bf_missing_responses :: nat
  bf_response_bytes :: nat

text \<open>The error codes of \<^verbatim>\<open>RpcError(-32700..=-32600 | -28)\<close>.\<close>

definition systemic_code :: "int \<Rightarrow> bool" where
  "systemic_code code \<longleftrightarrow> -32700 \<le> code \<and> code \<le> -32600 \<or> code = -28"

definition count_missing :: "item_counts \<Rightarrow> item_counts" where
  "count_missing c = c\<lparr>ic_response_failures := ic_response_failures c + 1,
     ic_missing_responses := ic_missing_responses c + 1\<rparr>"

definition count_systemic :: "item_counts \<Rightarrow> item_counts" where
  "count_systemic c = c\<lparr>ic_response_failures := ic_response_failures c + 1,
     ic_systemic_response_failures := ic_systemic_response_failures c + 1\<rparr>"

definition count_failure :: "item_counts \<Rightarrow> item_counts" where
  "count_failure c = c\<lparr>ic_response_failures := ic_response_failures c + 1\<rparr>"

definition decode_raw_result ::
    "rust_bitcoin \<Rightarrow> node_codec \<Rightarrow> expected_variant \<Rightarrow> string \<Rightarrow> transaction option" where
  "decode_raw_result lib node expected raw =
     (if MAX_TRANSACTION_HEX_CHARACTERS + 2 < length raw then None
      else Option.bind (parse_json_string node raw) (\<lambda>hex.
        if MAX_TRANSACTION_HEX_CHARACTERS < length hex then None
        else Option.bind (decode_transaction_hex node hex) (\<lambda>tx.
          if compute_txid node tx \<noteq> ev_txid expected \<or> compute_wtxid node tx \<noteq> ev_wtxid expected then None
          else (case structure_of lib tx of Inl _ \<Rightarrow> None | Inr _ \<Rightarrow> Some tx))))"

definition raw_answer ::
    "rust_bitcoin \<Rightarrow> node_codec \<Rightarrow> expected_variant \<times> rpc_response option \<Rightarrow> item_counts \<Rightarrow>
     transaction rpc_value \<times> item_counts" where
  "raw_answer lib node = (\<lambda>(expected, response) c. (case response of
     None \<Rightarrow> (RetryableFailure, count_missing c)
   | Some r \<Rightarrow>
       let decoded = (case outcome_of (parse_error_code node) r of
             ProtocolFailure \<Rightarrow> None
           | OutcomeError code \<Rightarrow> if systemic_code code then None else Some None
           | OutcomeValue raw \<Rightarrow> Some (decode_raw_result lib node expected raw)
           | OutcomeNull \<Rightarrow> Some None
           | Malformed \<Rightarrow> Some None)
       in (case decoded of
             None \<Rightarrow> (SystemicFailure, count_systemic c)
           | Some (Some tx) \<Rightarrow> (Found tx, c)
           | Some None \<Rightarrow> (RetryableFailure, count_failure c))))"

definition decode_output_result :: "node_codec \<Rightarrow> string \<Rightarrow> bytes option" where
  "decode_output_result node raw =
     (if ESTIMATED_GETTXOUT_RESPONSE_BYTES < length raw then None
      else Option.bind (parse_script_hex node raw) (\<lambda>hex.
        if MAX_CONFIRMED_SCRIPT_HEX_CHARACTERS < length hex then None else decode_script_hex node hex))"

definition output_answer ::
    "node_codec \<Rightarrow> rpc_response option \<Rightarrow> item_counts \<Rightarrow> bytes rpc_value \<times> item_counts" where
  "output_answer node response c = (case response of
     None \<Rightarrow> (RetryableFailure, count_missing c)
   | Some r \<Rightarrow> (case outcome_of (parse_error_code node) r of
         ProtocolFailure \<Rightarrow> (SystemicFailure, count_systemic c)
       | OutcomeError code \<Rightarrow> if systemic_code code then (SystemicFailure, count_systemic c)
           else (RetryableFailure, count_failure c)
       | OutcomeNull \<Rightarrow> (ExplicitNull, c)
       | Malformed \<Rightarrow> (RetryableFailure, count_failure c)
       | OutcomeValue raw \<Rightarrow> (case decode_output_result node raw of
           Some script \<Rightarrow> (Found script, c) | None \<Rightarrow> (RetryableFailure, count_failure c))))"

fun answer_all ::
    "('x \<Rightarrow> item_counts \<Rightarrow> 'v rpc_value \<times> item_counts) \<Rightarrow> 'x list \<Rightarrow> item_counts \<Rightarrow>
     'v rpc_value list \<times> item_counts" where
  "answer_all f [] c = ([], c)"
| "answer_all f (x # xs) c =
     (let (v, c) = f x c; (vs, c) = answer_all f xs c in (v # vs, c))"

section \<open>One batch\<close>

fun map_classification_rpc_error :: "rpc_error \<Rightarrow> classification_error" where
  "map_classification_rpc_error (RpcResponseTooLarge actual maximum) = BatchResponseTooLarge actual maximum"
| "map_classification_rpc_error _ = BatchFailed"

definition batch_of :: "rpc_batch \<Rightarrow> 'v rpc_value list \<times> item_counts \<Rightarrow> 'v batch_fetch" where
  "batch_of batch = (\<lambda>(vs, c). \<lparr> bf_values = vs, bf_response_failures = ic_response_failures c,
     bf_systemic_response_failures = ic_systemic_response_failures c,
     bf_missing_responses = ic_missing_responses c, bf_response_bytes = rb_response_bytes batch \<rparr>)"

definition no_counts :: item_counts where
  "no_counts = \<lparr> ic_response_failures = 0, ic_systemic_response_failures = 0, ic_missing_responses = 0 \<rparr>"

definition fetch_raw_transactions ::
    "rust_bitcoin \<Rightarrow> node_codec \<Rightarrow> json rpc_wire \<Rightarrow> expected_variant list \<Rightarrow> u64 \<Rightarrow>
     (classification_error + transaction batch_fetch) \<times> u64" where
  "fetch_raw_transactions lib node wire expected next_id =
     (let estimated = estimated_raw_batch_response_bytes expected
      in if MAX_BATCH_RESPONSE_BYTES < estimated
         then (Inl (BatchResponseEstimateTooLarge estimated MAX_BATCH_RESPONSE_BYTES), next_id)
         else (case send_batch wire ''getrawtransaction''
               (map (\<lambda>v. JArr [JStr (ev_txid v), JInt 0]) expected) next_id of
             (Inl e, next_id) \<Rightarrow> (Inl (map_classification_rpc_error e), next_id)
           | (Inr batch, next_id) \<Rightarrow>
               (Inr (batch_of batch (answer_all (raw_answer lib node) (zip expected (rb_responses batch)) no_counts)),
                next_id)))"

definition fetch_confirmed_prevouts ::
    "txid_codec \<Rightarrow> node_codec \<Rightarrow> json rpc_wire \<Rightarrow> out_point list \<Rightarrow> u64 \<Rightarrow>
     (classification_error + bytes batch_fetch) \<times> u64" where
  "fetch_confirmed_prevouts codec node wire outpoints next_id =
     (let estimated = estimated_confirmed_batch_response_bytes (length outpoints)
      in if MAX_GETTXOUT_BATCH_SIZE < length outpoints \<or> MAX_BATCH_RESPONSE_BYTES < estimated
         then (Inl (BatchResponseEstimateTooLarge estimated MAX_BATCH_RESPONSE_BYTES), next_id)
         else (case send_batch wire ''gettxout''
               (map (\<lambda>k. JArr [JStr (show_txid codec (op_txid k)), JInt (uint (op_vout k)), JBool False]) outpoints)
               next_id of
             (Inl e, next_id) \<Rightarrow> (Inl (map_classification_rpc_error e), next_id)
           | (Inr batch, next_id) \<Rightarrow>
               (Inr (batch_of batch (answer_all (output_answer node) (rb_responses batch) no_counts)), next_id)))"

section \<open>The lanes\<close>

datatype 'v task_result = TaskFailed | BatchError classification_error | Fetched "'v batch_fetch"

text \<open>
  The two requests share their scheduling: how a batch is taken from what remains, and what the \<open>n\<close>-th task
  to complete returns. The scheduler picks which task completes next, and when the generation
  stops being current.
\<close>

record ('k, 'v) lanes =
  ln_next :: "'k list \<Rightarrow> 'k list option \<times> 'k list"
  ln_run :: "nat \<Rightarrow> 'k list \<Rightarrow> 'v task_result"
  ln_pick :: "nat \<Rightarrow> nat"
  ln_live :: "nat \<Rightarrow> bool"

record ('k, 'v) lane_state =
  ls_remaining :: "'k list"
  ls_tasks :: "'k list list"
  ls_fetched :: "('k, 'v) fetch"
  ls_stop :: bool
  ls_checks :: nat
  ls_joins :: nat

definition fetch_default :: "('k, 'v) fetch" where
  "fetch_default = \<lparr> cf_values = [], cf_response_failures = 0, cf_systemic_response_failures = 0,
     cf_missing_responses = 0, cf_all_missing_batches = 0, cf_batch_failures = 0, cf_response_bytes = 0 \<rparr>"

fun start_lanes :: "('k, 'v) lanes \<Rightarrow> nat \<Rightarrow> ('k, 'v) lane_state \<Rightarrow> ('k, 'v) lane_state" where
  "start_lanes ln 0 s = s"
| "start_lanes ln (Suc n) s =
     (if \<not> ln_live ln (ls_checks s) then s\<lparr>ls_checks := ls_checks s + 1\<rparr>
      else (case ln_next ln (ls_remaining s) of
          (None, rest) \<Rightarrow> s\<lparr>ls_checks := ls_checks s + 1, ls_remaining := rest\<rparr>
        | (Some batch, rest) \<Rightarrow> start_lanes ln n (s\<lparr>ls_checks := ls_checks s + 1, ls_remaining := rest,
            ls_tasks := ls_tasks s @ [batch]\<rparr>)))"

definition absorb_batch :: "'k list \<Rightarrow> 'v batch_fetch \<Rightarrow> ('k, 'v) fetch \<Rightarrow> ('k, 'v) fetch \<times> bool" where
  "absorb_batch batch b f =
     (let all_missing = 1 < length batch \<and> bf_missing_responses b = length batch;
          values = (if all_missing then map (\<lambda>_. SystemicFailure) (bf_values b) else bf_values b)
      in (f\<lparr>cf_response_failures := cf_response_failures f + bf_response_failures b,
            cf_systemic_response_failures := cf_systemic_response_failures f + bf_systemic_response_failures b,
            cf_missing_responses := cf_missing_responses f + bf_missing_responses b,
            cf_all_missing_batches := cf_all_missing_batches f + (if all_missing then 1 else 0),
            cf_response_bytes := cf_response_bytes f + bf_response_bytes b,
            cf_values := cf_values f @ zip batch values\<rparr>,
          0 < bf_systemic_response_failures b \<or> all_missing))"

definition absorb_result ::
    "'k list \<Rightarrow> 'v task_result \<Rightarrow> ('k, 'v) lane_state \<Rightarrow> ('k, 'v) lane_state" where
  "absorb_result batch r s = (case r of
     Fetched b \<Rightarrow> (case absorb_batch batch b (ls_fetched s) of
       (f, stop) \<Rightarrow> s\<lparr>ls_fetched := f, ls_stop := ls_stop s \<or> stop\<rparr>)
   | _ \<Rightarrow> s\<lparr>ls_fetched := (ls_fetched s)\<lparr>cf_batch_failures := cf_batch_failures (ls_fetched s) + 1\<rparr>,
       ls_stop := True\<rparr>)"

definition spawn_next :: "('k, 'v) lanes \<Rightarrow> ('k, 'v) lane_state \<Rightarrow> ('k, 'v) lane_state" where
  "spawn_next ln s =
     (if ls_stop s then s
      else if \<not> ln_live ln (ls_checks s) then s\<lparr>ls_checks := ls_checks s + 1\<rparr>
      else (case ln_next ln (ls_remaining s) of
          (None, rest) \<Rightarrow> s\<lparr>ls_checks := ls_checks s + 1, ls_remaining := rest\<rparr>
        | (Some batch, rest) \<Rightarrow> s\<lparr>ls_checks := ls_checks s + 1, ls_remaining := rest,
            ls_tasks := ls_tasks s @ [batch]\<rparr>))"

text \<open>One turn of the loop: a task completes, its result is absorbed, its lane takes another batch.\<close>

definition join_one :: "('k, 'v) lanes \<Rightarrow> ('k, 'v) lane_state \<Rightarrow> ('k, 'v) lane_state" where
  "join_one ln s =
     (let i = ln_pick ln (ls_joins s) mod length (ls_tasks s); batch = ls_tasks s ! i
      in spawn_next ln (absorb_result batch (ln_run ln (ls_joins s) batch)
           (s\<lparr>ls_joins := ls_joins s + 1, ls_tasks := take i (ls_tasks s) @ drop (Suc i) (ls_tasks s)\<rparr>)))"

text \<open>The loop; \<open>None\<close> is a loop that does not end, or the panic of its \<^verbatim>\<open>debug_assert!\<close>.\<close>

partial_function (option) join_loop ::
    "('k, 'v) lanes \<Rightarrow> nat \<Rightarrow> ('k, 'v) lane_state \<Rightarrow> ('k, 'v) lane_state option" where
  "join_loop ln lanes s =
     (if ls_tasks s = [] then Some s
      else if lanes < length (ls_tasks (join_one ln s)) then None
      else join_loop ln lanes (join_one ln s))"

definition fetch_concurrently :: "('k, 'v) lanes \<Rightarrow> nat \<Rightarrow> 'k list \<Rightarrow> ('k, 'v) fetch option" where
  "fetch_concurrently ln lanes requested = map_option ls_fetched (join_loop ln lanes
     (start_lanes ln lanes \<lparr> ls_remaining = requested, ls_tasks = [], ls_fetched = fetch_default,
       ls_stop = False, ls_checks = 0, ls_joins = 0 \<rparr>))"

section \<open>What the lanes guarantee\<close>

text \<open>A request some of whose batches failed, or failed systemically.\<close>

definition fetch_failed :: "('k, 'v) fetch \<Rightarrow> bool" where
  "fetch_failed f \<longleftrightarrow>
     0 < cf_batch_failures f \<or> 0 < cf_systemic_response_failures f \<or> 0 < cf_all_missing_batches f"

lemma zip_values: "a \<in> snd ` set (zip xs ys) \<Longrightarrow> a \<in> set ys"
  by (auto simp: in_set_zip)

text \<open>
  The contract of a batched request: a batch is a non-empty prefix of what remains, nothing is left behind when no
  batch can be taken, a batch that succeeds answers each of its items, and whatever it found is right.
\<close>

locale batch_lanes =
  fixes ln :: "('k, 'v) lanes" and found_ok :: "'k \<Rightarrow> 'v \<Rightarrow> bool"
  assumes next_prefix: "ln_next ln req = (Some batch, rest) \<Longrightarrow> batch \<noteq> [] \<and> req = batch @ rest"
    and next_none: "ln_next ln req = (None, rest) \<Longrightarrow> req = [] \<and> rest = []"
    and run_length: "ln_run ln n batch = Fetched b \<Longrightarrow> length (bf_values b) = length batch"
    and run_found: "ln_run ln n batch = Fetched b \<Longrightarrow> (k, Found v) \<in> set (zip batch (bf_values b)) \<Longrightarrow>
      found_ok k v"
    and run_systemic: "ln_run ln n batch = Fetched b \<Longrightarrow> SystemicFailure \<in> set (bf_values b) \<Longrightarrow>
      0 < bf_systemic_response_failures b"
begin

text \<open>Every item is answered, in flight, waiting, or lost with a task that failed.\<close>

definition accounted :: "'k list \<Rightarrow> ('k, 'v) lane_state \<Rightarrow> bool" where
  "accounted req s \<longleftrightarrow> (\<exists>lost. mset req = mset (map fst (cf_values (ls_fetched s))) + mset (concat (ls_tasks s)) +
     mset (ls_remaining s) + lost \<and> (cf_batch_failures (ls_fetched s) = 0 \<longrightarrow> lost = {#}))"

definition busy :: "nat \<Rightarrow> ('k, 'v) lane_state \<Rightarrow> bool" where
  "busy n s \<longleftrightarrow> length (ls_tasks s) \<le> n \<and>
     ((\<forall>i. ln_live ln i) \<longrightarrow> \<not> ls_stop s \<longrightarrow> length (ls_tasks s) = n \<or> ls_remaining s = [])"

definition sound :: "('k, 'v) lane_state \<Rightarrow> bool" where
  "sound s \<longleftrightarrow> (\<forall>(k, a) \<in> set (cf_values (ls_fetched s)). \<forall>v. a = Found v \<longrightarrow> found_ok k v) \<and>
     (SystemicFailure \<in> snd ` set (cf_values (ls_fetched s)) \<or> ls_stop s \<longrightarrow> fetch_failed (ls_fetched s))"

lemma start_lanes_spec:
  "accounted req s \<Longrightarrow> sound s \<Longrightarrow> accounted req (start_lanes ln n s) \<and> sound (start_lanes ln n s) \<and>
   length (ls_tasks (start_lanes ln n s)) \<le> length (ls_tasks s) + n \<and>
   ((\<forall>i. ln_live ln i) \<longrightarrow>
     length (ls_tasks (start_lanes ln n s)) = length (ls_tasks s) + n \<or> ls_remaining (start_lanes ln n s) = [])"
proof (induction n arbitrary: s)
  case 0
  then show ?case by simp
next
  case (Suc n)
  obtain ob rest where nx: "ln_next ln (ls_remaining s) = (ob, rest)" by fastforce
  show ?case
  proof (cases "ln_live ln (ls_checks s)")
    case False
    then show ?thesis using Suc.prems by (auto simp: accounted_def sound_def)
  next
    case live: True
    show ?thesis
    proof (cases ob)
      case None
      then show ?thesis using Suc.prems live nx next_none [of "ls_remaining s" rest]
        by (auto simp: accounted_def sound_def)
    next
      case (Some batch)
      let ?s = "s\<lparr>ls_checks := ls_checks s + 1, ls_remaining := rest, ls_tasks := ls_tasks s @ [batch]\<rparr>"
      have "accounted req ?s" "sound ?s"
        using Suc.prems next_prefix [of "ls_remaining s" batch rest] nx Some
        by (auto simp: accounted_def sound_def ac_simps)
      from Suc.IH [OF this] show ?thesis using live nx Some by simp
    qed
  qed
qed

lemma absorb_batch_spec:
  assumes ab: "absorb_batch batch b f = (f', stop)" and run: "ln_run ln n batch = Fetched b"
  shows "map fst (cf_values f') = map fst (cf_values f) @ batch" "cf_batch_failures f' = cf_batch_failures f"
    "stop \<or> fetch_failed f \<Longrightarrow> fetch_failed f'"
    "(k, Found v) \<in> set (cf_values f') \<Longrightarrow> (k, Found v) \<in> set (cf_values f) \<or> found_ok k v"
    "SystemicFailure \<in> snd ` set (cf_values f') \<Longrightarrow> SystemicFailure \<in> snd ` set (cf_values f) \<or> fetch_failed f'"
proof -
  have len: "length (bf_values b) = length batch" using run by (rule run_length)
  show "map fst (cf_values f') = map fst (cf_values f) @ batch" "cf_batch_failures f' = cf_batch_failures f"
    "stop \<or> fetch_failed f \<Longrightarrow> fetch_failed f'"
    using ab len by (auto simp: absorb_batch_def Let_def fetch_failed_def split: if_splits)
  show "(k, Found v) \<in> set (cf_values f') \<Longrightarrow> (k, Found v) \<in> set (cf_values f) \<or> found_ok k v"
    using ab run_found [OF run, of k v]
    by (auto simp: absorb_batch_def Let_def zip_map2 split: if_splits)
  show "SystemicFailure \<in> snd ` set (cf_values f') \<Longrightarrow> SystemicFailure \<in> snd ` set (cf_values f) \<or> fetch_failed f'"
  proof (cases "0 < bf_systemic_response_failures b \<or> 1 < length batch \<and> bf_missing_responses b = length batch")
    case True
    then have "fetch_failed f'" using ab by (auto simp: absorb_batch_def Let_def fetch_failed_def)
    then show ?thesis by simp
  next
    case False
    then have "cf_values f' = cf_values f @ zip batch (bf_values b)" "SystemicFailure \<notin> set (bf_values b)"
      using ab run_systemic [OF run] by (auto simp: absorb_batch_def Let_def)
    then show "SystemicFailure \<in> snd ` set (cf_values f') \<Longrightarrow> ?thesis"
      using zip_values [of SystemicFailure batch "bf_values b"] by (simp only: set_append image_Un) blast
  qed
qed

lemma absorb_result_spec:
  assumes acc: "accounted req s" and snd: "sound s" and tasks: "ls_tasks s = before @ batch # after"
    and s': "s' = absorb_result batch (ln_run ln n batch) (s\<lparr>ls_joins := j, ls_tasks := before @ after\<rparr>)"
  shows "accounted req s' \<and> sound s' \<and> ls_tasks s' = before @ after \<and> ls_remaining s' = ls_remaining s \<and>
    (\<not> ls_stop s' \<longrightarrow> \<not> ls_stop s)"
proof (cases "ln_run ln n batch")
  case (Fetched b)
  obtain f stop where ab: "absorb_batch batch b (ls_fetched s) = (f, stop)" by fastforce
  note spec = absorb_batch_spec [OF ab Fetched]
  have s'': "s' = s\<lparr>ls_joins := j, ls_tasks := before @ after, ls_fetched := f, ls_stop := ls_stop s \<or> stop\<rparr>"
    by (simp add: s' absorb_result_def Fetched ab)
  have "mset (map fst (cf_values f)) = mset (map fst (cf_values (ls_fetched s))) + mset batch" by (simp only: spec(1) mset_append)
  then have "accounted req s'" using acc tasks spec(2) by (auto simp: accounted_def s'' ac_simps)
  moreover have "sound s'" using snd spec(3-5) by (fastforce simp: sound_def s'')
  ultimately show ?thesis by (simp add: s'')
next
  case TaskFailed
  then show ?thesis using acc snd by (fastforce simp: s' tasks accounted_def sound_def fetch_failed_def absorb_result_def)
next
  case BatchError
  then show ?thesis using acc snd by (fastforce simp: s' tasks accounted_def sound_def fetch_failed_def absorb_result_def)
qed

lemma join_one_spec:
  assumes acc: "accounted req s" and snd: "sound s" and busy: "busy n s" and tasks: "ls_tasks s \<noteq> []"
  shows "accounted req (join_one ln s) \<and> sound (join_one ln s) \<and> busy n (join_one ln s) \<and>
    length (ls_tasks (join_one ln s)) + 2 * length (ls_remaining (join_one ln s))
      < length (ls_tasks s) + 2 * length (ls_remaining s)"
proof -
  let ?i = "ln_pick ln (ls_joins s) mod length (ls_tasks s)"
  have i: "?i < length (ls_tasks s)" using tasks by simp
  define s' where "s' = absorb_result (ls_tasks s ! ?i) (ln_run ln (ls_joins s) (ls_tasks s ! ?i))
      (s\<lparr>ls_joins := ls_joins s + 1, ls_tasks := take ?i (ls_tasks s) @ drop (Suc ?i) (ls_tasks s)\<rparr>)"
  have j: "join_one ln s = spawn_next ln s'" by (simp add: join_one_def s'_def Let_def)
  have a: "accounted req s'" "sound s'" "length (ls_tasks s') = length (ls_tasks s) - 1"
      "ls_remaining s' = ls_remaining s" "\<not> ls_stop s' \<longrightarrow> \<not> ls_stop s"
    using absorb_result_spec [OF acc snd id_take_nth_drop [OF i] s'_def] i by auto
  have pos: "0 < length (ls_tasks s)" using tasks by simp
  obtain ob rest where nx: "ln_next ln (ls_remaining s') = (ob, rest)" by fastforce
  show ?thesis
  proof (cases "ls_stop s' \<or> \<not> ln_live ln (ls_checks s')")
    case True
    then show ?thesis using a busy pos
      by (auto simp: j spawn_next_def accounted_def sound_def busy_def)
  next
    case False
    show ?thesis
    proof (cases ob)
      case None
      then show ?thesis using False a busy pos nx next_none [of "ls_remaining s'" rest]
        by (auto simp: j spawn_next_def accounted_def sound_def busy_def)
    next
      case (Some batch)
      have p: "batch \<noteq> []" "ls_remaining s' = batch @ rest" using next_prefix nx Some by blast+
      have l: "length (ls_remaining s) = length batch + length rest" "0 < length batch"
          "mset (ls_remaining s) = mset batch + mset rest"
        using p a(4) by simp_all
      show ?thesis using False a busy pos nx Some p(1) l
        by (auto simp: j spawn_next_def accounted_def sound_def busy_def ac_simps)
    qed
  qed
qed

lemma join_loop_ends:
  assumes "accounted req s" and "sound s" and "busy n s"
  shows "\<exists>s'. join_loop ln n s = Some s' \<and> accounted req s' \<and> sound s' \<and> busy n s' \<and> ls_tasks s' = []"
  using assms
proof (induction "length (ls_tasks s) + 2 * length (ls_remaining s)" arbitrary: s rule: less_induct)
  case less
  show ?case
  proof (cases "ls_tasks s = []")
    case True
    then show ?thesis using less.prems by (simp add: join_loop.simps)
  next
    case False
    note one = join_one_spec [OF less.prems False]
    have "\<not> n < length (ls_tasks (join_one ln s))" using one by (simp add: busy_def)
    then have "join_loop ln n s = join_loop ln n (join_one ln s)" using False by (subst join_loop.simps) simp
    then show ?thesis using less.hyps [of "join_one ln s"] one by auto
  qed
qed

lemma fetch_concurrently_spec:
  "\<exists>f. fetch_concurrently ln n req = Some f \<and> mset (map fst (cf_values f)) \<subseteq># mset req \<and>
     (\<forall>k v. (k, Found v) \<in> set (cf_values f) \<longrightarrow> found_ok k v) \<and>
     (SystemicFailure \<in> snd ` set (cf_values f) \<longrightarrow> fetch_failed f) \<and>
     ((\<forall>i. ln_live ln i) \<and> 0 < n \<and> \<not> fetch_failed f \<longrightarrow> mset (map fst (cf_values f)) = mset req)"
proof -
  let ?s = "\<lparr> ls_remaining = req, ls_tasks = [], ls_fetched = fetch_default,
       ls_stop = False, ls_checks = 0, ls_joins = 0 \<rparr> :: ('k, 'v) lane_state"
  have "accounted req ?s" "sound ?s" by (simp_all add: accounted_def sound_def fetch_default_def)
  note st = start_lanes_spec [OF this, of n]
  have "busy n (start_lanes ln n ?s)" using st by (simp add: busy_def)
  with st obtain s' where s': "join_loop ln n (start_lanes ln n ?s) = Some s'"
    "accounted req s'" "sound s'" "busy n s'" "ls_tasks s' = []"
    using join_loop_ends by blast
  have "fetch_concurrently ln n req = Some (ls_fetched s')"
    by (simp add: fetch_concurrently_def s'(1))
  moreover have "mset (map fst (cf_values (ls_fetched s'))) \<subseteq># mset req"
    using s'(2,5) by (auto simp: accounted_def)
  moreover have "\<forall>k v. (k, Found v) \<in> set (cf_values (ls_fetched s')) \<longrightarrow> found_ok k v"
    using s'(3) by (fastforce simp: sound_def)
  moreover have "SystemicFailure \<in> snd ` set (cf_values (ls_fetched s')) \<longrightarrow> fetch_failed (ls_fetched s')"
    using s'(3) by (simp add: sound_def)
  moreover have "mset (map fst (cf_values (ls_fetched s'))) = mset req"
    if "(\<forall>i. ln_live ln i) \<and> 0 < n \<and> \<not> fetch_failed (ls_fetched s')"
    using that s'(2-5) by (auto simp: accounted_def sound_def busy_def fetch_failed_def)
  ultimately show ?thesis by blast
qed

end

section \<open>The two requests of a slice\<close>

text \<open>
  What surrounds a request: the node's answer to the \<open>n\<close>-th batch to complete, the ids it was given,
  whether its task fails, which task completes \<open>n\<close>-th, and the checks that the generation is current.
\<close>

record schedule =
  sc_wire :: "nat \<Rightarrow> json rpc_wire"
  sc_next_id :: "nat \<Rightarrow> u64"
  sc_fails :: "nat \<Rightarrow> bool"
  sc_pick :: "nat \<Rightarrow> nat"
  sc_live :: "nat \<Rightarrow> bool"

definition task_of :: "bool \<Rightarrow> (classification_error + 'v batch_fetch) \<times> u64 \<Rightarrow> 'v task_result" where
  "task_of fails r = (if fails then TaskFailed
     else (case fst r of Inl e \<Rightarrow> BatchError e | Inr b \<Rightarrow> Fetched b))"

definition raw_lanes ::
    "rust_bitcoin \<Rightarrow> node_codec \<Rightarrow> schedule \<Rightarrow> (expected_variant, transaction) lanes" where
  "raw_lanes lib node sc = \<lparr> ln_next = next_raw_transaction_batch,
     ln_run = (\<lambda>n batch. task_of (sc_fails sc n)
       (fetch_raw_transactions lib node (sc_wire sc n) batch (sc_next_id sc n))),
     ln_pick = sc_pick sc, ln_live = sc_live sc \<rparr>"

definition confirmed_lanes :: "txid_codec \<Rightarrow> node_codec \<Rightarrow> schedule \<Rightarrow> (out_point, bytes) lanes" where
  "confirmed_lanes codec node sc = \<lparr> ln_next = next_confirmed_prevout_batch,
     ln_run = (\<lambda>n batch. task_of (sc_fails sc n)
       (fetch_confirmed_prevouts codec node (sc_wire sc n) batch (sc_next_id sc n))),
     ln_pick = sc_pick sc, ln_live = sc_live sc \<rparr>"

definition fetch_raw_transactions_concurrently ::
    "rust_bitcoin \<Rightarrow> node_codec \<Rightarrow> schedule \<Rightarrow> nat \<Rightarrow> expected_variant list \<Rightarrow>
     (expected_variant, transaction) fetch option" where
  "fetch_raw_transactions_concurrently lib node sc lanes expected =
     fetch_concurrently (raw_lanes lib node sc) lanes expected"

definition fetch_confirmed_prevouts_concurrently ::
    "txid_codec \<Rightarrow> node_codec \<Rightarrow> schedule \<Rightarrow> nat \<Rightarrow> out_point list \<Rightarrow> (out_point, bytes) fetch option" where
  "fetch_confirmed_prevouts_concurrently codec node sc lanes outpoints =
     fetch_concurrently (confirmed_lanes codec node sc) lanes outpoints"

lemma answer_all_spec:
  "answer_all f xs c = (vs, c') \<Longrightarrow> length vs = length xs \<and>
   (\<forall>i < length xs. \<exists>c. vs ! i = fst (f (xs ! i) c))"
proof (induction f xs c arbitrary: vs c' rule: answer_all.induct)
  case (1 f c)
  then show ?case by simp
next
  case (2 f x xs c)
  obtain v d where x: "f x c = (v, d)" by fastforce
  obtain ws e where xs: "answer_all f xs d = (ws, e)" by fastforce
  have "\<exists>c. v = fst (f x c)" using x by (metis fst_conv)
  then show ?case using 2 x xs by (auto simp: nth_Cons split: nat.splits)
qed

text \<open>A systemic failure among the answers is counted.\<close>

lemma answer_all_systemic:
  assumes "\<And>x c. ic_systemic_response_failures c \<le> ic_systemic_response_failures (snd (f x c)) \<and>
      (fst (f x c) = SystemicFailure \<longrightarrow> 0 < ic_systemic_response_failures (snd (f x c)))"
    and "answer_all f xs c = (vs, c')"
  shows "ic_systemic_response_failures c \<le> ic_systemic_response_failures c' \<and>
    (SystemicFailure \<in> set vs \<longrightarrow> 0 < ic_systemic_response_failures c')"
  using assms(2)
proof (induction xs arbitrary: c c' vs)
  case (Cons x xs)
  obtain v d where x: "f x c = (v, d)" by fastforce
  obtain ws e where xs: "answer_all f xs d = (ws, e)" by fastforce
  show ?case using assms(1) [of c x] Cons.IH [OF xs] Cons.prems x xs by auto
qed simp

lemma raw_answer_systemic:
  "ic_systemic_response_failures c \<le> ic_systemic_response_failures (snd (raw_answer lib node x c)) \<and>
   (fst (raw_answer lib node x c) = SystemicFailure \<longrightarrow> 0 < ic_systemic_response_failures (snd (raw_answer lib node x c)))"
  by (cases x) (simp add: raw_answer_def Let_def count_missing_def count_systemic_def count_failure_def
      split: option.splits rpc_outcome.splits)

lemma output_answer_systemic:
  "ic_systemic_response_failures c \<le> ic_systemic_response_failures (snd (output_answer node x c)) \<and>
   (fst (output_answer node x c) = SystemicFailure \<longrightarrow> 0 < ic_systemic_response_failures (snd (output_answer node x c)))"
  by (simp add: output_answer_def count_missing_def count_systemic_def count_failure_def
      split: option.splits rpc_outcome.splits)

text \<open>What a raw answer must be to count as found.\<close>

definition right_transaction :: "rust_bitcoin \<Rightarrow> node_codec \<Rightarrow> expected_variant \<Rightarrow> transaction \<Rightarrow> bool" where
  "right_transaction lib node expected tx \<longleftrightarrow> compute_txid node tx = ev_txid expected \<and>
     compute_wtxid node tx = ev_wtxid expected \<and> \<not> isl (structure_of lib tx) \<and>
     (\<exists>hex. length hex \<le> MAX_TRANSACTION_HEX_CHARACTERS \<and> decode_transaction_hex node hex = Some tx)"

definition bounded_script :: "node_codec \<Rightarrow> out_point \<Rightarrow> bytes \<Rightarrow> bool" where
  "bounded_script node k script \<longleftrightarrow> (\<exists>hex. length hex \<le> MAX_CONFIRMED_SCRIPT_HEX_CHARACTERS \<and>
     decode_script_hex node hex = Some script)"

lemma case_sum_guard: "(case s of Inl _ \<Rightarrow> None | Inr _ \<Rightarrow> Some x) = (if isl s then None else Some x)"
  by (cases s) auto

lemma decode_raw_result_right: "decode_raw_result lib node expected raw = Some tx \<Longrightarrow> right_transaction lib node expected tx"
  by (auto simp: decode_raw_result_def right_transaction_def case_sum_guard bind_eq_Some_conv not_less split: if_splits)

lemma raw_answer_found: "fst (raw_answer lib node (expected, r) c) = Found tx \<Longrightarrow> right_transaction lib node expected tx"
  by (auto simp: raw_answer_def Let_def intro: decode_raw_result_right
      split: option.splits if_splits rpc_outcome.splits)

lemma decode_output_result_bounded: "decode_output_result node raw = Some script \<Longrightarrow> bounded_script node k script"
  by (auto simp: decode_output_result_def bounded_script_def bind_eq_Some_conv not_less split: if_splits)

lemma output_answer_found: "fst (output_answer node r c) = Found script \<Longrightarrow> bounded_script node k script"
  by (auto simp: output_answer_def intro: decode_output_result_bounded
      split: option.splits if_splits rpc_outcome.splits)

text \<open>A batch that returns answers each of its items, and what it finds is what was asked for.\<close>

lemma raw_batch_spec:
  assumes "fst (fetch_raw_transactions lib node wire batch next_id) = Inr b"
  shows "length (bf_values b) = length batch"
    "(k, Found tx) \<in> set (zip batch (bf_values b)) \<Longrightarrow> right_transaction lib node k tx"
    "SystemicFailure \<in> set (bf_values b) \<Longrightarrow> 0 < bf_systemic_response_failures b"
proof -
  obtain r next_id' where r: "send_batch wire ''getrawtransaction''
        (map (\<lambda>v. JArr [JStr (ev_txid v), JInt 0]) batch) next_id = (Inr r, next_id')"
      "b = batch_of r (answer_all (raw_answer lib node) (zip batch (rb_responses r)) no_counts)"
    using assms by (auto simp: fetch_raw_transactions_def Let_def split: if_splits prod.splits sum.splits)
  have len: "length (rb_responses r) = length batch" using send_batch_length [OF r(1)] by simp
  obtain vs c where a: "answer_all (raw_answer lib node) (zip batch (rb_responses r)) no_counts = (vs, c)"
    by fastforce
  note spec = answer_all_spec [OF a]
  have b: "bf_values b = vs" by (simp add: r(2) a batch_of_def)
  show "length (bf_values b) = length batch" using spec len b by simp
  show "right_transaction lib node k tx" if "(k, Found tx) \<in> set (zip batch (bf_values b))"
    using that spec len b raw_answer_found by (fastforce simp: in_set_zip)
  show "SystemicFailure \<in> set (bf_values b) \<Longrightarrow> 0 < bf_systemic_response_failures b"
    using answer_all_systemic [OF raw_answer_systemic a] by (simp add: r(2) a batch_of_def)
qed

lemma confirmed_batch_spec:
  assumes "fst (fetch_confirmed_prevouts codec node wire batch next_id) = Inr b"
  shows "length (bf_values b) = length batch"
    "(k, Found script) \<in> set (zip batch (bf_values b)) \<Longrightarrow> bounded_script node k script"
    "SystemicFailure \<in> set (bf_values b) \<Longrightarrow> 0 < bf_systemic_response_failures b"
proof -
  obtain r next_id' where r: "send_batch wire ''gettxout''
        (map (\<lambda>k. JArr [JStr (show_txid codec (op_txid k)), JInt (uint (op_vout k)), JBool False]) batch)
        next_id = (Inr r, next_id')"
      "b = batch_of r (answer_all (output_answer node) (rb_responses r) no_counts)"
    using assms by (auto simp: fetch_confirmed_prevouts_def Let_def split: if_splits prod.splits sum.splits)
  have len: "length (rb_responses r) = length batch" using send_batch_length [OF r(1)] by simp
  obtain vs c where a: "answer_all (output_answer node) (rb_responses r) no_counts = (vs, c)" by fastforce
  note spec = answer_all_spec [OF a]
  have b: "bf_values b = vs" by (simp add: r(2) a batch_of_def)
  show "length (bf_values b) = length batch" using spec len b by simp
  show "bounded_script node k script" if "(k, Found script) \<in> set (zip batch (bf_values b))"
    using that spec len b output_answer_found by (fastforce simp: in_set_zip)
  show "SystemicFailure \<in> set (bf_values b) \<Longrightarrow> 0 < bf_systemic_response_failures b"
    using answer_all_systemic [OF output_answer_systemic a] by (simp add: r(2) a batch_of_def)
qed

interpretation raw_rpc: batch_lanes "raw_lanes lib node sc" "right_transaction lib node"
  for lib node sc
proof
  fix req batch rest
  assume "ln_next (raw_lanes lib node sc) req = (Some batch, rest)"
  then show "batch \<noteq> [] \<and> req = batch @ rest"
    using raw_batch_loop_shorter [of req batch rest] by (simp add: raw_lanes_def)
next
  fix req rest
  assume "ln_next (raw_lanes lib node sc) req = (None, rest)"
  then show "req = [] \<and> rest = []"
    by (cases req) (auto simp: raw_lanes_def next_raw_transaction_batch_def RAW_TRANSACTION_BATCH_SIZE_def
        Let_def dest: raw_batch_loop_append split: prod.splits if_splits)
next
  fix n batch b
  assume "ln_run (raw_lanes lib node sc) n batch = Fetched b"
  then have r: "fst (fetch_raw_transactions lib node (sc_wire sc n) batch (sc_next_id sc n)) = Inr b"
    by (auto simp: raw_lanes_def task_of_def split: if_splits sum.splits)
  show "length (bf_values b) = length batch" by (rule raw_batch_spec [OF r])
  show "right_transaction lib node k v" if "(k, Found v) \<in> set (zip batch (bf_values b))" for k v
    using that by (rule raw_batch_spec [OF r])
  show "SystemicFailure \<in> set (bf_values b) \<Longrightarrow> 0 < bf_systemic_response_failures b" by (rule raw_batch_spec [OF r])
qed

interpretation confirmed_rpc: batch_lanes "confirmed_lanes codec node sc" "bounded_script node"
  for codec node sc
proof
  fix req batch rest
  assume "ln_next (confirmed_lanes codec node sc) req = (Some batch, rest)"
  then show "batch \<noteq> [] \<and> req = batch @ rest"
    using confirmed_batch_within_limits [of req batch rest] by (simp add: confirmed_lanes_def)
next
  fix req rest
  assume "ln_next (confirmed_lanes codec node sc) req = (None, rest)"
  then show "req = [] \<and> rest = []"
    by (auto simp: confirmed_lanes_def next_confirmed_prevout_batch_def Let_def
        maximum_confirmed_prevouts_per_batch_def resolver_constants split: if_splits)
next
  fix n batch b
  assume "ln_run (confirmed_lanes codec node sc) n batch = Fetched b"
  then have r: "fst (fetch_confirmed_prevouts codec node (sc_wire sc n) batch (sc_next_id sc n)) = Inr b"
    by (auto simp: confirmed_lanes_def task_of_def split: if_splits sum.splits)
  show "length (bf_values b) = length batch" by (rule confirmed_batch_spec [OF r])
  show "bounded_script node k v" if "(k, Found v) \<in> set (zip batch (bf_values b))" for k v
    using that by (rule confirmed_batch_spec [OF r])
  show "SystemicFailure \<in> set (bf_values b) \<Longrightarrow> 0 < bf_systemic_response_failures b" by (rule confirmed_batch_spec [OF r])
qed

section \<open>Properties of the requests\<close>

text \<open>
  C13: A request for raw transactions always returns, within its number of lanes. It answers no request
  twice and nothing that was not requested, and a transaction it found has the requested ids and a structure
  that can be represented. When the generation stays current and no batch failed, systemically or as
  a whole, every request is answered exactly once, whatever the order in which the batches complete.
\<close>

theorem fetch_answers_each_request_once:
  "\<exists>f. fetch_raw_transactions_concurrently lib node sc lanes expected = Some f \<and>
     mset (map fst (cf_values f)) \<subseteq># mset expected \<and>
     (\<forall>e tx. (e, Found tx) \<in> set (cf_values f) \<longrightarrow> right_transaction lib node e tx) \<and>
     ((\<forall>n. sc_live sc n) \<and> 0 < lanes \<and> \<not> fetch_failed f \<longrightarrow> mset (map fst (cf_values f)) = mset expected)"
  using raw_rpc.fetch_concurrently_spec [of lib node sc lanes expected]
  unfolding fetch_raw_transactions_concurrently_def by (simp add: raw_lanes_def) blast

text \<open>The same for confirmed outputs; a script it found fits the limit on its hex form.\<close>

theorem confirmed_answers_each_outpoint_once:
  "\<exists>f. fetch_confirmed_prevouts_concurrently codec node sc lanes outpoints = Some f \<and>
     mset (map fst (cf_values f)) \<subseteq># mset outpoints \<and>
     (\<forall>k script. (k, Found script) \<in> set (cf_values f) \<longrightarrow> bounded_script node k script) \<and>
     ((\<forall>n. sc_live sc n) \<and> 0 < lanes \<and> \<not> fetch_failed f \<longrightarrow> mset (map fst (cf_values f)) = mset outpoints)"
  using confirmed_rpc.fetch_concurrently_spec [of codec node sc lanes outpoints]
  unfolding fetch_confirmed_prevouts_concurrently_def by (simp add: confirmed_lanes_def) blast

text \<open>The answers a slice works on: the contract of \<open>transaction_source\<close> holds of the requests of the code.\<close>

definition raw_source ::
    "rust_bitcoin \<Rightarrow> node_codec \<Rightarrow> (expected_variant list \<Rightarrow> schedule) \<Rightarrow> nat \<Rightarrow> expected_variant list \<Rightarrow>
     (expected_variant, transaction) fetch" where
  "raw_source lib node sc lanes req = the (fetch_raw_transactions_concurrently lib node (sc req) lanes req)"

lemma raw_source_found:
  assumes "(e, Found tx) \<in> set (cf_values (raw_source lib node sc lanes req))"
  shows "right_transaction lib node e tx"
proof -
  obtain f where "fetch_raw_transactions_concurrently lib node (sc req) lanes req = Some f"
    "\<forall>e tx. (e, Found tx) \<in> set (cf_values f) \<longrightarrow> right_transaction lib node e tx"
    using raw_rpc.fetch_concurrently_spec [of lib node "sc req" lanes req]
    unfolding fetch_raw_transactions_concurrently_def by blast
  then show ?thesis using assms by (simp add: raw_source_def)
qed

interpretation rpc_source: transaction_source lib "raw_source lib node sc lanes" for lib node sc lanes
proof
  fix req
  obtain f where f: "fetch_raw_transactions_concurrently lib node (sc req) lanes req = Some f"
    "mset (map fst (cf_values f)) \<subseteq># mset req"
    using raw_rpc.fetch_concurrently_spec [of lib node "sc req" lanes req]
    unfolding fetch_raw_transactions_concurrently_def by blast
  show "mset (map fst (cf_values (raw_source lib node sc lanes req))) \<subseteq># mset req"
    using f by (simp add: raw_source_def)
  show "\<not> isl (structure_of lib tx)" if "(e, Found tx) \<in> set (cf_values (raw_source lib node sc lanes req))" for e tx
    using raw_source_found [OF that] by (simp add: right_transaction_def)
qed

section \<open>An example request\<close>

text \<open>
  A node that answers the first request of each batch with a value and the second with null, in the other
  order, over four lanes of which one is needed.
\<close>

definition null_response :: "u64 \<Rightarrow> rpc_response" where
  "null_response i = (example_response i)\<lparr>rs_result := NullMember\<rparr>"

definition example_node :: node_codec where
  "example_node = \<lparr> parse_error_code = (\<lambda>_. None), parse_json_string = Some, parse_script_hex = Some,
     decode_transaction_hex = (\<lambda>_. Some example_spend), decode_script_hex = (\<lambda>_. Some [0x51]),
     compute_txid = (\<lambda>_. ev_txid example_variant), compute_wtxid = (\<lambda>_. ev_wtxid example_variant) \<rparr>"

definition example_answers_wire :: "json rpc_wire" where
  "example_answers_wire = \<lparr> encode_request = (\<lambda>_ _ _. Some []),
     send_request = (\<lambda>_. Some \<lparr> hr_status = 200, hr_headers = [], hr_body = [Chunk [1, 2]] \<rparr>),
     maximum_response_bytes = 2,
     parse_responses = (\<lambda>body. Some [null_response 8, example_response 7]), first_key = hd \<rparr>"

definition example_schedule :: schedule where
  "example_schedule = \<lparr> sc_wire = (\<lambda>_. example_answers_wire), sc_next_id = (\<lambda>_. 7), sc_fails = (\<lambda>_. False),
     sc_pick = (\<lambda>_. 3), sc_live = (\<lambda>_. True) \<rparr>"

definition other_variant :: expected_variant where
  "other_variant = \<lparr> ev_txid = ''u'', ev_wtxid = ''v'', ev_vsize = 100 \<rparr>"

definition other_outpoint :: out_point where
  "other_outpoint = OutPoint (replicate 32 3) 7"

lemma example_answers_exchange:
  "length ps = 2 \<Longrightarrow> send_batch example_answers_wire method ps 7 =
     (Inr \<lparr> rb_responses = [Some (example_response 7), Some (null_response 8)], rb_response_bytes = 2 \<rparr>, 9)"
  by (simp add: send_batch_def example_answers_wire_def reserve_ids_def checked_add64_def post_json_bounded_def
      read_bounded_response_def announced_length_def read_body_spec sat_add_def
      decode_batch_response_def null_response_def example_response_def bt_contains_def bt_insert_def
      bt_remove_def upt_rec Let_def)

lemma example_raw_batch:
  "fetch_raw_transactions reference_bitcoin example_node example_answers_wire [example_variant, other_variant] 7 =
     (Inr \<lparr> bf_values = [Found example_spend, RetryableFailure], bf_response_failures = 1,
        bf_systemic_response_failures = 0, bf_missing_responses = 0, bf_response_bytes = 2 \<rparr>, 9)"
proof -
  have e: "\<not> MAX_BATCH_RESPONSE_BYTES < estimated_raw_batch_response_bytes [example_variant, other_variant]"
    by (simp add: estimated_raw_batch_response_bytes_def estimated_raw_response_bytes_def sat_add_def sat_mul_def
        resolver_constants example_variant_def other_variant_def)
  have d: "decode_raw_result reference_bitcoin example_node example_variant ''0'' = Some example_spend"
    using example_structure by (simp add: decode_raw_result_def case_sum_guard example_node_def
        MAX_TRANSACTION_HEX_CHARACTERS_def)
  have o7: "outcome_of (parse_error_code example_node) (example_response 7) = OutcomeValue ''0''"
    "outcome_of (parse_error_code example_node) (null_response 8) = OutcomeNull"
    by (simp_all add: outcome_of_def example_response_def null_response_def JSON_RPC_VERSION_def)
  show ?thesis using e d o7
    by (simp add: fetch_raw_transactions_def example_answers_exchange raw_answer_def batch_of_def no_counts_def
        count_failure_def)
qed

lemma example_raw_next:
  "next_raw_transaction_batch [example_variant, other_variant] = (Some [example_variant, other_variant], [])"
  "next_raw_transaction_batch [] = (None, [])"
  by (simp_all add: next_raw_transaction_batch_def resolver_constants estimated_raw_response_bytes_def sat_add_def
      sat_mul_def example_variant_def other_variant_def Let_def)

lemma example_raw_fetch:
  "fetch_raw_transactions_concurrently reference_bitcoin example_node example_schedule 4
     [example_variant, other_variant] =
   Some (fetch_default\<lparr>cf_values := [(example_variant, Found example_spend), (other_variant, RetryableFailure)],
     cf_response_failures := 1, cf_response_bytes := 2\<rparr>)"
  by (simp add: fetch_raw_transactions_concurrently_def fetch_concurrently_def raw_lanes_def example_schedule_def
      example_raw_next eval_nat_numeral join_loop.simps join_one_def absorb_result_def absorb_batch_def
      spawn_next_def task_of_def example_raw_batch fetch_default_def Let_def)

theorem fetch_answers_each_request_once_witness:
  "\<exists>f. fetch_raw_transactions_concurrently reference_bitcoin example_node example_schedule 4
      [example_variant, other_variant] = Some f \<and> \<not> fetch_failed f \<and>
    (example_variant, Found example_spend) \<in> set (cf_values f) \<and>
    right_transaction reference_bitcoin example_node example_variant example_spend \<and>
    mset (map fst (cf_values f)) = {#example_variant, other_variant#}"
proof -
  have live: "\<forall>n. sc_live example_schedule n" by (simp add: example_schedule_def)
  show ?thesis
    using fetch_answers_each_request_once [of reference_bitcoin example_node example_schedule 4
        "[example_variant, other_variant]"] live
    by (simp add: example_raw_fetch fetch_failed_def fetch_default_def)
qed

lemma example_confirmed_fetch:
  "fetch_confirmed_prevouts_concurrently example_codec example_node example_schedule 4
     [example_outpoint, other_outpoint] =
   Some (fetch_default\<lparr>cf_values := [(example_outpoint, Found [0x51]), (other_outpoint, ExplicitNull)],
     cf_response_bytes := 2\<rparr>)"
proof -
  have n: "next_confirmed_prevout_batch [example_outpoint, other_outpoint] =
      (Some [example_outpoint, other_outpoint], [])" "next_confirmed_prevout_batch [] = (None, [])"
    by (simp_all add: next_confirmed_prevout_batch_def maximum_confirmed_prevouts_per_batch_def
        resolver_constants)
  have o7: "outcome_of (parse_error_code example_node) (example_response 7) = OutcomeValue ''0''"
    "outcome_of (parse_error_code example_node) (null_response 8) = OutcomeNull"
    by (simp_all add: outcome_of_def example_response_def null_response_def JSON_RPC_VERSION_def)
  have d: "decode_output_result example_node ''0'' = Some [0x51]"
    by (simp add: decode_output_result_def example_node_def resolver_constants MAX_CONFIRMED_SCRIPT_HEX_CHARACTERS_def)
  have b: "fetch_confirmed_prevouts example_codec example_node example_answers_wire
      [example_outpoint, other_outpoint] 7 = (Inr \<lparr> bf_values = [Found [0x51], ExplicitNull],
        bf_response_failures = 0, bf_systemic_response_failures = 0, bf_missing_responses = 0,
        bf_response_bytes = 2 \<rparr>, 9)"
    using d o7
    by (simp add: fetch_confirmed_prevouts_def estimated_confirmed_batch_response_bytes_def sat_mul_def
        resolver_constants example_answers_exchange output_answer_def batch_of_def no_counts_def)
  show ?thesis
    by (simp add: fetch_confirmed_prevouts_concurrently_def fetch_concurrently_def confirmed_lanes_def
        example_schedule_def n eval_nat_numeral join_loop.simps join_one_def absorb_result_def absorb_batch_def
        spawn_next_def task_of_def b fetch_default_def Let_def)
qed

theorem confirmed_answers_each_outpoint_once_witness:
  "\<exists>f. fetch_confirmed_prevouts_concurrently example_codec example_node example_schedule 4
      [example_outpoint, other_outpoint] = Some f \<and> \<not> fetch_failed f \<and>
    bounded_script example_node example_outpoint [0x51] \<and>
    mset (map fst (cf_values f)) = {#example_outpoint, other_outpoint#}"
proof -
  have live: "\<forall>n. sc_live example_schedule n" by (simp add: example_schedule_def)
  show ?thesis
    using confirmed_answers_each_outpoint_once [of example_codec example_node example_schedule 4
        "[example_outpoint, other_outpoint]"] live
    by (simp add: example_confirmed_fetch fetch_failed_def fetch_default_def)
qed

end
