(* ===== verification/Membership.thy ===== *)
theory Membership
  imports Transport Model_Snapshot "HOL-Library.Multiset"
begin

text \<open>
  Membership snapshots, \<^verbatim>\<open>src/rpc.rs\<close>: the client that calls the node's control and mempool methods with
  bounded responses, the decoding of a verbose mempool member by member, the checks on what it reports, and the
  snapshot bound to a chain tip that did not move. JSON, the canonical forms of hashes and base64 are the
  libraries' and parameters (\<open>membership_node\<close>).
\<close>

section \<open>Limits\<close>

definition RPC_JSON_VERSION :: string where "RPC_JSON_VERSION = ''2.0''"
definition CONTROL_RESPONSE_LIMIT_BYTES :: nat where "CONTROL_RESPONSE_LIMIT_BYTES = 256 * 1024"
definition VERBOSE_ENTRY_BUDGET_BYTES :: nat where "VERBOSE_ENTRY_BUDGET_BYTES = 4 * 1024"
definition RAW_MEMPOOL_ENVELOPE_BYTES :: nat where "RAW_MEMPOOL_ENVELOPE_BYTES = 64 * 1024"

definition raw_mempool_response_limit :: "u64 \<Rightarrow> nat" where
  "raw_mempool_response_limit maximum_entries =
     sat_add (sat_mul (unat maximum_entries) VERBOSE_ENTRY_BUDGET_BYTES) RAW_MEMPOOL_ENVELOPE_BYTES"

section \<open>Errors\<close>

datatype membership_rpc_error =
    EncodeMembershipRequest
  | MembershipTransport transport_error
  | DecodeMembershipResponse u16
  | MismatchedResponseEnvelope
  | RpcCode "32 word"
  | MissingResult
  | DecodeResult

datatype membership_error =
    InvalidRpcUrl
  | RpcUrlContainsUserinfo
  | GetMempoolInfo membership_rpc_error
  | GetRawMempool membership_rpc_error
  | GetBlockchainInfo membership_rpc_error
  | SnapshotTask
  | InvalidMempoolEntryLimit u64 u64
  | InvalidMempoolSize "64 word"
  | MempoolTooLarge u64 u64
  | InvalidTxid string
  | InvalidWtxid string
  | DuplicateTxid string
  | DuplicateWtxid string
  | EntryTimeOverflow string u64
  | InvalidEntryFacts string model_error
  | InvalidBestBlockHash string
  | InvalidBlockHeight u64
  | UnstableChainTip chain_tip chain_tip
  | InvalidSystemClock
  | SystemTimeOverflow
  | InvalidSnapshot model_error

fun public_message :: "membership_error \<Rightarrow> string" where
  "public_message (GetMempoolInfo _) = ''Bitcoin node RPC is unavailable''"
| "public_message (GetRawMempool _) = ''Bitcoin node RPC is unavailable''"
| "public_message (GetBlockchainInfo _) = ''Bitcoin node RPC is unavailable''"
| "public_message (MempoolTooLarge _ _) = ''Bitcoin node mempool exceeds the configured limit''"
| "public_message (InvalidMempoolEntryLimit _ _) = ''Bitcoin node mempool exceeds the configured limit''"
| "public_message SnapshotTask = ''Atlas snapshot worker failed''"
| "public_message InvalidSystemClock = ''Atlas system clock is invalid''"
| "public_message SystemTimeOverflow = ''Atlas system clock is invalid''"
| "public_message _ = ''Bitcoin node returned an invalid mempool snapshot''"

section \<open>What is decoded\<close>

record raw_mempool_entry =
  re_wtxid :: string
  re_vsize :: u64
  re_weight :: u64
  re_time :: u64
  re_ancestor_count :: u64
  re_ancestor_vsize :: u64
  re_descendant_count :: u64
  re_descendant_vsize :: u64
  re_replaceable :: bool
  re_base_sat :: u64
  re_ancestor_sat :: "64 word"

record blockchain_info =
  bi_blocks :: u64
  bi_bestblockhash :: string

record membership_response =
  mr_result :: "string option"
  mr_error :: "string option"
  mr_id :: "u64 option"
  mr_jsonrpc :: "string option"

text \<open>
  The members of an object as the deserializer meets them: a key that does not parse, or a key and what its
  value turns out to be when it is read as a mempool entry (\<^verbatim>\<open>IgnoredAny\<close> accepts any JSON).
\<close>

datatype member_value = BrokenJson | OtherJson | EntryJson raw_mempool_entry

datatype map_event = BrokenKey | Member string member_value

record membership_node =
  mn_encode :: "string \<Rightarrow> string \<Rightarrow> json list \<Rightarrow> u64 \<Rightarrow> bytes option"
  mn_send :: "string \<Rightarrow> string \<Rightarrow> bytes \<Rightarrow> http_response option"
  mn_response :: "bytes \<Rightarrow> membership_response option"
  mn_error_code :: "string \<Rightarrow> 32 word option"
  mn_blockchain_info :: "string \<Rightarrow> blockchain_info option"
  mn_mempool_size :: "string \<Rightarrow> 64 word option"
  mn_members :: "string \<Rightarrow> map_event list option"
  mn_block_hash :: "string \<Rightarrow> string option"
  mn_txid :: "string \<Rightarrow> string option"
  mn_wtxid :: "string \<Rightarrow> string option"

section \<open>Entries\<close>

definition decode_chain_tip :: "membership_node \<Rightarrow> blockchain_info \<Rightarrow> membership_error + chain_tip" where
  "decode_chain_tip node chain =
     (if MAX_SAFE_JSON_INTEGER < bi_blocks chain then Inl (InvalidBlockHeight (bi_blocks chain))
      else (case mn_block_hash node (bi_bestblockhash chain) of
          None \<Rightarrow> Inl (InvalidBestBlockHash (bi_bestblockhash chain))
        | Some hash \<Rightarrow> Inr \<lparr> ct_height = bi_blocks chain, ct_hash = hash \<rparr>))"

definition decode_entry :: "membership_node \<Rightarrow> string \<Rightarrow> raw_mempool_entry \<Rightarrow> membership_error + mempool_entry" where
  "decode_entry node key wire =
     (case mn_txid node key of None \<Rightarrow> Inl (InvalidTxid key) | Some txid \<Rightarrow>
     (case mn_wtxid node (re_wtxid wire) of None \<Rightarrow> Inl (InvalidWtxid (re_wtxid wire)) | Some wtxid \<Rightarrow>
     (case checked_mul64 (re_time wire) 1000 of None \<Rightarrow> Inl (EntryTimeOverflow txid (re_time wire))
      | Some entered \<Rightarrow>
     (case mempool_entry_new_variant txid wtxid (re_vsize wire) (re_base_sat wire) entered
        \<lparr> mf_weight = re_weight wire, mf_ancestor_count = re_ancestor_count wire,
          mf_ancestor_vsize = re_ancestor_vsize wire, mf_ancestor_fee_sats = re_ancestor_sat wire,
          mf_descendant_count = re_descendant_count wire, mf_descendant_vsize = re_descendant_vsize wire,
          mf_replaceable = re_replaceable wire \<rparr> of
        Inl source \<Rightarrow> Inl (InvalidEntryFacts txid source)
      | Inr entry \<Rightarrow> Inr entry))))"

text \<open>
  The loop of \<^verbatim>\<open>visit_map\<close>: after the first invalid entry, or beyond the limit, the rest of the object
  is read and dropped. \<open>None\<close> is a deserialization error.
\<close>

fun visit_members ::
    "membership_node \<Rightarrow> u64 \<Rightarrow> map_event list \<Rightarrow> u64 \<Rightarrow> membership_error option \<Rightarrow> mempool_entry list \<Rightarrow>
     (membership_error + mempool_entry list) option" where
  "visit_members node maximum [] observed invalid entries =
     Some (case invalid of Some e \<Rightarrow> Inl e | None \<Rightarrow> Inr entries)"
| "visit_members node maximum (BrokenKey # events) observed invalid entries = None"
| "visit_members node maximum (Member key v # events) observed invalid entries =
     (let observed = sat_add64 observed 1
      in if invalid \<noteq> None
         then (if v = BrokenJson then None else visit_members node maximum events observed invalid entries)
         else if maximum < observed
         then (if v = BrokenJson then None
               else visit_members node maximum events observed (Some (MempoolTooLarge observed maximum)) entries)
         else (case v of
             EntryJson wire \<Rightarrow> (case decode_entry node key wire of
                 Inr entry \<Rightarrow> visit_members node maximum events observed None (entries @ [entry])
               | Inl e \<Rightarrow> visit_members node maximum events observed (Some e) entries)
           | _ \<Rightarrow> None))"

definition visit_map ::
    "membership_node \<Rightarrow> u64 \<Rightarrow> map_event list \<Rightarrow> (membership_error + mempool_entry list) option" where
  "visit_map node maximum events = visit_members node maximum events 0 None []"

definition enforce_snapshot_limit :: "nat \<Rightarrow> u64 \<Rightarrow> membership_error + unit" where
  "enforce_snapshot_limit actual maximum = (let actual = u64_of_usize actual
     in if maximum < actual then Inl (MempoolTooLarge actual maximum) else Inr ())"

text \<open>\<^verbatim>\<open>find(|wtxid| !wtxids.insert(wtxid.clone()))\<close>.\<close>

fun first_repeated :: "string bset \<Rightarrow> string list \<Rightarrow> string option" where
  "first_repeated seen [] = None"
| "first_repeated seen (x # xs) = (if x \<in> set seen then Some x else first_repeated (bs_insert x seen) xs)"

text \<open>
  \<^verbatim>\<open>into_entries\<close>. The order the unstable sort leaves among equal txids does not show: they are an error
  that names only the txid.
\<close>

definition into_entries ::
    "membership_error + mempool_entry list \<Rightarrow> u64 \<Rightarrow> membership_error + mempool_entry list" where
  "into_entries decoded maximum =
     ok_then decoded (\<lambda>entries.
     ok_then (enforce_snapshot_limit (length entries) maximum) (\<lambda>_.
       let entries = sort_key me_txid entries
       in case List.find (\<lambda>pair. me_txid (pair ! 0) = me_txid (pair ! 1)) (windows 2 entries) of
            Some pair \<Rightarrow> Inl (DuplicateTxid (me_txid (pair ! 0)))
          | None \<Rightarrow> (case first_repeated [] (map me_wtxid entries) of
              Some wtxid \<Rightarrow> Inl (DuplicateWtxid wtxid) | None \<Rightarrow> Inr entries)))"

section \<open>The client\<close>

record rpc_client =
  rc_url :: string
  rc_authorization :: string
  rc_next_id :: u64
  rc_max_mempool_entries :: u64

definition validate_configured_limit :: "u64 \<Rightarrow> membership_error + unit" where
  "validate_configured_limit maximum =
     (if maximum = 0 \<or> MAX_SUPPORTED_MEMPOOL_ENTRIES < maximum
      then Inl (InvalidMempoolEntryLimit maximum MAX_SUPPORTED_MEMPOOL_ENTRIES) else Inr ())"

definition validate_rpc_url :: "string \<Rightarrow> membership_error + unit" where
  "validate_rpc_url url =
     (if take 7 url \<noteq> ''http://'' then Inl InvalidRpcUrl
      else let authority = takeWhile (\<lambda>c. c \<notin> set ''/?#'') (drop 7 url)
        in if authority = [] then Inl InvalidRpcUrl
           else if CHR ''@'' \<in> set authority then Inl RpcUrlContainsUserinfo else Inr ())"

definition basic_authorization :: "(string \<Rightarrow> string) \<Rightarrow> string \<Rightarrow> string \<Rightarrow> string" where
  "basic_authorization base64 username password = ''Basic '' @ base64 (username @ '':'' @ password)"

definition rpc_client_new ::
    "(string \<Rightarrow> string) \<Rightarrow> string \<Rightarrow> string \<Rightarrow> string \<Rightarrow> u64 \<Rightarrow> membership_error + rpc_client" where
  "rpc_client_new base64 url username password max_entries =
     ok_then (validate_configured_limit max_entries) (\<lambda>_.
     ok_then (validate_rpc_url url) (\<lambda>_.
       Inr \<lparr> rc_url = url, rc_authorization = basic_authorization base64 username password,
         rc_next_id = 1, rc_max_mempool_entries = max_entries \<rparr>))"

text \<open>One call; \<^verbatim>\<open>fetch_add\<close> wraps. \<open>decode\<close> is the deserializer of the result type.\<close>

definition call ::
    "membership_node \<Rightarrow> (string \<Rightarrow> 'a option) \<Rightarrow> string \<Rightarrow> json list \<Rightarrow> nat \<Rightarrow> rpc_client \<Rightarrow>
     (membership_rpc_error + 'a) \<times> rpc_client" where
  "call node decode method params maximum client =
     (let i = rc_next_id client
      in ((case mn_encode node RPC_JSON_VERSION method params i of
             None \<Rightarrow> Inl EncodeMembershipRequest
           | Some request \<Rightarrow>
         (case post_json_bounded (mn_send node (rc_url client) (rc_authorization client)) request maximum of
             Inl e \<Rightarrow> Inl (MembershipTransport e)
           | Inr (status_code, body) \<Rightarrow>
         (case mn_response node body of
             None \<Rightarrow> Inl (DecodeMembershipResponse status_code)
           | Some response \<Rightarrow>
               if mr_jsonrpc response \<noteq> Some RPC_JSON_VERSION \<or> mr_id response \<noteq> Some i
               then Inl MismatchedResponseEnvelope
               else (case mr_error response of
                   Some error \<Rightarrow> (case mn_error_code node error of
                       None \<Rightarrow> Inl (DecodeMembershipResponse status_code) | Some code \<Rightarrow> Inl (RpcCode code))
                 | None \<Rightarrow> (case mr_result response of
                       None \<Rightarrow> Inl MissingResult
                     | Some raw \<Rightarrow> (case decode raw of None \<Rightarrow> Inl DecodeResult | Some v \<Rightarrow> Inr v)))))),
          client\<lparr>rc_next_id := i + 1\<rparr>))"

text \<open>The reported size is an \<^verbatim>\<open>i64\<close>.\<close>

definition validate_reported_mempool_size :: "64 word \<Rightarrow> u64 \<Rightarrow> membership_error + unit" where
  "validate_reported_mempool_size reported maximum =
     (if sint reported < 0 then Inl (InvalidMempoolSize reported)
      else if maximum < reported then Inl (MempoolTooLarge reported maximum) else Inr ())"

text \<open>The system clock against the Unix epoch, in milliseconds.\<close>

datatype clock_reading = BeforeEpoch | SinceEpoch nat

definition system_now_ms :: "clock_reading \<Rightarrow> membership_error + u64" where
  "system_now_ms now = (case now of
     BeforeEpoch \<Rightarrow> Inl InvalidSystemClock
   | SinceEpoch ms \<Rightarrow> if ms < 2 ^ 64 then Inr (of_nat ms) else Inl SystemTimeOverflow)"

fun map_error :: "('e \<Rightarrow> 'f) \<Rightarrow> 'e + 'a \<Rightarrow> 'f + 'a" where
  "map_error f (Inl e) = Inl (f e)"
| "map_error f (Inr v) = Inr v"

text \<open>
  The limit the visitor reads is a thread-local cell, set for the duration of the call by
  \<^verbatim>\<open>DecodeEntryLimitGuard\<close> and restored when the task returns.
\<close>

definition guard_set :: "u64 \<Rightarrow> u64 \<Rightarrow> u64 \<times> u64" where
  "guard_set maximum cell = (cell, maximum)"

definition guard_drop :: "u64 \<Rightarrow> u64 \<Rightarrow> u64" where
  "guard_drop previous cell = previous"

definition read_tip ::
    "membership_node \<Rightarrow> rpc_client \<Rightarrow> (membership_rpc_error + blockchain_info) \<times> rpc_client" where
  "read_tip node client =
     call node (mn_blockchain_info node) ''getblockchaininfo'' [] CONTROL_RESPONSE_LIMIT_BYTES client"

text \<open>The part of the task after the guard is set: the result and the client.\<close>

definition collect_entries ::
    "membership_node \<Rightarrow> string \<Rightarrow> string \<Rightarrow> clock_reading \<Rightarrow> u64 \<Rightarrow> chain_tip \<Rightarrow> u64 \<Rightarrow> rpc_client \<Rightarrow>
     (membership_error + mempool_snapshot) \<times> rpc_client" where
  "collect_entries node sid lbl completed cell starting_tip started client =
     (let maximum = rc_max_mempool_entries client;
          (raw, client) = call node (\<lambda>text. Option.bind (mn_members node text) (visit_map node cell))
             ''getrawmempool'' [JBool True] (raw_mempool_response_limit maximum) client
      in case ok_then (map_error GetRawMempool raw) (\<lambda>decoded. into_entries decoded maximum) of
           Inl e \<Rightarrow> (Inl e, client)
         | Inr entries \<Rightarrow>
             (let (ending_chain, client) = read_tip node client
              in (ok_then (map_error GetBlockchainInfo ending_chain) (\<lambda>ending_chain.
                  ok_then (system_now_ms completed) (\<lambda>completed_ms.
                  ok_then (decode_chain_tip node ending_chain) (\<lambda>ending_tip.
                    if starting_tip \<noteq> ending_tip then Inl (UnstableChainTip starting_tip ending_tip)
                    else map_error InvalidSnapshot (mempool_snapshot_new_with_collection_window sid lbl started
                      completed_ms (sat_sub64 completed_ms started) ending_tip entries)))), client)))"

definition snapshot_task ::
    "membership_node \<Rightarrow> string \<Rightarrow> string \<Rightarrow> clock_reading \<Rightarrow> clock_reading \<Rightarrow> rpc_client \<Rightarrow> u64 \<Rightarrow>
     (membership_error + mempool_snapshot) \<times> rpc_client \<times> u64" where
  "snapshot_task node sid lbl started completed client cell =
     (case system_now_ms started of Inl e \<Rightarrow> (Inl e, client, cell) | Inr started_ms \<Rightarrow>
     (case read_tip node client of (starting_chain, client) \<Rightarrow>
     (case ok_then (map_error GetBlockchainInfo starting_chain) (decode_chain_tip node) of
        Inl e \<Rightarrow> (Inl e, client, cell)
      | Inr starting_tip \<Rightarrow>
     (case call node (mn_mempool_size node) ''getmempoolinfo'' [] CONTROL_RESPONSE_LIMIT_BYTES client of
        (info, client) \<Rightarrow>
     (case ok_then (map_error GetMempoolInfo info)
          (\<lambda>reported. validate_reported_mempool_size reported (rc_max_mempool_entries client)) of
        Inl e \<Rightarrow> (Inl e, client, cell)
      | Inr _ \<Rightarrow>
          (let (previous, cell) = guard_set (rc_max_mempool_entries client) cell;
               (r, client) = collect_entries node sid lbl completed cell starting_tip started_ms client
           in (r, client, guard_drop previous cell)))))))"

text \<open>The task runs on the blocking pool; a join error means it never returned a result.\<close>

definition get_mempool_snapshot ::
    "membership_node \<Rightarrow> bool \<Rightarrow> string \<Rightarrow> string \<Rightarrow> clock_reading \<Rightarrow> clock_reading \<Rightarrow> rpc_client \<Rightarrow> u64 \<Rightarrow>
     (membership_error + mempool_snapshot) \<times> rpc_client \<times> u64" where
  "get_mempool_snapshot node joins sid lbl started completed client cell =
     (if joins then snapshot_task node sid lbl started completed client cell else (Inl SnapshotTask, client, cell))"

section \<open>What decoding accepts\<close>

text \<open>What one member is worth: nothing when it does not parse as an entry.\<close>

fun member_entry :: "membership_node \<Rightarrow> map_event \<Rightarrow> (membership_error + mempool_entry) option" where
  "member_entry node (Member key (EntryJson wire)) = Some (decode_entry node key wire)"
| "member_entry node _ = None"

fun readable :: "map_event \<Rightarrow> bool" where
  "readable BrokenKey = False"
| "readable (Member key v) = (v \<noteq> BrokenJson)"

lemma u64_bound: "unat (w :: u64) < 2 ^ 64"
  using unsigned_less [of w] by simp

lemma unat_next: "a \<noteq> u64_max \<Longrightarrow> unat (sat_add64 a 1) = unat a + 1"
proof -
  assume "a \<noteq> u64_max"
  then have "unat a \<noteq> unat (u64_max :: u64)" by (simp add: word_unat_eq_iff)
  then have "unat a < 2 ^ 64 - 1" using u64_bound [of a] by simp
  then show ?thesis by (simp add: unat_sat_add64)
qed

lemma visit_invalid:
  "visit_members node maximum events observed (Some e) entries =
     (if list_all readable events then Some (Inl e) else None)"
proof (induction events arbitrary: observed)
  case Nil
  then show ?case by simp
next
  case (Cons ev events)
  then show ?case by (cases ev) (auto simp: Let_def)
qed

text \<open>The loop on a prefix of members that are all valid entries within the limit.\<close>

lemma visit_valid:
  assumes "maximum \<noteq> u64_max" "map (member_entry node) pre = map (Some \<circ> Inr) es" "unat observed + length pre \<le> unat maximum"
  shows "\<exists>observed'. unat observed' = unat observed + length pre \<and>
    visit_members node maximum (pre @ events) observed None entries =
      visit_members node maximum events observed' None (entries @ es)"
  using assms(2,3)
proof (induction pre arbitrary: es observed entries)
  case Nil
  then show ?case by auto
next
  case (Cons ev pre)
  then obtain e es' where es: "es = e # es'" by (cases es) auto
  obtain key wire where ev: "ev = Member key (EntryJson wire)" "decode_entry node key wire = Inr e"
    using Cons.prems(1) es by (cases "(node, ev)" rule: member_entry.cases) auto
  have max: "unat observed < unat maximum" using Cons.prems(2) by simp
  have "observed \<noteq> u64_max"
  proof
    assume "observed = u64_max"
    then have "unat observed = 2 ^ 64 - 1" by simp
    with max show False using u64_bound [of maximum] by simp
  qed
  then have next': "unat (sat_add64 observed 1) = unat observed + 1" by (rule unat_next)
  have le: "\<not> maximum < sat_add64 observed 1" using max next' by (simp add: word_less_nat_alt)
  have "map (member_entry node) pre = map (Some \<circ> Inr) es'" using Cons.prems(1) es by simp
  from Cons.IH [OF this, of "sat_add64 observed 1" "entries @ [e]"] Cons.prems(2) next'
  obtain observed' where "unat observed' = unat observed + length (ev # pre)"
    "visit_members node maximum (pre @ events) (sat_add64 observed 1) None (entries @ [e]) =
      visit_members node maximum events observed' None (entries @ es)"
    by (auto simp: es)
  then show ?case using ev le by (intro exI [of _ observed']) (simp add: Let_def)
qed

text \<open>Every object splits at its first member that is not a valid entry, or beyond the limit.\<close>

lemma split_members:
  "\<exists>pre es post. events = pre @ post \<and> map (member_entry node) pre = map (Some \<circ> Inr) es \<and> length pre \<le> n \<and>
     (case post of [] \<Rightarrow> True | ev # _ \<Rightarrow> length pre = n \<or> (\<forall>e. member_entry node ev \<noteq> Some (Inr e)))"
proof (induction events arbitrary: n)
  case Nil
  show ?case by (intro exI [of _ "[]"]) simp
next
  case (Cons ev events)
  show ?case
  proof (cases "\<exists>e. member_entry node ev = Some (Inr e) \<and> 0 < n")
    case False
    then show ?thesis by (intro exI [of _ "[]"] exI [of _ "ev # events"]) auto
  next
    case True
    then obtain e m where e: "member_entry node ev = Some (Inr e)" "n = Suc m" by (auto simp: gr0_conv_Suc)
    obtain pre es post where *: "events = pre @ post" "map (member_entry node) pre = map (Some \<circ> Inr) es"
      "length pre \<le> m" "case post of [] \<Rightarrow> True | ev # _ \<Rightarrow> length pre = m \<or> (\<forall>e. member_entry node ev \<noteq> Some (Inr e))"
      using Cons.IH by blast
    show ?thesis
      by (intro exI [of _ "ev # pre"] exI [of _ "e # es"] exI [of _ post]) (use * e in \<open>auto split: list.splits\<close>)
  qed
qed

text \<open>Decoding succeeds exactly on an object of valid entries within the limit, and keeps them in order.\<close>

lemma visit_map_Inr_iff:
  assumes "maximum \<noteq> u64_max"
  shows "visit_map node maximum events = Some (Inr es) \<longleftrightarrow>
    map (member_entry node) events = map (Some \<circ> Inr) es \<and> length es \<le> unat maximum"
proof
  assume "map (member_entry node) events = map (Some \<circ> Inr) es \<and> length es \<le> unat maximum"
  moreover from this have "length events = length es" by (metis length_map)
  ultimately show "visit_map node maximum events = Some (Inr es)"
    using visit_valid [OF assms, of node events es 0 "[]" "[]"] by (auto simp: visit_map_def)
next
  assume visit: "visit_map node maximum events = Some (Inr es)"
  obtain pre es' post where sp: "events = pre @ post" "map (member_entry node) pre = map (Some \<circ> Inr) es'"
      "length pre \<le> unat maximum"
      "case post of [] \<Rightarrow> True | ev # _ \<Rightarrow> length pre = unat maximum \<or> (\<forall>e. member_entry node ev \<noteq> Some (Inr e))"
    using split_members [of events node "unat maximum"] by blast
  obtain observed where v: "unat observed = length pre"
      "visit_map node maximum events = visit_members node maximum post observed None es'"
    using visit_valid [OF assms sp(2), of 0 post "[]"] sp(1,3) by (auto simp: visit_map_def)
  have "post = []"
  proof (rule ccontr)
    assume "post \<noteq> []"
    then obtain ev rest where post: "post = ev # rest" by (cases post) auto
    have "observed \<noteq> u64_max \<or> maximum = u64_max"
      using v(1) sp(3) u64_bound [of maximum] by (auto simp: word_unat_eq_iff)
    then have n: "unat (sat_add64 observed 1) = Suc (length pre)" using assms v(1) unat_next by simp
    obtain key x where ev: "ev = Member key x" using visit v(2) post by (cases ev) auto
    show False
    proof (cases "length pre = unat maximum")
      case True
      then have "maximum < sat_add64 observed 1" using n by (simp add: word_less_nat_alt)
      then show False using visit v(2) post ev by (simp add: Let_def visit_invalid split: if_splits)
    next
      case False
      then have "\<not> maximum < sat_add64 observed 1" using n sp(3) by (simp add: word_less_nat_alt)
      then show False using visit v(2) post ev sp(4) False
        by (auto simp: Let_def visit_invalid split: member_value.splits sum.splits if_splits)
    qed
  qed
  then show "map (member_entry node) events = map (Some \<circ> Inr) es \<and> length es \<le> unat maximum"
    using visit v(2) sp(1,2,3) by (auto dest: map_eq_imp_length_eq)
qed

lemma first_repeated_None: "first_repeated seen xs = None \<longleftrightarrow> distinct xs \<and> set xs \<inter> set seen = {}"
  by (induction xs arbitrary: seen) auto

lemma adjacent_None:
  "sorted (map f xs) \<Longrightarrow> List.find (\<lambda>pair. f (pair ! 0) = f (pair ! 1)) (windows 2 xs) = None \<longleftrightarrow> distinct (map f xs)"
proof (induction xs)
  case Nil
  then show ?case by simp
next
  case (Cons x xs)
  show ?case
  proof (cases xs)
    case Nil
    then show ?thesis by simp
  next
    case (Cons y ys)
    then have "f x \<le> f y" "\<forall>z \<in> set ys. f y \<le> f z" using Cons.prems by auto
    then have "f x \<in> set (map f xs) \<longleftrightarrow> f x = f y" using Cons by force
    then show ?thesis using Cons.IH Cons.prems Cons by auto
  qed
qed

lemma into_entries_Inr_iff:
  assumes "maximum \<noteq> u64_max"
  shows "into_entries (Inr es) maximum = Inr r \<longleftrightarrow> length es \<le> unat maximum \<and> mset r = mset es \<and>
    sorted_wrt (<) (map me_txid r) \<and> distinct (map me_wtxid r)"
proof -
  have limit: "enforce_snapshot_limit n maximum = Inr () \<longleftrightarrow> n \<le> unat maximum" for n
  proof -
    have "unat maximum < 2 ^ 64 - 1" using assms u64_bound [of maximum] by (auto simp: word_unat_eq_iff)
    then show ?thesis
      by (auto simp: enforce_snapshot_limit_def Let_def word_less_nat_alt unat_u64_of_usize)
  qed
  have srt: "sorted (map me_txid (sort_key me_txid es))" by simp
  have r: "r = sort_key me_txid es \<longleftrightarrow> mset r = mset es" if "sorted_wrt (<) (map me_txid r)"
  proof
    assume m: "mset r = mset es"
    have st: "sorted (map me_txid r)" "distinct (map me_txid r)" using that by (simp_all add: strict_sorted_iff)
    have eq: "mset (sort_key me_txid es) = mset r" using m by simp
    have "set (sort_key me_txid es) = set r" using mset_eq_setD [OF eq] .
    moreover have "distinct (map me_txid (sort_key me_txid es))"
      using st(2) eq by (metis mset_eq_imp_distinct_iff mset_map)
    ultimately show "r = sort_key me_txid es"
      using st by (intro map_sorted_distinct_set_unique [of me_txid]) (auto simp: distinct_map)
  qed simp
  have into: "into_entries (Inr es) maximum = Inr r \<longleftrightarrow> length es \<le> unat maximum \<and>
      distinct (map me_txid (sort_key me_txid es)) \<and> distinct (map me_wtxid (sort_key me_txid es)) \<and>
      r = sort_key me_txid es"
    using limit [of "length es"] adjacent_None [OF srt]
      first_repeated_None [of "[]" "map me_wtxid (sort_key me_txid es)"]
    by (auto simp: into_entries_def ok_then_Inr_iff Let_def split: option.splits)
  show ?thesis
  proof
    assume "into_entries (Inr es) maximum = Inr r"
    then show "length es \<le> unat maximum \<and> mset r = mset es \<and> sorted_wrt (<) (map me_txid r) \<and>
        distinct (map me_wtxid r)"
      using srt unfolding into by (auto simp: strict_sorted_iff)
  next
    assume a: "length es \<le> unat maximum \<and> mset r = mset es \<and> sorted_wrt (<) (map me_txid r) \<and>
        distinct (map me_wtxid r)"
    then have "r = sort_key me_txid es" using r by blast
    with a show "into_entries (Inr es) maximum = Inr r" unfolding into by (auto simp: strict_sorted_iff)
  qed
qed

section \<open>Properties\<close>

text \<open>The largest limit a client can have.\<close>

lemma limit_small: "maximum \<le> MAX_SUPPORTED_MEMPOOL_ENTRIES \<Longrightarrow> maximum \<noteq> u64_max"
  by (auto simp: MAX_SUPPORTED_MEMPOOL_ENTRIES_def)

definition decode_mempool ::
    "membership_node \<Rightarrow> u64 \<Rightarrow> map_event list \<Rightarrow> (membership_error + mempool_entry list) option" where
  "decode_mempool node maximum events = map_option (\<lambda>d. into_entries d maximum) (visit_map node maximum events)"

lemma decode_mempool_spec:
  assumes "maximum \<le> MAX_SUPPORTED_MEMPOOL_ENTRIES"
  shows "decode_mempool node maximum events = Some (Inr es) \<longleftrightarrow>
    sorted_wrt (<) (map me_txid es) \<and> distinct (map me_wtxid es) \<and> length es \<le> unat maximum \<and>
    image_mset (member_entry node) (mset events) = image_mset (Some \<circ> Inr) (mset es)"
proof -
  note m = limit_small [OF assms]
  have "decode_mempool node maximum events = Some (Inr es) \<longleftrightarrow>
      (\<exists>ds. visit_map node maximum events = Some (Inr ds) \<and> into_entries (Inr ds) maximum = Inr es)"
    by (auto simp: decode_mempool_def into_entries_def ok_then_Inr_iff)
  also have "\<dots> \<longleftrightarrow> (\<exists>ds. map (member_entry node) events = map (Some \<circ> Inr) ds \<and> length ds \<le> unat maximum \<and>
      mset es = mset ds \<and> sorted_wrt (<) (map me_txid es) \<and> distinct (map me_wtxid es))"
    unfolding visit_map_Inr_iff [OF m] into_entries_Inr_iff [OF m] by blast
  also have "\<dots> \<longleftrightarrow> sorted_wrt (<) (map me_txid es) \<and> distinct (map me_wtxid es) \<and> length es \<le> unat maximum \<and>
      image_mset (member_entry node) (mset events) = image_mset (Some \<circ> Inr) (mset es)" (is "?L \<longleftrightarrow> ?R")
  proof
    assume ?L
    then show ?R by (metis mset_map size_mset)
  next
    assume r: ?R
    define g where "g = (\<lambda>x :: (membership_error + mempool_entry) option. case x of Some (Inr e) \<Rightarrow> e)"
    let ?ds = "map (g \<circ> member_entry node) events"
    have "mset ?ds = image_mset g (image_mset (Some \<circ> Inr) (mset es))"
      using r by (metis mset_map map_map)
    also have "\<dots> = mset es" by (simp add: g_def image_mset.compositionality comp_def)
    finally have m: "mset ?ds = mset es" .
    have "set (map (member_entry node) events) = (Some \<circ> Inr) ` set es"
      using r by (metis mset_map set_image_mset set_mset_mset)
    then have mem: "member_entry node ` set events = (Some \<circ> Inr) ` set es" by simp
    have "member_entry node ev = Some (Inr (g (member_entry node ev)))" if "ev \<in> set events" for ev
    proof -
      have "member_entry node ev \<in> (Some \<circ> Inr) ` set es" using mem that by blast
      then obtain e where "member_entry node ev = Some (Inr e)" by auto
      then show ?thesis by (simp add: g_def)
    qed
    then have ds: "map (member_entry node) events = map (Some \<circ> Inr) ?ds" by simp
    have len: "length ?ds \<le> unat maximum" using r mset_eq_length [OF m] by simp
    from r show ?L by (intro exI [of _ ?ds] conjI ds len m [symmetric]) blast+
  qed
  finally show ?thesis .
qed

text \<open>
  C14: A verbose mempool decodes exactly when every member is an entry with consistent facts, there are no more
  than the limit, and no txid and no wtxid repeats in its canonical form; the entries are then those of
  all the members, sorted by txid. So the order in which the node lists them does not matter.
\<close>

theorem mempool_decodes_iff:
  assumes "maximum \<le> MAX_SUPPORTED_MEMPOOL_ENTRIES"
  shows "decode_mempool node maximum events = Some (Inr es) \<longleftrightarrow>
    sorted_wrt (<) (map me_txid es) \<and> distinct (map me_wtxid es) \<and> length es \<le> unat maximum \<and>
    image_mset (member_entry node) (mset events) = image_mset (Some \<circ> Inr) (mset es)"
  by (rule decode_mempool_spec [OF assms])

text \<open>
  C22: The first member that is not a valid entry decides what the node's answer is worth: an
  undecodable one fails the call, an inconsistent one is the error, and so is the first member beyond the limit;
  no entry after it is kept, and what follows must only be readable.
\<close>

theorem first_bad_member_decides:
  assumes "maximum \<le> MAX_SUPPORTED_MEMPOOL_ENTRIES" "map (member_entry node) pre = map (Some \<circ> Inr) es"
    "length pre \<le> unat maximum" "\<forall>e. member_entry node ev = Some (Inr e) \<longrightarrow> length pre = unat maximum"
  shows "visit_map node maximum (pre @ ev # post) =
    (if length pre < unat maximum
     then (case member_entry node ev of
         Some (Inl e) \<Rightarrow> if list_all readable post then Some (Inl e) else None | _ \<Rightarrow> None)
     else if list_all readable (ev # post) then Some (Inl (MempoolTooLarge (maximum + 1) maximum)) else None)"
proof -
  note m = limit_small [OF assms(1)]
  obtain observed where v: "unat observed = length pre"
      "visit_map node maximum (pre @ ev # post) = visit_members node maximum (ev # post) observed None es"
    using visit_valid [OF m assms(2), of 0 "ev # post" "[]"] assms(3) by (auto simp: visit_map_def)
  have "observed \<noteq> u64_max" using v(1) assms(3) m u64_bound [of maximum] by (auto simp: word_unat_eq_iff)
  then have n: "unat (sat_add64 observed 1) = Suc (length pre)" using v(1) unat_next by simp
  show ?thesis
  proof (cases "length pre < unat maximum")
    case True
    then have "\<not> maximum < sat_add64 observed 1" using n by (simp add: word_less_nat_alt)
    with True v(2) assms(4) show ?thesis
      by (cases "(node, ev)" rule: member_entry.cases)
        (auto simp: Let_def visit_invalid split: sum.splits)
  next
    case False
    then have eq: "length pre = unat maximum" using assms(3) by simp
    have "unat maximum < 2 ^ 64 - 1" using m u64_bound [of maximum] by (auto simp: word_unat_eq_iff)
    then have "unat (maximum + 1) = unat maximum + 1" by (simp add: unat_word_ariths)
    then have "sat_add64 observed 1 = maximum + 1" using n eq by (simp add: word_unat_eq_iff)
    moreover from this have "maximum < sat_add64 observed 1" using n eq by (simp add: word_less_nat_alt)
    ultimately show ?thesis using False v(2) by (cases ev) (auto simp: Let_def visit_invalid)
  qed
qed

text \<open>What one call leaves of the client, and what its result is.\<close>

lemma call_client: "snd (call node decode method params maximum client) = client\<lparr>rc_next_id := rc_next_id client + 1\<rparr>"
  by (simp add: call_def Let_def)

text \<open>
  What a call reads: the result in the node's reply to the request with this id. The reply is the whole body within
  the limit, an envelope of the right version and id, without an error.
\<close>

definition answered ::
    "membership_node \<Rightarrow> rpc_client \<Rightarrow> u64 \<Rightarrow> string \<Rightarrow> json list \<Rightarrow> nat \<Rightarrow> string \<Rightarrow> bool" where
  "answered node client i method params maximum raw \<longleftrightarrow> (\<exists>request status body reply.
     mn_encode node RPC_JSON_VERSION method params i = Some request \<and>
     post_json_bounded (mn_send node (rc_url client) (rc_authorization client)) request maximum = Inr (status, body) \<and>
     mn_response node body = Some reply \<and> mr_jsonrpc reply = Some RPC_JSON_VERSION \<and> mr_id reply = Some i \<and>
     mr_error reply = None \<and> mr_result reply = Some raw)"

lemma answered_unique:
  "answered node client i method params maximum raw \<Longrightarrow> answered node client i method params maximum raw' \<Longrightarrow> raw' = raw"
  by (auto simp: answered_def)

lemma answered_next [simp]: "answered node (client\<lparr>rc_next_id := j\<rparr>) = answered node client"
  by (simp add: answered_def fun_eq_iff)

lemma call_Inr_iff: "call node decode method params maximum client = (Inr v, client') \<longleftrightarrow>
    client' = client\<lparr>rc_next_id := rc_next_id client + 1\<rparr> \<and>
    (\<exists>raw. answered node client (rc_next_id client) method params maximum raw \<and> decode raw = Some v)"
  by (auto simp: call_def answered_def Let_def split: option.splits sum.splits prod.splits if_splits)

text \<open>The chain tip that the call with this id reads.\<close>

definition tip_read :: "membership_node \<Rightarrow> rpc_client \<Rightarrow> u64 \<Rightarrow> chain_tip \<Rightarrow> bool" where
  "tip_read node client i tip \<longleftrightarrow> (\<exists>raw chain.
     answered node client i ''getblockchaininfo'' [] CONTROL_RESPONSE_LIMIT_BYTES raw \<and>
     mn_blockchain_info node raw = Some chain \<and> decode_chain_tip node chain = Inr tip)"

lemma tip_read_unique: "tip_read node client i tip \<Longrightarrow> tip_read node client i tip' \<Longrightarrow> tip' = tip"
  by (auto simp: tip_read_def dest: answered_unique)

lemma tip_read_next [simp]: "tip_read node (client\<lparr>rc_next_id := j\<rparr>) = tip_read node client"
  by (simp add: tip_read_def fun_eq_iff)

lemma read_tip_Inr: "read_tip node client = (Inr chain, client') \<Longrightarrow> decode_chain_tip node chain = Inr tip \<Longrightarrow>
    tip_read node client (rc_next_id client) tip"
  by (auto simp: read_tip_def call_Inr_iff tip_read_def)

lemma ok_map_error_Inr: "ok_then (map_error f r) g = Inr v \<longleftrightarrow> (\<exists>x. r = Inr x \<and> g x = Inr v)"
  by (cases r) auto

lemma collect_entries_Inr:
  assumes "collect_entries node sid lbl completed cell tip started client = (Inr s, client')"
  shows "\<exists>listing events es ms. answered node client (rc_next_id client) ''getrawmempool'' [JBool True]
      (raw_mempool_response_limit (rc_max_mempool_entries client)) listing \<and> mn_members node listing = Some events \<and>
    visit_map node cell events = Some es \<and> into_entries es (rc_max_mempool_entries client) = Inr (transactions s) \<and>
    tip_read node client (rc_next_id client + 1) tip \<and> system_now_ms completed = Inr ms \<and>
    client' = client\<lparr>rc_next_id := rc_next_id client + 2\<rparr> \<and>
    mempool_snapshot_new_with_collection_window sid lbl started ms (sat_sub64 ms started) tip (transactions s) = Inr s"
proof -
  obtain raw c where raw: "call node (\<lambda>body. Option.bind (mn_members node body) (visit_map node cell))
      ''getrawmempool'' [JBool True] (raw_mempool_response_limit (rc_max_mempool_entries client)) client = (raw, c)"
    by fastforce
  obtain ending d where ending: "read_tip node c = (ending, d)" by fastforce
  obtain es where es: "raw = Inr es" "\<exists>entries. into_entries es (rc_max_mempool_entries client) = Inr entries"
    using assms raw by (cases raw) (auto simp: collect_entries_def Let_def split: sum.splits)
  then obtain entries where into: "into_entries es (rc_max_mempool_entries client) = Inr entries" by blast
  have c: "c = client\<lparr>rc_next_id := rc_next_id client + 1\<rparr>" using call_client raw by (metis snd_conv)
  have d: "d = c\<lparr>rc_next_id := rc_next_id c + 1\<rparr>" using call_client ending by (metis read_tip_def snd_conv)
  obtain listing where listing: "answered node client (rc_next_id client) ''getrawmempool'' [JBool True]
      (raw_mempool_response_limit (rc_max_mempool_entries client)) listing"
      "Option.bind (mn_members node listing) (visit_map node cell) = Some es"
    using raw unfolding es(1) call_Inr_iff by blast
  have fst: "fst (collect_entries node sid lbl completed cell tip started client) = Inr s" and last: "client' = d"
    using assms raw es(1) into ending by (simp_all add: collect_entries_def Let_def)
  obtain chain where chain: "ending = Inr chain"
    using fst raw es(1) into ending by (cases ending) (auto simp: collect_entries_def Let_def)
  then obtain ms tip' where e: "decode_chain_tip node chain = Inr tip'" "system_now_ms completed = Inr ms"
    "tip = tip'" "map_error InvalidSnapshot (mempool_snapshot_new_with_collection_window sid lbl started
                      ms (sat_sub64 ms started) tip' entries) = Inr s"
    using fst raw es(1) into ending
    by (auto simp: collect_entries_def Let_def ok_then_Inr_iff split: if_splits)
  have new: "mempool_snapshot_new_with_collection_window sid lbl started ms (sat_sub64 ms started) tip entries = Inr s"
    using e(3,4) by (cases "mempool_snapshot_new_with_collection_window sid lbl started ms (sat_sub64 ms started) tip entries") auto
  then have "transactions s = entries" by (simp add: snapshot_new_Inr_iff)
  moreover have "tip_read node client (rc_next_id client + 1) tip"
    using read_tip_Inr [OF ending [unfolded chain] e(1)] e(3) by (simp add: c)
  ultimately show ?thesis using e(2) last new into listing by (auto simp: bind_eq_Some_conv c d)
qed

text \<open>The limit cell is restored however the task ends; on success the entries were read under the limit.\<close>

lemma snapshot_task_cell: "snd (snd (snapshot_task node sid lbl started completed client cell)) = cell"
  by (auto simp: snapshot_task_def Let_def guard_set_def guard_drop_def split: sum.splits prod.splits)

lemma snapshot_task_Inr:
  assumes "snapshot_task node sid lbl started completed client cell = (Inr s, client', cell')"
  shows "\<exists>ms tip raw size. system_now_ms started = Inr ms \<and> tip_read node client (rc_next_id client) tip \<and>
    answered node client (rc_next_id client + 1) ''getmempoolinfo'' [] CONTROL_RESPONSE_LIMIT_BYTES raw \<and>
    mn_mempool_size node raw = Some size \<and> 0 \<le> sint size \<and> size \<le> rc_max_mempool_entries client \<and>
    collect_entries node sid lbl completed (rc_max_mempool_entries client) tip ms
      (client\<lparr>rc_next_id := rc_next_id client + 2\<rparr>) = (Inr s, client')"
proof -
  let ?max = "rc_max_mempool_entries client"
  obtain chain c where chain: "read_tip node client = (chain, c)" by fastforce
  obtain info d where info: "call node (mn_mempool_size node) ''getmempoolinfo'' [] CONTROL_RESPONSE_LIMIT_BYTES c = (info, d)"
    by fastforce
  have c: "c = client\<lparr>rc_next_id := rc_next_id client + 1\<rparr>" using call_client chain by (metis read_tip_def snd_conv)
  have d: "d = client\<lparr>rc_next_id := rc_next_id client + 2\<rparr>" using call_client [of node "mn_mempool_size node" "''getmempoolinfo''" "[]"
      CONTROL_RESPONSE_LIMIT_BYTES c] info by (simp add: c add.assoc)
  obtain ms where ms: "system_now_ms started = Inr ms"
    using assms by (cases "system_now_ms started") (auto simp: snapshot_task_def)
  obtain tip where tip: "ok_then (map_error GetBlockchainInfo chain) (decode_chain_tip node) = Inr tip"
    using assms by (cases "ok_then (map_error GetBlockchainInfo chain) (decode_chain_tip node)")
      (auto simp: snapshot_task_def ms chain)
  obtain u where u: "ok_then (map_error GetMempoolInfo info)
      (\<lambda>reported. validate_reported_mempool_size reported ?max) = Inr u"
    using assms by (cases "ok_then (map_error GetMempoolInfo info)
      (\<lambda>reported. validate_reported_mempool_size reported ?max)")
      (auto simp: snapshot_task_def ms chain tip info d)
  obtain chain' where chain': "chain = Inr chain'" "decode_chain_tip node chain' = Inr tip"
    using tip by (auto simp: ok_map_error_Inr)
  have read: "tip_read node client (rc_next_id client) tip"
    using chain unfolding chain'(1) by (rule read_tip_Inr) (rule chain'(2))
  obtain size where size: "info = Inr size" "validate_reported_mempool_size size ?max = Inr u"
    using u by (auto simp: ok_map_error_Inr)
  obtain raw where raw: "answered node client (rc_next_id client + 1) ''getmempoolinfo'' [] CONTROL_RESPONSE_LIMIT_BYTES raw"
      "mn_mempool_size node raw = Some size"
    using info unfolding size(1) call_Inr_iff by (auto simp: c)
  have "0 \<le> sint size" "size \<le> ?max"
    using size(2) by (auto simp: validate_reported_mempool_size_def split: if_splits)
  moreover have "collect_entries node sid lbl completed ?max tip ms d = (Inr s, client')"
    using assms u by (auto simp: snapshot_task_def ms chain tip info d guard_set_def Let_def split: prod.splits)
  ultimately show ?thesis using ms read raw unfolding d by blast
qed

text \<open>What each of the four calls of a task that succeeds has read.\<close>

lemma membership_snapshot_calls:
  assumes "get_mempool_snapshot node joins sid lbl started completed client cell = (Inr s, client', cell')"
    and "rc_max_mempool_entries client \<le> MAX_SUPPORTED_MEMPOOL_ENTRIES" and "rc_next_id client = i"
  shows "snapshot_ok s \<and> source_id s = sid \<and> source_label s = lbl \<and> classification_revision s = 0 \<and>
    system_now_ms started = Inr (collection_started_at_ms s) \<and>
    system_now_ms completed = Inr (collection_completed_at_ms s) \<and>
    tip_read node client i (ms_chain_tip s) \<and>
    (\<exists>raw size. answered node client (i + 1) ''getmempoolinfo'' [] CONTROL_RESPONSE_LIMIT_BYTES raw \<and>
      mn_mempool_size node raw = Some size \<and> 0 \<le> sint size \<and> size \<le> rc_max_mempool_entries client) \<and>
    (\<exists>listing events. answered node client (i + 2) ''getrawmempool'' [JBool True]
        (raw_mempool_response_limit (rc_max_mempool_entries client)) listing \<and> mn_members node listing = Some events \<and>
      image_mset (member_entry node) (mset events) = image_mset (Some \<circ> Inr) (mset (transactions s))) \<and>
    tip_read node client (i + 3) (ms_chain_tip s) \<and>
    distinct (map me_wtxid (transactions s)) \<and> length (transactions s) \<le> unat (rc_max_mempool_entries client) \<and>
    client' = client\<lparr>rc_next_id := i + 4\<rparr> \<and> cell' = cell"
proof -
  have run: "snapshot_task node sid lbl started completed client cell = (Inr s, client', cell')"
    using assms(1) by (auto simp: get_mempool_snapshot_def split: if_splits)
  let ?max = "rc_max_mempool_entries client"
  obtain ms tip raw size where t: "system_now_ms started = Inr ms" "tip_read node client i tip"
    "answered node client (i + 1) ''getmempoolinfo'' [] CONTROL_RESPONSE_LIMIT_BYTES raw" "mn_mempool_size node raw = Some size"
    "0 \<le> sint size" "size \<le> ?max"
    "collect_entries node sid lbl completed ?max tip ms (client\<lparr>rc_next_id := i + 2\<rparr>) = (Inr s, client')"
    using snapshot_task_Inr [OF run] assms(3) by blast
  obtain listing events es ms' where e: "answered node client (i + 2) ''getrawmempool'' [JBool True]
      (raw_mempool_response_limit ?max) listing" "mn_members node listing = Some events" "visit_map node ?max events = Some es"
    "into_entries es ?max = Inr (transactions s)" "tip_read node client (i + 2 + 1) tip" "system_now_ms completed = Inr ms'"
    "client' = client\<lparr>rc_next_id := i + 2 + 2\<rparr>"
    "mempool_snapshot_new_with_collection_window sid lbl ms ms' (sat_sub64 ms' ms) tip (transactions s) = Inr s"
    using collect_entries_Inr [OF t(7)] by auto
  have "decode_mempool node ?max events = Some (Inr (transactions s))"
    using e(3,4) by (simp add: decode_mempool_def)
  note dec = this [unfolded decode_mempool_spec [OF assms(2)]]
  have snap: "snapshot_ok s" "source_id s = sid" "source_label s = lbl" "classification_revision s = 0" "ms_chain_tip s = tip"
      "collection_started_at_ms s = ms" "collection_completed_at_ms s = ms'"
    using e(8) by (simp_all add: snapshot_new_Inr_iff)
  have "cell' = cell" using snapshot_task_cell run by (metis snd_conv)
  moreover have "tip_read node client (i + 3) tip" "client' = client\<lparr>rc_next_id := i + 4\<rparr>"
    using e(5,7) by (simp_all add: add.assoc)
  ultimately show ?thesis using snap dec e(1,2,6) t(1-6) by blast
qed

lemma membership_snapshot_spec:
  assumes "get_mempool_snapshot node joins sid lbl started completed client cell = (Inr s, client', cell')"
    and "rc_max_mempool_entries client \<le> MAX_SUPPORTED_MEMPOOL_ENTRIES"
  shows "snapshot_ok s \<and> source_id s = sid \<and> distinct (map me_wtxid (transactions s))"
  using membership_snapshot_calls [OF assms refl] by blast

lemma call_max [simp]: "rc_max_mempool_entries (snd (call node decode method params maximum client)) = rc_max_mempool_entries client"
  by (simp add: call_client)

lemma get_mempool_snapshot_client:
  "rc_max_mempool_entries (fst (snd (get_mempool_snapshot node joins sid lbl started completed client cell))) =
   rc_max_mempool_entries client"
proof -
  have tip: "rc_max_mempool_entries (snd (read_tip node c)) = rc_max_mempool_entries c" for c
    by (simp add: read_tip_def call_max)
  have col: "rc_max_mempool_entries (snd (collect_entries node sid lbl completed e t s c)) = rc_max_mempool_entries c" for e t s c
    by (simp add: tip collect_entries_def Let_def case_prod_unfold split: sum.split)
  show ?thesis
    by (simp add: tip col get_mempool_snapshot_def snapshot_task_def Let_def case_prod_unfold split: sum.split)
qed

text \<open>
  C8: A snapshot that is returned binds the node's mempool to a chain tip read on both sides of it. Of the four
  calls, in the order of their ids, the first and the last have read the same tip, which is the snapshot's;
  the second has read a size within the limit; and the third has read an object whose members, each a valid entry,
  are exactly the snapshot's transactions, sorted, with no txid and no wtxid repeated and no more than the
  client's limit. The snapshot is valid and carries the given names and the two clock readings, and the limit cell of the
  thread is what it was. Equal readings do not prove that the tip never changed between them.
\<close>

theorem membership_snapshot_is_exact:
  assumes "get_mempool_snapshot node joins sid lbl started completed client cell = (Inr s, client', cell')"
    and "rc_max_mempool_entries client \<le> MAX_SUPPORTED_MEMPOOL_ENTRIES" and "rc_next_id client = i"
  shows "snapshot_ok s \<and> source_id s = sid \<and> source_label s = lbl \<and> classification_revision s = 0 \<and>
    system_now_ms started = Inr (collection_started_at_ms s) \<and>
    system_now_ms completed = Inr (collection_completed_at_ms s) \<and>
    tip_read node client i (ms_chain_tip s) \<and>
    (\<exists>raw size. answered node client (i + 1) ''getmempoolinfo'' [] CONTROL_RESPONSE_LIMIT_BYTES raw \<and>
      mn_mempool_size node raw = Some size \<and> 0 \<le> sint size \<and> size \<le> rc_max_mempool_entries client) \<and>
    (\<exists>listing events. answered node client (i + 2) ''getrawmempool'' [JBool True]
        (raw_mempool_response_limit (rc_max_mempool_entries client)) listing \<and> mn_members node listing = Some events \<and>
      image_mset (member_entry node) (mset events) = image_mset (Some \<circ> Inr) (mset (transactions s))) \<and>
    tip_read node client (i + 3) (ms_chain_tip s) \<and>
    distinct (map me_wtxid (transactions s)) \<and> length (transactions s) \<le> unat (rc_max_mempool_entries client) \<and>
    client' = client\<lparr>rc_next_id := i + 4\<rparr> \<and> cell' = cell"
  by (rule membership_snapshot_calls [OF assms])

text \<open>The tip of a reading is determined by its call, so two readings that differ leave no snapshot.\<close>

lemma changed_tip_is_refused:
  assumes "rc_max_mempool_entries client \<le> MAX_SUPPORTED_MEMPOOL_ENTRIES"
    and "tip_read node client (rc_next_id client) before" "tip_read node client (rc_next_id client + 3) after" "before \<noteq> after"
  shows "isl (fst (get_mempool_snapshot node joins sid lbl started completed client cell))"
proof (cases "get_mempool_snapshot node joins sid lbl started completed client cell")
  case (fields r client' cell')
  show ?thesis
  proof (cases r)
    case (Inr s)
    from membership_snapshot_calls [OF fields [unfolded Inr] assms(1) refl] show ?thesis
      using assms(2-4) tip_read_unique by metis
  qed (simp add: fields)
qed

text \<open>
  C38: A client exists only for a limit between 1 and 200000 entries and a plain HTTP origin without
  credentials, and then its largest response is below 782 MiB, without wrap-around.
\<close>

theorem rpc_client_is_bounded:
  "rpc_client_new base64 url username password maximum = Inr c \<longleftrightarrow>
     c = \<lparr> rc_url = url, rc_authorization = ''Basic '' @ base64 (username @ '':'' @ password),
       rc_next_id = 1, rc_max_mempool_entries = maximum \<rparr> \<and>
     1 \<le> unat maximum \<and> unat maximum \<le> 200000 \<and>
     raw_mempool_response_limit maximum = 4096 * unat maximum + 65536 \<and>
     (\<exists>authority rest. url = ''http://'' @ authority @ rest \<and> authority \<noteq> [] \<and> set authority \<inter> set ''@/?#'' = {} \<and>
       (rest = [] \<or> hd rest \<in> set ''/?#''))"
proof -
  have limit: "validate_configured_limit maximum = Inr () \<longleftrightarrow> 1 \<le> unat maximum \<and> unat maximum \<le> 200000"
    by (auto simp: validate_configured_limit_def MAX_SUPPORTED_MEMPOOL_ENTRIES_def word_less_nat_alt word_unat_eq_iff
        Suc_le_eq)
  have bytes: "raw_mempool_response_limit maximum = 4096 * unat maximum + 65536" if "unat maximum \<le> 200000"
    using that by (simp add: raw_mempool_response_limit_def sat_add_def sat_mul_def VERBOSE_ENTRY_BUDGET_BYTES_def
        RAW_MEMPOOL_ENVELOPE_BYTES_def)
  have url: "validate_rpc_url url = Inr () \<longleftrightarrow>
      (\<exists>authority rest. url = ''http://'' @ authority @ rest \<and> authority \<noteq> [] \<and> set authority \<inter> set ''@/?#'' = {} \<and>
       (rest = [] \<or> hd rest \<in> set ''/?#''))" (is "_ \<longleftrightarrow> ?R")
  proof
    assume v: "validate_rpc_url url = Inr ()"
    let ?P = "\<lambda>c. c \<notin> set ''/?#''"
    let ?a = "takeWhile ?P (drop 7 url)" and ?r = "dropWhile ?P (drop 7 url)"
    have "url = take 7 url @ ?a @ ?r" by (simp only: takeWhile_dropWhile_id append_take_drop_id)
    moreover have "take 7 url = ''http://''" "?a \<noteq> []" "CHR ''@'' \<notin> set ?a"
      using v by (auto simp: validate_rpc_url_def Let_def split: if_splits)
    moreover have "set ?a \<inter> set ''/?#'' = {}" by (auto dest: set_takeWhileD)
    moreover have "?r = [] \<or> hd ?r \<in> set ''/?#''" using hd_dropWhile [of ?P "drop 7 url"] by blast
    moreover have "set ?a \<inter> set ''@/?#'' = {}" using calculation(4,5) by simp
    ultimately show ?R by (intro exI [of _ ?a] exI [of _ ?r]) (simp only: simp_thms)
  next
    assume ?R
    then obtain a r where ar: "url = ''http://'' @ a @ r" "a \<noteq> []" "set a \<inter> set ''@/?#'' = {}"
      "r = [] \<or> hd r \<in> set ''/?#''" by blast
    have "takeWhile (\<lambda>c. c \<notin> set ''/?#'') (a @ r) = a"
      using ar(3,4) by (subst takeWhile_append2) (auto simp: takeWhile_eq_Nil_iff)
    moreover have "drop 7 url = a @ r" "take 7 url = ''http://''" by (simp_all add: ar(1))
    moreover have "CHR ''@'' \<notin> set a" using ar(3) by auto
    ultimately show "validate_rpc_url url = Inr ()"
      using ar(2) unfolding validate_rpc_url_def Let_def by (simp only: if_False simp_thms refl)
  qed
  show ?thesis
    unfolding rpc_client_new_def basic_authorization_def using limit bytes url
    by (auto simp: ok_then_Inr_iff)
qed

section \<open>An example node\<close>

text \<open>
  A node with two transactions, listed in descending order; it answers a call with a body that is the call's id.
\<close>

definition example_wire_entry :: "string \<Rightarrow> raw_mempool_entry" where
  "example_wire_entry wtxid = \<lparr> re_wtxid = wtxid, re_vsize = 100, re_weight = 400, re_time = 1600000000,
     re_ancestor_count = 1, re_ancestor_vsize = 100, re_descendant_count = 1, re_descendant_vsize = 100,
     re_replaceable = True, re_base_sat = 500, re_ancestor_sat = - 20 \<rparr>"

definition example_members :: "map_event list" where
  "example_members = [Member ''u'' (EntryJson (example_wire_entry ''y'')), Member ''t'' (EntryJson (example_wire_entry ''x''))]"

definition example_membership_node :: membership_node where
  "example_membership_node = \<lparr> mn_encode = (\<lambda>_ _ _ i. Some [ucast i]),
     mn_send = (\<lambda>_ _ request. Some \<lparr> hr_status = 200, hr_headers = [], hr_body = [Chunk request] \<rparr>),
     mn_response = (\<lambda>body. Some \<lparr> mr_result = Some [], mr_error = None, mr_id = Some (ucast (hd body)),
       mr_jsonrpc = Some ''2.0'' \<rparr>),
     mn_error_code = (\<lambda>_. None), mn_blockchain_info = (\<lambda>_. Some \<lparr> bi_blocks = 840000, bi_bestblockhash = ''h'' \<rparr>),
     mn_mempool_size = (\<lambda>_. Some 2), mn_members = (\<lambda>_. Some example_members),
     mn_block_hash = Some, mn_txid = Some, mn_wtxid = Some \<rparr>"

definition example_entry :: "string \<Rightarrow> string \<Rightarrow> mempool_entry" where
  "example_entry txid wtxid = \<lparr> me_txid = txid, me_wtxid = wtxid, me_vsize = 100, me_weight = 400, fee_sats = 500,
     entered_at_ms = 1600000000000, me_ancestor_count = 1, me_ancestor_vsize = 100, me_ancestor_fee_sats = - 20,
     me_descendant_count = 1, me_descendant_vsize = 100, me_replaceable = True, me_structure = None,
     classifications = [], me_bip110 = None \<rparr>"

lemma example_decoded: "decode_entry example_membership_node txid (example_wire_entry wtxid) = Inr (example_entry txid wtxid)"
proof -
  have "mempool_entry_new_variant txid wtxid 100 500 1600000000000
      \<lparr> mf_weight = 400, mf_ancestor_count = 1, mf_ancestor_vsize = 100, mf_ancestor_fee_sats = - 20,
        mf_descendant_count = 1, mf_descendant_vsize = 100, mf_replaceable = True \<rparr> = Inr (example_entry txid wtxid)"
    unfolding new_variant_Inr_iff by (simp add: example_entry_def entry_ok_def json_safe_def)
  then show ?thesis
    by (simp add: decode_entry_def example_membership_node_def example_wire_entry_def checked_mul64_def)
qed

lemma example_member: "member_entry example_membership_node (Member txid (EntryJson (example_wire_entry wtxid))) =
    Some (Inr (example_entry txid wtxid))"
  by (simp add: example_decoded)

lemma example_limit: "(2 :: u64) \<le> MAX_SUPPORTED_MEMPOOL_ENTRIES"
  by (simp add: MAX_SUPPORTED_MEMPOOL_ENTRIES_def)

lemma example_decodes:
  "decode_mempool example_membership_node 2 example_members =
     Some (Inr [example_entry ''t'' ''x'', example_entry ''u'' ''y''])"
  unfolding decode_mempool_spec [OF example_limit]
  by (simp add: example_members_def example_decoded) (simp add: example_entry_def)

theorem mempool_decodes_iff_witness:
  "decode_mempool example_membership_node 2 (rev example_members) =
     Some (Inr [example_entry ''t'' ''x'', example_entry ''u'' ''y''])"
  unfolding mempool_decodes_iff [OF example_limit]
  by (simp add: example_members_def example_decoded) (simp add: example_entry_def)

theorem first_bad_member_decides_witness:
  "visit_map example_membership_node 2 (example_members @ [Member ''v'' OtherJson]) = Some (Inl (MempoolTooLarge 3 2))"
proof -
  have "map (member_entry example_membership_node) example_members =
      map (Some \<circ> Inr) [example_entry ''u'' ''y'', example_entry ''t'' ''x'']"
    by (simp add: example_members_def example_decoded)
  from first_bad_member_decides [OF example_limit this, of "Member ''v'' OtherJson" "[]"]
  show ?thesis by (simp add: example_members_def)
qed

definition example_client :: rpc_client where
  "example_client = \<lparr> rc_url = ''http://n/'', rc_authorization = ''Basic dTpw'', rc_next_id = 1,
     rc_max_mempool_entries = 2 \<rparr>"

lemma example_call:
  "rc_next_id c = 1 \<or> rc_next_id c = 2 \<or> rc_next_id c = 3 \<or> rc_next_id c = 4 \<Longrightarrow> decode [] = Some v \<Longrightarrow>
   0 < maximum \<Longrightarrow> call example_membership_node decode method params maximum c =
     (Inr v, c\<lparr>rc_next_id := rc_next_id c + 1\<rparr>)"
  by (auto simp: call_def example_membership_node_def post_json_bounded_def read_bounded_response_def
      announced_length_def read_body_spec RPC_JSON_VERSION_def Let_def)

abbreviation "example_entries \<equiv> [example_entry ''t'' ''x'', example_entry ''u'' ''y'']"
abbreviation "example_tip \<equiv> \<lparr> ct_height = 840000, ct_hash = ''h'' \<rparr>"

lemma example_snapshot_new:
  "\<exists>s. mempool_snapshot_new_with_collection_window ''core'' ''Core'' 5 9 4 example_tip example_entries = Inr s"
proof -
  have "check_all check_safe [(''collection_started_at_ms'', 5), (''collection_completed_at_ms'', 9),
      (''collection_duration_ms'', 4)] = Inr ()"
    by (simp add: check_safe_ok json_safe_def)
  moreover have "validate_source_id ''core'' = Inr ()" "validate_source_label ''Core'' = Inr ()" by code_simp+
  moreover have "sum_vsizes 0 example_entries = Inr 200" by (simp add: example_entry_def checked_add64_def)
  moreover have "strictly_sorted_pairs example_entries" by (simp add: example_entry_def)
  ultimately show ?thesis
    by (simp add: mempool_snapshot_new_with_collection_window_def checked_sub64_def MAX_SAFE_JSON_INTEGER_def)
qed

lemma example_snapshot:
  "\<exists>s c. get_mempool_snapshot example_membership_node True ''core'' ''Core'' (SinceEpoch 5) (SinceEpoch 9)
     example_client 7 = (Inr s, c, 7) \<and> transactions s = example_entries"
proof -
  obtain s where s: "mempool_snapshot_new_with_collection_window ''core'' ''Core'' 5 9 4 example_tip example_entries = Inr s"
    using example_snapshot_new by blast
  obtain d where d: "visit_map example_membership_node 2 example_members = Some d" "into_entries d 2 = Inr example_entries"
    using example_decodes by (auto simp: decode_mempool_def)
  have txs: "transactions s = example_entries" using s by (simp add: snapshot_new_Inr_iff)
  have sub: "sat_sub64 9 5 = (4 :: u64)" by (simp add: sat_sub64_def)
  have node: "mn_blockchain_info example_membership_node = (\<lambda>_. Some \<lparr> bi_blocks = 840000, bi_bestblockhash = ''h'' \<rparr>)"
    "mn_members example_membership_node = (\<lambda>_. Some example_members)" "mn_mempool_size example_membership_node = (\<lambda>_. Some 2)"
    "mn_block_hash example_membership_node = Some"
    by (simp_all add: example_membership_node_def)
  have tip: "read_tip example_membership_node c =
      (Inr \<lparr> bi_blocks = 840000, bi_bestblockhash = ''h'' \<rparr>, c\<lparr>rc_next_id := rc_next_id c + 1\<rparr>)"
    if "rc_next_id c = 1 \<or> rc_next_id c = 2 \<or> rc_next_id c = 3 \<or> rc_next_id c = 4" for c
    unfolding read_tip_def by (rule example_call [OF that]) (simp_all add: node CONTROL_RESPONSE_LIMIT_BYTES_def)
  show ?thesis
    using d sub txs
    by (simp add: s get_mempool_snapshot_def snapshot_task_def collect_entries_def system_now_ms_def tip node
        example_client_def decode_chain_tip_def MAX_SAFE_JSON_INTEGER_def example_call CONTROL_RESPONSE_LIMIT_BYTES_def
        validate_reported_mempool_size_def guard_set_def guard_drop_def raw_mempool_response_limit_def
        VERBOSE_ENTRY_BUDGET_BYTES_def RAW_MEMPOOL_ENVELOPE_BYTES_def sat_add_def sat_mul_def)
qed

theorem membership_snapshot_is_exact_witness:
  "\<exists>s c. get_mempool_snapshot example_membership_node True ''core'' ''Core'' (SinceEpoch 5) (SinceEpoch 9)
     example_client 7 = (Inr s, c, 7) \<and> snapshot_ok s \<and> map me_txid (transactions s) = [''t'', ''u''] \<and>
     distinct (map me_wtxid (transactions s)) \<and> collection_completed_at_ms s = 9 \<and>
     tip_read example_membership_node example_client 1 (ms_chain_tip s) \<and>
     tip_read example_membership_node example_client 4 (ms_chain_tip s)"
proof -
  obtain s c where s: "get_mempool_snapshot example_membership_node True ''core'' ''Core'' (SinceEpoch 5) (SinceEpoch 9)
     example_client 7 = (Inr s, c, 7)" "transactions s = example_entries"
    using example_snapshot by blast
  have "rc_max_mempool_entries example_client \<le> MAX_SUPPORTED_MEMPOOL_ENTRIES" "rc_next_id example_client = 1"
    using example_limit by (simp_all add: example_client_def)
  note exact = membership_snapshot_is_exact [OF s(1) this]
  then have "system_now_ms (SinceEpoch 9) = Inr (collection_completed_at_ms s)" by blast
  then have "collection_completed_at_ms s = 9" by (simp add: system_now_ms_def)
  moreover have "map me_txid (transactions s) = [''t'', ''u'']" using s(2) by (simp add: example_entry_def)
  ultimately show ?thesis using exact s(1) by auto
qed

end
