(* ===== verification/Runtime.thy ===== *)
theory Runtime
  imports Fetch Membership
begin

text \<open>
  The scheduler, \<^verbatim>\<open>src/runtime.rs\<close>: the sources, the membership rounds and the classification loop
  that share one RPC work gate, and the registry the HTTP API reads. The two loops are two program counters; a step
  runs one of them up to its next suspension point, and a publication in flight is a task of
  \<open>Publisher\<close>, run one critical section at a time. The node, the clock and the RPC tasks answer
  arbitrarily; the gate excludes the rounds from slices, so nothing supersedes a slice while it runs.
\<close>

section \<open>Sources\<close>

definition MAX_CONFIGURED_SOURCES :: nat where "MAX_CONFIGURED_SOURCES = 4"

record atlas_source =
  so_publisher :: publisher
  so_state :: current_state
  so_client :: rpc_client
  so_limits :: classification_limits
  so_coordinator :: coordinator

definition source_runtime_new :: "string \<Rightarrow> string \<Rightarrow> nat \<Rightarrow> runtime_error + publisher \<times> current_state" where
  "source_runtime_new sid lbl interval =
     ok_then (map_error Model (validate_source_id sid)) (\<lambda>_.
     ok_then (map_error Model (validate_source_label lbl)) (\<lambda>_.
       if interval = 0 then Inl ZeroPollInterval
       else Inr (\<lparr> pb_source_id = sid, pb_source_label = lbl, pb_poll_interval = interval \<rparr>, state_default)))"

text \<open>A source with its RPC client and a new classification pipeline.\<close>

definition atlas_source_new ::
    "publisher \<times> current_state \<Rightarrow> rpc_client \<Rightarrow> classification_limits \<Rightarrow> atlas_source" where
  "atlas_source_new runtime client lim = \<lparr> so_publisher = fst runtime, so_state = snd runtime,
     so_client = client, so_limits = lim, so_coordinator = coordinator_new (max_auxiliary_cache_bytes lim) \<rparr>"

text \<open>The loop of \<^verbatim>\<open>AtlasRuntime::new\<close> over its sources.\<close>

fun check_sources :: "nat \<Rightarrow> string bset \<Rightarrow> publisher list \<Rightarrow> runtime_error + unit" where
  "check_sources interval seen [] = Inr ()"
| "check_sources interval seen (p # ps) =
     (if pb_source_id p \<in> set seen then Inl (DuplicateSource (pb_source_id p))
      else if pb_poll_interval p \<noteq> interval
      then Inl (PollIntervalMismatch (pb_source_id p) (as_secs interval) (as_secs (pb_poll_interval p)))
      else check_sources interval (bs_insert (pb_source_id p) seen) ps)"

section \<open>The registry\<close>

fun index_sources ::
    "publisher list \<Rightarrow> (string, publisher) btree \<Rightarrow> runtime_error + (string, publisher) btree" where
  "index_sources [] m = Inr m"
| "index_sources (p # ps) m =
     (if bt_contains m (pb_source_id p) then Inl (DuplicateSource (pb_source_id p))
      else index_sources ps (bt_insert (pb_source_id p) p m))"

definition registry_new :: "publisher list \<Rightarrow> runtime_error + (string, publisher) btree" where
  "registry_new sources =
     (if MAX_CONFIGURED_SOURCES < length sources
      then Inl (TooManySources (length sources) MAX_CONFIGURED_SOURCES)
      else ok_then (index_sources sources []) (\<lambda>indexed. if indexed = [] then Inl NoSources else Inr indexed))"

definition registry_get :: "(string, publisher) btree \<Rightarrow> string \<Rightarrow> publisher option" where
  "registry_get registry sid = bt_get registry sid"

text \<open>Each summary is read on its own: \<open>read\<close> is the state of a source when the loop comes to it.\<close>

record sources_reply =
  sp_atlas_version :: string
  sp_sources :: "source_summary list"

definition sources_response ::
    "string \<Rightarrow> (string, publisher) btree \<Rightarrow> (publisher \<Rightarrow> current_state) \<Rightarrow> sources_reply" where
  "sources_response version registry read = \<lparr> sp_atlas_version = version,
     sp_sources = map (\<lambda>(_, p). summary_from_state p (read p)) registry \<rparr>"

fun is_ready :: "(string, publisher) btree \<Rightarrow> (publisher \<Rightarrow> current_state) \<Rightarrow> bool" where
  "is_ready [] read = False"
| "is_ready ((_, p) # rest) read =
     (if snapshot_observed_at_ms (summary_from_state p (read p)) \<noteq> None then True else is_ready rest read)"

section \<open>One membership turn\<close>

datatype poll_outcome =
    ClockFailed
  | RpcFailed membership_error
  | InstallFailed classification_error
  | Installed generation_start

text \<open>After \<^verbatim>\<open>record_poll_started\<close>: the snapshot and its installation.\<close>

definition poll_source ::
    "membership_node \<Rightarrow> txid_codec \<Rightarrow> bool \<Rightarrow> clock_reading \<Rightarrow> clock_reading \<Rightarrow> u64 \<Rightarrow> atlas_source \<Rightarrow>
     poll_outcome \<times> atlas_source" where
  "poll_source node codec joins started completed cell source =
     (case get_mempool_snapshot node joins (pb_source_id (so_publisher source)) (pb_source_label (so_publisher source))
          started completed (so_client source) cell of
        (Inl e, client, _) \<Rightarrow> (RpcFailed e, source\<lparr>so_client := client\<rparr>)
      | (Inr snap, client, _) \<Rightarrow>
          (case install_snapshot codec (so_limits source) snap (so_coordinator source) of
             Inl e \<Rightarrow> (InstallFailed e, source\<lparr>so_client := client\<rparr>)
           | Inr (publication, cd) \<Rightarrow>
               (Installed publication, source\<lparr>so_client := client, so_coordinator := cd\<rparr>)))"

text \<open>The publication each outcome asks for.\<close>

definition outcome_task :: "poll_outcome \<Rightarrow> task option" where
  "outcome_task out = (case out of
     Installed publication \<Rightarrow> Some (MembershipStart publication)
   | RpcFailed e \<Rightarrow> Some (FailureLoop (public_message e))
   | _ \<Rightarrow> None)"

section \<open>One classification turn\<close>

record rpc_world =
  rw_lib :: rust_bitcoin
  rw_codec :: txid_codec
  rw_node :: node_codec

text \<open>The surroundings of a slice of this source; the schedules are those of the requests it makes.\<close>

definition slice_world ::
    "rpc_world \<Rightarrow> (expected_variant list \<Rightarrow> schedule) \<Rightarrow> (expected_variant list \<Rightarrow> schedule) \<Rightarrow>
     (out_point list \<Rightarrow> schedule) \<Rightarrow> classification_limits \<Rightarrow> slice_env" where
  "slice_world w raw parents confirmed lim = \<lparr> en_lib = rw_lib w, en_codec = rw_codec w, en_limits = lim,
     en_resolver = resolver_production (max_auxiliary_cache_bytes lim), en_id = 0, en_entries = [], en_variants = [],
     en_raw = raw_source (rw_lib w) (rw_node w) raw (rpc_lanes lim),
     en_parents = raw_source (rw_lib w) (rw_node w) parents (rpc_lanes lim),
     en_confirmed = (\<lambda>req. the (fetch_confirmed_prevouts_concurrently (rw_codec w) (rw_node w) (confirmed req)
       (prevout_rpc_lanes lim) req)), en_live = (\<lambda>_. True) \<rparr>"

definition slice_effect :: "slice_end \<Rightarrow> coordinator \<Rightarrow> coordinator" where
  "slice_effect r cd = (case r of
     Reported _ work cache \<Rightarrow>
       cd\<lparr>cd_current := map_option (\<lambda>g. g\<lparr>cg_work := work\<rparr>) (cd_current cd), cd_cache := cache\<rparr>
   | SliceFailed _ work cache \<Rightarrow>
       cd\<lparr>cd_current := map_option (\<lambda>g. g\<lparr>cg_work := work\<rparr>) (cd_current cd), cd_cache := cache\<rparr>
   | SlicePanicked \<Rightarrow> cd)"

text \<open>
  \<^verbatim>\<open>publish_classification\<close>: the publication of a report, if it has one to make, and whether
  classification continues when that returns true.
\<close>

fun disposition_state :: "disposition \<Rightarrow> classification_state option" where
  "disposition_state Continue = Some Classifying"
| "disposition_state CompleteSlice = Some ClassificationComplete"
| "disposition_state Paused = Some ClassificationPaused"
| "disposition_state StaleSlice = None"

definition record_classification_outcome :: "slice_report \<Rightarrow> (task \<times> bool) option" where
  "record_classification_outcome report = map_option
     (\<lambda>st. (UpdateStart (rp_generation report) (rp_publication report) st, rp_disposition report = Continue))
     (disposition_state (rp_disposition report))"

definition record_classification_error :: "u64 option \<Rightarrow> (task \<times> bool) option" where
  "record_classification_error expected =
     map_option (\<lambda>generation. (UpdateStart generation None ClassificationPaused, False)) expected"

definition publish_classification :: "slice_end \<Rightarrow> u64 option \<Rightarrow> (task \<times> bool) option" where
  "publish_classification r expected = (case r of
     Reported report _ _ \<Rightarrow> record_classification_outcome report
   | SliceFailed _ _ _ \<Rightarrow> record_classification_error expected
   | SlicePanicked \<Rightarrow> None)"

text \<open>\<^verbatim>\<open>range(next..).next()\<close>, or else the first.\<close>

definition choose_source :: "nat bset \<Rightarrow> nat \<Rightarrow> nat option" where
  "choose_source active next_index = (case List.find (\<lambda>i. next_index \<le> i) active of
     Some i \<Rightarrow> Some i | None \<Rightarrow> first_of active)"

definition append_pending :: "nat bset \<Rightarrow> nat bset \<Rightarrow> nat bset" where
  "append_pending active pending = fold bs_insert pending active"

section \<open>The two loops\<close>

datatype poll_pc =
    AwaitTick
  | Polling nat "(nat \<times> poll_outcome) list"
  | AwaitSnapshot nat "(nat \<times> poll_outcome) list"
  | Publishing "(nat \<times> poll_outcome) list"
  | PublishingOne nat poll_outcome task "(nat \<times> poll_outcome) list"

datatype class_pc =
    AwaitWakeup
  | Choosing "nat bset" nat
  | AwaitGate nat "nat bset"
  | Slicing nat "u64 option" "nat bset"
  | PublishingSlice nat slice_end task bool "nat bset"
  | Crashed

record atlas =
  at_sources :: "atlas_source list"
  at_gate :: bool  \<comment> \<open>the semaphore's permit is available\<close>
  at_wakeup :: bool  \<comment> \<open>the notification's permit\<close>
  at_pending :: "nat bset"
  at_poll :: poll_pc
  at_class :: class_pc

definition atlas_new :: "atlas_source list \<Rightarrow> nat \<Rightarrow> runtime_error + atlas" where
  "atlas_new sources interval =
     (if sources = [] then Inl NoSources
      else if MAX_CONFIGURED_SOURCES < length sources
      then Inl (TooManySources (length sources) MAX_CONFIGURED_SOURCES)
      else if interval = 0 then Inl ZeroPollInterval
      else ok_then (check_sources interval [] (map so_publisher sources)) (\<lambda>_.
        Inr \<lparr> at_sources = sources, at_gate = True, at_wakeup = False, at_pending = [], at_poll = AwaitTick,
          at_class = AwaitWakeup \<rparr>))"

definition at_source :: "atlas \<Rightarrow> nat \<Rightarrow> atlas_source" where
  "at_source a i = at_sources a ! i"

definition update_source :: "nat \<Rightarrow> (atlas_source \<Rightarrow> atlas_source) \<Rightarrow> atlas \<Rightarrow> atlas" where
  "update_source i f a = a\<lparr>at_sources := (at_sources a)[i := f (at_source a i)]\<rparr>"

definition schedule_classification :: "nat \<Rightarrow> atlas \<Rightarrow> atlas" where
  "schedule_classification i a = a\<lparr>at_pending := bs_insert i (at_pending a), at_wakeup := True\<rparr>"

text \<open>A publication of source \<open>i\<close> that has finished, or goes on.\<close>

definition publication_done :: "(nat \<times> poll_outcome) list \<Rightarrow> nat \<Rightarrow> poll_outcome \<Rightarrow> runtime_error + bool \<Rightarrow> atlas \<Rightarrow> atlas" where
  "publication_done rest i out r a =
     (case (out, r) of (Installed _, Inr True) \<Rightarrow> schedule_classification i a | _ \<Rightarrow> a)\<lparr>at_poll := Publishing rest\<rparr>"

definition slice_done :: "nat \<Rightarrow> bool \<Rightarrow> nat bset \<Rightarrow> atlas \<Rightarrow> atlas" where
  "slice_done i continue active a =
     a\<lparr>at_class := Choosing (if continue then bs_insert i active else active) ((i + 1) mod length (at_sources a))\<rparr>"

inductive atlas_step ::
    "(snapshot_response \<Rightarrow> bytes option) \<Rightarrow> rpc_world \<Rightarrow> atlas \<Rightarrow> atlas \<Rightarrow> bool"
  for encode w where
  tick: "at_poll a = AwaitTick \<Longrightarrow> at_gate a \<Longrightarrow>
    atlas_step encode w a (a\<lparr>at_poll := Polling 0 [], at_gate := False\<rparr>)"
| poll_clock: "at_poll a = Polling i outs \<Longrightarrow> i < length (at_sources a) \<Longrightarrow> system_now_ms now = Inl e \<Longrightarrow>
    atlas_step encode w a (a\<lparr>at_poll := Polling (i + 1) (outs @ [(i, ClockFailed)])\<rparr>)"
| poll_started: "at_poll a = Polling i outs \<Longrightarrow> i < length (at_sources a) \<Longrightarrow> system_now_ms now = Inr ms \<Longrightarrow>
    atlas_step encode w a ((update_source i (\<lambda>s. s\<lparr>so_state := record_poll_started ms (so_state s)\<rparr>) a)
      \<lparr>at_poll := AwaitSnapshot i outs\<rparr>)"
| poll_snapshot: "at_poll a = AwaitSnapshot i outs \<Longrightarrow>
    poll_source node (rw_codec w) joins started completed cell (at_source a i) = (out, source) \<Longrightarrow>
    atlas_step encode w a ((update_source i (\<lambda>_. source) a)\<lparr>at_poll := Polling (i + 1) (outs @ [(i, out)])\<rparr>)"
| poll_release: "at_poll a = Polling i outs \<Longrightarrow> i = length (at_sources a) \<Longrightarrow>
    atlas_step encode w a (a\<lparr>at_poll := Publishing outs, at_gate := True\<rparr>)"
| publish_none: "at_poll a = Publishing [] \<Longrightarrow> atlas_step encode w a (a\<lparr>at_poll := AwaitTick\<rparr>)"
| publish_skip: "at_poll a = Publishing ((i, out) # rest) \<Longrightarrow> outcome_task out = None \<Longrightarrow>
    atlas_step encode w a (a\<lparr>at_poll := Publishing rest\<rparr>)"
| publish_start: "at_poll a = Publishing ((i, out) # rest) \<Longrightarrow> outcome_task out = Some t \<Longrightarrow>
    atlas_step encode w a (a\<lparr>at_poll := PublishingOne i out t rest\<rparr>)"
| publish_run: "at_poll a = PublishingOne i out t rest \<Longrightarrow> (\<nexists>r. t = Finished r) \<Longrightarrow>
    task_step encode (so_publisher (at_source a i)) t (so_state (at_source a i)) = (t', st) \<Longrightarrow>
    atlas_step encode w a ((update_source i (\<lambda>s. s\<lparr>so_state := st\<rparr>) a)\<lparr>at_poll := PublishingOne i out t' rest\<rparr>)"
| publish_done: "at_poll a = PublishingOne i out (Finished r) rest \<Longrightarrow>
    atlas_step encode w a (publication_done rest i out r a)"
| class_wake: "at_class a = AwaitWakeup \<Longrightarrow> at_wakeup a \<Longrightarrow>
    atlas_step encode w a (a\<lparr>at_wakeup := False, at_class := Choosing [] 0\<rparr>)"
| class_rest: "at_class a = Choosing active k \<Longrightarrow> choose_source (append_pending active (at_pending a)) k = None \<Longrightarrow>
    atlas_step encode w a (a\<lparr>at_pending := [], at_class := AwaitWakeup\<rparr>)"
| class_choose: "at_class a = Choosing active k \<Longrightarrow> choose_source (append_pending active (at_pending a)) k = Some i \<Longrightarrow>
    atlas_step encode w a (a\<lparr>at_pending := [],
      at_class := AwaitGate i (bs_remove i (append_pending active (at_pending a)))\<rparr>)"
| class_gate: "at_class a = AwaitGate i active \<Longrightarrow> at_gate a \<Longrightarrow>
    atlas_step encode w a (a\<lparr>at_gate := False, at_class := Slicing i (st_generation (so_state (at_source a i))) active\<rparr>)"
| class_slice: "at_class a = Slicing i expected active \<Longrightarrow>
    classify_next (slice_world w raw parents confirmed (so_limits (at_source a i))) expected
      (so_coordinator (at_source a i)) = r \<Longrightarrow> r \<noteq> SlicePanicked \<Longrightarrow> publish_classification r expected = Some (t, c) \<Longrightarrow>
    atlas_step encode w a ((update_source i (\<lambda>s. s\<lparr>so_coordinator := slice_effect r (so_coordinator s)\<rparr>) a)
      \<lparr>at_gate := True, at_class := PublishingSlice i r t c active\<rparr>)"
| class_silent: "at_class a = Slicing i expected active \<Longrightarrow>
    classify_next (slice_world w raw parents confirmed (so_limits (at_source a i))) expected
      (so_coordinator (at_source a i)) = r \<Longrightarrow> r \<noteq> SlicePanicked \<Longrightarrow> publish_classification r expected = None \<Longrightarrow>
    atlas_step encode w a (slice_done i False active
      ((update_source i (\<lambda>s. s\<lparr>so_coordinator := slice_effect r (so_coordinator s)\<rparr>) a)\<lparr>at_gate := True\<rparr>))"
| class_crash: "at_class a = Slicing i expected active \<Longrightarrow>
    classify_next (slice_world w raw parents confirmed (so_limits (at_source a i))) expected
      (so_coordinator (at_source a i)) = SlicePanicked \<Longrightarrow>
    atlas_step encode w a (a\<lparr>at_gate := True, at_class := Crashed\<rparr>)"
| class_run: "at_class a = PublishingSlice i r t c active \<Longrightarrow> (\<nexists>r. t = Finished r) \<Longrightarrow>
    task_step encode (so_publisher (at_source a i)) t (so_state (at_source a i)) = (t', st) \<Longrightarrow>
    atlas_step encode w a ((update_source i (\<lambda>s. s\<lparr>so_state := st\<rparr>) a)\<lparr>at_class := PublishingSlice i r t' c active\<rparr>)"
| class_done: "at_class a = PublishingSlice i r (Finished res) c active \<Longrightarrow>
    atlas_step encode w a (slice_done i (res = Inr True \<and> c) active a)"

inductive atlas_reaches ::
    "(snapshot_response \<Rightarrow> bytes option) \<Rightarrow> rpc_world \<Rightarrow> atlas \<Rightarrow> nat \<Rightarrow> atlas \<Rightarrow> bool"
  for encode w a0 where
  start: "atlas_reaches encode w a0 0 a0"
| step: "atlas_reaches encode w a0 n a \<Longrightarrow> atlas_step encode w a a' \<Longrightarrow> atlas_reaches encode w a0 (Suc n) a'"

end
