(* ===== verification/Runtime_Sync.thy ===== *)
theory Runtime_Sync
  imports Runtime
begin

text \<open>
  The composition of the pipeline, the publisher and the scheduler: whatever the two loops of \<open>Runtime\<close>
  interleave, no slice panics, no publication is refused with an error, and what a source shows of its current
  generation is what the pipeline has classified.
\<close>

section \<open>A slice keeps the records in step\<close>

definition applied :: "revision_delta \<Rightarrow> transaction_classifications \<Rightarrow> transaction_classifications" where
  "applied d cls = fold (\<lambda>c. bt_insert (tc_txid c) c) (dl_changed d) cls"

lemma mirrors_cong: "wk_classifications W = wk_classifications W' \<Longrightarrow> mirrors E W cls = mirrors E W' cls"
  by (simp add: mirrors_def previous_record_def cong: option.case_cong)

lemma mirrors_insert:
  assumes m: "mirrors E W cls" and ok: "bt_ok (wk_classifications W)" and e0: "e0 \<in> set E"
    and r: "tc_txid (cc_classification r) = me_txid e0" "tc_wtxid (cc_classification r) = me_wtxid e0"
    and d: "distinct (map me_txid E)" "distinct (map me_wtxid E)"
  shows "mirrors E (W\<lparr>wk_classifications := bt_insert (tc_wtxid (cc_classification r)) r (wk_classifications W)\<rparr>)
    (bt_insert (tc_txid (cc_classification r)) (cc_classification r) cls)"
proof -
  let ?W = "W\<lparr>wk_classifications := bt_insert (tc_wtxid (cc_classification r)) r (wk_classifications W)\<rparr>"
  have cls: "bt_ok cls" using m by (simp add: mirrors_def)
  have same: "e = e0" if "e \<in> set E" "me_wtxid e = me_wtxid e0 \<or> me_txid e = me_txid e0" for e
    using that e0 d by (auto simp: distinct_map inj_on_def)
  have rec: "previous_record ?W e = (if e = e0 then Some r else previous_record W e)" if "e \<in> set E" for e
    using same [OF that] r by (auto simp: previous_record_def bt_get_insert [OF ok])
  have "bt_get (bt_insert (tc_txid (cc_classification r)) (cc_classification r) cls) k =
      (case find (\<lambda>e. me_txid e = k) E of Some e \<Rightarrow> map_option cc_classification (previous_record ?W e) | None \<Rightarrow> None)" for k
  proof (cases "find (\<lambda>e. me_txid e = k) E")
    case None
    then have "k \<noteq> me_txid e0" using e0 by (auto simp: find_None_iff)
    then show ?thesis using None m r by (simp add: bt_get_insert [OF cls] mirrors_def)
  next
    case (Some e)
    then have e: "e \<in> set E" "me_txid e = k" by (auto simp: find_Some_iff)
    show ?thesis using Some m r rec [OF e(1)] same [OF e(1)] e(2)
      by (auto simp: bt_get_insert [OF cls] mirrors_def)
  qed
  then show ?thesis using cls by (simp add: mirrors_def bt_ok_insert)
qed

lemma mirrors_stored:
  assumes "mirrors E W cls" "bt_ok (wk_classifications W)" "distinct (map me_txid E)" "distinct (map me_wtxid E)"
    "\<forall>r \<in> set rs. \<exists>e \<in> set E. tc_txid (cc_classification r) = me_txid e \<and> tc_wtxid (cc_classification r) = me_wtxid e"
  shows "mirrors E (store_classifications rs W) (fold (\<lambda>c. bt_insert (tc_txid c) c) (map cc_classification rs) cls)"
  using assms(1,2,5)
proof (induction rs arbitrary: W cls)
  case Nil
  then show ?case by (simp add: store_classifications_def)
next
  case (Cons r rs)
  obtain e where e: "e \<in> set E" "tc_txid (cc_classification r) = me_txid e" "tc_wtxid (cc_classification r) = me_wtxid e"
    using Cons.prems(3) by auto
  let ?W = "W\<lparr>wk_classifications := bt_insert (tc_wtxid (cc_classification r)) r (wk_classifications W)\<rparr>"
  have st: "store_classifications (r # rs) W = store_classifications rs ?W" by (simp add: store_classifications_def)
  show ?case
    using Cons.IH [OF mirrors_insert [OF Cons.prems(1,2) e assms(3,4)]] Cons.prems(2,3)
    by (simp add: st bt_ok_insert)
qed

text \<open>What a report publishes, applied to records in step with the work before, is in step with the work after.\<close>

lemma report_in_step:
  assumes rp: "report_ok env work rp work'" and ok: "classified_ok (wk_classifications work)"
    and d: "distinct (map me_txid (en_entries env))" "distinct (map me_wtxid (en_entries env))"
    and m: "mirrors (en_entries env) work cls"
  shows "case rp_publication rp of
      None \<Rightarrow> mirrors (en_entries env) work' cls \<and> wk_revision work' = wk_revision work
    | Some d \<Rightarrow> mirrors (en_entries env) work' (applied d cls) \<and> dl_generation d = rp_generation rp \<and>
        wk_revision work' = dl_revision d \<and> unat (dl_revision d) = unat (wk_revision work) + 1"
proof (cases "rp_publication rp")
  case None
  then show ?thesis using rp m mirrors_cong [of work' work] by (simp add: report_ok_def)
next
  case (Some dl)
  then obtain rs where rs: "dl_generation dl = en_id env" "rp_generation rp = en_id env"
    "unat (dl_revision dl) = unat (wk_revision work) + 1" "wk_revision work' = dl_revision dl"
    "dl_changed dl = map cc_classification rs" "records_of (eligible env) rs"
    "wk_classifications work' = wk_classifications (store_classifications rs work)"
    using rp by (auto simp: report_ok_def)
  have "\<forall>r \<in> set rs. \<exists>e \<in> set (en_entries env). tc_txid (cc_classification r) = me_txid e \<and>
      tc_wtxid (cc_classification r) = me_wtxid e"
    using rs(6) by (fastforce simp: records_of_def list_all_iff eligible_def expected_of_def)
  from mirrors_stored [OF m _ d this] ok
  have "mirrors (en_entries env) (store_classifications rs work) (applied dl cls)"
    by (simp add: applied_def rs(5) classified_ok_def)
  then show ?thesis using Some rs mirrors_cong [OF rs(7)] by simp
qed

section \<open>Publications in flight\<close>

text \<open>
  The publisher shows a generation's records: exactly, or up to the one delta that is still on its way.
\<close>

definition generation_ok :: "nat \<Rightarrow> generation \<Rightarrow> bool" where
  "generation_ok n g \<longleftrightarrow> snapshot_ok (cg_membership g) \<and> distinct (map me_wtxid (transactions (cg_membership g))) \<and>
     classified_ok (wk_classifications (cg_work g)) \<and> unat (wk_revision (cg_work g)) \<le> n"

definition in_step :: "generation \<Rightarrow> revision_delta option \<Rightarrow> current_state \<Rightarrow> bool" where
  "in_step g delta st \<longleftrightarrow> st_membership st = Some (cg_membership g) \<and> (case delta of
     None \<Rightarrow> mirrors (transactions (cg_membership g)) (cg_work g) (st_classifications st) \<and>
       st_revision st = wk_revision (cg_work g)
   | Some d \<Rightarrow> mirrors (transactions (cg_membership g)) (cg_work g) (applied d (st_classifications st)) \<and>
       dl_revision d = wk_revision (cg_work g) \<and> unat (dl_revision d) = unat (st_revision st) + 1)"

definition pending_for :: "revision_delta option \<Rightarrow> u64 \<Rightarrow> revision_delta option" where
  "pending_for delta g = (case delta of Some d \<Rightarrow> if dl_generation d = g then Some d else None | None \<Rightarrow> None)"

lemma pending_for_None [simp]: "pending_for None g = None"
  by (simp add: pending_for_def)

definition same_published :: "current_state \<Rightarrow> current_state \<Rightarrow> bool" where
  "same_published st st' \<longleftrightarrow> st_generation st' = st_generation st \<and> st_membership st' = st_membership st \<and>
     st_classifications st' = st_classifications st \<and> st_revision st' = st_revision st"

lemma same_published_refl [simp]: "same_published st st"
  by (simp add: same_published_def)

lemma in_step_same: "same_published st st' \<Longrightarrow> in_step g delta st' = in_step g delta st"
  by (cases delta) (simp_all add: same_published_def in_step_def)

fun update_flight :: "revision_delta option \<Rightarrow> u64 \<Rightarrow> current_state \<Rightarrow> task \<Rightarrow> bool" where
  "update_flight delta gen st (UpdateStart gen' delta' lifecycle) = (gen' = gen \<and> delta' = delta)"
| "update_flight delta gen st (UpdateCommit u) = (\<exists>d. delta = Some d \<and> uc_generation u = gen \<and>
     uc_delta_revision u = dl_revision d \<and> unat (dl_revision d) = unat (uc_revision u) + 1 \<and>
     (st_generation st = Some gen \<and> st_revision st = uc_revision u \<longrightarrow>
       po_classifications (uc_prepared u) = applied d (st_classifications st)))"
| "update_flight delta gen st (LifecycleLoop gen' lifecycle) = (gen' = gen \<and> delta = None)"
| "update_flight delta gen st (LifecycleCommit gen' lifecycle status revision body) = (gen' = gen \<and> delta = None)"
| "update_flight delta gen st (Finished r) = (\<not> isl r)"
| "update_flight delta gen st _ = False"

fun start_flight :: "generation_start \<Rightarrow> task \<Rightarrow> bool" where
  "start_flight gs (MembershipStart gs') = (gs' = gs)"
| "start_flight gs (MembershipLoop gs' prepared lifecycle) = (gs' = gs)"
| "start_flight gs (MembershipCommit gs' prepared lifecycle status generation body) = (gs' = gs)"
| "start_flight gs (Finished r) = (\<not> isl r)"
| "start_flight gs _ = False"

fun failure_flight :: "task \<Rightarrow> bool" where
  "failure_flight (FailureLoop _) = True"
| "failure_flight (FailureCommit _ _ _ _ _) = True"
| "failure_flight (Finished r) = (\<not> isl r)"
| "failure_flight _ = False"

fun is_finished :: "task \<Rightarrow> bool" where
  "is_finished (Finished r) = True"
| "is_finished _ = False"

lemma is_finished_iff: "is_finished t \<longleftrightarrow> (\<exists>r. t = Finished r)"
  by (cases t) auto

lemma update_flight_same: "same_published st st' \<Longrightarrow> update_flight delta gen st' t = update_flight delta gen st t"
  by (cases t) (simp_all add: same_published_def)

lemma replaced_same [simp]:
  "same_published st (replace_cached_response pb body st') = same_published st st'"
  by (simp add: same_published_def replace_cached_response_def Let_def)

text \<open>A failure, and a change of the lifecycle, publish nothing new.\<close>

lemma failure_step:
  assumes "\<forall>x. encode x \<noteq> None" "failure_flight t" "task_step encode pb t st = (t', st')"
  shows "failure_flight t' \<and> same_published st st'"
proof -
  define f where "f = the \<circ> encode"
  have enc: "encode x = Some (f x)" for x using assms(1) by (simp add: f_def)
  show ?thesis
    using assms(2,3)
    by (cases t) (auto simp: enc failure_loop_def failure_commit_def same_published_def replace_cached_response_def
        Let_def split: option.splits if_splits)
qed

lemma start_step:
  assumes enc: "\<forall>x. encode x \<noteq> None" and t: "start_flight gs t" and run: "task_step encode pb t st = (t', st')"
    and src: "source_id (gs_membership gs) = pb_source_id pb" and rev: "gs_revision gs = 0"
    and m: "snapshot_ok (gs_membership gs)" "classified_ok (wk_classifications W)"
      "mirrors (transactions (gs_membership gs)) W (gs_classifications gs)"
    and ok: "task_ok encode pb n st t"
  shows "start_flight gs t' \<and> (st' = st \<and> (t' = Finished (Inr True) \<longrightarrow> t = t') \<and>
      (t' = Finished (Inr False) \<longrightarrow> t = t' \<or> superseded st (gs_generation gs)) \<or>
    t' = Finished (Inr True) \<and> \<not> superseded st (gs_generation gs) \<and> st_generation st' = Some (gs_generation gs) \<and>
      st_membership st' = Some (gs_membership gs) \<and> st_classifications st' = gs_classifications gs \<and> st_revision st' = 0)"
proof -
  define f where "f = the \<circ> encode"
  have enc': "encode x = Some (f x)" for x using enc by (simp add: f_def)
  obtain prepared where prep: "prepare_observation (gs_membership gs) 0 (gs_classifications gs) = Inr prepared"
      "po_classifications prepared = gs_classifications gs"
      "length (gs_classifications gs) \<le> length (transactions (gs_membership gs))"
    using mirrors_prepared [OF m, of 0] by (auto simp: json_safe_def)
  show ?thesis
  proof (cases t)
    case (MembershipStart gs')
    then have eq: "t' = membership_start pb gs st" "st' = st" using t run by auto
    have "membership_start pb gs st = (if superseded st (gs_generation gs) then Finished (Inr False)
        else MembershipLoop gs prepared (if gs_has_eligible_work gs then Classifying else ClassificationComplete))"
      using prep(3) by (simp add: membership_start_def src rev prep(1))
    then show ?thesis using eq by (cases "superseded st (gs_generation gs)") simp_all
  next
    case (MembershipLoop gs' p l)
    then have eq: "t' = membership_loop encode pb gs p l st" "st' = st" using t run by auto
    then show ?thesis by (cases "superseded st (gs_generation gs)") (simp_all add: membership_loop_def enc')
  next
    case (MembershipCommit gs' p l status g body)
    then have "p = prepared" using t ok prep rev by (auto simp: prepared_start_def)
    then show ?thesis using MembershipCommit t run prep(2) rev
      by (auto simp: membership_commit_def replace_cached_response_def Let_def split: if_splits)
  qed (use t run in auto)
qed

text \<open>
  A classification update: it is never refused with an error, and when it has finished, what was in step up to
  its delta is in step.
\<close>

lemma checked_next: "unat r = unat q + 1 \<Longrightarrow> checked_add64 q 1 = Some r"
  by (simp add: checked_add64_Some_iff)

lemma update_start_step:
  assumes enc: "\<forall>x. encode x = Some (f x)" and gen: "dl_generation d = gen"
    and g: "st_generation st = Some gen \<longrightarrow> (\<exists>h. generation_ok n h \<and> in_step h (Some d) st)"
    and n: "n < 2 ^ 53"
  shows "update_flight (Some d) gen st (update_start encode pb gen (Some d) lifecycle st)"
    "update_start encode pb gen (Some d) lifecycle st = Finished r \<Longrightarrow> st_generation st \<noteq> Some gen"
proof -
  have "\<exists>u. update_start encode pb gen (Some d) lifecycle st = UpdateCommit u \<and> uc_generation u = gen \<and>
      uc_delta_revision u = dl_revision d \<and> unat (dl_revision d) = unat (uc_revision u) + 1 \<and>
      po_classifications (uc_prepared u) = applied d (st_classifications st)"
    if live: "st_generation st = Some gen"
  proof -
    obtain h where h: "generation_ok n h" "in_step h (Some d) st" using g live by blast
    let ?cls = "applied d (st_classifications st)" and ?m = "cg_membership h"
    have m: "st_membership st = Some ?m" "mirrors (transactions ?m) (cg_work h) ?cls"
      "dl_revision d = wk_revision (cg_work h)" "unat (dl_revision d) = unat (st_revision st) + 1"
      using h(2) unfolding in_step_def option.case by blast+
    have ok: "snapshot_ok ?m" "classified_ok (wk_classifications (cg_work h))"
      and safe: "json_safe (dl_revision d)"
      using h(1) n m(3) by (auto simp: generation_ok_def json_safe_def)
    obtain prepared where p: "prepare_observation ?m (dl_revision d) ?cls = Inr prepared"
        "po_classifications prepared = ?cls" "length ?cls \<le> length (transactions ?m)"
      using mirrors_prepared [OF ok m(2) safe] by blast
    have "\<not> dl_revision d \<le> st_revision st" using m(4) by (simp add: word_le_nat_alt)
    then have "update_start encode pb gen (Some d) lifecycle st =
        update_encode encode pb gen (dl_revision d) lifecycle (st_revision st) prepared st"
      using gen live m(1) p by (simp add: update_start_def checked_next [OF m(4)] applied_def [symmetric] Let_def)
    then show ?thesis using m(4) p(2) by (simp add: update_encode_def enc)
  qed
  moreover have "update_start encode pb gen (Some d) lifecycle st = Finished (Inr False)"
    if "st_generation st \<noteq> Some gen"
    using that gen by (simp add: update_start_def)
  ultimately show "update_flight (Some d) gen st (update_start encode pb gen (Some d) lifecycle st)"
    "update_start encode pb gen (Some d) lifecycle st = Finished r \<Longrightarrow> st_generation st \<noteq> Some gen"
    by (cases "st_generation st = Some gen"; fastforce)+
qed

lemma update_step:
  assumes enc: "\<forall>x. encode x \<noteq> None" and t: "update_flight delta gen st t" and nf: "\<not> is_finished t"
    and run: "task_step encode pb t st = (t', st')" and pub: "current_ok pb st"
    and gen: "\<forall>d. delta = Some d \<longrightarrow> dl_generation d = gen"
    and g: "st_generation st = Some gen \<Longrightarrow> \<exists>g. cg_id g = gen \<and> generation_ok n g \<and> in_step g delta st"
    and n: "n < 2 ^ 53"
  shows "update_flight delta gen st' t' \<and> st_generation st' = st_generation st \<and>
    (\<forall>g. st_generation st = Some (cg_id g) \<and> in_step g (pending_for delta (cg_id g)) st \<longrightarrow>
      in_step g (if is_finished t' then None else pending_for delta (cg_id g)) st') \<and>
    (st_generation st \<noteq> Some gen \<longrightarrow> same_published st st')"
proof -
  define f where "f = the \<circ> encode"
  have enc': "encode x = Some (f x)" for x using enc by (simp add: f_def)
  have unchanged: ?thesis if "st' = st \<or> same_published st st'" "update_flight delta gen st t'"
    "is_finished t' \<Longrightarrow> st_generation st \<noteq> Some gen \<or> delta = None"
  proof -
    have same: "same_published st st'" using that(1) by auto
    have "pending_for delta (cg_id h) = None" if "is_finished t'" "st_generation st = Some (cg_id h)" for h :: generation
      using that gen \<open>is_finished t' \<Longrightarrow> _\<close> by (auto simp: pending_for_def split: option.splits)
    then show ?thesis using that(2) same in_step_same [OF same] update_flight_same [OF same]
      by (auto simp: same_published_def)
  qed
  show ?thesis
  proof (cases t)
    case (UpdateStart gen' delta' l)
    then have eq: "gen' = gen" "delta' = delta" "st' = st" "t' = update_start encode pb gen delta l st"
      using t run by auto
    show ?thesis
    proof (cases delta)
      case None
      then show ?thesis using eq by (intro unchanged) (auto simp: update_start_def)
    next
      case (Some d)
      have dg: "dl_generation d = gen" using gen Some by simp
      have e: "\<forall>x. encode x = Some (f x)" using enc' by blast
      have h: "st_generation st = Some gen \<longrightarrow> (\<exists>h. generation_ok n h \<and> in_step h (Some d) st)" using g Some by blast
      have "update_flight (Some d) gen st t' \<and> (\<forall>r. t' = Finished r \<longrightarrow> st_generation st \<noteq> Some gen)"
        unfolding eq(4) Some
        using update_start_step(1) [OF e dg h n] update_start_step(2) [OF e dg h n] by blast
      then show ?thesis using eq Some by (intro unchanged) (auto simp: is_finished_iff)
    qed
  next
    case (UpdateCommit u)
    then obtain d where d: "delta = Some d" "uc_generation u = gen" "uc_delta_revision u = dl_revision d"
        "unat (dl_revision d) = unat (uc_revision u) + 1"
        "st_generation st = Some gen \<and> st_revision st = uc_revision u \<longrightarrow>
          po_classifications (uc_prepared u) = applied d (st_classifications st)"
      using t by auto
    show ?thesis
    proof (cases "st_generation st = Some gen")
      case False
      then have "t' = Finished (Inr False)" "st' = st" using run UpdateCommit d(2) by (auto simp: update_commit_def)
      with False show ?thesis by (intro unchanged) auto
    next
      case True
      obtain h where h: "cg_id h = gen" "in_step h delta st" using g True by blast
      then have "unat (dl_revision d) = unat (st_revision st) + 1" using d(1) unfolding in_step_def by auto
      then have rev: "st_revision st = uc_revision u" using d(4) by (simp add: word_unat_eq_iff)
      show ?thesis
      proof (cases "st_status_revision st = uc_status_revision u")
        case False
        then have "t' = update_encode encode pb gen (dl_revision d) (uc_state u) (uc_revision u) (uc_prepared u) st"
          "st' = st"
          using run UpdateCommit d(2,3) True rev by (auto simp: update_commit_def)
        then show ?thesis using d by (intro unchanged) (auto simp: update_encode_def enc')
      next
        case same: True
        then have res: "t' = Finished (Inr True)" "st_generation st' = st_generation st"
          "st_membership st' = st_membership st" "st_classifications st' = applied d (st_classifications st)"
          "st_revision st' = dl_revision d"
          using run UpdateCommit d True rev
          by (auto simp: update_commit_def replace_cached_response_def Let_def)
        have "in_step h' None st'" if "st_generation st = Some (cg_id h')" "in_step h' (pending_for delta (cg_id h')) st" for h'
          using that res d(1) True gen by (simp add: in_step_def pending_for_def)
        then show ?thesis using res True by simp
      qed
    qed
  next
    case (LifecycleLoop gen' l)
    then have eq: "gen' = gen" "delta = None" "st' = st" "t' = lifecycle_loop encode pb gen l st" using t run by auto
    have "st_latest st \<noteq> None" if "st_generation st = Some gen"
      using pub that by (auto simp: current_ok_def)
    then show ?thesis using eq by (intro unchanged) (auto simp: lifecycle_loop_def enc' split: option.splits)
  next
    case (LifecycleCommit gen' l status revision body)
    then show ?thesis using t run
      by (intro unchanged) (auto simp: lifecycle_commit_def same_published_def split: if_splits)
  qed (use t nf in auto)
qed

end
