(* ===== verification/Runtime_Props.thy ===== *)
theory Runtime_Props
  imports Runtime_Sync
begin

text \<open>
  The invariant of the scheduler of \<open>Runtime\<close>, source by source: the coordinator and the publisher are
  each consistent, the records published for the current generation are the pipeline's up to the delta in
  flight, and an installed generation that is not published yet has not been sliced.
\<close>

section \<open>One source\<close>

text \<open>
  What the node is relied on for: the transactions it serves, decoded, have no null input unless they are coinbase
  transactions (Bitcoin consensus).
\<close>

definition sane_world :: "rpc_world \<Rightarrow> bool" where
  "sane_world w \<longleftrightarrow> (\<forall>hex tx. decode_transaction_hex (rw_node w) hex = Some tx \<longrightarrow> \<not> is_coinbase (rw_lib w) tx \<longrightarrow>
     list_all (\<lambda>i. \<not> is_null (rw_lib w) (previous_output i)) (tx_inputs tx))"

definition world_ok :: "rpc_world \<Rightarrow> classification_limits \<Rightarrow> generation \<Rightarrow> confirmed_cache \<Rightarrow> bool" where
  "world_ok w lim g cache \<longleftrightarrow> (\<forall>raw parents confirmed.
     work_ok (env_of (slice_world w raw parents confirmed lim) g) (cg_work g) cache)"

definition source_inv ::
    "rpc_world \<Rightarrow> nat \<Rightarrow> atlas_source \<Rightarrow> generation_start option \<Rightarrow> revision_delta option \<Rightarrow> bool" where
  "source_inv w n s gs delta \<longleftrightarrow>
     rc_max_mempool_entries (so_client s) \<le> MAX_SUPPORTED_MEMPOOL_ENTRIES \<and>
     coordinator_ok (max_auxiliary_cache_bytes (so_limits s)) (so_coordinator s) \<and>
     (case cd_current (so_coordinator s) of
        None \<Rightarrow> st_generation (so_state s) = None \<and> gs = None
      | Some c \<Rightarrow> generation_ok n c \<and> source_id (cg_membership c) = pb_source_id (so_publisher s) \<and>
          world_ok w (so_limits s) c (cd_cache (so_coordinator s)) \<and>
          (\<forall>h. st_generation (so_state s) = Some h \<longrightarrow> (\<exists>g. cg_id g = h \<and> generation_ok n g \<and>
             in_step g (pending_for delta h) (so_state s) \<and> h \<le> cg_id c \<and> (h = cg_id c \<longrightarrow> g = c))) \<and>
          (\<forall>start. gs = Some start \<longrightarrow> gs_generation start = cg_id c \<and> gs_membership start = cg_membership c \<and>
             gs_revision start = 0 \<and> wk_revision (cg_work c) = 0 \<and>
             mirrors (transactions (cg_membership c)) (cg_work c) (gs_classifications start) \<and>
             \<not> superseded (so_state s) (cg_id c)))"

lemma generation_ok_mono: "generation_ok n g \<Longrightarrow> n \<le> m \<Longrightarrow> generation_ok m g"
  by (simp add: generation_ok_def)

lemma source_inv_mono: "source_inv w n s gs delta \<Longrightarrow> n \<le> m \<Longrightarrow> source_inv w m s gs delta"
  unfolding source_inv_def by (cases "cd_current (so_coordinator s)") (simp, simp, metis generation_ok_mono)

lemma env_of_fields [simp]:
  "en_id (env_of env g) = cg_id g" "en_entries (env_of env g) = transactions (cg_membership g)"
  "en_lib (env_of env g) = en_lib env" "en_raw (env_of env g) = en_raw env" "en_resolver (env_of env g) = en_resolver env"
  "en_limits (env_of env g) = en_limits env" "en_live (env_of env g) = en_live env"
  by (simp_all add: env_of_def)

lemma slice_world_ok:
  assumes w: "sane_world w" and g: "generation_ok n g"
    and env_def: "env = env_of (slice_world w raw parents confirmed lim) g"
  shows "transaction_source (en_lib env) (en_raw env)" "env_ok env"
proof -
  show "transaction_source (en_lib env) (en_raw env)"
    unfolding env_def env_of_fields by (simp add: slice_world_def rpc_source.transaction_source_axioms)
  have "list_all (\<lambda>i. \<not> is_null (rw_lib w) (previous_output i)) (tx_inputs tx)"
    if f: "(e, Found tx) \<in> set (cf_values (raw_source (rw_lib w) (rw_node w) raw (rpc_lanes lim) req))"
      and nc: "\<not> is_coinbase (rw_lib w) tx" for req e tx
    using raw_source_found [OF f] w nc by (auto simp: sane_world_def right_transaction_def)
  then show "env_ok env"
    using g unfolding env_ok_def env_def env_of_fields
    by (simp add: slice_world_def generation_ok_def resolver_production_def resolver_constants)
qed

text \<open>
  A slice under the gate: it reports, the report is in step with the coordinator's records, and it publishes
  something only for the generation the publisher shows.
\<close>

lemma slice_source:
  assumes w: "sane_world w" and n: "n < 2 ^ 53" and inv: "source_inv w n s gs None"
    and expected: "\<forall>h. expected = Some h \<longrightarrow> (\<exists>h'. st_generation (so_state s) = Some h' \<and> h \<le> h')"
    and r: "r = classify_next (slice_world w raw parents confirmed (so_limits s)) expected (so_coordinator s)"
  shows "\<exists>rp work cache. r = Reported rp work cache \<and>
    source_inv w (n + 1) (s\<lparr>so_coordinator := slice_effect r (so_coordinator s)\<rparr>) gs (rp_publication rp) \<and>
    (rp_stale rp \<longleftrightarrow> rp_disposition rp = StaleSlice) \<and> (rp_stale rp \<longrightarrow> rp_publication rp = None) \<and>
    (\<forall>d. rp_publication rp = Some d \<longrightarrow> dl_generation d = rp_generation rp \<and>
      st_generation (so_state s) = Some (rp_generation rp))"
proof (cases "cd_current (so_coordinator s)")
  case None
  have "slice_effect r (so_coordinator s) = so_coordinator s"
    using None by (cases "so_coordinator s") (simp add: r classify_next_def slice_effect_def)
  then have "source_inv w (n + 1) (s\<lparr>so_coordinator := slice_effect r (so_coordinator s)\<rparr>) gs None"
    using source_inv_mono [OF inv, of "n + 1"] by simp
  then show ?thesis using None by (simp add: r classify_next_def report_waiting_def)
next
  case (Some c)
  let ?env = "env_of (slice_world w raw parents confirmed (so_limits s)) c"
  let ?max = "max_auxiliary_cache_bytes (so_limits s)" and ?cd = "so_coordinator s" and ?st = "so_state s"
  have c: "generation_ok n c" "source_id (cg_membership c) = pb_source_id (so_publisher s)"
    "world_ok w (so_limits s) c (cd_cache ?cd)" "coordinator_ok ?max ?cd"
    "rc_max_mempool_entries (so_client s) \<le> MAX_SUPPORTED_MEMPOOL_ENTRIES"
    and published: "\<forall>h. st_generation ?st = Some h \<longrightarrow> (\<exists>g. cg_id g = h \<and> generation_ok n g \<and>
             in_step g None ?st \<and> h \<le> cg_id c \<and> (h = cg_id c \<longrightarrow> g = c))"
    and start: "\<forall>start. gs = Some start \<longrightarrow> gs_generation start = cg_id c \<and> gs_membership start = cg_membership c \<and>
             gs_revision start = 0 \<and> wk_revision (cg_work c) = 0 \<and>
             mirrors (transactions (cg_membership c)) (cg_work c) (gs_classifications start) \<and>
             \<not> superseded ?st (cg_id c)"
    using inv Some by (simp_all add: source_inv_def)
  note env = slice_world_ok [OF w c(1) refl, of raw parents confirmed "so_limits s"]
  have r': "r = classify_generation ?env expected (cg_work c) (cd_cache ?cd)"
    using Some by (simp add: r classify_next_def)
  have "work_ok ?env (cg_work c) (cd_cache ?cd)" using c(3) by (simp add: world_ok_def)
  from classify_generation_ok [OF env this, of expected] have "end_ok ?env (cg_work c) r" by (simp add: r')
  moreover have "wk_revision (cg_work c) \<noteq> u64_max"
  proof
    assume "wk_revision (cg_work c) = u64_max"
    then have "unat (wk_revision (cg_work c)) = 2 ^ 64 - 1" by simp
    then show False using c(1) n by (simp add: generation_ok_def)
  qed
  ultimately obtain rp work cache where rp: "r = Reported rp work cache" "work_ok ?env work cache"
      "report_ok ?env (cg_work c) rp work"
    by (cases r) (auto simp: end_ok_def)
  let ?c = "c\<lparr>cg_work := work\<rparr>"
  have effect: "slice_effect r ?cd = ?cd\<lparr>cd_current := Some ?c, cd_cache := cache\<rparr>"
    using Some by (simp add: rp(1) slice_effect_def)
  have gid: "rp_generation rp = cg_id c" using rp(3) by (simp add: report_ok_def)
  have stale: "(rp_stale rp \<longleftrightarrow> rp_disposition rp = StaleSlice)" "rp_stale rp \<longrightarrow> rp_publication rp = None"
    using rp(3) by (simp_all add: report_ok_def)
  have d: "distinct (map me_txid (en_entries ?env))" "distinct (map me_wtxid (en_entries ?env))"
    using c(1) distinct_txids by (simp_all add: generation_ok_def)
  have ok: "classified_ok (wk_classifications (cg_work c))" using c(1) by (simp add: generation_ok_def)
  note step = report_in_step [OF rp(3) ok d, unfolded env_of_fields]
  have live: "expected = Some (cg_id c)" if "rp_publication rp \<noteq> None \<or> work \<noteq> cg_work c"
  proof (rule ccontr)
    assume "expected \<noteq> Some (cg_id c)"
    then have "r = Reported (report_stale (cg_id c)) (cg_work c) (cd_cache ?cd)"
      by (simp add: r' classify_generation_def)
    then show False using that by (simp add: rp(1) report_stale_def)
  qed
  have now: "st_generation ?st = Some (cg_id c) \<and> in_step c None ?st \<and> gs = None" if e: "expected = Some (cg_id c)"
  proof -
    obtain h where h: "st_generation ?st = Some h" "cg_id c \<le> h" using expected e by blast
    obtain g where "cg_id g = h" "in_step g None ?st" "h \<le> cg_id c" "h = cg_id c \<longrightarrow> g = c"
      using published h(1) by blast
    moreover from this have "h = cg_id c" using h(2) by simp
    moreover have "gs = None" using start h by (cases gs) (auto simp: superseded_def)
    ultimately show ?thesis using h(1) by simp
  qed
  have rev: "unat (wk_revision work) \<le> n + 1"
    using rp(3) c(1) by (auto simp: report_ok_def generation_ok_def split: option.splits)
  have wok: "classified_ok (wk_classifications work)" "caches_ok ?max (work, cache)"
    using rp(2) by (simp_all add: work_ok_def slice_world_def)
  have c': "generation_ok (n + 1) ?c" using c(1) wok(1) rev by (simp add: generation_ok_def)
  have wo: "world_ok w (so_limits s) ?c cache"
    using rp(2) by (simp add: world_ok_def work_ok_def pending_ok_def eligible_def env_of_def slice_world_def)
  have co: "coordinator_ok ?max (?cd\<lparr>cd_current := Some ?c, cd_cache := cache\<rparr>)"
    using c(4) Some wok by (simp add: coordinator_ok_def)
  have in': "in_step ?c (pending_for (rp_publication rp) (cg_id c)) ?st" if "st_generation ?st = Some (cg_id c)"
  proof -
    have i: "in_step c None ?st" using published that by blast
    then have m: "mirrors (transactions (cg_membership c)) (cg_work c) (st_classifications ?st)"
      "st_revision ?st = wk_revision (cg_work c)" "st_membership ?st = Some (cg_membership c)"
      by (simp_all add: in_step_def)
    show ?thesis using step [OF m(1)] m(2,3) gid
      by (cases "rp_publication rp") (auto simp: in_step_def pending_for_def)
  qed
  have pub: "\<exists>g. cg_id g = h \<and> generation_ok (n + 1) g \<and> in_step g (pending_for (rp_publication rp) h) ?st \<and>
      h \<le> cg_id ?c \<and> (h = cg_id ?c \<longrightarrow> g = ?c)" if h: "st_generation ?st = Some h" for h
  proof (cases "h = cg_id c")
    case True
    then show ?thesis using in' h c' by (intro exI [of _ ?c]) simp
  next
    case False
    obtain g where g: "cg_id g = h" "generation_ok n g" "in_step g None ?st" "h \<le> cg_id c"
      using published h by blast
    have "pending_for (rp_publication rp) h = None"
      using step gid False rp(3) by (auto simp: pending_for_def report_ok_def split: option.splits)
    then show ?thesis using g False generation_ok_mono [OF g(2), of "n + 1"] by (intro exI [of _ g]) simp
  qed
  have start': "gs_generation x = cg_id ?c \<and> gs_membership x = cg_membership ?c \<and> gs_revision x = 0 \<and>
      wk_revision (cg_work ?c) = 0 \<and> mirrors (transactions (cg_membership ?c)) (cg_work ?c) (gs_classifications x) \<and>
      \<not> superseded ?st (cg_id ?c)" if gs: "gs = Some x" for x
  proof -
    have "work = cg_work c" using live now gs by blast
    then show ?thesis using start gs by simp
  qed
  have "source_inv w (n + 1) (s\<lparr>so_coordinator := slice_effect r ?cd\<rparr>) gs (rp_publication rp)"
    unfolding effect source_inv_def using c(2,5) co c' wo pub start' by simp
  moreover have "dl_generation d = rp_generation rp \<and> st_generation ?st = Some (rp_generation rp)"
    if "rp_publication rp = Some d" for d
    using that live now gid rp(3) by (auto simp: report_ok_def)
  ultimately show ?thesis using rp(1) stale by blast
qed

fun start_of :: "poll_outcome \<Rightarrow> generation_start option" where
  "start_of (Installed gs) = Some gs"
| "start_of _ = None"

text \<open>An installation hands over records in step with the work of the new generation.\<close>

lemma installed_in_step:
  assumes cd: "coordinator_ok maximum cd" and m: "snapshot_ok membership" "distinct (map me_wtxid (transactions membership))"
    and i: "install_generation codec maximum membership variants gid cd = (gs, cd')"
  shows "\<exists>c. cd_current cd' = Some c \<and> cg_id c = gid \<and> cg_membership c = membership \<and> wk_revision (cg_work c) = 0 \<and>
    wk_pending (cg_work c) = None \<and> mirrors (transactions membership) (cg_work c) (gs_classifications gs)"
proof -
  let ?txs = "transactions membership"
  have gs: "gs = fst (install_generation codec maximum membership variants gid cd)"
    and cd': "cd' = snd (install_generation codec maximum membership variants gid cd)" by (simp_all add: i)
  obtain c where c: "cd_current cd' = Some c" "cg_id c = gid" "cg_membership c = membership"
    by (simp add: cd' install_generation_def Let_def case_prod_unfold)
  have rest: "wk_revision (cg_work c) = 0" "wk_pending (cg_work c) = None"
    using c(1) by (auto simp: cd' install_generation_def Let_def case_prod_unfold insert_outputs_frame work_default_def)
  have cls: "wk_classifications (cg_work c) = bt_of_list (List.map_filter
      (\<lambda>e. map_option (Pair (me_wtxid e)) (current_record cd e)) ?txs)"
  proof (cases "cd_current cd")
    case None
    have "caches_ok maximum (work_default, cd_cache cd)" using cd None by (simp add: coordinator_ok_def)
    then show ?thesis using c(1) None
      by (auto simp: cd' install_generation_def Let_def case_prod_unfold current_record_def bt_of_list_def
          List.map_filter_def work_default_def)
  next
    case (Some p)
    let ?w = "work_default\<lparr>wk_classifications := cr_classifications (carry_over codec (cg_work p) ?txs)\<rparr>"
    have "caches_ok maximum (?w, cd_cache cd)"
      using cd Some by (auto simp: coordinator_ok_def caches_ok_def work_default_def bt_ok_def)
    then show ?thesis using c(1) Some
      by (auto simp: cd' install_generation_def Let_def case_prod_unfold insert_outputs_fold_ok current_record_def
          carry_over_spec)
  qed
  have rec: "previous_record (cg_work c) e = current_record cd e" if e: "e \<in> set ?txs" for e
  proof -
    have get: "bt_get (wk_classifications (cg_work c)) (me_wtxid e) = current_record cd e"
      using bt_get_of_map_filter [OF m(2), of "current_record cd" "me_wtxid e"] find_by_key [OF m(2) e]
      by (simp add: cls)
    have "tc_txid (cc_classification x) = me_txid e" if "current_record cd e = Some x" for x
      using that by (auto simp: current_record_def previous_record_def split: option.splits if_splits)
    then show ?thesis by (simp add: previous_record_def get split: option.split)
  qed
  have d: "distinct (map me_txid ?txs)" using m(1) by (rule distinct_txids)
  have "bt_get (gs_classifications gs) k = (case find (\<lambda>e. me_txid e = k) ?txs of
      Some e \<Rightarrow> map_option cc_classification (previous_record (cg_work c) e) | None \<Rightarrow> None)" for k
  proof -
    have "e \<in> set ?txs" if "find (\<lambda>e. me_txid e = k) ?txs = Some e" for e
      using that by (auto simp: find_Some_iff)
    then show ?thesis
      unfolding gs install_work(2) [OF cd] bt_get_of_map_filter [OF d] using rec by (simp split: option.split)
  qed
  then have "mirrors ?txs (cg_work c) (gs_classifications gs)"
    by (simp add: mirrors_def) (simp add: gs install_work(2) [OF cd] bt_ok_of_list)
  with c rest show ?thesis by blast
qed

lemma poll_source_inv:
  assumes inv: "source_inv w n s None delta"
    and run: "poll_source node (rw_codec w) joins started completed cell s = (out, s')"
  shows "source_inv w n s' (start_of out) delta \<and> so_state s' = so_state s \<and> so_publisher s' = so_publisher s"
proof -
  let ?max = "max_auxiliary_cache_bytes (so_limits s)" and ?cd = "so_coordinator s"
  obtain res client cell' where snap: "get_mempool_snapshot node joins (pb_source_id (so_publisher s))
      (pb_source_label (so_publisher s)) started completed (so_client s) cell = (res, client, cell')"
    by (metis prod_cases3)
  have client: "rc_max_mempool_entries client = rc_max_mempool_entries (so_client s)"
    using get_mempool_snapshot_client by (metis snap fst_conv snd_conv)
  have same: "source_inv w n (s\<lparr>so_client := client\<rparr>) None delta"
    using inv client by (simp add: source_inv_def split: option.splits)
  show ?thesis
  proof (cases res)
    case (Inl e)
    then show ?thesis using run snap same by (auto simp: poll_source_def)
  next
    case (Inr m)
    have max: "rc_max_mempool_entries (so_client s) \<le> MAX_SUPPORTED_MEMPOOL_ENTRIES" and cd: "coordinator_ok ?max ?cd"
      using inv by (simp_all add: source_inv_def)
    have m: "snapshot_ok m" "source_id m = pb_source_id (so_publisher s)" "distinct (map me_wtxid (transactions m))"
      using membership_snapshot_spec [OF snap [unfolded Inr] max] by blast+
    show ?thesis
    proof (cases "install_snapshot (rw_codec w) (so_limits s) m ?cd")
      case (Inl e)
      then show ?thesis using run snap \<open>res = Inr m\<close> same by (auto simp: poll_source_def)
    next
      case i: (Inr r)
      obtain gs cd' where r: "r = (gs, cd')" by (cases r)
      let ?gid = "cd_next_generation ?cd + 1"
      obtain variants where v: "unat (cd_next_generation ?cd) + 1 < 2 ^ 64"
          "install_generation (rw_codec w) ?max m variants ?gid ?cd = (gs, cd')"
        using i r by (auto simp: install_snapshot_Inr)
      obtain c where c: "cd_current cd' = Some c" "cg_id c = ?gid" "cg_membership c = m" "wk_revision (cg_work c) = 0"
          "wk_pending (cg_work c) = None" "mirrors (transactions m) (cg_work c) (gs_classifications gs)"
        using installed_in_step [OF cd m(1,3) v(2)] by blast
      have cd': "coordinator_ok ?max cd'"
        using install_work(1) [OF cd, of "rw_codec w" m variants ?gid] v(2) by simp
      then have ok: "classified_ok (wk_classifications (cg_work c))" "caches_ok ?max (cg_work c, cd_cache cd')"
        using c(1) by (simp_all add: coordinator_ok_def)
      have g: "generation_ok n c" using m ok(1) c(3,4) by (simp add: generation_ok_def)
      have wo: "world_ok w (so_limits s) c (cd_cache cd')"
        using ok c(5) by (simp add: world_ok_def work_ok_def slice_world_def)
      have gs: "gs_generation gs = ?gid" "gs_membership gs = m" "gs_revision gs = 0"
        using install_generation_ids [of "rw_codec w" ?max m variants ?gid ?cd] v(2) by simp_all
      have "unat ?gid = unat (cd_next_generation ?cd) + 1" using v(1) by (simp add: unat_word_ariths)
      then have newer: "h < ?gid" if "h \<le> cd_next_generation ?cd" for h
        using that by (simp add: word_less_nat_alt word_le_nat_alt)
      have old: "\<exists>g. cg_id g = h \<and> generation_ok n g \<and> in_step g (pending_for delta h) (so_state s) \<and>
          h \<le> cd_next_generation ?cd" if h: "st_generation (so_state s) = Some h" for h
      proof (cases "cd_current ?cd")
        case None
        then show ?thesis using inv h by (simp add: source_inv_def)
      next
        case (Some b)
        have "cg_id b = cd_next_generation ?cd" using cd Some by (simp add: coordinator_ok_def)
        then show ?thesis using inv h Some by (auto simp: source_inv_def)
      qed
      have published: "\<exists>g. cg_id g = h \<and> generation_ok n g \<and> in_step g (pending_for delta h) (so_state s) \<and>
          h \<le> cg_id c \<and> (h = cg_id c \<longrightarrow> g = c)" if h: "st_generation (so_state s) = Some h" for h
        using old [OF h] newer c(2) by fastforce
      have "\<not> superseded (so_state s) (cg_id c)"
        using old newer c(2) by (fastforce simp: superseded_def split: option.splits)
      then have "source_inv w n (s\<lparr>so_client := client, so_coordinator := cd'\<rparr>) (Some gs) delta"
        using max client cd' c g wo gs published m(2) by (simp add: source_inv_def)
      then show ?thesis using run snap \<open>res = Inr m\<close> i r by (auto simp: poll_source_def)
    qed
  qed
qed

section \<open>The publications of one source\<close>

definition idle :: task where "idle = Finished (Inr True)"

text \<open>A publication of either loop moves the state of a source; the other's stays in order.\<close>

definition publishing_inv ::
    "(snapshot_response \<Rightarrow> bytes option) \<Rightarrow> nat \<Rightarrow> atlas_source \<Rightarrow> task \<Rightarrow> task \<Rightarrow> bool" where
  "publishing_inv encode n s t1 t2 \<longleftrightarrow>
     (\<exists>k \<le> n. publisher_inv encode (so_publisher s) k (so_state s, [t1, t2]))"

lemma publishing_inv_mono: "publishing_inv encode n s t1 t2 \<Longrightarrow> n \<le> m \<Longrightarrow> publishing_inv encode m s t1 t2"
  unfolding publishing_inv_def using le_trans by blast

lemma publishing_current: "publishing_inv encode n s t1 t2 \<Longrightarrow> current_ok (so_publisher s) (so_state s)"
  by (auto simp: publishing_inv_def publisher_inv_def)

lemma request_ok: "is_request t \<or> is_finished t \<Longrightarrow> task_ok encode pb k st t"
  by (cases t) auto

lemma publishing_replace:
  "publishing_inv encode n s t1 t2 \<Longrightarrow> is_request t \<or> is_finished t \<Longrightarrow>
   publishing_inv encode n s t t2 \<and> publishing_inv encode n s t1 t"
  using request_ok by (fastforce simp: publishing_inv_def publisher_inv_def)

lemma publishing_step:
  assumes inv: "publishing_inv encode n s t1 t2" and n: "n < 2 ^ 53"
    and step: "publisher_step encode (so_publisher s) (so_state s, [t1, t2]) (st, [u1, u2])"
  shows "publishing_inv encode (n + 1) (s\<lparr>so_state := st\<rparr>) u1 u2"
proof -
  obtain k where k: "k \<le> n" "publisher_inv encode (so_publisher s) k (so_state s, [t1, t2])"
    using inv by (auto simp: publishing_inv_def)
  then have "k < 2 ^ 64" using n by simp
  then obtain k' where "k' \<le> k + 1" "publisher_inv encode (so_publisher s) k' (st, [u1, u2])"
    using publisher_step_inv [OF step k(2)] by blast
  then show ?thesis using k(1) by (auto simp: publishing_inv_def intro!: exI [of _ k'])
qed

lemma publishing_run:
  assumes inv: "publishing_inv encode n s t1 t2" and n: "n < 2 ^ 53"
  shows "task_step encode (so_publisher s) t1 (so_state s) = (u, st) \<Longrightarrow>
      publishing_inv encode (n + 1) (s\<lparr>so_state := st\<rparr>) u t2"
    "task_step encode (so_publisher s) t2 (so_state s) = (u, st) \<Longrightarrow>
      publishing_inv encode (n + 1) (s\<lparr>so_state := st\<rparr>) t1 u"
    "publishing_inv encode (n + 1) (s\<lparr>so_state := record_poll_started ms (so_state s)\<rparr>) t1 t2"
  using publishing_step [OF assms] publisher_step.run [of 0 "[t1, t2]" encode "so_publisher s" "so_state s" u st]
    publisher_step.run [of 1 "[t1, t2]" encode "so_publisher s" "so_state s" u st]
    publisher_step.poll [of encode "so_publisher s" "so_state s" "[t1, t2]" ms]
  by simp_all

text \<open>The state moves on without publishing anything new.\<close>

lemma source_inv_same:
  assumes "source_inv w n s gs delta" "same_published (so_state s) st"
  shows "source_inv w n (s\<lparr>so_state := st\<rparr>) gs delta"
  using assms in_step_same [OF assms(2)]
  by (simp add: source_inv_def same_published_def superseded_def split: option.splits)

lemma source_inv_unpublished: "source_inv w n s gs delta \<Longrightarrow> source_inv w n s None delta"
  by (simp add: source_inv_def split: option.splits)

text \<open>The update of a slice, at the source it is for.\<close>

definition update_inv :: "atlas_source \<Rightarrow> slice_report \<Rightarrow> task \<Rightarrow> bool" where
  "update_inv s rp t \<longleftrightarrow> update_flight (rp_publication rp) (rp_generation rp) (so_state s) t \<and>
     (\<forall>d. rp_publication rp = Some d \<longrightarrow> dl_generation d = rp_generation rp \<and>
        (\<exists>h. st_generation (so_state s) = Some h \<and> rp_generation rp \<le> h))"

lemma update_flight_left:
  "update_flight delta gen st t \<Longrightarrow> st_generation st' \<noteq> Some gen \<Longrightarrow> update_flight delta gen st' t"
  by (cases t) auto

text \<open>A membership publication runs.\<close>

lemma start_source:
  assumes enc: "\<forall>x. encode x \<noteq> None" and inv: "source_inv w n s (Some gs) delta"
    and pub: "publishing_inv encode n s t t2" and t: "start_flight gs t" "\<not> is_finished t"
    and run: "task_step encode (so_publisher s) t (so_state s) = (t', st)"
    and upd: "\<And>d. delta = Some d \<Longrightarrow> \<exists>h. st_generation (so_state s) = Some h \<and> dl_generation d \<le> h"
  shows "start_flight gs t' \<and> source_inv w n (s\<lparr>so_state := st\<rparr>) (if is_finished t' then None else Some gs) delta \<and>
    (st = so_state s \<or> (\<exists>h. st_generation st = Some h \<and> (\<forall>h'. st_generation (so_state s) = Some h' \<longrightarrow> h' < h)))"
proof -
  obtain k where "task_ok encode (so_publisher s) k (so_state s) t"
    using pub by (auto simp: publishing_inv_def publisher_inv_def)
  note ok = this
  obtain c where c: "cd_current (so_coordinator s) = Some c" "generation_ok n c" "gs_generation gs = cg_id c"
      "source_id (cg_membership c) = pb_source_id (so_publisher s)"
      "gs_membership gs = cg_membership c" "gs_revision gs = 0" "wk_revision (cg_work c) = 0"
      "mirrors (transactions (cg_membership c)) (cg_work c) (gs_classifications gs)" "\<not> superseded (so_state s) (cg_id c)"
    using inv by (cases "cd_current (so_coordinator s)") (auto simp: source_inv_def)
  have m: "snapshot_ok (gs_membership gs)" "classified_ok (wk_classifications (cg_work c))"
      "mirrors (transactions (gs_membership gs)) (cg_work c) (gs_classifications gs)"
    using c(2,5,8) by (simp_all add: generation_ok_def)
  have src: "source_id (gs_membership gs) = pb_source_id (so_publisher s)" using c(4,5) by simp
  consider (same) "start_flight gs t'" "st = so_state s"
    | (committed) "start_flight gs t'" "t' = Finished (Inr True)" "st_generation st = Some (gs_generation gs)"
      "st_membership st = Some (gs_membership gs)" "st_classifications st = gs_classifications gs" "st_revision st = 0"
    using start_step [OF enc t(1) run src c(6) m ok] by blast
  then show ?thesis
  proof cases
    case same
    then show ?thesis using inv source_inv_unpublished [OF inv] by simp
  next
    case committed
    have newer: "h' < cg_id c" if "st_generation (so_state s) = Some h'" for h'
      using c(9) that by (simp add: superseded_def not_le)
    have "pending_for delta (cg_id c) = None"
    proof (cases delta)
      case (Some d)
      then have "dl_generation d < cg_id c" using upd newer by fastforce
      then show ?thesis by (simp add: pending_for_def Some)
    qed simp
    then have "in_step c (pending_for delta (cg_id c)) st"
      using committed c(5,7,8) by (simp add: in_step_def)
    then have "source_inv w n (s\<lparr>so_state := st\<rparr>) None delta"
      using inv c(1-3) committed(3) by (simp add: source_inv_def)
    then show ?thesis using committed newer c(3) by auto
  qed
qed

text \<open>A classification update runs.\<close>

lemma update_source_runs:
  assumes enc: "\<forall>x. encode x \<noteq> None" and n: "n < 2 ^ 53" and inv: "source_inv w n s gs (rp_publication rp)"
    and pub: "publishing_inv encode n s t1 t" and upd: "update_inv s rp t" and t: "\<not> is_finished t"
    and run: "task_step encode (so_publisher s) t (so_state s) = (t', st)"
  shows "update_inv (s\<lparr>so_state := st\<rparr>) rp t' \<and> st_generation st = st_generation (so_state s) \<and>
    source_inv w n (s\<lparr>so_state := st\<rparr>) gs (if is_finished t' then None else rp_publication rp)"
proof -
  let ?d = "rp_publication rp" and ?gen = "rp_generation rp"
  have fl: "update_flight ?d ?gen (so_state s) t" and gen: "\<forall>d. ?d = Some d \<longrightarrow> dl_generation d = ?gen"
    using upd by (simp_all add: update_inv_def)
  have own: "pending_for ?d ?gen = ?d" using gen by (cases ?d) (simp_all add: pending_for_def)
  have g: "\<exists>g. cg_id g = ?gen \<and> generation_ok n g \<and> in_step g ?d (so_state s)"
    if "st_generation (so_state s) = Some ?gen"
    using inv that own by (auto simp: source_inv_def split: option.splits)
  note step = update_step [OF enc fl t run publishing_current [OF pub] gen g n]
  have same: "st_generation st = st_generation (so_state s)" using step by blast
  let ?d' = "if is_finished t' then None else ?d"
  have pend: "(if is_finished t' then None else pending_for ?d h) = pending_for ?d' h" for h by simp
  have "source_inv w n (s\<lparr>so_state := st\<rparr>) gs ?d'"
  proof (cases "cd_current (so_coordinator s)")
    case None
    then show ?thesis using inv same by (simp add: source_inv_def)
  next
    case (Some c)
    have "\<exists>g. cg_id g = h \<and> generation_ok n g \<and> in_step g (pending_for ?d' h) st \<and> h \<le> cg_id c \<and> (h = cg_id c \<longrightarrow> g = c)"
      if h: "st_generation (so_state s) = Some h" for h
    proof -
      obtain g where g: "cg_id g = h" "generation_ok n g" "in_step g (pending_for ?d h) (so_state s)" "h \<le> cg_id c"
          "h = cg_id c \<longrightarrow> g = c"
        using inv Some h by (auto simp: source_inv_def)
      then have "in_step g (pending_for ?d' h) st" using step h unfolding pend by blast
      with g show ?thesis by blast
    qed
    then show ?thesis using inv Some same by (simp add: source_inv_def superseded_def)
  qed
  then show ?thesis using step upd same by (simp add: update_inv_def)
qed

definition state_moves :: "current_state \<Rightarrow> current_state \<Rightarrow> bool" where
  "state_moves st st' \<longleftrightarrow> same_published st st' \<or>
     (\<exists>h. st_generation st' = Some h \<and> (\<forall>h'. st_generation st = Some h' \<longrightarrow> h' < h))"

lemma state_moves_reached:
  "state_moves st st' \<Longrightarrow> st_generation st = Some h \<Longrightarrow> \<exists>h'. st_generation st' = Some h' \<and> h \<le> h'"
  by (auto simp: state_moves_def same_published_def)

lemma update_inv_moves:
  assumes "update_inv s rp t" "state_moves (so_state s) st"
  shows "update_inv (s\<lparr>so_state := st\<rparr>) rp t"
proof (cases "rp_publication rp")
  case None
  then show ?thesis using assms(1) by (cases t) (auto simp: update_inv_def)
next
  case (Some d)
  obtain h where h: "st_generation (so_state s) = Some h" "rp_generation rp \<le> h" "dl_generation d = rp_generation rp"
    using assms(1) Some by (auto simp: update_inv_def)
  obtain h' where h': "st_generation st = Some h'" "h \<le> h'" using state_moves_reached [OF assms(2) h(1)] by blast
  have "update_flight (Some d) (rp_generation rp) st t"
  proof (cases "same_published (so_state s) st")
    case True
    then show ?thesis using assms(1) Some update_flight_same by (simp add: update_inv_def)
  next
    case False
    then have "st_generation st \<noteq> Some (rp_generation rp)" using assms(2) h by (auto simp: state_moves_def)
    moreover have "update_flight (Some d) (rp_generation rp) (so_state s) t"
      using assms(1) Some by (simp add: update_inv_def)
    ultimately show ?thesis by (rule update_flight_left [rotated])
  qed
  then show ?thesis using Some h h' by (auto simp: update_inv_def)
qed

section \<open>The invariant of the scheduler\<close>

definition start_in :: "(nat \<times> poll_outcome) list \<Rightarrow> nat \<Rightarrow> generation_start option" where
  "start_in outs i = (case map_of outs i of Some out \<Rightarrow> start_of out | None \<Rightarrow> None)"

fun pending_of_poll :: "poll_pc \<Rightarrow> nat \<Rightarrow> generation_start option" where
  "pending_of_poll AwaitTick i = None"
| "pending_of_poll (Polling j outs) i = start_in outs i"
| "pending_of_poll (AwaitSnapshot j outs) i = start_in outs i"
| "pending_of_poll (Publishing outs) i = start_in outs i"
| "pending_of_poll (PublishingOne j out t rest) i =
     (if i = j then (if is_finished t then None else start_of out) else start_in rest i)"

fun poll_task_of :: "poll_pc \<Rightarrow> nat \<Rightarrow> task" where
  "poll_task_of (PublishingOne j out t rest) i = (if i = j then t else idle)"
| "poll_task_of _ i = idle"

fun pending_of_class :: "class_pc \<Rightarrow> nat \<Rightarrow> revision_delta option" where
  "pending_of_class (PublishingSlice j (Reported rp work cache) t c active) i =
     (if i = j \<and> \<not> is_finished t then rp_publication rp else None)"
| "pending_of_class _ i = None"

fun class_task_of :: "class_pc \<Rightarrow> nat \<Rightarrow> task" where
  "class_task_of (PublishingSlice j r t c active) i = (if i = j then t else idle)"
| "class_task_of _ i = idle"

type_synonym source_view = "atlas_source \<times> generation_start option \<times> revision_delta option \<times> task \<times> task"

definition view :: "atlas \<Rightarrow> nat \<Rightarrow> source_view" where
  "view a i = (at_source a i, pending_of_poll (at_poll a) i, pending_of_class (at_class a) i,
     poll_task_of (at_poll a) i, class_task_of (at_class a) i)"

definition view_ok ::
    "(snapshot_response \<Rightarrow> bytes option) \<Rightarrow> rpc_world \<Rightarrow> nat \<Rightarrow> source_view \<Rightarrow> bool" where
  "view_ok encode w n = (\<lambda>(s, gs, delta, t1, t2). source_inv w n s gs delta \<and> publishing_inv encode n s t1 t2)"

fun outcome_flight :: "poll_outcome \<Rightarrow> task \<Rightarrow> bool" where
  "outcome_flight (Installed gs) t = start_flight gs t"
| "outcome_flight (RpcFailed e) t = failure_flight t"
| "outcome_flight _ t = False"

fun poll_inv :: "nat \<Rightarrow> poll_pc \<Rightarrow> bool" where
  "poll_inv m AwaitTick = True"
| "poll_inv m (Polling i outs) = (i \<le> m \<and> map fst outs = [0..<i])"
| "poll_inv m (AwaitSnapshot i outs) = (i < m \<and> map fst outs = [0..<i])"
| "poll_inv m (Publishing outs) = (distinct (map fst outs) \<and> (\<forall>i \<in> set (map fst outs). i < m))"
| "poll_inv m (PublishingOne i out t rest) = (distinct (i # map fst rest) \<and> (\<forall>i \<in> set (i # map fst rest). i < m) \<and>
     outcome_flight out t)"

fun class_inv :: "(nat \<Rightarrow> atlas_source) \<Rightarrow> nat \<Rightarrow> class_pc \<Rightarrow> bool" where
  "class_inv src m AwaitWakeup = True"
| "class_inv src m (Choosing active k) = (\<forall>i \<in> set active. i < m)"
| "class_inv src m (AwaitGate i active) = (i < m \<and> (\<forall>i \<in> set active. i < m))"
| "class_inv src m (Slicing i expected active) = (i < m \<and> (\<forall>i \<in> set active. i < m) \<and>
     (\<forall>h. expected = Some h \<longrightarrow> (\<exists>h'. st_generation (so_state (src i)) = Some h' \<and> h \<le> h')))"
| "class_inv src m (PublishingSlice i r t c active) = (i < m \<and> (\<forall>i \<in> set active. i < m) \<and>
     (\<exists>rp work cache. r = Reported rp work cache \<and> update_inv (src i) rp t))"
| "class_inv src m Crashed = False"

definition atlas_inv ::
    "(snapshot_response \<Rightarrow> bytes option) \<Rightarrow> rpc_world \<Rightarrow> nat \<Rightarrow> atlas \<Rightarrow> bool" where
  "atlas_inv encode w n a \<longleftrightarrow> (\<forall>i < length (at_sources a). view_ok encode w n (view a i)) \<and>
     poll_inv (length (at_sources a)) (at_poll a) \<and> class_inv (at_source a) (length (at_sources a)) (at_class a) \<and>
     (\<forall>i \<in> set (at_pending a). i < length (at_sources a)) \<and> at_sources a \<noteq> []"

lemma view_ok_mono: "view_ok encode w n v \<Longrightarrow> n \<le> m \<Longrightarrow> view_ok encode w m v"
  by (auto simp: view_ok_def intro: source_inv_mono publishing_inv_mono)

lemma at_update [simp]:
  "i < length (at_sources a) \<Longrightarrow> at_source (update_source i f a) j = (if j = i then f (at_source a i) else at_source a j)"
  "length (at_sources (update_source i f a)) = length (at_sources a)"
  "at_poll (update_source i f a) = at_poll a" "at_class (update_source i f a) = at_class a"
  "at_pending (update_source i f a) = at_pending a"
  "at_sources (update_source i f a) = [] \<longleftrightarrow> at_sources a = []"
  by (auto simp: update_source_def at_source_def nth_list_update)

lemma at_source_fields [simp]:
  "at_source (a\<lparr>at_poll := p\<rparr>) = at_source a" "at_source (a\<lparr>at_class := c\<rparr>) = at_source a"
  "at_source (a\<lparr>at_gate := b\<rparr>) = at_source a" "at_source (a\<lparr>at_pending := q\<rparr>) = at_source a"
  "at_source (a\<lparr>at_wakeup := b\<rparr>) = at_source a"
  by (simp_all add: at_source_def fun_eq_iff)

text \<open>A step that changes what is seen of one source at most.\<close>

lemma atlas_invI:
  assumes inv: "atlas_inv encode w n a" and len: "length (at_sources a') = length (at_sources a)"
    and others: "\<And>j. j < length (at_sources a) \<Longrightarrow> j \<noteq> i \<Longrightarrow> view a' j = view a j"
    and own: "i < length (at_sources a) \<Longrightarrow> view_ok encode w n (view a i) \<Longrightarrow> view_ok encode w (n + 1) (view a' i)"
    and poll: "poll_inv (length (at_sources a)) (at_poll a')"
    and cls: "class_inv (at_source a') (length (at_sources a)) (at_class a')"
    and pend: "\<forall>i \<in> set (at_pending a'). i < length (at_sources a)"
  shows "atlas_inv encode w (n + 1) a'"
proof -
  have "view_ok encode w (n + 1) (view a' j)" if j: "j < length (at_sources a)" for j
  proof -
    have "view_ok encode w n (view a j)" using inv j by (simp add: atlas_inv_def)
    then show ?thesis using own others j view_ok_mono [of encode w n _ "n + 1"] by (cases "j = i") simp_all
  qed
  moreover have "at_sources a' \<noteq> []" using inv len by (auto simp: atlas_inv_def)
  ultimately show ?thesis using len poll cls pend by (simp add: atlas_inv_def)
qed

lemma start_in_snoc:
  "map fst outs = [0..<i] \<Longrightarrow> start_in (outs @ [(i, out)]) j = (if j = i then start_of out else start_in outs j)"
  "map fst outs = [0..<i] \<Longrightarrow> start_in outs i = None"
proof -
  assume m: "map fst outs = [0..<i]"
  have "i \<notin> fst ` set outs" using arg_cong [OF m, of set] by simp
  then have none: "map_of outs i = None" by (simp add: map_of_eq_None_iff)
  then show "start_in outs i = None" by (simp add: start_in_def)
  show "start_in (outs @ [(i, out)]) j = (if j = i then start_of out else start_in outs j)"
    using none by (cases "map_of outs j") (auto simp: start_in_def map_of_append map_add_def)
qed

lemma start_in_Cons: "start_in ((i, out) # rest) j = (if j = i then start_of out else start_in rest j)"
  by (simp add: start_in_def)

lemma start_in_absent: "i \<notin> fst ` set outs \<Longrightarrow> start_in outs i = None"
proof -
  assume "i \<notin> fst ` set outs"
  then have "map_of outs i = None" by (simp add: map_of_eq_None_iff)
  then show ?thesis by (simp add: start_in_def)
qed

lemma start_in_Nil [simp]: "start_in [] i = None"
  by (simp add: start_in_def)

lemma not_finished: "(\<nexists>r. t = Finished r) \<longleftrightarrow> \<not> is_finished t"
  by (simp add: is_finished_iff)

lemma idle_finished [simp]: "is_finished idle"
  by (simp add: idle_def)

lemma atlas_inv_view: "atlas_inv encode w n a \<Longrightarrow> i < length (at_sources a) \<Longrightarrow> view_ok encode w n (view a i)"
  by (simp add: atlas_inv_def)

lemma class_inv_moves:
  "class_inv src m pc \<Longrightarrow> state_moves (so_state (src i)) st \<Longrightarrow>
   class_inv (\<lambda>j. if j = i then (src i)\<lparr>so_state := st\<rparr> else src j) m pc"
proof (cases pc)
  case (Slicing j expected active)
  assume "class_inv src m pc" "state_moves (so_state (src i)) st"
  with Slicing show ?thesis
    using state_moves_reached [of "so_state (src i)" st] by (fastforce intro: order_trans)
next
  case (PublishingSlice j r t c active)
  assume "class_inv src m pc" "state_moves (so_state (src i)) st"
  with PublishingSlice show ?thesis using update_inv_moves [of "src i" _ t st] by auto
qed auto

lemma class_inv_states: "(\<And>j. so_state (src' j) = so_state (src j)) \<Longrightarrow> class_inv src' m pc = class_inv src m pc"
  by (cases pc) (auto simp: update_inv_def)

lemma at_update_fun:
  "i < length (at_sources a) \<Longrightarrow>
   at_source (update_source i f a) = (\<lambda>j. if j = i then f (at_source a i) else at_source a j)"
  by (simp add: fun_eq_iff)

text \<open>A step of the round that moves the published state of one source.\<close>

lemma atlas_inv_moves:
  assumes inv: "atlas_inv encode w n a" and i: "i < length (at_sources a)"
    and moves: "state_moves (so_state (at_source a i)) st"
    and others: "\<And>j. j \<noteq> i \<Longrightarrow> pending_of_poll pc j = pending_of_poll (at_poll a) j \<and> poll_task_of pc j = poll_task_of (at_poll a) j"
    and src: "source_inv w (n + 1) ((at_source a i)\<lparr>so_state := st\<rparr>) (pending_of_poll pc i) (pending_of_class (at_class a) i)"
    and pub: "publishing_inv encode (n + 1) ((at_source a i)\<lparr>so_state := st\<rparr>) (poll_task_of pc i) (class_task_of (at_class a) i)"
    and poll: "poll_inv (length (at_sources a)) pc"
  shows "atlas_inv encode w (n + 1) ((update_source i (\<lambda>s. s\<lparr>so_state := st\<rparr>) a)\<lparr>at_poll := pc\<rparr>)"
proof (rule atlas_invI [OF inv, where i = i])
  have "class_inv (at_source a) (length (at_sources a)) (at_class a)" using inv by (simp add: atlas_inv_def)
  from class_inv_moves [OF this moves]
  show "class_inv (at_source ((update_source i (\<lambda>s. s\<lparr>so_state := st\<rparr>) a)\<lparr>at_poll := pc\<rparr>)) (length (at_sources a))
      (at_class ((update_source i (\<lambda>s. s\<lparr>so_state := st\<rparr>) a)\<lparr>at_poll := pc\<rparr>))"
    by (simp add: at_update_fun [OF i])
qed (use inv i others src pub poll in \<open>auto simp: atlas_inv_def view_def view_ok_def\<close>)

text \<open>The membership round.\<close>

lemma poll_started_inv:
  assumes inv: "atlas_inv encode w n a" and n: "n < 2 ^ 53" and pc: "at_poll a = Polling i outs" "i < length (at_sources a)"
  shows "atlas_inv encode w (n + 1) ((update_source i (\<lambda>s. s\<lparr>so_state := record_poll_started ms (so_state s)\<rparr>) a)
      \<lparr>at_poll := AwaitSnapshot i outs\<rparr>)"
proof -
  let ?s = "at_source a i" and ?st = "record_poll_started ms (so_state (at_source a i))"
  have same: "same_published (so_state ?s) ?st" by (simp add: same_published_def record_poll_started_def)
  have v: "source_inv w n ?s (start_in outs i) (pending_of_class (at_class a) i)"
      "publishing_inv encode n ?s idle (class_task_of (at_class a) i)"
    using atlas_inv_view [OF inv pc(2)] pc by (simp_all add: view_ok_def view_def)
  have "atlas_inv encode w (n + 1) ((update_source i (\<lambda>s. s\<lparr>so_state := ?st\<rparr>) a)\<lparr>at_poll := AwaitSnapshot i outs\<rparr>)"
    using inv pc same source_inv_same [OF source_inv_mono [OF v(1), of "n + 1"] same] publishing_run(3) [OF v(2) n]
    by (intro atlas_inv_moves) (auto simp: atlas_inv_def state_moves_def)
  then show ?thesis by (simp add: update_source_def)
qed

lemma poll_snapshot_inv:
  assumes inv: "atlas_inv encode w n a" and pc: "at_poll a = AwaitSnapshot i outs"
    and run: "poll_source node (rw_codec w) joins started completed cell (at_source a i) = (out, s)"
  shows "atlas_inv encode w (n + 1) ((update_source i (\<lambda>_. s) a)\<lparr>at_poll := Polling (i + 1) (outs @ [(i, out)])\<rparr>)"
proof (rule atlas_invI [OF inv, where i = i])
  have p: "i < length (at_sources a)" "map fst outs = [0..<i]" using inv pc by (auto simp: atlas_inv_def)
  note outs = start_in_snoc [OF p(2)]
  have v: "source_inv w n (at_source a i) None (pending_of_class (at_class a) i)"
      "publishing_inv encode n (at_source a i) idle (class_task_of (at_class a) i)"
    using atlas_inv_view [OF inv p(1)] pc outs(2) by (simp_all add: view_ok_def view_def)
  note s = poll_source_inv [OF v(1) run]
  let ?a = "(update_source i (\<lambda>_. s) a)\<lparr>at_poll := Polling (i + 1) (outs @ [(i, out)])\<rparr>"
  show "view_ok encode w (n + 1) (view ?a i)"
    using s v(2) p outs source_inv_mono [of w n s "start_of out" _ "n + 1"]
      publishing_inv_mono [of encode n s _ _ "n + 1"]
    by (simp add: view_ok_def view_def publishing_inv_def)
  show "class_inv (at_source ?a) (length (at_sources a)) (at_class ?a)"
    using inv s p(1) class_inv_states [of "at_source ?a" "at_source a"] by (simp add: atlas_inv_def)
  show "poll_inv (length (at_sources a)) (at_poll ?a)" using p by simp
  show "view ?a j = view a j" if "j \<noteq> i" for j using that pc p outs by (simp add: view_def)
qed (use inv in \<open>auto simp: atlas_inv_def\<close>)

lemma publish_run_inv:
  assumes enc: "\<forall>x. encode x \<noteq> None" and inv: "atlas_inv encode w n a" and n: "n < 2 ^ 53"
    and pc: "at_poll a = PublishingOne i out t rest" and t: "\<not> is_finished t"
    and run: "task_step encode (so_publisher (at_source a i)) t (so_state (at_source a i)) = (t', st)"
  shows "atlas_inv encode w (n + 1) ((update_source i (\<lambda>s. s\<lparr>so_state := st\<rparr>) a)\<lparr>at_poll := PublishingOne i out t' rest\<rparr>)"
proof -
  let ?s = "at_source a i" and ?d = "pending_of_class (at_class a) i" and ?m = "length (at_sources a)"
  have p: "i < ?m" "distinct (i # map fst rest)" "\<forall>i \<in> set (i # map fst rest). i < ?m" "outcome_flight out t"
    using inv pc by (auto simp: atlas_inv_def)
  have v: "source_inv w n ?s (start_of out) ?d" "publishing_inv encode n ?s t (class_task_of (at_class a) i)"
    using atlas_inv_view [OF inv p(1)] pc t by (simp_all add: view_ok_def view_def)
  have cls: "class_inv (at_source a) ?m (at_class a)" using inv by (simp add: atlas_inv_def)
  have "state_moves (so_state ?s) st \<and> outcome_flight out t' \<and>
      source_inv w n (?s\<lparr>so_state := st\<rparr>) (if is_finished t' then None else start_of out) ?d"
  proof (cases out)
    case (Installed gs)
    have d: "\<exists>h. st_generation (so_state ?s) = Some h \<and> dl_generation d \<le> h" if e: "?d = Some d" for d
    proof (cases "at_class a")
      case (PublishingSlice j r u c active)
      then obtain rp where "j = i" "rp_publication rp = Some d" "update_inv ?s rp u"
        using e cls by (auto split: if_splits)
      then show ?thesis by (auto simp: update_inv_def)
    qed (use e in simp_all)
    have "start_flight gs t" using p(4) Installed by simp
    from start_source [OF enc v(1) [unfolded Installed start_of.simps] v(2) this t run d] Installed
    show ?thesis by (auto simp: state_moves_def)
  next
    case (RpcFailed e)
    have "failure_flight t" using p(4) RpcFailed by simp
    from failure_step [OF enc this run] RpcFailed source_inv_same [OF v(1)]
    show ?thesis by (simp add: state_moves_def)
  qed (use p(4) in simp_all)
  then show ?thesis
    using p pc source_inv_mono [of w n "?s\<lparr>so_state := st\<rparr>" _ ?d "n + 1"] publishing_run(1) [OF v(2) n run]
    by (intro atlas_inv_moves [OF inv p(1)]) auto
qed

text \<open>The classification loop.\<close>

lemma class_slice_inv:
  assumes w: "sane_world w" and inv: "atlas_inv encode w n a" and n: "n < 2 ^ 53"
    and pc: "at_class a = Slicing i expected active"
    and r: "classify_next (slice_world w raw parents confirmed (so_limits (at_source a i))) expected
      (so_coordinator (at_source a i)) = r"
  defines "a' \<equiv> (update_source i (\<lambda>s. s\<lparr>so_coordinator := slice_effect r (so_coordinator s)\<rparr>) a)\<lparr>at_gate := True\<rparr>"
  shows "\<exists>rp work cache. r = Reported rp work cache"
    and "publish_classification r expected = Some (t, c) \<Longrightarrow>
      atlas_inv encode w (n + 1) (a'\<lparr>at_class := PublishingSlice i r t c active\<rparr>)"
    and "publish_classification r expected = None \<Longrightarrow> atlas_inv encode w (n + 1) (slice_done i False active a')"
proof -
  let ?s = "at_source a i" and ?gs = "pending_of_poll (at_poll a) i" and ?m = "length (at_sources a)"
  have p: "i < ?m" "\<forall>i \<in> set active. i < ?m"
    and e: "\<forall>h. expected = Some h \<longrightarrow> (\<exists>h'. st_generation (so_state ?s) = Some h' \<and> h \<le> h')"
    using inv pc by (auto simp: atlas_inv_def)
  have v: "source_inv w n ?s ?gs None" "publishing_inv encode n ?s (poll_task_of (at_poll a) i) idle"
    using atlas_inv_view [OF inv p(1)] pc by (simp_all add: view_ok_def view_def)
  let ?s' = "?s\<lparr>so_coordinator := slice_effect r (so_coordinator ?s)\<rparr>"
  obtain rp work cache where rp: "r = Reported rp work cache" "source_inv w (n + 1) ?s' ?gs (rp_publication rp)"
      "rp_stale rp \<longleftrightarrow> rp_disposition rp = StaleSlice" "rp_stale rp \<longrightarrow> rp_publication rp = None"
      "\<forall>d. rp_publication rp = Some d \<longrightarrow> dl_generation d = rp_generation rp \<and>
        st_generation (so_state ?s) = Some (rp_generation rp)"
    using slice_source [OF w n v(1) e r [symmetric]] by blast
  then show "\<exists>rp work cache. r = Reported rp work cache" by blast
  have src: "at_source a' = (\<lambda>j. if j = i then ?s' else at_source a j)"
    by (simp add: a'_def at_update_fun [OF p(1)])
  have sts: "so_state (at_source a' j) = so_state (at_source a j)" for j by (simp add: src)
  have len: "length (at_sources a') = ?m" by (simp add: a'_def)
  have fields: "at_poll a' = at_poll a" "at_pending a' = at_pending a" by (simp_all add: a'_def)
  have pub: "publishing_inv encode (n + 1) ?s' (poll_task_of (at_poll a) i) u" if "is_request u \<or> is_finished u" for u
    using publishing_replace [OF v(2) that] publishing_inv_mono [of encode n ?s _ _ "n + 1"]
    by (simp add: publishing_inv_def)
  show "atlas_inv encode w (n + 1) (a'\<lparr>at_class := PublishingSlice i r t c active\<rparr>)"
    if e: "publish_classification r expected = Some (t, c)"
  proof -
    obtain l where t: "t = UpdateStart (rp_generation rp) (rp_publication rp) l"
      using e rp(1) by (auto simp: publish_classification_def record_classification_outcome_def)
    have "update_inv (at_source a' i) rp t" using rp(5) by (simp add: update_inv_def t src)
    then show ?thesis
      using inv p rp(1,2) pub [of t] t pc
      by (intro atlas_invI [OF inv, where i = i]) (auto simp: atlas_inv_def view_def view_ok_def src len fields)
  qed
  show "atlas_inv encode w (n + 1) (slice_done i False active a')" if "publish_classification r expected = None"
  proof -
    have "rp_disposition rp = StaleSlice"
      using that rp(1) by (cases "rp_disposition rp")
        (auto simp: publish_classification_def record_classification_outcome_def)
    then have none: "rp_publication rp = None" using rp(3,4) by simp
    show ?thesis
      using inv p rp(2) none pub [of idle] pc
      by (intro atlas_invI [OF inv, where i = i])
        (auto simp: atlas_inv_def view_def view_ok_def src len fields slice_done_def)
  qed
qed

lemma class_run_inv:
  assumes enc: "\<forall>x. encode x \<noteq> None" and inv: "atlas_inv encode w n a" and n: "n < 2 ^ 53"
    and pc: "at_class a = PublishingSlice i r t c active" and t: "\<not> is_finished t"
    and run: "task_step encode (so_publisher (at_source a i)) t (so_state (at_source a i)) = (t', st)"
  shows "atlas_inv encode w (n + 1) ((update_source i (\<lambda>s. s\<lparr>so_state := st\<rparr>) a)\<lparr>at_class := PublishingSlice i r t' c active\<rparr>)"
proof -
  let ?s = "at_source a i" and ?gs = "pending_of_poll (at_poll a) i" and ?m = "length (at_sources a)"
  obtain rp work cache where p: "i < ?m" "\<forall>i \<in> set active. i < ?m" "r = Reported rp work cache" "update_inv ?s rp t"
    using inv pc by (auto simp: atlas_inv_def)
  have v: "source_inv w n ?s ?gs (rp_publication rp)" "publishing_inv encode n ?s (poll_task_of (at_poll a) i) t"
    using atlas_inv_view [OF inv p(1)] pc t p(3) by (simp_all add: view_ok_def view_def)
  note u = update_source_runs [OF enc n v p(4) t run]
  let ?a = "(update_source i (\<lambda>s. s\<lparr>so_state := st\<rparr>) a)\<lparr>at_class := PublishingSlice i r t' c active\<rparr>"
  have "source_inv w (n + 1) (?s\<lparr>so_state := st\<rparr>) ?gs (if is_finished t' then None else rp_publication rp)"
    using u source_inv_mono [of w n _ _ _ "n + 1"] by simp
  then show ?thesis
    using inv p u pc publishing_run(2) [OF v(2) n run]
    by (intro atlas_invI [OF inv, where i = i]) (auto simp: atlas_inv_def view_def view_ok_def)
qed

text \<open>Every step keeps the invariant.\<close>

lemma set_append_pending: "set (append_pending active pending) = set active \<union> set pending"
proof -
  have "set (fold bs_insert ps active) = set active \<union> set ps" for ps
    by (induction ps arbitrary: active) auto
  then show ?thesis by (simp add: append_pending_def)
qed

lemma choose_source_mem: "choose_source active k = Some i \<Longrightarrow> i \<in> set active"
  by (auto simp: choose_source_def find_Some_iff dest: first_of_in_set split: option.splits)

lemma slice_done_inv:
  assumes inv: "atlas_inv encode w n a" and pc: "at_class a = PublishingSlice i r (Finished res) c active"
  shows "atlas_inv encode w (n + 1) (slice_done i continue active a)"
proof (rule atlas_invI [OF inv, where i = i])
  have p: "i < length (at_sources a)" "\<forall>i \<in> set active. i < length (at_sources a)"
    using inv pc by (auto simp: atlas_inv_def)
  have src: "at_source (slice_done i continue active a) = at_source a" by (simp add: slice_done_def)
  have v: "source_inv w n (at_source a i) (pending_of_poll (at_poll a) i) None"
      "publishing_inv encode n (at_source a i) (poll_task_of (at_poll a) i) (Finished res)"
    using atlas_inv_view [OF inv p(1)] pc by (cases r; simp add: view_ok_def view_def)+
  show "view_ok encode w (n + 1) (view (slice_done i continue active a) i)"
    using source_inv_mono [OF v(1), of "n + 1"] publishing_inv_mono [OF _ le_add1, of encode n "at_source a i" _ idle 1]
      publishing_replace [OF v(2), of idle]
    by (simp add: view_ok_def view_def src) (simp add: slice_done_def)
  show "class_inv (at_source (slice_done i continue active a)) (length (at_sources a))
      (at_class (slice_done i continue active a))"
    using p by (simp add: slice_done_def)
  show "view (slice_done i continue active a) j = view a j" if "j \<noteq> i" for j
    using that pc by (cases r) (simp_all add: view_def slice_done_def)
qed (use inv in \<open>auto simp: slice_done_def atlas_inv_def\<close>)

lemma publication_done_inv:
  assumes inv: "atlas_inv encode w n a" and pc: "at_poll a = PublishingOne i out (Finished r) rest"
  shows "atlas_inv encode w (n + 1) (publication_done rest i out r a)"
proof (rule atlas_invI [OF inv, where i = i])
  let ?a = "publication_done rest i out r a"
  have p: "i < length (at_sources a)" "distinct (i # map fst rest)" "\<forall>i \<in> set (i # map fst rest). i < length (at_sources a)"
    using inv pc by (auto simp: atlas_inv_def)
  have f: "at_source ?a = at_source a" "at_class ?a = at_class a" "at_poll ?a = Publishing rest"
      "at_sources ?a = at_sources a" "set (at_pending ?a) \<subseteq> insert i (set (at_pending a))"
    by (auto simp: publication_done_def schedule_classification_def fun_eq_iff at_source_def
        split: poll_outcome.split sum.split bool.split)
  have v: "source_inv w n (at_source a i) None (pending_of_class (at_class a) i)"
      "publishing_inv encode n (at_source a i) (Finished r) (class_task_of (at_class a) i)"
    using atlas_inv_view [OF inv p(1)] pc by (simp_all add: view_ok_def view_def)
  have "start_in rest i = None" using p(2) by (auto intro: start_in_absent)
  then show "view_ok encode w (n + 1) (view ?a i)"
    using source_inv_mono [OF v(1), of "n + 1"] publishing_replace [OF v(2), of idle]
      publishing_inv_mono [OF _ le_add1, of encode n "at_source a i" idle _ 1]
    by (simp add: view_ok_def view_def f)
  show "view ?a j = view a j" if "j \<noteq> i" for j using that pc by (simp add: view_def f)
  show "poll_inv (length (at_sources a)) (at_poll ?a)" using p by (simp add: f)
  show "class_inv (at_source ?a) (length (at_sources a)) (at_class ?a)" using inv by (simp add: f atlas_inv_def)
  show "\<forall>i \<in> set (at_pending ?a). i < length (at_sources a)" using inv p(1) f(5) by (auto simp: atlas_inv_def)
  show "length (at_sources ?a) = length (at_sources a)" by (simp add: f)
qed

lemma bs_remove_mem: "x \<in> set (bs_remove i s) \<Longrightarrow> x \<in> set s"
  by (auto simp: bs_remove_def)

lemma atlas_step_inv:
  assumes enc: "\<forall>x. encode x \<noteq> None" and w: "sane_world w" and n: "n < 2 ^ 53"
    and step: "atlas_step encode w a a'" and inv: "atlas_inv encode w n a"
  shows "atlas_inv encode w (n + 1) a'"
  using step
proof cases
  case tick
  then show ?thesis using inv
    by (intro atlas_invI [OF inv, where i = "length (at_sources a)"]) (auto simp: atlas_inv_def view_def)
next
  case (poll_clock i outs now e)
  then have "map fst outs = [0..<i]" using inv by (auto simp: atlas_inv_def)
  then show ?thesis using inv poll_clock start_in_snoc [of outs i]
    by (intro atlas_invI [OF inv, where i = "length (at_sources a)"]) (auto simp: atlas_inv_def view_def)
next
  case (poll_started i outs now ms)
  then show ?thesis using poll_started_inv [OF inv n] by simp
next
  case (poll_snapshot i outs node joins started completed cell out source)
  then show ?thesis using poll_snapshot_inv [OF inv] by simp
next
  case (poll_release i outs)
  then show ?thesis using inv
    by (intro atlas_invI [OF inv, where i = "length (at_sources a)"]) (auto simp: atlas_inv_def view_def)
next
  case publish_none
  then show ?thesis using inv
    by (intro atlas_invI [OF inv, where i = "length (at_sources a)"]) (auto simp: atlas_inv_def view_def)
next
  case (publish_skip i out rest)
  then have "i \<notin> fst ` set rest" "start_of out = None"
    using inv by (auto simp: atlas_inv_def outcome_task_def split: poll_outcome.splits)
  then show ?thesis using inv publish_skip start_in_absent [of i rest]
    by (intro atlas_invI [OF inv, where i = "length (at_sources a)"]) (auto simp: atlas_inv_def view_def start_in_Cons)
next
  case (publish_start i out rest t)
  then have p: "i < length (at_sources a)" "distinct (i # map fst rest)" "\<forall>i \<in> set (i # map fst rest). i < length (at_sources a)"
    using inv by (auto simp: atlas_inv_def)
  have t: "is_request t" "\<not> is_finished t" "outcome_flight out t"
    using publish_start by (auto simp: outcome_task_def split: poll_outcome.splits)
  have v: "source_inv w n (at_source a i) (start_of out) (pending_of_class (at_class a) i)"
      "publishing_inv encode n (at_source a i) idle (class_task_of (at_class a) i)"
    using atlas_inv_view [OF inv p(1)] publish_start by (simp_all add: view_ok_def view_def start_in_Cons)
  show ?thesis
    using inv publish_start p t source_inv_mono [OF v(1), of "n + 1"] publishing_replace [OF v(2), of t]
      publishing_inv_mono [OF _ le_add1, of encode n "at_source a i" t _ 1]
    by (intro atlas_invI [OF inv, where i = i]) (auto simp: atlas_inv_def view_def view_ok_def start_in_Cons)
next
  case (publish_run i out t rest t' st)
  then show ?thesis using publish_run_inv [OF enc inv n] not_finished by simp
next
  case (publish_done i out r rest)
  then show ?thesis using publication_done_inv [OF inv] by simp
next
  case class_wake
  then show ?thesis using inv
    by (intro atlas_invI [OF inv, where i = "length (at_sources a)"]) (auto simp: atlas_inv_def view_def)
next
  case (class_rest active k)
  then show ?thesis using inv
    by (intro atlas_invI [OF inv, where i = "length (at_sources a)"]) (auto simp: atlas_inv_def view_def)
next
  case (class_choose active k i)
  have "\<forall>j \<in> set (append_pending active (at_pending a)). j < length (at_sources a)"
    using inv class_choose by (auto simp: atlas_inv_def set_append_pending)
  then show ?thesis using inv class_choose choose_source_mem bs_remove_mem
    by (intro atlas_invI [OF inv, where i = "length (at_sources a)"]) (fastforce simp: atlas_inv_def view_def)+
next
  case (class_gate i active)
  then show ?thesis using inv
    by (intro atlas_invI [OF inv, where i = "length (at_sources a)"]) (auto simp: atlas_inv_def view_def)
next
  case (class_slice i expected active raw parents confirmed r t c)
  then show ?thesis using class_slice_inv(2) [OF w inv n class_slice(2,3)] by simp
next
  case (class_silent i expected active raw parents confirmed r)
  then show ?thesis using class_slice_inv(3) [OF w inv n class_silent(2,3)] by simp
next
  case (class_crash i expected active raw parents confirmed)
  then show ?thesis using class_slice_inv(1) [OF w inv n class_crash(2,3)] by simp
next
  case (class_run i r t c active t' st)
  then show ?thesis using class_run_inv [OF enc inv n] not_finished by simp
next
  case (class_done i r res c active)
  then show ?thesis using slice_done_inv [OF inv] by simp
qed

text \<open>A source as \<^verbatim>\<open>main\<close> builds it: each part from its checked constructor.\<close>

definition fresh_source :: "atlas_source \<Rightarrow> bool" where
  "fresh_source s \<longleftrightarrow> (\<exists>sid lbl interval runtime base64 url username password entries client slots lanes cache lim.
     source_runtime_new sid lbl interval = Inr runtime \<and>
     rpc_client_new base64 url username password entries = Inr client \<and>
     limits_new slots lanes cache = Inr lim \<and> s = atlas_source_new runtime client lim)"

lemma fresh_source_spec:
  assumes "fresh_source s"
  shows "so_state s = state_default" "so_coordinator s = coordinator_new (max_auxiliary_cache_bytes (so_limits s))"
    "rc_max_mempool_entries (so_client s) \<le> MAX_SUPPORTED_MEMPOOL_ENTRIES"
    "max_auxiliary_cache_bytes (so_limits s) \<le> usize_max"
  using assms
  by (auto simp: fresh_source_def atlas_source_new_def source_runtime_new_def rpc_client_new_def limits_new_def
      validate_configured_limit_def ok_then_Inr_iff resolver_constants split: if_splits)

lemma coordinator_new_ok: "maximum \<le> usize_max \<Longrightarrow> coordinator_ok maximum (coordinator_new maximum)"
  using cache_new_ok [of maximum]
  by (simp add: coordinator_ok_def coordinator_new_def caches_ok_def work_default_def bt_ok_def bt_weight_def)
    (simp add: cache_new_def)

lemma atlas_new_inv:
  assumes new: "atlas_new sources interval = Inr a" and fresh: "\<forall>s \<in> set sources. fresh_source s"
  shows "atlas_inv encode w 0 a"
proof -
  have a: "at_sources a = sources" "at_poll a = AwaitTick" "at_class a = AwaitWakeup" "at_pending a = []" "sources \<noteq> []"
    using new by (auto simp: atlas_new_def ok_then_Inr_iff split: if_splits)
  have "view_ok encode w 0 (view a i)" if "i < length sources" for i
  proof -
    have f: "fresh_source (at_source a i)" using fresh that by (simp add: at_source_def a(1))
    have "publisher_inv encode pb 0 (state_default, [idle, idle])" for pb
      by (simp add: publisher_inv_def state_default_def current_ok_def response_ok_def idle_def)
    then show ?thesis
      using fresh_source_spec [OF f] coordinator_new_ok [of "max_auxiliary_cache_bytes (so_limits (at_source a i))"]
      by (simp add: view_ok_def view_def a source_inv_def publishing_inv_def)
        (simp add: coordinator_new_def state_default_def)
  qed
  then show ?thesis by (simp add: atlas_inv_def a)
qed

lemma atlas_reaches_inv:
  "atlas_reaches encode w a0 n a \<Longrightarrow> \<forall>x. encode x \<noteq> None \<Longrightarrow> sane_world w \<Longrightarrow> atlas_inv encode w 0 a0 \<Longrightarrow>
   n \<le> 2 ^ 53 \<Longrightarrow> atlas_inv encode w n a"
proof (induction rule: atlas_reaches.induct)
  case (step n a a')
  then show ?case using atlas_step_inv [of encode w n a a'] by simp
qed

section \<open>Properties of the scheduler\<close>

text \<open>
  C2: Assume that the encoder of responses never fails and that the node serves no transaction with a stray null input
  (\<open>sane_world\<close>: no null input outside coinbase transactions; without it \<open>classify_ready\<close> can panic). Then, however
  the membership rounds, the slices, the publications, the clock and the RPC tasks interleave, in \<open>2 ^ 53\<close> steps
  no slice panics and no publication of a membership, a failure or a classification ends in an error,
  so a revision is never out of sequence and never lost.
\<close>

theorem scheduler_never_fails:
  assumes "atlas_new sources interval = Inr a0" and "\<forall>s \<in> set sources. fresh_source s"
    and "\<forall>x. encode x \<noteq> None" and "sane_world w" and "atlas_reaches encode w a0 n a" and "n \<le> 2 ^ 53"
  shows "at_class a \<noteq> Crashed \<and>
    (\<forall>i out r rest. at_poll a = PublishingOne i out (Finished r) rest \<longrightarrow> \<not> isl r) \<and>
    (\<forall>i s r c active. at_class a = PublishingSlice i s (Finished r) c active \<longrightarrow>
      \<not> isl r \<and> (\<exists>rp work cache. s = Reported rp work cache))"
proof -
  have inv: "poll_inv (length (at_sources a)) (at_poll a)" "class_inv (at_source a) (length (at_sources a)) (at_class a)"
    using atlas_reaches_inv [OF assms(5,3,4) atlas_new_inv [OF assms(1,2)] assms(6)] by (simp_all add: atlas_inv_def)
  have "\<not> isl r" if "at_poll a = PublishingOne i out (Finished r) rest" for i out r rest
    using inv(1) that by (cases out) simp_all
  then show ?thesis using inv(2) by (auto simp: update_inv_def)
qed

text \<open>
  C3: With an encoder that never fails and a node that serves no stray null input, in the first \<open>2 ^ 53\<close> steps,
  what a source shows of the pipeline's current generation is what the pipeline has classified: when that
  generation is published and no slice of the source waits to be published, the published membership is the
  generation's, the revision is its revision, and the published record of every txid is the exact record the
  pipeline holds for the entry's witness variant. A publication never shows a later generation than the pipeline's.
\<close>

theorem published_records_match_pipeline:
  assumes "atlas_new sources interval = Inr a0" and "\<forall>s \<in> set sources. fresh_source s"
    and "\<forall>x. encode x \<noteq> None" and "sane_world w" and "atlas_reaches encode w a0 n a" and "n \<le> 2 ^ 53"
    and "i < length (at_sources a)" and "st_generation (so_state (at_source a i)) = Some h"
  shows "\<exists>g. cd_current (so_coordinator (at_source a i)) = Some g \<and> h \<le> cg_id g \<and>
    (h = cg_id g \<and> (\<forall>r t c active. at_class a \<noteq> PublishingSlice i r t c active) \<longrightarrow>
      st_membership (so_state (at_source a i)) = Some (cg_membership g) \<and>
      st_revision (so_state (at_source a i)) = wk_revision (cg_work g) \<and>
      (\<forall>txid. bt_get (st_classifications (so_state (at_source a i))) txid =
        (case find (\<lambda>e. me_txid e = txid) (transactions (cg_membership g)) of
           Some e \<Rightarrow> map_option cc_classification (previous_record (cg_work g) e) | None \<Rightarrow> None)))"
proof -
  let ?s = "at_source a i" and ?d = "pending_of_class (at_class a) i"
  have "view_ok encode w n (view a i)"
    using atlas_reaches_inv [OF assms(5,3,4) atlas_new_inv [OF assms(1,2)] assms(6)] assms(7)
    by (rule atlas_inv_view)
  then have inv: "source_inv w n ?s (pending_of_poll (at_poll a) i) ?d" by (simp add: view_ok_def view_def)
  then obtain g where g: "cd_current (so_coordinator ?s) = Some g"
    using assms(8) by (cases "cd_current (so_coordinator ?s)") (simp_all add: source_inv_def)
  then obtain g' where g': "cg_id g' = h" "in_step g' (pending_for ?d h) (so_state ?s)" "h \<le> cg_id g"
      "h = cg_id g \<longrightarrow> g' = g"
    using inv assms(8) by (auto simp: source_inv_def)
  have "?d = None" if "\<forall>r t c active. at_class a \<noteq> PublishingSlice i r t c active"
    using that by (cases "(at_class a, i)" rule: pending_of_class.cases) auto
  then show ?thesis using g g' by (auto simp: in_step_def mirrors_def)
qed

text \<open>The gate.\<close>

fun polls :: "poll_pc \<Rightarrow> bool" where
  "polls (Polling i outs) = True"
| "polls (AwaitSnapshot i outs) = True"
| "polls _ = False"

fun slices :: "class_pc \<Rightarrow> bool" where
  "slices (Slicing i expected active) = True"
| "slices _ = False"

text \<open>
  C19: The RPC gate is held by a membership round or by one slice, never by both: while a slice runs no membership is
  installed, so nothing supersedes its generation, and the gate is free exactly when neither is under way.
\<close>

theorem gate_is_exclusive:
  assumes "atlas_new sources interval = Inr a0" and "atlas_reaches encode w a0 n a"
  shows "(at_gate a \<longleftrightarrow> \<not> polls (at_poll a) \<and> \<not> slices (at_class a)) \<and> \<not> (polls (at_poll a) \<and> slices (at_class a))"
  using assms(2)
proof (induction rule: atlas_reaches.induct)
  case start
  then show ?case using assms(1) by (auto simp: atlas_new_def ok_then_Inr_iff split: if_splits)
next
  case (step n a a')
  from step(2,3) show ?case
    by (cases rule: atlas_step.cases)
      (auto simp: update_source_def slice_done_def publication_done_def schedule_classification_def
        split: poll_outcome.splits sum.splits bool.splits)
qed

text \<open>How many turns later than the next one a source is due.\<close>

definition turns_until :: "nat \<Rightarrow> nat \<Rightarrow> nat \<Rightarrow> nat" where
  "turns_until m k j = (j + m - k) mod m"

text \<open>
  C29: Classification is fair: the source that is sliced is the active one that is due first, and with its turn every
  other active source moves strictly closer to its own. So an active source waits for fewer turns
  than there are sources.
\<close>

theorem round_robin_is_fair:
  assumes "sorted active" and "\<forall>j \<in> set active. j < m" and "k < m" and "choose_source active k = Some i" and "j \<in> set active"
  shows "turns_until m k i \<le> turns_until m k j \<and>
    (j \<noteq> i \<longrightarrow> turns_until m ((i + 1) mod m) j < turns_until m k j) \<and> turns_until m k j < m"
proof -
  have im: "i < m" "j < m" "i \<in> set active" using assms choose_source_mem by auto
  have turns: "turns_until m q j = (if q \<le> j then j - q else j + m - q)" if "q < m" "j < m" for q j
    using that by (auto simp: turns_until_def mod_if)
  have "k \<le> j \<longrightarrow> k \<le> i \<and> i \<le> j" "\<not> k \<le> i \<longrightarrow> (\<forall>x \<in> set active. \<not> k \<le> x) \<and> i \<le> j"
  proof -
    have first: "i \<le> j" if "find (\<lambda>x. k \<le> x) active = None"
      using assms(1,4,5) that by (cases active) (auto simp: choose_source_def)
    have found: "k \<le> i \<and> (k \<le> j \<longrightarrow> i \<le> j)" if f: "find (\<lambda>x. k \<le> x) active = Some i"
    proof -
      obtain n where n: "n < length active" "k \<le> active ! n" "i = active ! n" "\<forall>m < n. \<not> k \<le> active ! m"
        using f by (auto simp: find_Some_iff)
      obtain q where q: "q < length active" "j = active ! q" using assms(5) by (auto simp: in_set_conv_nth)
      have "i \<le> j" if "k \<le> j"
      proof -
        have "n \<le> q" using n(4) q that by (meson not_le)
        then show ?thesis using assms(1) q n(3) by (simp add: sorted_nth_mono)
      qed
      then show ?thesis using n by simp
    qed
    show "k \<le> j \<longrightarrow> k \<le> i \<and> i \<le> j" "\<not> k \<le> i \<longrightarrow> (\<forall>x \<in> set active. \<not> k \<le> x) \<and> i \<le> j"
      using first found assms(4,5)
      by (auto simp: choose_source_def find_None_iff split: option.splits)
  qed
  then have o: "k \<le> j \<Longrightarrow> k \<le> i \<and> i \<le> j" "\<not> k \<le> i \<Longrightarrow> \<not> k \<le> j \<and> i \<le> j" using assms(5) by blast+
  have q: "(i + 1) mod m < m" "(i + 1) mod m = (if i + 1 = m then 0 else i + 1)"
    using im(1) by (simp_all add: mod_if)
  have t: "turns_until m k i = (if k \<le> i then i - k else i + m - k)" "turns_until m k j = (if k \<le> j then j - k else j + m - k)"
    "turns_until m ((i + 1) mod m) j = (if (i + 1) mod m \<le> j then j - (i + 1) mod m else j + m - (i + 1) mod m)"
    using turns [OF assms(3)] turns [OF q(1)] im by blast+
  show ?thesis
    unfolding t unfolding q(2) using o im(1,2) assms(3)
    by (cases "k \<le> i"; cases "k \<le> j"; cases "i + 1 = m"; simp; linarith?)
qed

end
