(* ===== verification/Api.thy ===== *)
theory Api
  imports Runtime_Props
begin

text \<open>
  The HTTP API, \<^verbatim>\<open>src/api.rs\<close>: its handlers, its cache policies, conditional requests and error bodies. Routing
  of paths, compression and the static files are \<^verbatim>\<open>axum\<close>'s and \<^verbatim>\<open>tower_http\<close>'s: a request comes as the route it
  matched, and a reply of the static service is an argument. Header names are in lower case, as \<^verbatim>\<open>HeaderMap\<close> keeps
  them; the quoted form of a string in a message (\<^verbatim>\<open>{:?}\<close>) is an argument.
\<close>

section \<open>Headers and replies\<close>

type_synonym headers = "(string \<times> string) list"

definition get_all :: "string \<Rightarrow> headers \<Rightarrow> string list" where
  "get_all name headers = map snd (filter (\<lambda>(n, _). n = name) headers)"

definition insert_header :: "string \<Rightarrow> string \<Rightarrow> headers \<Rightarrow> headers" where
  "insert_header name v headers = filter (\<lambda>(n, _). n \<noteq> name) headers @ [(name, v)]"

definition entry_or_insert :: "string \<Rightarrow> string \<Rightarrow> headers \<Rightarrow> headers" where
  "entry_or_insert name v headers = (if get_all name headers = [] then headers @ [(name, v)] else headers)"

text \<open>\<^verbatim>\<open>HeaderValue::to_str\<close> and \<^verbatim>\<open>from_str\<close>.\<close>

definition visible_ascii :: "char \<Rightarrow> bool" where
  "visible_ascii c \<longleftrightarrow> (let n = of_char c :: nat in 32 \<le> n \<and> n < 127 \<or> n = 9)"

definition to_str :: "string \<Rightarrow> string option" where
  "to_str v = (if list_all visible_ascii v then Some v else None)"

definition header_value_from_str :: "string \<Rightarrow> string option" where
  "header_value_from_str s = (if list_all visible_ascii s then Some s else None)"

definition SNAPSHOT_CACHE_CONTROL :: string where "SNAPSHOT_CACHE_CONTROL = ''public, no-cache, must-revalidate''"
definition NO_STORE :: string where "NO_STORE = ''no-store''"

datatype reply_body =
    NoBody
  | RawBody bytes
  | StatusBody string
  | SourcesBody sources_reply
  | DetailBody transaction_detail_response
  | ErrorBody string

record reply =
  rp_status :: nat
  rp_headers :: headers
  rp_body :: reply_body

definition json_reply :: "nat \<Rightarrow> headers \<Rightarrow> reply_body \<Rightarrow> reply" where
  "json_reply status extra body = \<lparr> rp_status = status,
     rp_headers = fold (\<lambda>(n, v). insert_header n v) extra [(''content-type'', ''application/json'')], rp_body = body \<rparr>"

text \<open>The two response layers.\<close>

definition default_cache_policy :: "reply \<Rightarrow> reply" where
  "default_cache_policy r = r\<lparr>rp_headers := entry_or_insert ''cache-control'' NO_STORE (rp_headers r)\<rparr>"

definition static_fallback_cache_policy :: "reply \<Rightarrow> reply" where
  "static_fallback_cache_policy r =
     (if 200 \<le> rp_status r \<and> rp_status r < 300 \<or> rp_status r = 304 then r else default_cache_policy r)"

section \<open>Errors\<close>

record api_error =
  ae_status :: nat
  ae_message :: string

definition source_not_found :: "(string \<Rightarrow> string) \<Rightarrow> string \<Rightarrow> api_error" where
  "source_not_found quoted sid = \<lparr> ae_status = 404, ae_message = ''unknown source '' @ quoted sid \<rparr>"

definition snapshot_response_error :: api_error where
  "snapshot_response_error = \<lparr> ae_status = 500, ae_message = ''current snapshot is temporarily unavailable'' \<rparr>"

definition invalid_txid :: "(string \<Rightarrow> string) \<Rightarrow> string \<Rightarrow> api_error" where
  "invalid_txid quoted txid = \<lparr> ae_status = 400, ae_message = ''invalid transaction ID '' @ quoted txid \<rparr>"

definition snapshot_not_ready :: api_error where
  "snapshot_not_ready = \<lparr> ae_status = 503, ae_message = ''current snapshot is not ready'' \<rparr>"

definition transaction_not_present :: "(string \<Rightarrow> string) \<Rightarrow> string \<Rightarrow> api_error" where
  "transaction_not_present quoted txid = \<lparr> ae_status = 404,
     ae_message = ''transaction '' @ quoted txid @ '' is not in the current snapshot'' \<rparr>"

definition transaction_unclassified :: "(string \<Rightarrow> string) \<Rightarrow> string \<Rightarrow> api_error" where
  "transaction_unclassified quoted txid = \<lparr> ae_status = 503, ae_message = ''transaction '' @ quoted txid @
     '' is present but has no policy assessment in the current snapshot'' \<rparr>"

definition error_response :: "api_error \<Rightarrow> reply" where
  "error_response e = json_reply (ae_status e) [(''cache-control'', NO_STORE)] (ErrorBody (ae_message e))"

fun respond :: "api_error + reply \<Rightarrow> reply" where
  "respond (Inl e) = error_response e"
| "respond (Inr r) = r"

section \<open>Conditional requests\<close>

text \<open>\<^verbatim>\<open>str::split\<close> at a character.\<close>

fun split_at :: "char \<Rightarrow> string \<Rightarrow> string list" where
  "split_at c [] = [[]]"
| "split_at c (x # xs) =
     (if x = c then [] # split_at c xs
      else (case split_at c xs of [] \<Rightarrow> [[x]] | y # ys \<Rightarrow> (x # y) # ys))"

definition weak_etag :: "string \<Rightarrow> string" where
  "weak_etag v = (if take 2 v = ''W/'' then drop 2 v else v)"

definition if_none_match_matches :: "headers \<Rightarrow> string \<Rightarrow> bool" where
  "if_none_match_matches headers current_etag =
     list_ex (\<lambda>candidate. candidate = ''*'' \<or> weak_etag candidate = weak_etag current_etag)
       (map trim (concat (map (split_at CHR '','') (List.map_filter to_str (get_all ''if-none-match'' headers)))))"

section \<open>Handlers\<close>

definition health :: reply where
  "health = json_reply 200 [] (StatusBody ''ok'')"

definition readiness :: "(string, publisher) btree \<Rightarrow> (publisher \<Rightarrow> current_state) \<Rightarrow> reply" where
  "readiness registry read =
     (if is_ready registry read then json_reply 200 [] (StatusBody ''ready'')
      else json_reply 503 [] (StatusBody ''waiting_for_snapshot''))"

definition sources_handler :: "string \<Rightarrow> (string, publisher) btree \<Rightarrow> (publisher \<Rightarrow> current_state) \<Rightarrow> reply" where
  "sources_handler version registry read =
     json_reply 200 [(''cache-control'', NO_STORE)] (SourcesBody (sources_response version registry read))"

text \<open>\<open>None\<close> is the panic of the \<^verbatim>\<open>expect\<close> on the tag.\<close>

definition source_snapshot ::
    "(snapshot_response \<Rightarrow> bytes option) \<Rightarrow> (string \<Rightarrow> string) \<Rightarrow> (string, publisher) btree \<Rightarrow>
     (publisher \<Rightarrow> current_state) \<Rightarrow> string \<Rightarrow> headers \<Rightarrow> (api_error + reply) option" where
  "source_snapshot encode quoted registry read sid request_headers =
     (case registry_get registry sid of
        None \<Rightarrow> Some (Inl (source_not_found quoted sid))
      | Some source \<Rightarrow>
     (case snapshot_response_payload encode source (read source) of
        Inl _ \<Rightarrow> Some (Inl snapshot_response_error)
      | Inr payload \<Rightarrow>
          (let not_modified = (case cr_etag payload of
                 None \<Rightarrow> False | Some etag \<Rightarrow> if_none_match_matches request_headers etag);
               response = (if not_modified then \<lparr> rp_status = 304, rp_headers = [], rp_body = NoBody \<rparr>
                 else \<lparr> rp_status = 200, rp_headers = [(''content-type'', ''application/json'')],
                   rp_body = RawBody (cr_body payload) \<rparr>);
               response = response\<lparr>rp_headers := insert_header ''cache-control''
                 (if cr_etag payload \<noteq> None then SNAPSHOT_CACHE_CONTROL else NO_STORE) (rp_headers response)\<rparr>
           in (case cr_etag payload of
                 None \<Rightarrow> Some (Inr response)
               | Some etag \<Rightarrow> map_option
                   (\<lambda>v. Inr (response\<lparr>rp_headers := insert_header ''etag'' v (rp_headers response)\<rparr>))
                   (header_value_from_str etag)))))"

definition transaction_detail_handler ::
    "(string \<Rightarrow> string) \<Rightarrow> (string \<Rightarrow> string option) \<Rightarrow> (string, publisher) btree \<Rightarrow> (publisher \<Rightarrow> current_state) \<Rightarrow>
     string \<Rightarrow> string \<Rightarrow> api_error + reply" where
  "transaction_detail_handler quoted parse_txid_text registry read sid txid =
     (case parse_txid_text txid of
        None \<Rightarrow> Inl (invalid_txid quoted txid)
      | Some canonical \<Rightarrow>
     (case registry_get registry sid of
        None \<Rightarrow> Inl (source_not_found quoted sid)
      | Some source \<Rightarrow> (case transaction_detail source (read source) canonical of
            LookupReady detail \<Rightarrow> Inr (json_reply 200 [(''cache-control'', NO_STORE)] (DetailBody detail))
          | WaitingForSnapshot \<Rightarrow> Inl snapshot_not_ready
          | NotPresent \<Rightarrow> Inl (transaction_not_present quoted canonical)
          | Unclassified \<Rightarrow> Inl (transaction_unclassified quoted canonical))))"

text \<open>
  The router: routed replies pass the default policy, the others the policy of the static service.
\<close>

datatype route =
    Healthz
  | Readyz
  | Sources
  | SourceMempool string
  | SourceTransaction string string
  | Fallback reply

record api_env =
  av_version :: string
  av_encode :: "snapshot_response \<Rightarrow> bytes option"
  av_quoted :: "string \<Rightarrow> string"
  av_txid :: "string \<Rightarrow> string option"

definition router ::
    "api_env \<Rightarrow> (string, publisher) btree \<Rightarrow> (publisher \<Rightarrow> current_state) \<Rightarrow> headers \<Rightarrow> route \<Rightarrow> reply option" where
  "router env registry read request_headers route = (case route of
     Healthz \<Rightarrow> Some (default_cache_policy health)
   | Readyz \<Rightarrow> Some (default_cache_policy (readiness registry read))
   | Sources \<Rightarrow> Some (default_cache_policy (sources_handler (av_version env) registry read))
   | SourceMempool sid \<Rightarrow> map_option (default_cache_policy \<circ> respond)
       (source_snapshot (av_encode env) (av_quoted env) registry read sid request_headers)
   | SourceTransaction sid txid \<Rightarrow> Some (default_cache_policy (respond
       (transaction_detail_handler (av_quoted env) (av_txid env) registry read sid txid)))
   | Fallback r \<Rightarrow> Some (static_fallback_cache_policy r))"

text \<open>
  The registry holds the scheduler's own sources: what a handler reads is their state at that moment.
\<close>

definition source_runtimes :: "atlas \<Rightarrow> publisher list" where
  "source_runtimes a = map so_publisher (at_sources a)"

definition read_state :: "atlas \<Rightarrow> publisher \<Rightarrow> current_state" where
  "read_state a p = (case List.find (\<lambda>s. so_publisher s = p) (at_sources a) of
     Some s \<Rightarrow> so_state s | None \<Rightarrow> state_default)"

end
