(* ===== verification/Runtime_Examples.thy ===== *)
theory Runtime_Examples
  imports Runtime_Props
begin

text \<open>
  What the scheduler's constructors accept, and a run of the scheduler: one source, whose first membership is
  polled, installed and published.
\<close>

section \<open>Start-up\<close>

lemma check_sources_Inr: "check_sources interval seen ps = Inr () \<longleftrightarrow>
    distinct (map pb_source_id ps) \<and> set (map pb_source_id ps) \<inter> set seen = {} \<and>
    (\<forall>p \<in> set ps. pb_poll_interval p = interval)"
  by (induction interval seen ps rule: check_sources.induct) auto

text \<open>
  The scheduler starts exactly with one to four sources of distinct ids that share its positive poll interval; it
  starts idle, with the gate free.
\<close>

theorem atlas_new_iff:
  "atlas_new sources interval = Inr a \<longleftrightarrow>
     a = \<lparr> at_sources = sources, at_gate = True, at_wakeup = False, at_pending = [], at_poll = AwaitTick,
       at_class = AwaitWakeup \<rparr> \<and> 1 \<le> length sources \<and> length sources \<le> 4 \<and> 0 < interval \<and>
     distinct (map (pb_source_id \<circ> so_publisher) sources) \<and>
     list_all (\<lambda>s. pb_poll_interval (so_publisher s) = interval) sources"
  by (auto simp: atlas_new_def MAX_CONFIGURED_SOURCES_def ok_then_Inr_iff check_sources_Inr list_all_iff Suc_le_eq)

lemma index_sources_Inr:
  "bt_ok m \<Longrightarrow> index_sources ps m = Inr m' \<Longrightarrow> bt_ok m' \<and> distinct (map pb_source_id ps) \<and>
   (\<forall>k. bt_get m' k = (case find (\<lambda>p. pb_source_id p = k) ps of Some p \<Rightarrow> Some p | None \<Rightarrow> bt_get m k)) \<and>
   (\<forall>p \<in> set ps. bt_get m (pb_source_id p) = None)"
proof (induction ps m rule: index_sources.induct)
  case (1 m)
  then show ?case by simp
next
  case (2 p ps m)
  have fresh: "bt_get m (pb_source_id p) = None" and rest: "index_sources ps (bt_insert (pb_source_id p) p m) = Inr m'"
    using 2(3) by (auto simp: bt_contains_def split: if_splits)
  note IH = 2(1) [OF _ bt_ok_insert [OF 2(2)] rest]
  have ins: "bt_get (bt_insert (pb_source_id p) p m) k = (if k = pb_source_id p then Some p else bt_get m k)" for k
    by (rule bt_get_insert [OF 2(2)])
  have "\<not> bt_contains m (pb_source_id p)" using fresh by (simp add: bt_contains_def)
  note IH = IH [OF this]
  have others: "pb_source_id x \<noteq> pb_source_id p \<and> bt_get m (pb_source_id x) = None" if x: "x \<in> set ps" for x
  proof -
    have "bt_get (bt_insert (pb_source_id p) p m) (pb_source_id x) = None" using IH x by blast
    then show ?thesis unfolding ins by (simp split: if_splits)
  qed
  have none: "find (\<lambda>x. pb_source_id x = pb_source_id p) ps = None" using others by (auto simp: find_None_iff)
  have "pb_source_id p \<notin> set (map pb_source_id ps)" using others by force
  then show ?case using IH others fresh none by (auto simp: ins split: option.splits)
qed

lemma index_sources_ok:
  "bt_ok m \<Longrightarrow> distinct (map pb_source_id ps) \<Longrightarrow> \<forall>p \<in> set ps. bt_get m (pb_source_id p) = None \<Longrightarrow>
   \<exists>m'. index_sources ps m = Inr m'"
proof (induction ps m rule: index_sources.induct)
  case (2 p ps m)
  have "\<forall>x \<in> set ps. bt_get (bt_insert (pb_source_id p) p m) (pb_source_id x) = None"
    using 2(3,4) by (auto simp: bt_get_insert [OF 2(2)] image_iff)
  then show ?case using 2 by (simp add: bt_contains_def bt_ok_insert)
qed simp

lemma registry_new_Inr:
  assumes "registry_new sources = Inr registry"
  shows "1 \<le> length sources \<and> length sources \<le> 4 \<and> distinct (map pb_source_id sources) \<and>
    registry_get registry k = find (\<lambda>p. pb_source_id p = k) sources"
proof -
  have empty: "bt_ok ([] :: (string, publisher) btree)" by (simp add: bt_ok_def)
  have i: "index_sources sources [] = Inr registry" "registry \<noteq> []" "length sources \<le> 4"
    using assms by (auto simp: registry_new_def MAX_CONFIGURED_SOURCES_def ok_then_Inr_iff split: if_splits)
  from i(1,2) have "sources \<noteq> []" by auto
  then show ?thesis using index_sources_Inr [OF empty i(1)] i(3)
    by (auto simp: registry_get_def Suc_le_eq split: option.splits)
qed

lemma registry_new_ok:
  assumes "1 \<le> length sources" "length sources \<le> 4" "distinct (map pb_source_id sources)"
  shows "\<exists>registry. registry_new sources = Inr registry"
proof -
  have empty: "bt_ok ([] :: (string, publisher) btree)" by (simp add: bt_ok_def)
  obtain m' where m: "index_sources sources [] = Inr m'" using index_sources_ok [OF empty assms(3)] by auto
  have "m' \<noteq> []"
  proof
    assume "m' = []"
    then have "find (\<lambda>p. pb_source_id p = pb_source_id (hd sources)) sources = None"
      using index_sources_Inr [OF empty m] by (simp split: option.splits)
    then show False using assms(1) by (cases sources) auto
  qed
  then show ?thesis using assms m by (simp add: registry_new_def MAX_CONFIGURED_SOURCES_def)
qed

text \<open>
  The registry accepts exactly one to four sources of distinct ids, and then finds each source under its id
  and nothing else.
\<close>

theorem registry_finds_sources:
  "(\<exists>registry. registry_new sources = Inr registry \<and>
      registry_get registry = (\<lambda>k. find (\<lambda>p. pb_source_id p = k) sources)) \<longleftrightarrow>
   1 \<le> length sources \<and> length sources \<le> 4 \<and> distinct (map pb_source_id sources)"
  using registry_new_Inr registry_new_ok by (metis (no_types, lifting) ext)

section \<open>A run\<close>

text \<open>One source, whose node serves the two transactions of \<open>example_entries\<close>.\<close>

definition example_world :: rpc_world where
  "example_world = \<lparr> rw_lib = reference_bitcoin,
     rw_codec = \<lparr> parse_txid = (\<lambda>s. Some (map (\<lambda>c. of_nat (of_char c)) s)), show_txid = map (\<lambda>b. char_of (unat b)) \<rparr>,
     rw_node = example_node \<rparr>"

definition example_source :: atlas_source where
  "example_source = atlas_source_new
     (\<lparr> pb_source_id = ''core'', pb_source_label = ''Core'', pb_poll_interval = 30 \<rparr>, state_default) example_client
     \<lparr> max_transactions_per_slice = 1, rpc_lanes = 1, max_auxiliary_cache_bytes = 1000 \<rparr>"

definition example_atlas :: atlas where
  "example_atlas = \<lparr> at_sources = [example_source], at_gate = True, at_wakeup = False, at_pending = [],
     at_poll = AwaitTick, at_class = AwaitWakeup \<rparr>"

lemma example_atlas_new: "atlas_new [example_source] 30 = Inr example_atlas"
  by (simp add: atlas_new_def example_atlas_def MAX_CONFIGURED_SOURCES_def example_source_def atlas_source_new_def)

lemma example_fresh: "\<forall>s \<in> set [example_source]. fresh_source s"
proof -
  have r: "source_runtime_new ''core'' ''Core'' 30 =
      Inr (\<lparr> pb_source_id = ''core'', pb_source_label = ''Core'', pb_poll_interval = 30 \<rparr>, state_default)"
    by (simp add: source_runtime_new_def) code_simp
  have c: "rpc_client_new (\<lambda>_. ''dTpw'') ''http://n/'' ''u'' ''p'' 2 = Inr example_client"
    by (simp add: rpc_client_new_def validate_configured_limit_def validate_rpc_url_def basic_authorization_def
        example_client_def MAX_SUPPORTED_MEMPOOL_ENTRIES_def)
  have l: "limits_new 1 1 1000 = Inr \<lparr> max_transactions_per_slice = 1, rpc_lanes = 1, max_auxiliary_cache_bytes = 1000 \<rparr>"
    by (simp add: limits_new_def MAX_TRANSACTIONS_PER_SLICE_def MAX_RPC_LANES_def MAX_AUXILIARY_CACHE_BYTES_def)
  show ?thesis unfolding list.set fresh_source_def example_source_def using r c l by blast
qed

lemma example_sane: "sane_world example_world"
  by (simp add: sane_world_def example_world_def example_node_def example_input example_not_null)

text \<open>The round: the membership is fetched and installed, and its publication runs to its end.\<close>

lemma example_membership_round:
  "\<exists>a gs. atlas_reaches (\<lambda>_. Some []) example_world example_atlas 8 a \<and> length (at_sources a) = 1 \<and>
    at_poll a = PublishingOne 0 (Installed gs) (Finished (Inr True)) [] \<and> at_gate a \<and> at_class a = AwaitWakeup \<and>
    at_pending a = [] \<and> \<not> at_wakeup a \<and> st_generation (so_state (at_source a 0)) = Some 1"
proof -
  define encode :: "snapshot_response \<Rightarrow> bytes option" where "encode = (\<lambda>_. Some [])"
  let ?w = example_world and ?s1 = "example_source\<lparr>so_state := record_poll_started 5 state_default\<rparr>"
  let ?lim = "so_limits example_source" and ?cd = "so_coordinator example_source"
  let ?at = "\<lambda>gate s pc. \<lparr> at_sources = [s], at_gate = gate, at_wakeup = False, at_pending = [],
     at_poll = pc, at_class = AwaitWakeup \<rparr>"
  obtain m client where m: "get_mempool_snapshot example_membership_node True ''core'' ''Core'' (SinceEpoch 5)
      (SinceEpoch 9) example_client 7 = (Inr m, client, 7)"
    using example_snapshot by blast
  have "rc_max_mempool_entries example_client \<le> MAX_SUPPORTED_MEMPOOL_ENTRIES"
    using example_limit by (simp add: example_client_def)
  from membership_snapshot_spec [OF m this]
  have mok: "snapshot_ok m" "source_id m = ''core''" "distinct (map me_wtxid (transactions m))" by blast+
  have parsed: "\<exists>variants. membership_variants (rw_codec ?w) es v = Inr variants" for es v
    by (induction es arbitrary: v) (simp_all add: example_world_def)
  then obtain variants where v: "membership_variants (rw_codec ?w) (transactions m) [] = Inr variants" by blast
  obtain gs cd' where i: "install_generation (rw_codec ?w) 1000 m variants 1 ?cd = (gs, cd')" by fastforce
  have inst: "install_snapshot (rw_codec ?w) ?lim m ?cd = Inr (gs, cd')"
    using v i by (simp add: install_snapshot_Inr example_source_def atlas_source_new_def coordinator_new_def)
  have cd: "coordinator_ok 1000 ?cd"
    using coordinator_new_ok [of 1000] by (simp add: example_source_def atlas_source_new_def)
  obtain c where c: "cd_current cd' = Some c" "mirrors (transactions m) (cg_work c) (gs_classifications gs)"
    using installed_in_step [OF cd mok(1,3) i] by blast
  have ok: "classified_ok (wk_classifications (cg_work c))"
    using install_work(1) [OF cd, of "rw_codec ?w" m variants 1] i c(1) by (simp add: coordinator_ok_def)
  have gs: "gs_generation gs = 1" "gs_membership gs = m" "gs_revision gs = 0"
    using install_generation_ids [of "rw_codec ?w" 1000 m variants 1 ?cd] i by simp_all
  obtain prep where prep: "prepare_observation m 0 (gs_classifications gs) = Inr prep"
      "length (gs_classifications gs) \<le> length (transactions m)"
    using mirrors_prepared [OF mok(1) ok c(2), of 0] by (auto simp: json_safe_def)
  let ?s2 = "?s1\<lparr>so_client := client, so_coordinator := cd'\<rparr>"
  let ?life = "if gs_has_eligible_work gs then Classifying else ClassificationComplete"
  have src: "so_publisher ?s2 = so_publisher example_source" "so_state ?s2 = record_poll_started 5 state_default"
      "pb_source_id (so_publisher example_source) = ''core''" "pb_source_label (so_publisher example_source) = ''Core''"
      "so_client example_source = example_client"
    by (simp_all add: example_source_def atlas_source_new_def)
  have polled: "poll_source example_membership_node (rw_codec ?w) True (SinceEpoch 5) (SinceEpoch 9) 7 ?s1 = (Installed gs, ?s2)"
    using m inst by (simp add: poll_source_def src)
  have started: "task_step encode (so_publisher ?s2) (MembershipStart gs) (so_state ?s2) =
      (MembershipLoop gs prep ?life, so_state ?s2)"
    using prep mok(2) by (simp add: membership_start_def gs src superseded_def record_poll_started_def state_default_def)
  have looped: "task_step encode (so_publisher ?s2) (MembershipLoop gs prep ?life) (so_state ?s2) =
      (MembershipCommit gs prep ?life 1 None [], so_state ?s2)"
    by (simp add: membership_loop_def encode_def src superseded_def record_poll_started_def state_default_def)
  obtain st where committed: "task_step encode (so_publisher ?s2) (MembershipCommit gs prep ?life 1 None []) (so_state ?s2) =
      (Finished (Inr True), st)" "st_generation st = Some 1"
    by (simp add: membership_commit_def replace_cached_response_def gs superseded_def record_poll_started_def
        state_default_def src Let_def)
  have "system_now_ms (SinceEpoch 5) = Inr 5" by (simp add: system_now_ms_def MAX_SAFE_JSON_INTEGER_def)
  then have s0: "atlas_step encode ?w (?at False example_source (Polling 0 [])) (?at False ?s1 (AwaitSnapshot 0 []))"
    using atlas_step.poll_started [of "?at False example_source (Polling 0 [])" 0 "[]" "SinceEpoch 5" 5 encode ?w]
    by (simp add: update_source_def at_source_def example_source_def atlas_source_new_def)
  have s1: "atlas_step encode ?w (?at False ?s1 (AwaitSnapshot 0 [])) (?at False ?s2 (Polling 1 [(0, Installed gs)]))"
    using atlas_step.poll_snapshot [of "?at False ?s1 (AwaitSnapshot 0 [])" 0 "[]" example_membership_node ?w True
        "SinceEpoch 5" "SinceEpoch 9" 7 "Installed gs" ?s2 encode] polled
    by (simp add: update_source_def at_source_def)
  have s2: "atlas_step encode ?w (?at False ?s2 (Polling 1 [(0, Installed gs)])) (?at True ?s2 (Publishing [(0, Installed gs)]))"
    using atlas_step.poll_release [of "?at False ?s2 (Polling 1 [(0, Installed gs)])" 1 "[(0, Installed gs)]" encode ?w] by simp
  have s3: "atlas_step encode ?w (?at True ?s2 (Publishing [(0, Installed gs)]))
      (?at True ?s2 (PublishingOne 0 (Installed gs) (MembershipStart gs) []))"
    using atlas_step.publish_start [of "?at True ?s2 (Publishing [(0, Installed gs)])" 0 "Installed gs" "[]"
        "MembershipStart gs" encode ?w] by (simp add: outcome_task_def)
  have run: "atlas_step encode ?w (?at True ?s2 (PublishingOne 0 (Installed gs) t []))
      (?at True (?s2\<lparr>so_state := st'\<rparr>) (PublishingOne 0 (Installed gs) t' []))"
    if "task_step encode (so_publisher ?s2) t (so_state ?s2) = (t', st')" "\<nexists>r. t = Finished r" for t t' st'
    using that atlas_step.publish_run [of "?at True ?s2 (PublishingOne 0 (Installed gs) t [])" 0 "Installed gs" t "[]"
        encode t' st' ?w] by (simp add: update_source_def at_source_def)
  have same: "?s2\<lparr>so_state := so_state ?s2\<rparr> = ?s2" by simp
  have first: "atlas_step encode ?w example_atlas (?at False example_source (Polling 0 []))"
    using atlas_step.tick [of example_atlas encode ?w] by (simp add: example_atlas_def)
  note steps = first s0 s1 s2 s3 run [OF started, unfolded same] run [OF looped, unfolded same] run [OF committed(1)]
  have "atlas_reaches encode ?w example_atlas 8 (?at True (?s2\<lparr>so_state := st\<rparr>) (PublishingOne 0 (Installed gs) (Finished (Inr True)) []))"
    using atlas_reaches.step [OF atlas_reaches.step [OF atlas_reaches.step [OF atlas_reaches.step [OF atlas_reaches.step
      [OF atlas_reaches.step [OF atlas_reaches.step [OF atlas_reaches.step [OF atlas_reaches.start
        steps(1)] steps(2)] steps(3)] steps(4)] steps(5)] steps(6)] steps(7)] steps(8)]
    by (simp add: eval_nat_numeral)
  then show ?thesis using committed(2) unfolding encode_def by (auto simp: at_source_def)
qed

section \<open>Witnesses\<close>

text \<open>After the round its source is scheduled, and its first slice takes the gate.\<close>

lemma slice_reached:
  "\<exists>a. atlas_reaches (\<lambda>_. Some []) example_world example_atlas 12 a \<and> at_class a = Slicing 0 (Some 1) []"
proof -
  let ?st = "atlas_step (\<lambda>_. Some []) example_world"
  obtain a gs where a: "atlas_reaches (\<lambda>_. Some []) example_world example_atlas 8 a"
      "at_poll a = PublishingOne 0 (Installed gs) (Finished (Inr True)) []" "at_gate a" "at_class a = AwaitWakeup"
      "at_pending a = []" "st_generation (so_state (at_source a 0)) = Some 1"
    using example_membership_round by blast
  let ?b = "a\<lparr>at_pending := [0], at_wakeup := True, at_poll := Publishing []\<rparr>"
  let ?c = "?b\<lparr>at_wakeup := False, at_class := Choosing [] 0\<rparr>"
  let ?d = "?c\<lparr>at_pending := [], at_class := AwaitGate 0 []\<rparr>"
  let ?e = "?d\<lparr>at_gate := False, at_class := Slicing 0 (Some 1) []\<rparr>"
  have b: "?st a ?b"
    using atlas_step.publish_done [OF a(2)] a(5)
    by (simp add: publication_done_def schedule_classification_def bs_insert_def insort_insert_key_def)
  have c: "?st ?b ?c" using a(4) by (intro atlas_step.class_wake) simp_all
  have d: "?st ?c ?d"
    using atlas_step.class_choose [of ?c "[]" 0 0 "\<lambda>_. Some []" example_world]
    by (simp add: choose_source_def append_pending_def bs_insert_def bs_remove_def insort_insert_key_def)
  have e: "?st ?d ?e"
    using atlas_step.class_gate [of ?d 0 "[]" "\<lambda>_. Some []" example_world] a(3,6) by (simp add: at_source_def)
  have "atlas_reaches (\<lambda>_. Some []) example_world example_atlas 12 ?e"
    using atlas_reaches.step [OF atlas_reaches.step [OF atlas_reaches.step [OF atlas_reaches.step [OF a(1) b] c] d] e]
    by (simp add: eval_nat_numeral)
  then show ?thesis by force
qed

theorem scheduler_never_fails_witness:
  "\<exists>a gs r. atlas_reaches (\<lambda>_. Some []) example_world example_atlas 8 a \<and>
     at_poll a = PublishingOne 0 (Installed gs) (Finished r) [] \<and> at_class a \<noteq> Crashed \<and> \<not> isl r"
proof -
  obtain a gs where a: "atlas_reaches (\<lambda>_. Some []) example_world example_atlas 8 a"
      "at_poll a = PublishingOne 0 (Installed gs) (Finished (Inr True)) []"
    using example_membership_round by blast
  show ?thesis
    using scheduler_never_fails [OF example_atlas_new example_fresh _ example_sane a(1)] a by fastforce
qed

theorem published_records_match_pipeline_witness:
  "\<exists>a g. atlas_reaches (\<lambda>_. Some []) example_world example_atlas 8 a \<and>
     cd_current (so_coordinator (at_source a 0)) = Some g \<and> 1 \<le> cg_id g"
proof -
  obtain a gs where a: "atlas_reaches (\<lambda>_. Some []) example_world example_atlas 8 a"
      "length (at_sources a) = 1" "st_generation (so_state (at_source a 0)) = Some 1"
    using example_membership_round by blast
  have "\<forall>x. (\<lambda>_ :: snapshot_response. Some ([] :: bytes)) x \<noteq> None" "(8 :: nat) \<le> 2 ^ 53" "0 < length (at_sources a)"
    using a(2) by simp_all
  from published_records_match_pipeline [OF example_atlas_new example_fresh this(1) example_sane a(1) this(2,3) a(3)]
  show ?thesis using a(1) by blast
qed

theorem gate_is_exclusive_witness:
  "\<exists>a. atlas_reaches (\<lambda>_. Some []) example_world example_atlas 12 a \<and> slices (at_class a) \<and>
     \<not> polls (at_poll a) \<and> \<not> at_gate a"
proof -
  obtain a where a: "atlas_reaches (\<lambda>_. Some []) example_world example_atlas 12 a" "at_class a = Slicing 0 (Some 1) []"
    using slice_reached by blast
  then show ?thesis using gate_is_exclusive [OF example_atlas_new a(1)] by auto
qed

theorem round_robin_is_fair_witness:
  "choose_source [0, 2, 3] 1 = Some 2 \<and> turns_until 4 3 0 < turns_until 4 1 0 \<and> turns_until 4 1 0 < 4"
proof -
  have c: "choose_source [0, 2, 3] 1 = Some 2" by (simp add: choose_source_def)
  then show ?thesis using round_robin_is_fair [of "[0, 2, 3]" 4 1 2 0] by simp
qed

end
