(* ===== verification/Api_Props.thy ===== *)
theory Api_Props
  imports Api Runtime_Examples
begin

text \<open>
  What a client of the API sees of the running scheduler: the exact published snapshot under a tag that identifies its
  bytes, conditional requests that spare only unchanged bodies, the exact record of a transaction, and
  no reusable answer but a tagged snapshot.
\<close>

section \<open>Headers\<close>

lemma get_all_insert [simp]:
  "get_all m (insert_header n v hs) = (if m = n then [v] else get_all m hs)"
  by (auto simp: get_all_def insert_header_def case_prod_unfold filter_empty_conv
      intro!: arg_cong [where f = "map snd"] filter_cong)

lemma get_all_Nil [simp]: "get_all m [] = []"
  by (simp add: get_all_def)

lemma get_all_Cons [simp]: "get_all m ((n, v) # hs) = (if n = m then [v] else []) @ get_all m hs"
  by (simp add: get_all_def)

lemma get_all_default [simp]:
  "get_all m (rp_headers (default_cache_policy r)) = (if m = ''cache-control'' \<and> get_all m (rp_headers r) = []
     then [NO_STORE] else get_all m (rp_headers r))"
  by (auto simp: default_cache_policy_def entry_or_insert_def get_all_def)

lemma default_cache_policy_frame [simp]:
  "rp_status (default_cache_policy r) = rp_status r" "rp_body (default_cache_policy r) = rp_body r"
  by (simp_all add: default_cache_policy_def)

lemma json_reply_parts [simp]:
  "rp_status (json_reply status extra body) = status" "rp_body (json_reply status extra body) = body"
  "rp_headers (json_reply status [] body) = [(''content-type'', ''application/json'')]"
  "rp_headers (json_reply status [(n, v)] body) = insert_header n v [(''content-type'', ''application/json'')]"
  by (simp_all add: json_reply_def)

lemma error_response_parts [simp]:
  "rp_status (error_response e) = ae_status e" "rp_body (error_response e) = ErrorBody (ae_message e)"
  "get_all m (rp_headers (error_response e)) = (if m = ''cache-control'' then [NO_STORE]
     else if m = ''content-type'' then [''application/json''] else [])"
  by (simp_all add: error_response_def)

section \<open>Lists of tags\<close>

lemma split_at_not_Nil [simp]: "split_at c s \<noteq> []"
  by (induction c s rule: split_at.induct) (auto split: list.splits)

lemma split_at_free: "c \<notin> set s \<Longrightarrow> split_at c s = [s]"
  by (induction c s rule: split_at.induct) auto

lemma split_at_append: "c \<notin> set s \<Longrightarrow> split_at c (s @ c # t) = s # split_at c t"
  by (induction s) auto

text \<open>A tag in a header, or the star: printable, without blanks and commas.\<close>

definition tag_char :: "char \<Rightarrow> bool" where
  "tag_char c \<longleftrightarrow> (let n = of_char c :: nat in 33 \<le> n \<and> n < 127 \<and> n \<noteq> 44)"

definition tag_text :: "string \<Rightarrow> bool" where
  "tag_text t \<longleftrightarrow> t \<noteq> [] \<and> list_all tag_char t"

text \<open>How a client writes a list of tags.\<close>

fun tag_list :: "string list \<Rightarrow> string" where
  "tag_list [] = []"
| "tag_list [t] = t"
| "tag_list (t # ts) = t @ '', '' @ tag_list ts"

lemma tag_char_visible: "tag_char c \<Longrightarrow> visible_ascii c"
  by (auto simp: tag_char_def visible_ascii_def Let_def)

lemma tag_no_comma: "tag_text t \<Longrightarrow> CHR '','' \<notin> set t"
  by (auto simp: tag_text_def list_all_iff tag_char_def Let_def)

lemma split_tag_list:
  "list_all tag_text ts \<Longrightarrow> ts \<noteq> [] \<Longrightarrow> split_at CHR '','' (tag_list ts) = hd ts # map ((#) CHR '' '') (tl ts)"
proof (induction ts rule: tag_list.induct)
  case (3 t u ts)
  have c: "CHR '','' \<notin> set t" using 3(2) tag_no_comma by simp
  have "split_at CHR '','' (tag_list (t # u # ts)) = t # split_at CHR '','' (CHR '' '' # tag_list (u # ts))"
    using split_at_append [OF c, of "CHR '' '' # tag_list (u # ts)"] by simp
  then show ?case using 3 by simp
qed (simp_all add: split_at_free tag_no_comma)

lemma white_space_heads: "w \<in> set white_space \<Longrightarrow> w \<noteq> [] \<and> \<not> tag_char (hd w) \<and> \<not> tag_char (last w)"
proof -
  have "\<forall>w \<in> set white_space. w \<noteq> [] \<and> \<not> tag_char (hd w) \<and> \<not> tag_char (last w)"
    by (simp add: white_space_def upt_rec tag_char_def)
  then show "w \<in> set white_space \<Longrightarrow> w \<noteq> [] \<and> \<not> tag_char (hd w) \<and> \<not> tag_char (last w)" by blast
qed

lemma drop_leading_tag:
  assumes "\<forall>w \<in> set ws. w \<noteq> [] \<longrightarrow> \<not> tag_char (hd w)" and "s \<noteq> []" "tag_char (hd s)"
  shows "drop_leading ws s = s"
proof -
  have "take (length w) s \<noteq> w" if "w \<in> set ws" "w \<noteq> []" for w
    using assms that by (cases s; cases w) auto
  then have "find (\<lambda>w. w \<noteq> [] \<and> take (length w) s = w) ws = None" by (auto simp: find_None_iff)
  then show ?thesis by (simp add: drop_leading.simps [of ws])
qed

lemma drop_leading_space: "drop_leading white_space (CHR '' '' # s) = drop_leading white_space s"
proof -
  let ?P = "\<lambda>w. w \<noteq> [] \<and> take (length w) (CHR '' '' # s) = w"
  have blank: "CHR '' '' = char_of (32 :: nat)" by code_simp
  have only: "\<forall>w \<in> set white_space. of_char (hd w) = (32 :: nat) \<longrightarrow> w = '' ''" and "'' '' \<in> set white_space"
    unfolding blank by (simp_all add: white_space_def upt_rec)
  then obtain w where w: "find ?P white_space = Some w"
    by (cases "find ?P white_space") (force simp: find_None_iff)+
  then have f: "w \<in> set white_space" "w \<noteq> []" "take (length w) (CHR '' '' # s) = w" by (auto simp: find_Some_iff)
  then obtain c v where "w = c # v" by (meson list.exhaust)
  then have "hd w = CHR '' ''" using f(3) by simp
  then have "find ?P white_space = Some '' ''" using only w f(1) by simp
  then show ?thesis by (simp add: drop_leading.simps [of white_space "CHR '' '' # s"])
qed

lemma trim_tag:
  assumes "tag_text t"
  shows "trim t = t" "trim (CHR '' '' # t) = t"
proof -
  have t: "t \<noteq> []" "tag_char (hd t)" "tag_char (last t)" using assms by (auto simp: tag_text_def list_all_iff)
  have "trim_start t = t" unfolding trim_start_def
    using t white_space_heads by (intro drop_leading_tag) auto
  moreover have "trim_end t = t" unfolding trim_end_def
    using t white_space_heads by (subst drop_leading_tag) (auto simp: hd_rev)
  ultimately show "trim t = t" "trim (CHR '' '' # t) = t"
    by (simp_all add: trim_def trim_start_def drop_leading_space)
qed

lemma bex_eq_or: "(\<exists>t \<in> A. t = x \<or> f t = y) \<longleftrightarrow> x \<in> A \<or> y \<in> f ` A"
  by (auto simp: image_iff)

lemma listed_tags:
  assumes "ts \<noteq> []" "list_all tag_text ts"
  shows "if_none_match_matches [(''if-none-match'', tag_list ts)] etag \<longleftrightarrow>
    ''*'' \<in> set ts \<or> weak_etag etag \<in> weak_etag ` set ts"
proof -
  have "visible_ascii CHR '' ''" "visible_ascii CHR '',''" by (simp_all add: visible_ascii_def)
  then have "list_all visible_ascii (tag_list ts)"
    using assms by (induction ts rule: tag_list.induct) (auto simp: tag_text_def list_all_iff tag_char_visible)
  moreover have "map trim (split_at CHR '','' (tag_list ts)) = ts"
    using assms by (cases ts) (auto simp: split_tag_list trim_tag list_all_iff intro!: map_idI)
  ultimately have "if_none_match_matches [(''if-none-match'', tag_list ts)] etag \<longleftrightarrow>
      (\<exists>t \<in> set ts. t = ''*'' \<or> weak_etag t = weak_etag etag)"
    by (simp add: if_none_match_matches_def to_str_def list_ex_iff map_filter_def)
  then show ?thesis by (simp only: bex_eq_or)
qed

text \<open>
  C39: A client that lists tags gets its condition understood: the header it writes matches exactly when it lists the star or
  a tag that is weakly the current one.
\<close>

theorem listed_tags_are_recognised:
  assumes "ts \<noteq> []" "list_all tag_text ts"
  shows "if_none_match_matches [(''if-none-match'', tag_list ts)] etag \<longleftrightarrow>
    ''*'' \<in> set ts \<or> weak_etag etag \<in> weak_etag ` set ts"
  by (rule listed_tags [OF assms])

section \<open>What a reader finds\<close>

lemma update_source_publishers:
  "so_publisher (f (at_source a i)) = so_publisher (at_source a i) \<Longrightarrow>
   map so_publisher (at_sources (update_source i f a)) = map so_publisher (at_sources a)"
  by (cases "i < length (at_sources a)")
    (simp_all add: update_source_def at_source_def map_update list_update_same_conv list_update_beyond)

lemma atlas_step_publishers: "atlas_step encode w a a' \<Longrightarrow> source_runtimes a' = source_runtimes a"
proof (induction rule: atlas_step.induct)
  case (poll_snapshot a i outs node joins started completed cell out source)
  then have "so_publisher source = so_publisher (at_source a i)"
    by (auto simp: poll_source_def split: prod.splits sum.splits)
  then show ?case by (simp add: source_runtimes_def update_source_publishers)
qed (auto simp: source_runtimes_def update_source_publishers publication_done_def
    schedule_classification_def slice_done_def split: poll_outcome.splits sum.splits bool.splits)

lemma atlas_reaches_publishers: "atlas_reaches encode w a0 n a \<Longrightarrow> source_runtimes a = source_runtimes a0"
  by (induction rule: atlas_reaches.induct) (auto dest: atlas_step_publishers)

text \<open>The states an API over this scheduler can read.\<close>

definition served :: "(snapshot_response \<Rightarrow> bytes option) \<Rightarrow> (string, publisher) btree \<Rightarrow> atlas \<Rightarrow> bool" where
  "served encode registry a \<longleftrightarrow> (\<exists>sources interval w a0 n. atlas_new sources interval = Inr a0 \<and>
     (\<forall>s \<in> set sources. fresh_source s) \<and> (\<forall>x. encode x \<noteq> None) \<and> sane_world w \<and>
     atlas_reaches encode w a0 n a \<and> n \<le> 2 ^ 53 \<and> registry_new (source_runtimes a0) = Inr registry)"

lemma fresh_source_id: "fresh_source s \<Longrightarrow> validate_source_id (pb_source_id (so_publisher s)) = Inr ()"
  by (auto simp: fresh_source_def source_runtime_new_def atlas_source_new_def ok_then_Inr_iff
      split: if_splits elim!: map_error.elims)

lemma served_source:
  assumes "served encode registry a" and "s \<in> set (at_sources a)"
  shows "current_ok (so_publisher s) (so_state s)" "response_ok encode (so_publisher s) (so_state s)"
    "validate_source_id (pb_source_id (so_publisher s)) = Inr ()"
    "registry_get registry (pb_source_id (so_publisher s)) = Some (so_publisher s)"
    "read_state a (so_publisher s) = so_state s"
proof -
  obtain sources interval w a0 n where r: "atlas_new sources interval = Inr a0" "\<forall>s \<in> set sources. fresh_source s"
      "\<forall>x. encode x \<noteq> None" "sane_world w" "atlas_reaches encode w a0 n a" "n \<le> 2 ^ 53"
      "registry_new (source_runtimes a0) = Inr registry"
    using assms(1) unfolding served_def by blast
  have same: "source_runtimes a = source_runtimes a0" by (rule atlas_reaches_publishers [OF r(5)])
  obtain i where i: "i < length (at_sources a)" "s = at_source a i"
    using assms(2) by (auto simp: in_set_conv_nth at_source_def)
  have "view_ok encode w n (view a i)"
    using atlas_reaches_inv [OF r(5,3,4) atlas_new_inv [OF r(1,2)] r(6)] i(1) by (rule atlas_inv_view)
  then have "publishing_inv encode n s (poll_task_of (at_poll a) i) (class_task_of (at_class a) i)"
    by (simp add: view_ok_def view_def i(2))
  then show "current_ok (so_publisher s) (so_state s)" "response_ok encode (so_publisher s) (so_state s)"
    by (auto simp: publishing_inv_def publisher_inv_def)
  have "at_sources a0 = sources" using r(1) by (auto simp: atlas_new_def ok_then_Inr_iff split: if_splits)
  then have "so_publisher s \<in> so_publisher ` set sources"
    using assms(2) same unfolding source_runtimes_def by (metis image_eqI list.set_map)
  then show "validate_source_id (pb_source_id (so_publisher s)) = Inr ()" using r(2) fresh_source_id by fastforce
  have reg: "distinct (map pb_source_id (source_runtimes a))"
    "registry_get registry k = find (\<lambda>p. pb_source_id p = k) (source_runtimes a)" for k
    using registry_new_Inr [OF r(7)] by (simp_all add: same)
  show "registry_get registry (pb_source_id (so_publisher s)) = Some (so_publisher s)"
    using reg assms(2) by (simp add: find_by_key source_runtimes_def)
  have "distinct (map so_publisher (at_sources a))"
    using distinct_map [of pb_source_id "map so_publisher (at_sources a)"] reg(1) by (simp add: source_runtimes_def)
  then show "read_state a (so_publisher s) = so_state s"
    using assms(2) by (simp add: read_state_def find_by_key)
qed

lemma served_unknown:
  assumes "served encode registry a" and "\<forall>s \<in> set (at_sources a). pb_source_id (so_publisher s) \<noteq> sid"
  shows "registry_get registry sid = None"
proof -
  obtain w a0 n where r: "atlas_reaches encode w a0 n a" "registry_new (source_runtimes a0) = Inr registry"
    using assms(1) unfolding served_def by blast
  then have "registry_get registry sid = find (\<lambda>p. pb_source_id p = sid) (source_runtimes a)"
    using registry_new_Inr [OF r(2)] by (simp add: atlas_reaches_publishers [OF r(1)])
  then show ?thesis using assms(2) by (auto simp: source_runtimes_def find_None_iff)
qed

section \<open>Snapshots\<close>

lemma id_char: "is_ascii_alphanumeric c \<or> c \<in> {CHR ''.'', CHR ''_'', CHR ''-''} \<Longrightarrow> tag_char c"
proof -
  assume a: "is_ascii_alphanumeric c \<or> c \<in> {CHR ''.'', CHR ''_'', CHR ''-''}"
  have "tag_char (CHR ''.'')" "tag_char (CHR ''_'')" "tag_char (CHR ''-'')" by (simp_all add: tag_char_def)
  with a show ?thesis by (auto simp: is_ascii_alphanumeric_def tag_char_def byte_of_def Let_def)
qed

lemma etag_text:
  assumes "validate_source_id (pb_source_id pb) = Inr ()"
  shows "tag_text (etag_of pb r snap)"
proof -
  have "list_all tag_char (pb_source_id pb)"
    using assms id_char by (auto simp: validate_source_id_def list_all_iff split: if_splits)
  moreover have "list_all tag_char (decimal k)" for k
  proof -
    have "tag_char (char_of m)" if "m \<in> {48..57 :: nat}" for m using that by (simp add: tag_char_def)
    then show ?thesis using decimal_digits [of k] by (auto simp: list_all_iff)
  qed
  moreover have "tag_char (CHR ''W'')" "tag_char (CHR ''/'')" "tag_char (CHR 0x22)" "tag_char (CHR ''-'')"
    by (simp_all add: tag_char_def)
  ultimately show ?thesis by (simp add: tag_text_def etag_of_def)
qed

lemma tag_text_value: "tag_text t \<Longrightarrow> header_value_from_str t = Some t"
  by (auto simp: header_value_from_str_def tag_text_def list_all_iff tag_char_visible)

text \<open>What a snapshot handler makes of the payload it reads.\<close>

definition snapshot_reply :: "headers \<Rightarrow> cached_response \<Rightarrow> reply \<Rightarrow> bool" where
  "snapshot_reply hs c r \<longleftrightarrow> (case cr_etag c of
     None \<Rightarrow> rp_status r = 200 \<and> rp_body r = RawBody (cr_body c) \<and> get_all ''etag'' (rp_headers r) = [] \<and>
       get_all ''cache-control'' (rp_headers r) = [NO_STORE]
   | Some tag \<Rightarrow> get_all ''etag'' (rp_headers r) = [tag] \<and>
       get_all ''cache-control'' (rp_headers r) = [SNAPSHOT_CACHE_CONTROL] \<and>
       (if if_none_match_matches hs tag then rp_status r = 304 \<and> rp_body r = NoBody
        else rp_status r = 200 \<and> rp_body r = RawBody (cr_body c)))"

lemma source_snapshot_reply:
  assumes "registry_get registry sid = Some p" and "snapshot_response_payload encode p (read p) = Inr c"
    and "\<forall>tag. cr_etag c = Some tag \<longrightarrow> tag_text tag"
  shows "\<exists>r. source_snapshot encode quoted registry read sid hs = Some (Inr r) \<and> snapshot_reply hs c r"
  using assms by (cases "cr_etag c") (auto simp: source_snapshot_def snapshot_reply_def tag_text_value Let_def)

lemma served_payload:
  assumes "served encode registry a" and "s \<in> set (at_sources a)"
  shows "\<exists>c last_poll. snapshot_response_payload encode (so_publisher s) (so_state s) = Inr c \<and>
    encode \<lparr> sr_source = (summary_from_state (so_publisher s) (so_state s))\<lparr>ss_last_poll := last_poll\<rparr>,
      sr_snapshot = st_latest (so_state s) \<rparr> = Some (cr_body c) \<and>
    cr_etag c = map_option (etag_of (so_publisher s) (st_response_revision (so_state s))) (st_latest (so_state s))"
proof -
  let ?p = "so_publisher s" and ?st = "so_state s"
  note ok = served_source [OF assms]
  have sum: "(summary_from_state ?p ?st)\<lparr>ss_last_poll := l\<rparr> =
      summary_from_parts ?p l (st_latest ?st) (st_lifecycle ?st) (st_last_error ?st)" for l
    by (simp add: summary_from_state_def summary_from_parts_def Let_def)
  show ?thesis
  proof (cases "st_cached ?st")
    case None
    then have none: "st_latest ?st = None" using ok(1,2) by (simp add: response_ok_def current_ok_def)
    obtain body where b: "encode (snapshot_response_of ?p ?st) = Some body"
      using assms(1) unfolding served_def by (metis option.exhaust)
    then show ?thesis using None none sum [of "st_last_poll ?st"]
      by (auto simp: snapshot_response_payload_def snapshot_response_of_def summary_from_state_def
          intro!: exI [of _ "st_last_poll ?st"])
  next
    case (Some c)
    then show ?thesis using ok(2) unfolding sum
      by (auto simp: response_ok_def response_bytes_def snapshot_response_payload_def)
  qed
qed

text \<open>
  C7: While the scheduler runs, with an encoder that does not fail and a node that serves no stray null input, a
  request for a source's snapshot never fails or panics. Before the first snapshot the reply
  is not reusable; afterwards it carries the tag of the published snapshot, and its body encodes
  exactly the published snapshot, lifecycle and error, unless the request's condition spares it.
\<close>

theorem snapshot_reply_is_published:
  assumes "served encode registry a" and "s \<in> set (at_sources a)"
  shows "\<exists>r body last_poll.
    source_snapshot encode quoted registry (read_state a) (pb_source_id (so_publisher s)) hs = Some (Inr r) \<and>
    encode \<lparr> sr_source = (summary_from_state (so_publisher s) (so_state s))\<lparr>ss_last_poll := last_poll\<rparr>,
      sr_snapshot = st_latest (so_state s) \<rparr> = Some body \<and>
    (case st_latest (so_state s) of
       None \<Rightarrow> rp_status r = 200 \<and> rp_body r = RawBody body \<and> get_all ''etag'' (rp_headers r) = [] \<and>
         get_all ''cache-control'' (rp_headers r) = [''no-store'']
     | Some snap \<Rightarrow> get_all ''etag'' (rp_headers r) =
           [etag_of (so_publisher s) (st_response_revision (so_state s)) snap] \<and>
         get_all ''cache-control'' (rp_headers r) = [''public, no-cache, must-revalidate''] \<and>
         (if if_none_match_matches hs (etag_of (so_publisher s) (st_response_revision (so_state s)) snap)
          then rp_status r = 304 \<and> rp_body r = NoBody else rp_status r = 200 \<and> rp_body r = RawBody body))"
proof -
  note src = served_source [OF assms]
  obtain c last_poll where c: "snapshot_response_payload encode (so_publisher s) (so_state s) = Inr c"
      "encode \<lparr> sr_source = (summary_from_state (so_publisher s) (so_state s))\<lparr>ss_last_poll := last_poll\<rparr>,
        sr_snapshot = st_latest (so_state s) \<rparr> = Some (cr_body c)"
      "cr_etag c = map_option (etag_of (so_publisher s) (st_response_revision (so_state s))) (st_latest (so_state s))"
    using served_payload [OF assms] by blast
  have "\<forall>tag. cr_etag c = Some tag \<longrightarrow> tag_text tag" using c(3) etag_text [OF src(3)] by auto
  then obtain r where "source_snapshot encode quoted registry (read_state a) (pb_source_id (so_publisher s)) hs = Some (Inr r)"
      "snapshot_reply hs c r"
    using source_snapshot_reply [where read = "read_state a", OF src(4)] c(1) src(5) by metis
  then show ?thesis using c(2,3)
    by (intro exI [of _ r] exI [of _ "cr_body c"] exI [of _ last_poll])
      (auto simp: snapshot_reply_def NO_STORE_def SNAPSHOT_CACHE_CONTROL_def split: option.splits)
qed

text \<open>
  C12: A conditional request is sound: a client that holds a body under a tag and repeats the tag, however many
  operations of the publisher have run since, is answered without a body exactly when the tag is still the
  current one, and then the body it holds is the one now published.
\<close>

theorem revalidation_is_sound:
  assumes "publisher_runs encode pb k (st, ts)" and "publisher_reaches encode pb (st, ts) n (st', ts')"
    and "k + n < 2 ^ 64" and "validate_source_id (pb_source_id pb) = Inr ()"
    and "snapshot_response_payload encode pb st = Inr c" and "snapshot_response_payload encode pb st' = Inr c'"
    and "cr_etag c = Some tag" and "registry_get registry (pb_source_id pb) = Some pb" and "st_cached st' \<noteq> None"
  shows "\<exists>r. source_snapshot encode quoted registry (\<lambda>_. st') (pb_source_id pb) [(''if-none-match'', tag)] = Some (Inr r) \<and>
    (rp_status r = 304 \<longleftrightarrow> cr_etag c' = Some tag) \<and> (rp_status r = 304 \<longrightarrow> rp_body r = NoBody \<and> cr_body c = cr_body c')"
proof -
  have cached: "st_cached st = Some c" "st_cached st' = Some c'"
    using assms(5,6,7,9) by (auto simp: snapshot_response_payload_def split: option.splits)
  have "response_ok encode pb st" "response_ok encode pb st'"
    using runs_current_ok(2) [OF assms(1)] runs_current_ok(2) [OF reaches_trans [OF assms(2,1)]] assms(3) by simp_all
  then have made: "\<exists>snap. tag = etag_of pb (st_response_revision st) snap"
      "cr_etag c' = Some t \<Longrightarrow> \<exists>snap. t = etag_of pb (st_response_revision st') snap" for t
    using response_ok_tag cached assms(7) by blast+
  have "tag_text (etag_of pb v snap) \<and> take 2 (etag_of pb v snap) = ''W/''" for v snap
    using etag_text [OF assms(4)] by (simp add: etag_of_def)
  then have tags: "tag_text tag" "take 2 tag = ''W/''" "cr_etag c' = Some t \<Longrightarrow> tag_text t \<and> take 2 t = ''W/''" for t
    using made by auto
  have weak: "weak_etag t = weak_etag tag \<longleftrightarrow> t = tag" if "cr_etag c' = Some t" for t
    using tags(3) [OF that] tags(2) by (auto simp: weak_etag_def) (metis append_take_drop_id)
  have star: "''*'' \<noteq> tag" using tags(2) by auto
  have matches: "if_none_match_matches [(''if-none-match'', tag)] t \<longleftrightarrow> t = tag" if "cr_etag c' = Some t" for t
    using listed_tags [of "[tag]" t] tags(1) weak [OF that] star by auto
  obtain r where r: "source_snapshot encode quoted registry (\<lambda>_. st') (pb_source_id pb) [(''if-none-match'', tag)] = Some (Inr r)"
      "snapshot_reply [(''if-none-match'', tag)] c' r"
    using source_snapshot_reply [OF assms(8), of encode "\<lambda>_. st'" c'] assms(6) tags(3) by blast
  have "rp_status r = 304 \<longleftrightarrow> cr_etag c' = Some tag" "rp_status r = 304 \<longrightarrow> rp_body r = NoBody"
    using r(2) matches by (auto simp: snapshot_reply_def split: option.splits if_splits)
  moreover have "cr_body c = cr_body c'" if "cr_etag c' = Some tag"
    using etag_identifies [OF assms(1,2,3) cached assms(7) that] by simp
  ultimately show ?thesis using r(1) by blast
qed

section \<open>Details\<close>

text \<open>What a found source makes of a canonical id.\<close>

definition detail_result :: "(string \<Rightarrow> string) \<Rightarrow> string \<Rightarrow> transaction_lookup \<Rightarrow> api_error + reply" where
  "detail_result quoted canonical found = (case found of
     LookupReady detail \<Rightarrow> Inr (json_reply 200 [(''cache-control'', NO_STORE)] (DetailBody detail))
   | WaitingForSnapshot \<Rightarrow> Inl snapshot_not_ready
   | NotPresent \<Rightarrow> Inl (transaction_not_present quoted canonical)
   | Unclassified \<Rightarrow> Inl (transaction_unclassified quoted canonical))"

text \<open>A reply that carries nothing but an error message.\<close>

definition refusal :: "reply \<Rightarrow> nat \<Rightarrow> string \<Rightarrow> bool" where
  "refusal r status message \<longleftrightarrow> rp_status r = status \<and> rp_body r = ErrorBody message"

lemma refusal_error [simp]: "refusal (error_response e) status message \<longleftrightarrow> ae_status e = status \<and> ae_message e = message"
  by (simp add: refusal_def error_response_parts)

lemma source_detail:
  fixes quoted canonical
  assumes ok: "current_ok (so_publisher s) (so_state s)"
  defines "r \<equiv> respond (detail_result quoted canonical (transaction_detail (so_publisher s) (so_state s) canonical))"
  shows "case st_latest (so_state s) of
        None \<Rightarrow> refusal r 503 ''current snapshot is not ready''
      | Some latest \<Rightarrow> if canonical \<notin> me_txid ` set (transactions latest)
          then refusal r 404 (''transaction '' @ quoted canonical @ '' is not in the current snapshot'')
          else \<exists>e \<in> set (transactions latest). me_txid e = canonical \<and>
            (if unattached e
             then refusal r 503 (''transaction '' @ quoted canonical @
               '' is present but has no policy assessment in the current snapshot'')
             else rp_status r = 200 \<and> (\<exists>d. rp_body r = DetailBody d \<and> td_txid d = canonical \<and>
               td_wtxid d = me_wtxid e \<and> map compact (td_classifications d) = classifications e \<and>
               Some (td_assessment d) = me_bip110 e \<and> td_revision d = classification_revision latest))"
proof (cases "st_latest (so_state s)")
  case None
  then have "transaction_detail (so_publisher s) (so_state s) canonical = WaitingForSnapshot"
    by (simp add: transaction_detail_def)
  with None show ?thesis by (simp add: r_def detail_result_def snapshot_not_ready_def)
next
  case (Some latest)
  note detail = detail_of_latest [OF ok Some, of canonical]
  show ?thesis
  proof (cases "transaction_detail (so_publisher s) (so_state s) canonical")
    case (LookupReady d)
    then obtain e where e: "e \<in> set (transactions latest)" "me_txid e = canonical" "me_wtxid e = td_wtxid d"
        "classifications e = map compact (td_classifications d)" "me_bip110 e = Some (td_assessment d)"
        "td_txid d = canonical" "td_revision d = classification_revision latest"
      using detail by auto
    then have "\<not> unattached e" "canonical \<in> me_txid ` set (transactions latest)" by (auto simp: unattached_def)
    then show ?thesis using Some LookupReady e by (auto simp: r_def detail_result_def intro!: bexI [of _ e])
  next
    case Unclassified
    then have known: "canonical \<in> me_txid ` set (transactions latest)" using detail by auto
    then obtain e where "e \<in> set (transactions latest)" "me_txid e = canonical" "unattached e"
      using detail Unclassified by (auto simp: list_all_iff)
    then show ?thesis using known Some Unclassified
      by (auto simp: r_def detail_result_def transaction_unclassified_def intro!: bexI [of _ e])
  qed (use detail Some in \<open>simp_all add: r_def detail_result_def transaction_not_present_def\<close>)
qed

text \<open>
  C16: The detail of a transaction, in every state the scheduler reaches with an encoder that does not fail and a node that
  serves no stray null input: each of the five refusals has its own status and message. A malformed id
  is a bad request that repeats the text given; an unknown source and a transaction outside the published snapshot are
  not found; a missing snapshot and a missing record are temporary. Otherwise the
  reply is the record the snapshot shows for the transaction's witness variant, at the snapshot's revision.
\<close>

theorem detail_reply_is_exact:
  assumes "served encode registry a"
  shows "case respond (transaction_detail_handler quoted parse registry (read_state a) sid txid) of r \<Rightarrow>
    (case parse txid of
       None \<Rightarrow> refusal r 400 (''invalid transaction ID '' @ quoted txid)
     | Some canonical \<Rightarrow>
         if sid \<notin> pb_source_id ` set (source_runtimes a) then refusal r 404 (''unknown source '' @ quoted sid)
         else \<exists>s \<in> set (at_sources a). pb_source_id (so_publisher s) = sid \<and> (case st_latest (so_state s) of
             None \<Rightarrow> refusal r 503 ''current snapshot is not ready''
           | Some latest \<Rightarrow>
               if canonical \<notin> me_txid ` set (transactions latest)
               then refusal r 404 (''transaction '' @ quoted canonical @ '' is not in the current snapshot'')
               else \<exists>e \<in> set (transactions latest). me_txid e = canonical \<and>
                 (if unattached e
                  then refusal r 503 (''transaction '' @ quoted canonical @
                    '' is present but has no policy assessment in the current snapshot'')
                  else rp_status r = 200 \<and> (\<exists>d. rp_body r = DetailBody d \<and> td_txid d = canonical \<and>
                    td_wtxid d = me_wtxid e \<and> map compact (td_classifications d) = classifications e \<and>
                    Some (td_assessment d) = me_bip110 e \<and> td_revision d = classification_revision latest))))"
proof (cases "parse txid")
  case None
  then show ?thesis by (simp add: transaction_detail_handler_def invalid_txid_def)
next
  let ?r = "respond (transaction_detail_handler quoted parse registry (read_state a) sid txid)"
  case parsed: (Some canonical)
  show ?thesis
  proof (cases "sid \<in> pb_source_id ` set (source_runtimes a)")
    case False
    then have "registry_get registry sid = None"
      by (intro served_unknown [OF assms]) (auto simp: source_runtimes_def)
    with parsed False show ?thesis by (simp add: transaction_detail_handler_def source_not_found_def)
  next
    case True
    then obtain s where s: "s \<in> set (at_sources a)" "pb_source_id (so_publisher s) = sid"
      by (auto simp: source_runtimes_def)
    note src = served_source [OF assms s(1)]
    have handler: "transaction_detail_handler quoted parse registry (read_state a) sid txid =
        detail_result quoted canonical (transaction_detail (so_publisher s) (so_state s) canonical)"
      using src(4,5) s(2) by (simp add: transaction_detail_handler_def parsed detail_result_def)
    note source_detail [OF src(1), of quoted canonical]
    then show ?thesis using s True by (simp only: parsed handler option.case not_True_eq_False if_False) blast
  qed
qed

section \<open>Caching\<close>

lemma source_snapshot_Inr:
  assumes "source_snapshot encode quoted registry read sid hs = Some (Inr r)"
  shows "\<exists>c. snapshot_reply hs c r"
proof -
  obtain p c where p: "registry_get registry sid = Some p" "snapshot_response_payload encode p (read p) = Inr c"
    using assms by (auto simp: source_snapshot_def split: option.splits sum.splits)
  have "z = tag" if "header_value_from_str tag = Some z" for tag z
    using that by (simp add: header_value_from_str_def split: if_splits)
  then have "snapshot_reply hs c r"
    using assms p by (cases "cr_etag c") (auto simp: source_snapshot_def snapshot_reply_def Let_def)
  then show ?thesis ..
qed

lemma detail_reply_headers:
  "\<exists>r. respond (transaction_detail_handler quoted parse registry read sid txid) = r \<and>
     get_all ''cache-control'' (rp_headers r) = [NO_STORE] \<and> get_all ''etag'' (rp_headers r) = []"
proof -
  have "\<exists>body. transaction_detail_handler quoted parse registry read sid txid = Inr (json_reply 200 [(''cache-control'', NO_STORE)] body)"
    if "transaction_detail_handler quoted parse registry read sid txid = Inr y" for y
    using that by (auto simp: transaction_detail_handler_def split: option.splits transaction_lookup.splits)
  then show ?thesis by (cases "transaction_detail_handler quoted parse registry read sid txid") force+
qed

text \<open>
  C18: No reply of the API may be reused except a snapshot under its tag: every other routed reply, errors
  included, is \<open>no-store\<close> and untagged.
\<close>

theorem only_tagged_snapshots_are_reusable:
  assumes "router env registry read hs route = Some r" and "\<forall>x. route \<noteq> Fallback x"
  shows "get_all ''cache-control'' (rp_headers r) = [''no-store''] \<and> get_all ''etag'' (rp_headers r) = [] \<or>
    (\<exists>sid tag. route = SourceMempool sid \<and> (rp_status r = 200 \<or> rp_status r = 304) \<and>
      get_all ''etag'' (rp_headers r) = [tag] \<and>
      get_all ''cache-control'' (rp_headers r) = [''public, no-cache, must-revalidate''])"
proof (cases route)
  case (SourceMempool sid)
  obtain x where x: "source_snapshot (av_encode env) (av_quoted env) registry read sid hs = Some x"
      "r = default_cache_policy (respond x)"
    using assms(1) SourceMempool by (auto simp: router_def)
  show ?thesis
  proof (cases x)
    case (Inl e)
    then show ?thesis using x(2) by (simp add: NO_STORE_def)
  next
    case (Inr y)
    then obtain c where "snapshot_reply hs c y" using source_snapshot_Inr x(1) by blast
    then show ?thesis using x(2) Inr SourceMempool
      by (cases "cr_etag c") (auto simp: snapshot_reply_def NO_STORE_def SNAPSHOT_CACHE_CONTROL_def split: if_splits)
  qed
next
  case (SourceTransaction sid txid)
  then have "r = default_cache_policy (respond
      (transaction_detail_handler (av_quoted env) (av_txid env) registry read sid txid))"
    using assms(1) by (simp add: router_def)
  then show ?thesis using detail_reply_headers [of "av_quoted env" "av_txid env" registry read sid txid]
    by (simp add: NO_STORE_def)
next
  case (Fallback x)
  then show ?thesis using assms(2) by blast
next
  case Healthz
  then have "r = default_cache_policy health" using assms(1) by (simp add: router_def)
  then show ?thesis by (simp add: health_def NO_STORE_def)
next
  case Readyz
  then have "r = default_cache_policy (readiness registry read)" using assms(1) by (simp add: router_def)
  then show ?thesis by (simp add: readiness_def NO_STORE_def)
next
  case Sources
  then have "r = default_cache_policy (sources_handler (av_version env) registry read)"
    using assms(1) by (simp add: router_def)
  then show ?thesis by (simp add: sources_handler_def NO_STORE_def)
qed

lemma index_values:
  "bt_ok m \<Longrightarrow> index_sources ps m = Inr m' \<Longrightarrow> snd ` set m' = snd ` set m \<union> set ps"
proof (induction ps m rule: index_sources.induct)
  case (2 p ps m)
  have new: "\<not> bt_contains m (pb_source_id p)" using 2(3) by (simp split: if_splits)
  then have rest: "index_sources ps (bt_insert (pb_source_id p) p m) = Inr m'" using 2(3) by simp
  have "bt_get m (pb_source_id p) = None" using new by (simp add: bt_contains_def)
  then have "{e \<in> set m. fst e \<noteq> pb_source_id p} = set m" by (auto dest: weak_map_of_SomeI)
  then have "set (bt_insert (pb_source_id p) p m) = insert (pb_source_id p, p) (set m)"
    by (simp only: set_bt_insert [OF 2(2)])
  then show ?case using 2(1) [OF new bt_ok_insert [OF 2(2)] rest] by simp
qed simp

lemma registry_values: "registry_new ps = Inr registry \<Longrightarrow> snd ` set registry = set ps"
  using index_values [of "[]" ps registry] by (auto simp: registry_new_def ok_then_Inr_iff bt_ok_def split: if_splits)

text \<open>The service is ready exactly when some source has a snapshot to serve.\<close>

theorem ready_iff_some_snapshot:
  assumes "served encode registry a"
  shows "rp_status (readiness registry (read_state a)) = (if list_ex (\<lambda>s. st_latest (so_state s) \<noteq> None) (at_sources a)
    then 200 else 503)"
proof -
  have ready: "is_ready reg read \<longleftrightarrow> (\<exists>(k, p) \<in> set reg. st_latest (read p) \<noteq> None)" for reg read
    by (induction reg read rule: is_ready.induct) (auto simp: summary_from_state_def summary_from_parts_def Let_def)
  obtain w a0 n where r: "atlas_reaches encode w a0 n a" "registry_new (source_runtimes a0) = Inr registry"
    using assms unfolding served_def by blast
  have "snd ` set registry = set (source_runtimes a)"
    using registry_values [OF r(2)] atlas_reaches_publishers [OF r(1)] by simp
  then have "is_ready registry read \<longleftrightarrow> (\<exists>p \<in> set (source_runtimes a). st_latest (read p) \<noteq> None)" for read
    unfolding ready by force
  then have "is_ready registry (read_state a) \<longleftrightarrow> list_ex (\<lambda>s. st_latest (so_state s) \<noteq> None) (at_sources a)"
    using served_source(5) [OF assms] by (auto simp: source_runtimes_def list_ex_iff)
  then show ?thesis by (simp add: readiness_def)
qed

section \<open>Witnesses\<close>

definition example_env :: api_env where
  "example_env = \<lparr> av_version = ''0.1.0'', av_encode = (\<lambda>_. Some []), av_quoted = id, av_txid = Some \<rparr>"

abbreviation "example_pb \<equiv> so_publisher example_source"

lemma example_registry: "registry_new (source_runtimes example_atlas) = Inr [(''core'', example_pb)]"
  by (simp add: registry_new_def source_runtimes_def example_atlas_def MAX_CONFIGURED_SOURCES_def example_source_def
      atlas_source_new_def bt_contains_def bt_insert_def)

lemma example_served:
  "\<exists>a s. served (\<lambda>_. Some []) [(''core'', example_pb)] a \<and> s \<in> set (at_sources a) \<and> so_publisher s = example_pb"
proof -
  obtain a where a: "atlas_reaches (\<lambda>_. Some []) example_world example_atlas 8 a" "length (at_sources a) = 1"
    using example_membership_round by blast
  have "(8 :: nat) \<le> 2 ^ 53" "\<forall>x :: snapshot_response. Some ([] :: bytes) \<noteq> None" by simp_all
  then have "served (\<lambda>_. Some []) [(''core'', example_pb)] a"
    unfolding served_def using example_atlas_new example_fresh example_sane a(1) example_registry by blast
  moreover obtain s where "at_sources a = [s]" using a(2) by (auto simp: length_Suc_conv)
  moreover have "source_runtimes a = [example_pb]"
    using atlas_reaches_publishers [OF a(1)] by (simp add: source_runtimes_def example_atlas_def)
  ultimately show ?thesis by (auto simp: source_runtimes_def)
qed

theorem listed_tags_are_recognised_witness:
  "if_none_match_matches [(''if-none-match'', ''W/a, b'')] ''W/b''"
proof -
  have t: "list_all tag_text [''W/a'', ''b'']" by (simp add: tag_text_def tag_char_def)
  show ?thesis using listed_tags_are_recognised [OF _ t, of "''W/b''"] by (simp add: weak_etag_def)
qed

theorem snapshot_reply_is_published_witness:
  "\<exists>a r. served (\<lambda>_. Some []) [(''core'', example_pb)] a \<and>
     source_snapshot (\<lambda>_. Some []) id [(''core'', example_pb)] (read_state a) (pb_source_id example_pb) [] = Some (Inr r)"
proof -
  obtain a s where a: "served (\<lambda>_. Some []) [(''core'', example_pb)] a" "s \<in> set (at_sources a)" "so_publisher s = example_pb"
    using example_served by blast
  obtain r where "source_snapshot (\<lambda>_. Some []) id [(''core'', example_pb)] (read_state a) (pb_source_id (so_publisher s)) [] =
      Some (Inr r)"
    using snapshot_reply_is_published [OF a(1,2), of id "[]"] by (elim exE conjE) (rule that)
  then show ?thesis using a(1) unfolding a(3) by (intro exI conjI)
qed

theorem detail_reply_is_exact_witness:
  "\<exists>a. served (\<lambda>_. Some []) [(''core'', example_pb)] a \<and>
     refusal (respond (transaction_detail_handler id (\<lambda>t. if t = ''zz'' then None else Some t) [(''core'', example_pb)]
       (read_state a) ''core'' ''zz'')) 400 ''invalid transaction ID zz'' \<and>
     refusal (respond (transaction_detail_handler id (\<lambda>t. if t = ''zz'' then None else Some t) [(''core'', example_pb)]
       (read_state a) ''other'' ''aa'')) 404 ''unknown source other''"
proof -
  let ?parse = "\<lambda>t. if t = ''zz'' then None else Some t"
  obtain a s where a: "served (\<lambda>_. Some []) [(''core'', example_pb)] a" using example_served by blast
  then obtain w a0 n where r: "atlas_reaches (\<lambda>_. Some []) w a0 n a"
      "registry_new (source_runtimes a0) = Inr [(''core'', example_pb)]"
    unfolding served_def by blast
  have "set (source_runtimes a) = {example_pb}"
    using registry_values [OF r(2)] atlas_reaches_publishers [OF r(1)] by simp
  then have "''other'' \<notin> pb_source_id ` set (source_runtimes a)" by (simp add: example_source_def atlas_source_new_def)
  then show ?thesis
    using detail_reply_is_exact [OF a, of id ?parse "''core''" "''zz''"]
      detail_reply_is_exact [OF a, of id ?parse "''other''" "''aa''"] a by auto
qed

theorem only_tagged_snapshots_are_reusable_witness:
  "\<exists>r. router example_env [(''core'', example_pb)] (\<lambda>_. state_default) [] (SourceMempool ''nope'') = Some r \<and>
     get_all ''cache-control'' (rp_headers r) = [''no-store'']"
proof -
  let ?r = "default_cache_policy (error_response (source_not_found id ''nope''))"
  have r: "router example_env [(''core'', example_pb)] (\<lambda>_. state_default) [] (SourceMempool ''nope'') = Some ?r"
    by (simp add: router_def source_snapshot_def registry_get_def example_env_def)
  then show ?thesis using only_tagged_snapshots_are_reusable [OF r] by (auto simp: source_not_found_def)
qed

theorem ready_iff_some_snapshot_witness:
  "\<exists>a. served (\<lambda>_. Some []) [(''core'', example_pb)] a \<and>
     rp_status (readiness [(''core'', example_pb)] (read_state a)) \<in> {200, 503}"
proof -
  obtain a where a: "served (\<lambda>_. Some []) [(''core'', example_pb)] a" using example_served by blast
  then show ?thesis by (intro exI [of _ a]) (simp add: ready_iff_some_snapshot [OF a])
qed

theorem revalidation_is_sound_witness:
  "\<exists>st ts c tag r. publisher_runs example_encode example_publisher 4 (st, ts) \<and>
     snapshot_response_payload example_encode example_publisher st = Inr c \<and> cr_etag c = Some tag \<and>
     source_snapshot example_encode id [(''core'', example_publisher)] (\<lambda>_. record_poll_started 9 st) ''core''
       [(''if-none-match'', tag)] = Some (Inr r) \<and> rp_status r = 304"
proof -
  obtain st ts latest where r: "publisher_runs example_encode example_publisher 4 (st, ts)"
    "st_cached st = Some \<lparr> cr_body = [0x7b, 0x7d], cr_etag = Some (etag_of example_publisher 1 latest) \<rparr>"
    using example_run by (elim exE conjE) (rule that)
  let ?st = "record_poll_started 9 st" and ?c = "\<lparr> cr_body = [0x7b, 0x7d], cr_etag = Some (etag_of example_publisher 1 latest) \<rparr>"
  have p: "publisher_reaches example_encode example_publisher (st, ts) 1 (?st, ts)"
    using publisher_reaches.step [OF publisher_reaches.initial publisher_step.poll] by simp
  have c: "st_cached ?st = Some ?c" using r(2) by (simp add: record_poll_started_def)
  have pay: "snapshot_response_payload example_encode example_publisher st = Inr ?c"
      "snapshot_response_payload example_encode example_publisher ?st = Inr ?c"
    using r(2) c by (simp_all add: snapshot_response_payload_def)
  have id: "pb_source_id example_publisher = ''core''" by (simp add: example_publisher_def)
  have valid: "validate_source_id (pb_source_id example_publisher) = Inr ()" unfolding id by code_simp
  have reg: "registry_get [(''core'', example_publisher)] (pb_source_id example_publisher) = Some example_publisher"
    by (simp add: registry_get_def id)
  have "cr_etag ?c = Some (etag_of example_publisher 1 latest)" "st_cached ?st \<noteq> None" "4 + 1 < (2 :: nat) ^ 64"
    using c by simp_all
  from revalidation_is_sound [OF r(1) p this(3) valid pay this(1) reg this(2), of id]
  obtain v where "source_snapshot example_encode id [(''core'', example_publisher)] (\<lambda>_. ?st) (pb_source_id example_publisher)
      [(''if-none-match'', etag_of example_publisher 1 latest)] = Some (Inr v)" "rp_status v = 304"
    by auto
  then show ?thesis using r(1) pay(1) unfolding id
    by (intro exI [of _ st] exI [of _ ts] exI [of _ ?c] exI [of _ "etag_of example_publisher 1 latest"] exI [of _ v]) simp
qed

end
