(* ===== verification/Startup.thy ===== *)
theory Startup
  imports Api_Props
begin

text \<open>
  Start-up, \<^verbatim>\<open>src/main.rs\<close>: the configuration file, the secrets, the bind address and the division of the cache, up
  to the scheduler and the registry that are then run. The command line arrives parsed (\<^verbatim>\<open>clap\<close>), the file system and
  JSON are arguments; paths are names below the credentials directory.
\<close>

section \<open>Configuration\<close>

definition MAX_SOURCE_CONFIG_BYTES :: nat where "MAX_SOURCE_CONFIG_BYTES = 64 * 1024"
definition MAX_TOTAL_CLASSIFICATION_CACHE_MIB :: nat where "MAX_TOTAL_CLASSIFICATION_CACHE_MIB = 512"

datatype ip_addr = V4 u8 u8 u8 u8 | V6 "128 word"

record cli =
  cl_bind :: ip_addr
  cl_poll_seconds :: u64
  cl_max_mempool_entries :: u64
  cl_slice_entries :: nat
  cl_rpc_lanes :: nat
  cl_total_cache_mib :: nat

record source_config =
  sc_source_id :: string
  sc_source_label :: string
  sc_rpc_url :: string
  sc_rpc_username :: string
  sc_credential :: string

datatype startup_error =
    PublicBind
  | Unreadable
  | SourcesTooLarge nat
  | MalformedSources
  | NoConfiguredSources
  | TooManyConfiguredSources nat
  | InvalidName model_error
  | ConfiguredTwice string
  | InvalidUsername
  | InvalidCredentialName string
  | EmptySecret
  | SecretLines
  | CacheTooLarge nat
  | CacheOverflow
  | SourceFailed runtime_error
  | LimitsFailed classification_error
  | ClientFailed membership_error
  | CoordinatorFailed runtime_error
  | RegistryFailed runtime_error

fun is_loopback :: "ip_addr \<Rightarrow> bool" where
  "is_loopback (V4 a b c d) = (a = 127)"
| "is_loopback (V6 address) = (address = 1)"

definition validate_bind :: "ip_addr \<Rightarrow> startup_error + unit" where
  "validate_bind address = (if \<not> is_loopback address then Inl PublicBind else Inr ())"

definition line_end :: "char \<Rightarrow> bool" where
  "line_end c \<longleftrightarrow> c = CHR 0x0d \<or> c = CHR 0x0a"

definition validate_credential_name :: "string \<Rightarrow> startup_error + unit" where
  "validate_credential_name v =
     (if v = [] \<or> v = ''.'' \<or> v = ''..'' \<or> 128 < length v \<or>
         \<not> list_all (\<lambda>c. is_ascii_alphanumeric c \<or> c \<in> {CHR ''.'', CHR ''_'', CHR ''-''}) v
      then Inl (InvalidCredentialName v) else Inr ())"

text \<open>The loop of \<^verbatim>\<open>parse_sources_file\<close>.\<close>

fun check_configs :: "string bset \<Rightarrow> source_config list \<Rightarrow> startup_error + unit" where
  "check_configs seen [] = Inr ()"
| "check_configs seen (c # cs) =
     ok_then (map_error InvalidName (validate_source_id (sc_source_id c))) (\<lambda>_.
     ok_then (map_error InvalidName (validate_source_label (sc_source_label c))) (\<lambda>_.
       if sc_source_id c \<in> set seen then Inl (ConfiguredTwice (sc_source_id c))
       else if sc_rpc_username c = [] \<or> 128 < length (sc_rpc_username c) \<or> list_ex line_end (sc_rpc_username c)
       then Inl InvalidUsername
       else ok_then (validate_credential_name (sc_credential c)) (\<lambda>_.
         check_configs (bs_insert (sc_source_id c) seen) cs)))"

definition parse_sources_file ::
    "(bytes \<Rightarrow> source_config list option) \<Rightarrow> bytes \<Rightarrow> startup_error + source_config list" where
  "parse_sources_file parse text_in = (case parse text_in of
     None \<Rightarrow> Inl MalformedSources
   | Some configs \<Rightarrow>
       if configs = [] then Inl NoConfiguredSources
       else if MAX_CONFIGURED_SOURCES < length configs then Inl (TooManyConfiguredSources (length configs))
       else ok_then (check_configs [] configs) (\<lambda>_. Inr configs))"

definition read_sources_file ::
    "(bytes \<Rightarrow> source_config list option) \<Rightarrow> bytes option \<Rightarrow> startup_error + source_config list" where
  "read_sources_file parse file = (case file of
     None \<Rightarrow> Inl Unreadable
   | Some text_in \<Rightarrow>
       if MAX_SOURCE_CONFIG_BYTES < length text_in then Inl (SourcesTooLarge (length text_in))
       else parse_sources_file parse text_in)"

text \<open>The loop that pops line ends, and the secret that is left.\<close>

function pop_line_ends :: "string \<Rightarrow> string" where
  "pop_line_ends s = (if s \<noteq> [] \<and> line_end (last s) then pop_line_ends (butlast s) else s)"
  by auto
termination by (relation "measure length") auto

declare pop_line_ends.simps [simp del]

definition parse_secret :: "string \<Rightarrow> startup_error + string" where
  "parse_secret text_in =
     (let text_in = pop_line_ends text_in
      in if text_in = [] then Inl EmptySecret
         else if list_ex line_end text_in then Inl SecretLines
         else Inr text_in)"

definition read_secret :: "(string \<Rightarrow> string option) \<Rightarrow> string \<Rightarrow> startup_error + string" where
  "read_secret files path = (case files path of None \<Rightarrow> Inl Unreadable | Some text_in \<Rightarrow> parse_secret text_in)"

section \<open>Start-up\<close>

text \<open>One source; the classification pipeline it also makes cannot fail.\<close>

definition configure_source ::
    "(string \<Rightarrow> string) \<Rightarrow> (string \<Rightarrow> string option) \<Rightarrow> cli \<Rightarrow> nat \<Rightarrow> nat \<Rightarrow> source_config \<Rightarrow> startup_error + atlas_source" where
  "configure_source base64 files args interval cache_bytes config =
     ok_then (read_secret files (sc_credential config)) (\<lambda>password.
     ok_then (map_error SourceFailed (source_runtime_new (sc_source_id config) (sc_source_label config) interval)) (\<lambda>runtime.
     ok_then (map_error LimitsFailed (limits_new (cl_slice_entries args) (cl_rpc_lanes args) cache_bytes)) (\<lambda>lim.
     ok_then (map_error ClientFailed (rpc_client_new base64 (sc_rpc_url config) (sc_rpc_username config) password
         (cl_max_mempool_entries args))) (\<lambda>client.
       Inr (atlas_source_new runtime client lim)))))"

fun configure_sources ::
    "(source_config \<Rightarrow> startup_error + atlas_source) \<Rightarrow> source_config list \<Rightarrow> startup_error + atlas_source list" where
  "configure_sources configure [] = Inr []"
| "configure_sources configure (c # cs) =
     ok_then (configure c) (\<lambda>s. ok_then (configure_sources configure cs) (\<lambda>ss. Inr (s # ss)))"

text \<open>\<^verbatim>\<open>Duration::from_secs\<close>, in nanoseconds.\<close>

definition from_secs :: "u64 \<Rightarrow> nat" where
  "from_secs s = unat s * 1000000000"

definition per_source_cache :: "nat \<Rightarrow> nat \<Rightarrow> startup_error + nat" where
  "per_source_cache total_mib n =
     (if MAX_TOTAL_CLASSIFICATION_CACHE_MIB < total_mib then Inl (CacheTooLarge total_mib)
      else if usize_max < total_mib * (1024 * 1024) then Inl CacheOverflow
      else if n = 0 then Inl NoConfiguredSources
      else Inr (total_mib * (1024 * 1024) div n))"

definition startup ::
    "(string \<Rightarrow> string) \<Rightarrow> (bytes \<Rightarrow> source_config list option) \<Rightarrow> bytes option \<Rightarrow> (string \<Rightarrow> string option) \<Rightarrow> cli \<Rightarrow>
     startup_error + atlas \<times> (string, publisher) btree" where
  "startup base64 parse sources_file files args =
     ok_then (validate_bind (cl_bind args)) (\<lambda>_.
     ok_then (read_sources_file parse sources_file) (\<lambda>configs.
     let interval = from_secs (cl_poll_seconds args) in
     ok_then (per_source_cache (cl_total_cache_mib args) (length configs)) (\<lambda>cache_bytes.
     ok_then (configure_sources (configure_source base64 files args interval cache_bytes) configs) (\<lambda>sources.
     ok_then (map_error CoordinatorFailed (atlas_new sources interval)) (\<lambda>a.
     ok_then (map_error RegistryFailed (registry_new (source_runtimes a))) (\<lambda>registry.
       Inr (a, registry)))))))"

section \<open>Properties\<close>

lemma pop_line_ends_spec:
  "\<exists>ends. s = pop_line_ends s @ ends \<and> list_all line_end ends \<and>
     (pop_line_ends s = [] \<or> \<not> line_end (last (pop_line_ends s)))"
proof (induction s rule: pop_line_ends.induct)
  case (1 s)
  show ?case
  proof (cases "s \<noteq> [] \<and> line_end (last s)")
    case True
    then obtain ends where e: "butlast s = pop_line_ends (butlast s) @ ends" "list_all line_end ends"
        "pop_line_ends (butlast s) = [] \<or> \<not> line_end (last (pop_line_ends (butlast s)))"
      using 1 by blast
    have "pop_line_ends s = pop_line_ends (butlast s)" using True by (simp add: pop_line_ends.simps [of s])
    moreover have "s = pop_line_ends (butlast s) @ (ends @ [last s])"
      using e(1) True by (metis append.assoc append_butlast_last_id)
    moreover have "list_all line_end (ends @ [last s])" using e(2) True by simp
    ultimately show ?thesis using e(3) by metis
  next
    case False
    then show ?thesis by (auto simp: pop_line_ends.simps [of s])
  qed
qed

lemma pop_line_ends_append:
  "list_all line_end ends \<Longrightarrow> p = [] \<or> \<not> line_end (last p) \<Longrightarrow> pop_line_ends (p @ ends) = p"
proof (induction ends rule: rev_induct)
  case Nil
  then show ?case by (auto simp: pop_line_ends.simps [of p])
next
  case (snoc c ends)
  have "pop_line_ends (p @ ends @ [c]) = pop_line_ends (butlast (p @ ends @ [c]))"
    using snoc(2) by (subst pop_line_ends.simps) (simp add: butlast_append)
  then show ?case using snoc by (simp add: butlast_append)
qed

lemma secret_line:
  "parse_secret text_in = Inr secret \<longleftrightarrow> secret \<noteq> [] \<and> \<not> list_ex line_end secret \<and>
     (\<exists>ends. text_in = secret @ ends \<and> list_all line_end ends)"
proof
  assume "parse_secret text_in = Inr secret"
  then show "secret \<noteq> [] \<and> \<not> list_ex line_end secret \<and> (\<exists>ends. text_in = secret @ ends \<and> list_all line_end ends)"
    using pop_line_ends_spec [of text_in] by (auto simp: parse_secret_def Let_def split: if_splits)
next
  assume a: "secret \<noteq> [] \<and> \<not> list_ex line_end secret \<and> (\<exists>ends. text_in = secret @ ends \<and> list_all line_end ends)"
  then have "\<not> line_end (last secret)" by (auto simp: list_ex_iff)
  then have "pop_line_ends text_in = secret" using a pop_line_ends_append by blast
  then show "parse_secret text_in = Inr secret" using a by (simp add: parse_secret_def)
qed

text \<open>
  A secret is accepted exactly when the file is one line, followed by any number of line ends, and it is that line
  without them.
\<close>

theorem secret_is_the_only_line:
  "parse_secret text_in = Inr secret \<longleftrightarrow> secret \<noteq> [] \<and> \<not> list_ex line_end secret \<and>
     (\<exists>ends. text_in = secret @ ends \<and> list_all line_end ends)"
  by (rule secret_line)

text \<open>What one configured source must be.\<close>

definition config_ok :: "source_config \<Rightarrow> bool" where
  "config_ok c \<longleftrightarrow> validate_source_id (sc_source_id c) = Inr () \<and> validate_source_label (sc_source_label c) = Inr () \<and>
     sc_rpc_username c \<noteq> [] \<and> length (sc_rpc_username c) \<le> 128 \<and> \<not> list_ex line_end (sc_rpc_username c) \<and>
     validate_credential_name (sc_credential c) = Inr ()"

lemma map_error_Inr_iff: "map_error f r = Inr v \<longleftrightarrow> r = Inr v"
  by (cases r) simp_all

lemma check_configs_Inr:
  "check_configs seen cs = Inr () \<longleftrightarrow> list_all config_ok cs \<and> distinct (map sc_source_id cs) \<and>
     set (map sc_source_id cs) \<inter> set seen = {}"
  by (induction seen cs rule: check_configs.induct)
    (auto simp: ok_then_Inr_iff map_error_Inr_iff config_ok_def not_less)

lemma accepted_iff:
  "read_sources_file parse file = Inr configs \<longleftrightarrow>
     (\<exists>text_in. file = Some text_in \<and> length text_in \<le> 65536 \<and> parse text_in = Some configs) \<and>
     1 \<le> length configs \<and> length configs \<le> 4 \<and> distinct (map sc_source_id configs) \<and> list_all config_ok configs"
  by (auto simp: read_sources_file_def parse_sources_file_def ok_then_Inr_iff check_configs_Inr MAX_CONFIGURED_SOURCES_def
      MAX_SOURCE_CONFIG_BYTES_def Suc_le_eq split: option.splits if_splits)

text \<open>
  The configuration is accepted exactly when the file is within its limit, parses, and lists one to four
  sources of distinct ids, each well named; the sources keep their declared order. A credential name never leaves the
  credentials directory.
\<close>

theorem configuration_accepted_iff:
  "read_sources_file parse file = Inr configs \<longleftrightarrow>
     (\<exists>text_in. file = Some text_in \<and> length text_in \<le> 65536 \<and> parse text_in = Some configs) \<and>
     1 \<le> length configs \<and> length configs \<le> 4 \<and> distinct (map sc_source_id configs) \<and> list_all config_ok configs"
  by (rule accepted_iff)

text \<open>So a credential never leaves the credentials directory.\<close>

theorem credential_stays_in_directory:
  "validate_credential_name v = Inr () \<longleftrightarrow> v \<noteq> [] \<and> length v \<le> 128 \<and> v \<noteq> ''.'' \<and> v \<noteq> ''..'' \<and>
     list_all (\<lambda>c. is_ascii_alphanumeric c \<or> c \<in> set ''._-'') v"
  by (auto simp: validate_credential_name_def list_all_iff)

lemma configure_sources_Inr:
  "configure_sources f cs = Inr ss \<longleftrightarrow> list_all2 (\<lambda>c s. f c = Inr s) cs ss"
  by (induction cs arbitrary: ss) (auto simp: ok_then_Inr_iff list_all2_Cons1)

text \<open>What the sources made of checked configurations are.\<close>

lemma configure_source_Inr:
  assumes "configure_source base64 files args interval cache_bytes c = Inr s"
  shows "fresh_source s \<and> pb_source_id (so_publisher s) = sc_source_id c \<and> pb_poll_interval (so_publisher s) = interval \<and>
    max_auxiliary_cache_bytes (so_limits s) = cache_bytes"
proof -
  obtain password runtime lim client where parts:
      "source_runtime_new (sc_source_id c) (sc_source_label c) interval = Inr runtime"
      "limits_new (cl_slice_entries args) (cl_rpc_lanes args) cache_bytes = Inr lim"
      "rpc_client_new base64 (sc_rpc_url c) (sc_rpc_username c) password (cl_max_mempool_entries args) = Inr client"
      "s = atlas_source_new runtime client lim"
    using assms by (auto simp: configure_source_def ok_then_Inr_iff map_error_Inr_iff)
  have "fresh_source s" unfolding fresh_source_def using parts by blast
  then show ?thesis using parts
    by (auto simp: atlas_source_new_def source_runtime_new_def limits_new_def ok_then_Inr_iff split: if_splits)
qed

lemma configure_sources_spec:
  assumes "configure_sources (configure_source base64 files args interval cache_bytes) cs = Inr ss"
  shows "length ss = length cs \<and> map (pb_source_id \<circ> so_publisher) ss = map sc_source_id cs \<and> (\<forall>s \<in> set ss. fresh_source s) \<and>
    (\<forall>s \<in> set ss. pb_poll_interval (so_publisher s) = interval \<and> max_auxiliary_cache_bytes (so_limits s) = cache_bytes)"
  using assms
proof (induction cs arbitrary: ss)
  case (Cons c cs)
  then obtain s rest where s: "configure_source base64 files args interval cache_bytes c = Inr s"
      "configure_sources (configure_source base64 files args interval cache_bytes) cs = Inr rest" "ss = s # rest"
    by (auto simp: ok_then_Inr_iff)
  then show ?case using Cons(1) [OF s(2)] configure_source_Inr [OF s(1)] by simp
qed simp

lemma per_source_cache_Inr:
  "per_source_cache mib n = Inr b \<longleftrightarrow> mib \<le> 512 \<and> 0 < n \<and> b = mib * 1048576 div n"
  by (auto simp: per_source_cache_def MAX_TOTAL_CLASSIFICATION_CACHE_MIB_def not_less)

text \<open>
  C10: What start-up hands to the two tasks is what the properties of the scheduler and the API start from: fresh sources
  in their declared order, the scheduler and the registry made of the same sources. It listens on a loopback address
  only, and all caches together stay within the configured size.
\<close>

theorem startup_establishes_scheduler:
  assumes "startup base64 parse file files args = Inr (a, registry)"
  shows "\<exists>configs. read_sources_file parse file = Inr configs \<and>
    atlas_new (at_sources a) (from_secs (cl_poll_seconds args)) = Inr a \<and> (\<forall>s \<in> set (at_sources a). fresh_source s) \<and>
    map (pb_source_id \<circ> so_publisher) (at_sources a) = map sc_source_id configs \<and>
    registry_new (source_runtimes a) = Inr registry \<and> is_loopback (cl_bind args) \<and>
    (\<Sum>s\<leftarrow>at_sources a. max_auxiliary_cache_bytes (so_limits s)) \<le> cl_total_cache_mib args * 1048576 \<and>
    cl_total_cache_mib args \<le> 512"
proof -
  obtain configs cache_bytes sources where r: "is_loopback (cl_bind args)" "read_sources_file parse file = Inr configs"
      "per_source_cache (cl_total_cache_mib args) (length configs) = Inr cache_bytes"
      "configure_sources (configure_source base64 files args (from_secs (cl_poll_seconds args)) cache_bytes) configs = Inr sources"
      "atlas_new sources (from_secs (cl_poll_seconds args)) = Inr a" "registry_new (source_runtimes a) = Inr registry"
    using assms by (auto simp: startup_def ok_then_Inr_iff map_error_Inr_iff validate_bind_def Let_def split: if_splits)
  note srcs = configure_sources_spec [OF r(4)]
  have a: "at_sources a = sources" using r(5) by (auto simp: atlas_new_def ok_then_Inr_iff split: if_splits)
  have "(\<Sum>s\<leftarrow>sources. max_auxiliary_cache_bytes (so_limits s)) = (\<Sum>s\<leftarrow>sources. cache_bytes)"
    using srcs by (intro arg_cong [where f = sum_list] map_cong) auto
  also have "\<dots> = length configs * cache_bytes" using srcs by (simp add: sum_list_triv)
  also have "\<dots> \<le> cl_total_cache_mib args * 1048576"
    using r(3) by (simp add: per_source_cache_Inr)
  finally show ?thesis using r srcs by (auto simp: a per_source_cache_Inr)
qed

text \<open>The errors of the constructors, whose checks the configuration has passed before.\<close>

fun repeated :: "startup_error \<Rightarrow> bool" where
  "repeated CacheOverflow = True"
| "repeated (SourceFailed _) = True"
| "repeated (CoordinatorFailed _) = True"
| "repeated (RegistryFailed _) = True"
| "repeated _ = False"

lemma sources_file_errors:
  assumes "read_sources_file parse file = Inl e"
  shows "\<not> repeated e"
proof -
  have "check_configs seen cs = Inl e \<Longrightarrow>
      \<not> repeated e" for seen cs
    by (induction seen cs rule: check_configs.induct)
      (auto simp: ok_then_Inl_iff validate_credential_name_def split: if_splits elim!: map_error.elims)
  then show ?thesis using assms
    by (auto simp: read_sources_file_def parse_sources_file_def ok_then_Inl_iff split: option.splits if_splits)
qed

lemma configure_source_errors:
  assumes "config_ok c" "0 < interval" "configure_source base64 files args interval b c = Inl e"
  shows "\<not> repeated e"
proof -
  have "\<exists>r. source_runtime_new (sc_source_id c) (sc_source_label c) interval = Inr r"
    using assms(1,2) by (simp add: source_runtime_new_def config_ok_def)
  then show ?thesis using assms(3)
    by (auto simp: configure_source_def ok_then_Inl_iff read_secret_def parse_secret_def Let_def
        split: option.splits if_splits elim!: map_error.elims)
qed

lemma configure_sources_errors:
  assumes "list_all config_ok cs" "0 < interval" "configure_sources (configure_source base64 files args interval b) cs = Inl e"
  shows "\<not> repeated e"
  using assms
proof (induction cs)
  case (Cons c cs)
  show ?case
  proof (cases "configure_source base64 files args interval b c")
    case (Inl e')
    then show ?thesis using Cons(2-4) configure_source_errors [OF _ Cons(3) Inl] by simp
  next
    case (Inr s)
    then show ?thesis using Cons by (simp add: ok_then_Inl_iff)
  qed
qed simp

text \<open>
  C40: The later checks repeat what the configuration file was checked for: with a positive poll interval, start-up never
  fails in the constructors of the sources, the scheduler or the registry, nor by overflow of the cache size.
\<close>

theorem later_checks_never_fail:
  assumes "startup base64 parse file files args = Inl e" and "cl_poll_seconds args \<noteq> 0"
  shows "\<not> repeated e"
proof -
  let ?interval = "from_secs (cl_poll_seconds args)"
  have pos: "0 < ?interval" using assms(2) by (simp add: from_secs_def unat_gt_0)
  show ?thesis
  proof (cases "read_sources_file parse file")
    case (Inl e')
    then have "e = PublicBind \<or> e = e'"
      using assms(1) by (auto simp: startup_def validate_bind_def ok_then_Inl_iff split: if_splits)
    then show ?thesis using sources_file_errors [OF Inl] by auto
  next
    case (Inr configs)
    then have ok: "list_all config_ok configs" "1 \<le> length configs" "length configs \<le> 4" "distinct (map sc_source_id configs)"
      by (simp_all add: accepted_iff)
    have later: "\<exists>a registry. atlas_new sources ?interval = Inr a \<and> registry_new (source_runtimes a) = Inr registry"
      if "configure_sources (configure_source base64 files args ?interval b) configs = Inr sources" for sources b
    proof -
      note srcs = configure_sources_spec [OF that]
      have d: "distinct (map pb_source_id (map so_publisher sources))" using srcs ok(4) by simp
      have "\<exists>a. atlas_new sources ?interval = Inr a \<and> at_sources a = sources"
        using srcs ok d pos by (auto simp: atlas_new_iff list_all_iff)
      moreover have "\<exists>registry. registry_new (map so_publisher sources) = Inr registry"
        using srcs ok d by (intro registry_new_ok) simp_all
      ultimately show ?thesis by (auto simp: source_runtimes_def)
    qed
    consider "validate_bind (cl_bind args) = Inl e"
      | "per_source_cache (cl_total_cache_mib args) (length configs) = Inl e"
      | b where "configure_sources (configure_source base64 files args ?interval b) configs = Inl e"
      using assms(1) Inr later by (fastforce simp: startup_def ok_then_Inl_iff Let_def)
    then show ?thesis
    proof cases
      case 1
      then show ?thesis by (auto simp: validate_bind_def split: if_splits)
    next
      case 2
      then show ?thesis by (auto simp: per_source_cache_def MAX_TOTAL_CLASSIFICATION_CACHE_MIB_def split: if_splits)
    next
      case 3
      then show ?thesis by (rule configure_sources_errors [OF ok(1) pos])
    qed
  qed
qed

section \<open>Witnesses\<close>

definition example_config :: source_config where
  "example_config = \<lparr> sc_source_id = ''core'', sc_source_label = ''Core'', sc_rpc_url = ''http://n/'',
     sc_rpc_username = ''u'', sc_credential = ''core-password'' \<rparr>"

definition example_args :: cli where
  "example_args = \<lparr> cl_bind = V4 127 0 0 1, cl_poll_seconds = 300, cl_max_mempool_entries = 2, cl_slice_entries = 1,
     cl_rpc_lanes = 1, cl_total_cache_mib = 1 \<rparr>"

definition example_files :: "string \<Rightarrow> string option" where
  "example_files path = (if path = ''core-password'' then Some (''p'' @ [CHR 0x0d, CHR 0x0a]) else None)"

lemma example_config_ok: "config_ok example_config"
proof -
  have "validate_source_id ''core'' = Inr ()" "validate_source_label ''Core'' = Inr ()"
    "validate_credential_name ''core-password'' = Inr ()" "\<not> list_ex line_end ''u''" by code_simp+
  then show ?thesis by (simp add: config_ok_def example_config_def)
qed

lemma example_read: "read_sources_file (\<lambda>_. Some [example_config]) (Some []) = Inr [example_config]"
  using example_config_ok by (simp add: accepted_iff)

lemma example_startup:
  "\<exists>a registry. startup (\<lambda>_. ''dTpw'') (\<lambda>_. Some [example_config]) (Some []) example_files example_args = Inr (a, registry)"
proof -
  have secret: "read_secret example_files ''core-password'' = Inr ''p''"
    by (simp add: read_secret_def example_files_def secret_line) (simp add: line_end_def)
  have cache: "per_source_cache 1 1 = Inr 1048576" by (simp add: per_source_cache_Inr)
  have "\<exists>r. source_runtime_new ''core'' ''Core'' 300000000000 = Inr r"
    using example_config_ok by (simp add: source_runtime_new_def config_ok_def example_config_def)
  moreover have "\<exists>l. limits_new 1 1 1048576 = Inr l"
    by (simp add: limits_new_def MAX_TRANSACTIONS_PER_SLICE_def MAX_RPC_LANES_def MAX_AUXILIARY_CACHE_BYTES_def)
  moreover have "\<exists>c. rpc_client_new (\<lambda>_. ''dTpw'') ''http://n/'' ''u'' ''p'' 2 = Inr c"
    by (simp add: rpc_client_new_def validate_configured_limit_def validate_rpc_url_def MAX_SUPPORTED_MEMPOOL_ENTRIES_def)
  ultimately obtain s where s: "configure_source (\<lambda>_. ''dTpw'') example_files example_args 300000000000 1048576 example_config = Inr s"
    using secret by (auto simp: configure_source_def example_config_def example_args_def)
  then have ss: "configure_sources (configure_source (\<lambda>_. ''dTpw'') example_files example_args 300000000000 1048576)
      [example_config] = Inr [s]"
    by simp
  note spec = configure_sources_spec [OF ss]
  obtain a where a: "atlas_new [s] 300000000000 = Inr a" "at_sources a = [s]"
    using spec by (auto simp: atlas_new_iff)
  obtain registry where "registry_new (map so_publisher [s]) = Inr registry"
    using registry_new_ok [of "map so_publisher [s]"] by auto
  then show ?thesis using example_read cache ss a
    by (simp add: startup_def validate_bind_def example_args_def from_secs_def source_runtimes_def)
qed

theorem startup_establishes_scheduler_witness:
  "\<exists>a registry. startup (\<lambda>_. ''dTpw'') (\<lambda>_. Some [example_config]) (Some []) example_files example_args = Inr (a, registry) \<and>
     map (pb_source_id \<circ> so_publisher) (at_sources a) = [''core''] \<and>
     (\<Sum>s\<leftarrow>at_sources a. max_auxiliary_cache_bytes (so_limits s)) \<le> 1048576"
proof -
  obtain a registry where r: "startup (\<lambda>_. ''dTpw'') (\<lambda>_. Some [example_config]) (Some []) example_files example_args = Inr (a, registry)"
    using example_startup by blast
  show ?thesis using startup_establishes_scheduler [OF r] r example_read
    by (auto simp: example_config_def example_args_def)
qed

theorem later_checks_never_fail_witness:
  "startup (\<lambda>_. ''dTpw'') (\<lambda>_. None) None example_files example_args = Inl Unreadable \<and> \<not> repeated Unreadable"
proof -
  have r: "startup (\<lambda>_. ''dTpw'') (\<lambda>_. None) None example_files example_args = Inl Unreadable"
    by (simp add: startup_def validate_bind_def example_args_def read_sources_file_def)
  show ?thesis using later_checks_never_fail [OF r] r by (simp add: example_args_def)
qed

end
