(* ===== verification/Pending_Progress.thy ===== *)
theory Pending_Progress
  imports Pending_Waves
begin

text \<open>
  Why a pending slice comes to rest: each operation leaves its facts as near to an answer as they were, or nearer,
  and the candidates as few as they were, or fewer. The load of a slice is the number of its candidates, then of
  those not yet activated, then the attempts its facts have left.
\<close>

section \<open>The load\<close>

fun fact_rank :: "fact_state \<Rightarrow> nat" where
  "fact_rank (Awaiting source a) =
     (unat MAX_FACT_ATTEMPTS_PER_SOURCE_PER_WINDOW - unat a) + 1 +
     (if source = CurrentParent then unat MAX_FACT_ATTEMPTS_PER_SOURCE_PER_WINDOW + 1 else 0)"
| "fact_rank _ = 0"

definition rank_at :: "pending_slice \<Rightarrow> out_point \<Rightarrow> nat" where
  "rank_at p k = (case bt_get (pd_facts p) k of None \<Rightarrow> 0 | Some state \<Rightarrow> fact_rank state)"

definition pending_rank :: "pending_slice \<Rightarrow> nat" where
  "pending_rank p = sum (rank_at p) (set (bt_keys (pd_facts p)))"

definition load :: "pending_slice \<Rightarrow> nat \<times> nat \<times> nat" where
  "load p = (length (pd_active p) + length (pd_queued p), length (pd_queued p), pending_rank p)"

lemma rank_at_outside: "k \<notin> set (bt_keys (pd_facts p)) \<Longrightarrow> rank_at p k = 0"
  using map_of_eq_None_iff [of "pd_facts p" k] by (simp add: rank_at_def)

lemma pending_rank_over:
  "finite S \<Longrightarrow> set (bt_keys (pd_facts p)) \<subseteq> S \<Longrightarrow> pending_rank p = sum (rank_at p) S"
  unfolding pending_rank_def by (rule sum.mono_neutral_left) (auto simp del: list.set_map simp: rank_at_outside)

lemma pending_rank_le:
  assumes "\<And>k. rank_at p' k \<le> rank_at p k"
  shows "pending_rank p' \<le> pending_rank p"
proof -
  let ?S = "set (bt_keys (pd_facts p)) \<union> set (bt_keys (pd_facts p'))"
  have "pending_rank p' = sum (rank_at p') ?S" "pending_rank p = sum (rank_at p) ?S"
    by (rule pending_rank_over; simp)+
  then show ?thesis using assms by (simp add: sum_mono)
qed

lemma pending_rank_less:
  assumes "\<And>k. rank_at p' k \<le> rank_at p k" "rank_at p' x < rank_at p x"
  shows "pending_rank p' < pending_rank p"
proof -
  let ?S = "set (bt_keys (pd_facts p)) \<union> set (bt_keys (pd_facts p'))"
  have eq: "pending_rank p' = sum (rank_at p') ?S" "pending_rank p = sum (rank_at p) ?S"
    by (rule pending_rank_over; simp)+
  have "x \<in> ?S" using assms(2) rank_at_outside [of x p] by (cases "x \<in> set (bt_keys (pd_facts p))") auto
  then show ?thesis
    unfolding eq using assms by (intro sum_strict_mono_ex1) auto
qed

lemma no_rank:
  assumes "pending_rank p = 0" "bt_get (pd_facts p) k = Some (Awaiting source a)"
  shows False
proof -
  have "rank_at p k = 0"
    using assms(1) map_of_SomeD [OF assms(2)] by (force simp: pending_rank_def)
  then show False using assms(2) by (simp add: rank_at_def split: if_splits)
qed

section \<open>Settling facts\<close>

text \<open>
  Outside the waves a fact is only settled, forgotten, or sent from its parent to \<^verbatim>\<open>gettxout\<close>, and only a waiting
  fact is deferred.
\<close>

fun settles :: "fact_state \<Rightarrow> fact_state \<Rightarrow> bool" where
  "settles s (Awaiting source a) \<longleftrightarrow> s = Awaiting source a \<or>
     source = ParentFallback \<and> a = 0 \<and> (\<exists>b. s = Awaiting CurrentParent b)"
| "settles s OperationallyDeferred \<longleftrightarrow> s = OperationallyDeferred \<or> (\<exists>source a. s = Awaiting source a)"
| "settles s _ \<longleftrightarrow> True"

definition settled :: "pending_slice \<Rightarrow> pending_slice \<Rightarrow> bool" where
  "settled p p' \<longleftrightarrow> (\<forall>k state'. bt_get (pd_facts p') k = Some state' \<longrightarrow>
     (\<exists>state. bt_get (pd_facts p) k = Some state \<and> settles state state'))"

lemma settles_refl [simp]: "settles s s"
  by (cases s) simp_all

lemma settles_trans: "settles s t \<Longrightarrow> settles t u \<Longrightarrow> settles s u"
  by (cases u) auto

lemma settles_rank: "settles s t \<Longrightarrow> fact_rank t \<le> fact_rank s"
  by (cases t) auto

lemma settled_facts: "pd_facts p' = pd_facts p \<Longrightarrow> settled p p'"
  by (simp add: settled_def)

lemma settled_trans: "settled p q \<Longrightarrow> settled q r \<Longrightarrow> settled p r"
  unfolding settled_def by (meson settles_trans)

lemma settled_rank_at: "settled p p' \<Longrightarrow> rank_at p' k \<le> rank_at p k"
  by (force simp: settled_def rank_at_def settles_rank split: option.splits)

lemma settled_map:
  "(\<And>k s. settles s (f k s)) \<Longrightarrow> settled p (p\<lparr>pd_facts := bt_map_values f (pd_facts p)\<rparr>)"
  by (auto simp: settled_def bt_get_map_values)

lemma settled_modify:
  "(\<And>s. settles s (f s)) \<Longrightarrow> settled p (p\<lparr>pd_facts := bt_modify k f (pd_facts p)\<rparr>)"
  by (auto simp: settled_def bt_get_modify split: if_splits)

text \<open>Facts that have used up their attempts, and facts that wait for a parent that is not current.\<close>

definition exhausted :: "pending_slice \<Rightarrow> out_point set" where
  "exhausted p = {k. \<exists>source a. bt_get (pd_facts p) k = Some (Awaiting source a) \<and>
     MAX_FACT_ATTEMPTS_PER_SOURCE_PER_WINDOW \<le> a}"

definition parents_current :: "(txid, current_variant) btree \<Rightarrow> pending_slice \<Rightarrow> bool" where
  "parents_current variants p \<longleftrightarrow> (\<forall>k a. bt_get (pd_facts p) k = Some (Awaiting CurrentParent a) \<longrightarrow>
     bt_contains variants (op_txid k))"

lemma attempts_positive: "\<not> MAX_FACT_ATTEMPTS_PER_SOURCE_PER_WINDOW \<le> 0"
  by (simp add: MAX_FACT_ATTEMPTS_PER_SOURCE_PER_WINDOW_def)

lemma settled_exhausted: "settled p p' \<Longrightarrow> exhausted p' \<subseteq> exhausted p"
  using attempts_positive by (fastforce simp: settled_def exhausted_def)

lemma settled_parents: "settled p p' \<Longrightarrow> parents_current variants p \<Longrightarrow> parents_current variants p'"
  by (fastforce simp: settled_def parents_current_def)

section \<open>Calm operations\<close>

text \<open>What every operation of a slice but a wave and an activation does.\<close>

definition calm :: "rust_bitcoin \<Rightarrow> resolver_limits \<Rightarrow> pending_slice \<Rightarrow> pending_slice \<Rightarrow> bool" where
  "calm lib lim p p' \<longleftrightarrow> (pending_inv lib lim p \<longrightarrow> pending_inv lib lim p' \<and> advances p p' \<and> settled p p' \<and>
     pd_queued p' = pd_queued p \<and> length (pd_active p') \<le> length (pd_active p))"

lemma advances_refl [simp]: "advances p p"
  by (simp add: advances_def)

lemma advances_trans: "advances p q \<Longrightarrow> advances q r \<Longrightarrow> advances p r"
  by (auto simp: advances_def)

lemma calm_refl [simp]: "calm lib lim p p"
  by (simp add: calm_def settled_facts)

lemma calm_trans: "calm lib lim p q \<Longrightarrow> calm lib lim q r \<Longrightarrow> calm lib lim p r"
  unfolding calm_def using advances_trans settled_trans by (metis order.trans)

lemma shape_sizes:
  assumes "shape p' = shape p"
  shows "pd_queued p' = pd_queued p \<and> length (pd_active p') = length (pd_active p)"
proof -
  let ?f = "\<lambda>(key :: string, c). (key, pc_expected c, pc_transaction c, pc_required c)"
  have "map ?f (pd_active p') = map ?f (pd_active p)" "pd_queued p' = pd_queued p"
    using assms by (simp_all only: shape_def prod.inject)
  from arg_cong [OF this(1), of length] this(2) show ?thesis by simp
qed

lemma calm_kept:
  assumes "kept lib lim p p'" "pending_inv lib lim p \<Longrightarrow> settled p p'"
  shows "calm lib lim p p'"
  using assms kept_advances [OF assms(1)] shape_sizes [of p' p] by (auto simp: calm_def kept_def)

lemma calm_load:
  assumes "calm lib lim p p'" "pending_inv lib lim p"
  shows "load p' \<le> load p"
proof -
  have "settled p p'" "pd_queued p' = pd_queued p" "length (pd_active p') \<le> length (pd_active p)"
    using assms by (simp_all add: calm_def)
  moreover have "pending_rank p' \<le> pending_rank p"
    by (rule pending_rank_le [OF settled_rank_at [OF \<open>settled p p'\<close>]])
  ultimately show ?thesis by (auto simp: load_def)
qed

subsection \<open>Known and received scripts\<close>

lemma settled_store:
  assumes "store_script k script n p = (r, p')"
  shows "settled p p'"
proof -
  have "settled q (q\<lparr>pd_facts := bt_modify k (\<lambda>_. Ready script) (pd_facts q), pd_script_bytes := m\<rparr>)" for q m
    by (auto simp: settled_def bt_get_modify split: if_splits)
  then show ?thesis
    using assms by (auto simp: store_script_def admit_script_def settled_facts
        split: option.splits fact_state.splits if_splits)
qed

lemma settled_block: "bt_ok (pd_facts p) \<Longrightarrow> settled p (mark_capacity_blocked k p)"
  by (auto simp: mark_capacity_blocked_eq intro!: settled_modify split: fact_state.splits)

lemma settled_defer: "settled p (defer_if_attempts_exhausted k p)"
  by (auto simp: defer_if_attempts_exhausted_def defer_fact_def settled_def bt_get_modify
      split: option.splits fact_state.splits if_splits)

lemma facts_ok: "pending_inv lib lim p \<Longrightarrow> bt_ok (pd_facts p)"
  by (simp add: pending_inv_def facts_inv_def)

lemma calm_store: "store_script k script (max_pending_script_bytes lim) p = (r, p') \<Longrightarrow> calm lib lim p p'"
  by (intro calm_kept kept_facts store_script_inv settled_store; assumption)

lemma calm_block: "calm lib lim p (mark_capacity_blocked k p)"
  by (intro calm_kept kept_facts mark_capacity_blocked_inv settled_block facts_ok)

lemma calm_defer: "calm lib lim p (defer_if_attempts_exhausted k p)"
  by (intro calm_kept kept_defer_if_attempts_exhausted settled_defer)

lemma calm_store_or_block: "calm lib lim (snd (snd acc)) (snd (snd (store_or_block lim k script acc)))"
proof -
  obtain a b p where acc: "acc = (a, b, p)" by (cases acc) auto
  obtain r q where q: "store_script k script (max_pending_script_bytes lim) p = (r, q)" by fastforce
  show ?thesis
    using calm_store [OF q] calm_trans [OF calm_store [OF q] calm_block [of lib lim q k]]
    by (cases r) (simp_all add: acc store_or_block_def q)
qed

lemma calm_fold:
  assumes "\<And>x acc. calm lib lim (snd (snd acc)) (snd (snd (f x acc)))"
  shows "calm lib lim (snd (snd acc)) (snd (snd (fold f xs acc)))"
proof (induction xs arbitrary: acc)
  case (Cons x xs)
  then show ?case using calm_trans [OF assms [of acc x] Cons.IH [of "f x acc"]] by simp
qed simp

lemma calm_hydrate_cached:
  "hydrate_cached variants outputs lim ws cache acc = (cache', acc') \<Longrightarrow>
    calm lib lim (snd (snd acc)) (snd (snd acc'))"
proof (induction ws arbitrary: cache acc)
  case Nil
  then show ?case by simp
next
  case (Cons w ws)
  obtain k source where w: "w = (k, source)" by (cases w)
  obtain script mid where g: "(case source of CurrentParent \<Rightarrow>
      (parent_script variants outputs (snd (snd acc)) k, cache) | _ \<Rightarrow> cache_get k cache) = (script, mid)"
    by fastforce
  let ?acc = "case script of Some s \<Rightarrow> store_or_block lim k s acc | None \<Rightarrow> acc"
  have "calm lib lim (snd (snd acc)) (snd (snd ?acc))"
    by (simp add: calm_store_or_block split: option.splits)
  moreover have "hydrate_cached variants outputs lim ws mid ?acc = (cache', acc')"
    using Cons.prems by (simp add: w g)
  ultimately show ?case using Cons.IH by (blast intro: calm_trans)
qed

lemma calm_hydrate_from_caches:
  "hydrate_from_caches variants outputs lim cache p = (cache', a, b, p') \<Longrightarrow> calm lib lim p p'"
  unfolding hydrate_from_caches_def by (drule calm_hydrate_cached [of _ _ _ _ _ _ _ _ lib]) simp

lemma calm_hydrate_from_transient:
  assumes "hydrate_from_transient outputs confirmed lim p = (a, b, p')"
  shows "calm lib lim p p'"
proof -
  let ?f = "\<lambda>w acc. case transient_script outputs confirmed w of
      Some s \<Rightarrow> store_or_block lim (fst w) s acc | None \<Rightarrow> acc"
  have "calm lib lim (snd (snd acc)) (snd (snd (?f w acc)))" for w acc
    by (simp add: calm_store_or_block split: option.splits)
  then have "calm lib lim p (snd (snd (fold ?f (waiting_facts p) (0, 0, p))))"
    using calm_fold [of lib lim ?f "(0, 0, p)"] by simp
  then show ?thesis using assms by (simp add: hydrate_from_transient_def)
qed

lemma calm_apply_parent_output:
  "calm lib lim (snd (snd acc)) (snd (snd (apply_parent_output outputs lim k acc)))"
  using calm_store_or_block [of lib lim acc]
  by (cases acc) (auto simp: apply_parent_output_def calm_defer split: option.splits)

lemma calm_apply_parent_transaction:
  assumes "apply_parent_transaction codec expected tx lim p = (out, a, b, p')"
  shows "calm lib lim p p'"
proof -
  have "calm lib lim p (snd (snd (fold (apply_parent_output outputs lim) ks (0, 0, p))))" for outputs ks
    using calm_fold [OF calm_apply_parent_output, of lib lim "(0, 0, p)"] by simp
  then show ?thesis
    using assms by (auto simp: apply_parent_transaction_def Let_def split: option.splits) (metis snd_conv)
qed

lemma calm_fall_back: "calm lib lim p (fall_back_parent_to_gettxout t p)"
  unfolding fall_back_parent_to_gettxout_def
  by (rule calm_kept, unfold fall_back_parent_to_gettxout_def [symmetric], intro kept_facts fall_back_inv,
      assumption, unfold fall_back_parent_to_gettxout_def, rule settled_map)
    (auto split: fact_state.splits fact_source.splits)

lemma calm_missing:
  assumes "bt_get (pd_facts p) k = Some (Awaiting ConfirmedOutput a)"
  shows "calm lib lim p (p\<lparr>pd_facts := bt_insert k ExplicitlyMissing (pd_facts p)\<rparr>)"
  using assms
  by (intro calm_kept kept_missing) (auto simp: settled_def bt_get_insert facts_ok split: if_splits)

lemma calm_apply_confirmed_value:
  assumes "apply_confirmed_value k v lim p = (r, p')"
  shows "calm lib lim p p'"
proof (cases v)
  case (Found script)
  obtain r' q where q: "store_script k script (max_pending_script_bytes lim) p = (r', q)" by fastforce
  show ?thesis
    using assms calm_store [OF q] calm_trans [OF calm_store [OF q] calm_block [of lib lim q k]]
    by (cases r') (auto simp: Found q)
qed (use assms in \<open>auto simp: calm_missing calm_defer split: option.splits fact_state.splits fact_source.splits\<close>)

lemma calm_defer_one: "defer_one_capacity_blocked_fact p = (r, p') \<Longrightarrow> calm lib lim p p'"
  by (auto simp: defer_one_capacity_blocked_fact_def calm_block split: option.splits)

subsection \<open>Removal\<close>

lemma settled_drop: "bt_ok (pd_facts p) \<Longrightarrow> settled p (drop_unreferenced_facts p)"
  by (auto simp: settled_def drop_unreferenced_facts_def recount_script_bytes_def Let_def bt_get_retain
      split: option.splits if_splits)

lemma settled_prune:
  assumes "bt_ok (pd_facts p)"
  shows "settled p (prune_after_removal (p\<lparr>pd_active := filter Q (pd_active p)\<rparr>))"
proof -
  let ?q = "p\<lparr>pd_active := filter Q (pd_active p),
     pd_fair_order := filter (bt_contains (filter Q (pd_active p))) (pd_fair_order p)\<rparr>"
  have "settled p ?q" by (simp add: settled_facts)
  from settled_trans [OF this settled_drop [of ?q]] assms show ?thesis by (simp add: prune_after_removal_def)
qed

lemma calm_removal: "calm lib lim p (prune_after_removal (p\<lparr>pd_active := filter Q (pd_active p)\<rparr>))"
  using removal_inv [of lib lim p Q] prune_advances [of p Q] settled_prune [of p Q] facts_ok [of lib lim p]
  by (simp add: calm_def prune_after_removal_def)

lemma calm_defer_exhausted: "defer_exhausted_candidates p = (n, p') \<Longrightarrow> calm lib lim p p'"
  by (auto simp: defer_exhausted_candidates_def Let_def fold_bt_remove calm_removal split: if_splits)

lemma calm_classify: "classify_ready lib p = Some (rs, p') \<Longrightarrow> calm lib lim p p'"
  by (auto simp: classify_ready_def calm_removal dest!: classify_keys_removes)

lemma calm_defer_capacity:
  assumes "defer_capacity_blocked_candidate p = (n, p')"
  shows "calm lib lim p p'"
proof (cases "doomed_candidate p")
  case None
  with assms show ?thesis by (simp add: defer_capacity_blocked_candidate_def)
next
  case (Some key)
  let ?q = "p\<lparr>pd_active := bt_remove key (pd_active p), pd_fair_order := filter (\<lambda>k. k \<noteq> key) (pd_fair_order p)\<rparr>"
  have p': "p' = drop_unreferenced_facts ?q"
    using assms Some by (simp add: defer_capacity_blocked_candidate_def)
  have "settled p ?q" by (simp add: settled_facts)
  then have "settled p p'" if "pending_inv lib lim p"
    unfolding p' using settled_trans [OF _ settled_drop [of ?q]] facts_ok [OF that] by simp
  then show ?thesis
    using defer_capacity_inv [OF _ assms, of lib lim] defer_capacity_advances [OF assms]
    by (simp add: calm_def p' bt_remove_def)
qed

section \<open>The waves\<close>

text \<open>A wave spends attempts; each request it selects takes one from some fact.\<close>

fun tries :: "fact_state \<Rightarrow> fact_state \<Rightarrow> bool" where
  "tries (Awaiting source a) s \<longleftrightarrow> (\<exists>b. s = Awaiting source b \<and> a \<le> b)"
| "tries s t \<longleftrightarrow> t = s"

definition tried :: "pending_slice \<Rightarrow> pending_slice \<Rightarrow> bool" where
  "tried p p' \<longleftrightarrow> (\<forall>k. case bt_get (pd_facts p) k of None \<Rightarrow> bt_get (pd_facts p') k = None
     | Some s \<Rightarrow> \<exists>t. bt_get (pd_facts p') k = Some t \<and> tries s t)"

lemma tries_refl [simp]: "tries s s"
  by (cases s) simp_all

lemma tries_trans: "tries s t \<Longrightarrow> tries t u \<Longrightarrow> tries s u"
  by (cases s) auto

lemma tries_rank: "tries s t \<Longrightarrow> fact_rank t \<le> fact_rank s"
  by (cases s) (auto simp: word_le_nat_alt)

lemma tried_refl [simp]: "tried p p"
  by (simp add: tried_def split: option.splits)

lemma tried_facts: "pd_facts p' = pd_facts p \<Longrightarrow> tried p p'"
  by (simp add: tried_def split: option.splits)

lemma tried_trans:
  assumes "tried p q" "tried q r"
  shows "tried p r"
  unfolding tried_def
proof
  fix k
  show "case bt_get (pd_facts p) k of None \<Rightarrow> bt_get (pd_facts r) k = None
     | Some s \<Rightarrow> \<exists>t. bt_get (pd_facts r) k = Some t \<and> tries s t"
    using assms(1) [unfolded tried_def, rule_format, of k] assms(2) [unfolded tried_def, rule_format, of k]
    by (auto split: option.splits intro: tries_trans)
qed

lemma tried_rank_at: "tried p p' \<Longrightarrow> rank_at p' k \<le> rank_at p k"
  by (auto simp: tried_def rank_at_def tries_rank split: option.splits dest!: spec [of _ k])

lemma tried_parents: "tried p p' \<Longrightarrow> parents_current variants p \<Longrightarrow> parents_current variants p'"
proof -
  assume t: "tried p p'" and c: "parents_current variants p"
  have "bt_contains variants (op_txid k)" if k: "bt_get (pd_facts p') k = Some (Awaiting CurrentParent b)" for k b
  proof -
    obtain s where "bt_get (pd_facts p) k = Some s" "tries s (Awaiting CurrentParent b)"
      using t [unfolded tried_def, rule_format, of k] k by (auto split: option.splits)
    then show ?thesis using c by (cases s) (auto simp: parents_current_def)
  qed
  then show ?thesis by (simp add: parents_current_def)
qed

lemma unat_sat_inc8: "unat (sat_inc8 a) = (if a = 255 then 255 else unat a + 1)"
proof (cases "a = 255")
  case False
  then have "unat a \<noteq> 255" by (simp add: word_unat_eq_iff)
  moreover have "unat a < 256" using unsigned_less [of a] by simp
  ultimately show ?thesis using False by (simp add: sat_inc8_def unat_word_ariths)
qed (simp add: sat_inc8_def)

lemma attempt_left:
  "a < MAX_FACT_ATTEMPTS_PER_SOURCE_PER_WINDOW \<Longrightarrow> unat a < 2 \<and> unat (sat_inc8 a) = unat a + 1"
  by (auto simp: MAX_FACT_ATTEMPTS_PER_SOURCE_PER_WINDOW_def word_less_nat_alt unat_sat_inc8)

lemma tries_more: "tries s (one_more_attempt s)"
  by (cases s) (auto simp: word_le_nat_alt unat_sat_inc8)

text \<open>Any relation that a visit and a rotation respect is respected by the loops.\<close>

lemma wave_round_rel:
  assumes visit: "\<And>key w r w'. visit key w = (r, w') \<Longrightarrow> R w w'"
    and rotate: "\<And>w order. R w (w\<lparr>wv_pending := (wv_pending w)\<lparr>pd_fair_order := order\<rparr>\<rparr>)"
    and refl: "\<And>w. R w w" and trans: "\<And>u v w. R u v \<Longrightarrow> R v w \<Longrightarrow> R u w"
  shows "wave_round visit n w = (r, w') \<Longrightarrow> R w w'"
proof (induction n arbitrary: w)
  case 0
  then show ?case by (simp add: refl)
next
  case (Suc n)
  show ?case
  proof (cases "pd_fair_order (wv_pending w)")
    case Nil
    with Suc.prems show ?thesis by (simp add: refl)
  next
    case (Cons key rest)
    obtain b v where v: "visit key (w\<lparr>wv_pending := (wv_pending w)\<lparr>pd_fair_order := rest @ [key]\<rparr>\<rparr>) = (b, v)"
      by fastforce
    have "R w v" using rotate visit [OF v] by (rule trans)
    then show ?thesis using Suc.prems Cons v Suc.IH [of v] by (cases b) (auto intro: trans)
  qed
qed

lemma confirmed_loop_rel:
  assumes visit: "\<And>key w r w'. confirmed_visit n key w = (r, w') \<Longrightarrow> R w w'"
    and rotate: "\<And>w order. R w (w\<lparr>wv_pending := (wv_pending w)\<lparr>pd_fair_order := order\<rparr>\<rparr>)"
    and reset: "\<And>w. R w (w\<lparr>wv_added := False\<rparr>)"
    and refl: "\<And>w. R w w" and trans: "\<And>u v w. R u v \<Longrightarrow> R v w \<Longrightarrow> R u w"
  shows "R w (confirmed_wave_loop n w)"
  using visit
proof (induction n w rule: confirmed_wave_loop.induct)
  case (1 n w)
  obtain r v where v: "wave_round (confirmed_visit n) (length (pd_fair_order (wv_pending w)))
      (w\<lparr>wv_added := False\<rparr>) = (r, v)" by fastforce
  have "R (w\<lparr>wv_added := False\<rparr>) v" by (rule wave_round_rel [where R = R, OF 1(2) rotate refl trans v])
  then have k: "R w v" by (rule trans [OF reset])
  show ?case
  proof (cases "r \<or> \<not> wv_added v")
    case True
    then show ?thesis using k by (subst confirmed_wave_loop.simps) (auto simp: v split: bool.splits)
  next
    case False
    then show ?thesis
      using trans [OF k 1(1) [OF v [symmetric]]] 1(2) by (subst confirmed_wave_loop.simps) (simp add: v)
  qed
qed

lemma parent_loop_rel:
  assumes visit: "\<And>key w r w'. parent_visit codec variants lim key w = (r, w') \<Longrightarrow> R w w'"
    and rotate: "\<And>w order. R w (w\<lparr>wv_pending := (wv_pending w)\<lparr>pd_fair_order := order\<rparr>\<rparr>)"
    and reset: "\<And>w. R w (w\<lparr>wv_added := False\<rparr>)"
    and refl: "\<And>w. R w w" and trans: "\<And>u v w. R u v \<Longrightarrow> R v w \<Longrightarrow> R u w"
  shows "R w (parent_wave_loop codec variants lim w)"
  using visit
proof (induction codec variants lim w rule: parent_wave_loop.induct)
  case (1 codec variants lim w)
  obtain r v where v: "wave_round (parent_visit codec variants lim) (length (pd_fair_order (wv_pending w)))
      (w\<lparr>wv_added := False\<rparr>) = (r, v)" by fastforce
  have "R (w\<lparr>wv_added := False\<rparr>) v" by (rule wave_round_rel [where R = R, OF 1(2) rotate refl trans v])
  then have k: "R w v" by (rule trans [OF reset])
  show ?case
  proof (cases "r \<or> \<not> wv_added v")
    case True
    then show ?thesis using k by (subst parent_wave_loop.simps) (auto simp: v split: bool.splits)
  next
    case False
    then show ?thesis
      using trans [OF k 1(1) [OF v [symmetric]]] 1(2) by (subst parent_wave_loop.simps) (simp add: v)
  qed
qed

definition wave_spends :: "('a, 'b) wave \<Rightarrow> ('a, 'b) wave \<Rightarrow> bool" where
  "wave_spends w w' \<longleftrightarrow> tried (wv_pending w) (wv_pending w') \<and>
     (wv_selected w' = wv_selected w \<or> wv_selected w' \<noteq> [] \<and> pending_rank (wv_pending w') < pending_rank (wv_pending w))"

lemma wave_spends_refl [simp]: "wave_spends w w"
  by (simp add: wave_spends_def)

lemma wave_spends_trans: "wave_spends u v \<Longrightarrow> wave_spends v w \<Longrightarrow> wave_spends u w"
proof -
  have "pending_rank p' \<le> pending_rank p" if "tried p p'" for p p'
    using that by (intro pending_rank_le tried_rank_at)
  then show "wave_spends u v \<Longrightarrow> wave_spends v w \<Longrightarrow> wave_spends u w"
    unfolding wave_spends_def by (metis order.strict_trans1 order.strict_trans2 tried_trans)
qed

lemma wave_spends_same:
  "pd_facts (wv_pending w') = pd_facts (wv_pending w) \<Longrightarrow> wv_selected w' = wv_selected w \<Longrightarrow> wave_spends w w'"
  by (simp add: wave_spends_def tried_facts)

lemma pick_fact_facts: "pick_fact P key w = (k, v) \<Longrightarrow> pd_facts (wv_pending v) = pd_facts (wv_pending w)"
  by (auto simp: pick_fact_def Let_def split: option.splits prod.splits)

lemma confirmed_visit_spends:
  assumes "confirmed_visit n key w = (r, w')"
  shows "wave_spends w w'"
proof -
  obtain k v where v: "pick_fact (confirmed_selectable (wv_seen w)) key w = (k, v)" by fastforce
  note frame = pick_fact_frame [OF v] and facts = pick_fact_facts [OF v]
  show ?thesis
  proof (cases k)
    case None
    then show ?thesis using assms v frame facts by (simp add: confirmed_visit_def wave_spends_same)
  next
    case (Some x)
    obtain state where state: "bt_get (pd_facts (wv_pending w)) x = Some state" "confirmed_selectable (wv_seen w) x state"
      using pick_fact_Some(1) [OF v [unfolded Some]] by blast
    obtain source a where s: "state = Awaiting source a" "a < MAX_FACT_ATTEMPTS_PER_SOURCE_PER_WINDOW"
      using state(2) by (cases "(wv_seen w, x, state)" rule: confirmed_selectable.cases) auto
    have w': "wv_pending w' = record_fact_attempt x (wv_pending v)" "wv_selected w' = wv_selected v @ [x]"
      using assms v Some by (auto simp: confirmed_visit_def Let_def)
    have get: "bt_get (pd_facts (wv_pending w')) k =
        map_option (if k = x then one_more_attempt else id) (bt_get (pd_facts (wv_pending w)) k)" for k
      by (simp add: w' record_fact_attempt_get facts)
    have t: "tried (wv_pending w) (wv_pending w')"
      by (auto simp: tried_def get tries_more split: option.splits)
    have "rank_at (wv_pending w') x < rank_at (wv_pending w) x"
      using s attempt_left [OF s(2)]
      by (auto simp: rank_at_def get state(1) MAX_FACT_ATTEMPTS_PER_SOURCE_PER_WINDOW_def)
    then have "pending_rank (wv_pending w') < pending_rank (wv_pending w)"
      by (rule pending_rank_less [OF tried_rank_at [OF t]])
    then show ?thesis using t by (simp add: wave_spends_def w')
  qed
qed

lemma record_parent_attempt_tried: "tried p (record_parent_attempt t p)"
  by (auto simp: tried_def record_parent_attempt_def bt_get_map_values word_le_nat_alt unat_sat_inc8
      split: option.splits fact_state.splits fact_source.splits)

lemma parent_visit_spends:
  assumes "parent_visit codec variants lim key w = (r, w')"
  shows "wave_spends w w'"
proof -
  obtain k v where v: "pick_fact (parent_selectable (wv_seen w)) key w = (k, v)" by fastforce
  note frame = pick_fact_frame [OF v] and facts = pick_fact_facts [OF v]
  have same: ?thesis if "w' = v" using that frame facts by (simp add: wave_spends_same)
  show ?thesis
  proof (cases "w' = v \<or> k = None")
    case True
    then show ?thesis using same assms v by (auto simp: parent_visit_def)
  next
    case False
    then obtain x where x: "k = Some x" by blast
    obtain a where a: "bt_get (pd_facts (wv_pending w)) x = Some (Awaiting CurrentParent a)"
      "a < MAX_FACT_ATTEMPTS_PER_SOURCE_PER_WINDOW"
      using pick_fact_Some(1) [OF v [unfolded x]] by (auto simp: parent_selectable_iff)
    have w': "wv_pending w' = record_parent_attempt (op_txid x) (wv_pending v)" "\<exists>e. wv_selected w' = wv_selected v @ [e]"
      using assms v x False by (auto simp: parent_visit_def Let_def split: option.splits if_splits)
    have "tried (wv_pending w) (wv_pending v)" by (simp add: tried_facts facts)
    then have t: "tried (wv_pending w) (wv_pending w')"
      unfolding w'(1) using record_parent_attempt_tried by (rule tried_trans)
    have "rank_at (wv_pending w') x < rank_at (wv_pending w) x"
      using a(1) attempt_left [OF a(2)]
      by (auto simp: rank_at_def w'(1) record_parent_attempt_def bt_get_map_values facts
          MAX_FACT_ATTEMPTS_PER_SOURCE_PER_WINDOW_def)
    then have "pending_rank (wv_pending w') < pending_rank (wv_pending w)"
      by (rule pending_rank_less [OF tried_rank_at [OF t]])
    then show ?thesis using t w'(2) by (auto simp: wave_spends_def)
  qed
qed

lemma wave_spends_frame:
  "wave_spends w (w\<lparr>wv_pending := (wv_pending w)\<lparr>pd_fair_order := order\<rparr>\<rparr>)" "wave_spends w (w\<lparr>wv_added := b\<rparr>)"
  by (simp_all add: wave_spends_same)

lemma confirmed_wave_spends: "wave_spends w (confirmed_wave_loop n w)"
  by (rule confirmed_loop_rel)
    (auto intro: confirmed_visit_spends wave_spends_frame wave_spends_trans)

lemma parent_wave_spends: "wave_spends w (parent_wave_loop codec variants lim w)"
  by (rule parent_loop_rel)
    (auto intro: parent_visit_spends wave_spends_frame wave_spends_trans)

text \<open>What a wave does to the load.\<close>

lemma wave_load:
  assumes "kept lib lim p p'" "pending_inv lib lim p" "tried p p'"
    "es = [] \<or> pending_rank p' < pending_rank p"
  shows "load p' \<le> load p" "es \<noteq> [] \<Longrightarrow> load p' < load p"
proof -
  have "pd_queued p' = pd_queued p" "length (pd_active p') = length (pd_active p)"
    using assms(1,2) shape_sizes [of p' p] by (simp_all add: kept_def)
  moreover have "pending_rank p' \<le> pending_rank p" by (rule pending_rank_le [OF tried_rank_at [OF assms(3)]])
  ultimately show "load p' \<le> load p" "es \<noteq> [] \<Longrightarrow> load p' < load p"
    using assms(4) by (auto simp: load_def)
qed

lemma next_confirmed_spends:
  assumes "next_confirmed_wave lim p = (es, p')"
  shows "tried p p'" "es = [] \<or> pending_rank p' < pending_rank p"
  using assms confirmed_wave_spends [of "wave_start p" "confirmed_wave_maximum lim p"]
  by (auto simp: next_confirmed_wave_def wave_spends_def wave_start_def Let_def split: if_splits)

lemma next_parent_spends:
  assumes "next_parent_wave codec variants lim p = (es, p')"
  shows "tried p p'" "es = [] \<or> pending_rank p' < pending_rank p"
  using assms parent_wave_spends [of "wave_start p" codec variants lim]
  by (auto simp: next_parent_wave_def wave_spends_def wave_start_def Let_def split: if_splits)

subsection \<open>What a wave leaves\<close>

text \<open>A fact used up by a wave is one that the wave requested.\<close>

lemma facts_needed:
  assumes "pending_inv lib lim p" "bt_get (pd_facts p) k = Some state"
  shows "\<exists>key c. key \<in> set (pd_fair_order p) \<and> bt_get (pd_active p) key = Some c \<and> k \<in> set (pc_required c)"
proof -
  have inv: "set (bt_keys (pd_facts p)) = needed p" "bt_ok (pd_active p)"
    "mset (pd_fair_order p) = mset (bt_keys (pd_active p))"
    using assms(1) by (simp_all add: pending_inv_def slice_inv_def)
  have "k \<in> needed p" using map_of_SomeD [OF assms(2)] unfolding inv(1) [symmetric] by force
  then obtain key c where c: "(key, c) \<in> set (pd_active p)" "k \<in> set (pc_required c)"
    by (auto simp: needed_def)
  moreover have "key \<in> set (pd_fair_order p)" using c(1) inv(3) [THEN mset_eq_setD] by force
  ultimately show ?thesis using inv(2) by (auto simp: bt_get_iff)
qed

lemma confirmed_wave_exhausts:
  assumes "pending_inv lib lim p" "sizes_ok p" "next_confirmed_wave lim p = (ks, p')"
  shows "exhausted p' \<subseteq> exhausted p \<union> set ks"
    and "k \<in> set ks \<Longrightarrow> bt_get (pd_facts p') k \<noteq> Some (Awaiting CurrentParent a)"
proof -
  note spec = next_confirmed_wave_spec [OF assms]
  show "exhausted p' \<subseteq> exhausted p \<union> set ks"
    using spec by (auto simp: exhausted_def split: if_splits)
  assume "k \<in> set ks"
  then obtain state where "bt_get (pd_facts p) k = Some state" "confirmed_selectable [] k state" using spec by blast
  then show "bt_get (pd_facts p') k \<noteq> Some (Awaiting CurrentParent a)"
    using spec by (cases "([] :: out_point list, k, state)" rule: confirmed_selectable.cases) (auto split: if_splits)
qed

lemma confirmed_wave_quiet:
  assumes "pending_inv lib lim p" "sizes_ok p" "next_confirmed_wave lim p = ([], p')"
    "has_pending_script_capacity lim p"
  shows "bt_get (pd_facts p) k = Some state \<Longrightarrow> \<not> confirmed_selectable [] k state"
    and "pd_facts p' = pd_facts p"
proof -
  note spec = next_confirmed_wave_spec [OF assms(1-3)]
  have "0 < confirmed_wave_maximum lim p"
    using assms(4) by (auto simp: confirmed_wave_maximum_def has_pending_script_capacity_def Let_def)
  then show "bt_get (pd_facts p) k = Some state \<Longrightarrow> \<not> confirmed_selectable [] k state" using spec by auto
  have "kept lib lim p p'" by (rule kept_next_confirmed_wave [OF assms(3)])
  then show "pd_facts p' = pd_facts p"
    using spec assms(1) facts_ok by (intro bt_ext) (auto simp: kept_def option.map_id)
qed

definition others_kept :: "pending_slice \<Rightarrow> pending_slice \<Rightarrow> bool" where
  "others_kept p p' \<longleftrightarrow> (\<forall>k. (\<forall>a. bt_get (pd_facts p) k \<noteq> Some (Awaiting CurrentParent a)) \<longrightarrow>
     bt_get (pd_facts p') k = bt_get (pd_facts p) k)"

lemma others_kept_facts: "pd_facts p' = pd_facts p \<Longrightarrow> others_kept p p'"
  by (simp add: others_kept_def)

lemma record_parent_attempt_others: "others_kept p (record_parent_attempt t p)"
proof -
  have "bt_get (pd_facts (record_parent_attempt t p)) k = bt_get (pd_facts p) k"
    if "\<forall>a. bt_get (pd_facts p) k \<noteq> Some (Awaiting CurrentParent a)" for k
  proof (cases "bt_get (pd_facts p) k")
    case (Some s)
    then show ?thesis
      using that by (cases s) (auto simp: record_parent_attempt_def bt_get_map_values split: fact_source.splits)
  qed (simp add: record_parent_attempt_def bt_get_map_values)
  then show ?thesis by (simp add: others_kept_def)
qed

lemma parent_visit_others:
  assumes "parent_visit codec variants lim key w = (r, w')"
  shows "others_kept (wv_pending w) (wv_pending w')"
proof -
  obtain k v where v: "pick_fact (parent_selectable (wv_seen w)) key w = (k, v)" by fastforce
  have "pd_facts (wv_pending w') = pd_facts (wv_pending w) \<or>
      (\<exists>t. pd_facts (wv_pending w') = pd_facts (record_parent_attempt t (wv_pending w)))"
    using assms pick_fact_facts [OF v]
    by (auto simp: parent_visit_def v Let_def record_parent_attempt_def split: option.splits if_splits)
  then show ?thesis
    using record_parent_attempt_others [of "wv_pending w"] by (auto simp: others_kept_def)
qed

lemma others_kept_trans:
  assumes "others_kept p q" "others_kept q r"
  shows "others_kept p r"
  using assms unfolding others_kept_def by metis

lemma next_parent_others:
  assumes "next_parent_wave codec variants lim p = (es, p')"
  shows "others_kept p p'"
proof -
  let ?R = "\<lambda>w w'. others_kept (wv_pending w) (wv_pending w')"
  have "?R (wave_start p :: (expected_variant, txid) wave) (parent_wave_loop codec variants lim (wave_start p))"
    by (rule parent_loop_rel [where R = ?R]) (auto intro: parent_visit_others others_kept_trans others_kept_facts)
  then show ?thesis
    using assms by (auto simp: next_parent_wave_def wave_start_def Let_def others_kept_facts split: if_splits)
qed

text \<open>The parents a wave asks for, and the facts that may now be used up.\<close>

lemma parent_wave_exhausts:
  assumes "next_parent_wave codec variants lim p = (es, p')" "\<And>t. parse_txid codec (show_txid codec t) = Some t"
    and "selected = List.map_filter (\<lambda>e. parse_txid codec (ev_txid e)) es"
    and "k \<in> exhausted p'" "k \<notin> exhausted p"
  shows "op_txid k \<in> set selected"
proof (cases "has_pending_script_capacity lim p")
  case True
  have start: "parent_wave_ok codec variants p (wave_start p)"
    by (simp add: parent_wave_ok_def wave_start_def response_bytes_of_def)
  have "wv_selected (wave_start p :: (expected_variant, txid) wave) = []" by (simp add: wave_start_def)
  note loop = parent_loop_ok [OF start disjI2 [OF this], of lim]
  then obtain ts where ts: "list_all2 (parent_request codec variants p) ts es"
    "\<forall>k. op_txid k \<notin> set ts \<longrightarrow> bt_get (pd_facts p') k = bt_get (pd_facts p) k"
    using assms(1) True by (auto simp: next_parent_wave_def parent_wave_ok_def Let_def)
  have t: "op_txid k \<in> set ts" using ts(2) assms(4,5) by (auto simp: exhausted_def)
  then obtain e where "e \<in> set es" "parent_request codec variants p (op_txid k) e"
    using ts(1) by (metis (no_types) in_set_conv_nth list_all2_conv_all_nth)
  then have "e \<in> set es" "parse_txid codec (ev_txid e) = Some (op_txid k)"
    using assms(2) by (auto simp: parent_request_def)
  then show ?thesis by (force simp: assms(3) List.map_filter_def)
next
  case False
  then show ?thesis using assms(1,4,5) by (simp add: next_parent_wave_def)
qed

text \<open>A parent wave that asks for nothing found no fact that waits for a parent with attempts left.\<close>

lemma parent_visit_quiet:
  assumes "parent_visit codec variants lim key w = (r, w')" "wv_selected w' = []" "scannable (wv_pending w)"
    "wv_seen w = []" "parents_current variants (wv_pending w)"
  shows "w' = w" "\<not> r"
    "\<And>c k a. bt_get (pd_active (wv_pending w)) key = Some c \<Longrightarrow> k \<in> set (pc_required c) \<Longrightarrow>
       bt_get (pd_facts (wv_pending w)) k = Some (Awaiting CurrentParent a) \<Longrightarrow>
       MAX_FACT_ATTEMPTS_PER_SOURCE_PER_WINDOW \<le> a"
proof -
  obtain k v where v: "pick_fact (parent_selectable (wv_seen w)) key w = (k, v)" by fastforce
  note frame = pick_fact_frame [OF v]
  have k: "k = None"
  proof (rule ccontr)
    assume "k \<noteq> None"
    then obtain x where x: "k = Some x" by blast
    obtain a where "bt_get (pd_facts (wv_pending w)) x = Some (Awaiting CurrentParent a)"
      using pick_fact_Some(1) [OF v [unfolded x]] by (auto simp: parent_selectable_iff)
    then obtain parent where "bt_get variants (op_txid x) = Some parent"
      using assms(5) by (auto simp: parents_current_def bt_contains_def)
    then show False
      using assms(1,2) frame by (auto simp: parent_visit_def v x Let_def split: if_splits)
  qed
  have sc: "bt_ok (pd_active (wv_pending w))" "cursors_ok (pd_active (wv_pending w))"
    "\<forall>(key, c) \<in> set (pd_active (wv_pending w)). 2 * length (pc_required c) \<le> usize_max"
    using assms(3) by (simp_all add: scannable_def)
  note none = pick_fact_None [OF v [unfolded k] sc]
  show "w' = w" "\<not> r" using assms(1) v none(1) k by (simp_all add: parent_visit_def)
  show "\<And>c k a. bt_get (pd_active (wv_pending w)) key = Some c \<Longrightarrow> k \<in> set (pc_required c) \<Longrightarrow>
       bt_get (pd_facts (wv_pending w)) k = Some (Awaiting CurrentParent a) \<Longrightarrow>
       MAX_FACT_ATTEMPTS_PER_SOURCE_PER_WINDOW \<le> a"
    using none(2) assms(4) by (fastforce simp: parent_selectable_iff)
qed

lemma parent_selected_grows:
  assumes "wave_spends w w'"
  shows "wv_selected w' = [] \<Longrightarrow> wv_selected w = []"
  using assms by (auto simp: wave_spends_def)

lemma parent_round_spends: "wave_round (parent_visit codec variants lim) n w = (r, w') \<Longrightarrow> wave_spends w w'"
  by (rule wave_round_rel [where R = wave_spends])
    (auto intro: parent_visit_spends wave_spends_frame wave_spends_trans)

lemma parent_round_quiet:
  assumes "wave_round (parent_visit codec variants lim) m w = (r, w')" "wv_selected w' = []"
    "scannable (wv_pending w)" "wv_seen w = []" "parents_current variants (wv_pending w)"
    "m \<le> length (pd_fair_order (wv_pending w))" "key \<in> set (take m (pd_fair_order (wv_pending w)))"
    "bt_get (pd_active (wv_pending w)) key = Some c" "k \<in> set (pc_required c)"
    "bt_get (pd_facts (wv_pending w)) k = Some (Awaiting CurrentParent a)"
  shows "MAX_FACT_ATTEMPTS_PER_SOURCE_PER_WINDOW \<le> a"
  using assms
proof (induction m arbitrary: w)
  case 0
  then show ?case by simp
next
  case (Suc m)
  note prems = Suc.prems
  obtain first rest where fair: "pd_fair_order (wv_pending w) = first # rest"
    using prems(6) by (cases "pd_fair_order (wv_pending w)") auto
  let ?w = "w\<lparr>wv_pending := (wv_pending w)\<lparr>pd_fair_order := rest @ [first]\<rparr>\<rparr>"
  obtain b v where v: "parent_visit codec variants lim first ?w = (b, v)" by fastforce
  have sc: "scannable (wv_pending ?w)" "parents_current variants (wv_pending ?w)" "wv_seen ?w = []"
    using prems(3-5) by (simp_all add: scannable_def parents_current_def)
  have none: "wv_selected v = []"
  proof (cases b)
    case True
    then show ?thesis using prems(1,2) fair v by simp
  next
    case False
    then have "wave_round (parent_visit codec variants lim) m v = (r, w')" using prems(1) fair v by simp
    from parent_selected_grows [OF parent_round_spends [OF this]] prems(2) show ?thesis by simp
  qed
  note q = parent_visit_quiet [OF v none sc(1) sc(3) sc(2)]
  have round: "wave_round (parent_visit codec variants lim) m ?w = (r, w')"
    using prems(1) fair v q(1,2) by simp
  show ?case
  proof (cases "key = first")
    case True
    then show ?thesis using q(3) [of c k a] prems(8-10) by simp
  next
    case False
    then show ?thesis
      using Suc.IH [OF round prems(2) sc(1) sc(3) sc(2)] prems(6-10) fair by simp
  qed
qed

lemma parent_wave_quiet:
  assumes "pending_inv lib lim p" "sizes_ok p" "parents_current variants p"
    "next_parent_wave codec variants lim p = ([], p')" "has_pending_script_capacity lim p"
    "bt_get (pd_facts p) k = Some (Awaiting CurrentParent a)"
  shows "MAX_FACT_ATTEMPTS_PER_SOURCE_PER_WINDOW \<le> a"
proof -
  let ?w = "wave_start p :: (expected_variant, txid) wave" and ?m = "length (pd_fair_order p)"
  obtain r v where v: "wave_round (parent_visit codec variants lim) ?m (?w\<lparr>wv_added := False\<rparr>) = (r, v)" by fastforce
  have start: "wv_pending ?w = p" "wv_seen ?w = []" by (simp_all add: wave_start_def)
  have "wv_selected (parent_wave_loop codec variants lim ?w) = []"
    using assms(4,5) by (simp add: next_parent_wave_def Let_def)
  moreover have "wave_spends v (parent_wave_loop codec variants lim ?w)"
    using parent_wave_spends [of v codec variants lim] v
    by (subst parent_wave_loop.simps) (auto simp: start split: bool.splits)
  ultimately have none: "wv_selected v = []" by (metis parent_selected_grows)
  have sc: "scannable p"
    using assms(1,2) by (simp add: scannable_def pending_inv_def slice_inv_def sizes_ok_def)
  obtain key c where "key \<in> set (pd_fair_order p)" "bt_get (pd_active p) key = Some c" "k \<in> set (pc_required c)"
    using facts_needed [OF assms(1,6)] by blast
  then show ?thesis
    using parent_round_quiet [OF v none, of key c k a] sc assms(3,6) by (simp add: start)
qed

section \<open>Answers\<close>

text \<open>An answered fact is not left with its attempts used up.\<close>

lemma answered_store_or_block:
  "bt_ok (pd_facts (snd (snd acc))) \<Longrightarrow> k \<notin> exhausted (snd (snd (store_or_block lim k script acc)))"
proof -
  assume ok: "bt_ok (pd_facts (snd (snd acc)))"
  obtain a b p where acc: "acc = (a, b, p)" by (cases acc) auto
  obtain r q where q: "store_script k script (max_pending_script_bytes lim) p = (r, q)" by fastforce
  have "bt_get (pd_facts q) k = Some (Ready script) \<or> (\<exists>s. bt_get (pd_facts q) k = Some (Ready s))" if r
    using q that by (auto simp: store_script_def admit_script_def bt_get_modify
        split: option.splits fact_state.splits if_splits)
  moreover have "q = p" if "\<not> r"
    using q that by (auto simp: store_script_def admit_script_def split: option.splits fact_state.splits if_splits)
  moreover have "bt_ok (pd_facts p)" using ok by (simp add: acc)
  ultimately show ?thesis
    by (cases r) (auto simp: acc store_or_block_def q exhausted_def mark_capacity_blocked_eq bt_get_modify
        split: fact_state.splits)
qed

lemma answered_defer: "k \<notin> exhausted (defer_if_attempts_exhausted k p)"
  by (auto simp: exhausted_def defer_if_attempts_exhausted_def defer_fact_def bt_get_modify
      split: option.splits fact_state.splits if_splits)

lemma answered_parent_output:
  "bt_ok (pd_facts (snd (snd acc))) \<Longrightarrow> k \<notin> exhausted (snd (snd (apply_parent_output outputs lim k acc)))"
  using answered_store_or_block [of acc k lim]
  by (cases acc) (auto simp: apply_parent_output_def answered_defer split: option.splits)

lemma calm_exhausted: "calm lib lim p p' \<Longrightarrow> pending_inv lib lim p \<Longrightarrow> exhausted p' \<subseteq> exhausted p"
  by (simp add: calm_def settled_exhausted)

lemma calm_inv: "calm lib lim p p' \<Longrightarrow> pending_inv lib lim p \<Longrightarrow> pending_inv lib lim p'"
  by (simp add: calm_def)

lemma answered_fold:
  assumes calm: "\<And>x acc. calm lib lim (snd (snd acc)) (snd (snd (f x acc)))"
    and step: "\<And>x acc. pending_inv lib lim (snd (snd acc)) \<Longrightarrow> x \<notin> exhausted (snd (snd (f x acc)))"
  shows "pending_inv lib lim (snd (snd acc)) \<Longrightarrow> x \<in> set xs \<Longrightarrow> x \<notin> exhausted (snd (snd (fold f xs acc)))"
proof (induction xs arbitrary: acc)
  case (Cons y xs)
  let ?acc = "f y acc"
  have inv: "pending_inv lib lim (snd (snd ?acc))" using calm_inv [OF calm Cons.prems(1)] .
  have "exhausted (snd (snd (fold f xs ?acc))) \<subseteq> exhausted (snd (snd ?acc))"
    using calm_exhausted [OF calm_fold [OF calm] inv] .
  then show ?case using Cons.IH [OF inv] Cons.prems step [OF Cons.prems(1), of y] by auto
qed simp

text \<open>No fact that waits for this parent has used up its attempts.\<close>

definition answered :: "pending_slice \<Rightarrow> txid \<Rightarrow> bool" where
  "answered p t \<longleftrightarrow> (\<forall>k a. op_txid k = t \<longrightarrow> bt_get (pd_facts p) k = Some (Awaiting CurrentParent a) \<longrightarrow>
     \<not> MAX_FACT_ATTEMPTS_PER_SOURCE_PER_WINDOW \<le> a)"

lemma settled_waiting:
  "settled p p' \<Longrightarrow> bt_get (pd_facts p') k = Some (Awaiting CurrentParent a) \<Longrightarrow>
    bt_get (pd_facts p) k = Some (Awaiting CurrentParent a)"
  unfolding settled_def by fastforce

lemma settled_answered: "settled p p' \<Longrightarrow> answered p t \<Longrightarrow> answered p' t"
  using settled_waiting unfolding answered_def by blast

lemma answered_parent_transaction:
  assumes "apply_parent_transaction codec e tx lim p = (out, a, b, p')" "parse_txid codec (ev_txid e) = Some t"
    "pending_inv lib lim p"
  shows "answered p' t"
proof -
  let ?f = "apply_parent_output (cached_outputs_of e tx) lim" and ?ks = "waiting_for_parent t p"
  have p': "p' = snd (snd (fold ?f ?ks (0, 0, p)))"
    using assms(1,2) by (auto simp: apply_parent_transaction_def Let_def)
  have step: "x \<notin> exhausted (snd (snd (?f x acc)))" if "pending_inv lib lim (snd (snd acc))" for x acc
    by (rule answered_parent_output [OF facts_ok [OF that]])
  have off: "k \<notin> exhausted p'" if "k \<in> set ?ks" for k
    unfolding p' by (rule answered_fold [OF calm_apply_parent_output step _ that]) (use assms(3) in simp_all)
  have "k \<in> set ?ks" if "op_txid k = t" "bt_get (pd_facts p') k = Some (Awaiting CurrentParent c)" for k c
  proof -
    have "calm lib lim p p'" by (rule calm_apply_parent_transaction [OF assms(1)])
    then have "bt_get (pd_facts p) k = Some (Awaiting CurrentParent c)"
      using settled_waiting [OF _ that(2)] assms(3) by (auto simp: calm_def)
    then show ?thesis using that(1) map_of_SomeD by (force simp: waiting_for_parent_def)
  qed
  then show ?thesis using off by (fastforce simp: answered_def exhausted_def)
qed

lemma fall_back_answered: "answered (fall_back_parent_to_gettxout t p) t"
proof -
  have "bt_get (pd_facts (fall_back_parent_to_gettxout t p)) k \<noteq> Some (Awaiting CurrentParent a)"
    if "op_txid k = t" for k a
  proof (cases "bt_get (pd_facts p) k")
    case (Some s)
    then show ?thesis
      using that by (cases s) (auto simp: fall_back_parent_to_gettxout_def bt_get_map_values split: fact_source.splits)
  qed (simp add: fall_back_parent_to_gettxout_def bt_get_map_values)
  then show ?thesis by (simp add: answered_def)
qed

lemma confirmed_value_answers:
  assumes "apply_confirmed_value k v lim p = (r, p')" "v \<noteq> SystemicFailure" "bt_ok (pd_facts p)"
    "\<And>a. bt_get (pd_facts p) k \<noteq> Some (Awaiting CurrentParent a)"
  shows "k \<notin> exhausted p'"
proof (cases v)
  case (Found script)
  have "snd (snd (store_or_block lim k script (0, 0, p))) = p'"
    using assms(1) by (auto simp: Found store_or_block_def split: prod.splits bool.splits)
  then show ?thesis using answered_store_or_block [of "(0, 0, p)" k lim script] assms(3) by simp
next
  case ExplicitNull
  then show ?thesis
    using assms answered_defer [of k p]
    by (auto simp: bt_get_insert exhausted_def split: option.splits fact_state.splits fact_source.splits)
qed (use assms answered_defer [of k p] in auto)

section \<open>Removals that remove nothing\<close>

lemma prune_id:
  assumes "pending_inv lib lim p"
  shows "prune_after_removal p = p"
proof -
  have inv: "set (bt_keys (pd_facts p)) = needed p" "mset (pd_fair_order p) = mset (bt_keys (pd_active p))"
    "facts_inv (max_pending_script_bytes lim) p"
    using assms by (simp_all add: pending_inv_def slice_inv_def)
  have "filter (bt_contains (pd_active p)) (pd_fair_order p) = pd_fair_order p"
    using inv(2) [THEN mset_eq_setD] by (intro filter_True) (simp flip: bt_keys_contains)
  moreover have "bt_retain (\<lambda>k _. k \<in> needed p) (pd_facts p) = pd_facts p"
    unfolding bt_retain_def inv(1) [symmetric] by (intro filter_True) force
  moreover have "set (bs_of_list (concat (map (pc_required \<circ> snd) (pd_active p)))) = needed p"
    by (auto simp: needed_def)
  ultimately have "prune_after_removal p = recount_script_bytes p"
    by (simp add: prune_after_removal_def drop_unreferenced_facts_def Let_def)
  then show ?thesis using recount_id [OF inv(3)] by simp
qed

lemma pruned_active: "pd_active (prune_after_removal p) = pd_active p"
  by (simp add: prune_after_removal_def)

lemma full_filter: "length (filter P xs) = length xs \<Longrightarrow> filter P xs = xs"
  by (metis filter_True length_filter_less nless_le)

lemma classify_none:
  assumes "classify_ready lib p = Some (rs, p')" "pending_inv lib lim p"
    "length (pd_active p') = length (pd_active p)"
  shows "p' = p" "ready_keys p = []"
proof -
  let ?P = "\<lambda>e. fst e \<notin> set (ready_keys p)"
  obtain rs' q where q: "classify_keys lib (ready_keys p) p = Some (rs', q)" "p' = prune_after_removal q"
    using assms(1) by (auto simp: classify_ready_def)
  have q': "q = p\<lparr>pd_active := filter ?P (pd_active p)\<rparr>" by (rule classify_keys_removes [OF q(1)])
  then have "filter ?P (pd_active p) = pd_active p" using assms(3) q(2) by (intro full_filter) (simp add: pruned_active)
  then have keep: "\<forall>e \<in> set (pd_active p). ?P e" by (simp add: filter_id_conv)
  show "p' = p" using q(2) q' \<open>filter ?P (pd_active p) = pd_active p\<close> prune_id [OF assms(2)] by simp
  have "set (ready_keys p) \<subseteq> fst ` set (pd_active p)" by (auto simp: ready_keys_def)
  then have "set (ready_keys p) = {}" using keep by (metis imageE subset_empty subsetD subsetI)
  then show "ready_keys p = []" by simp
qed

lemma defer_exhausted_none:
  assumes "defer_exhausted_candidates p = (n, p')" "length (pd_active p') = length (pd_active p)"
  shows "p' = p" "(key, c) \<in> set (pd_active p) \<Longrightarrow> k \<in> set (pc_required c) \<Longrightarrow>
    bt_get (pd_facts p) k \<noteq> Some OperationallyDeferred"
proof -
  let ?doomed = "map fst (filter (\<lambda>(key, c). list_ex (deferred_fact p) (pc_required c)) (pd_active p))"
  have none: "?doomed = []"
  proof (rule ccontr)
    assume some: "?doomed \<noteq> []"
    then have "pd_active p' = filter (\<lambda>e. fst e \<notin> set ?doomed) (pd_active p)"
      using assms(1) by (auto simp: defer_exhausted_candidates_def Let_def fold_bt_remove pruned_active)
    then have "\<forall>e \<in> set (pd_active p). fst e \<notin> set ?doomed"
      using full_filter assms(2) by (metis filter_id_conv)
    then show False using some by (auto simp: filter_empty_conv)
  qed
  then show "p' = p" using assms(1) by (simp add: defer_exhausted_candidates_def)
  show "(key, c) \<in> set (pd_active p) \<Longrightarrow> k \<in> set (pc_required c) \<Longrightarrow>
      bt_get (pd_facts p) k \<noteq> Some OperationallyDeferred"
    using none by (auto simp: filter_empty_conv deferred_fact_def list_ex_iff)
qed

lemma doomed_step_Some: "fst acc \<noteq> None \<Longrightarrow> fst (doomed_step p counts key acc) \<noteq> None"
  by (auto simp: doomed_step_def Let_def split: prod.splits option.splits)

lemma doomed_none:
  assumes "doomed_candidate p = None" "key \<in> set (pd_fair_order p)" "bt_get (pd_active p) key = Some c"
  shows "\<not> list_ex (blocked_fact p) (pc_required c)"
proof
  let ?f = "doomed_step p (reference_counts p)"
  assume blocked: "list_ex (blocked_fact p) (pc_required c)"
  have stays: "fst acc \<noteq> None \<Longrightarrow> fst (fold ?f ks acc) \<noteq> None" for ks acc
  proof (induction ks arbitrary: acc)
    case (Cons k ks)
    show ?case using Cons.IH [OF doomed_step_Some [OF Cons.prems]] by simp
  qed simp
  have now: "fst (?f key acc) \<noteq> None" for acc
    using assms(3) blocked by (cases acc) (auto simp: doomed_step_def Let_def)
  obtain xs ys where "pd_fair_order p = xs @ key # ys" using assms(2) by (meson split_list)
  then have "fst (fold ?f (pd_fair_order p) (None, 0)) \<noteq> None" using stays now by simp
  then show False using assms(1) by (simp add: doomed_candidate_def)
qed

lemma find_map_None: "find_map f xs = None \<longleftrightarrow> (\<forall>x \<in> set xs. f x = None)"
  by (induction xs) (auto split: option.splits)

lemma find_map_Some: "find_map f xs = Some y \<Longrightarrow> \<exists>x \<in> set xs. f x = Some y"
  by (induction xs) (auto split: option.splits)

lemma defer_one_blocks:
  assumes "defer_one_capacity_blocked_fact p = (r, p')" "pending_inv lib lim p"
    "bt_get (pd_facts p) k = Some (Awaiting source a)"
  shows "pending_rank p' < pending_rank p"
proof -
  obtain key c where c: "key \<in> set (pd_fair_order p)" "bt_get (pd_active p) key = Some c" "k \<in> set (pc_required c)"
    using facts_needed [OF assms(2,3)] by blast
  let ?f = "\<lambda>key. Option.bind (bt_get (pd_active p) key) (\<lambda>c. List.find (awaiting_fact p) (pc_required c))"
  have "List.find (awaiting_fact p) (pc_required c) \<noteq> None"
    using c(3) assms(3) by (auto simp: find_None_iff awaiting_fact_def)
  then have "?f key \<noteq> None" using c(2) by simp
  then have "find_map ?f (pd_fair_order p) \<noteq> None"
    using bspec [OF _ c(1), of "\<lambda>x. ?f x = None"] by (auto simp only: find_map_None)
  then obtain x where x: "find_map ?f (pd_fair_order p) = Some x" by blast
  have "awaiting_fact p x"
    using find_map_Some [OF x] by (auto simp: bind_eq_Some_conv find_Some_iff)
  then obtain src b where s: "bt_get (pd_facts p) x = Some (Awaiting src b)"
    by (auto simp: awaiting_fact_def split: option.splits fact_state.splits)
  have p': "p' = mark_capacity_blocked x p" using assms(1) x by (simp add: defer_one_capacity_blocked_fact_def)
  have ok: "bt_ok (pd_facts p)" by (rule facts_ok [OF assms(2)])
  have "rank_at p' x < rank_at p x"
    by (simp add: p' mark_capacity_blocked_eq [OF ok] rank_at_def bt_get_modify s)
  moreover have "settled p p'" unfolding p' using ok by (rule settled_block)
  ultimately show ?thesis using pending_rank_less [OF settled_rank_at] by blast
qed

text \<open>Where nothing waits any more and nothing was deferred, a candidate that is not ready has a blocked fact.\<close>

definition clean :: "pending_slice \<Rightarrow> bool" where
  "clean p \<longleftrightarrow> (\<forall>k state. bt_get (pd_facts p) k = Some state \<longrightarrow>
     state \<noteq> OperationallyDeferred \<and> (\<forall>source a. state \<noteq> Awaiting source a))"

lemma settled_clean: "settled p p' \<Longrightarrow> clean p \<Longrightarrow> clean p'"
proof -
  assume s: "settled p p'" and c: "clean p"
  have "state' \<noteq> OperationallyDeferred \<and> (\<forall>source a. state' \<noteq> Awaiting source a)"
    if get: "bt_get (pd_facts p') k = Some state'" for k state'
  proof -
    obtain state where "bt_get (pd_facts p) k = Some state" "settles state state'"
      using s get unfolding settled_def by blast
    then show ?thesis using c by (cases state') (auto simp: clean_def)
  qed
  then show "clean p'" by (simp add: clean_def)
qed

lemma clean_blocked:
  assumes "pending_inv lib lim p" "clean p" "ready_keys p = []" "pd_active p \<noteq> []"
  shows "doomed_candidate p \<noteq> None"
proof
  assume none: "doomed_candidate p = None"
  have inv: "set (bt_keys (pd_facts p)) = needed p" "bt_ok (pd_active p)"
    "mset (pd_fair_order p) = mset (bt_keys (pd_active p))"
    using assms(1) by (simp_all add: pending_inv_def slice_inv_def)
  obtain key c where c: "(key, c) \<in> set (pd_active p)" using assms(4) by (cases "pd_active p") auto
  then have key: "key \<in> set (pd_fair_order p)" "bt_get (pd_active p) key = Some c"
    using inv(2) inv(3) [THEN mset_eq_setD] by (force, simp add: bt_get_iff)
  have "\<not> list_all (terminal_fact p) (pc_required c)"
    using assms(3) c by (auto simp: ready_keys_def filter_empty_conv)
  then obtain k where k: "k \<in> set (pc_required c)" "\<not> terminal_fact p k" by (auto simp: list_all_iff)
  have "k \<in> needed p" using c k(1) by (auto simp: needed_def)
  then have "bt_get (pd_facts p) k \<noteq> None" unfolding inv(1) [symmetric] bt_keys_contains by (simp add: bt_contains_def)
  then obtain state where state: "bt_get (pd_facts p) k = Some state" by blast
  then have "blocked_fact p k"
    using assms(2) k(2) by (cases state) (auto simp: clean_def terminal_fact_def blocked_fact_def)
  then show False using doomed_none [OF none key] k(1) by (auto simp: list_ex_iff)
qed

section \<open>Activation\<close>

lemma activate_fields:
  "pd_active (activate lib variants c p) = bt_insert (ev_wtxid (pr_expected c)) \<lparr> pc_expected = pr_expected c,
     pc_transaction = pr_transaction c, pc_required = unique_prevouts lib (pr_transaction c), fact_cursor = 0 \<rparr>
     (pd_active p)"
  "pd_facts (activate lib variants c p) =
     fold (\<lambda>k. bt_or_insert k (initial_fact variants p k)) (unique_prevouts lib (pr_transaction c)) (pd_facts p)"
  by (simp_all add: activate_def Let_def)

lemma activate_spec:
  assumes "pending_inv lib lim (p\<lparr>pd_queued := c # queue\<rparr>)"
  shows "length (pd_active (activate lib variants c p)) = length (pd_active p) + 1"
    and "exhausted (activate lib variants c p) \<subseteq> exhausted p"
    and "parents_current variants p \<Longrightarrow> parents_current variants (activate lib variants c p)"
proof -
  have ok: "bt_ok (pd_facts p)" "bt_ok (pd_active p)" "ev_wtxid (pr_expected c) \<notin> set (bt_keys (pd_active p))"
    using assms by (auto simp: pending_inv_def facts_inv_def slice_inv_def)
  show "length (pd_active (activate lib variants c p)) = length (pd_active p) + 1"
    using arg_cong [OF bt_keys_insert_fresh [OF ok(2,3)], of size] by (simp add: activate_fields)
  have get: "bt_get (pd_facts (activate lib variants c p)) k = (case bt_get (pd_facts p) k of Some v \<Rightarrow> Some v
      | None \<Rightarrow> if k \<in> set (unique_prevouts lib (pr_transaction c)) then Some (initial_fact variants p k) else None)" for k
    using keys_fold_or_insert [OF ok(1)] by (simp add: activate_fields)
  show "exhausted (activate lib variants c p) \<subseteq> exhausted p"
    using attempts_positive by (auto simp: exhausted_def get initial_fact_def split: option.splits if_splits)
  show "parents_current variants p \<Longrightarrow> parents_current variants (activate lib variants c p)"
    by (auto simp: parents_current_def get initial_fact_def split: option.splits if_splits)
qed

lemma activate_loop_spec:
  "pending_inv lib lim (p\<lparr>pd_queued := queue\<rparr>) \<Longrightarrow> p' = activate_loop lib variants lim queue p \<Longrightarrow>
    length (pd_active p') + length (pd_queued p') = length (pd_active p) + length queue \<and>
    length (pd_queued p') \<le> length queue \<and>
    (length (pd_queued p') = length queue \<longrightarrow> p' = p\<lparr>pd_queued := queue\<rparr> \<and> (queue \<noteq> [] \<longrightarrow> pd_active p \<noteq> [])) \<and>
    exhausted p' \<subseteq> exhausted p \<and> (parents_current variants p \<longrightarrow> parents_current variants p')"
proof (induction queue arbitrary: p)
  case Nil
  then show ?case by (simp add: exhausted_def parents_current_def)
next
  case (Cons c queue)
  show ?case
  proof (cases "window_full lib lim c p")
    case True
    then show ?thesis using Cons.prems(2) by (simp add: exhausted_def parents_current_def window_full_def Let_def)
  next
    case False
    note spec = activate_spec [OF Cons.prems(1), of variants]
    have "p' = activate_loop lib variants lim queue (activate lib variants c p)" using Cons.prems(2) False by simp
    from Cons.IH [OF activate_inv [OF Cons.prems(1)] this] spec show ?thesis by auto
  qed
qed

lemma activate_waiting_spec:
  assumes "pending_inv lib lim p" "p' = activate_waiting lib variants lim p"
  shows "load p' \<le> load p" "load p' = load p \<Longrightarrow> p' = p \<and> (pd_active p = [] \<longrightarrow> pd_queued p = [])"
    "exhausted p' \<subseteq> exhausted p" "parents_current variants p \<Longrightarrow> parents_current variants p'"
proof -
  have inv: "pending_inv lib lim (activate_loop lib variants lim (pd_queued p) p)"
    using assms(1) by (intro activate_loop_inv) simp
  have p': "p' = activate_loop lib variants lim (pd_queued p) p"
    using recount_id inv unfolding assms(2) activate_waiting_def pending_inv_def by blast
  note spec = activate_loop_spec [OF _ p']
  have s: "length (pd_active p') + length (pd_queued p') = length (pd_active p) + length (pd_queued p)"
    "length (pd_queued p') \<le> length (pd_queued p)"
    "length (pd_queued p') = length (pd_queued p) \<longrightarrow> p' = p \<and> (pd_queued p \<noteq> [] \<longrightarrow> pd_active p \<noteq> [])"
    "exhausted p' \<subseteq> exhausted p" "parents_current variants p \<longrightarrow> parents_current variants p'"
    using spec assms(1) by simp_all
  show "load p' \<le> load p" using s(1-3) by (auto simp: load_def)
  show "load p' = load p \<Longrightarrow> p' = p \<and> (pd_active p = [] \<longrightarrow> pd_queued p = [])"
    using s(3) by (auto simp: load_def)
  show "exhausted p' \<subseteq> exhausted p" "parents_current variants p \<Longrightarrow> parents_current variants p'"
    using s(4,5) by simp_all
qed

end
