(* ===== verification/Slice_Progress.thy ===== *)
theory Slice_Progress
  imports Slice_Props Pending_Progress
begin

text \<open>
  Why the slices of a generation come to an end: a slice that asks to be continued has taken new candidates, or
  has lessened the load of its pending slice.
\<close>

section \<open>Steady steps\<close>

text \<open>The counters that pause a slice.\<close>

definition pauses :: "advance \<Rightarrow> nat \<times> nat \<times> nat" where
  "pauses a = (ad_batch_failures a, ad_systemic_response_failures a, ad_all_missing_batches a)"

lemma is_systemic_pauses: "pauses a = pauses b \<Longrightarrow> is_systemic a = is_systemic b"
  by (simp add: pauses_def is_systemic_def)

definition steady :: "slice_env \<Rightarrow> slice_state \<Rightarrow> slice_state \<Rightarrow> bool" where
  "steady env s s' \<longleftrightarrow> calm (en_lib env) (en_resolver env) (sl_pending s) (sl_pending s') \<and>
     pauses (sl_advance s') = pauses (sl_advance s) \<and> sl_paused s' = sl_paused s"

lemma steady_refl [simp]: "steady env s s"
  by (simp add: steady_def)

lemma steady_trans: "steady env s t \<Longrightarrow> steady env t u \<Longrightarrow> steady env s u"
  unfolding steady_def using calm_trans by auto

lemma steady_current: "still_current env s = Inr s' \<Longrightarrow> steady env s s'"
  by (auto simp: still_current_def steady_def split: if_splits)

lemma steady_hydrate: "steady env s (hydrate_slice env s)"
proof -
  obtain cache a b p where h: "hydrate_from_caches (en_variants env) (wk_outputs (sl_work s)) (en_resolver env)
      (sl_cache s) (sl_pending s) = (cache, a, b, p)"
    by (rule prod_cases4)
  show ?thesis using calm_hydrate_from_caches [OF h] by (simp add: hydrate_slice_def h steady_def pauses_def)
qed

lemma steady_transient: "steady env s (hydrate_transient env s)"
proof -
  obtain a b p where h: "hydrate_from_transient (ad_outputs (sl_advance s)) (ad_confirmed_scripts (sl_advance s))
      (en_resolver env) (sl_pending s) = (a, b, p)"
    by (rule prod_cases3)
  show ?thesis using calm_hydrate_from_transient [OF h] by (simp add: hydrate_transient_def h steady_def pauses_def)
qed

lemma steady_classify: "classify_slice env s = Inr s' \<Longrightarrow> steady env s s'"
  by (auto simp: classify_slice_def steady_def pauses_def calm_classify split: option.splits)

lemma recovery_pass_Inr:
  assumes "recovery_pass env s = Inr s'"
  obtains v where "steady env s v" "classify_slice env v = Inr s'"
proof -
  obtain a b where ab: "still_current env s = Inr a" "still_current env a = Inr b"
      "classify_slice env (hydrate_transient env (hydrate_slice env b)) = Inr s'"
    using assms by (auto simp: recovery_pass_def ok_then_Inr_iff)
  have "steady env s (hydrate_transient env (hydrate_slice env b))"
    by (rule steady_trans [OF steady_current [OF ab(1)] steady_trans [OF steady_current [OF ab(2)]
        steady_trans [OF steady_hydrate steady_transient]]])
  then show thesis using ab(3) that by blast
qed

lemma steady_recovery_pass: "recovery_pass env s = Inr s' \<Longrightarrow> steady env s s'"
  by (erule recovery_pass_Inr) (blast intro: steady_trans steady_classify)

lemma steady_recover: "recover_known_facts env s = Inr s' \<Longrightarrow> steady env s s'"
proof (induction env s rule: recover_known_facts.induct)
  case (1 env s)
  then obtain u where u: "recovery_pass env s = Inr u"
    by (auto simp: recover_known_facts.simps [of env s] split: sum.splits)
  then show ?case
    using 1 steady_recovery_pass [OF u]
    by (auto simp: recover_known_facts.simps [of env s] intro: steady_trans split: if_splits)
qed

lemma steady_defer_candidate:
  assumes "defer_candidate s = (n, s')"
  shows "steady env s s'"
proof -
  obtain m p where p: "defer_capacity_blocked_candidate (sl_pending s) = (m, p)" by fastforce
  show ?thesis using assms calm_defer_capacity [OF p] by (auto simp: defer_candidate_def p steady_def pauses_def)
qed

lemma steady_resolve: "resolve_capacity_pressure env once s = Inr s' \<Longrightarrow> steady env s s'"
proof (induction env once s rule: resolve_capacity_pressure.induct)
  case (1 env once s)
  then obtain u where u: "recover_known_facts env s = Inr u"
    by (auto simp: resolve_capacity_pressure.simps [of env once s] split: sum.splits)
  obtain n v where v: "defer_candidate u = (n, v)" by fastforce
  have "steady env s v" using steady_recover [OF u] steady_defer_candidate [OF v] by (rule steady_trans)
  then show ?case
    using 1 u v steady_recover [OF u]
    by (auto simp: resolve_capacity_pressure.simps [of env once s] intro: steady_trans split: if_splits)
qed

lemma steady_relieve: "steady env s (relieve_slice env s)"
proof -
  obtain b p where p: "(if has_pending_script_capacity (en_resolver env) (sl_pending s) then (False, sl_pending s)
      else defer_one_capacity_blocked_fact (sl_pending s)) = (b, p)"
    by fastforce
  obtain n q where q: "defer_exhausted_candidates p = (n, q)" by fastforce
  have "calm (en_lib env) (en_resolver env) (sl_pending s) p"
    using p by (auto intro: calm_defer_one split: if_splits)
  then have "calm (en_lib env) (en_resolver env) (sl_pending s) q"
    using calm_defer_exhausted [OF q] by (rule calm_trans)
  then show ?thesis by (simp add: relieve_slice_def Let_def p q steady_def pauses_def)
qed

lemma steady_parent:
  assumes "apply_parent env x (resolved, s) = (resolved', s')"
  shows "steady env s s'"
proof -
  obtain e v where x: "x = (e, v)" by (cases x)
  show ?thesis
  proof (cases "\<exists>tx. v = Found tx")
    case True
    then obtain tx where v: "v = Found tx" by blast
    obtain out a b p where p: "apply_parent_transaction (en_codec env) e tx (en_resolver env) (sl_pending s) = (out, a, b, p)"
      by (rule prod_cases4)
    show ?thesis
      using assms calm_apply_parent_transaction [OF p]
      by (auto simp: apply_parent_def x v p steady_def pauses_def split: option.splits)
  next
    case False
    then show ?thesis
      using assms by (auto simp: apply_parent_def x split: option.splits rpc_value.splits)
  qed
qed

lemma steady_parents:
  "fold (apply_parent env) xs (resolved, s) = (resolved', s') \<Longrightarrow> steady env s s'"
proof (induction xs arbitrary: resolved s)
  case (Cons x xs)
  obtain r u where u: "apply_parent env x (resolved, s) = (r, u)" by fastforce
  show ?case using Cons.IH [of r u] Cons.prems steady_parent [OF u] by (auto simp: u intro: steady_trans)
qed simp

lemma calm_fall_backs: "calm lib lim p (fold fall_back_parent_to_gettxout ts p)"
  by (induction ts arbitrary: p) (auto intro: calm_trans calm_fall_back)

lemma steady_confirmed: "steady env s (apply_confirmed env x s)"
proof -
  obtain k v where x: "x = (k, v)" by (cases x)
  obtain r p where p: "apply_confirmed_value k v (en_resolver env) (sl_pending s) = (r, p)" by fastforce
  show ?thesis
    using calm_apply_confirmed_value [OF p] by (cases r) (simp add: apply_confirmed_def x p steady_def pauses_def)
qed

lemma steady_confirmeds: "steady env s (fold (apply_confirmed env) xs s)"
  by (induction xs arbitrary: s) (auto intro: steady_trans steady_confirmed)

section \<open>The stages\<close>

text \<open>
  What a pending slice satisfies between its slices: its facts have attempts left, and wait for a parent only if it is
  current. The number of inputs is one a scan's cursor can pass.
\<close>

definition workable :: "slice_env \<Rightarrow> pending_slice \<Rightarrow> bool" where
  "workable env p \<longleftrightarrow> pending_inv (en_lib env) (en_resolver env) p \<and>
     (\<forall>(e, tx) \<in> admitted p. 2 * length (tx_inputs tx) \<le> usize_max) \<and>
     parents_current (en_variants env) p \<and> exhausted p = {}"

text \<open>
  What a slice relies on: unless a request for outputs failed systemically each is answered, text forms of
  transaction ids are parsed back, and a transaction has no more inputs than a scan's cursor can pass.
\<close>

definition answering :: "slice_env \<Rightarrow> bool" where
  "answering env \<longleftrightarrow> (\<forall>t. parse_txid (en_codec env) (show_txid (en_codec env) t) = Some t) \<and>
     (\<forall>ks k. \<not> fetch_systemic (en_confirmed env ks) \<longrightarrow> k \<in> set ks \<longrightarrow>
        (\<exists>v. (k, v) \<in> set (cf_values (en_confirmed env ks)) \<and> v \<noteq> SystemicFailure)) \<and>
     (\<forall>req e tx. (e, Found tx) \<in> set (cf_values (en_raw env req)) \<longrightarrow> 2 * length (tx_inputs tx) \<le> usize_max) \<and>
     0 < max_transactions_per_slice (en_limits env)"

lemma workable_parts:
  assumes "workable env p"
  shows "pending_inv (en_lib env) (en_resolver env) p" "parents_current (en_variants env) p" "exhausted p = {}"
    "sizes_ok p"
  using assms small_sizes_ok [of "en_lib env" "en_resolver env" p] by (auto simp: workable_def)

lemma calm_workable:
  assumes "calm (en_lib env) (en_resolver env) p p'" "workable env p"
  shows "workable env p'" "load p' \<le> load p"
proof -
  note w = workable_parts [OF assms(2)]
  have "advances p p'" "settled p p'" "pending_inv (en_lib env) (en_resolver env) p'"
    using assms(1) w(1) by (simp_all add: calm_def)
  then show "workable env p'"
    using assms(2) settled_parents [of p p'] settled_exhausted [of p p'] by (auto simp: workable_def advances_def)
  show "load p' \<le> load p" by (rule calm_load [OF assms(1) w(1)])
qed

lemma steady_workable:
  assumes "steady env s s'" "workable env (sl_pending s)"
  shows "workable env (sl_pending s')" "load (sl_pending s') \<le> load (sl_pending s)"
  using calm_workable assms by (auto simp: steady_def)

lemma activate_workable:
  assumes "workable env p" "p' = activate_waiting (en_lib env) (en_variants env) (en_resolver env) p"
  shows "workable env p'" "load p' \<le> load p"
    "load p' = load p \<Longrightarrow> p' = p \<and> (pd_active p = [] \<longrightarrow> pd_queued p = [])"
proof -
  note w = workable_parts [OF assms(1)]
  note spec = activate_waiting_spec [OF w(1) assms(2)]
  have "pending_inv (en_lib env) (en_resolver env) p'" "advances p p'"
    unfolding assms(2) using w(1) by (rule activate_waiting_inv, rule activate_waiting_advances)
  then show "workable env p'" using assms(1) spec(3,4) by (auto simp: workable_def advances_def)
  show "load p' \<le> load p" "load p' = load p \<Longrightarrow> p' = p \<and> (pd_active p = [] \<longrightarrow> pd_queued p = [])"
    by (fact spec)+
qed

lemma kept_workable:
  assumes "Pending_Props.kept (en_lib env) (en_resolver env) p p'" "workable env p" "tried p p'" "exhausted p' = {}"
  shows "workable env p'"
proof -
  note w = workable_parts [OF assms(2)]
  have "pending_inv (en_lib env) (en_resolver env) p' \<and> advances p p'" by (rule kept_advances [OF assms(1) w(1)])
  then show ?thesis
    using assms(2,4) tried_parents [OF assms(3)] by (auto simp: workable_def advances_def)
qed

subsection \<open>Parents\<close>

lemma parents_answered:
  assumes "fold (apply_parent env) xs (resolved, s) = (resolved', s')"
    "pending_inv (en_lib env) (en_resolver env) (sl_pending s)" "\<forall>t \<in> set resolved. answered (sl_pending s) t"
  shows "\<forall>t \<in> set resolved'. answered (sl_pending s') t"
  using assms
proof (induction xs arbitrary: resolved s)
  case (Cons x xs)
  obtain r u where u: "apply_parent env x (resolved, s) = (r, u)" by fastforce
  have c: "calm (en_lib env) (en_resolver env) (sl_pending s) (sl_pending u)"
    using steady_parent [OF u] by (simp add: steady_def)
  then have s: "settled (sl_pending s) (sl_pending u)" "pending_inv (en_lib env) (en_resolver env) (sl_pending u)"
    using Cons.prems(2) by (simp_all add: calm_def)
  have old: "\<forall>t \<in> set resolved. answered (sl_pending u) t"
    using Cons.prems(3) settled_answered [OF s(1)] by blast
  have "\<forall>t \<in> set r. answered (sl_pending u) t"
  proof (cases "\<exists>t tx. parse_txid (en_codec env) (ev_txid (fst x)) = Some t \<and> snd x = Found tx")
    case True
    then obtain t tx where x: "parse_txid (en_codec env) (ev_txid (fst x)) = Some t" "snd x = Found tx" by blast
    obtain out a b p where p: "apply_parent_transaction (en_codec env) (fst x) tx (en_resolver env) (sl_pending s) =
        (out, a, b, p)"
      by (rule prod_cases4)
    have "r = bs_insert t resolved" "sl_pending u = p"
      using u x p by (cases x; auto simp: apply_parent_def)+
    then show ?thesis using old answered_parent_transaction [OF p x(1) Cons.prems(2)] by auto
  next
    case False
    then have "r = resolved" using u by (cases x) (auto simp: apply_parent_def split: option.splits rpc_value.splits)
    then show ?thesis using old by simp
  qed
  then show ?case using Cons.IH [of r u] Cons.prems(1) s(2) by (simp add: u)
qed simp

lemma fall_backs_answered:
  assumes "pending_inv lib lim p" "t \<in> set ts"
  shows "answered (fold fall_back_parent_to_gettxout ts p) t"
  using assms
proof (induction ts arbitrary: p)
  case (Cons u ts)
  let ?p = "fall_back_parent_to_gettxout u p"
  have inv: "pending_inv lib lim ?p" by (rule calm_inv [OF calm_fall_back Cons.prems(1)])
  have "settled ?p (fold fall_back_parent_to_gettxout ts ?p)"
    using calm_fall_backs [of lib lim ?p ts] inv by (simp add: calm_def)
  then show ?case
    using Cons.IH [OF inv] Cons.prems(2) settled_answered [OF _ fall_back_answered [of u p]] by auto
qed simp

lemma parent_answers_spec:
  assumes "pending_inv (en_lib env) (en_resolver env) (sl_pending s)" "\<not> sl_paused s" "\<not> fetch_systemic f"
    "s' = parent_answers env selected f s"
  shows "steady env s s'" "\<forall>t \<in> set selected. answered (sl_pending s') t"
proof -
  have same: "s\<lparr>sl_paused := False\<rparr> = s" using assms(2) by (cases s) simp
  obtain resolved u where u: "fold (apply_parent env) (cf_values f) ([], s) = (resolved, u)" by fastforce
  note st = steady_parents [OF u]
  have inv: "pending_inv (en_lib env) (en_resolver env) (sl_pending u)"
    using st assms(1) by (simp add: steady_def calm_def)
  let ?ts = "filter (\<lambda>t. t \<notin> set resolved) selected"
  have s': "s' = u\<lparr>sl_pending := fold fall_back_parent_to_gettxout ?ts (sl_pending u)\<rparr>"
    using st assms(2,3) by (simp add: assms(4) parent_answers_def Let_def same u steady_def)
  have c: "calm (en_lib env) (en_resolver env) (sl_pending u) (sl_pending s')" by (simp add: s' calm_fall_backs)
  then have "steady env u s'" by (simp add: s' steady_def)
  with st show "steady env s s'" by (rule steady_trans)
  have "answered (sl_pending s') t" if "t \<in> set selected" for t
  proof (cases "t \<in> set resolved")
    case True
    then have "answered (sl_pending u) t" using parents_answered [OF u assms(1)] by simp
    then show ?thesis using settled_answered [of "sl_pending u" "sl_pending s'" t] c inv by (simp add: calm_def)
  next
    case False
    then show ?thesis using fall_backs_answered [OF inv, of t ?ts] that by (simp add: s')
  qed
  then show "\<forall>t \<in> set selected. answered (sl_pending s') t" by blast
qed

lemma exhausted_by_parents:
  assumes "tried p q" "others_kept p q" "exhausted p = {}" "k \<in> exhausted q"
  shows "\<exists>a. bt_get (pd_facts q) k = Some (Awaiting CurrentParent a)"
proof (cases "\<exists>a. bt_get (pd_facts p) k = Some (Awaiting CurrentParent a)")
  case True
  then show ?thesis using assms(1) [unfolded tried_def, rule_format, of k] by auto
next
  case False
  then have "bt_get (pd_facts q) k = bt_get (pd_facts p) k" using assms(2) by (auto simp: others_kept_def)
  then have "k \<in> exhausted p" using assms(4) by (simp add: exhausted_def)
  then show ?thesis using assms(3) by simp
qed

lemma answered_all:
  assumes "tried p q" "others_kept p q" "exhausted p = {}" "\<And>k. k \<in> exhausted q \<Longrightarrow> op_txid k \<in> T"
    "settled q q'" "\<forall>t \<in> T. answered q' t"
  shows "exhausted q' = {}"
proof -
  have False if k: "k \<in> exhausted q'" for k
  proof -
    have kq: "k \<in> exhausted q" using settled_exhausted [OF assms(5)] k by blast
    obtain b where b: "bt_get (pd_facts q) k = Some (Awaiting CurrentParent b)"
      using exhausted_by_parents [OF assms(1-3) kq] by blast
    obtain source a where a: "bt_get (pd_facts q') k = Some (Awaiting source a)"
      "MAX_FACT_ATTEMPTS_PER_SOURCE_PER_WINDOW \<le> a"
      using k by (auto simp: exhausted_def)
    then have "settles (Awaiting CurrentParent b) (Awaiting source a)"
      using assms(5) b unfolding settled_def by fastforce
    then have "source = CurrentParent" using a(2) attempts_positive by auto
    then show False using assms(4) [OF kq] assms(6) a by (auto simp: answered_def)
  qed
  then show ?thesis by blast
qed

lemma absorb_pauses:
  "is_systemic (absorb_counts f (a\<lparr>ad_fact_requests := n\<rparr>)) \<longleftrightarrow> is_systemic a \<or> fetch_systemic f"
  by (auto simp: is_systemic_def absorb_counts_def fetch_systemic_def)

lemma steady_systemic: "steady env s s' \<Longrightarrow> is_systemic (sl_advance s') = is_systemic (sl_advance s)"
  by (intro is_systemic_pauses) (simp add: steady_def)

lemma parent_answers_pauses: "pauses (sl_advance (parent_answers env selected f s)) = pauses (sl_advance s)"
proof -
  obtain resolved v where v: "fold (apply_parent env) (cf_values f)
      ([], s\<lparr>sl_paused := sl_paused s \<or> fetch_systemic f\<rparr>) = (resolved, v)" by fastforce
  show ?thesis using steady_parents [OF v] by (simp add: parent_answers_def Let_def v steady_def)
qed

text \<open>A stage never forgets a systemic failure.\<close>

lemma parent_stage_systemic:
  assumes "parent_stage env s = Inr s'" "is_systemic (sl_advance s)"
  shows "is_systemic (sl_advance s')"
  using assms is_systemic_pauses [OF parent_answers_pauses]
  by (fastforce simp: parent_stage_def Let_def ok_then_Inr_iff still_current_def absorb_pauses split: prod.splits if_splits)

lemma parent_stage_spec:
  assumes env: "answering env" and w: "workable env (sl_pending s)"
    and r: "parent_stage env s = Inr s'" and np: "\<not> sl_paused s" "\<not> is_systemic (sl_advance s')"
  shows "workable env (sl_pending s')" "load (sl_pending s') \<le> load (sl_pending s)" "\<not> sl_paused s'"
    "\<not> is_systemic (sl_advance s)"
    "load (sl_pending s') = load (sl_pending s) \<Longrightarrow>
       next_parent_wave (en_codec env) (en_variants env) (en_resolver env) (sl_pending s) = ([], sl_pending s') \<and>
       (\<exists>p. s' = s\<lparr>sl_pending := p\<rparr>)"
proof -
  let ?p = "sl_pending s"
  obtain wave p where wave: "next_parent_wave (en_codec env) (en_variants env) (en_resolver env) ?p = (wave, p)"
    by fastforce
  note kept = kept_next_parent_wave [OF wave, of "en_lib env" "en_resolver env"]
  note spends = next_parent_spends [OF wave] and others = next_parent_others [OF wave]
  note wp = workable_parts [OF w]
  note wl = wave_load [OF kept wp(1) spends]
  have inv: "pending_inv (en_lib env) (en_resolver env) p" using kept wp(1) by (simp add: Pending_Props.kept_def)
  let ?selected = "bs_of_list (List.map_filter (\<lambda>e. parse_txid (en_codec env) (ev_txid e)) wave)"
  have ex: "op_txid k \<in> set ?selected" if "k \<in> exhausted p" for k
    using parent_wave_exhausts [OF wave _ refl that] env wp(3) by (simp add: answering_def)
  have all: "workable env (sl_pending s') \<and> load (sl_pending s') \<le> load ?p \<and> \<not> sl_paused s' \<and>
      \<not> is_systemic (sl_advance s) \<and> (wave = [] \<longrightarrow> s' = s\<lparr>sl_pending := p\<rparr>) \<and>
      (wave \<noteq> [] \<longrightarrow> load (sl_pending s') < load ?p)"
  proof (cases "wave = []")
    case True
    then have s': "s' = s\<lparr>sl_pending := p\<rparr>" using r np wave by (simp add: parent_stage_def)
    have "exhausted p = {}" using ex True by (auto simp: List.map_filter_def)
    from kept_workable [OF kept w spends(1) this] show ?thesis using wl(1) np True by (simp add: s')
  next
    case False
    let ?f = "en_parents env wave"
    let ?a = "absorb_counts ?f ((sl_advance s)\<lparr>ad_fact_requests := ad_fact_requests (sl_advance s) + length wave\<rparr>)"
    obtain u where u: "still_current env (s\<lparr>sl_pending := p, sl_advance := ?a\<rparr>) = Inr u"
      "s' = parent_answers env ?selected ?f u"
      using r np(1) wave False by (auto simp: parent_stage_def Let_def ok_then_Inr_iff)
    have up: "sl_pending u = p" "sl_advance u = ?a" "\<not> sl_paused u"
      using u(1) np(1) by (auto simp: still_current_def split: if_splits)
    have ns: "\<not> fetch_systemic ?f \<and> \<not> is_systemic (sl_advance s)"
    proof (rule ccontr)
      assume "\<not> ?thesis"
      then have "is_systemic (sl_advance u)" by (auto simp: up absorb_pauses)
      then show False using np(2) is_systemic_pauses [OF parent_answers_pauses] u(2) by blast
    qed
    note ans = parent_answers_spec [OF _ up(3) _ u(2)]
    have a: "steady env u s'" "\<forall>t \<in> set ?selected. answered (sl_pending s') t"
      using ans inv ns by (simp_all add: up)
    then have c: "calm (en_lib env) (en_resolver env) p (sl_pending s')" by (simp add: steady_def up)
    then have s: "settled p (sl_pending s')" "advances p (sl_pending s')" "pending_inv (en_lib env) (en_resolver env) (sl_pending s')"
      using inv by (simp_all add: calm_def)
    have "exhausted (sl_pending s') = {}"
      by (rule answered_all [OF spends(1) others wp(3) ex s(1) a(2)])
    moreover have "advances ?p p" using kept_advances [OF kept wp(1)] by simp
    ultimately have "workable env (sl_pending s')"
      using w s settled_parents [OF s(1) tried_parents [OF spends(1) wp(2)]] by (auto simp: workable_def advances_def)
    moreover have "load (sl_pending s') \<le> load p" by (rule calm_load [OF c inv])
    moreover have "\<not> sl_paused s'" using a(1) up(3) by (simp add: steady_def)
    ultimately show ?thesis using wl False ns by auto
  qed
  show "workable env (sl_pending s')" "load (sl_pending s') \<le> load ?p" "\<not> sl_paused s'"
    "\<not> is_systemic (sl_advance s)"
    using all by simp_all
  show "load (sl_pending s') = load ?p \<Longrightarrow>
      next_parent_wave (en_codec env) (en_variants env) (en_resolver env) ?p = ([], sl_pending s') \<and>
      (\<exists>p. s' = s\<lparr>sl_pending := p\<rparr>)"
    using all wave by (cases "wave = []") auto
qed

subsection \<open>Confirmed outputs\<close>

lemma confirmed_answered:
  assumes "(k, v) \<in> set xs" "v \<noteq> SystemicFailure" "pending_inv (en_lib env) (en_resolver env) (sl_pending s)"
    "\<And>a. bt_get (pd_facts (sl_pending s)) k \<noteq> Some (Awaiting CurrentParent a)"
  shows "k \<notin> exhausted (sl_pending (fold (apply_confirmed env) xs s))"
  using assms
proof (induction xs arbitrary: s)
  case (Cons x xs)
  let ?s = "apply_confirmed env x s"
  have c: "calm (en_lib env) (en_resolver env) (sl_pending s) (sl_pending ?s)"
    using steady_confirmed by (simp add: steady_def)
  then have inv: "pending_inv (en_lib env) (en_resolver env) (sl_pending ?s)" "settled (sl_pending s) (sl_pending ?s)"
    using Cons.prems(3) by (simp_all add: calm_def)
  have other: "bt_get (pd_facts (sl_pending ?s)) k \<noteq> Some (Awaiting CurrentParent a)" for a
    using settled_waiting [OF inv(2)] Cons.prems(4) by blast
  show ?case
  proof (cases "x = (k, v)")
    case True
    obtain r p where p: "apply_confirmed_value k v (en_resolver env) (sl_pending s) = (r, p)" by fastforce
    have "k \<notin> exhausted p"
      by (rule confirmed_value_answers [OF p Cons.prems(2) facts_ok [OF Cons.prems(3)] Cons.prems(4)])
    moreover have "sl_pending ?s = p" by (cases r) (simp add: apply_confirmed_def True p)
    moreover have "exhausted (sl_pending (fold (apply_confirmed env) xs ?s)) \<subseteq> exhausted (sl_pending ?s)"
      using steady_confirmeds [of env ?s xs] by (intro calm_exhausted [OF _ inv(1)]) (simp add: steady_def)
    ultimately show ?thesis by auto
  next
    case False
    then show ?thesis using Cons.IH [OF _ Cons.prems(2) inv(1) other] Cons.prems(1) by simp
  qed
qed simp

lemma confirmed_stage_systemic:
  assumes "confirmed_stage env s = Inr s'" "is_systemic (sl_advance s)"
  shows "is_systemic (sl_advance s')"
  using assms steady_systemic [OF steady_confirmeds]
  by (fastforce simp: confirmed_stage_def Let_def ok_then_Inr_iff still_current_def absorb_pauses split: prod.splits if_splits)

lemma confirmed_stage_spec:
  assumes env: "answering env" and w: "workable env (sl_pending s)"
    and r: "confirmed_stage env s = Inr s'" and np: "\<not> sl_paused s" "\<not> is_systemic (sl_advance s')"
  shows "workable env (sl_pending s')" "load (sl_pending s') \<le> load (sl_pending s)" "\<not> is_systemic (sl_advance s)"
    "load (sl_pending s') = load (sl_pending s) \<Longrightarrow>
       next_confirmed_wave (en_resolver env) (sl_pending s) = ([], sl_pending s') \<and> (\<exists>p. s' = s\<lparr>sl_pending := p\<rparr>)"
proof -
  let ?p = "sl_pending s"
  obtain wave p where wave: "next_confirmed_wave (en_resolver env) ?p = (wave, p)" by fastforce
  note kept = kept_next_confirmed_wave [OF wave, of "en_lib env" "en_resolver env"]
  note spends = next_confirmed_spends [OF wave]
  note wp = workable_parts [OF w]
  note wl = wave_load [OF kept wp(1) spends]
  note ex = confirmed_wave_exhausts [OF wp(1,4) wave]
  have inv: "pending_inv (en_lib env) (en_resolver env) p" using kept wp(1) by (simp add: Pending_Props.kept_def)
  have all: "workable env (sl_pending s') \<and> load (sl_pending s') \<le> load ?p \<and>
      \<not> is_systemic (sl_advance s) \<and> (wave = [] \<longrightarrow> s' = s\<lparr>sl_pending := p\<rparr>) \<and>
      (wave \<noteq> [] \<longrightarrow> load (sl_pending s') < load ?p)"
  proof (cases "wave = []")
    case True
    then have s': "s' = s\<lparr>sl_pending := p\<rparr>" using r np wave by (simp add: confirmed_stage_def)
    have "exhausted p = {}" using ex(1) True wp(3) by simp
    from kept_workable [OF kept w spends(1) this] show ?thesis using wl(1) np True by (simp add: s')
  next
    case False
    let ?f = "en_confirmed env wave"
    let ?a = "absorb_counts ?f ((sl_advance s)\<lparr>ad_fact_requests := ad_fact_requests (sl_advance s) + length wave\<rparr>)"
    obtain u where u: "still_current env (s\<lparr>sl_pending := p, sl_advance := ?a\<rparr>) = Inr u"
      "s' = fold (apply_confirmed env) (cf_values ?f) u"
      using r np(1) wave False by (auto simp: confirmed_stage_def Let_def ok_then_Inr_iff)
    have up: "sl_pending u = p" "sl_advance u = ?a"
      using u(1) by (auto simp: still_current_def split: if_splits)
    have st: "steady env u s'" unfolding u(2) by (rule steady_confirmeds)
    have ns: "\<not> fetch_systemic ?f" "\<not> is_systemic (sl_advance s)"
      using np(2) steady_systemic [OF st] by (simp_all add: up absorb_pauses)
    have c: "calm (en_lib env) (en_resolver env) p (sl_pending s')" using st by (simp add: steady_def up)
    then have s: "settled p (sl_pending s')" "advances p (sl_pending s')" "pending_inv (en_lib env) (en_resolver env) (sl_pending s')"
      using inv by (simp_all add: calm_def)
    have "k \<notin> exhausted (sl_pending s')" if k: "k \<in> set wave" for k
    proof -
      obtain v where "(k, v) \<in> set (cf_values ?f)" "v \<noteq> SystemicFailure"
        using env ns(1) k unfolding answering_def by blast
      then show ?thesis unfolding u(2) using confirmed_answered inv ex(2) [OF k] by (simp add: up)
    qed
    then have "exhausted (sl_pending s') = {}"
      using settled_exhausted [OF s(1)] ex(1) wp(3) by blast
    moreover have "advances ?p p" using kept_advances [OF kept wp(1)] by simp
    ultimately have "workable env (sl_pending s')"
      using w s settled_parents [OF s(1) tried_parents [OF spends(1) wp(2)]] by (auto simp: workable_def advances_def)
    moreover have "load (sl_pending s') \<le> load p" by (rule calm_load [OF c inv])
    ultimately show ?thesis using wl False ns by auto
  qed
  show "workable env (sl_pending s')" "load (sl_pending s') \<le> load ?p" "\<not> is_systemic (sl_advance s)"
    using all by simp_all
  show "load (sl_pending s') = load ?p \<Longrightarrow>
      next_confirmed_wave (en_resolver env) ?p = ([], sl_pending s') \<and> (\<exists>p. s' = s\<lparr>sl_pending := p\<rparr>)"
    using all wave by (cases "wave = []") auto
qed

section \<open>Capacity pressure\<close>

lemma calm_same_load:
  assumes "calm lib lim p p'" "pending_inv lib lim p" "load p' = load p"
  shows "length (pd_active p') = length (pd_active p)" "pending_rank p' = pending_rank p"
  using assms by (auto simp: calm_def load_def)

lemma classify_slice_none:
  assumes "classify_slice env s = Inr s'" "pending_inv (en_lib env) (en_resolver env) (sl_pending s)"
    "length (pd_active (sl_pending s')) = length (pd_active (sl_pending s))"
  shows "sl_pending s' = sl_pending s" "ready_keys (sl_pending s') = []"
proof -
  obtain rs p where p: "classify_ready (en_lib env) (sl_pending s) = Some (rs, p)" "sl_pending s' = p"
    using assms(1) by (auto simp: classify_slice_def split: option.splits)
  show "sl_pending s' = sl_pending s" "ready_keys (sl_pending s') = []"
    using classify_none [OF p(1) assms(2)] assms(3) p(2) by simp_all
qed

lemma recover_none_ready:
  assumes "recover_known_facts env s = Inr s'" "pending_inv (en_lib env) (en_resolver env) (sl_pending s)"
    "length (pd_active (sl_pending s')) = length (pd_active (sl_pending s))"
  shows "ready_keys (sl_pending s') = []"
  using assms
proof (induction env s rule: recover_known_facts.induct)
  case (1 env s)
  then obtain u where u: "recovery_pass env s = Inr u"
    by (auto simp: recover_known_facts.simps [of env s] split: sum.splits)
  obtain v where v: "steady env s v" "classify_slice env v = Inr u" using recovery_pass_Inr [OF u] .
  have uv: "steady env v u" by (rule steady_classify [OF v(2)])
  have inv: "pending_inv (en_lib env) (en_resolver env) (sl_pending v)"
    "pending_inv (en_lib env) (en_resolver env) (sl_pending u)"
    "length (pd_active (sl_pending v)) \<le> length (pd_active (sl_pending s))"
    "length (pd_active (sl_pending u)) \<le> length (pd_active (sl_pending v))"
    using v(1) uv 1(3) by (simp_all add: steady_def calm_def)
  show ?case
  proof (cases "length (ad_classifications (sl_advance u)) \<le> length (ad_classifications (sl_advance s))")
    case True
    then have "s' = u" using 1(2) by (simp add: recover_known_facts.simps [of env s] u)
    then show ?thesis using classify_slice_none [OF v(2) inv(1)] 1(4) inv(3,4) by simp
  next
    case False
    then have rest: "recover_known_facts env u = Inr s'" using 1(2) by (simp add: recover_known_facts.simps [of env s] u)
    show ?thesis using 1(1) [OF u False rest inv(2)] recover_shorter [OF rest] 1(4) inv(3,4) by simp
  qed
qed

lemma resolve_lightens:
  assumes "resolve_capacity_pressure env False s = Inr s'" "workable env (sl_pending s)" "clean (sl_pending s)"
    "pd_active (sl_pending s) \<noteq> []"
  shows "load (sl_pending s') < load (sl_pending s)"
proof -
  obtain u where u: "recover_known_facts env s = Inr u"
    using assms(1) by (auto simp: resolve_capacity_pressure.simps [of env False s] split: sum.splits)
  obtain n v where v: "defer_candidate u = (n, v)" by fastforce
  have s': "s' = v \<or> resolve_capacity_pressure env True v = Inr s'"
    using assms(1) by (auto simp: resolve_capacity_pressure.simps [of env False s] u v split: if_splits)
  note su = steady_recover [OF u] and uv = steady_defer_candidate [OF v]
  note wu = steady_workable [OF su assms(2)]
  note wv = steady_workable [OF uv wu(1)]
  have le: "load (sl_pending s') \<le> load (sl_pending v)"
    using s' steady_workable(2) [OF steady_resolve wv(1)] by auto
  show ?thesis
  proof (cases "load (sl_pending u) = load (sl_pending s)")
    case False
    then show ?thesis using wu(2) wv(2) le by simp
  next
    case True
    have c: "calm (en_lib env) (en_resolver env) (sl_pending s) (sl_pending u)" using su by (simp add: steady_def)
    have inv: "pending_inv (en_lib env) (en_resolver env) (sl_pending s)" by (rule workable_parts(1) [OF assms(2)])
    note len = calm_same_load [OF c inv True]
    have "doomed_candidate (sl_pending u) \<noteq> None"
    proof (rule clean_blocked [OF workable_parts(1) [OF wu(1)]])
      show "clean (sl_pending u)" using settled_clean [OF _ assms(3)] c inv by (simp add: calm_def)
      show "ready_keys (sl_pending u) = []" by (rule recover_none_ready [OF u inv len(1)])
      show "pd_active (sl_pending u) \<noteq> []" using len(1) assms(4) by auto
    qed
    then have "n \<noteq> 0" using v by (auto simp: defer_candidate_def defer_capacity_blocked_candidate_def)
    then have "length (pd_active (sl_pending v)) < length (pd_active (sl_pending u))"
      using defer_candidate_shorter [OF v [symmetric]] by simp
    moreover have "pd_queued (sl_pending v) = pd_queued (sl_pending u)"
      using uv workable_parts(1) [OF wu(1)] by (simp add: steady_def calm_def)
    ultimately have "load (sl_pending v) < load (sl_pending u)" by (simp add: load_def)
    then show ?thesis using wu(2) le by simp
  qed
qed

section \<open>One slice\<close>

text \<open>Waves that request nothing leave no fact that waits with attempts left, unless there is no capacity.\<close>

lemma idle_waves:
  assumes w: "workable env p"
    and parents: "next_parent_wave (en_codec env) (en_variants env) (en_resolver env) p = ([], p1)"
    and confirmed: "next_confirmed_wave (en_resolver env) p1 = ([], p2)"
    and waiting: "bt_get (pd_facts p2) k = Some (Awaiting source a)"
  shows "\<not> has_pending_script_capacity (en_resolver env) p2"
proof (cases "has_pending_script_capacity (en_resolver env) p")
  case False
  then have "p1 = p" using parents by (simp add: next_parent_wave_def)
  moreover have "confirmed_wave_maximum (en_resolver env) p = 0"
    using False by (simp add: confirmed_wave_maximum_def has_pending_script_capacity_def)
  ultimately have "p2 = p" using confirmed by (simp add: next_confirmed_wave_def)
  then show ?thesis using False by simp
next
  case True
  note wp = workable_parts [OF w]
  have quiet: "bt_get (pd_facts p) k \<noteq> Some (Awaiting CurrentParent b)" for k b
    using parent_wave_quiet [OF wp(1,4,2) parents True] wp(3) by (auto simp: exhausted_def)
  note kept = kept_next_parent_wave [OF parents, of "en_lib env" "en_resolver env"]
  have inv: "pending_inv (en_lib env) (en_resolver env) p1" using kept wp(1) by (simp add: Pending_Props.kept_def)
  have facts: "pd_facts p1 = pd_facts p"
    using next_parent_others [OF parents] quiet facts_ok [OF inv] facts_ok [OF wp(1)]
    by (intro bt_ext) (auto simp: others_kept_def)
  have ex: "exhausted p1 = {}" using facts wp(3) by (simp add: exhausted_def)
  have w1: "workable env p1" by (rule kept_workable [OF kept w _ ex]) (simp add: tried_facts facts)
  have "pd_script_bytes p1 = pd_script_bytes p"
    using inv wp(1) by (simp add: pending_inv_def facts_inv_def facts)
  then have cap: "has_pending_script_capacity (en_resolver env) p1"
    using True by (simp add: has_pending_script_capacity_def)
  note q = confirmed_wave_quiet [OF inv workable_parts(4) [OF w1] confirmed cap]
  have get: "bt_get (pd_facts p1) k = Some (Awaiting source a)" using waiting q(2) by simp
  then have "\<not> confirmed_selectable [] k (Awaiting source a)" by (rule q(1))
  moreover have "source \<noteq> CurrentParent" using quiet get facts by metis
  moreover have "\<not> MAX_FACT_ATTEMPTS_PER_SOURCE_PER_WINDOW \<le> a" using ex get by (auto simp: exhausted_def)
  ultimately show ?thesis by (cases source) auto
qed

text \<open>Then relieving the slice makes it lighter, or leaves only candidates that wait for capacity.\<close>

lemma relieve_idle:
  assumes w: "workable env (sl_pending s)"
    and waits: "\<And>k source a. bt_get (pd_facts (sl_pending s)) k = Some (Awaiting source a) \<Longrightarrow>
      \<not> has_pending_script_capacity (en_resolver env) (sl_pending s)"
    and same: "load (sl_pending (relieve_slice env s)) = load (sl_pending s)"
  shows "clean (sl_pending (relieve_slice env s))"
    "length (pd_active (sl_pending (relieve_slice env s))) = length (pd_active (sl_pending s))"
proof -
  let ?p = "sl_pending s"
  obtain b p where p: "(if has_pending_script_capacity (en_resolver env) ?p then (False, ?p)
      else defer_one_capacity_blocked_fact ?p) = (b, p)"
    by fastforce
  obtain n q where q: "defer_exhausted_candidates p = (n, q)" by fastforce
  have q': "sl_pending (relieve_slice env s) = q" by (simp add: relieve_slice_def Let_def p q)
  have inv: "pending_inv (en_lib env) (en_resolver env) ?p" by (rule workable_parts(1) [OF w])
  have c1: "calm (en_lib env) (en_resolver env) ?p p" using p by (auto intro: calm_defer_one split: if_splits)
  have inv1: "pending_inv (en_lib env) (en_resolver env) p" by (rule calm_inv [OF c1 inv])
  have c2: "calm (en_lib env) (en_resolver env) p q" by (rule calm_defer_exhausted [OF q])
  have l: "load p = load ?p" "load q = load p"
    using calm_load [OF c1 inv] calm_load [OF c2 inv1] same by (simp_all add: q')
  have none: "bt_get (pd_facts ?p) k \<noteq> Some (Awaiting source a)" for k source a
  proof
    assume get: "bt_get (pd_facts ?p) k = Some (Awaiting source a)"
    then have "defer_one_capacity_blocked_fact ?p = (b, p)" using p waits [OF get] by simp
    from defer_one_blocks [OF this inv get] calm_same_load(2) [OF c1 inv l(1)] show False by simp
  qed
  have len: "length (pd_active q) = length (pd_active p)" by (rule calm_same_load(1) [OF c2 inv1 l(2)])
  note ex = defer_exhausted_none [OF q len]
  have settled: "settled ?p p" using c1 inv by (simp add: calm_def)
  have "state \<noteq> OperationallyDeferred \<and> (\<forall>source a. state \<noteq> Awaiting source a)"
    if get: "bt_get (pd_facts q) k = Some state" for k state
  proof -
    have getp: "bt_get (pd_facts p) k = Some state" using get ex(1) by simp
    obtain key c where "bt_get (pd_active p) key = Some c" "k \<in> set (pc_required c)"
      using facts_needed [OF inv1 getp] by blast
    then have "state \<noteq> OperationallyDeferred" using ex(2) [OF map_of_SomeD] getp by force
    moreover have False if st: "state = Awaiting source a" for source a
    proof -
      obtain t where "bt_get (pd_facts ?p) k = Some t" "settles t (Awaiting source a)"
        using settled getp st unfolding settled_def by blast
      then show False using none by auto
    qed
    ultimately show ?thesis by blast
  qed
  then show "clean (sl_pending (relieve_slice env s))" by (simp add: q' clean_def)
  show "length (pd_active (sl_pending (relieve_slice env s))) = length (pd_active ?p)"
    using len calm_same_load(1) [OF c1 inv l(1)] by (simp add: q')
qed

lemma facts_stage_lightens:
  assumes env: "answering env" and w: "workable env (sl_pending s)"
    and r: "facts_stage env s = Inr s'" and ns: "\<not> is_systemic (sl_advance s')"
  shows "workable env (sl_pending s')"
    "\<not> pending_is_empty (sl_pending s) \<Longrightarrow> load (sl_pending s') < load (sl_pending s)"
proof -
  obtain a b d e f g where st: "still_current env s = Inr a" "classify_slice env (hydrate_slice env a) = Inr b"
    "parent_stage env ((activate_slice env b)\<lparr>sl_paused := is_systemic (sl_advance (activate_slice env b))\<rparr>) = Inr d"
    "confirmed_stage env d = Inr e" "classify_slice env e = Inr f"
    "resolve_capacity_pressure env False (relieve_slice env f) = Inr g" "s' = activate_slice env g"
    using r by (auto simp: facts_stage_def Let_def ok_then_Inr_iff)
  let ?c = "(activate_slice env b)\<lparr>sl_paused := is_systemic (sl_advance (activate_slice env b))\<rparr>"
  have sb: "steady env s b"
    by (rule steady_trans [OF steady_current [OF st(1)] steady_trans [OF steady_hydrate steady_classify [OF st(2)]]])
  have fg: "steady env f (relieve_slice env f)" "steady env (relieve_slice env f) g"
    by (rule steady_relieve, rule steady_resolve [OF st(6)])
  have ef: "steady env e f" by (rule steady_classify [OF st(5)])
  have nse: "\<not> is_systemic (sl_advance e)"
    using ns steady_systemic [OF ef] steady_systemic [OF fg(1)] steady_systemic [OF fg(2)]
    by (simp add: st(7) activate_slice_def)
  have nsd: "\<not> is_systemic (sl_advance d)" using confirmed_stage_systemic [OF st(4)] nse by blast
  have nsc: "\<not> is_systemic (sl_advance ?c)" using parent_stage_systemic [OF st(3)] nsd by blast
  have np: "\<not> sl_paused ?c" using nsc by simp
  note wb = steady_workable [OF sb w]
  have pc: "sl_pending ?c = activate_waiting (en_lib env) (en_variants env) (en_resolver env) (sl_pending b)"
    by (simp add: activate_slice_def)
  note wc = activate_workable [OF wb(1) pc]
  note wd = parent_stage_spec [OF env wc(1) st(3) np nsd]
  note we = confirmed_stage_spec [OF env wd(1) st(4) wd(3) nse]
  note wf = steady_workable [OF ef we(1)]
  note wr = steady_workable [OF fg(1) wf(1)]
  note wg = steady_workable [OF fg(2) wr(1)]
  have ps: "sl_pending s' = activate_waiting (en_lib env) (en_variants env) (en_resolver env) (sl_pending g)"
    by (simp add: st(7) activate_slice_def)
  note ws = activate_workable [OF wg(1) ps]
  show "workable env (sl_pending s')" by (rule ws(1))
  show "load (sl_pending s') < load (sl_pending s)" if some: "\<not> pending_is_empty (sl_pending s)"
  proof (rule ccontr)
    assume "\<not> load (sl_pending s') < load (sl_pending s)"
    then have eq: "load (sl_pending b) = load (sl_pending s)" "load (sl_pending ?c) = load (sl_pending b)"
      "load (sl_pending d) = load (sl_pending ?c)" "load (sl_pending e) = load (sl_pending d)"
      "load (sl_pending f) = load (sl_pending e)" "load (sl_pending (relieve_slice env f)) = load (sl_pending f)"
      "load (sl_pending g) = load (sl_pending (relieve_slice env f))"
      using wb(2) wc(2) wd(2) we(2) wf(2) wr(2) wg(2) ws(2) by auto
    have "length (pd_active (sl_pending b)) + length (pd_queued (sl_pending b)) \<noteq> 0"
      using eq(1) some by (auto simp: load_def pending_is_empty_def)
    then have active: "pd_active (sl_pending ?c) \<noteq> []" using wc(3) [OF eq(2)] by auto
    note d = wd(5) [OF eq(3)] and e = we(4) [OF eq(4)]
    have ce: "calm (en_lib env) (en_resolver env) (sl_pending e) (sl_pending f)" using ef by (simp add: steady_def)
    have lf: "length (pd_active (sl_pending f)) = length (pd_active (sl_pending e))"
      by (rule calm_same_load(1) [OF ce workable_parts(1) [OF we(1)] eq(5)])
    have f: "sl_pending f = sl_pending e" by (rule classify_slice_none(1) [OF st(5) workable_parts(1) [OF we(1)] lf])
    have waits: "\<not> has_pending_script_capacity (en_resolver env) (sl_pending f)"
      if "bt_get (pd_facts (sl_pending f)) k = Some (Awaiting source a)" for k source a
      using idle_waves [OF wc(1)] d e that by (auto simp: f)
    note rel = relieve_idle [OF wf(1) waits eq(6)]
    have "length (pd_active (sl_pending d)) = length (pd_active (sl_pending ?c))"
      "length (pd_active (sl_pending e)) = length (pd_active (sl_pending d))"
      using shape_sizes kept_next_parent_wave kept_next_confirmed_wave d e workable_parts(1) [OF wc(1)]
        workable_parts(1) [OF wd(1)] unfolding Pending_Props.kept_def by blast+
    then have "pd_active (sl_pending (relieve_slice env f)) \<noteq> []" using rel(2) lf active by auto
    from resolve_lightens [OF st(6) wr(1) rel(1) this] eq(7) show False by simp
  qed
qed

section \<open>The slices of a generation\<close>

text \<open>What is left to attempt, then the load of the pending slice.\<close>

definition attempts_left :: "mempool_entry list \<Rightarrow> classification_work \<Rightarrow> nat" where
  "attempts_left entries work = card (set (map me_wtxid entries) - set (wk_attempted work)) +
     card (set (map me_wtxid entries) - set (wk_raw_retry_used work))"

definition work_measure :: "mempool_entry list \<Rightarrow> classification_work \<Rightarrow> nat \<times> nat \<times> nat \<times> nat" where
  "work_measure entries work = (attempts_left entries work,
     case wk_pending work of None \<Rightarrow> (0, 0, 0) | Some p \<Rightarrow> load p)"

definition work_steady :: "slice_env \<Rightarrow> classification_work \<Rightarrow> bool" where
  "work_steady env work \<longleftrightarrow> (\<forall>p. wk_pending work = Some p \<longrightarrow> workable env p \<and> \<not> pending_is_empty p)"

definition continues :: "slice_end \<Rightarrow> bool" where
  "continues r \<longleftrightarrow> (\<exists>rp work cache. r = Reported rp work cache \<and> rp_disposition rp = Continue)"

definition same_attempts :: "classification_work \<Rightarrow> classification_work \<Rightarrow> bool" where
  "same_attempts w w' \<longleftrightarrow> wk_attempted w' = wk_attempted w \<and> wk_raw_retry_used w' = wk_raw_retry_used w"

lemma same_attempts_left: "same_attempts w w' \<Longrightarrow> attempts_left entries w' = attempts_left entries w"
  by (simp add: same_attempts_def attempts_left_def)

lemma same_attempts_trans: "same_attempts u v \<Longrightarrow> same_attempts v w \<Longrightarrow> same_attempts u w"
  by (simp add: same_attempts_def)

lemma insert_outputs_attempts: "same_attempts (fst wc) (fst (fold (insert_outputs maximum) es wc))"
proof (induction es arbitrary: wc)
  case (Cons e es)
  have "same_attempts (fst wc) (fst (insert_outputs maximum e wc))"
    by (cases e; cases wc) (simp add: insert_outputs_def Let_def same_attempts_def split: option.splits)
  from same_attempts_trans [OF this Cons] show ?case by simp
qed (simp add: same_attempts_def)

lemma store_facts_attempts: "store_facts env a (work, cache) = (work', cache') \<Longrightarrow> same_attempts work work'"
  using insert_outputs_attempts [of "(work, cache)" "max_auxiliary_cache_bytes (en_limits env)" "ad_outputs a"]
  by (auto simp: store_facts_def split: prod.splits)

lemma grant_retry_attempts:
  "attempts_left entries (grant_retry k work) \<le> attempts_left entries work"
proof (cases "k \<in> set (wk_raw_retry_used work)")
  case True
  then show ?thesis by (simp add: grant_retry_def)
next
  case False
  let ?W = "set (map me_wtxid entries)" and ?A = "set (wk_attempted work)" and ?R = "set (wk_raw_retry_used work)"
  let ?A' = "set (bs_remove k (wk_attempted work))"
  have rem: "?A' = ?A - {k}" by (auto simp: bs_remove_def)
  show ?thesis
  proof (cases "k \<in> ?W")
    case True
    have "?W - insert k ?R = (?W - ?R) - {k}" by blast
    then have "card (?W - ?R) = card (?W - insert k ?R) + 1"
      using True False card_Suc_Diff1 [of "?W - ?R" k] by simp
    moreover have "card (?W - ?A') \<le> card (insert k (?W - ?A))" unfolding rem by (intro card_mono) auto
    moreover have "card (insert k (?W - ?A)) \<le> card (?W - ?A) + 1" by (simp add: card_insert_if)
    ultimately show ?thesis using False by (simp add: attempts_left_def grant_retry_def)
  next
    case other: False
    have "?W - insert k ?R = ?W - ?R" "?W - ?A' = ?W - ?A" using other unfolding rem by blast+
    then show ?thesis using False by (simp add: attempts_left_def grant_retry_def)
  qed
qed

lemma grant_retries_attempts: "attempts_left entries (fold grant_retry ks work) \<le> attempts_left entries work"
  by (induction ks arbitrary: work) (auto intro: order.trans grant_retry_attempts)

lemma select_attempts:
  assumes "select_candidates maximum entries work = (cs, work')" "distinct (map me_wtxid entries)" "cs \<noteq> []"
  shows "attempts_left entries work' < attempts_left entries work"
proof -
  let ?es = "filter (fresh_entry work) entries @ filter (retryable_entry work) entries"
  have cs: "cs = bounded_variants (map expected_of ?es) maximum"
    and w: "work' = work\<lparr>wk_attempted := fold (\<lambda>c. bs_insert (ev_wtxid c)) cs (wk_attempted work)\<rparr>"
    using assms(1) by (auto simp: select_candidates_def Let_def)
  obtain rest where pre: "map expected_of ?es = cs @ rest"
    using bounded_loop_prefix [of maximum 0 "[]" "map expected_of ?es"] by (auto simp: cs bounded_variants_def)
  obtain c cs' where c: "cs = c # cs'" using assms(3) by (cases cs) auto
  have "c \<in> set (map expected_of ?es)" by (simp only: pre c) simp
  then obtain e where e: "e \<in> set entries" "me_wtxid e \<notin> set (wk_attempted work)" "c = expected_of e"
    by (auto simp: fresh_entry_def retryable_entry_def)
  have set: "set (fold (\<lambda>c. bs_insert (ev_wtxid c)) cs A) = ev_wtxid ` set cs \<union> set A" for A
    by (induction cs arbitrary: A) auto
  let ?W = "set (map me_wtxid entries)"
  have "?W - (ev_wtxid ` set cs \<union> set (wk_attempted work)) \<subset> ?W - set (wk_attempted work)"
    using e c by (auto simp: expected_of_def)
  then have "card (?W - (ev_wtxid ` set cs \<union> set (wk_attempted work))) < card (?W - set (wk_attempted work))"
    by (intro psubset_card_mono) simp
  then show ?thesis by (simp add: attempts_left_def w set)
qed

text \<open>A slice that selects nothing has no work left.\<close>

lemma select_nothing:
  assumes "select_candidates maximum entries work = ([], work')" "0 < maximum"
  shows "work' = work" "filter (\<lambda>e. me_wtxid e \<notin> set (wk_attempted work) \<and> unsettled work e) entries = []"
proof -
  let ?es = "filter (fresh_entry work) entries @ filter (retryable_entry work) entries"
  have cs: "bounded_variants (map expected_of ?es) maximum = []" and w: "work' = work"
    using assms(1) by (auto simp: select_candidates_def Let_def)
  show "work' = work" by (rule w)
  have es: "?es = []"
  proof (cases "map expected_of ?es")
    case (Cons v vs)
    then have "bounded_variants (map expected_of ?es) maximum =
        bounded_variants_loop maximum (sat_add 0 (estimated_raw_response_bytes v)) [v] vs"
      using assms(2) by (simp add: bounded_variants_def Let_def)
    moreover have "bounded_variants_loop maximum n [v] vs \<noteq> []" for n
      using bounded_loop_prefix [of maximum n "[v]" vs] by auto
    ultimately show ?thesis using cs by simp
  qed simp
  have "fresh_entry work e \<or> retryable_entry work e"
    if "me_wtxid e \<notin> set (wk_attempted work)" "unsettled work e" for e
    using that by (auto simp: fresh_entry_def retryable_entry_def unsettled_def bt_contains_def split: option.splits)
  then show "filter (\<lambda>e. me_wtxid e \<notin> set (wk_attempted work) \<and> unsettled work e) entries = []"
    using es by (fastforce simp: filter_empty_conv)
qed

lemma next_revision_attempts: "next_revision a w = Inr w' \<Longrightarrow> same_attempts w w' \<and> wk_pending w' = wk_pending w \<and>
    wk_classifications w' = wk_classifications w"
  by (auto simp: next_revision_def same_attempts_def split: if_splits option.splits)

lemma same_attempts_refl [simp]: "same_attempts w w"
  by (simp add: same_attempts_def)

text \<open>A slice that asks to be continued has met no failure of the endpoint itself.\<close>

lemma commit_systemic:
  assumes r: "commit_slice env pending a work cache checks = Reported rp work' cache'" "rp_disposition rp = Continue"
  shows "\<not> is_systemic a"
proof -
  have live: "en_live env checks" using r by (cases "en_live env checks") (auto simp: commit_slice_def report_stale_after_def)
  obtain w1 c1 where st: "store_facts env a (work, cache) = (w1, c1)" by fastforce
  obtain w where w: "next_revision a (store_classifications (ad_classifications a) w1) = Inr w"
    using r live by (cases "next_revision a (store_classifications (ad_classifications a) w1)")
      (auto simp: commit_slice_def Let_def st)
  show ?thesis
  proof (cases pending)
    case None
    then have "rp = finish_report env a w" using r(1) live by (auto simp: commit_slice_def Let_def st w)
    then show ?thesis using r(2) by (simp add: finish_report_def Let_def split: if_splits)
  next
    case (Some p)
    obtain c2 x y q where h: "hydrate_from_caches (en_variants env) (wk_outputs w) (en_resolver env) c1 p = (c2, x, y, q)"
      by (rule prod_cases4)
    let ?a = "a\<lparr>ad_facts_resolved := ad_facts_resolved a + x, ad_capacity_deferred := ad_capacity_deferred a + y\<rparr>"
    have rp: "rp = finish_report env ?a (w\<lparr>wk_pending := Some q\<rparr>)"
      using r(1) live by (auto simp: commit_slice_def Let_def st w Some h)
    have "is_systemic ?a = is_systemic a" by (simp add: is_systemic_def)
    then show ?thesis using r(2) by (auto simp: rp finish_report_def Let_def split: if_splits)
  qed
qed

text \<open>What a slice that asks to be continued has committed.\<close>

lemma commit_continues:
  assumes r: "commit_slice env pending a work cache checks = Reported rp work' cache'" "rp_disposition rp = Continue"
    and ok: "work_ok env work cache" and none: "wk_pending work = None"
    and p: "\<And>p. pending = Some p \<Longrightarrow> workable env p \<and> \<not> pending_is_empty p"
  shows "same_attempts work work'"
    "case pending of
       None \<Rightarrow> wk_pending work' = None \<and> remaining_work (en_entries env) work' \<noteq> 0 \<and>
         (ad_classifications a = [] \<longrightarrow> wk_classifications work' = wk_classifications work)
     | Some p \<Rightarrow> \<exists>q. wk_pending work' = Some q \<and> workable env q \<and> \<not> pending_is_empty q \<and> load q \<le> load p"
proof -
  have live: "en_live env checks" using r by (cases "en_live env checks") (auto simp: commit_slice_def report_stale_after_def)
  obtain w1 c1 where st: "store_facts env a (work, cache) = (w1, c1)" by fastforce
  have caches: "caches_ok (max_auxiliary_cache_bytes (en_limits env)) (work, cache)"
    using ok by (simp add: work_ok_def)
  note f = store_facts_spec [OF caches st]
  let ?w0 = "store_classifications (ad_classifications a) w1"
  obtain w where w: "next_revision a ?w0 = Inr w"
    using r live by (cases "next_revision a ?w0") (auto simp: commit_slice_def Let_def st)
  have same: "same_attempts work w" "wk_pending w = None" "wk_classifications w = wk_classifications ?w0"
    using next_revision_attempts [OF w] store_facts_attempts [OF st] f none
    by (auto simp: same_attempts_def store_classifications_def)
  have all: "same_attempts work work' \<and> (case pending of
       None \<Rightarrow> wk_pending work' = None \<and> remaining_work (en_entries env) work' \<noteq> 0 \<and>
         (ad_classifications a = [] \<longrightarrow> wk_classifications work' = wk_classifications work)
     | Some p \<Rightarrow> \<exists>q. wk_pending work' = Some q \<and> workable env q \<and> \<not> pending_is_empty q \<and> load q \<le> load p)"
  proof (cases pending)
    case None
    then have "work' = w" "rp = finish_report env a w"
      using r(1) live by (auto simp: commit_slice_def Let_def st w)
    then show ?thesis
      using r(2) same f by (simp add: None finish_report_def Let_def store_classifications_def split: if_splits)
  next
    case (Some p)
    obtain c2 x y q where h: "hydrate_from_caches (en_variants env) (wk_outputs w) (en_resolver env) c1 p = (c2, x, y, q)"
      by (rule prod_cases4)
    let ?a = "a\<lparr>ad_facts_resolved := ad_facts_resolved a + x, ad_capacity_deferred := ad_capacity_deferred a + y\<rparr>"
    have work': "work' = w\<lparr>wk_pending := Some q\<rparr>" "rp = finish_report env ?a (w\<lparr>wk_pending := Some q\<rparr>)"
      using r(1) live by (auto simp: commit_slice_def Let_def st w Some h)
    have c: "calm (en_lib env) (en_resolver env) p q" by (rule calm_hydrate_from_caches [OF h])
    have wp: "workable env p" "\<not> pending_is_empty p" using p [OF Some] by simp_all
    have "shape q = shape p"
      using kept_hydrate_from_caches [OF h, of "en_lib env"] workable_parts(1) [OF wp(1)] by (simp add: Pending_Props.kept_def)
    then have "\<not> pending_is_empty q" using shape_sizes [of q p] wp(2) by (auto simp: pending_is_empty_def)
    then show ?thesis using same(1) calm_workable [OF c wp(1)] by (simp add: Some work'(1) same_attempts_def)
  qed
  then show "same_attempts work work'"
    "case pending of
       None \<Rightarrow> wk_pending work' = None \<and> remaining_work (en_entries env) work' \<noteq> 0 \<and>
         (ad_classifications a = [] \<longrightarrow> wk_classifications work' = wk_classifications work)
     | Some p \<Rightarrow> \<exists>q. wk_pending work' = Some q \<and> workable env q \<and> \<not> pending_is_empty q \<and> load q \<le> load p"
    by simp_all
qed

lemma pending_run_continues:
  assumes r: "pending_slice_run env p a work cache checks = Reported rp work' cache'" "rp_disposition rp = Continue"
    and ok: "work_ok env work cache" and none: "wk_pending work = None" and p: "pending_ok env p" "workable env p"
    and recs: "ad_classifications a = []" and env: "answering env"
  shows "same_attempts work work'" "work_steady env work'"
    "\<not> pending_is_empty p \<Longrightarrow> work_measure (en_entries env) work' < (attempts_left (en_entries env) work, load p)"
proof -
  let ?s = "\<lparr> sl_work = work, sl_cache = cache, sl_pending = p, sl_advance = a, sl_paused = False,
      sl_checks = checks \<rparr>"
  have so: "slice_ok env work ?s" using ok p(1) recs by (simp add: slice_ok_def work_ok_def)
  obtain s where s: "facts_stage env ?s = Inr s"
    using r by (auto simp: pending_slice_run_def report_stale_after_def split: sum.splits slice_stop.splits)
  have ss: "slice_ok env work s" using facts_stage_ok [OF so] by (simp add: s)
  let ?pending = "if pending_is_empty (sl_pending s) then None else Some (sl_pending s)"
  have c: "commit_slice env ?pending (sl_advance s) work (sl_cache s) (sl_checks s) = Reported rp work' cache'"
    using r(1) s ss by (simp add: pending_slice_run_def slice_ok_def)
  have wok: "work_ok env work (sl_cache s)" using ss ok by (simp add: slice_ok_def work_ok_def)
  note ns = commit_systemic [OF c r(2)]
  note light = facts_stage_lightens [OF env _ s, unfolded slice_state.simps, OF p(2) ns]
  have pend: "\<And>q. ?pending = Some q \<Longrightarrow> workable env q \<and> \<not> pending_is_empty q"
    using light(1) by (simp split: if_splits)
  note cc = commit_continues [OF c r(2) wok none pend]
  show "same_attempts work work'" by (rule cc(1))
  show "work_steady env work'" using cc(2) by (auto simp: work_steady_def split: if_splits)
  show "work_measure (en_entries env) work' < (attempts_left (en_entries env) work, load p)"
    if some: "\<not> pending_is_empty p"
    using light(2) [OF some] cc(2) same_attempts_left [OF cc(1), of "en_entries env"]
    by (auto simp: work_measure_def load_def split: if_splits)
qed

lemma pending_new_workable:
  assumes "distinct (map (ev_wtxid \<circ> fst) txs)" "max_pending_script_bytes (en_resolver env) \<le> usize_max"
    "\<And>e tx. (e, tx) \<in> set txs \<Longrightarrow> 2 * length (tx_inputs tx) \<le> usize_max"
  shows "workable env (pending_new (en_lib env) (en_codec env) txs (en_variants env) (en_resolver env))"
proof -
  let ?p = "\<lparr> pd_queued = map (\<lambda>(expected, tx). \<lparr> pr_expected = expected, pr_transaction = tx \<rparr>) txs,
     pd_active = [], pd_fair_order = [], pd_facts = [], pd_deferred = [],
     pd_raw_outputs = fold (\<lambda>(expected, tx) m. case parse_txid (en_codec env) (ev_txid expected) of
         Some txid \<Rightarrow> bt_insert txid (cached_outputs_of expected tx) m | None \<Rightarrow> m) txs [],
     pd_script_bytes = 0 \<rparr>"
  have "workable env ?p"
    using assms by (auto simp: workable_def pending_inv_def facts_inv_def slice_inv_def needed_def bt_ok_def cursors_ok_def
        comp_def case_prod_unfold parents_current_def exhausted_def admitted_def queued_def)
  from activate_workable(1) [OF this refl] show ?thesis by (simp add: pending_new_def)
qed


text \<open>A new slice that asks to be continued has attempted a transaction.\<close>

lemma fresh_slice_continues:
  assumes r: "fresh_slice_run env work cache checks = Reported rp work' cache'" "rp_disposition rp = Continue"
    and src: "transaction_source (en_lib env) (en_raw env)" and env: "env_ok env" "answering env"
    and ok: "work_ok env work cache" and none: "wk_pending work = None"
  shows "work_steady env work'" "attempts_left (en_entries env) work' < attempts_left (en_entries env) work"
proof -
  let ?n = "max_transactions_per_slice (en_limits env)"
  obtain cs w1 where sel: "select_candidates ?n (en_entries env) work = (cs, w1)" by fastforce
  have d: "distinct (map me_wtxid (en_entries env))" and usize: "max_pending_script_bytes (en_resolver env) \<le> usize_max"
    and nulls: "\<forall>(e, tx) \<in> set (found_values (en_raw env cs)). \<not> is_coinbase (en_lib env) tx \<longrightarrow>
      list_all (\<lambda>i. \<not> is_null (en_lib env) (previous_output i)) (tx_inputs tx)"
    using env(1) by (fastforce simp: env_ok_def found_values_def List.map_filter_def split: rpc_value.splits)+
  note cand = select_candidates_spec [OF sel d]
  have w1: "work_ok env w1 cache" "wk_pending w1 = None"
    using ok none work_ok_core [OF cand(3)] cand(3) by (auto simp: same_core_def)
  have some: "cs \<noteq> []"
  proof
    assume cs: "cs = []"
    have w: "w1 = work" and idle: "filter (\<lambda>e. me_wtxid e \<notin> set (wk_attempted work) \<and> unsettled work e) (en_entries env) = []"
      using select_nothing [OF sel [unfolded cs]] env(2) by (simp_all add: answering_def)
    have c: "commit_slice env None (advance_default\<lparr>ad_attempted := 0\<rparr>) work cache checks = Reported rp work' cache'"
      using r(1) by (simp add: fresh_slice_run_def sel cs w)
    note cc = commit_continues [OF c r(2) ok none, simplified]
    have "wk_classifications work' = wk_classifications work" "same_attempts work work'" "wk_pending work' = None"
      "remaining_work (en_entries env) work' \<noteq> 0"
      using cc by simp_all
    then show False using idle by (simp add: remaining_work_def same_attempts_def unsettled_def sat_add_def)
  qed
  let ?f = "en_raw env cs"
  let ?b = "absorb_counts ?f (advance_default\<lparr>ad_attempted := length cs\<rparr>)"
  obtain pending w2 a2 where adm: "admit_fetched env ?f w1 ?b = (pending, w2, a2)"
    by (rule prod_cases3)
  note fresh = transaction_source.admit_fetched_ok [OF src adm refl cand(1,2) usize nulls]
  have w2: "work_ok env w2 cache" "wk_pending w2 = None"
    using w1 work_ok_core [OF fresh(1)] fresh(1) by (auto simp: same_core_def)
  have a2: "ad_classifications a2 = []" using fresh(2) by (simp add: absorb_counts_def)
  have run: "(case pending of None \<Rightarrow> commit_slice env None a2 w2 cache (checks + 1)
      | Some p \<Rightarrow> pending_slice_run env p a2 w2 cache (checks + 1)) = Reported rp work' cache'"
    using r some adm by (cases "en_live env checks"; cases pending)
      (auto simp: fresh_slice_run_def sel Let_def report_stale_after_def)
  have "w2 = fold grant_retry (retryable_variants ?f) w1"
    using adm by (auto simp: admit_fetched_def Let_def split: if_splits)
  then have "attempts_left (en_entries env) w2 \<le> attempts_left (en_entries env) w1"
    by (simp add: grant_retries_attempts)
  also note select_attempts [OF sel d some]
  finally have less: "attempts_left (en_entries env) w2 < attempts_left (en_entries env) work" .
  have "work_steady env work' \<and> same_attempts w2 work'"
  proof (cases pending)
    case None
    then have "commit_slice env None a2 w2 cache (checks + 1) = Reported rp work' cache'" using run by simp
    from commit_continues [OF this r(2) w2] show ?thesis by (simp add: work_steady_def)
  next
    case (Some p)
    have p: "p = pending_new (en_lib env) (en_codec env) (found_values ?f) (en_variants env) (en_resolver env)"
      using adm Some by (auto simp: admit_fetched_def Let_def split: if_splits)
    have "2 * length (tx_inputs tx) \<le> usize_max" if "(e, tx) \<in> set (found_values ?f)" for e tx
      using that env(2) by (fastforce simp: answering_def found_values_def List.map_filter_def split: rpc_value.splits)
    then have "workable env p"
      unfolding p using transaction_source.found_distinct(1) [OF src cand(1)] usize by (intro pending_new_workable)
    moreover have "pending_slice_run env p a2 w2 cache (checks + 1) = Reported rp work' cache'" using run Some by simp
    ultimately show ?thesis using pending_run_continues [OF _ r(2) w2 fresh(3) [OF Some] _ a2 env(2)] by blast
  qed
  then show "work_steady env work'" "attempts_left (en_entries env) work' < attempts_left (en_entries env) work"
    using less same_attempts_left [of w2 work' "en_entries env"] by simp_all
qed

text \<open>A slice that asks to be continued leaves less to do.\<close>

lemma classify_generation_continues:
  assumes r: "classify_generation env expected work cache = Reported rp work' cache'" "rp_disposition rp = Continue"
    and src: "transaction_source (en_lib env) (en_raw env)" and env: "env_ok env" "answering env"
    and ok: "work_ok env work cache" "work_steady env work"
  shows "work_steady env work'" "work_measure (en_entries env) work' < work_measure (en_entries env) work"
proof -
  have live: "\<not> (expected \<noteq> Some (en_id env) \<or> \<not> en_live env 0 \<or> \<not> en_live env 1)"
    using r by (auto simp: classify_generation_def report_stale_def split: if_splits)
  have "work_steady env work' \<and> work_measure (en_entries env) work' < work_measure (en_entries env) work"
  proof (cases "wk_pending work")
    case None
    then have "fresh_slice_run env work cache 2 = Reported rp work' cache'"
      using r(1) live by (simp add: classify_generation_def)
    from fresh_slice_continues [OF this r(2) src env ok(1) None] show ?thesis
      by (simp add: work_measure_def)
  next
    case (Some p)
    let ?w = "work\<lparr>wk_pending := None\<rparr>"
    have w: "work_ok env ?w cache" "pending_ok env p"
      using ok(1) Some by (simp_all add: work_ok_def caches_ok_def)
    have p: "workable env p" "\<not> pending_is_empty p" using ok(2) Some by (simp_all add: work_steady_def)
    have run: "pending_slice_run env p advance_default ?w cache 2 = Reported rp work' cache'"
      using r(1) live Some by (simp add: classify_generation_def)
    have "attempts_left (en_entries env) ?w = attempts_left (en_entries env) work" by (simp add: attempts_left_def)
    then show ?thesis
      using pending_run_continues [OF run r(2) w(1) _ w(2) p(1) _ env(2)] p(2) Some by (simp add: work_measure_def)
  qed
  then show "work_steady env work'" "work_measure (en_entries env) work' < work_measure (en_entries env) work"
    by simp_all
qed

end
