(* ===== verification/Completion.thy ===== *)
theory Completion
  imports Slice_Progress Runtime_Examples
begin

text \<open>
  The slices of an installed generation come to an end: with the requests of \<open>Fetch\<close> answering them, one
  pauses, or completes the generation, or finds its revision counter exhausted. The node is assumed to serve no stray
  null input, the codecs to be faithful, and the generation to stay current during each slice.
\<close>

section \<open>Slices in sequence\<close>

text \<open>The schedules of the requests of one slice.\<close>

record slice_schedules =
  ss_raw :: "expected_variant list \<Rightarrow> schedule"
  ss_parents :: "expected_variant list \<Rightarrow> schedule"
  ss_confirmed :: "out_point list \<Rightarrow> schedule"

definition env_under :: "rpc_world \<Rightarrow> classification_limits \<Rightarrow> slice_schedules \<Rightarrow> generation \<Rightarrow> slice_env" where
  "env_under w lim ss = env_of (slice_world w (ss_raw ss) (ss_parents ss) (ss_confirmed ss) lim)"

text \<open>A slice of the current generation, as the driver asks for it, and the coordinator after a number of them.\<close>

definition slice_turn :: "rpc_world \<Rightarrow> classification_limits \<Rightarrow> slice_schedules \<Rightarrow> coordinator \<Rightarrow> slice_end" where
  "slice_turn w lim ss cd = classify_next (slice_world w (ss_raw ss) (ss_parents ss) (ss_confirmed ss) lim)
     (map_option cg_id (cd_current cd)) cd"

primrec after_turns ::
    "rpc_world \<Rightarrow> classification_limits \<Rightarrow> (nat \<Rightarrow> slice_schedules) \<Rightarrow> nat \<Rightarrow> coordinator \<Rightarrow> coordinator" where
  "after_turns w lim ss 0 cd = cd"
| "after_turns w lim ss (Suc n) cd =
     slice_effect (slice_turn w lim (ss n) (after_turns w lim ss n cd)) (after_turns w lim ss n cd)"

text \<open>How a sequence of slices stops.\<close>

definition stops :: "coordinator \<Rightarrow> slice_end \<Rightarrow> bool" where
  "stops cd r \<longleftrightarrow> (case cd_current cd of None \<Rightarrow> False | Some g \<Rightarrow> (case r of
     Reported rp work _ \<Rightarrow> rp_disposition rp = Paused \<or>
       rp_disposition rp = CompleteSlice \<and> remaining_work (transactions (cg_membership g)) work = 0
   | SliceFailed _ _ _ \<Rightarrow> wk_revision (cg_work g) = u64_max
   | SlicePanicked \<Rightarrow> False))"

section \<open>A slice of a generation that stays current\<close>

lemma still_current_live: "(\<And>n. en_live env n) \<Longrightarrow> still_current env s \<noteq> Inl e"
  by (simp add: still_current_def)

lemma classify_slice_not_superseded: "classify_slice env s \<noteq> Inl (Superseded t)"
  by (auto simp: classify_slice_def split: option.splits)

lemma recovery_pass_not_superseded: "(\<And>n. en_live env n) \<Longrightarrow> recovery_pass env s \<noteq> Inl (Superseded t)"
  by (auto simp: recovery_pass_def ok_then_def still_current_def classify_slice_not_superseded split: sum.splits)

lemma recover_not_superseded: "(\<And>n. en_live env n) \<Longrightarrow> recover_known_facts env s \<noteq> Inl (Superseded t)"
proof (induction env s rule: recover_known_facts.induct)
  case (1 env s)
  then show ?case
    using recovery_pass_not_superseded [of env s t]
    by (auto simp: recover_known_facts.simps [of env s] split: sum.splits)
qed

lemma resolve_not_superseded: "(\<And>n. en_live env n) \<Longrightarrow> resolve_capacity_pressure env once s \<noteq> Inl (Superseded t)"
proof (induction env once s rule: resolve_capacity_pressure.induct)
  case (1 env once s)
  then show ?case
    using recover_not_superseded [of env s t]
    by (auto simp: resolve_capacity_pressure.simps [of env once s] split: sum.splits prod.splits)
qed

lemma stages_live:
  assumes "\<And>n. en_live env n"
  shows "parent_stage env s \<noteq> Inl e" "confirmed_stage env s \<noteq> Inl e"
  using assms by (auto simp: parent_stage_def confirmed_stage_def Let_def ok_then_def still_current_def
      split: prod.splits if_splits)

lemma facts_stage_not_superseded: "(\<And>n. en_live env n) \<Longrightarrow> facts_stage env s \<noteq> Inl (Superseded t)"
  by (auto simp: facts_stage_def Let_def ok_then_def still_current_live stages_live classify_slice_not_superseded
      resolve_not_superseded split: sum.splits)

lemma commit_slice_current:
  "(\<And>n. en_live env n) \<Longrightarrow> commit_slice env pending a work cache checks = Reported rp work' cache' \<Longrightarrow> \<not> rp_stale rp"
  by (auto simp: commit_slice_def finish_report_def Let_def split: prod.splits sum.splits option.splits)

lemma pending_slice_current:
  assumes live: "\<And>n. en_live env n" and r: "pending_slice_run env p a work cache checks = Reported rp work' cache'"
  shows "\<not> rp_stale rp"
  using r commit_slice_current [OF live] facts_stage_not_superseded [OF live]
  by (auto simp: pending_slice_run_def split: sum.splits slice_stop.splits)

lemma classify_generation_current:
  assumes live: "\<And>n. en_live env n"
    and r: "classify_generation env (Some (en_id env)) work cache = Reported rp work' cache'"
  shows "\<not> rp_stale rp"
  using r live commit_slice_current [OF live] pending_slice_current [OF live]
  by (auto simp: classify_generation_def fresh_slice_run_def Let_def split: option.splits prod.splits if_splits)

section \<open>The world of a slice\<close>

text \<open>
  What the codecs of \<open>rust-bitcoin\<close> are relied on for: the text of a transaction id is parsed back, and
  every input of a transaction takes characters of its hex form.
\<close>

definition faithful_codecs :: "rpc_world \<Rightarrow> bool" where
  "faithful_codecs w \<longleftrightarrow> (\<forall>t. parse_txid (rw_codec w) (show_txid (rw_codec w) t) = Some t) \<and>
     (\<forall>hex tx. decode_transaction_hex (rw_node w) hex = Some tx \<longrightarrow> length (tx_inputs tx) \<le> length hex)"

text \<open>The checks of the confirmed requests find the generation current: the slice holds the gate.\<close>

definition undisturbed :: "slice_schedules \<Rightarrow> bool" where
  "undisturbed ss \<longleftrightarrow> (\<forall>req i. sc_live (ss_confirmed ss req) i)"

lemma env_under_fields [simp]:
  "en_id (env_under w lim ss g) = cg_id g" "en_entries (env_under w lim ss g) = transactions (cg_membership g)"
  "en_lib (env_under w lim ss g) = rw_lib w" "en_codec (env_under w lim ss g) = rw_codec w"
  "en_variants (env_under w lim ss g) = cg_variants g" "en_limits (env_under w lim ss g) = lim"
  "en_resolver (env_under w lim ss g) = resolver_production (max_auxiliary_cache_bytes lim)"
  "en_live (env_under w lim ss g) n"
  by (simp_all add: env_under_def env_of_def slice_world_def)

lemma confirmed_answers:
  assumes "0 < lanes" "\<forall>i. sc_live sc i" "f = the (fetch_confirmed_prevouts_concurrently codec node sc lanes ks)"
    and clean: "\<not> fetch_systemic f" and k: "k \<in> set ks"
  shows "\<exists>v. (k, v) \<in> set (cf_values f) \<and> v \<noteq> SystemicFailure"
proof -
  have ok: "\<not> fetch_failed f" using clean by (simp add: fetch_failed_def fetch_systemic_def)
  have f: "SystemicFailure \<notin> snd ` set (cf_values f)" "mset (map fst (cf_values f)) = mset ks"
    using confirmed_rpc.fetch_concurrently_spec [of codec node sc lanes ks] assms(1-3) ok
    unfolding fetch_confirmed_prevouts_concurrently_def by (auto simp: confirmed_lanes_def)
  have "k \<in> fst ` set (cf_values f)" using k mset_eq_setD [OF f(2)] by simp
  then show ?thesis using f(1) by force
qed

lemma world_answers:
  assumes w: "faithful_codecs w" and lim: "limits_new slots lanes bytes = Inr lim" and u: "undisturbed ss"
  shows "answering (env_under w lim ss g)"
proof -
  have l: "0 < max_transactions_per_slice lim" "0 < prevout_rpc_lanes lim"
    using lim by (auto simp: limits_new_def prevout_rpc_lanes_def split: if_splits)
  have "2 * length (tx_inputs tx) \<le> usize_max"
    if "(e, Found tx) \<in> set (cf_values (en_raw (env_under w lim ss g) req))" for req e tx
  proof -
    have "(e, Found tx) \<in> set (cf_values (raw_source (rw_lib w) (rw_node w) (ss_raw ss) (rpc_lanes lim) req))"
      using that by (simp add: env_under_def slice_world_def)
    from raw_source_found [OF this] obtain hex where
      "length hex \<le> MAX_TRANSACTION_HEX_CHARACTERS" "decode_transaction_hex (rw_node w) hex = Some tx"
      by (auto simp: right_transaction_def)
    then have "length (tx_inputs tx) \<le> MAX_TRANSACTION_HEX_CHARACTERS"
      using w by (meson faithful_codecs_def order.trans)
    then show ?thesis by (simp add: MAX_TRANSACTION_HEX_CHARACTERS_def)
  qed
  moreover have "\<exists>v. (k, v) \<in> set (cf_values (en_confirmed (env_under w lim ss g) ks)) \<and> v \<noteq> SystemicFailure"
    if "\<not> fetch_systemic (en_confirmed (env_under w lim ss g) ks)" "k \<in> set ks" for ks k
  proof -
    have "en_confirmed (env_under w lim ss g) ks =
        the (fetch_confirmed_prevouts_concurrently (rw_codec w) (rw_node w) (ss_confirmed ss ks) (prevout_rpc_lanes lim) ks)"
      by (simp add: env_under_def env_of_def slice_world_def)
    from confirmed_answers [OF l(2) _ this that] u show ?thesis by (simp add: undisturbed_def)
  qed
  ultimately show ?thesis using w l(1) by (auto simp: answering_def faithful_codecs_def)
qed

text \<open>What the slices keep of the generation they work on.\<close>

definition sliceable :: "rpc_world \<Rightarrow> classification_limits \<Rightarrow> coordinator \<Rightarrow> bool" where
  "sliceable w lim cd \<longleftrightarrow> (\<exists>g. cd_current cd = Some g \<and> distinct (map me_wtxid (transactions (cg_membership g))) \<and>
     (\<forall>ss. work_ok (env_under w lim ss g) (cg_work g) (cd_cache cd) \<and> work_steady (env_under w lim ss g) (cg_work g)))"

definition work_of :: "coordinator \<Rightarrow> nat \<times> nat \<times> nat \<times> nat" where
  "work_of cd = (case cd_current cd of None \<Rightarrow> (0, 0, 0, 0)
   | Some g \<Rightarrow> work_measure (transactions (cg_membership g)) (cg_work g))"

lemma work_independent:
  "work_ok (env_under w lim ss (g\<lparr>cg_work := work\<rparr>)) v cache = work_ok (env_under w lim ss' g) v cache"
  "work_steady (env_under w lim ss (g\<lparr>cg_work := work\<rparr>)) v = work_steady (env_under w lim ss' g) v"
  by (simp_all add: work_ok_def pending_ok_def eligible_def work_steady_def workable_def)

lemma slice_turn_spec:
  assumes w: "sane_world w" "faithful_codecs w" and lim: "limits_new slots lanes bytes = Inr lim" and u: "undisturbed ss"
    and cd: "sliceable w lim cd"
  shows "if continues (slice_turn w lim ss cd)
    then sliceable w lim (slice_effect (slice_turn w lim ss cd) cd) \<and>
      work_of (slice_effect (slice_turn w lim ss cd) cd) < work_of cd
    else stops cd (slice_turn w lim ss cd)"
proof -
  obtain g where g: "cd_current cd = Some g" "distinct (map me_wtxid (transactions (cg_membership g)))"
      "\<And>ss. work_ok (env_under w lim ss g) (cg_work g) (cd_cache cd)" "\<And>ss. work_steady (env_under w lim ss g) (cg_work g)"
    using cd by (auto simp: sliceable_def)
  let ?env = "env_under w lim ss g" and ?r = "slice_turn w lim ss cd"
  have r: "?r = classify_generation ?env (Some (en_id ?env)) (cg_work g) (cd_cache cd)"
    using g(1) by (simp add: slice_turn_def classify_next_def env_under_def)
  have src: "transaction_source (en_lib ?env) (en_raw ?env)"
    by (simp add: env_under_def slice_world_def rpc_source.transaction_source_axioms)
  have "list_all (\<lambda>i. \<not> is_null (rw_lib w) (previous_output i)) (tx_inputs tx)"
    if f: "(e, Found tx) \<in> set (cf_values (raw_source (rw_lib w) (rw_node w) (ss_raw ss) (rpc_lanes lim) req))"
      and nc: "\<not> is_coinbase (rw_lib w) tx" for req e tx
    using raw_source_found [OF f] w(1) nc by (auto simp: sane_world_def right_transaction_def)
  then have env: "env_ok ?env"
    using g(2) by (simp add: env_ok_def) (simp add: env_under_def slice_world_def resolver_production_def resolver_constants)
  have fin: "end_ok ?env (cg_work g) ?r" using classify_generation_ok [OF src env g(3)] by (simp add: r)
  show ?thesis
  proof (cases "continues ?r")
    case True
    then obtain rp work cache where rp: "?r = Reported rp work cache" "rp_disposition rp = Continue"
      by (auto simp: continues_def)
    have "work_steady ?env work \<and> work_measure (en_entries ?env) work < work_measure (en_entries ?env) (cg_work g)"
      using classify_generation_continues [OF rp(1) [unfolded r] rp(2) src env world_answers [OF w(2) lim u] g(3,4)] by blast
    moreover have "work_ok ?env work cache" using fin by (simp add: rp end_ok_def)
    ultimately show ?thesis
      using True g(1,2) work_independent [where g = g and ss' = ss]
      by (simp add: rp(1) slice_effect_def sliceable_def work_of_def)
  next
    case False
    have "stops cd ?r"
    proof (cases ?r)
      case (Reported rp work cache)
      have "\<not> rp_stale rp" using Reported by (intro classify_generation_current [of ?env]) (simp_all add: r)
      moreover have "rp_disposition rp \<noteq> Continue" using False Reported by (auto simp: continues_def)
      ultimately show ?thesis
        using fin g(1) by (cases "rp_disposition rp") (auto simp: Reported end_ok_def stops_def report_ok_def)
    qed (use fin g(1) in \<open>auto simp: end_ok_def stops_def\<close>)
    then show ?thesis using False by simp
  qed
qed

text \<open>The slices get less to do until one stops.\<close>

lemma turns_stop:
  assumes w: "sane_world w" "faithful_codecs w" and lim: "limits_new slots lanes bytes = Inr lim"
    and u: "\<And>i. undisturbed (ss i)" and cd: "sliceable w lim cd"
  shows "\<exists>n. (\<forall>m < n. continues (slice_turn w lim (ss m) (after_turns w lim ss m cd))) \<and>
    stops (after_turns w lim ss n cd) (slice_turn w lim (ss n) (after_turns w lim ss n cd))"
proof -
  let ?cd = "\<lambda>n. after_turns w lim ss n cd" and ?r = "\<lambda>n. slice_turn w lim (ss n) (after_turns w lim ss n cd)"
  note step = slice_turn_spec [OF w lim u]
  have keep: "sliceable w lim (?cd n)" if "\<forall>m < n. continues (?r m)" for n
    using that
  proof (induction n)
    case (Suc n)
    then have "sliceable w lim (?cd n)" "continues (?r n)" by simp_all
    with step [of "?cd n" n] show ?case by simp
  qed (simp add: cd)
  have "\<exists>n. \<not> continues (?r n)"
  proof (rule ccontr)
    assume "\<nexists>n. \<not> continues (?r n)"
    then have "work_of (?cd (Suc n)) < work_of (?cd n)" for n
      using keep [of n] step [of "?cd n" n] by simp
    then show False using wf_no_infinite_down_chainE [OF wf, of "\<lambda>n. work_of (?cd n)"] by blast
  qed
  then obtain n where n: "\<not> continues (?r n)" "\<forall>m < n. continues (?r m)"
    using exists_least_iff [of "\<lambda>n. \<not> continues (?r n)"] by blast
  then show ?thesis using step [OF keep [OF n(2)], of n] by auto
qed

lemma installed_sliceable:
  assumes cd: "coordinator_ok (max_auxiliary_cache_bytes lim) cd" and m: "snapshot_ok m" "distinct (map me_wtxid (transactions m))"
    and i: "install_snapshot (rw_codec w) lim m cd = Inr (gs, cd')"
  shows "sliceable w lim cd'"
proof -
  let ?max = "max_auxiliary_cache_bytes lim" and ?gid = "cd_next_generation cd + 1"
  obtain variants where v: "install_generation (rw_codec w) ?max m variants ?gid cd = (gs, cd')"
    using i by (auto simp: install_snapshot_Inr)
  obtain g where g: "cd_current cd' = Some g" "cg_membership g = m" "wk_pending (cg_work g) = None"
    using installed_in_step [OF cd m v] by blast
  have "coordinator_ok ?max cd'" using install_work(1) [OF cd, of "rw_codec w" m variants ?gid] v by simp
  then have "classified_ok (wk_classifications (cg_work g))" "caches_ok ?max (cg_work g, cd_cache cd')"
    using g(1) by (simp_all add: coordinator_ok_def)
  then show ?thesis using g m(2) by (simp add: sliceable_def work_ok_def work_steady_def)
qed

text \<open>
  C4: The slices of a generation come to an end. Assume that the node serves no transaction with a stray null input
  (\<open>sane_world\<close>; with one a slice can panic), that the text of a transaction id is parsed back and a transaction has no
  more inputs than its hex form has characters (\<open>faithful_codecs\<close>), and that no later generation is installed while
  a slice awaits confirmed outputs (\<open>undisturbed\<close>, which the gate provides). Then, from the installation of a
  membership on, if the slices are repeated as long as they ask to be continued, whatever else the node answers and in
  whatever order, after finitely many a slice pauses because the endpoint failed, or it completes the generation with no
  work remaining, or the revision counter of the generation is exhausted, and none of these slices panics. So a node
  that keeps answering with retryable errors, or facts that never fit the cache, cannot keep the driver at one
  generation for ever.
\<close>

theorem generation_slices_end:
  assumes "sane_world w" "faithful_codecs w" "limits_new slots lanes bytes = Inr lim" "\<And>i. undisturbed (ss i)"
    and "coordinator_ok (max_auxiliary_cache_bytes lim) cd" "snapshot_ok m" "distinct (map me_wtxid (transactions m))"
    and "install_snapshot (rw_codec w) lim m cd = Inr (gs, cd')"
  shows "\<exists>n. (\<forall>i < n. continues (slice_turn w lim (ss i) (after_turns w lim ss i cd'))) \<and>
    stops (after_turns w lim ss n cd') (slice_turn w lim (ss n) (after_turns w lim ss n cd'))"
  using assms(1-4) by (rule turns_stop) (rule installed_sliceable [OF assms(5-8)])

section \<open>An example\<close>

text \<open>The node of \<open>example_world\<close>, which here decodes no empty text, and the wire of \<open>example_schedule\<close>.\<close>

definition finishing_world :: rpc_world where
  "finishing_world = example_world\<lparr>rw_node := example_node\<lparr>decode_transaction_hex :=
     (\<lambda>hex. if hex = [] then None else Some example_spend)\<rparr>\<rparr>"

definition example_schedules :: slice_schedules where
  "example_schedules = \<lparr> ss_raw = (\<lambda>_. example_schedule), ss_parents = (\<lambda>_. example_schedule),
     ss_confirmed = (\<lambda>_. example_schedule) \<rparr>"

lemma finishing_world_ok: "sane_world finishing_world" "faithful_codecs finishing_world" "undisturbed example_schedules"
proof -
  show "sane_world finishing_world"
    by (simp add: sane_world_def finishing_world_def example_world_def example_input example_not_null)
  have "unat x mod 256 = unat x" for x :: u8 using unsigned_less [of x, where ?'a = nat] by simp
  then have "parse_txid (rw_codec example_world) (show_txid (rw_codec example_world) t) = Some t" for t
    by (simp add: example_world_def comp_def)
  moreover have "Suc 0 \<le> length hex" if "hex \<noteq> []" for hex :: string
    using that by (cases hex) simp_all
  ultimately show "faithful_codecs finishing_world"
    by (simp add: faithful_codecs_def finishing_world_def example_input)
  show "undisturbed example_schedules" by (simp add: undisturbed_def example_schedules_def example_schedule_def)
qed

theorem generation_slices_end_witness:
  "\<exists>m gs cd n. transactions m = example_entries \<and>
     install_snapshot (rw_codec finishing_world) (so_limits example_source) m (so_coordinator example_source) = Inr (gs, cd) \<and>
     stops (after_turns finishing_world (so_limits example_source) (\<lambda>_. example_schedules) n cd)
       (slice_turn finishing_world (so_limits example_source) example_schedules
         (after_turns finishing_world (so_limits example_source) (\<lambda>_. example_schedules) n cd))"
proof -
  let ?lim = "so_limits example_source" and ?cd = "so_coordinator example_source" and ?c = "rw_codec finishing_world"
  obtain m client where m: "get_mempool_snapshot example_membership_node True ''core'' ''Core'' (SinceEpoch 5)
      (SinceEpoch 9) example_client 7 = (Inr m, client, 7)" "transactions m = example_entries"
    using example_snapshot by blast
  have "rc_max_mempool_entries example_client \<le> MAX_SUPPORTED_MEMPOOL_ENTRIES"
    using example_limit by (simp add: example_client_def)
  from membership_snapshot_spec [OF m(1) this]
  have mok: "snapshot_ok m" "distinct (map me_wtxid (transactions m))" by blast+
  have "\<exists>variants. membership_variants ?c es v = Inr variants" for es v
    by (induction es arbitrary: v) (simp_all add: finishing_world_def example_world_def)
  then obtain variants where v: "membership_variants ?c (transactions m) [] = Inr variants" by blast
  obtain gs cd where "install_generation ?c 1000 m variants 1 ?cd = (gs, cd)" by fastforce
  then have i: "install_snapshot ?c ?lim m ?cd = Inr (gs, cd)"
    using v by (simp add: install_snapshot_Inr example_source_def atlas_source_new_def coordinator_new_def)
  have lim: "limits_new 1 1 1000 = Inr ?lim"
    by (simp add: limits_new_def MAX_TRANSACTIONS_PER_SLICE_def MAX_RPC_LANES_def MAX_AUXILIARY_CACHE_BYTES_def
        example_source_def atlas_source_new_def)
  have "coordinator_ok (max_auxiliary_cache_bytes ?lim) ?cd"
    using coordinator_new_ok [of 1000] by (simp add: example_source_def atlas_source_new_def)
  from generation_slices_end [OF finishing_world_ok(1,2) lim finishing_world_ok(3) this mok i]
  show ?thesis using i m(2) by blast
qed

end
