(* ===== verification/Spec2Isabelle.thy ===== *)
theory Spec2Isabelle
  imports Pending_Examples Slice_Props Rpc_Batch Publisher_Props Startup Completion
begin

text \<open>
  Mempool Atlas polls Bitcoin nodes for their mempools, classifies every transaction against the BIP-110
  policy and three descriptive lenses, and serves the current classified snapshot over HTTP. This
  library models its Rust core, \<^verbatim>\<open>src/src\<close>, and proves what makes it correct.

  \<^bold>\<open>The program.\<close> \<^verbatim>\<open>main.rs\<close> reads the configuration and builds the sources. Of each source,
  \<^verbatim>\<open>runtime.rs\<close> lets \<^verbatim>\<open>rpc.rs\<close> collect a membership snapshot every interval and installs it as a new
  generation of the pipeline; between rounds it runs bounded slices of \<^verbatim>\<open>classification.rs\<close>, which fetch
  transactions and spent outputs with batches of \<^verbatim>\<open>classification_rpc.rs\<close> over \<^verbatim>\<open>rpc_transport.rs\<close>.
  \<^verbatim>\<open>bip110/\<close> and \<^verbatim>\<open>classifiers.rs\<close> judge one transaction; \<^verbatim>\<open>model.rs\<close> validates and materializes what
  is published; \<^verbatim>\<open>runtime/publisher.rs\<close> holds the published state and its encoded response; \<^verbatim>\<open>api.rs\<close>
  serves it.

  \<^bold>\<open>Theories and sources.\<close>
  \<^item> \<^verbatim>\<open>Prelude\<close>, \<^verbatim>\<open>BTree\<close>: checked and saturating arithmetic, fallible code as sums (\<open>ok_then\<close> is the \<^verbatim>\<open>?\<close>
    operator), and \<^verbatim>\<open>BTreeMap\<close>/\<^verbatim>\<open>BTreeSet\<close> as strictly sorted association lists.
  \<^item> \<^verbatim>\<open>Bitcoin\<close>: transactions, and the \<^verbatim>\<open>bitcoin\<close> crate as a record of functions the source calls
    (\<open>rust_bitcoin\<close>); \<open>reference_bitcoin\<close> is a concrete instance for witnesses.
  \<^item> \<^verbatim>\<open>Bip110_Types\<close>, \<^verbatim>\<open>_Scan\<close>, \<^verbatim>\<open>_Input\<close>, \<^verbatim>\<open>_Eval\<close> and their properties \<^verbatim>\<open>_Input_Props\<close>, \<^verbatim>\<open>_Input_Rules\<close>,
    \<^verbatim>\<open>_Eval_Props\<close>, \<^verbatim>\<open>_Policy\<close>: \<^verbatim>\<open>bip110/\<close>.
  \<^item> \<^verbatim>\<open>Arc4\<close>, \<^verbatim>\<open>Classifiers\<close>, \<^verbatim>\<open>Data_Protocols\<close>, \<^verbatim>\<open>Classifier_Props\<close>, \<^verbatim>\<open>Data_Protocol_Props\<close>: \<^verbatim>\<open>classifiers.rs\<close>,
    \<^verbatim>\<open>classifiers/arc4.rs\<close>.
  \<^item> \<^verbatim>\<open>Model_Types\<close>, \<^verbatim>\<open>Model_Snapshot\<close>, \<^verbatim>\<open>Model_Classification\<close>: \<^verbatim>\<open>model.rs\<close>. \<^verbatim>\<open>Evidence\<close>: the record built for a
    transaction (\<^verbatim>\<open>classification_from_evidence\<close>).
  \<^item> \<^verbatim>\<open>Resolver_Types\<close>, \<^verbatim>\<open>Script_Cache\<close>, \<^verbatim>\<open>Pending\<close>, \<^verbatim>\<open>Pending_Ops\<close>, \<^verbatim>\<open>Pipeline\<close>, \<^verbatim>\<open>Slice\<close> and their \<^verbatim>\<open>_Props\<close>,
    \<^verbatim>\<open>_Safety\<close>, \<^verbatim>\<open>_Waves\<close>, \<^verbatim>\<open>_Examples\<close>: \<^verbatim>\<open>classification.rs\<close>, from its limits and caches to one whole slice.
    \<^verbatim>\<open>Pending_Progress\<close>, \<^verbatim>\<open>Slice_Progress\<close>, \<^verbatim>\<open>Completion\<close>: the slices of a generation come to an end.
  \<^item> \<^verbatim>\<open>Transport\<close>: \<^verbatim>\<open>rpc_transport.rs\<close>. \<^verbatim>\<open>Membership\<close>: \<^verbatim>\<open>rpc.rs\<close>, the client, its endpoint check, the
    streaming decoder of a verbose mempool and the snapshot between two readings of the tip.
  \<^item> \<^verbatim>\<open>Rpc_Batch\<close>: one batch of \<^verbatim>\<open>classification_rpc.rs\<close>. \<^verbatim>\<open>Fetch\<close>: its concurrent lanes, the calls of one
    batch, and the closures of \<^verbatim>\<open>classification.rs\<close> that turn answers into transactions and scripts.
  \<^item> \<^verbatim>\<open>Publisher\<close>, \<^verbatim>\<open>Publisher_Props\<close>: \<^verbatim>\<open>runtime/publisher.rs\<close>, one step for each critical section.
  \<^item> \<^verbatim>\<open>Runtime\<close>: \<^verbatim>\<open>runtime.rs\<close>, the sources, the registry and the two tasks as the step relation
    \<open>atlas_step\<close>; \<^verbatim>\<open>Runtime_Sync\<close>, \<^verbatim>\<open>Runtime_Props\<close>, \<^verbatim>\<open>Runtime_Examples\<close>: their invariant and properties.
  \<^item> \<^verbatim>\<open>Api\<close>, \<^verbatim>\<open>Api_Props\<close>: \<^verbatim>\<open>api.rs\<close>, its handlers, tags and cache policy. \<^verbatim>\<open>Startup\<close>: \<^verbatim>\<open>main.rs\<close>.

  \<^bold>\<open>Interfaces.\<close> Each is a locale, interpreted on the model of the code that provides it.
  \<^item> \<open>ordered_map\<close>: what lookups return after insertions and removals, by the sorted lists of \<^verbatim>\<open>BTree\<close>.
  \<^item> \<open>script_decoder\<close>: what the crate's instruction iterator promises the scripts' readers.
  \<^item> \<open>wave_visit\<close>: how the scans that select parents and outpoints move through the candidates.
  \<^item> \<open>fact_cache\<close>: what a slice relies on in the cache of confirmed scripts.
  \<^item> \<open>batch_lanes\<close>: the concurrent requests over one kind of batch, for raw transactions and outputs.
  \<^item> \<open>transaction_source\<close>: what a slice relies on in the fetched transactions, by \<^verbatim>\<open>Fetch\<close>.

  \<^bold>\<open>What the lemmas show.\<close>
  \<^item> One transaction: each rule is reported exactly when the scripts break it; the accumulating loops
    compute the evidence of the inputs one by one; learning more never overturns a verdict; the record
    always passes the validation of \<^verbatim>\<open>model.rs\<close>.
  \<^item> One slice: the facts held are exactly those needed, within their bytes; a wave takes all it can; no
    \<^verbatim>\<open>unreachable!\<close> is reached if every transaction is well formed; a slice keeps the invariant of its coordinator and advances the revision by one.
  \<^item> All slices: each that asks to be continued lessens \<open>work_measure\<close>, the entries and retries not used, then
    how far the facts of the pending slice are from settled; so the driver cannot stay at one generation for ever.
    Assumed are \<open>sane_world\<close>, \<open>faithful_codecs\<close> and that the generation stays current while a slice runs.
  \<^item> The network: a response is returned whole or refused; a batch answers each request by its own id; the
    lanes answer each request once; a snapshot holds exactly the members of one mempool reading, between
    two readings of the same tip, which do not prove that the tip never changed in between.
  \<^item> The running program, with an encoder that does not fail and a node that serves no stray null input
    (\<open>sane_world\<close>): \<open>atlas_inv\<close> holds of every reachable state. It ties the publisher to the pipeline
    (\<open>source_inv\<close>: either in step, or one named publication behind), so no publication conflicts, no check
    of the publisher fails, and the published records are those of the pipeline.
    The assumption on the node is needed: \<open>null_input_among_several_panics\<close> shows the \<^verbatim>\<open>unreachable!\<close> of
    \<^verbatim>\<open>classify_ready\<close> reached by a transaction that consensus excludes and that nothing in the code rejects.
  \<^item> The edge: what start-up accepts satisfies the hypotheses of these theorems, and what the handlers serve
    is the published state, under its tag.

  \<^bold>\<open>Numbers, bounds and fuel.\<close> Fields of 64 bits are words, and checked or saturating as in the code.
  Lengths and counters of type \<^verbatim>\<open>usize\<close> are natural numbers with \<open>usize_max\<close> written where the code
  checks or saturates. Revisions are bounded by JavaScript's safe integers in the code, so the theorems
  of the running program speak of the first \<open>2 ^ 53\<close> steps. The lanes' loop is a \<open>partial_function\<close> over
  the schedule of completions, and \<open>join_loop_ends\<close> proves that it returns; the
  other loops are total functions.

  \<^bold>\<open>Concurrency.\<close> A critical section of a lock is one step; between two of them anything else may happen. The
  polls of one round run concurrently, so their outcomes come in any order. What the nodes answer, the
  clock and the schedule of the lanes are chosen freely at each step.

  \<^bold>\<open>Parameters.\<close> The \<^verbatim>\<open>bitcoin\<close> crate's decoding, hashing and script classes; \<^verbatim>\<open>serde_json\<close>'s reading and
  writing of whole values; \<^verbatim>\<open>minreq\<close>'s exchange of a request for a response. Their
  documented behaviour is a named hypothesis where a theorem needs it, and a witness instantiates it.

  \<^bold>\<open>Not modelled.\<close> Logging, the parsing of the command line, the listening socket and shutdown signals, which
  only call libraries; compression, static files and the matching of paths, which are \<^verbatim>\<open>axum\<close>'s and
  \<^verbatim>\<open>tower_http\<close>'s; the derived serializers; \<^verbatim>\<open>lib.rs\<close>, which only declares the modules; test code.
\<close>

end
